(* ===== verification/Go_Base.thy ===== *)
theory Go_Base
  imports Main "HOL-Library.Signed_Division"
begin

text \<open>
  The prelude of the development: the Go language features the modelled code relies on and
  the generic lemmas the components share.

  \<^item> Fixed-width signed integers are values of \<^typ>\<open>int\<close> together with the wrap-around
    \<open>wrap w\<close>, applied wherever the Go code computes at that width; \<open>i32\<close> and \<open>i64\<close>
    name the two widths the program uses.
  \<^item> Go's \<open>/\<close> and \<open>%\<close> truncate towards zero: they are \<open>sdiv\<close> and \<open>smod\<close>
    of HOL-Library; \<open>go_arith\<close> collects the rules that turn them into \<open>div\<close> and
    \<open>mod\<close> so that linear arithmetic applies.
  \<^item> A Go call that may fail returns a pair (value, error); its model is a sum, \<open>Inl\<close>
    for the error.
\<close>

named_theorems go_arith \<open>truncating division and wrap-around as linear arithmetic\<close>

section \<open>Fixed-width integers\<close>

definition wrap :: "nat \<Rightarrow> int \<Rightarrow> int" where
  "wrap w x = (x + 2 ^ (w - 1)) mod 2 ^ w - 2 ^ (w - 1)"

abbreviation i32 :: "int \<Rightarrow> int" where "i32 \<equiv> wrap 32"
abbreviation i64 :: "int \<Rightarrow> int" where "i64 \<equiv> wrap 64"

definition int32 :: "int \<Rightarrow> bool" where
  "int32 x \<longleftrightarrow> - 2147483648 \<le> x \<and> x \<le> 2147483647"

definition int64 :: "int \<Rightarrow> bool" where
  "int64 x \<longleftrightarrow> - 9223372036854775808 \<le> x \<and> x \<le> 9223372036854775807"

lemma i32_eq: "i32 x = (x + 2147483648) mod 4294967296 - 2147483648"
  by (simp add: wrap_def)

lemma i64_eq: "i64 x = (x + 9223372036854775808) mod 18446744073709551616 - 9223372036854775808"
  by (simp add: wrap_def)

lemma i32_id [simp]: "int32 x \<Longrightarrow> i32 x = x"
  by (simp add: i32_eq int32_def)

lemma i64_id [simp]: "int64 x \<Longrightarrow> i64 x = x"
  by (simp add: i64_eq int64_def)

lemma int32_i32 [simp]: "int32 (i32 x)"
proof -
  have "0 \<le> (x + 2147483648) mod 4294967296" "(x + 2147483648) mod 4294967296 < 4294967296"
    by simp_all
  then show ?thesis unfolding int32_def i32_eq by linarith
qed

lemma int64_i64 [simp]: "int64 (i64 x)"
proof -
  have "0 \<le> (x + 9223372036854775808) mod 18446744073709551616"
    "(x + 9223372036854775808) mod 18446744073709551616 < 18446744073709551616"
    by simp_all
  then show ?thesis unfolding int64_def i64_eq by linarith
qed

lemma int32_int64: "int32 x \<Longrightarrow> int64 x"
  by (simp add: int32_def int64_def)

lemma wrap_add_left [simp]: "wrap w (wrap w a + b) = wrap w (a + b)"
  by (simp add: wrap_def mod_simps algebra_simps)

lemma wrap_minus_right: "wrap w (a - wrap w b) = wrap w (a - b)"
proof -
  have "(a - ((b + 2 ^ (w - 1)) mod 2 ^ w - 2 ^ (w - 1)) + 2 ^ (w - 1)) mod 2 ^ w
      = (a + 2 * 2 ^ (w - 1) - (b + 2 ^ (w - 1)) mod 2 ^ w) mod 2 ^ w"
    by (simp add: algebra_simps)
  also have "\<dots> = (a + 2 * 2 ^ (w - 1) - (b + 2 ^ (w - 1))) mod 2 ^ w"
    by (simp add: mod_simps)
  finally show ?thesis by (simp add: wrap_def algebra_simps)
qed

section \<open>Truncating division\<close>

lemma sdiv_pos [go_arith]:
  "0 < b \<Longrightarrow> a sdiv b = (if 0 \<le> a then a div b else - ((- a) div b))" for a b :: int
  by (cases "a = 0") (auto simp: signed_divide_int_def sgn_if)

lemma smod_pos [go_arith]:
  "0 < b \<Longrightarrow> a smod b = (if 0 \<le> a then a mod b else - ((- a) mod b))" for a b :: int
  by (cases "a = 0") (auto simp: signed_modulo_int_def sgn_if)

lemma sdiv_smod_pos: "0 < b \<Longrightarrow> b * (a sdiv b) + a smod b = a" for a b :: int
proof (cases "0 \<le> a")
  case False
  assume "0 < b"
  moreover have "- (b * (- a div b)) - - a mod b = a"
    using mult_div_mod_eq [of b "- a"] by linarith
  ultimately show ?thesis using False by (simp add: go_arith)
qed (simp add: go_arith)

lemma abs_smod_pos: "0 < b \<Longrightarrow> \<bar>a smod b\<bar> < b" for a b :: int
  by (simp add: go_arith)

lemma smod_nonneg: "0 < b \<Longrightarrow> 0 \<le> a \<Longrightarrow> 0 \<le> a smod b" for a b :: int
  by (simp add: go_arith)

lemma smod_nonpos: "0 < b \<Longrightarrow> a \<le> 0 \<Longrightarrow> a smod b \<le> 0" for a b :: int
  by (simp add: go_arith)

lemma sdiv_nonneg: "0 < b \<Longrightarrow> 0 \<le> a \<Longrightarrow> 0 \<le> a sdiv b" for a b :: int
  by (simp add: go_arith pos_imp_zdiv_nonneg_iff)

lemma sdiv_nonpos: "0 < b \<Longrightarrow> a \<le> 0 \<Longrightarrow> a sdiv b \<le> 0" for a b :: int
  by (simp add: go_arith pos_imp_zdiv_nonneg_iff)

lemma abs_sdiv_le: "0 < b \<Longrightarrow> \<bar>a sdiv b\<bar> \<le> \<bar>a\<bar>" for a b :: int
proof -
  assume b: "0 < b"
  have "\<bar>a\<bar> div b \<le> \<bar>a\<bar>"
    using b by (metis abs_ge_zero div_by_1 int_one_le_iff_zero_less zdiv_mono2 zero_less_one)
  moreover have "0 \<le> \<bar>a\<bar> div b" using b by (simp add: pos_imp_zdiv_nonneg_iff)
  ultimately show ?thesis using b by (cases "0 \<le> a") (auto simp: go_arith)
qed

lemma sdiv_unique:
  fixes a b q r :: int
  assumes "a = b * q + r" "0 < b" "\<bar>r\<bar> < b" "0 \<le> a \<Longrightarrow> 0 \<le> r" "a \<le> 0 \<Longrightarrow> r \<le> 0"
  shows "a sdiv b = q" and "a smod b = r"
proof -
  have "a sdiv b = q \<and> a smod b = r"
  proof (cases "0 \<le> a")
    case True
    with assms have "0 \<le> r" "r < b" by auto
    with assms(1,2) True show ?thesis
      by (simp add: go_arith div_pos_pos_trivial)
  next
    case False
    with assms have r: "0 \<le> - r" "- r < b" by auto
    have "- a = b * (- q) + (- r)" using assms(1) by simp
    with r assms(2) have "(- a) div b = - q" "(- a) mod b = - r"
      by (metis int_div_pos_eq, metis int_mod_pos_eq)
    with False assms(2) show ?thesis by (simp add: go_arith)
  qed
  then show "a sdiv b = q" "a smod b = r" by simp_all
qed

lemma sdiv_sdiv_pos:
  fixes a b c :: int
  assumes "0 < b" "0 < c"
  shows "(a sdiv b) sdiv c = a sdiv (b * c)"
proof -
  have *: "(x div b) div c = x div (b * c)" for x
    using assms by (simp add: zdiv_zmult2_eq)
  show ?thesis
  proof (cases "0 \<le> a")
    case True
    with assms show ?thesis by (simp add: go_arith pos_imp_zdiv_nonneg_iff *)
  next
    case False
    have "0 \<le> - a div b" using False assms by (simp add: pos_imp_zdiv_nonneg_iff)
    with False assms show ?thesis
      by (cases "- a div b = 0") (auto simp: go_arith * [symmetric])
  qed
qed

lemma smod_smod_sdiv:
  fixes a b c :: int
  assumes "0 < b" "0 < c"
  shows "(a smod (b * c)) sdiv b = (a sdiv b) smod c"
    and "(a smod (b * c)) smod b = a smod b"
proof -
  let ?q = "(a sdiv b) smod c"
  have a: "a = b * (a sdiv b) + a smod b" and ab: "a sdiv b = c * ((a sdiv b) sdiv c) + ?q"
    and abc: "a = (b * c) * (a sdiv (b * c)) + a smod (b * c)"
    using sdiv_smod_pos [of b a] sdiv_smod_pos [of c "a sdiv b"] sdiv_smod_pos [of "b * c" a] assms
    by simp_all
  have eq: "a smod (b * c) = b * ?q + a smod b"
  proof -
    have "b * (a sdiv b) = b * c * (a sdiv (b * c)) + b * ?q"
      using arg_cong [OF ab, of "\<lambda>x. b * x"] assms by (simp add: sdiv_sdiv_pos algebra_simps)
    with a abc show ?thesis by linarith
  qed
  have r: "0 \<le> a smod b \<and> 0 \<le> ?q \<or> a smod b \<le> 0 \<and> ?q \<le> 0"
    using assms by (cases "0 \<le> a") (simp_all add: smod_nonneg smod_nonpos sdiv_nonneg sdiv_nonpos)
  have "0 \<le> a smod (b * c) \<Longrightarrow> 0 \<le> a smod b" "a smod (b * c) \<le> 0 \<Longrightarrow> a smod b \<le> 0"
    using r eq assms by (smt (verit) mult_nonneg_nonneg mult_nonneg_nonpos)+
  then show "(a smod (b * c)) sdiv b = ?q" "(a smod (b * c)) smod b = a smod b"
    using sdiv_unique [OF eq assms(1) abs_smod_pos [OF assms(1)]] by blast+
qed

section \<open>Results\<close>

text \<open>Sequencing of calls that may fail: the first error wins.\<close>

definition bind_res :: "'e + 'a \<Rightarrow> ('a \<Rightarrow> 'e + 'b) \<Rightarrow> 'e + 'b" where
  "bind_res m f = (case m of Inl e \<Rightarrow> Inl e | Inr x \<Rightarrow> f x)"

lemma bind_res_simps [simp]:
  "bind_res (Inl e) f = Inl e"
  "bind_res (Inr x) f = f x"
  by (simp_all add: bind_res_def)

lemma bind_res_Inr_iff:
  "bind_res m f = Inr y \<longleftrightarrow> (\<exists>x. m = Inr x \<and> f x = Inr y)"
  by (cases m) auto

lemma bind_res_Inl_iff:
  "bind_res m f = Inl e \<longleftrightarrow> m = Inl e \<or> (\<exists>x. m = Inr x \<and> f x = Inl e)"
  by (cases m) auto

lemma bind_res_assoc: "bind_res (bind_res m f) g = bind_res m (\<lambda>x. bind_res (f x) g)"
  by (cases m) auto

text \<open>Several steps in a row, stopping at the first error.\<close>

fun fold_res :: "('s \<Rightarrow> 'r \<Rightarrow> 'e + 's) \<Rightarrow> 's \<Rightarrow> 'r list \<Rightarrow> 'e + 's" where
  "fold_res f s [] = Inr s"
| "fold_res f s (r # rs) = bind_res (f s r) (\<lambda>s'. fold_res f s' rs)"

lemma fold_res_append: "fold_res f s (xs @ ys) = bind_res (fold_res f s xs) (\<lambda>s. fold_res f s ys)"
proof (induction xs arbitrary: s)
  case (Cons x xs)
  show ?case by (cases "f s x") (simp_all add: Cons)
qed simp

end
