(* ===== verification/Go_Strings.thy ===== *)
theory Go_Strings
  imports Go_Base "HOL-Library.Sublist"
begin

text \<open>
  The parts of Go's \<open>strings\<close>, \<open>strconv\<close> and \<open>fmt\<close> packages that the
  modelled code uses, on byte strings (a \<^typ>\<open>char\<close> is one byte): decimal printing and
  parsing, \<open>strings.TrimSpace\<close>, and the print/parse round trips the components build on.
\<close>

section \<open>Decimal digits\<close>

definition is_digit :: "char \<Rightarrow> bool" where
  "is_digit c \<longleftrightarrow> 48 \<le> (of_char c :: nat) \<and> (of_char c :: nat) \<le> 57"

definition digit_char :: "nat \<Rightarrow> char" where
  "digit_char d = char_of (48 + d)"

definition digit_val :: "char \<Rightarrow> nat" where
  "digit_val c = of_char c - 48"

fun dec_nat :: "nat \<Rightarrow> string" where
  "dec_nat n = (if n < 10 then [digit_char n] else dec_nat (n div 10) @ [digit_char (n mod 10)])"

declare dec_nat.simps [simp del]

definition digits_val :: "string \<Rightarrow> nat" where
  "digits_val s = foldl (\<lambda>a c. 10 * a + digit_val c) 0 s"

definition dec_int :: "int \<Rightarrow> string" where
  "dec_int x = (if x < 0 then CHR ''-'' # dec_nat (nat (- x)) else dec_nat (nat x))"

lemma of_char_digit_char: "d < 10 \<Longrightarrow> (of_char (digit_char d) :: nat) = 48 + d"
  by (simp add: digit_char_def)

lemma is_digit_digit_char [simp]: "d < 10 \<Longrightarrow> is_digit (digit_char d)"
  by (simp add: is_digit_def of_char_digit_char)

lemma digit_val_digit_char [simp]: "d < 10 \<Longrightarrow> digit_val (digit_char d) = d"
  by (simp add: digit_val_def of_char_digit_char)

lemma dec_nat_digits [simp]: "\<forall>c \<in> set (dec_nat n). is_digit c"
proof (induction n rule: dec_nat.induct)
  case (1 n)
  then show ?case by (subst dec_nat.simps) (auto simp: dec_nat.simps [of n])
qed

lemma dec_nat_not_Nil [simp]: "dec_nat n \<noteq> []"
  by (subst dec_nat.simps) simp

lemma digits_val_snoc: "digits_val (s @ [c]) = 10 * digits_val s + digit_val c"
  by (simp add: digits_val_def)

lemma digits_val_dec_nat [simp]: "digits_val (dec_nat n) = n"
proof (induction n rule: dec_nat.induct)
  case (1 n)
  show ?case
  proof (cases "n < 10")
    case True
    then show ?thesis by (subst dec_nat.simps) (simp add: digits_val_def)
  next
    case False
    with 1 show ?thesis by (subst dec_nat.simps) (simp add: digits_val_snoc)
  qed
qed

lemma hd_dec_nat_digit [simp]: "is_digit (hd (dec_nat n))"
  using dec_nat_digits [of n] by (meson dec_nat_not_Nil list.set_sel(1))

lemma last_dec_nat_digit [simp]: "is_digit (last (dec_nat n))"
  using dec_nat_digits [of n] by (meson dec_nat_not_Nil last_in_set)

lemma digits_val_append: "digits_val (s @ t) = digits_val s * 10 ^ length t + digits_val t"
proof (induction t rule: rev_induct)
  case (snoc c t)
  have "digits_val (s @ t @ [c]) = 10 * digits_val (s @ t) + digit_val c"
    using digits_val_snoc [of "s @ t" c] by simp
  with snoc show ?case by (simp add: digits_val_snoc algebra_simps)
qed (simp add: digits_val_def)

lemma digit_val_less: "is_digit c \<Longrightarrow> digit_val c < 10"
  by (auto simp: is_digit_def digit_val_def)

lemma digits_val_less: "\<forall>c \<in> set s. is_digit c \<Longrightarrow> digits_val s < 10 ^ length s"
proof (induction s rule: rev_induct)
  case (snoc c s)
  then have "digits_val s < 10 ^ length s" "digit_val c < 10" by (auto intro: digit_val_less)
  then show ?case by (simp add: digits_val_snoc)
qed (simp add: digits_val_def)

lemma is_digit_zero [simp]: "is_digit CHR ''0''"
  by (simp add: is_digit_def)

lemma digits_val_zeros [simp]: "digits_val (replicate k CHR ''0'') = 0"
  by (induction k) (simp_all add: digits_val_def digit_val_def)

lemma length_dec_nat: "n < 10 ^ Suc k \<Longrightarrow> length (dec_nat n) \<le> Suc k"
proof (induction k arbitrary: n)
  case 0
  then show ?case by (simp add: dec_nat.simps [of n])
next
  case (Suc k)
  show ?case
  proof (cases "n < 10")
    case False
    have "n div 10 < 10 ^ Suc k" using Suc.prems by (simp add: less_mult_imp_div_less mult.commute)
    from Suc.IH [OF this] False show ?thesis by (simp add: dec_nat.simps [of n])
  qed (simp add: dec_nat.simps [of n])
qed

section \<open>Leading digits\<close>

text \<open>\<open>span_digits s\<close> splits the longest prefix of decimal digits off \<open>s\<close>.\<close>

definition span_digits :: "string \<Rightarrow> string \<times> string" where
  "span_digits s = (takeWhile is_digit s, dropWhile is_digit s)"

lemma span_digits_append [simp]:
  assumes "\<forall>c \<in> set ds. is_digit c" "rest = [] \<or> \<not> is_digit (hd rest)"
  shows "span_digits (ds @ rest) = (ds, rest)"
  using assms by (cases rest) (auto simp: span_digits_def takeWhile_append dropWhile_append)

lemma span_digits_all: "\<forall>c \<in> set ds. is_digit c \<Longrightarrow> span_digits ds = (ds, [])"
  using span_digits_append [of ds "[]"] by simp

section \<open>strconv.ParseInt\<close>

text \<open>
  \<open>strconv.ParseInt(s, 10, bits)\<close>: an optional sign and at least one digit; a value
  outside the width is a range error. Base 10 admits no underscores. The error carries no
  information the callers use beyond its presence.
\<close>

datatype parse_int_error = ErrSyntax | ErrRange

definition ParseInt :: "string \<Rightarrow> nat \<Rightarrow> parse_int_error + int" where
  "ParseInt s bits =
     (let (neg, ds) = (case s of
            c # cs \<Rightarrow> if c = CHR ''-'' then (True, cs) else if c = CHR ''+'' then (False, cs)
                     else (False, s)
          | [] \<Rightarrow> (False, []))
      in if ds = [] \<or> \<not> list_all is_digit ds then Inl ErrSyntax
         else let v = (if neg then - int (digits_val ds) else int (digits_val ds))
              in if - (2 ^ (bits - 1)) \<le> v \<and> v < 2 ^ (bits - 1) then Inr v else Inl ErrRange)"

lemma digit_not_sign: "is_digit c \<Longrightarrow> c \<noteq> CHR ''-''" "is_digit c \<Longrightarrow> c \<noteq> CHR ''+''"
  by (auto simp: is_digit_def)

lemma ParseInt_digits:
  assumes "ds \<noteq> []" "\<forall>c \<in> set ds. is_digit c"
  shows "ParseInt ds bits = (if int (digits_val ds) < 2 ^ (bits - 1)
                             then Inr (int (digits_val ds)) else Inl ErrRange)"
proof -
  obtain c cs where ds: "ds = c # cs" using assms(1) by (cases ds) auto
  with assms(2) have "c \<noteq> CHR ''-''" "c \<noteq> CHR ''+''" by (auto dest: digit_not_sign)
  moreover have "- (2 ^ (bits - 1)) \<le> int (digits_val ds)"
    by (smt (verit) of_nat_0_le_iff zero_less_power)
  ultimately show ?thesis using assms ds by (auto simp: ParseInt_def list_all_iff)
qed

lemma ParseInt_minus_digits:
  assumes "ds \<noteq> []" "\<forall>c \<in> set ds. is_digit c"
  shows "ParseInt (CHR ''-'' # ds) bits = (if int (digits_val ds) \<le> 2 ^ (bits - 1)
                             then Inr (- int (digits_val ds)) else Inl ErrRange)"
proof -
  have "- int (digits_val ds) < 2 ^ (bits - 1)"
    by (smt (verit) of_nat_0_le_iff zero_less_power)
  then show ?thesis using assms by (auto simp: ParseInt_def list_all_iff)
qed

lemma ParseInt_dec_int:
  assumes "- (2 ^ (bits - 1)) \<le> x" "x < 2 ^ (bits - 1)"
  shows "ParseInt (dec_int x) bits = Inr x"
  using assms ParseInt_digits [of "dec_nat (nat x)" bits]
    ParseInt_minus_digits [of "dec_nat (nat (- x))" bits]
  by (auto simp: dec_int_def)

section \<open>strings.TrimSpace\<close>

text \<open>
  \<open>TrimSpace\<close> removes leading and trailing white space as Unicode defines it: six ASCII
  characters and, in UTF-8, the multi-byte sequences listed here.
\<close>

definition ascii_space :: "char \<Rightarrow> bool" where
  "ascii_space c \<longleftrightarrow> (of_char c :: nat) \<in> {9, 10, 11, 12, 13, 32}"

definition utf8_space_seqs :: "string list" where
  "utf8_space_seqs =
     [[CHR 0xC2, CHR 0x85], [CHR 0xC2, CHR 0xA0], [CHR 0xE1, CHR 0x9A, CHR 0x80],
      [CHR 0xE2, CHR 0x80, CHR 0x80], [CHR 0xE2, CHR 0x80, CHR 0x81],
      [CHR 0xE2, CHR 0x80, CHR 0x82], [CHR 0xE2, CHR 0x80, CHR 0x83],
      [CHR 0xE2, CHR 0x80, CHR 0x84], [CHR 0xE2, CHR 0x80, CHR 0x85],
      [CHR 0xE2, CHR 0x80, CHR 0x86], [CHR 0xE2, CHR 0x80, CHR 0x87],
      [CHR 0xE2, CHR 0x80, CHR 0x88], [CHR 0xE2, CHR 0x80, CHR 0x89],
      [CHR 0xE2, CHR 0x80, CHR 0x8A], [CHR 0xE2, CHR 0x80, CHR 0xA8],
      [CHR 0xE2, CHR 0x80, CHR 0xA9], [CHR 0xE2, CHR 0x80, CHR 0xAF],
      [CHR 0xE2, CHR 0x81, CHR 0x9F], [CHR 0xE3, CHR 0x80, CHR 0x80]]"

definition space_len :: "string list \<Rightarrow> string \<Rightarrow> nat" where
  "space_len seqs s =
     (case s of [] \<Rightarrow> 0
      | c # cs \<Rightarrow> if ascii_space c then 1
                 else (case find (\<lambda>q. prefix q s) seqs of Some q \<Rightarrow> length q | None \<Rightarrow> 0))"

function trim_left :: "string list \<Rightarrow> string \<Rightarrow> string" where
  "trim_left seqs s =
     (if s \<noteq> [] \<and> 0 < space_len seqs s then trim_left seqs (drop (space_len seqs s) s) else s)"
  by pat_completeness auto
termination
  by (relation "measure (\<lambda>(_, s). length s)") auto

declare trim_left.simps [simp del]

definition TrimSpace :: "string \<Rightarrow> string" where
  "TrimSpace s =
     rev (trim_left (map rev utf8_space_seqs) (rev (trim_left utf8_space_seqs s)))"

text \<open>A printable ASCII character begins and ends no white space.\<close>

definition graphic :: "char \<Rightarrow> bool" where
  "graphic c \<longleftrightarrow> 33 \<le> (of_char c :: nat) \<and> (of_char c :: nat) \<le> 126"

lemma is_digit_graphic [simp]: "is_digit c \<Longrightarrow> graphic c"
  by (simp add: is_digit_def graphic_def)

lemma graphic_not_space: "graphic c \<Longrightarrow> \<not> ascii_space c"
  by (auto simp: graphic_def ascii_space_def)

lemma graphic_not_seq:
  assumes "graphic c" "q \<in> set utf8_space_seqs"
  shows "\<not> prefix q (c # cs)" "\<not> prefix (rev q) (c # cs)"
  using assms by (auto simp: graphic_def utf8_space_seqs_def)

lemma space_len_graphic:
  assumes "graphic c"
  shows "space_len utf8_space_seqs (c # cs) = 0"
    and "space_len (map rev utf8_space_seqs) (c # cs) = 0"
proof -
  have "find (\<lambda>q. prefix q (c # cs)) utf8_space_seqs = None"
    "find (\<lambda>q. prefix q (c # cs)) (map rev utf8_space_seqs) = None"
    using graphic_not_seq [OF assms] by (auto simp: find_None_iff)
  then show "space_len utf8_space_seqs (c # cs) = 0"
    "space_len (map rev utf8_space_seqs) (c # cs) = 0"
    using assms by (simp_all add: space_len_def graphic_not_space)
qed

lemma trim_left_graphic:
  assumes "s = [] \<or> graphic (hd s)"
  shows "trim_left utf8_space_seqs s = s" "trim_left (map rev utf8_space_seqs) s = s"
proof -
  have "s = [] \<or> space_len utf8_space_seqs s = 0 \<and> space_len (map rev utf8_space_seqs) s = 0"
    using assms by (cases s) (simp_all add: space_len_graphic)
  then show "trim_left utf8_space_seqs s = s" "trim_left (map rev utf8_space_seqs) s = s"
    by (subst trim_left.simps, auto)+
qed

lemma TrimSpace_graphic:
  assumes "s = [] \<or> graphic (hd s) \<and> graphic (last s)"
  shows "TrimSpace s = s"
proof -
  have "rev s = [] \<or> graphic (hd (rev s))" using assms by (auto simp: hd_rev)
  then show ?thesis using assms by (auto simp: TrimSpace_def trim_left_graphic)
qed

section \<open>Searching a byte\<close>

definition IndexByte :: "string \<Rightarrow> char \<Rightarrow> nat option" where
  "IndexByte s c = (if c \<in> set s then Some (length (takeWhile (\<lambda>d. d \<noteq> c) s)) else None)"

section \<open>Letters and runes\<close>

definition byte_in :: "nat \<Rightarrow> nat \<Rightarrow> char \<Rightarrow> bool" where
  "byte_in l u c \<longleftrightarrow> l \<le> (of_char c :: nat) \<and> (of_char c :: nat) \<le> u"

text \<open>The length of the UTF-8 sequence at the head of a string, 0 when it is not one.\<close>

definition utf8_len :: "string \<Rightarrow> nat" where
  "utf8_len s =
     (case s of
        [] \<Rightarrow> 0
      | c # r \<Rightarrow>
          if byte_in 0 0x7F c then 1
          else (case r of
            [] \<Rightarrow> 0
          | d # r2 \<Rightarrow>
              if byte_in 0xC2 0xDF c then (if byte_in 0x80 0xBF d then 2 else 0)
              else if byte_in 0xE0 0xEF c then
                (if byte_in (if c = CHR 0xE0 then 0xA0 else 0x80)
                            (if c = CHR 0xED then 0x9F else 0xBF) d
                    \<and> r2 \<noteq> [] \<and> byte_in 0x80 0xBF (hd r2) then 3 else 0)
              else if byte_in 0xF0 0xF4 c then
                (if byte_in (if c = CHR 0xF0 then 0x90 else 0x80)
                            (if c = CHR 0xF4 then 0x8F else 0xBF) d
                    \<and> 2 \<le> length r2 \<and> byte_in 0x80 0xBF (hd r2)
                    \<and> byte_in 0x80 0xBF (r2 ! 1) then 4 else 0)
              else 0))"

definition lower_char :: "char \<Rightarrow> char" where
  "lower_char c = (if 65 \<le> (of_char c :: nat) \<and> (of_char c :: nat) \<le> 90 then char_of ((of_char c :: nat) + 32) else c)"

text \<open>
  \<open>strings.EqualFold\<close> against a lower-case ASCII word: letters of either case, and for \<open>s\<close> and
  \<open>k\<close> also the long s (U+017F) and the Kelvin sign (U+212A), which fold to them.
\<close>

fun EqualFold_word :: "string \<Rightarrow> string \<Rightarrow> bool" where
  "EqualFold_word [] [] = True"
| "EqualFold_word (c # cs) (w # ws) =
     (if lower_char c = w then EqualFold_word cs ws
      else if w = CHR ''s'' \<and> c = CHR 0xC5 then
        (case cs of d # ds \<Rightarrow> d = CHR 0xBF \<and> EqualFold_word ds ws | [] \<Rightarrow> False)
      else if w = CHR ''k'' \<and> c = CHR 0xE2 then
        (case cs of d # e # ds \<Rightarrow> d = CHR 0x84 \<and> e = CHR 0xAA \<and> EqualFold_word ds ws | _ \<Rightarrow> False)
      else False)"
| "EqualFold_word _ _ = False"

definition upper_char :: "char \<Rightarrow> char" where
  "upper_char c = (if byte_in 97 122 c then char_of ((of_char c :: nat) - 32) else c)"

text \<open>
  \<open>strings.ToUpper\<close> and \<open>strings.ToLower\<close> of a text, as far as they yield ASCII: the long s
  (U+017F) and the dotless i (U+0131) have ASCII capitals; the Kelvin sign (U+212A) and the dotted I
  (U+0130) have ASCII small letters.
\<close>

fun upper_text :: "string \<Rightarrow> string" where
  "upper_text (c # d # s) =
     (if c = CHR 0xC5 \<and> d = CHR 0xBF then CHR ''S'' # upper_text s
      else if c = CHR 0xC4 \<and> d = CHR 0xB1 then CHR ''I'' # upper_text s
      else upper_char c # upper_text (d # s))"
| "upper_text s = map upper_char s"

fun lower_text :: "string \<Rightarrow> string" where
  "lower_text (c # d # s) =
     (if c = CHR 0xC4 \<and> d = CHR 0xB0 then CHR ''i'' # lower_text s
      else if c = CHR 0xE2 \<and> d = CHR 0x84 \<and> s \<noteq> [] \<and> hd s = CHR 0xAA then CHR ''k'' # lower_text (tl s)
      else lower_char c # lower_text (d # s))"
| "lower_text s = map lower_char s"

end
