(* ===== verification/Interval_Value.thy ===== *)
theory Interval_Value
  imports Go_Strings "HOL-Library.Monad_Syntax"
begin

text \<open>
  Model of \<open>internal/intervalvalue/intervalvalue.go\<close>: the seven-field INTERVAL struct, its
  canonical form, its two text forms (\<open>String\<close> and \<open>ISO8601\<close>) and its parser. The
  fields are Go \<open>int32\<close>; \<open>iv_int32\<close> says so, and \<open>i32\<close> marks the places where
  the code computes at 32 bits and can wrap around.

  The regular expressions of the parser are deterministic (each repetition is followed by a
  character it cannot contain), so each is modelled as a left-to-right matcher that returns the
  submatches.
\<close>

section \<open>The struct\<close>

record interval_value =
  Years :: int
  Months :: int
  Days :: int
  Hours :: int
  Minutes :: int
  Seconds :: int
  SubSecondNanos :: int

definition iv_int32 :: "interval_value \<Rightarrow> bool" where
  "iv_int32 iv \<longleftrightarrow> int32 (Years iv) \<and> int32 (Months iv) \<and> int32 (Days iv) \<and> int32 (Hours iv) \<and>
     int32 (Minutes iv) \<and> int32 (Seconds iv) \<and> int32 (SubSecondNanos iv)"

definition zero_interval :: interval_value where
  "zero_interval = \<lparr>Years = 0, Months = 0, Days = 0, Hours = 0, Minutes = 0, Seconds = 0,
     SubSecondNanos = 0\<rparr>"

definition int32abs :: "int \<Rightarrow> int" where
  "int32abs x = (if x < 0 then i32 (- x) else x)"

fun sameSign :: "int list \<Rightarrow> bool" where
  "sameSign nums = (let pos = length (filter (\<lambda>n. n > 0) nums);
                        neg = length (filter (\<lambda>n. n < 0) nums)
                    in \<not> (pos > 0 \<and> neg > 0))"

section \<open>Canonical form\<close>

definition IsCanonical :: "interval_value \<Rightarrow> bool" where
  "IsCanonical iv =
     (if \<not> sameSign [Years iv, Months iv] \<or> \<not> sameSign [Hours iv, Minutes iv] then False
      else if int32abs (Months iv) > 12 \<or> int32abs (Minutes iv) > 60 \<or>
              int32abs (Seconds iv) > 60 \<or> int32abs (SubSecondNanos iv) > 1000000000 then False
      else True)"

text \<open>
  The time part is reduced through whole seconds: \<open>norm_secs\<close> is the adjustment of the
  seconds and the sub-second remainder to one sign. Its intermediate values are \<open>int64\<close>
  in the code and cannot overflow there for 32-bit fields (\<open>Canonicalize_secs_int64\<close>).
\<close>

definition norm_secs :: "int \<Rightarrow> int \<Rightarrow> int \<times> int" where
  "norm_secs secs0 sub0 =
     (let secs = secs0 + sub0 sdiv 1000000000; sub = sub0 smod 1000000000
      in if secs > 0 \<and> sub < 0 then (secs - 1, sub + 1000000000)
         else if secs < 0 \<and> sub > 0 then (secs + 1, sub - 1000000000)
         else (secs, sub))"

definition Canonicalize :: "interval_value \<Rightarrow> interval_value" where
  "Canonicalize iv =
     (let totalMonths = i32 (i32 (Years iv * 12) + Months iv);
          years = totalMonths sdiv 12;
          totalMonths' = i32 (totalMonths - i32 (years * 12));
          (secs, sub) = norm_secs ((Hours iv * 60 + Minutes iv) * 60 + Seconds iv)
                                  (SubSecondNanos iv)
      in \<lparr>Years = years, Months = totalMonths' smod 12, Days = Days iv,
          Hours = i32 (secs sdiv 3600), Minutes = i32 ((secs sdiv 60) smod 60),
          Seconds = i32 (secs smod 60), SubSecondNanos = i32 sub\<rparr>)"

section \<open>Durations\<close>

definition IntervalValueFromDuration :: "int \<Rightarrow> interval_value" where
  "IntervalValueFromDuration nanos0 =
     (let h = i32 ((nanos0 sdiv 3600) sdiv 1000000000);
          nanos1 = i64 (nanos0 - i64 (i64 (h * 3600) * 1000000000));
          m = i32 ((nanos1 sdiv 60) sdiv 1000000000);
          nanos2 = i64 (nanos1 - i64 (i64 (m * 60) * 1000000000));
          s = i32 (nanos2 sdiv 1000000000);
          nanos3 = i64 (nanos2 - i64 (s * 1000000000))
      in \<lparr>Years = 0, Months = 0, Days = 0, Hours = h, Minutes = m, Seconds = s,
          SubSecondNanos = i32 nanos3\<rparr>)"

definition ToDuration :: "interval_value \<Rightarrow> int" where
  "ToDuration iv =
     (let a1 = i64 (i64 (12 * Years iv) + Months iv);
          a2 = i64 (i64 (a1 * 30) + Days iv);
          a3 = i64 (i64 (a2 * 24) + Hours iv);
          a4 = i64 (i64 (a3 * 60) + Minutes iv);
          a5 = i64 (i64 (a4 * 60) + Seconds iv)
      in i64 (i64 (a5 * 1000000000) + i32 (SubSecondNanos iv * 1000000000)))"

section \<open>Printing\<close>

text \<open>\<open>fmt.Sprintf("%09d", n)\<close>: zero padding to nine characters, the sign included.\<close>

definition sprintf_09d :: "int \<Rightarrow> string" where
  "sprintf_09d n =
     (if n < 0 then let ds = dec_nat (nat (- n)) in CHR ''-'' # replicate (8 - length ds) CHR ''0'' @ ds
      else let ds = dec_nat (nat n) in replicate (9 - length ds) CHR ''0'' @ ds)"

definition fractionDigits :: "int \<Rightarrow> string" where
  "fractionDigits nanos =
     (let s = sprintf_09d nanos
      in if nanos smod 1000000 = 0 then take 3 s
         else if nanos smod 1000 = 0 then take 6 s
         else s)"

definition String_iv :: "interval_value \<Rightarrow> string" where
  "String_iv iv =
     (let src = (if \<not> IsCanonical iv then Canonicalize iv else iv);
          ymSign = (if Years src < 0 \<or> Months src < 0 then ''-'' else []);
          timeSign = (if Hours src < 0 \<or> Minutes src < 0 \<or> Seconds src < 0 \<or> SubSecondNanos src < 0
                      then ''-'' else []);
          out = ymSign @ dec_int (int32abs (Years src)) @ ''-'' @ dec_int (int32abs (Months src)) @
                '' '' @ dec_int (Days src) @ '' '' @ timeSign @ dec_int (int32abs (Hours src)) @
                '':'' @ dec_int (int32abs (Minutes src)) @ '':'' @ dec_int (int32abs (Seconds src))
      in if SubSecondNanos src \<noteq> 0
         then out @ ''.'' @ fractionDigits (int32abs (SubSecondNanos src)) else out)"

definition iso_field :: "int \<Rightarrow> char \<Rightarrow> string" where
  "iso_field v unit = (if v \<noteq> 0 then dec_int v @ [unit] else [])"

definition trim_right_zeros :: "string \<Rightarrow> string" where
  "trim_right_zeros s = rev (dropWhile (\<lambda>c. c = CHR ''0'') (rev s))"

definition iso_seconds :: "int \<Rightarrow> int \<Rightarrow> string" where
  "iso_seconds secs sub =
     (if secs \<noteq> 0 \<or> sub \<noteq> 0 then
        (if secs < 0 \<or> sub < 0 then ''-'' else []) @ dec_int (int32abs secs) @
        (if sub \<noteq> 0 then ''.'' @ trim_right_zeros (sprintf_09d (int32abs sub)) else []) @ ''S''
      else [])"

definition ISO8601 :: "interval_value \<Rightarrow> string" where
  "ISO8601 iv =
     (let src = (if \<not> IsCanonical iv then Canonicalize iv else iv);
          b = ''P'' @ iso_field (Years src) CHR ''Y'' @ iso_field (Months src) CHR ''M'' @
              iso_field (Days src) CHR ''D'' @
              (if Hours src \<noteq> 0 \<or> Minutes src \<noteq> 0 \<or> Seconds src \<noteq> 0 \<or> SubSecondNanos src \<noteq> 0
               then ''T'' @ iso_field (Hours src) CHR ''H'' @ iso_field (Minutes src) CHR ''M'' @
                    iso_seconds (Seconds src) (SubSecondNanos src)
               else [])
      in if length b = 1 then ''P0Y'' else b)"

section \<open>Parsing\<close>

datatype interval_error = InvalidInterval string | InvalidIntervalField string parse_int_error

subsection \<open>Matchers for the regular expressions\<close>

definition m_sign :: "string \<Rightarrow> string \<times> string" where
  "m_sign s = (case s of c # cs \<Rightarrow> if c = CHR ''+'' \<or> c = CHR ''-'' then ([c], cs) else ([], s)
               | [] \<Rightarrow> ([], []))"

definition m_digits :: "string \<Rightarrow> (string \<times> string) option" where
  "m_digits s = (let (ds, rest) = span_digits s in if ds = [] then None else Some (ds, rest))"

definition m_lit :: "char \<Rightarrow> string \<Rightarrow> string option" where
  "m_lit c s = (case s of x # xs \<Rightarrow> if x = c then Some xs else None | [] \<Rightarrow> None)"

text \<open>The optional fraction \<open>(?:\.(\d{1,9}))?$\<close> at the end of the text.\<close>

definition m_fraction_end :: "string \<Rightarrow> string option" where
  "m_fraction_end s =
     (case s of [] \<Rightarrow> Some []
      | c # cs \<Rightarrow> if c = CHR ''.'' \<and> cs \<noteq> [] \<and> length cs \<le> 9 \<and> list_all is_digit cs
                 then Some cs else None)"

definition m_ym :: "string \<Rightarrow> (string \<times> string \<times> string \<times> string) option" where
  "m_ym s = do {
     let (sg, s) = m_sign s;
     (y, s) \<leftarrow> m_digits s;
     s \<leftarrow> m_lit CHR ''-'' s;
     (m, s) \<leftarrow> m_digits s;
     Some (sg, y, m, s) }"

definition m_day :: "string \<Rightarrow> (string \<times> string) option" where
  "m_day s = do {
     let (sg, s) = m_sign s;
     (d, s) \<leftarrow> m_digits s;
     Some (sg @ d, s) }"

definition m_hms :: "string \<Rightarrow> (string \<times> string \<times> string \<times> string \<times> string) option" where
  "m_hms s = do {
     let (sg, s) = m_sign s;
     (h, s) \<leftarrow> m_digits s;
     s \<leftarrow> m_lit CHR '':'' s;
     (m, s) \<leftarrow> m_digits s;
     s \<leftarrow> m_lit CHR '':'' s;
     (sec, s) \<leftarrow> m_digits s;
     f \<leftarrow> m_fraction_end s;
     Some (sg, h, m, sec, f) }"

text \<open>
  \<open>canonicalIntervalRe\<close> with its nine submatches: the sign of the Y-M group, years, months,
  the signed days, the sign of the time group, hours, minutes, seconds and the fraction.
\<close>

record canonical_groups =
  g_ymsign :: string
  g_years :: string
  g_months :: string
  g_days :: string
  g_tsign :: string
  g_hours :: string
  g_minutes :: string
  g_seconds :: string
  g_frac :: string

definition canonicalIntervalRe :: "string \<Rightarrow> canonical_groups option" where
  "canonicalIntervalRe s = do {
     (ys, y, m, s) \<leftarrow> m_ym s;
     s \<leftarrow> m_lit CHR '' '' s;
     (d, s) \<leftarrow> m_day s;
     s \<leftarrow> m_lit CHR '' '' s;
     (ts, h, mi, sec, f) \<leftarrow> m_hms s;
     Some \<lparr>g_ymsign = ys, g_years = y, g_months = m, g_days = d, g_tsign = ts, g_hours = h,
           g_minutes = mi, g_seconds = sec, g_frac = f\<rparr> }"

definition intervalYMRe :: "string \<Rightarrow> bool" where
  "intervalYMRe s = (case m_ym s of Some (_, _, _, rest) \<Rightarrow> rest = [] | None \<Rightarrow> False)"

definition intervalHMSRe :: "string \<Rightarrow> bool" where
  "intervalHMSRe s = (m_hms s \<noteq> None)"

definition intervalYMDRe :: "string \<Rightarrow> bool" where
  "intervalYMDRe s =
     (case m_ym s of None \<Rightarrow> False
      | Some (_, _, _, s1) \<Rightarrow> (case Option.bind (m_lit CHR '' '' s1) m_day of
            Some (_, rest) \<Rightarrow> rest = [] | None \<Rightarrow> False))"

definition intervalDHMSRe :: "string \<Rightarrow> bool" where
  "intervalDHMSRe s =
     (case m_day s of None \<Rightarrow> False
      | Some (_, s1) \<Rightarrow> Option.bind (m_lit CHR '' '' s1) m_hms \<noteq> None)"

definition expandPartialInterval :: "string \<Rightarrow> string option" where
  "expandPartialInterval s =
     (if intervalYMRe s then Some (s @ '' 0 0:0:0'')
      else if intervalHMSRe s then Some (''0-0 0 '' @ s)
      else if intervalYMDRe s then Some (s @ '' 0:0:0'')
      else if intervalDHMSRe s then Some (''0-0 '' @ s)
      else None)"

subsection \<open>ISO 8601 durations\<close>

text \<open>
  One optional group \<open>(?:([+-]?\d+)U)?\<close>: the submatch and the rest; the empty submatch when
  the group does not match here.
\<close>

definition m_unit :: "char \<Rightarrow> string \<Rightarrow> string \<times> string" where
  "m_unit u s =
     (let (sg, s1) = m_sign s
      in case m_digits s1 of
           Some (ds, c # rest) \<Rightarrow> if c = u then (sg @ ds, rest) else ([], s)
         | _ \<Rightarrow> ([], s))"

definition m_secs :: "string \<Rightarrow> string \<times> string \<times> string" where
  "m_secs s =
     (let (sg, s1) = m_sign s
      in case m_digits s1 of
           Some (ds, c # rest) \<Rightarrow>
             if c = CHR ''S'' then (sg @ ds, [], rest)
             else if c = CHR ''.'' \<or> c = CHR '','' then
               (case span_digits rest of
                  (f, c' # rest') \<Rightarrow> if f \<noteq> [] \<and> length f \<le> 9 \<and> c' = CHR ''S''
                                    then (sg @ ds, f, rest') else ([], [], s)
                | _ \<Rightarrow> ([], [], s))
             else ([], [], s)
         | _ \<Rightarrow> ([], [], s))"

record iso_groups =
  i_neg :: bool
  i_fields :: "string list"
  i_frac :: string

definition intervalISORe :: "string \<Rightarrow> iso_groups option" where
  "intervalISORe s0 = do {
     let (neg, s) = (case s0 of c # cs \<Rightarrow> if c = CHR ''-'' then (True, cs) else (False, s0)
                     | [] \<Rightarrow> (False, []));
     s \<leftarrow> m_lit CHR ''P'' s;
     let (y, s) = m_unit CHR ''Y'' s;
     let (mo, s) = m_unit CHR ''M'' s;
     let (w, s) = m_unit CHR ''W'' s;
     let (d, s) = m_unit CHR ''D'' s;
     case m_lit CHR ''T'' s of
       None \<Rightarrow> if s = [] then Some \<lparr>i_neg = neg, i_fields = [y, mo, w, d, [], [], []], i_frac = []\<rparr>
               else None
     | Some s \<Rightarrow>
         let (h, s) = m_unit CHR ''H'' s; (mi, s) = m_unit CHR ''M'' s; (sec, f, s) = m_secs s
         in if s = [] then Some \<lparr>i_neg = neg, i_fields = [y, mo, w, d, h, mi, sec], i_frac = f\<rparr>
            else None }"

definition has_suffix :: "string \<Rightarrow> string \<Rightarrow> bool" where
  "has_suffix s suf = (suffix suf s)"

text \<open>The loop over the submatches: an absent field is 0, a field out of range fails.\<close>

fun iso_ints :: "string list \<Rightarrow> int list option" where
  "iso_ints [] = Some []"
| "iso_ints (m # ms) =
     (case (if m = [] then Inr 0 else ParseInt m 32) of
        Inl _ \<Rightarrow> None
      | Inr n \<Rightarrow> map_option (\<lambda>ns. n # ns) (iso_ints ms))"

definition neg_interval :: "interval_value \<Rightarrow> interval_value" where
  "neg_interval iv =
     \<lparr>Years = i32 (- Years iv), Months = i32 (- Months iv), Days = i32 (- Days iv),
      Hours = i32 (- Hours iv), Minutes = i32 (- Minutes iv), Seconds = i32 (- Seconds iv),
      SubSecondNanos = i32 (- SubSecondNanos iv)\<rparr>"

definition parseISO8601Interval :: "string \<Rightarrow> interval_value option" where
  "parseISO8601Interval s =
     (case intervalISORe s of None \<Rightarrow> None
      | Some m \<Rightarrow>
          if s = ''P'' \<or> s = ''-P'' \<or> has_suffix s ''T'' then None
          else (case iso_ints (i_fields m) of None \<Rightarrow> None
                | Some f \<Rightarrow>
                   (case (if i_frac m \<noteq> [] then ParseInt (take 9 (i_frac m @ ''000000000'')) 32
                          else Inr 0) of Inl _ \<Rightarrow> None
                    | Inr n \<Rightarrow>
                       let nanos = (if i_frac m \<noteq> [] \<and> prefix ''-'' (i_fields m ! 6) then - n else n);
                           iv = \<lparr>Years = i32 (f ! 0), Months = i32 (f ! 1),
                                 Days = i32 (f ! 2 * 7 + f ! 3), Hours = i32 (f ! 4),
                                 Minutes = i32 (f ! 5), Seconds = i32 (f ! 6),
                                 SubSecondNanos = i32 nanos\<rparr>
                       in Some (if i_neg m then neg_interval iv else iv))))"

subsection \<open>ParseInterval\<close>

text \<open>The six decimal groups in the order of the code, then the fraction in nanoseconds.\<close>

fun atoi_all :: "string \<Rightarrow> string list \<Rightarrow> interval_error + int list" where
  "atoi_all v [] = Inr []"
| "atoi_all v (s # ss) =
     (case ParseInt s 32 of Inl e \<Rightarrow> Inl (InvalidIntervalField v e)
      | Inr n \<Rightarrow> (case atoi_all v ss of Inl e \<Rightarrow> Inl e | Inr ns \<Rightarrow> Inr (n # ns)))"

definition interval_of_groups :: "string \<Rightarrow> canonical_groups \<Rightarrow> interval_error + interval_value" where
  "interval_of_groups value m =
     bind_res (atoi_all value [g_years m, g_months m, g_days m, g_hours m, g_minutes m, g_seconds m])
       (\<lambda>parts. bind_res (if g_frac m \<noteq> []
                  then atoi_all value [take 9 (g_frac m @ ''000000000'')] else Inr [0])
         (\<lambda>frac.
           let ym = (\<lambda>x. if g_ymsign m = ''-'' then i32 (- x) else x);
               tm = (\<lambda>x. if g_tsign m = ''-'' then i32 (- x) else x)
           in Inr \<lparr>Years = ym (parts ! 0), Months = ym (parts ! 1), Days = parts ! 2,
                   Hours = tm (parts ! 3), Minutes = tm (parts ! 4), Seconds = tm (parts ! 5),
                   SubSecondNanos = tm (frac ! 0)\<rparr>))"

definition ParseInterval :: "string \<Rightarrow> interval_error + interval_value" where
  "ParseInterval value =
     (let s = TrimSpace value
      in case canonicalIntervalRe s of
           Some m \<Rightarrow> interval_of_groups value m
         | None \<Rightarrow>
             if prefix ''P'' s \<or> prefix ''-P'' s then
               (case parseISO8601Interval s of Some iv \<Rightarrow> Inr iv
                | None \<Rightarrow> Inl (InvalidInterval value))
             else (case Option.bind (expandPartialInterval s) canonicalIntervalRe of
                     Some m \<Rightarrow> interval_of_groups value m
                   | None \<Rightarrow> Inl (InvalidInterval value)))"

section \<open>The value an interval denotes\<close>

text \<open>
  The abstract reading of an interval: its months, its days and its time part in nanoseconds,
  as unbounded integers. A strictly canonical interval is the unique representative of its
  reading.
\<close>

definition total_months :: "interval_value \<Rightarrow> int" where
  "total_months iv = Years iv * 12 + Months iv"

definition time_secs :: "interval_value \<Rightarrow> int" where
  "time_secs iv = (Hours iv * 60 + Minutes iv) * 60 + Seconds iv"

definition time_nanos :: "interval_value \<Rightarrow> int" where
  "time_nanos iv = time_secs iv * 1000000000 + SubSecondNanos iv"

definition strictly_canonical :: "interval_value \<Rightarrow> bool" where
  "strictly_canonical iv \<longleftrightarrow>
     \<bar>Months iv\<bar> < 12 \<and> (0 \<le> Years iv \<and> 0 \<le> Months iv \<or> Years iv \<le> 0 \<and> Months iv \<le> 0) \<and>
     \<bar>Minutes iv\<bar> < 60 \<and> \<bar>Seconds iv\<bar> < 60 \<and> \<bar>SubSecondNanos iv\<bar> < 1000000000 \<and>
     (0 \<le> Hours iv \<and> 0 \<le> Minutes iv \<and> 0 \<le> Seconds iv \<and> 0 \<le> SubSecondNanos iv \<or>
      Hours iv \<le> 0 \<and> Minutes iv \<le> 0 \<and> Seconds iv \<le> 0 \<and> SubSecondNanos iv \<le> 0)"

text \<open>
  The reduction through seconds computes the quotient and remainder of the whole nanosecond
  total, which itself may need more than 64 bits.
\<close>

lemma norm_secs_eq:
  "norm_secs s u = ((s * 1000000000 + u) sdiv 1000000000, (s * 1000000000 + u) smod 1000000000)"
proof -
  obtain s' u' where n: "norm_secs s u = (s', u')" by fastforce
  have u: "1000000000 * (u sdiv 1000000000) + u smod 1000000000 = u"
    "\<bar>u smod 1000000000\<bar> < 1000000000"
    by (simp_all add: sdiv_smod_pos abs_smod_pos)
  have eq: "s * 1000000000 + u = 1000000000 * s' + u'"
    using n u(1) by (auto simp: norm_secs_def Let_def split: if_splits)
  have b: "\<bar>u'\<bar> < 1000000000"
    using n u(2) by (auto simp: norm_secs_def Let_def split: if_splits)
  have sg: "0 < s' \<longrightarrow> 0 \<le> u'" "s' < 0 \<longrightarrow> u' \<le> 0"
    using n u(2) by (auto simp: norm_secs_def Let_def split: if_splits)
  have "0 \<le> s * 1000000000 + u \<Longrightarrow> 0 \<le> u'" "s * 1000000000 + u \<le> 0 \<Longrightarrow> u' \<le> 0"
    using eq b sg by linarith+
  then show ?thesis using sdiv_unique [OF eq _ b] n by simp
qed

lemma Canonicalize_secs_int64:
  assumes "iv_int32 iv"
  shows "int64 (time_secs iv)" "int64 (time_secs iv + SubSecondNanos iv sdiv 1000000000)"
  using assms abs_sdiv_le [of 1000000000 "SubSecondNanos iv"]
  by (auto simp: iv_int32_def int32_def int64_def time_secs_def)

lemma Canonicalize_fields:
  assumes "int32 (total_months iv)" "int32 (time_nanos iv sdiv 3600000000000)"
  shows "Canonicalize iv =
    \<lparr>Years = total_months iv sdiv 12, Months = total_months iv smod 12, Days = Days iv,
     Hours = time_nanos iv sdiv 3600000000000,
     Minutes = (time_nanos iv sdiv 60000000000) smod 60,
     Seconds = (time_nanos iv sdiv 1000000000) smod 60,
     SubSecondNanos = time_nanos iv smod 1000000000\<rparr>"
proof -
  have small: "int32 (x smod 60)" "int32 (x smod 1000000000)" for x
    using abs_smod_pos [of 60 x] abs_smod_pos [of 1000000000 x] by (auto simp: int32_def)
  have m: "i32 (i32 (Years iv * 12) + Months iv) = total_months iv"
    using assms(1) by (simp add: total_months_def)
  have r: "total_months iv - total_months iv sdiv 12 * 12 = total_months iv smod 12"
    using sdiv_smod_pos [of 12 "total_months iv"] by simp
  have r': "total_months iv smod 12 smod 12 = total_months iv smod 12"
    "int32 (total_months iv smod 12)"
    using abs_smod_pos [of 12 "total_months iv"]
    by (auto simp: int32_def smod_pos split: if_splits)
  have h: "norm_secs ((Hours iv * 60 + Minutes iv) * 60 + Seconds iv) (SubSecondNanos iv)
      = (time_nanos iv sdiv 1000000000, time_nanos iv smod 1000000000)"
    by (simp add: norm_secs_eq time_nanos_def time_secs_def)
  show ?thesis
    unfolding Canonicalize_def Let_def m h prod.case wrap_minus_right r
    using assms(2) small r' by (simp add: sdiv_sdiv_pos)
qed

lemma sdiv_smod_sign:
  "0 < b \<Longrightarrow> 0 < c \<Longrightarrow> 0 \<le> a \<Longrightarrow> 0 \<le> (a sdiv b) smod c"
  "0 < b \<Longrightarrow> 0 < c \<Longrightarrow> a \<le> 0 \<Longrightarrow> (a sdiv b) smod c \<le> 0" for a b c :: int
  by (simp_all add: smod_nonneg smod_nonpos sdiv_nonneg sdiv_nonpos)

text \<open>The split of a nanosecond total into hours, minutes, seconds and a remainder.\<close>

lemma hms_split:
  "t = 1000000000 * a + r \<Longrightarrow> a = 60 * b + s \<Longrightarrow> b = 60 * c + m \<Longrightarrow>
   t = ((c * 60 + m) * 60 + s) * 1000000000 + r" for t a b c r s m :: int
  by simp

lemma nanos_split:
  fixes t :: int
  shows "t = (((t sdiv 3600000000000) * 60 + (t sdiv 60000000000) smod 60) * 60
             + (t sdiv 1000000000) smod 60) * 1000000000 + t smod 1000000000"
proof -
  have "t = 1000000000 * (t sdiv 1000000000) + t smod 1000000000"
    "t sdiv 1000000000 = 60 * (t sdiv 60000000000) + (t sdiv 1000000000) smod 60"
    "t sdiv 60000000000 = 60 * (t sdiv 3600000000000) + (t sdiv 60000000000) smod 60"
    using sdiv_smod_pos [of 1000000000 t] sdiv_smod_pos [of 60 "t sdiv 1000000000"]
      sdiv_smod_pos [of 60 "t sdiv 60000000000"] by (simp_all add: sdiv_sdiv_pos)
  then show ?thesis by (rule hms_split)
qed

lemma total_months_split: "m = (m sdiv 12) * 12 + m smod 12" for m :: int
  using sdiv_smod_pos [of 12 m] by simp

lemma strictly_canonical_of_parts:
  "strictly_canonical
    \<lparr>Years = m sdiv 12, Months = m smod 12, Days = d, Hours = t sdiv 3600000000000,
     Minutes = (t sdiv 60000000000) smod 60, Seconds = (t sdiv 1000000000) smod 60,
     SubSecondNanos = t smod 1000000000\<rparr>"
proof -
  have "0 \<le> m sdiv 12 \<and> 0 \<le> m smod 12 \<or> m sdiv 12 \<le> 0 \<and> m smod 12 \<le> 0"
    by (cases "0 \<le> m") (simp_all add: smod_nonneg smod_nonpos sdiv_nonneg sdiv_nonpos)
  moreover have "0 \<le> t sdiv 3600000000000 \<and> 0 \<le> (t sdiv 60000000000) smod 60 \<and>
      0 \<le> (t sdiv 1000000000) smod 60 \<and> 0 \<le> t smod 1000000000 \<or>
      t sdiv 3600000000000 \<le> 0 \<and> (t sdiv 60000000000) smod 60 \<le> 0 \<and>
      (t sdiv 1000000000) smod 60 \<le> 0 \<and> t smod 1000000000 \<le> 0"
    by (cases "0 \<le> t")
      (simp_all add: sdiv_smod_sign smod_nonneg smod_nonpos sdiv_nonneg sdiv_nonpos)
  ultimately show ?thesis
    by (simp add: strictly_canonical_def abs_smod_pos)
qed

text \<open>
  Two strictly canonical intervals with the same reading are equal.
\<close>

lemma strictly_canonical_fields:
  assumes "strictly_canonical iv"
  shows "Years iv = total_months iv sdiv 12" "Months iv = total_months iv smod 12"
    "Hours iv = time_nanos iv sdiv 3600000000000"
    "Minutes iv = (time_nanos iv sdiv 60000000000) smod 60"
    "Seconds iv = (time_nanos iv sdiv 1000000000) smod 60"
    "SubSecondNanos iv = time_nanos iv smod 1000000000"
proof -
  note c = assms [unfolded strictly_canonical_def]
  have ym: "total_months iv = 12 * Years iv + Months iv" by (simp add: total_months_def)
  have "0 \<le> total_months iv \<Longrightarrow> 0 \<le> Months iv" "total_months iv \<le> 0 \<Longrightarrow> Months iv \<le> 0"
    using c ym by linarith+
  then show "Years iv = total_months iv sdiv 12" "Months iv = total_months iv smod 12"
    using sdiv_unique [OF ym] c by auto
  have n: "time_nanos iv = 1000000000 * time_secs iv + SubSecondNanos iv"
    by (simp add: time_nanos_def)
  have sg: "0 \<le> time_nanos iv \<Longrightarrow> 0 \<le> SubSecondNanos iv"
    "time_nanos iv \<le> 0 \<Longrightarrow> SubSecondNanos iv \<le> 0"
    using c n by (auto simp: time_secs_def)
  have q: "time_nanos iv sdiv 1000000000 = time_secs iv"
    "time_nanos iv smod 1000000000 = SubSecondNanos iv"
    using sdiv_unique [OF n] c sg by auto
  have s: "time_secs iv = 60 * (Hours iv * 60 + Minutes iv) + Seconds iv"
    by (simp add: time_secs_def)
  have "0 \<le> time_secs iv \<Longrightarrow> 0 \<le> Seconds iv" "time_secs iv \<le> 0 \<Longrightarrow> Seconds iv \<le> 0"
    using c by (auto simp: time_secs_def)
  then have q1: "time_secs iv sdiv 60 = Hours iv * 60 + Minutes iv"
    "time_secs iv smod 60 = Seconds iv"
    using sdiv_unique [OF s] c by auto
  have q2: "(Hours iv * 60 + Minutes iv) sdiv 60 = Hours iv"
    "(Hours iv * 60 + Minutes iv) smod 60 = Minutes iv"
    using sdiv_unique [of "Hours iv * 60 + Minutes iv" 60 "Hours iv" "Minutes iv"] c by auto
  have d: "time_nanos iv sdiv 60000000000 = time_nanos iv sdiv 1000000000 sdiv 60"
    "time_nanos iv sdiv 3600000000000 = time_nanos iv sdiv 1000000000 sdiv 60 sdiv 60"
    by (simp_all add: sdiv_sdiv_pos)
  show "Hours iv = time_nanos iv sdiv 3600000000000"
    "Minutes iv = (time_nanos iv sdiv 60000000000) smod 60"
    "Seconds iv = (time_nanos iv sdiv 1000000000) smod 60"
    "SubSecondNanos iv = time_nanos iv smod 1000000000"
    unfolding d q q1 q2 by simp_all
qed

lemma strictly_canonical_unique:
  assumes "strictly_canonical a" "strictly_canonical b"
    "total_months a = total_months b" "Days a = Days b" "time_nanos a = time_nanos b"
  shows "a = b"
  using strictly_canonical_fields [OF assms(1)] strictly_canonical_fields [OF assms(2)] assms(3-5)
  by (simp add: interval_value.equality)

end
