(* ===== verification/Interval_Text.thy ===== *)
theory Interval_Text
  imports Interval_Value
begin

text \<open>
  The text forms of INTERVAL values: \<open>ParseInterval\<close> inverts \<open>String\<close> and
  \<open>ISO8601\<close> on strictly canonical intervals. The matchers are handled one piece at a
  time; each lemma says what a matcher returns on the text the printer writes.
\<close>

section \<open>Pieces of the printed text\<close>

named_theorems matchers \<open>what the matchers return on printed text\<close>

definition stops :: "string \<Rightarrow> bool" where
  "stops s \<longleftrightarrow> s = [] \<or> \<not> is_digit (hd s)"

lemma stops_simps [simp]:
  "stops []" "stops (c # s) \<longleftrightarrow> \<not> is_digit c"
  by (simp_all add: stops_def)

lemma not_digit_lits [simp]:
  "\<not> is_digit CHR ''-''" "\<not> is_digit CHR '' ''" "\<not> is_digit CHR '':''" "\<not> is_digit CHR ''.''"
  "\<not> is_digit CHR ''T''" "\<not> is_digit CHR ''S''" "\<not> is_digit CHR ''Y''" "\<not> is_digit CHR ''M''"
  "\<not> is_digit CHR ''D''" "\<not> is_digit CHR ''H''" "\<not> is_digit CHR ''W''" "\<not> is_digit CHR ''P''"
  "\<not> is_digit CHR ''+''"
  by (simp_all add: is_digit_def)

lemma m_digits_append [matchers]:
  "ds \<noteq> [] \<Longrightarrow> \<forall>c \<in> set ds. is_digit c \<Longrightarrow> stops rest \<Longrightarrow> m_digits (ds @ rest) = Some (ds, rest)"
  by (simp add: m_digits_def stops_def)

lemma m_digits_dec [matchers]: "stops rest \<Longrightarrow> m_digits (dec_nat n @ rest) = Some (dec_nat n, rest)"
  by (simp add: m_digits_append)

lemma m_sign_digits: "is_digit c \<Longrightarrow> m_sign (c # cs) = ([], c # cs)"
  by (auto simp: m_sign_def dest: digit_not_sign)

lemma m_sign_dec [matchers]: "m_sign (dec_nat n @ rest) = ([], dec_nat n @ rest)"
proof -
  obtain c cs where "dec_nat n = c # cs" by (meson dec_nat_not_Nil list.exhaust)
  then show ?thesis using hd_dec_nat_digit [of n] by (simp add: m_sign_digits)
qed

lemma m_sign_minus [matchers]: "m_sign (CHR ''-'' # s) = (''-'', s)"
  by (simp add: m_sign_def)

lemma m_lit_simps [matchers]: "m_lit c (c # s) = Some s"
  by (simp add: m_lit_def)

section \<open>Fractions\<close>

lemma sprintf_09d_digits:
  assumes "0 \<le> n" "n < 1000000000"
  shows "length (sprintf_09d n) = 9" "\<forall>c \<in> set (sprintf_09d n). is_digit c"
    "digits_val (sprintf_09d n) = nat n"
proof -
  have "nat n < 10 ^ Suc 8" using assms by simp
  from length_dec_nat [OF this] have "length (dec_nat (nat n)) \<le> 9" by simp
  then show "length (sprintf_09d n) = 9" "\<forall>c \<in> set (sprintf_09d n). is_digit c"
    "digits_val (sprintf_09d n) = nat n"
    using assms dec_nat_digits [of "nat n"]
    by (auto simp: sprintf_09d_def Let_def digits_val_append)
qed

text \<open>
  A fraction text \<open>f\<close> denotes \<open>n\<close> nanoseconds: the parser pads it with zeros to nine
  digits and reads the result as a decimal number.
\<close>

definition fraction_denotes :: "string \<Rightarrow> int \<Rightarrow> bool" where
  "fraction_denotes f n \<longleftrightarrow> f \<noteq> [] \<and> length f \<le> 9 \<and> (\<forall>c \<in> set f. is_digit c) \<and>
     ParseInt (take 9 (f @ ''000000000'')) 32 = Inr n"

lemma zeros9: "''000000000'' = replicate 9 CHR ''0''"
  by (simp add: numeral_eq_Suc)

lemma fraction_denotesI:
  assumes "f \<noteq> []" "length f \<le> 9" "\<forall>c \<in> set f. is_digit c"
    "digits_val f * 10 ^ (9 - length f) = nat n" "0 \<le> n" "n < 1000000000"
  shows "fraction_denotes f n"
proof -
  let ?s = "take 9 (f @ ''000000000'')"
  have s: "?s = f @ replicate (9 - length f) CHR ''0''"
    using assms(2) by (simp add: zeros9)
  have "\<forall>c \<in> set ?s. is_digit c" "?s \<noteq> []" using assms(1,3) unfolding s by auto
  moreover have "digits_val ?s = nat n" unfolding s using assms(4) by (simp add: digits_val_append)
  ultimately have "ParseInt ?s 32 = Inr n"
    using ParseInt_digits [of ?s 32] assms(5,6) by simp
  with assms show ?thesis by (simp add: fraction_denotes_def)
qed

lemma take_fraction:
  assumes "0 \<le> n" "n < 1000000000" "k \<le> 9" "0 < k" "n mod 10 ^ (9 - k) = 0"
  shows "fraction_denotes (take k (sprintf_09d n)) n"
proof -
  let ?s = "sprintf_09d n" let ?a = "take k ?s" let ?b = "drop k ?s"
  note s = sprintf_09d_digits [OF assms(1,2)]
  have len: "length ?a = k" "length ?b = 9 - k" using s(1) assms(3) by simp_all
  have b: "digits_val ?b < 10 ^ (9 - k)"
    using digits_val_less [of ?b] s(2) len by (auto dest: in_set_dropD)
  have v: "nat n = digits_val ?a * 10 ^ (9 - k) + digits_val ?b"
    using digits_val_append [of ?a ?b] s(3) len by simp
  have "nat n mod 10 ^ (9 - k) = 0"
    using assms(1,5) nat_mod_distrib [of n "10 ^ (9 - k)"] by (simp add: nat_power_eq)
  with v b have "digits_val ?b = 0" by simp
  with v have "digits_val ?a * 10 ^ (9 - k) = nat n" by simp
  moreover have "?a \<noteq> []" "\<forall>c \<in> set ?a. is_digit c"
    using s assms(4) by (auto dest: in_set_takeD)
  ultimately show ?thesis using assms len by (intro fraction_denotesI) simp_all
qed

lemma fractionDigits_denotes:
  assumes "0 < n" "n < 1000000000"
  shows "fraction_denotes (fractionDigits n) n"
proof -
  have "take 9 (sprintf_09d n) = sprintf_09d n"
    using sprintf_09d_digits(1) [of n] assms by simp
  with assms take_fraction [of n 3] take_fraction [of n 6] take_fraction [of n 9]
  show ?thesis by (auto simp: fractionDigits_def Let_def smod_pos)
qed

lemma trim_right_zeros_split:
  "\<exists>k. s = trim_right_zeros s @ replicate k CHR ''0''"
proof -
  let ?z = "takeWhile (\<lambda>c. c = CHR ''0'') (rev s)"
  have "trim_right_zeros s @ rev ?z = rev (?z @ dropWhile (\<lambda>c. c = CHR ''0'') (rev s))"
    by (simp only: rev_append trim_right_zeros_def)
  then have "s = trim_right_zeros s @ rev ?z" by simp
  moreover have "replicate (length ?z) CHR ''0'' = ?z"
    by (rule replicate_length_same) (auto dest: set_takeWhileD)
  ultimately have "s = trim_right_zeros s @ replicate (length ?z) CHR ''0''"
    by (metis rev_replicate)
  then show ?thesis ..
qed

lemma trim_right_zeros_denotes:
  assumes "0 < n" "n < 1000000000"
  shows "fraction_denotes (trim_right_zeros (sprintf_09d n)) n"
proof -
  let ?s = "sprintf_09d n" let ?f = "trim_right_zeros ?s"
  obtain k where k: "?s = ?f @ replicate k CHR ''0''" using trim_right_zeros_split by blast
  note s = sprintf_09d_digits [of n]
  have len: "length ?f + k = 9" using s(1) assms arg_cong [OF k, of length] by simp
  have v: "digits_val ?f * 10 ^ k = nat n"
    using s(3) assms arg_cong [OF k, of digits_val] by (simp add: digits_val_append)
  have "?f \<noteq> []" using v assms by (auto simp: digits_val_def)
  moreover have "\<forall>c \<in> set ?f. is_digit c" using s(2) assms k by (metis Un_iff less_le set_append)
  moreover have "k = 9 - length ?f" "length ?f \<le> 9" using len by simp_all
  ultimately show ?thesis using v assms by (intro fraction_denotesI) simp_all
qed

section \<open>The canonical form\<close>

definition sign_text :: "bool \<Rightarrow> string" where
  "sign_text neg = (if neg then ''-'' else [])"

lemma m_sign_sign_text [matchers]:
  "m_sign (sign_text neg @ dec_nat n @ rest) = (sign_text neg, dec_nat n @ rest)"
  by (simp add: sign_text_def matchers)

lemma m_ym_printed [matchers]:
  "stops rest \<Longrightarrow> m_ym (sign_text neg @ dec_nat y @ CHR ''-'' # dec_nat m @ rest)
     = Some (sign_text neg, dec_nat y, dec_nat m, rest)"
  by (simp add: m_ym_def matchers)

lemma dec_int_eq: "dec_int x = sign_text (x < 0) @ dec_nat (nat \<bar>x\<bar>)"
  by (simp add: dec_int_def sign_text_def)

lemma m_day_printed [matchers]: "stops rest \<Longrightarrow> m_day (dec_int d @ rest) = Some (dec_int d, rest)"
  by (simp add: m_day_def dec_int_eq matchers)

lemma m_hms_printed [matchers]:
  "stops fr \<Longrightarrow> m_fraction_end fr = Some f \<Longrightarrow>
   m_hms (sign_text neg @ dec_nat h @ CHR '':'' # dec_nat mi @ CHR '':'' # dec_nat s @ fr)
     = Some (sign_text neg, dec_nat h, dec_nat mi, dec_nat s, f)"
  by (simp add: m_hms_def matchers)

definition canonical_text ::
  "bool \<Rightarrow> nat \<Rightarrow> nat \<Rightarrow> int \<Rightarrow> bool \<Rightarrow> nat \<Rightarrow> nat \<Rightarrow> nat \<Rightarrow> string \<Rightarrow> string" where
  "canonical_text ys y m d ts h mi s fr =
     sign_text ys @ dec_nat y @ CHR ''-'' # dec_nat m @ CHR '' '' # dec_int d @ CHR '' '' #
     sign_text ts @ dec_nat h @ CHR '':'' # dec_nat mi @ CHR '':'' # dec_nat s @ fr"

lemma canonicalIntervalRe_printed:
  assumes "stops fr" "m_fraction_end fr = Some f"
  shows "canonicalIntervalRe (canonical_text ys y m d ts h mi s fr)
    = Some \<lparr>g_ymsign = sign_text ys, g_years = dec_nat y, g_months = dec_nat m, g_days = dec_int d,
            g_tsign = sign_text ts, g_hours = dec_nat h, g_minutes = dec_nat mi,
            g_seconds = dec_nat s, g_frac = f\<rparr>"
  using assms by (simp add: canonicalIntervalRe_def canonical_text_def matchers)

lemma ParseInt_dec_nat32: "int n < 2147483648 \<Longrightarrow> ParseInt (dec_nat n) 32 = Inr (int n)"
  by (simp add: ParseInt_digits)

lemma sign_text_minus [simp]: "sign_text neg = ''-'' \<longleftrightarrow> neg" "sign_text neg = [] \<longleftrightarrow> \<not> neg"
  by (simp_all add: sign_text_def)

definition signed :: "bool \<Rightarrow> int \<Rightarrow> int" where
  "signed neg x = (if neg then - x else x)"

text \<open>The empty fraction stands for 0 nanoseconds.\<close>

definition frac_value :: "string \<Rightarrow> int \<Rightarrow> bool" where
  "frac_value f n \<longleftrightarrow> f = [] \<and> n = 0 \<or> fraction_denotes f n \<and> 0 \<le> n \<and> n < 1000000000"

lemma interval_of_groups_printed:
  assumes "int y < 2147483648" "int m < 2147483648" "int32 d" "int h < 2147483648"
    "int mi < 2147483648" "int s < 2147483648" "frac_value f n"
  shows "interval_of_groups v
     \<lparr>g_ymsign = sign_text ys, g_years = dec_nat y, g_months = dec_nat m, g_days = dec_int d,
      g_tsign = sign_text ts, g_hours = dec_nat h, g_minutes = dec_nat mi,
      g_seconds = dec_nat s, g_frac = f\<rparr>
    = Inr \<lparr>Years = signed ys (int y), Months = signed ys (int m), Days = d,
           Hours = signed ts (int h), Minutes = signed ts (int mi), Seconds = signed ts (int s),
           SubSecondNanos = signed ts n\<rparr>"
proof -
  have neg: "i32 (- int x) = - int x" if "int x < 2147483648" for x
    using that by (intro i32_id) (simp add: int32_def)
  have "ParseInt (dec_int d) 32 = Inr d"
    using assms(3) by (intro ParseInt_dec_int) (simp_all add: int32_def)
  moreover have "i32 (- n) = - n" using assms(7)
    by (intro i32_id) (auto simp: frac_value_def int32_def)
  moreover have "f \<noteq> [] \<Longrightarrow> ParseInt (take 9 (f @ ''000000000'')) 32 = Inr n" "f = [] \<Longrightarrow> n = 0"
    using assms(7) by (auto simp: frac_value_def fraction_denotes_def)
  ultimately show ?thesis
    using assms(1,2,4-6)
    by (cases "f = []")
      (simp_all add: interval_of_groups_def ParseInt_dec_nat32 neg Let_def signed_def)
qed

lemma int32abs_abs: "int32 x \<Longrightarrow> x \<noteq> - 2147483648 \<Longrightarrow> int32abs x = \<bar>x\<bar>"
  by (auto simp: int32abs_def int32_def)

lemma strictly_canonical_IsCanonical:
  assumes "strictly_canonical iv"
  shows "IsCanonical iv"
proof -
  have "int32abs (Months iv) \<le> 12" "int32abs (Minutes iv) \<le> 60" "int32abs (Seconds iv) \<le> 60"
    "int32abs (SubSecondNanos iv) \<le> 1000000000"
    using assms by (auto simp: strictly_canonical_def int32abs_abs int32_def)
  moreover have "sameSign [Years iv, Months iv]" "sameSign [Hours iv, Minutes iv]"
    using assms by (auto simp: strictly_canonical_def)
  ultimately show ?thesis by (auto simp: IsCanonical_def simp del: sameSign.simps)
qed

text \<open>
  The sign of each group is the sign of its first non-zero field, so a strictly canonical
  interval is recovered from the magnitudes and the two signs.
\<close>

definition printable :: "interval_value \<Rightarrow> bool" where
  "printable iv \<longleftrightarrow> iv_int32 iv \<and> strictly_canonical iv \<and> Years iv \<noteq> - 2147483648 \<and>
     Hours iv \<noteq> - 2147483648"

definition frac_text :: "int \<Rightarrow> string" where
  "frac_text sub = (if sub \<noteq> 0 then CHR ''.'' # fractionDigits \<bar>sub\<bar> else [])"

lemma String_iv_printed:
  assumes "printable iv"
  shows "String_iv iv = canonical_text (Years iv < 0 \<or> Months iv < 0)
     (nat \<bar>Years iv\<bar>) (nat \<bar>Months iv\<bar>) (Days iv)
     (Hours iv < 0 \<or> Minutes iv < 0 \<or> Seconds iv < 0 \<or> SubSecondNanos iv < 0)
     (nat \<bar>Hours iv\<bar>) (nat \<bar>Minutes iv\<bar>) (nat \<bar>Seconds iv\<bar>) (frac_text (SubSecondNanos iv))"
proof -
  have a: "int32abs (Years iv) = \<bar>Years iv\<bar>" "int32abs (Months iv) = \<bar>Months iv\<bar>"
    "int32abs (Hours iv) = \<bar>Hours iv\<bar>" "int32abs (Minutes iv) = \<bar>Minutes iv\<bar>"
    "int32abs (Seconds iv) = \<bar>Seconds iv\<bar>" "int32abs (SubSecondNanos iv) = \<bar>SubSecondNanos iv\<bar>"
    using assms
    by (auto simp: printable_def iv_int32_def strictly_canonical_def intro!: int32abs_abs)
  have d: "dec_int \<bar>x\<bar> = dec_nat (nat \<bar>x\<bar>)" for x by (simp add: dec_int_def)
  have "IsCanonical iv" using assms by (simp add: printable_def strictly_canonical_IsCanonical)
  then show ?thesis
    by (simp add: String_iv_def Let_def a d canonical_text_def sign_text_def frac_text_def)
qed

lemma frac_text_parses:
  assumes "\<bar>sub\<bar> < 1000000000"
  obtains f where "stops (frac_text sub)" "m_fraction_end (frac_text sub) = Some f"
    "frac_value f \<bar>sub\<bar>"
proof (cases "sub = 0")
  case True
  then show ?thesis using that [of "[]"] by (simp add: frac_text_def m_fraction_end_def frac_value_def)
next
  case False
  then have "fraction_denotes (fractionDigits \<bar>sub\<bar>) \<bar>sub\<bar>"
    using assms by (intro fractionDigits_denotes) auto
  with False assms show ?thesis using that [of "fractionDigits \<bar>sub\<bar>"]
    by (auto simp: frac_text_def m_fraction_end_def frac_value_def fraction_denotes_def list_all_iff)
qed

lemma canonical_text_trim:
  assumes "fr = [] \<or> graphic (last fr)"
  shows "TrimSpace (canonical_text ys y m d ts h mi s fr) = canonical_text ys y m d ts h mi s fr"
proof (rule TrimSpace_graphic)
  have "graphic CHR ''-''" by (simp add: graphic_def)
  then have "graphic (hd (canonical_text ys y m d ts h mi s fr))"
    by (simp add: canonical_text_def sign_text_def hd_append)
  moreover have "graphic (last (canonical_text ys y m d ts h mi s fr))"
    using assms by (auto simp: canonical_text_def last_append)
  ultimately show "canonical_text ys y m d ts h mi s fr = [] \<or>
      graphic (hd (canonical_text ys y m d ts h mi s fr)) \<and>
      graphic (last (canonical_text ys y m d ts h mi s fr))" by simp
qed

lemma frac_text_last: "\<bar>sub\<bar> < 1000000000 \<Longrightarrow> frac_text sub = [] \<or> graphic (last (frac_text sub))"
  using fractionDigits_denotes [of "\<bar>sub\<bar>"]
  by (auto simp: frac_text_def fraction_denotes_def)

lemma ParseInterval_String:
  assumes "printable iv"
  shows "ParseInterval (String_iv iv) = Inr iv"
proof -
  have b: "\<bar>SubSecondNanos iv\<bar> < 1000000000"
    using assms by (simp add: printable_def strictly_canonical_def)
  obtain f where f: "stops (frac_text (SubSecondNanos iv))"
    "m_fraction_end (frac_text (SubSecondNanos iv)) = Some f" "frac_value f \<bar>SubSecondNanos iv\<bar>"
    using frac_text_parses [OF b] by blast
  note canonicalIntervalRe_printed [OF f(1,2)]
  moreover have "int (nat \<bar>Years iv\<bar>) < 2147483648" "int (nat \<bar>Months iv\<bar>) < 2147483648"
    "int32 (Days iv)" "int (nat \<bar>Hours iv\<bar>) < 2147483648" "int (nat \<bar>Minutes iv\<bar>) < 2147483648"
    "int (nat \<bar>Seconds iv\<bar>) < 2147483648"
    using assms by (auto simp: printable_def iv_int32_def int32_def strictly_canonical_def)
  note interval_of_groups_printed [OF this f(3)]
  ultimately have "ParseInterval (String_iv iv) =
      Inr \<lparr>Years = signed (Years iv < 0 \<or> Months iv < 0) \<bar>Years iv\<bar>,
           Months = signed (Years iv < 0 \<or> Months iv < 0) \<bar>Months iv\<bar>, Days = Days iv,
           Hours = signed (Hours iv < 0 \<or> Minutes iv < 0 \<or> Seconds iv < 0 \<or> SubSecondNanos iv < 0)
             \<bar>Hours iv\<bar>,
           Minutes = signed (Hours iv < 0 \<or> Minutes iv < 0 \<or> Seconds iv < 0 \<or> SubSecondNanos iv < 0)
             \<bar>Minutes iv\<bar>,
           Seconds = signed (Hours iv < 0 \<or> Minutes iv < 0 \<or> Seconds iv < 0 \<or> SubSecondNanos iv < 0)
             \<bar>Seconds iv\<bar>,
           SubSecondNanos =
             signed (Hours iv < 0 \<or> Minutes iv < 0 \<or> Seconds iv < 0 \<or> SubSecondNanos iv < 0)
             \<bar>SubSecondNanos iv\<bar>\<rparr>"
    by (simp add: ParseInterval_def String_iv_printed [OF assms] Let_def
        canonical_text_trim [OF frac_text_last [OF b]])
  also have "\<dots> = Inr iv"
    using assms
    by (intro arg_cong [of _ _ Inr] interval_value.equality)
      (auto simp: printable_def strictly_canonical_def signed_def)
  finally show ?thesis .
qed

section \<open>ISO 8601 durations\<close>

text \<open>\<open>leads s cs\<close>: the first number of \<open>s\<close>, if it starts with one, is followed by a
  character of \<open>cs\<close>; a group for another unit then matches nothing at \<open>s\<close>.\<close>

definition leads :: "string \<Rightarrow> char set \<Rightarrow> bool" where
  "leads s cs \<longleftrightarrow> s = [] \<or> hd s = CHR ''T'' \<or>
     (\<exists>neg n c r. s = sign_text neg @ dec_nat n @ c # r \<and> \<not> is_digit c \<and> c \<in> cs)"

lemma m_sign_number: "m_sign (sign_text neg @ dec_nat n @ c # r) = (sign_text neg, dec_nat n @ c # r)"
  by (simp add: matchers)

lemma m_unit_number:
  "\<not> is_digit c \<Longrightarrow> m_unit u (sign_text neg @ dec_nat n @ c # r) =
     (if c = u then (sign_text neg @ dec_nat n, r) else ([], sign_text neg @ dec_nat n @ c # r))"
  by (simp add: m_unit_def m_sign_number matchers)

lemma m_unit_T: "m_unit u [] = ([], [])" "m_unit u (CHR ''T'' # r) = ([], CHR ''T'' # r)"
  by (simp_all add: m_unit_def m_sign_def m_digits_def span_digits_def)

lemma m_unit_skip: "leads s cs \<Longrightarrow> u \<notin> cs \<Longrightarrow> m_unit u s = ([], s)"
  by (cases s) (auto simp: leads_def m_unit_number m_unit_T simp del: append_assoc)

lemma m_unit_iso_field:
  assumes "leads s cs" "u \<notin> cs" "\<not> is_digit u"
  shows "m_unit u (iso_field v u @ s) = (if v = 0 then [] else dec_int v, s)"
  using m_unit_number [OF assms(3), of u "v < 0" "nat \<bar>v\<bar>" s] m_unit_skip [OF assms(1,2)]
  by (simp add: iso_field_def dec_int_eq)

lemma leads_iso_field: "leads s cs \<Longrightarrow> \<not> is_digit u \<Longrightarrow> leads (iso_field v u @ s) (insert u cs)"
  by (auto simp: leads_def iso_field_def dec_int_eq)

lemma ParseInt_field: "int32 v \<Longrightarrow> ParseInt (dec_int v) 32 = Inr v"
  by (rule ParseInt_dec_int) (simp_all add: int32_def)

lemma dec_int_not_Nil [simp]: "dec_int v \<noteq> []"
  by (simp add: dec_int_def)

definition field_text :: "int \<Rightarrow> string" where
  "field_text v = (if v = 0 then [] else dec_int v)"

lemma iso_ints_field: "int32 v \<Longrightarrow> iso_ints (field_text v # ms) = map_option ((#) v) (iso_ints ms)"
  by (simp add: field_text_def ParseInt_field)

text \<open>The seconds with their fraction: one sign in front covers both.\<close>

definition secs_text :: "int \<Rightarrow> int \<Rightarrow> string" where
  "secs_text secs sub = (if secs = 0 \<and> sub = 0 then []
     else sign_text (secs < 0 \<or> sub < 0) @ dec_nat (nat \<bar>secs\<bar>))"

definition secs_frac :: "int \<Rightarrow> string" where
  "secs_frac sub = (if sub = 0 then [] else trim_right_zeros (sprintf_09d \<bar>sub\<bar>))"

lemma iso_seconds_printed:
  assumes "int32 secs" "secs \<noteq> - 2147483648" "\<bar>sub\<bar> < 1000000000"
  shows "iso_seconds secs sub = (if secs = 0 \<and> sub = 0 then []
     else secs_text secs sub @ (if sub = 0 then [] else CHR ''.'' # secs_frac sub) @ ''S'')"
proof -
  have "int32abs sub = \<bar>sub\<bar>" "int32abs secs = \<bar>secs\<bar>"
    using assms by (auto simp: int32_def intro!: int32abs_abs)
  then show ?thesis
    by (auto simp: iso_seconds_def secs_text_def secs_frac_def sign_text_def dec_int_def)
qed

lemma leads_iso_seconds:
  assumes "int32 secs" "secs \<noteq> - 2147483648" "\<bar>sub\<bar> < 1000000000"
  shows "leads (iso_seconds secs sub) {CHR ''S'', CHR ''.''}"
proof (cases "secs = 0 \<and> sub = 0")
  case True
  then show ?thesis using assms by (simp add: iso_seconds_printed leads_def)
next
  case False
  let ?r = "(if sub = 0 then [] else CHR ''.'' # secs_frac sub) @ ''S''"
  have "\<exists>c r. ?r = c # r \<and> \<not> is_digit c \<and> c \<in> {CHR ''S'', CHR ''.''}" by simp
  with False show ?thesis
    by (auto simp: iso_seconds_printed [OF assms] leads_def secs_text_def)
qed

lemma m_secs_printed:
  assumes "int32 secs" "secs \<noteq> - 2147483648" "\<bar>sub\<bar> < 1000000000"
  shows "m_secs (iso_seconds secs sub) = (secs_text secs sub, secs_frac sub, [])"
proof (cases "secs = 0 \<and> sub = 0")
  case True
  then have "iso_seconds secs sub = []" by (simp add: iso_seconds_def)
  with True show ?thesis
    by (simp add: secs_text_def secs_frac_def m_secs_def m_sign_def m_digits_def span_digits_def)
next
  case False
  show ?thesis
  proof (cases "sub = 0")
    case True
    then have p: "iso_seconds secs sub = sign_text (secs < 0) @ dec_nat (nat \<bar>secs\<bar>) @ ''S''"
      using False iso_seconds_printed [OF assms] by (simp add: secs_text_def)
    from True False show ?thesis
      unfolding p by (simp add: m_secs_def secs_text_def secs_frac_def matchers)
  next
    case sub: False
    then have "fraction_denotes (secs_frac sub) \<bar>sub\<bar>"
      using assms(3) by (simp add: secs_frac_def trim_right_zeros_denotes)
    then have f: "secs_frac sub \<noteq> []" "length (secs_frac sub) \<le> 9"
      "span_digits (secs_frac sub @ ''S'') = (secs_frac sub, ''S'')"
      by (auto simp: fraction_denotes_def)
    have p: "iso_seconds secs sub = sign_text (secs < 0 \<or> sub < 0) @ dec_nat (nat \<bar>secs\<bar>) @
        CHR ''.'' # secs_frac sub @ ''S''"
      using sub by (simp add: iso_seconds_printed [OF assms] secs_text_def)
    show ?thesis using f sub
      by (simp add: p m_secs_def m_sign_number matchers secs_text_def)
  qed
qed

lemma iso_ints_secs:
  assumes "int32 secs" "0 \<le> secs \<and> 0 \<le> sub \<or> secs \<le> 0 \<and> sub \<le> 0"
  shows "iso_ints [secs_text secs sub] = Some [secs]"
proof -
  have "ParseInt (dec_nat (nat \<bar>secs\<bar>)) 32 = Inr \<bar>secs\<bar>" if "0 \<le> secs"
    using assms(1) that by (simp add: ParseInt_digits int32_def)
  moreover have "ParseInt (CHR ''-'' # dec_nat (nat \<bar>secs\<bar>)) 32 = Inr (- \<bar>secs\<bar>)"
    using assms(1) by (auto simp: ParseInt_minus_digits int32_def abs_if)
  ultimately show ?thesis using assms(2)
    by (cases "secs = 0"; cases "sub = 0") (auto simp: secs_text_def sign_text_def)
qed

text \<open>The whole text after the leading \<open>P\<close>.\<close>

definition iso_time :: "interval_value \<Rightarrow> string" where
  "iso_time iv = iso_field (Hours iv) CHR ''H'' @ iso_field (Minutes iv) CHR ''M'' @
     iso_seconds (Seconds iv) (SubSecondNanos iv)"

definition iso_body :: "interval_value \<Rightarrow> string" where
  "iso_body iv = iso_field (Years iv) CHR ''Y'' @ iso_field (Months iv) CHR ''M'' @
     iso_field (Days iv) CHR ''D'' @ (if iso_time iv = [] then [] else CHR ''T'' # iso_time iv)"

lemma iso_time_Nil:
  "iso_time iv = [] \<longleftrightarrow> Hours iv = 0 \<and> Minutes iv = 0 \<and> Seconds iv = 0 \<and> SubSecondNanos iv = 0"
  by (auto simp: iso_time_def iso_field_def iso_seconds_def)

lemma ISO8601_body:
  assumes "IsCanonical iv"
  shows "ISO8601 iv = (if iso_body iv = [] then ''P0Y'' else CHR ''P'' # iso_body iv)"
proof -
  have t: "(if Hours iv \<noteq> 0 \<or> Minutes iv \<noteq> 0 \<or> Seconds iv \<noteq> 0 \<or> SubSecondNanos iv \<noteq> 0
      then ''T'' @ iso_field (Hours iv) CHR ''H'' @ iso_field (Minutes iv) CHR ''M'' @
           iso_seconds (Seconds iv) (SubSecondNanos iv) else [])
    = (if iso_time iv = [] then [] else CHR ''T'' # iso_time iv)"
    using iso_time_Nil [of iv] unfolding iso_time_def by auto
  have "(if \<not> IsCanonical iv then Canonicalize iv else iv) = iv" using assms by simp
  then show ?thesis unfolding ISO8601_def Let_def by (simp only: t) (simp add: iso_body_def)
qed

definition iso_time_ok :: "interval_value \<Rightarrow> bool" where
  "iso_time_ok iv \<longleftrightarrow> int32 (Seconds iv) \<and> Seconds iv \<noteq> - 2147483648 \<and>
     \<bar>SubSecondNanos iv\<bar> < 1000000000"

lemma iso_time_groups:
  assumes "iso_time_ok iv" "iso_time iv = s0"
    "m_unit CHR ''H'' s0 = (h, s1)" "m_unit CHR ''M'' s1 = (mi, s2)" "m_secs s2 = (sec, f, s3)"
  shows "h = field_text (Hours iv)" "mi = field_text (Minutes iv)"
    "sec = secs_text (Seconds iv) (SubSecondNanos iv)" "f = secs_frac (SubSecondNanos iv)" "s3 = []"
proof -
  note ok = assms(1) [unfolded iso_time_ok_def, THEN conjunct1]
    assms(1) [unfolded iso_time_ok_def, THEN conjunct2, THEN conjunct1]
    assms(1) [unfolded iso_time_ok_def, THEN conjunct2, THEN conjunct2]
  note l = leads_iso_seconds [OF ok]
  note lm = leads_iso_field [OF l, of "CHR ''M''" "Minutes iv"]
  have 1: "m_unit CHR ''H'' (iso_time iv) = (field_text (Hours iv),
      iso_field (Minutes iv) CHR ''M'' @ iso_seconds (Seconds iv) (SubSecondNanos iv))"
    using m_unit_iso_field [OF lm, of "CHR ''H''"] by (simp add: iso_time_def field_text_def)
  have 2: "m_unit CHR ''M'' (iso_field (Minutes iv) CHR ''M'' @
      iso_seconds (Seconds iv) (SubSecondNanos iv))
      = (field_text (Minutes iv), iso_seconds (Seconds iv) (SubSecondNanos iv))"
    using m_unit_iso_field [OF l, of "CHR ''M''"] by (simp add: field_text_def)
  show "h = field_text (Hours iv)" "mi = field_text (Minutes iv)"
    "sec = secs_text (Seconds iv) (SubSecondNanos iv)" "f = secs_frac (SubSecondNanos iv)" "s3 = []"
    using assms(2-5) 1 2 m_secs_printed [OF ok] by auto
qed

lemma intervalISORe_printed:
  assumes "iso_time_ok iv"
  shows "intervalISORe (CHR ''P'' # iso_body iv) = Some \<lparr>i_neg = False,
     i_fields = [field_text (Years iv), field_text (Months iv), [], field_text (Days iv),
       field_text (Hours iv), field_text (Minutes iv), secs_text (Seconds iv) (SubSecondNanos iv)],
     i_frac = secs_frac (SubSecondNanos iv)\<rparr>"
proof -
  define t where "t = (if iso_time iv = [] then [] else CHR ''T'' # iso_time iv)"
  have lt: "leads t {}" by (simp add: t_def leads_def)
  note ld = leads_iso_field [OF lt, of "CHR ''D''" "Days iv"]
  note lm = leads_iso_field [OF ld, of "CHR ''M''" "Months iv"]
  have y: "m_unit CHR ''Y'' (iso_body iv) = (field_text (Years iv),
      iso_field (Months iv) CHR ''M'' @ iso_field (Days iv) CHR ''D'' @ t)"
    using m_unit_iso_field [OF lm, of "CHR ''Y''"] by (simp add: iso_body_def t_def field_text_def)
  have mo: "m_unit CHR ''M'' (iso_field (Months iv) CHR ''M'' @ iso_field (Days iv) CHR ''D'' @ t)
      = (field_text (Months iv), iso_field (Days iv) CHR ''D'' @ t)"
    using m_unit_iso_field [OF ld, of "CHR ''M''"] by (simp add: field_text_def)
  have w: "m_unit CHR ''W'' (iso_field (Days iv) CHR ''D'' @ t) = ([], iso_field (Days iv) CHR ''D'' @ t)"
    by (rule m_unit_skip [OF ld]) simp_all
  have d: "m_unit CHR ''D'' (iso_field (Days iv) CHR ''D'' @ t) = (field_text (Days iv), t)"
    using m_unit_iso_field [OF lt, of "CHR ''D''"] by (simp add: field_text_def)
  have P: "intervalISORe (CHR ''P'' # iso_body iv) =
     (case m_lit CHR ''T'' t of
       None \<Rightarrow> if t = [] then Some \<lparr>i_neg = False, i_fields = [field_text (Years iv),
           field_text (Months iv), [], field_text (Days iv), [], [], []], i_frac = []\<rparr> else None
     | Some s \<Rightarrow>
         let (h, s) = m_unit CHR ''H'' s; (mi, s) = m_unit CHR ''M'' s; (sec, f, s) = m_secs s
         in if s = [] then Some \<lparr>i_neg = False, i_fields = [field_text (Years iv),
             field_text (Months iv), [], field_text (Days iv), h, mi, sec], i_frac = f\<rparr> else None)"
    by (simp add: intervalISORe_def m_lit_def y mo w d Let_def)
  show ?thesis
  proof (cases "iso_time iv = []")
    case True
    then have "t = []" "Hours iv = 0" "Minutes iv = 0" "Seconds iv = 0" "SubSecondNanos iv = 0"
      by (auto simp: t_def iso_time_Nil)
    then show ?thesis by (simp add: P m_lit_def field_text_def secs_text_def secs_frac_def)
  next
    case False
    obtain h s1 mi s2 sec f s3 where g: "m_unit CHR ''H'' (iso_time iv) = (h, s1)"
      "m_unit CHR ''M'' s1 = (mi, s2)" "m_secs s2 = (sec, f, s3)"
      by (metis prod.exhaust_sel)
    from False have "m_lit CHR ''T'' t = Some (iso_time iv)" by (simp add: t_def m_lit_def)
    then show ?thesis
      using g iso_time_groups [OF assms refl g] by (simp add: P)
  qed
qed

lemma last_iso_field: "iso_field v u = [] \<or> last (iso_field v u) = u"
  by (simp add: iso_field_def)

lemma last_iso_seconds: "iso_seconds a b = [] \<or> last (iso_seconds a b) = CHR ''S''"
  by (simp add: iso_seconds_def)

lemma last_iso_time:
  "iso_time iv = [] \<or> last (iso_time iv) \<in> {CHR ''H'', CHR ''M'', CHR ''S''}"
  using last_iso_field [of "Hours iv" "CHR ''H''"] last_iso_field [of "Minutes iv" "CHR ''M''"]
    last_iso_seconds [of "Seconds iv" "SubSecondNanos iv"]
  by (auto simp: iso_time_def last_append)

lemma last_iso_body:
  "iso_body iv = [] \<or>
   last (iso_body iv) \<in> {CHR ''Y'', CHR ''M'', CHR ''D'', CHR ''H'', CHR ''S''}"
  using last_iso_field [of "Years iv" "CHR ''Y''"] last_iso_field [of "Months iv" "CHR ''M''"]
    last_iso_field [of "Days iv" "CHR ''D''"] last_iso_time [of iv]
  by (auto simp: iso_body_def last_append)

lemma has_suffix_T: "has_suffix s ''T'' \<Longrightarrow> s \<noteq> [] \<and> last s = CHR ''T''"
  by (auto simp: has_suffix_def suffix_def)

lemma canonicalIntervalRe_P: "canonicalIntervalRe (CHR ''P'' # s) = None"
  by (simp add: canonicalIntervalRe_def m_ym_def m_sign_def m_digits_def span_digits_def)

lemma parseISO8601_body:
  assumes "iso_body iv \<noteq> []" "iv_int32 iv" "iso_time_ok iv"
    "0 \<le> Seconds iv \<and> 0 \<le> SubSecondNanos iv \<or> Seconds iv \<le> 0 \<and> SubSecondNanos iv \<le> 0"
  shows "parseISO8601Interval (CHR ''P'' # iso_body iv) = Some iv"
proof -
  let ?sub = "SubSecondNanos iv"
  let ?sec = "secs_text (Seconds iv) ?sub"
  have i: "int32 (Years iv)" "int32 (Months iv)" "int32 (Days iv)" "int32 (Hours iv)"
    "int32 (Minutes iv)" "int32 (Seconds iv)" "int32 ?sub"
    using assms(2) by (simp_all add: iv_int32_def)
  have nosuf: "\<not> has_suffix (CHR ''P'' # iso_body iv) ''T''" "CHR ''P'' # iso_body iv \<noteq> ''P''"
    using last_iso_body [of iv] assms(1) by (auto dest: has_suffix_T)
  have ints: "iso_ints [field_text (Years iv), field_text (Months iv), [], field_text (Days iv),
       field_text (Hours iv), field_text (Minutes iv), ?sec]
     = Some [Years iv, Months iv, 0, Days iv, Hours iv, Minutes iv, Seconds iv]"
    using iso_ints_field [OF i(1)] iso_ints_field [OF i(2)] iso_ints_field [OF i(3)]
      iso_ints_field [OF i(4)] iso_ints_field [OF i(5)] iso_ints_secs [OF i(6) assms(4)]
    by (simp del: iso_ints.simps(2) add: iso_ints.simps(2) [of "[]"])
  have frac: "secs_frac ?sub = [] \<longleftrightarrow> ?sub = 0"
    "?sub \<noteq> 0 \<Longrightarrow> ParseInt (take 9 (secs_frac ?sub @ ''000000000'')) 32 = Inr \<bar>?sub\<bar>"
    using assms(3) trim_right_zeros_denotes [of "\<bar>?sub\<bar>"]
    by (auto simp: secs_frac_def fraction_denotes_def iso_time_ok_def)
  have neg: "?sub \<noteq> 0 \<Longrightarrow> prefix ''-'' ?sec \<longleftrightarrow> ?sub < 0"
  proof -
    assume "?sub \<noteq> 0"
    moreover have "\<not> prefix ''-'' (dec_nat (nat \<bar>Seconds iv\<bar>))"
      using hd_dec_nat_digit [of "nat \<bar>Seconds iv\<bar>"] by (cases "dec_nat (nat \<bar>Seconds iv\<bar>)") auto
    ultimately show ?thesis using assms(4) by (auto simp: secs_text_def sign_text_def)
  qed
  have "(if ?sub \<noteq> 0 \<and> prefix ''-'' ?sec then - \<bar>?sub\<bar> else \<bar>?sub\<bar>) = ?sub"
    using neg by (cases "?sub = 0") auto
  then show ?thesis
    using i frac nosuf ints
    by (cases "?sub = 0") (simp_all add: parseISO8601Interval_def intervalISORe_printed [OF assms(3)]
        Let_def del: iso_ints.simps)
qed

lemma iso_body_trim:
  "iso_body iv \<noteq> [] \<Longrightarrow> TrimSpace (CHR ''P'' # iso_body iv) = CHR ''P'' # iso_body iv"
  using last_iso_body [of iv] by (intro TrimSpace_graphic) (auto simp: graphic_def)

lemma ParseInterval_ISO8601:
  assumes "printable iv"
  shows "ParseInterval (ISO8601 iv) = Inr iv"
proof (cases "iso_body iv = []")
  case True
  then have z: "iv = zero_interval"
    by (auto simp: iso_body_def iso_field_def iso_time_Nil zero_interval_def split: if_splits
        intro!: interval_value.equality)
  have "ISO8601 iv = ''P0Y''" using assms True
    by (simp add: ISO8601_body printable_def strictly_canonical_IsCanonical)
  moreover have "ParseInterval ''P0Y'' = Inr zero_interval" by code_simp
  ultimately show ?thesis using z by simp
next
  case False
  have "iso_time_ok iv" "iv_int32 iv"
    "0 \<le> Seconds iv \<and> 0 \<le> SubSecondNanos iv \<or> Seconds iv \<le> 0 \<and> SubSecondNanos iv \<le> 0"
    using assms by (auto simp: printable_def strictly_canonical_def iso_time_ok_def iv_int32_def)
  with False parseISO8601_body [of iv] show ?thesis using assms
    by (simp add: ISO8601_body printable_def strictly_canonical_IsCanonical ParseInterval_def
        iso_body_trim canonicalIntervalRe_P)
qed

end
