(* ===== verification/Go_Time.thy ===== *)
theory Go_Time
  imports Go_Base
begin

text \<open>
  The part of Go's \<open>time\<close> package the date functions use. A \<open>time.Time\<close> in UTC is the
  number of nanoseconds since 1970-01-01T00:00:00Z, an \<^typ>\<open>int\<close>; a \<open>time.Duration\<close> is
  an \<open>int64\<close> number of nanoseconds. The civil calendar is the proleptic Gregorian one.
  Every DATE, DATETIME and TIMESTAMP of the program is held in UTC.
\<close>

type_synonym gotime = int

section \<open>The calendar\<close>

definition is_leap :: "int \<Rightarrow> bool" where
  "is_leap y \<longleftrightarrow> 4 dvd y \<and> (\<not> 100 dvd y \<or> 400 dvd y)"

definition year_len :: "int \<Rightarrow> int" where
  "year_len y = (if is_leap y then 366 else 365)"

text \<open>Days from 1970-01-01 to January 1 of year \<open>y\<close>.\<close>

definition days_before_year :: "int \<Rightarrow> int" where
  "days_before_year y =
     365 * (y - 1) + (y - 1) div 4 - (y - 1) div 100 + (y - 1) div 400 - 719162"

definition month_len :: "int \<Rightarrow> int \<Rightarrow> int" where
  "month_len y m = (if m = 2 then (if is_leap y then 29 else 28)
                    else if m \<in> {4, 6, 9, 11} then 30 else 31)"

definition days_before_month :: "int \<Rightarrow> int \<Rightarrow> int" where
  "days_before_month y m =
     (if m \<le> 1 then 0 else if m = 2 then 31
      else (if is_leap y then 1 else 0) +
        (if m = 3 then 59 else if m = 4 then 90 else if m = 5 then 120 else if m = 6 then 151
         else if m = 7 then 181 else if m = 8 then 212 else if m = 9 then 243
         else if m = 10 then 273 else if m = 11 then 304 else 334))"

definition days_of_civil :: "int \<Rightarrow> int \<Rightarrow> int \<Rightarrow> int" where
  "days_of_civil y m d = days_before_year y + days_before_month y m + (d - 1)"

text \<open>Year and zero-based day of the year of a day number, by 400-, 100-, 4- and 1-year cycles.\<close>

definition year_yday :: "int \<Rightarrow> int \<times> int" where
  "year_yday n =
     (let z = n + 719162;
          n400 = z div 146097; d400 = z mod 146097;
          c = d400 div 36524; n100 = c - c div 4; d100 = d400 - 36524 * n100;
          n4 = d100 div 1461; d4 = d100 - 1461 * n4;
          e = d4 div 365; n1 = e - e div 4; d1 = d4 - 365 * n1
      in (400 * n400 + 100 * n100 + 4 * n4 + n1 + 1, d1))"

definition month_of_yday :: "int \<Rightarrow> int \<Rightarrow> int" where
  "month_of_yday y yd =
     (if yd < days_before_month y 2 then 1 else if yd < days_before_month y 3 then 2
      else if yd < days_before_month y 4 then 3 else if yd < days_before_month y 5 then 4
      else if yd < days_before_month y 6 then 5 else if yd < days_before_month y 7 then 6
      else if yd < days_before_month y 8 then 7 else if yd < days_before_month y 9 then 8
      else if yd < days_before_month y 10 then 9 else if yd < days_before_month y 11 then 10
      else if yd < days_before_month y 12 then 11 else 12)"

definition civil_of_days :: "int \<Rightarrow> int \<times> int \<times> int" where
  "civil_of_days n =
     (let (y, yd) = year_yday n; m = month_of_yday y yd
      in (y, m, yd - days_before_month y m + 1))"

definition valid_civil :: "int \<Rightarrow> int \<Rightarrow> int \<Rightarrow> bool" where
  "valid_civil y m d \<longleftrightarrow> 1 \<le> m \<and> m \<le> 12 \<and> 1 \<le> d \<and> d \<le> month_len y m"

section \<open>time.Time\<close>

definition day_ns :: int where "day_ns = 86400000000000"

definition day_number :: "gotime \<Rightarrow> int" where
  "day_number t = t div day_ns"

definition Year :: "gotime \<Rightarrow> int" where
  "Year t = fst (civil_of_days (day_number t))"

definition Month :: "gotime \<Rightarrow> int" where
  "Month t = fst (snd (civil_of_days (day_number t)))"

definition Day :: "gotime \<Rightarrow> int" where
  "Day t = snd (snd (civil_of_days (day_number t)))"

definition clock_ns :: "gotime \<Rightarrow> int" where
  "clock_ns t = t mod day_ns"

definition Hour :: "gotime \<Rightarrow> int" where "Hour t = clock_ns t div 3600000000000"
definition Minute :: "gotime \<Rightarrow> int" where "Minute t = clock_ns t div 60000000000 mod 60"
definition Second :: "gotime \<Rightarrow> int" where "Second t = clock_ns t div 1000000000 mod 60"
definition Nanosecond :: "gotime \<Rightarrow> int" where "Nanosecond t = clock_ns t mod 1000000000"

definition YearDay :: "gotime \<Rightarrow> int" where
  "YearDay t = snd (year_yday (day_number t)) + 1"

text \<open>Weekdays count from Sunday = 0; 1970-01-01 was a Thursday.\<close>

definition Weekday :: "gotime \<Rightarrow> int" where
  "Weekday t = (day_number t + 4) mod 7"

text \<open>
  \<open>time.Date\<close> normalises: months outside 1..12 carry into the year, and days, hours, minutes,
  seconds and nanoseconds of any size are added.
\<close>

definition Date :: "int \<Rightarrow> int \<Rightarrow> int \<Rightarrow> int \<Rightarrow> int \<Rightarrow> int \<Rightarrow> int \<Rightarrow> gotime" where
  "Date y m d hh mi ss ns =
     (let y' = y + (m - 1) div 12; m' = (m - 1) mod 12 + 1
      in (days_of_civil y' m' 1 + (d - 1)) * day_ns + hh * 3600000000000 + mi * 60000000000
         + ss * 1000000000 + ns)"

definition AddDate :: "gotime \<Rightarrow> int \<Rightarrow> int \<Rightarrow> int \<Rightarrow> gotime" where
  "AddDate t y m d =
     Date (Year t + y) (Month t + m) (Day t + d) (Hour t) (Minute t) (Second t) (Nanosecond t)"

definition Unix :: "gotime \<Rightarrow> int" where "Unix t = t div 1000000000"
definition UnixMicro :: "gotime \<Rightarrow> int" where "UnixMicro t = t div 1000"

text \<open>\<open>Time.Sub\<close> saturates at the ends of \<open>time.Duration\<close>.\<close>

definition TimeSub :: "gotime \<Rightarrow> gotime \<Rightarrow> int" where
  "TimeSub t u = (let d = t - u in if d < - 9223372036854775808 then - 9223372036854775808
                  else if d > 9223372036854775807 then 9223372036854775807 else d)"

text \<open>The ISO year and week of the Thursday of the week that contains \<open>t\<close>.\<close>

definition ISOWeek :: "gotime \<Rightarrow> int \<times> int" where
  "ISOWeek t =
     (let (y, yd) = year_yday (day_number t - (Weekday t + 6) mod 7 + 3) in (y, yd div 7 + 1))"

text \<open>The zero value of \<open>time.Time\<close>: January 1 of year 1.\<close>

definition zero_time :: gotime where
  "zero_time = - 719162 * day_ns"

section \<open>Laws of the calendar\<close>

lemma div_pred:
  fixes y k :: int
  assumes "0 < k"
  shows "y div k = (y - 1) div k + (if k dvd y then 1 else 0)"
proof (cases "k dvd y")
  case True
  then obtain q where "y = k * q" by blast
  then have "y - 1 = k * (q - 1) + (k - 1)" by (simp add: algebra_simps)
  then have "(y - 1) div k = q - 1" using assms
    by (intro int_div_pos_eq [where r = "k - 1"]) simp_all
  with True \<open>y = k * q\<close> assms show ?thesis by simp
next
  case False
  then have "0 < y mod k"
    using assms pos_mod_sign [of k y] by (auto simp: dvd_eq_mod_eq_0 less_le)
  moreover have "y - 1 = k * (y div k) + (y mod k - 1)" by simp
  moreover have "y mod k < k" using assms by simp
  ultimately have "(y - 1) div k = y div k"
    using int_div_pos_eq [of "y - 1" k "y div k" "y mod k - 1"] by linarith
  with False show ?thesis by simp
qed

lemma days_before_year_Suc: "days_before_year (y + 1) = days_before_year y + year_len y"
proof -
  have "(4::int) dvd 100" "(100::int) dvd 400" by simp_all
  then have i: "400 dvd y \<longrightarrow> 100 dvd y" "100 dvd y \<longrightarrow> 4 dvd y" by (blast intro: dvd_trans)+
  define A B C where "A \<longleftrightarrow> 4 dvd y" and "B \<longleftrightarrow> 100 dvd y" and "C \<longleftrightarrow> 400 dvd y"
  have d: "y div 4 = (y - 1) div 4 + (if A then 1 else 0)"
    "y div 100 = (y - 1) div 100 + (if B then 1 else 0)"
    "y div 400 = (y - 1) div 400 + (if C then 1 else 0)"
    unfolding A_def B_def C_def by (rule div_pred; simp)+
  have l: "year_len y = (if A \<and> (\<not> B \<or> C) then 366 else 365)" "C \<longrightarrow> B" "B \<longrightarrow> A"
    using i unfolding year_len_def is_leap_def A_def B_def C_def by blast+
  have "days_before_year (y + 1) = 365 * y + y div 4 - y div 100 + y div 400 - 719162"
    by (simp only: days_before_year_def add_diff_cancel_right')
  also have "\<dots> = days_before_year y + year_len y"
    unfolding d l(1) days_before_year_def using l(2,3) by (cases A; cases B; cases C) simp_all
  finally show ?thesis .
qed

lemma year_len_pos: "365 \<le> year_len y" "year_len y \<le> 366"
  by (simp_all add: year_len_def)

lemma days_before_year_mono: "y \<le> y' \<Longrightarrow> days_before_year y \<le> days_before_year y'"
proof (induction y' rule: int_ge_induct)
  case (step i)
  then show ?case using days_before_year_Suc [of i] year_len_pos [of i] by linarith
qed simp

lemma year_unique:
  assumes "days_before_year y \<le> n" "n < days_before_year (y + 1)"
    "days_before_year y' \<le> n" "n < days_before_year (y' + 1)"
  shows "y = y'"
proof (rule ccontr)
  assume "y \<noteq> y'"
  then have "y + 1 \<le> y' \<or> y' + 1 \<le> y" by linarith
  with assms days_before_year_mono [of "y + 1" y'] days_before_year_mono [of "y' + 1" y]
  show False by linarith
qed

lemma days_before_year_cycles:
  assumes "0 \<le> a" "a \<le> 3" "0 \<le> b" "b \<le> 24" "0 \<le> c" "c \<le> 3"
  shows "days_before_year (400 * q + 100 * a + 4 * b + c + 1) + 719162
       = 146097 * q + 36524 * a + 1461 * b + 365 * c"
proof -
  have "(400 * q + 100 * a + 4 * b + c) div 4 = 100 * q + 25 * a + b"
    using assms by (intro int_div_pos_eq [where r = c]) simp_all
  moreover have "(400 * q + 100 * a + 4 * b + c) div 100 = 4 * q + a"
    using assms by (intro int_div_pos_eq [where r = "4 * b + c"]) simp_all
  moreover have "(400 * q + 100 * a + 4 * b + c) div 400 = q"
    using assms by (intro int_div_pos_eq [where r = "100 * a + 4 * b + c"]) simp_all
  ultimately show ?thesis by (simp add: days_before_year_def)
qed

text \<open>One cycle: four parts of length \<open>l\<close>, the last of which may be one day longer.\<close>

lemma long_cycle:
  fixes z l :: int
  assumes "0 \<le> z" "z \<le> 4 * l" "1 < l" and a: "a = z div l - z div l div 4"
  shows "0 \<le> a" "a \<le> 3" "0 \<le> z - l * a" "z - l * a \<le> l" "z - l * a = l \<longrightarrow> a = 3"
proof -
  have l: "0 < l" using assms(3) by linarith
  have z: "z = l * (z div l) + z mod l" "0 \<le> z mod l" "z mod l < l" using l by simp_all
  have "0 \<le> z div l" using assms(1) l by (simp add: pos_imp_zdiv_nonneg_iff)
  moreover have "z div l \<le> 4"
    using zdiv_mono1 [OF assms(2) l] l by simp
  ultimately have k: "z div l = 4 \<or> 0 \<le> z div l \<and> z div l < 4" by linarith
  have "z div l = 4 \<and> a = 3 \<and> z - l * a = l + z mod l \<and> z mod l = 0 \<or>
      0 \<le> a \<and> a \<le> 3 \<and> z - l * a = z mod l"
  proof (cases "z div l = 4")
    case True
    then have "a = 3" using a by simp
    with True z(1) have "z = l * 4 + z mod l" by simp
    with z(2) assms(2) have "z mod l = 0" "z = 4 * l" by linarith+
    with True \<open>a = 3\<close> show ?thesis by simp
  next
    case False
    with k have "0 \<le> z div l" "z div l < 4" by simp_all
    then have "a = z div l" using a by simp
    with False k show ?thesis using z(1) by (auto simp: algebra_simps)
  qed
  then have "0 \<le> a \<and> a \<le> 3 \<and> 0 \<le> z - l * a \<and> z - l * a \<le> l \<and> (z - l * a = l \<longrightarrow> a = 3)"
    using z(2,3) l by (elim disjE) linarith+
  then show "0 \<le> a" "a \<le> 3" "0 \<le> z - l * a" "z - l * a \<le> l" "z - l * a = l \<longrightarrow> a = 3"
    by blast+
qed

lemma cycle_steps:
  fixes z :: int
  assumes "0 \<le> z" "z < 146097" and a: "a = z div 36524 - z div 36524 div 4"
    and b: "b = (z - 36524 * a) div 1461"
    and c: "c = (z - 36524 * a - 1461 * b) div 365 - (z - 36524 * a - 1461 * b) div 365 div 4"
    and r: "r = z - 36524 * a - 1461 * b - 365 * c"
  shows "0 \<le> a" "a \<le> 3" "0 \<le> b" "b \<le> 24" "0 \<le> c" "c \<le> 3" "0 \<le> r" "r \<le> 365"
    "r = 365 \<Longrightarrow> c = 3 \<and> (b < 24 \<or> a = 3)"
proof -
  define d where "d = z - 36524 * a"
  have A: "0 \<le> a" "a \<le> 3" "0 \<le> d" "d \<le> 36524" "d = 36524 \<longrightarrow> a = 3"
    unfolding d_def using long_cycle [OF assms(1) _ _ a] assms(2) by simp_all
  define e where "e = d mod 1461"
  have b': "b = d div 1461" using b by (simp add: d_def)
  have e: "d - 1461 * b = e"
    unfolding e_def b' by (rule minus_mult_div_eq_mod)
  have e': "0 \<le> e" "e \<le> 4 * 365"
    using pos_mod_bound [of 1461 d] pos_mod_sign [of 1461 d] unfolding e_def by linarith+
  have B: "0 \<le> b" "b \<le> 24"
    unfolding b' using A(3) zdiv_mono1 [OF A(4), of 1461] by (simp_all add: pos_imp_zdiv_nonneg_iff)
  have c': "c = e div 365 - e div 365 div 4" "r = e - 365 * c"
    using c r unfolding d_def [symmetric] e by simp_all
  have C: "0 \<le> c" "c \<le> 3" "0 \<le> r" "r \<le> 365" "r = 365 \<longrightarrow> c = 3"
    unfolding c'(2) using long_cycle [OF e' _ c'(1)] by simp_all
  have "c = 3 \<and> (b < 24 \<or> a = 3)" if "r = 365"
  proof -
    have "c = 3" using that C by simp
    moreover have "e = 1460" using that c'(2) calculation by linarith
    ultimately have "b = 24 \<Longrightarrow> d = 36524" using e by simp
    then show ?thesis using \<open>c = 3\<close> A(5) B by (auto simp: le_less)
  qed
  with A B C show "0 \<le> a" "a \<le> 3" "0 \<le> b" "b \<le> 24" "0 \<le> c" "c \<le> 3" "0 \<le> r" "r \<le> 365"
    "r = 365 \<Longrightarrow> c = 3 \<and> (b < 24 \<or> a = 3)" by simp_all
qed

lemma year_yday_bounds:
  assumes "year_yday n = (y, yd)"
  shows "n = days_before_year y + yd" "0 \<le> yd" "yd < year_len y"
proof -
  define q z where "q = (n + 719162) div 146097" and "z = (n + 719162) mod 146097"
  define a where "a = z div 36524 - z div 36524 div 4"
  define b where "b = (z - 36524 * a) div 1461"
  define c where
    "c = (z - 36524 * a - 1461 * b) div 365 - (z - 36524 * a - 1461 * b) div 365 div 4"
  define r where "r = z - 36524 * a - 1461 * b - 365 * c"
  have z: "0 \<le> z" "z < 146097" by (simp_all add: z_def)
  note s = cycle_steps [OF z a_def b_def c_def r_def]
  have y: "y = 400 * q + 100 * a + 4 * b + c + 1" "yd = r"
    using assms unfolding year_yday_def Let_def q_def [symmetric] z_def [symmetric]
      a_def [symmetric] b_def [symmetric] c_def [symmetric] r_def [symmetric] by simp_all
  have "n + 719162 = 146097 * q + z" unfolding q_def z_def by simp
  then show "n = days_before_year y + yd"
    using days_before_year_cycles [OF s(1-6), of q] by (simp add: y r_def)
  show "0 \<le> yd" using s by (simp add: y)
  have "is_leap y" if "r = 365"
  proof -
    have "c = 3" "b < 24 \<or> a = 3" using s that by auto
    moreover have "y = 4 * (100 * q + 25 * a + b + 1)" using \<open>c = 3\<close> y by simp
    then have "4 dvd y" by (rule dvdI)
    moreover have "b = 24" if "100 dvd y"
    proof -
      have "y = (4 * b + 4) + 100 * (4 * q + a)" using \<open>c = 3\<close> y by simp
      with that have "100 dvd 4 * b + 4" by (metis dvd_add_left_iff dvd_triv_left)
      from zdvd_imp_le [OF this] s show ?thesis by simp
    qed
    moreover have "y = 400 * (q + 1)" if "a = 3" "b = 24" using that \<open>c = 3\<close> y by simp
    then have "a = 3 \<Longrightarrow> b = 24 \<Longrightarrow> 400 dvd y" by (metis dvdI)
    ultimately show ?thesis by (auto simp: is_leap_def)
  qed
  with s(8) show "yd < year_len y" by (cases "r = 365") (auto simp: year_len_def y(2))
qed

lemma year_yday_inverse:
  assumes "0 \<le> yd" "yd < year_len y"
  shows "year_yday (days_before_year y + yd) = (y, yd)"
proof -
  obtain y' yd' where e: "year_yday (days_before_year y + yd) = (y', yd')" by fastforce
  note b = year_yday_bounds [OF e]
  have "y' = y"
    using b assms days_before_year_Suc [of y] days_before_year_Suc [of y']
    by (intro year_unique [of _ "days_before_year y + yd"]) linarith+
  with b e show ?thesis by simp
qed

lemma month_len_bounds: "28 \<le> month_len y m" "month_len y m \<le> 31"
  by (simp_all add: month_len_def)

lemma days_before_month_Suc:
  "1 \<le> m \<Longrightarrow> m < 12 \<Longrightarrow> days_before_month y (m + 1) = days_before_month y m + month_len y m"
proof -
  assume "1 \<le> m" "m < 12"
  then have "m = 1 \<or> m = 2 \<or> m = 3 \<or> m = 4 \<or> m = 5 \<or> m = 6 \<or> m = 7 \<or> m = 8 \<or> m = 9 \<or> m = 10
      \<or> m = 11" by presburger
  then show ?thesis by (elim disjE) (simp_all add: days_before_month_def month_len_def)
qed

lemma days_before_month_end: "days_before_month y 12 + month_len y 12 = year_len y"
  by (simp add: days_before_month_def month_len_def year_len_def)

lemma days_before_month_mono:
  assumes "1 \<le> m" "m < m'" "m' \<le> 12"
  shows "days_before_month y m + month_len y m \<le> days_before_month y m'"
proof -
  have "m + 1 \<le> m'" using assms(2) by simp
  then have "m' \<le> 12 \<longrightarrow> days_before_month y (m + 1) \<le> days_before_month y m'"
  proof (induction m' rule: int_ge_induct)
    case (step i)
    then show ?case
      using assms(1) days_before_month_Suc [of i y] month_len_bounds [of y i] by auto
  qed simp
  then show ?thesis using assms days_before_month_Suc [of m y] by simp
qed

lemma month_of_yday_bounds:
  assumes "0 \<le> yd" "yd < year_len y" "m = month_of_yday y yd"
  shows "1 \<le> m" "m \<le> 12" "days_before_month y m \<le> yd"
    "yd < days_before_month y m + month_len y m"
proof -
  let ?b = "days_before_month y" and ?l = "month_len y"
  have s: "?b 2 = ?b 1 + ?l 1" "?b 3 = ?b 2 + ?l 2" "?b 4 = ?b 3 + ?l 3" "?b 5 = ?b 4 + ?l 4"
    "?b 6 = ?b 5 + ?l 5" "?b 7 = ?b 6 + ?l 6" "?b 8 = ?b 7 + ?l 7" "?b 9 = ?b 8 + ?l 8"
    "?b 10 = ?b 9 + ?l 9" "?b 11 = ?b 10 + ?l 10" "?b 12 = ?b 11 + ?l 11"
    "year_len y = ?b 12 + ?l 12" "?b 1 = 0"
    using days_before_month_Suc [of 1 y] days_before_month_Suc [of 2 y]
      days_before_month_Suc [of 3 y] days_before_month_Suc [of 4 y] days_before_month_Suc [of 5 y]
      days_before_month_Suc [of 6 y] days_before_month_Suc [of 7 y] days_before_month_Suc [of 8 y]
      days_before_month_Suc [of 9 y] days_before_month_Suc [of 10 y] days_before_month_Suc [of 11 y]
      days_before_month_end [of y]
    by (simp_all add: days_before_month_def [of y 1])
  define P where "P = (\<lambda>m. 1 \<le> m \<and> m \<le> 12 \<and> ?b m \<le> yd \<and> yd < ?b m + ?l m)"
  have choose: "P (if c then x else z)" if "c \<Longrightarrow> P x" "\<not> c \<Longrightarrow> P z" for c x z
    using that by simp
  have "P m"
    unfolding assms(3) month_of_yday_def
    apply (intro choose)
    unfolding P_def using assms(1,2) s by (intro conjI; linarith)+
  then have "1 \<le> m \<and> m \<le> 12 \<and> ?b m \<le> yd \<and> yd < ?b m + ?l m" by (simp only: P_def)
  then show "1 \<le> m" "m \<le> 12" "?b m \<le> yd" "yd < ?b m + ?l m" by blast+
qed

lemma month_of_yday_unique:
  assumes "1 \<le> m" "m \<le> 12" "days_before_month y m \<le> yd"
    "yd < days_before_month y m + month_len y m" "0 \<le> yd" "yd < year_len y"
  shows "month_of_yday y yd = m"
proof (rule ccontr)
  define m' where "m' = month_of_yday y yd"
  note b = month_of_yday_bounds [OF assms(5,6) m'_def]
  assume "month_of_yday y yd \<noteq> m"
  then have "m' < m \<or> m < m'" by (auto simp: m'_def)
  then show False
    using days_before_month_mono [of m' m y] days_before_month_mono [of m m' y] b assms by auto
qed

lemma days_before_month_nonneg: "0 \<le> days_before_month y m"
  by (simp add: days_before_month_def)

lemma yday_bound:
  assumes "valid_civil y m d"
  shows "0 \<le> days_before_month y m + (d - 1)" "days_before_month y m + (d - 1) < year_len y"
proof -
  show "0 \<le> days_before_month y m + (d - 1)"
    using assms days_before_month_nonneg [of y m] by (simp add: valid_civil_def)
  have "days_before_month y m + month_len y m \<le> year_len y"
    using assms days_before_month_mono [of m 12 y] days_before_month_end [of y]
      month_len_bounds [of y 12]
    by (cases "m = 12") (auto simp: valid_civil_def)
  then show "days_before_month y m + (d - 1) < year_len y"
    using assms by (simp add: valid_civil_def)
qed

section \<open>The interface of a civil calendar\<close>

text \<open>
  What the date functions rely on: day numbers and valid civil dates correspond one to one,
  and a later date has a later number.
\<close>

locale civil_calendar =
  fixes to_days :: "int \<Rightarrow> int \<Rightarrow> int \<Rightarrow> int"
    and of_days :: "int \<Rightarrow> int \<times> int \<times> int"
    and valid :: "int \<Rightarrow> int \<Rightarrow> int \<Rightarrow> bool"
  assumes of_days_valid: "of_days n = (y, m, d) \<Longrightarrow> valid y m d"
    and to_days_of_days: "of_days n = (y, m, d) \<Longrightarrow> to_days y m d = n"
    and of_days_to_days: "valid y m d \<Longrightarrow> of_days (to_days y m d) = (y, m, d)"
    and to_days_less: "valid y m d \<Longrightarrow> valid y' m' d' \<Longrightarrow>
      to_days y m d < to_days y' m' d' \<longleftrightarrow> y < y' \<or> y = y' \<and> (m < m' \<or> m = m' \<and> d < d')"
begin

lemma to_days_inject:
  "valid y m d \<Longrightarrow> valid y' m' d' \<Longrightarrow> to_days y m d = to_days y' m' d' \<longleftrightarrow> (y, m, d) = (y', m', d')"
proof
  assume v: "valid y m d" "valid y' m' d'" and "to_days y m d = to_days y' m' d'"
  then have "of_days (to_days y m d) = of_days (to_days y' m' d')" by (simp only:)
  then show "(y, m, d) = (y', m', d')" by (simp only: of_days_to_days v)
qed auto

lemma of_days_inject: "of_days n = of_days n' \<longleftrightarrow> n = n'"
  by (metis prod_cases3 to_days_of_days)

lemma to_days_le: "valid y m d \<Longrightarrow> valid y' m' d' \<Longrightarrow>
    to_days y m d \<le> to_days y' m' d' \<longleftrightarrow> y < y' \<or> y = y' \<and> (m < m' \<or> m = m' \<and> d \<le> d')"
  using to_days_less [of y' m' d' y m d] by (auto simp: not_less [symmetric])

end

lemma civil_of_days_bounds:
  assumes "civil_of_days n = (y, m, d)"
  shows "valid_civil y m d" "days_of_civil y m d = n"
proof -
  obtain yd where e: "year_yday n = (y, yd)" and m: "m = month_of_yday y yd"
    and d: "d = yd - days_before_month y m + 1"
    using assms by (auto simp: civil_of_days_def Let_def split: prod.splits)
  note y = year_yday_bounds [OF e]
  note b = month_of_yday_bounds [OF y(2,3) m]
  show "valid_civil y m d" using b d by (simp add: valid_civil_def)
  show "days_of_civil y m d = n" using y d by (simp add: days_of_civil_def)
qed

lemma civil_of_days_inverse:
  assumes "valid_civil y m d"
  shows "civil_of_days (days_of_civil y m d) = (y, m, d)"
proof -
  let ?yd = "days_before_month y m + (d - 1)"
  note b = yday_bound [OF assms]
  have "days_of_civil y m d = days_before_year y + ?yd" by (simp add: days_of_civil_def)
  moreover have "month_of_yday y ?yd = m"
    using assms b by (intro month_of_yday_unique) (auto simp: valid_civil_def)
  ultimately show ?thesis
    using year_yday_inverse [OF b] by (simp add: civil_of_days_def Let_def)
qed

lemma days_of_civil_less:
  assumes "valid_civil y m d" "valid_civil y' m' d'"
    "y < y' \<or> y = y' \<and> (m < m' \<or> m = m' \<and> d < d')"
  shows "days_of_civil y m d < days_of_civil y' m' d'"
proof -
  consider "y < y'" | "y = y'" "m < m'" | "y = y'" "m = m'" "d < d'" using assms(3) by blast
  then show ?thesis
  proof cases
    case 1
    then have "days_before_year (y + 1) \<le> days_before_year y'" by (intro days_before_year_mono) simp
    then show ?thesis using yday_bound [OF assms(1)] yday_bound [OF assms(2)]
        days_before_year_Suc [of y] unfolding days_of_civil_def by linarith
  next
    case 2
    then show ?thesis using assms(1,2) days_before_month_mono [of m m' y]
      by (auto simp: valid_civil_def days_of_civil_def)
  qed (simp add: days_of_civil_def)
qed

interpretation greg: civil_calendar days_of_civil civil_of_days valid_civil
proof unfold_locales
  fix y m d y' m' d'
  assume v: "valid_civil y m d" "valid_civil y' m' d'"
  show "days_of_civil y m d < days_of_civil y' m' d' \<longleftrightarrow>
      y < y' \<or> y = y' \<and> (m < m' \<or> m = m' \<and> d < d')"
    using days_of_civil_less [OF v] days_of_civil_less [OF v(2,1)]
    by (metis less_irrefl linorder_less_linear order_less_asym)
qed (auto dest: civil_of_days_bounds simp: civil_of_days_inverse)

section \<open>Laws of time.Time\<close>

lemma day_ns_pos [simp]: "0 < day_ns" "day_ns \<noteq> 0"
  by (simp_all add: day_ns_def)

lemma time_split: "t = day_number t * day_ns + clock_ns t"
  by (simp add: day_number_def clock_ns_def)

lemma clock_ns_bounds: "0 \<le> clock_ns t" "clock_ns t < day_ns"
  by (simp_all add: clock_ns_def)

lemma clock_split:
  "Hour t * 3600000000000 + Minute t * 60000000000 + Second t * 1000000000 + Nanosecond t = clock_ns t"
proof -
  let ?c = "clock_ns t"
  have "?c = 1000000000 * (?c div 1000000000) + ?c mod 1000000000" by simp
  moreover have "?c div 1000000000 = 60 * (?c div 60000000000) + ?c div 1000000000 mod 60"
    using mult_div_mod_eq [of 60 "?c div 1000000000"] zdiv_zmult2_eq [of 60 ?c 1000000000] by simp
  moreover have "?c div 60000000000 = 60 * (?c div 3600000000000) + ?c div 60000000000 mod 60"
    using mult_div_mod_eq [of 60 "?c div 60000000000"] zdiv_zmult2_eq [of 60 ?c 60000000000] by simp
  ultimately show ?thesis
    unfolding Hour_def Minute_def Second_def Nanosecond_def by linarith
qed

lemma civil_of_time: "civil_of_days (day_number t) = (Year t, Month t, Day t)"
  by (simp add: Year_def Month_def Day_def)

lemma civil_valid [simp]: "valid_civil (Year t) (Month t) (Day t)"
  using greg.of_days_valid [OF civil_of_time] .

lemma days_of_time: "days_of_civil (Year t) (Month t) (Day t) = day_number t"
  using greg.to_days_of_days [OF civil_of_time] .

lemma Month_bounds: "1 \<le> Month t" "Month t \<le> 12"
  using civil_valid [of t] by (simp_all add: valid_civil_def)

lemma Day_bounds: "1 \<le> Day t" "Day t \<le> month_len (Year t) (Month t)"
  using civil_valid [of t] by (simp_all add: valid_civil_def)

lemma day_number_clock:
  "0 \<le> c \<Longrightarrow> c < day_ns \<Longrightarrow> day_number (n * day_ns + c) = n \<and> clock_ns (n * day_ns + c) = c"
  by (simp add: day_number_def clock_ns_def)

lemma days_of_civil_shift: "days_of_civil y m d = days_of_civil y m 1 + (d - 1)"
  by (simp add: days_of_civil_def)

lemma Date_in_range:
  assumes "1 \<le> m" "m \<le> 12"
  shows "Date y m d hh mi ss ns = days_of_civil y m d * day_ns
    + (hh * 3600000000000 + mi * 60000000000 + ss * 1000000000 + ns)"
proof -
  have "(m - 1) div 12 = 0" "(m - 1) mod 12 = m - 1" using assms by auto
  then show ?thesis by (simp add: Date_def Let_def days_of_civil_def)
qed

lemma AddDate_days: "AddDate t 0 0 n = t + n * day_ns"
proof -
  have "AddDate t 0 0 n = days_of_civil (Year t) (Month t) (Day t + n) * day_ns + clock_ns t"
    using Month_bounds [of t] by (simp add: AddDate_def Date_in_range clock_split)
  also have "days_of_civil (Year t) (Month t) (Day t + n) = day_number t + n"
    using days_of_time [of t] by (simp add: days_of_civil_def)
  finally show ?thesis using time_split [of t] by (simp add: algebra_simps)
qed

lemma day_number_add_days: "day_number (t + n * day_ns) = day_number t + n"
  by (simp add: day_number_def)

lemma clock_ns_add_days: "clock_ns (t + n * day_ns) = clock_ns t"
  by (simp add: clock_ns_def)

lemma Weekday_bounds: "0 \<le> Weekday t" "Weekday t < 7"
  by (simp_all add: Weekday_def)

lemma Date_civil:
  assumes "valid_civil y m d"
  shows "Year (Date y m d 0 0 0 0) = y" "Month (Date y m d 0 0 0 0) = m"
    "Day (Date y m d 0 0 0 0) = d" "clock_ns (Date y m d 0 0 0 0) = 0"
    "day_number (Date y m d 0 0 0 0) = days_of_civil y m d"
proof -
  have "Date y m d 0 0 0 0 = days_of_civil y m d * day_ns + 0"
    using assms by (simp add: Date_in_range valid_civil_def)
  then have n: "day_number (Date y m d 0 0 0 0) = days_of_civil y m d"
    "clock_ns (Date y m d 0 0 0 0) = 0"
    using day_number_clock [of 0 "days_of_civil y m d"] by simp_all
  then show "Year (Date y m d 0 0 0 0) = y" "Month (Date y m d 0 0 0 0) = m"
    "Day (Date y m d 0 0 0 0) = d" "clock_ns (Date y m d 0 0 0 0) = 0"
    "day_number (Date y m d 0 0 0 0) = days_of_civil y m d"
    by (simp_all add: Year_def Month_def Day_def greg.of_days_to_days [OF assms])
qed

end
