(* ===== verification/Values.thy ===== *)
theory Values
  imports Interval_Text Go_Time
begin

text \<open>
  Model of the SQL value layer, \<open>internal/value\<close>: the \<open>Value\<close> interface as a datatype,
  the INTERVAL arithmetic of \<open>value_interval.go\<close> (a triple of months, days and nanoseconds
  held in a canonical seven-field struct), and the arithmetic and comparison operators of the
  INT64, BOOL, DATE, DATETIME, TIME, TIMESTAMP, INTERVAL and RANGE values.

  \<open>big.Int\<close> values are \<^typ>\<open>int\<close>. A NULL is \<open>None\<close> of a \<open>val option\<close>.
  The model covers the eight kinds of value the INTERVAL, date/time and RANGE functions take;
  strings, floats, numerics, bytes, JSON, arrays, structs and geography are not modelled.
\<close>

section \<open>Values and errors\<close>

datatype value_error =
    IntervalFieldRange string int int
  | IntervalDivisionByZero
  | ZeroDivided int
  | UnsupportedOperator string string
  | ComparisonType string string
  | ConvertError string
  | UnknownTimestampPart string
  | EmptyInterval
  | IntervalSyntax interval_error

text \<open>The element type a RANGE records (\<open>NoElem\<close> is the empty \<open>ValueType\<close>).\<close>

datatype elem_type = NoElem | DateElem | DatetimeElem | TimestampElem

datatype val =
    IntValue int
  | BoolValue bool
  | DateValue gotime
  | DatetimeValue gotime
  | TimeValue gotime
  | TimestampValue gotime
  | IntervalValue interval_value
  | RangeValue "val option" "val option" elem_type

text \<open>The \<open>%T\<close> of an operand in an error message.\<close>

fun type_name :: "val \<Rightarrow> string" where
  "type_name (IntValue _) = ''value.IntValue''"
| "type_name (BoolValue _) = ''value.BoolValue''"
| "type_name (DateValue _) = ''value.DateValue''"
| "type_name (DatetimeValue _) = ''value.DatetimeValue''"
| "type_name (TimeValue _) = ''value.TimeValue''"
| "type_name (TimestampValue _) = ''value.TimestampValue''"
| "type_name (IntervalValue _) = ''*value.IntervalValue''"
| "type_name (RangeValue _ _ _) = ''*value.RangeValue''"

section \<open>Interval parts\<close>

definition maxIntervalMonths :: int where "maxIntervalMonths = 120000"
definition maxIntervalDays :: int where "maxIntervalDays = 3660000"
definition maxIntervalHours :: int where "maxIntervalHours = 87840000"
definition nanosPerSecond :: int where "nanosPerSecond = 1000000000"
definition nanosPerHour :: int where "nanosPerHour = 3600 * 1000000000"
definition nanosPerDay :: int where "nanosPerDay = 24 * 3600 * 1000000000"
definition maxIntervalNanos :: int where "maxIntervalNanos = maxIntervalHours * nanosPerHour"

definition intervalTimeNanos :: "interval_value \<Rightarrow> int" where
  "intervalTimeNanos iv =
     (let secs = i64 ((Hours iv * 60 + Minutes iv) * 60 + Seconds iv)
      in secs * nanosPerSecond + SubSecondNanos iv)"

definition IntervalParts :: "interval_value \<Rightarrow> int \<times> int \<times> int" where
  "IntervalParts iv = (i64 (Years iv * 12 + Months iv), Days iv, intervalTimeNanos iv)"

definition checkIntervalField :: "string \<Rightarrow> int \<Rightarrow> int \<Rightarrow> value_error + unit" where
  "checkIntervalField name v limit =
     (if \<bar>v\<bar> > \<bar>limit\<bar> then Inl (IntervalFieldRange name v limit) else Inr ())"

definition NewIntervalFromParts :: "int \<Rightarrow> int \<Rightarrow> int \<Rightarrow> value_error + interval_value" where
  "NewIntervalFromParts months days nanos =
     bind_res (checkIntervalField ''months'' months maxIntervalMonths) (\<lambda>_.
     bind_res (checkIntervalField ''days'' days maxIntervalDays) (\<lambda>_.
     bind_res (checkIntervalField ''nanoseconds'' nanos maxIntervalNanos) (\<lambda>_.
       let m = i64 months;
           hours = nanos sdiv nanosPerHour;
           r = i64 (nanos smod nanosPerHour)
       in Inr \<lparr>Years = i32 (m sdiv 12), Months = i32 (m smod 12), Days = i32 (i64 days),
               Hours = i32 (i64 hours), Minutes = i32 (r sdiv 60000000000),
               Seconds = i32 ((r sdiv 1000000000) smod 60),
               SubSecondNanos = i32 (r smod 1000000000)\<rparr>)))"

definition intervalFromParts :: "int \<Rightarrow> int \<Rightarrow> int \<Rightarrow> value_error + interval_value" where
  "intervalFromParts months days nanos = NewIntervalFromParts months days nanos"

definition DivideIntervalParts :: "int \<Rightarrow> int \<Rightarrow> int \<Rightarrow> int \<Rightarrow> value_error + interval_value" where
  "DivideIntervalParts months days nanos n =
     (if n = 0 then Inl IntervalDivisionByZero
      else let m = months sdiv n; rm = months smod n;
               dd = days + rm * 30;
               q = dd sdiv n; rd = dd smod n;
               nn = nanos + rd * nanosPerDay;
               nq = nn sdiv n;
               nq' = (nq sdiv 1000) * 1000
           in NewIntervalFromParts m q nq')"

definition compareKey :: "interval_value \<Rightarrow> int" where
  "compareKey iv =
     (let (months, days, nanos) = IntervalParts iv
      in (months * 30 + days) * nanosPerDay + nanos)"

section \<open>Adding an interval to a time\<close>

definition addMonthsClamped :: "gotime \<Rightarrow> int \<Rightarrow> gotime" where
  "addMonthsClamped t m =
     (let first' = AddDate (Date (Year t) (Month t) 1 (Hour t) (Minute t) (Second t) (Nanosecond t)) 0 m 0;
          last' = Day (AddDate first' 0 1 (- 1));
          d = (if Day t > last' then last' else Day t)
      in Date (Year first') (Month first') d (Hour t) (Minute t) (Second t) (Nanosecond t))"

text \<open>The loop that adds the seconds in chunks a \<open>time.Duration\<close> can hold.\<close>

function add_chunks :: "gotime \<Rightarrow> int \<Rightarrow> gotime \<times> int" where
  "add_chunks t s =
     (if s > 1000000000 \<or> s < - 1000000000
      then let step = (if s < 0 then - 1000000000 else 1000000000)
           in add_chunks (t + i64 (step * 1000000000)) (s - step)
      else (t, s))"
  by auto
termination by (relation "measure (\<lambda>(t, s). nat \<bar>s\<bar>)") auto

declare add_chunks.simps [simp del]

definition addInterval :: "gotime \<Rightarrow> interval_value \<Rightarrow> int \<Rightarrow> gotime" where
  "addInterval t iv sign =
     (let (months, days, nanos) = IntervalParts iv;
          t1 = addMonthsClamped t (sign * months);
          t2 = AddDate t1 0 0 (sign * days);
          s = i64 (sign * i64 (nanos sdiv nanosPerSecond));
          ns = i64 (sign * i64 (nanos smod nanosPerSecond));
          (t3, s') = add_chunks t2 s
      in t3 + i64 (i64 (s' * 1000000000) + ns))"

section \<open>Conversions\<close>

definition DateFromInt64Value :: "int \<Rightarrow> gotime" where
  "DateFromInt64Value v = i64 (v * 86400) * 1000000000"

definition TimestampFromInt64Value :: "int \<Rightarrow> gotime" where
  "TimestampFromInt64Value v =
     (let sec = v sdiv 1000000; msec = i64 (v - i64 (sec * 1000000))
      in sec * 1000000000 + i64 (msec * 1000000))"

fun ToInt64 :: "val \<Rightarrow> value_error + int" where
  "ToInt64 (IntValue i) = Inr i"
| "ToInt64 (BoolValue b) = Inr (if b then 1 else 0)"
| "ToInt64 (DateValue t) = Inr (Unix t)"
| "ToInt64 (DatetimeValue t) = Inr (Unix t)"
| "ToInt64 (TimeValue t) = Inr (Unix t)"
| "ToInt64 (TimestampValue t) = Inr (Unix t)"
| "ToInt64 (IntervalValue _) = Inl (UnsupportedOperator ''int64 cast'' ''interval value'')"
| "ToInt64 (RangeValue _ _ _) = Inl (UnsupportedOperator ''int64 cast'' ''range value'')"

fun ToTime :: "val \<Rightarrow> value_error + gotime" where
  "ToTime (IntValue i) = Inr (if i > 0 then TimestampFromInt64Value i else DateFromInt64Value i)"
| "ToTime (BoolValue b) = Inl (ConvertError ''bool to time.Time'')"
| "ToTime (DateValue t) = Inr t"
| "ToTime (DatetimeValue t) = Inr t"
| "ToTime (TimeValue t) = Inr t"
| "ToTime (TimestampValue t) = Inr t"
| "ToTime (IntervalValue _) = Inl (UnsupportedOperator ''time cast'' ''interval value'')"
| "ToTime (RangeValue _ _ _) = Inl (UnsupportedOperator ''time cast'' ''range value'')"

fun ToBool :: "val \<Rightarrow> value_error + bool" where
  "ToBool (IntValue i) = (if i = 0 then Inr False else if i = 1 then Inr True
     else Inl (ConvertError ''int to bool''))"
| "ToBool (BoolValue b) = Inr b"
| "ToBool (DateValue _) = Inl (ConvertError ''date to bool'')"
| "ToBool (DatetimeValue _) = Inl (ConvertError ''datetime to bool'')"
| "ToBool (TimeValue _) = Inl (ConvertError ''time to bool'')"
| "ToBool (TimestampValue _) = Inl (ConvertError ''timestamp to bool'')"
| "ToBool (IntervalValue _) = Inl (UnsupportedOperator ''bool cast'' ''interval value'')"
| "ToBool (RangeValue _ _ _) = Inl (UnsupportedOperator ''bool cast'' ''range value'')"

definition parseInterval :: "string \<Rightarrow> value_error + interval_value" where
  "parseInterval v =
     (case v of [] \<Rightarrow> Inl EmptyInterval
      | c # _ \<Rightarrow>
          (case ParseInterval v of Inl e \<Rightarrow> Inl (IntervalSyntax e)
           | Inr interval \<Rightarrow>
               Inr (if c = CHR ''-'' \<and> Months interval > 0
                    then interval\<lparr>Months := i32 (Months interval * (- 1))\<rparr> else interval)))"

section \<open>Arithmetic operators\<close>

definition date_Add :: "gotime \<Rightarrow> val \<Rightarrow> value_error + val" where
  "date_Add d v = (case v of
       IntervalValue iv \<Rightarrow> Inr (DatetimeValue (addInterval d iv 1))
     | IntValue i \<Rightarrow> Inr (DateValue (AddDate d 0 0 i))
     | _ \<Rightarrow> Inl (UnsupportedOperator ''add operator for date'' (type_name v)))"

definition datetime_Add :: "gotime \<Rightarrow> val \<Rightarrow> value_error + val" where
  "datetime_Add d v = (case v of
       IntervalValue iv \<Rightarrow> Inr (DatetimeValue (addInterval d iv 1))
     | _ \<Rightarrow> Inl (UnsupportedOperator ''add operator for datetime'' (type_name v)))"

definition timestamp_Add :: "gotime \<Rightarrow> val \<Rightarrow> value_error + val" where
  "timestamp_Add t v = (case v of
       IntervalValue iv \<Rightarrow> Inr (TimestampValue (addInterval t iv 1))
     | _ \<Rightarrow> Inl (UnsupportedOperator ''add operator for timestamp'' (type_name v)))"

definition interval_Add :: "interval_value \<Rightarrow> val \<Rightarrow> value_error + val" where
  "interval_Add iv v = (case v of
       IntervalValue other \<Rightarrow>
         (let (m1, d1, n1) = IntervalParts iv; (m2, d2, n2) = IntervalParts other
          in map_sum id IntervalValue (intervalFromParts (i64 (m1 + m2)) (i64 (d1 + d2)) (n1 + n2)))
     | DateValue t \<Rightarrow> date_Add t (IntervalValue iv)
     | DatetimeValue t \<Rightarrow> datetime_Add t (IntervalValue iv)
     | TimestampValue t \<Rightarrow> timestamp_Add t (IntervalValue iv)
     | _ \<Rightarrow> Inl (UnsupportedOperator ''add operator for interval value'' (type_name v)))"

definition date_Sub :: "gotime \<Rightarrow> val \<Rightarrow> value_error + val" where
  "date_Sub d v = (case v of
       IntervalValue iv \<Rightarrow> Inr (DatetimeValue (addInterval d iv (- 1)))
     | IntValue i \<Rightarrow> Inr (DateValue (AddDate d 0 0 (i64 (- i))))
     | _ \<Rightarrow> bind_res (ToTime v) (\<lambda>dst.
         let days = TimeSub d dst sdiv day_ns
         in Inr (IntervalValue (zero_interval\<lparr>Days := i32 days\<rparr>))))"

definition datetime_Sub :: "gotime \<Rightarrow> val \<Rightarrow> value_error + val" where
  "datetime_Sub d v = (case v of
       IntervalValue iv \<Rightarrow> Inr (DatetimeValue (addInterval d iv (- 1)))
     | _ \<Rightarrow> bind_res (ToTime v) (\<lambda>dst.
         Inr (IntervalValue (IntervalValueFromDuration (TimeSub d dst)))))"

definition timestamp_Sub :: "gotime \<Rightarrow> val \<Rightarrow> value_error + val" where
  "timestamp_Sub t v = (case v of
       IntervalValue iv \<Rightarrow> Inr (TimestampValue (addInterval t iv (- 1)))
     | _ \<Rightarrow> bind_res (ToTime v) (\<lambda>dst.
         Inr (IntervalValue (IntervalValueFromDuration (TimeSub t dst)))))"

definition interval_Sub :: "interval_value \<Rightarrow> val \<Rightarrow> value_error + val" where
  "interval_Sub iv v = (case v of
       IntervalValue other \<Rightarrow>
         (let (m1, d1, n1) = IntervalParts iv; (m2, d2, n2) = IntervalParts other
          in map_sum id IntervalValue (intervalFromParts (i64 (m1 - m2)) (i64 (d1 - d2)) (n1 - n2)))
     | _ \<Rightarrow> Inl (UnsupportedOperator ''sub operator for interval value'' (type_name v)))"

definition interval_Mul :: "interval_value \<Rightarrow> val \<Rightarrow> value_error + val" where
  "interval_Mul iv v = (case v of
       IntValue k \<Rightarrow>
         (let (months, days, nanos) = IntervalParts iv
          in map_sum id IntervalValue (NewIntervalFromParts (months * k) (days * k) (nanos * k)))
     | _ \<Rightarrow> Inl (UnsupportedOperator ''mul operator for interval value'' (type_name v)))"

definition interval_Div :: "interval_value \<Rightarrow> val \<Rightarrow> value_error + val" where
  "interval_Div iv v = (case v of
       IntValue n \<Rightarrow>
         (let (months, days, nanos) = IntervalParts iv
          in map_sum id IntervalValue (DivideIntervalParts months days nanos n))
     | _ \<Rightarrow> Inl (UnsupportedOperator ''div operator for interval value'' (type_name v)))"

text \<open>The method dispatch of the interface for the four arithmetic operators.\<close>

fun Add :: "val \<Rightarrow> val \<Rightarrow> value_error + val" where
  "Add (IntValue i) v = bind_res (ToInt64 v) (\<lambda>v2. Inr (IntValue (i64 (i + v2))))"
| "Add (BoolValue b) v = Inl (UnsupportedOperator ''add'' ''bool'')"
| "Add (DateValue d) v = date_Add d v"
| "Add (DatetimeValue d) v = datetime_Add d v"
| "Add (TimeValue d) v = Inl (UnsupportedOperator ''add'' ''time'')"
| "Add (TimestampValue t) v = timestamp_Add t v"
| "Add (IntervalValue iv) v = interval_Add iv v"
| "Add (RangeValue _ _ _) v = Inl (UnsupportedOperator ''add'' ''range value'')"

fun Sub :: "val \<Rightarrow> val \<Rightarrow> value_error + val" where
  "Sub (IntValue i) v = bind_res (ToInt64 v) (\<lambda>v2. Inr (IntValue (i64 (i - v2))))"
| "Sub (BoolValue b) v = Inl (UnsupportedOperator ''sub'' ''bool'')"
| "Sub (DateValue d) v = date_Sub d v"
| "Sub (DatetimeValue d) v = datetime_Sub d v"
| "Sub (TimeValue d) v = Inl (UnsupportedOperator ''sub'' ''time'')"
| "Sub (TimestampValue t) v = timestamp_Sub t v"
| "Sub (IntervalValue iv) v = interval_Sub iv v"
| "Sub (RangeValue _ _ _) v = Inl (UnsupportedOperator ''sub'' ''range value'')"

fun Mul :: "val \<Rightarrow> val \<Rightarrow> value_error + val" where
  "Mul (IntValue i) v = (case v of
       IntervalValue x \<Rightarrow> interval_Mul x (IntValue i)
     | _ \<Rightarrow> bind_res (ToInt64 v) (\<lambda>v2. Inr (IntValue (i64 (i * v2)))))"
| "Mul (BoolValue b) v = Inl (UnsupportedOperator ''mul'' ''bool'')"
| "Mul (DateValue d) v = Inl (UnsupportedOperator ''mul'' ''date'')"
| "Mul (DatetimeValue d) v = Inl (UnsupportedOperator ''mul'' ''datetime'')"
| "Mul (TimeValue d) v = Inl (UnsupportedOperator ''mul'' ''time'')"
| "Mul (TimestampValue t) v = Inl (UnsupportedOperator ''mul'' ''timestamp'')"
| "Mul (IntervalValue iv) v = interval_Mul iv v"
| "Mul (RangeValue _ _ _) v = Inl (UnsupportedOperator ''mul'' ''range value'')"

fun Div :: "val \<Rightarrow> val \<Rightarrow> value_error + val" where
  "Div (IntValue i) v = bind_res (ToInt64 v) (\<lambda>v2.
     if v2 = 0 then Inl (ZeroDivided i) else Inr (IntValue (i64 (i sdiv v2))))"
| "Div (BoolValue b) v = Inl (UnsupportedOperator ''div'' ''bool'')"
| "Div (DateValue d) v = Inl (UnsupportedOperator ''div'' ''date'')"
| "Div (DatetimeValue d) v = Inl (UnsupportedOperator ''div'' ''datetime'')"
| "Div (TimeValue d) v = Inl (UnsupportedOperator ''div'' ''time'')"
| "Div (TimestampValue t) v = Inl (UnsupportedOperator ''div'' ''timestamp'')"
| "Div (IntervalValue iv) v = interval_Div iv v"
| "Div (RangeValue _ _ _) v = Inl (UnsupportedOperator ''div'' ''range value'')"

section \<open>Comparison operators\<close>

definition cmp_int :: "int \<Rightarrow> int \<Rightarrow> int" where
  "cmp_int x y = (if x < y then - 1 else if x = y then 0 else 1)"

definition interval_compare :: "interval_value \<Rightarrow> val \<Rightarrow> value_error + int" where
  "interval_compare iv v = (case v of
       IntervalValue other \<Rightarrow> Inr (cmp_int (compareKey iv) (compareKey other))
     | _ \<Rightarrow> Inl (ComparisonType ''INTERVAL'' (type_name v)))"

text \<open>
  The comparison methods of the integer and time kinds convert the other side first; every
  failure of that conversion becomes one error.
\<close>

definition int_cmp :: "(int \<Rightarrow> int \<Rightarrow> bool) \<Rightarrow> int \<Rightarrow> val \<Rightarrow> value_error + bool" where
  "int_cmp f i v = (case ToInt64 v of Inl _ \<Rightarrow> Inl (ConvertError ''int64'') | Inr v2 \<Rightarrow> Inr (f i v2))"

definition time_cmp :: "(gotime \<Rightarrow> gotime \<Rightarrow> bool) \<Rightarrow> gotime \<Rightarrow> val \<Rightarrow> value_error + bool" where
  "time_cmp f t v = (case ToTime v of Inl _ \<Rightarrow> Inl (ConvertError ''time.Time'') | Inr v2 \<Rightarrow> Inr (f t v2))"

definition interval_cmp :: "(int \<Rightarrow> int \<Rightarrow> bool) \<Rightarrow> interval_value \<Rightarrow> val \<Rightarrow> value_error + bool" where
  "interval_cmp f iv v = bind_res (interval_compare iv v) (\<lambda>c. Inr (f c 0))"

definition compareBound ::
    "(val \<Rightarrow> val \<Rightarrow> value_error + bool) \<Rightarrow> (val \<Rightarrow> val \<Rightarrow> value_error + bool) \<Rightarrow>
     val option \<Rightarrow> val option \<Rightarrow> int \<Rightarrow> value_error + int" where
  "compareBound lt gt a b unboundedSign = (case (a, b) of
       (None, None) \<Rightarrow> Inr 0
     | (None, Some _) \<Rightarrow> Inr unboundedSign
     | (Some _, None) \<Rightarrow> Inr (- unboundedSign)
     | (Some x, Some y) \<Rightarrow>
         (case lt x y of Inl e \<Rightarrow> Inl e | Inr l \<Rightarrow>
            if l then Inr (- 1)
            else case gt x y of Inl e \<Rightarrow> Inl e | Inr g \<Rightarrow> Inr (if g then 1 else 0)))"

definition range_compare ::
    "(val \<Rightarrow> val \<Rightarrow> value_error + bool) \<Rightarrow> (val \<Rightarrow> val \<Rightarrow> value_error + bool) \<Rightarrow>
     val option \<Rightarrow> val option \<Rightarrow> val \<Rightarrow> value_error + int" where
  "range_compare lt gt s e other = (case other of
       RangeValue s' e' _ \<Rightarrow>
         (case compareBound lt gt s s' (- 1) of Inl err \<Rightarrow> Inl err
          | Inr c \<Rightarrow> if c \<noteq> 0 then Inr c else compareBound lt gt e e' 1)
     | _ \<Rightarrow> Inl (ComparisonType ''RANGE'' (type_name other)))"

lemma compareBound_cong:
  assumes "\<And>x y. a = Some x \<Longrightarrow> lt x y = lt' x y" "\<And>x y. a = Some x \<Longrightarrow> gt x y = gt' x y"
  shows "compareBound lt gt a b u = compareBound lt' gt' a b u"
  using assms by (cases a; cases b) (auto simp: compareBound_def split: sum.splits)

lemma range_compare_cong [fundef_cong]:
  assumes "s = s'" "e = e'" "v = v'"
    "\<And>x y. s' = Some x \<or> e' = Some x \<Longrightarrow> lt x y = lt' x y"
    "\<And>x y. s' = Some x \<or> e' = Some x \<Longrightarrow> gt x y = gt' x y"
  shows "range_compare lt gt s e v = range_compare lt' gt' s' e' v'"
  using assms compareBound_cong [of s' lt lt' gt gt'] compareBound_cong [of e' lt lt' gt gt']
  by (simp add: range_compare_def split: val.splits sum.splits)

fun LT :: "val \<Rightarrow> val \<Rightarrow> value_error + bool" and GT :: "val \<Rightarrow> val \<Rightarrow> value_error + bool" where
  "LT (IntValue i) v = int_cmp (<) i v"
| "LT (BoolValue b) v = Inl (UnsupportedOperator ''lt'' ''bool'')"
| "LT (DateValue t) v = time_cmp (<) t v"
| "LT (DatetimeValue t) v = time_cmp (<) t v"
| "LT (TimeValue t) v = time_cmp (<) t v"
| "LT (TimestampValue t) v = time_cmp (<) t v"
| "LT (IntervalValue iv) v = interval_cmp (<) iv v"
| "LT (RangeValue s e _) v = map_sum id (\<lambda>c. c < 0) (range_compare LT GT s e v)"
| "GT (IntValue i) v = int_cmp (>) i v"
| "GT (BoolValue b) v = Inl (UnsupportedOperator ''gt'' ''bool'')"
| "GT (DateValue t) v = time_cmp (>) t v"
| "GT (DatetimeValue t) v = time_cmp (>) t v"
| "GT (TimeValue t) v = time_cmp (>) t v"
| "GT (TimestampValue t) v = time_cmp (>) t v"
| "GT (IntervalValue iv) v = interval_cmp (>) iv v"
| "GT (RangeValue s e _) v = map_sum id (\<lambda>c. c > 0) (range_compare LT GT s e v)"

fun LTE :: "val \<Rightarrow> val \<Rightarrow> value_error + bool" where
  "LTE (IntValue i) v = int_cmp (\<le>) i v"
| "LTE (BoolValue b) v = Inl (UnsupportedOperator ''lte'' ''bool'')"
| "LTE (DateValue t) v = time_cmp (\<lambda>a b. a = b \<or> a < b) t v"
| "LTE (DatetimeValue t) v = time_cmp (\<lambda>a b. a = b \<or> a < b) t v"
| "LTE (TimeValue t) v = time_cmp (\<lambda>a b. a = b \<or> a < b) t v"
| "LTE (TimestampValue t) v = time_cmp (\<lambda>a b. a = b \<or> a < b) t v"
| "LTE (IntervalValue iv) v = interval_cmp (\<le>) iv v"
| "LTE (RangeValue s e _) v = map_sum id (\<lambda>c. c \<le> 0) (range_compare LT GT s e v)"

fun GTE :: "val \<Rightarrow> val \<Rightarrow> value_error + bool" where
  "GTE (IntValue i) v = int_cmp (\<ge>) i v"
| "GTE (BoolValue b) v = Inl (UnsupportedOperator ''gte'' ''bool'')"
| "GTE (DateValue t) v = time_cmp (\<lambda>a b. a = b \<or> a > b) t v"
| "GTE (DatetimeValue t) v = time_cmp (\<lambda>a b. a = b \<or> a > b) t v"
| "GTE (TimeValue t) v = time_cmp (\<lambda>a b. a = b \<or> a > b) t v"
| "GTE (TimestampValue t) v = time_cmp (\<lambda>a b. a = b \<or> a > b) t v"
| "GTE (IntervalValue iv) v = interval_cmp (\<ge>) iv v"
| "GTE (RangeValue s e _) v = map_sum id (\<lambda>c. c \<ge> 0) (range_compare LT GT s e v)"

text \<open>Equality of one bound of a RANGE, after the check that both or neither is unbounded.\<close>

definition bound_EQ :: "(val \<Rightarrow> val \<Rightarrow> value_error + bool) \<Rightarrow> val option \<Rightarrow> val option \<Rightarrow> value_error + bool" where
  "bound_EQ eq a b = (case (a, b) of (Some x, Some y) \<Rightarrow> eq x y | _ \<Rightarrow> Inr True)"

lemma bound_EQ_cong [fundef_cong]:
  assumes "a = a'" "b = b'" "\<And>x y. a' = Some x \<Longrightarrow> b' = Some y \<Longrightarrow> eq x y = eq' x y"
  shows "bound_EQ eq a b = bound_EQ eq' a' b'"
  using assms by (auto simp: bound_EQ_def split: option.splits)

fun EQ :: "val \<Rightarrow> val \<Rightarrow> value_error + bool" where
  "EQ (IntValue i) v = int_cmp (=) i v"
| "EQ (BoolValue b) v = (case ToBool v of Inl _ \<Rightarrow> Inl (ConvertError ''bool'') | Inr v2 \<Rightarrow> Inr (b = v2))"
| "EQ (DateValue t) v = time_cmp (=) t v"
| "EQ (DatetimeValue t) v = time_cmp (=) t v"
| "EQ (TimeValue t) v = time_cmp (=) t v"
| "EQ (TimestampValue t) v = time_cmp (=) t v"
| "EQ (IntervalValue iv) v = interval_cmp (=) iv v"
| "EQ (RangeValue s e _) v = (case v of
      RangeValue s' e' _ \<Rightarrow>
        if (s = None) \<noteq> (s' = None) then Inr False
        else if (e = None) \<noteq> (e' = None) then Inr False
        else (case bound_EQ EQ s s' of Inl err \<Rightarrow> Inl err
              | Inr eq \<Rightarrow> if \<not> eq then Inr False else bound_EQ EQ e e')
    | _ \<Rightarrow> Inl (ComparisonType ''RANGE EQ'' (type_name v)))"

end
