(* ===== verification/Interval_Ops.thy ===== *)
theory Interval_Ops
  imports Values
begin

text \<open>
  The INTERVAL functions (\<open>internal/functions/interval\<close>) and the laws of interval arithmetic
  (\<open>internal/value/value_interval.go\<close>). An interval denotes a triple of months, days and
  nanoseconds; \<open>NewIntervalFromParts\<close> is the inverse of \<open>IntervalParts\<close> on the range
  the SQL type allows, and every operator is an operation on triples followed by it.
\<close>

section \<open>The interval functions\<close>

datatype interval_fn_error = UnexpectedIntervalPart string | ValueError value_error
  | UnexpectedArgumentType string string

definition INTERVAL :: "int \<Rightarrow> string \<Rightarrow> interval_fn_error + interval_value" where
  "INTERVAL v part =
     (case (if part = ''YEAR'' then Some (12, 0, 0)
       else if part = ''QUARTER'' then Some (3, 0, 0)
       else if part = ''MONTH'' then Some (1, 0, 0)
       else if part = ''WEEK'' then Some (0, 7, 0)
       else if part = ''DAY'' then Some (0, 1, 0)
       else if part = ''HOUR'' then Some (0, 0, 3600 * 1000000000)
       else if part = ''MINUTE'' then Some (0, 0, 60 * 1000000000)
       else if part = ''SECOND'' then Some (0, 0, 1000000000)
       else if part = ''MILLISECOND'' then Some (0, 0, 1000000)
       else if part = ''MICROSECOND'' then Some (0, 0, 1000)
       else if part = ''NANOSECOND'' then Some (0, 0, 1)
       else None) of
       None \<Rightarrow> Inl (UnexpectedIntervalPart part)
     | Some (months, days, nanos) \<Rightarrow>
         map_sum ValueError id (NewIntervalFromParts (v * months) (v * days) (v * nanos)))"

definition MAKE_INTERVAL :: "int \<Rightarrow> int \<Rightarrow> int \<Rightarrow> int \<Rightarrow> int \<Rightarrow> int \<Rightarrow> value_error + interval_value" where
  "MAKE_INTERVAL year month day hour minute second =
     (let months = year * 12 + month;
          secs = hour * 3600 + minute * 60 + second
      in NewIntervalFromParts months day (secs * 1000000000))"

text \<open>Missing arguments are zero; a NULL before the first failing conversion gives NULL.\<close>

fun make_interval_fields :: "val option list \<Rightarrow> nat \<Rightarrow> value_error + int list option" where
  "make_interval_fields args 0 = Inr (Some [])"
| "make_interval_fields [] (Suc n) = Inr (Some (replicate (Suc n) 0))"
| "make_interval_fields (None # args) (Suc n) = Inr None"
| "make_interval_fields (Some a # args) (Suc n) =
     bind_res (ToInt64 a) (\<lambda>v. map_sum id (map_option (\<lambda>vs. v # vs)) (make_interval_fields args n))"

definition BindMakeInterval :: "val option list \<Rightarrow> value_error + val option" where
  "BindMakeInterval args =
     bind_res (make_interval_fields args 6) (\<lambda>r. case r of
         None \<Rightarrow> Inr None
       | Some fs \<Rightarrow> map_sum id (Some \<circ> IntervalValue)
           (MAKE_INTERVAL (fs ! 0) (fs ! 1) (fs ! 2) (fs ! 3) (fs ! 4) (fs ! 5)))"

definition justifyHours :: "int \<Rightarrow> int \<Rightarrow> int \<times> int" where
  "justifyHours days0 nanos =
     (let q = nanos sdiv nanosPerDay; r = nanos smod nanosPerDay;
          days = i64 (days0 + i64 q)
      in if days > 0 \<and> r < 0 then (days - 1, r + nanosPerDay)
         else if days < 0 \<and> r > 0 then (days + 1, r - nanosPerDay)
         else (days, r))"

definition justifyDays :: "int \<Rightarrow> int \<Rightarrow> int \<times> int" where
  "justifyDays months0 days0 =
     (let months = i64 (months0 + days0 sdiv 30); days = days0 smod 30
      in if months > 0 \<and> days < 0 then (months - 1, days + 30)
         else if months < 0 \<and> days > 0 then (months + 1, days - 30)
         else (months, days))"

definition JUSTIFY_DAYS :: "interval_value \<Rightarrow> value_error + interval_value" where
  "JUSTIFY_DAYS v =
     (let (months, days, nanos) = IntervalParts v;
          (months', days') = justifyDays months days
      in NewIntervalFromParts months' days' nanos)"

definition JUSTIFY_HOURS :: "interval_value \<Rightarrow> value_error + interval_value" where
  "JUSTIFY_HOURS v =
     (let (months, days, nanos) = IntervalParts v;
          (days', nanos') = justifyHours days nanos
      in NewIntervalFromParts months days' nanos')"

definition JUSTIFY_INTERVAL :: "interval_value \<Rightarrow> value_error + interval_value" where
  "JUSTIFY_INTERVAL v =
     (let (months, days, nanos) = IntervalParts v;
          q = nanos sdiv nanosPerDay; r = nanos smod nanosPerDay;
          (months1, days1) = justifyDays months (i64 (days + i64 q));
          (days2, nanos2) = justifyHours days1 r;
          (months3, days3) = justifyDays months1 days2
      in NewIntervalFromParts months3 days3 nanos2)"

text \<open>The three bindings: NULL in, NULL out, and only INTERVAL arguments.\<close>

definition bind_justify ::
    "string \<Rightarrow> (interval_value \<Rightarrow> value_error + interval_value) \<Rightarrow> val option \<Rightarrow> interval_fn_error + val option" where
  "bind_justify name f arg = (case arg of
       None \<Rightarrow> Inr None
     | Some (IntervalValue iv) \<Rightarrow> map_sum ValueError (Some \<circ> IntervalValue) (f iv)
     | Some v \<Rightarrow> Inl (UnexpectedArgumentType name (type_name v)))"

definition BindJustifyDays :: "val option \<Rightarrow> interval_fn_error + val option" where
  "BindJustifyDays = bind_justify ''JUSTIFY_DAYS'' JUSTIFY_DAYS"
definition BindJustifyHours :: "val option \<Rightarrow> interval_fn_error + val option" where
  "BindJustifyHours = bind_justify ''JUSTIFY_HOURS'' JUSTIFY_HOURS"
definition BindJustifyInterval :: "val option \<Rightarrow> interval_fn_error + val option" where
  "BindJustifyInterval = bind_justify ''JUSTIFY_INTERVAL'' JUSTIFY_INTERVAL"

section \<open>Parts\<close>

lemmas interval_units = nanosPerSecond_def nanosPerHour_def nanosPerDay_def maxIntervalMonths_def
  maxIntervalDays_def maxIntervalHours_def maxIntervalNanos_def

lemma abs_sdiv_bound: "0 < b \<Longrightarrow> \<bar>a\<bar> \<le> k * b \<Longrightarrow> \<bar>a sdiv b\<bar> \<le> k" for a b k :: int
proof -
  assume b: "0 < b" and k: "\<bar>a\<bar> \<le> k * b"
  have "x \<le> k * b \<Longrightarrow> x div b \<le> k" for x using b zdiv_mono1 [of x "k * b" b] by simp
  moreover have "0 \<le> x \<Longrightarrow> 0 \<le> x div b" for x using b by (simp add: pos_imp_zdiv_nonneg_iff)
  ultimately show ?thesis using b k by (cases "0 \<le> a") (auto simp: go_arith)
qed

definition parts_in_range :: "int \<Rightarrow> int \<Rightarrow> int \<Rightarrow> bool" where
  "parts_in_range m d n \<longleftrightarrow> \<bar>m\<bar> \<le> 120000 \<and> \<bar>d\<bar> \<le> 3660000 \<and> \<bar>n\<bar> \<le> 316224000000000000000"

definition of_parts :: "int \<Rightarrow> int \<Rightarrow> int \<Rightarrow> interval_value" where
  "of_parts m d t = \<lparr>Years = m sdiv 12, Months = m smod 12, Days = d,
     Hours = t sdiv 3600000000000, Minutes = (t sdiv 60000000000) smod 60,
     Seconds = (t sdiv 1000000000) smod 60, SubSecondNanos = t smod 1000000000\<rparr>"

lemma of_parts_canonical: "strictly_canonical (of_parts m d t)"
  unfolding of_parts_def by (rule strictly_canonical_of_parts)

lemma of_parts_reading [simp]:
  "total_months (of_parts m d t) = m" "Days (of_parts m d t) = d" "time_nanos (of_parts m d t) = t"
  using total_months_split [of m] nanos_split [of t]
  by (simp_all add: of_parts_def total_months_def time_nanos_def time_secs_def)

lemma of_parts_of_reading:
  "strictly_canonical iv \<Longrightarrow> of_parts (total_months iv) (Days iv) (time_nanos iv) = iv"
  by (rule strictly_canonical_unique) (simp_all add: of_parts_canonical)

lemma IntervalParts_reading:
  assumes "iv_int32 iv"
  shows "IntervalParts iv = (total_months iv, Days iv, time_nanos iv)"
proof -
  have "int64 (Years iv * 12 + Months iv)"
    using assms by (simp add: iv_int32_def int32_def int64_def)
  then show ?thesis
    using Canonicalize_secs_int64(1) [OF assms]
    by (simp add: IntervalParts_def intervalTimeNanos_def total_months_def time_nanos_def
        time_secs_def nanosPerSecond_def)
qed

lemma hour_remainder:
  fixes n :: int
  defines "r \<equiv> n smod 3600000000000"
  shows "r sdiv 60000000000 = (n sdiv 60000000000) smod 60"
    "(r sdiv 1000000000) smod 60 = (n sdiv 1000000000) smod 60"
    "r smod 1000000000 = n smod 1000000000"
proof -
  show "r sdiv 60000000000 = (n sdiv 60000000000) smod 60"
    using smod_smod_sdiv(1) [of 60000000000 60 n] by (simp add: r_def)
  have "r sdiv 1000000000 = (n sdiv 1000000000) smod (60 * 60)"
    using smod_smod_sdiv(1) [of 1000000000 3600 n] by (simp add: r_def)
  then show "(r sdiv 1000000000) smod 60 = (n sdiv 1000000000) smod 60"
    using smod_smod_sdiv(2) [of 60 60 "n sdiv 1000000000"] by simp
  show "r smod 1000000000 = n smod 1000000000"
    using smod_smod_sdiv(2) [of 1000000000 3600 n] by (simp add: r_def)
qed

lemma of_parts_int32:
  assumes "parts_in_range m d n"
  shows "iv_int32 (of_parts m d n)"
proof -
  have "int32 (x smod 60)" "int32 (x smod 1000000000)" "int32 (x smod 12)" for x
    using abs_smod_pos [of 60 x] abs_smod_pos [of 1000000000 x] abs_smod_pos [of 12 x]
    by (auto simp: int32_def)
  moreover have "int32 (m sdiv 12)" "int32 d" "int32 (n sdiv 3600000000000)"
    using assms abs_sdiv_bound [of 12 m 10000] abs_sdiv_bound [of 3600000000000 n 87840000]
    by (auto simp: int32_def parts_in_range_def)
  ultimately show ?thesis by (simp add: iv_int32_def of_parts_def)
qed

lemma NewIntervalFromParts_Inr:
  assumes "parts_in_range m d n"
  shows "NewIntervalFromParts m d n = Inr (of_parts m d n)"
proof -
  have "\<not> \<bar>m\<bar> > \<bar>maxIntervalMonths\<bar>" "\<not> \<bar>d\<bar> > \<bar>maxIntervalDays\<bar>" "\<not> \<bar>n\<bar> > \<bar>maxIntervalNanos\<bar>"
    using assms by (simp_all add: parts_in_range_def interval_units)
  moreover have "int64 m" "int64 d" "int64 (n smod 3600000000000)"
    using assms abs_smod_pos [of 3600000000000 n] by (auto simp: parts_in_range_def int64_def)
  moreover note of_parts_int32 [OF assms]
  ultimately show ?thesis
    by (simp add: NewIntervalFromParts_def checkIntervalField_def Let_def nanosPerHour_def
        of_parts_def hour_remainder iv_int32_def int32_int64)
qed

lemma NewIntervalFromParts_error:
  "\<not> parts_in_range m d n \<Longrightarrow> NewIntervalFromParts m d n = Inl
     (if \<bar>m\<bar> > 120000 then IntervalFieldRange ''months'' m 120000
      else if \<bar>d\<bar> > 3660000 then IntervalFieldRange ''days'' d 3660000
      else IntervalFieldRange ''nanoseconds'' n 316224000000000000000)"
  by (auto simp: parts_in_range_def NewIntervalFromParts_def checkIntervalField_def interval_units)

lemma NewIntervalFromParts_cases:
  "NewIntervalFromParts m d n = Inr iv \<longleftrightarrow> parts_in_range m d n \<and> iv = of_parts m d n"
  using NewIntervalFromParts_Inr [of m d n] NewIntervalFromParts_error [of m d n]
  by (cases "parts_in_range m d n") auto

section \<open>The interface of a triple representation\<close>

text \<open>
  What the operators rely on: a triple in range can be built and read back, any other is
  refused, and nothing else can be read from a built value.
\<close>

locale triple_repr =
  fixes parts :: "'i \<Rightarrow> int \<times> int \<times> int"
    and build :: "int \<Rightarrow> int \<Rightarrow> int \<Rightarrow> 'e + 'i"
    and in_range :: "int \<Rightarrow> int \<Rightarrow> int \<Rightarrow> bool"
  assumes build_in_range: "in_range m d n \<Longrightarrow> \<exists>iv. build m d n = Inr iv \<and> parts iv = (m, d, n)"
    and build_out_of_range: "\<not> in_range m d n \<Longrightarrow> \<exists>e. build m d n = Inl e"
begin

lemma build_parts: "build m d n = Inr iv \<Longrightarrow> in_range m d n \<and> parts iv = (m, d, n)"
  using build_in_range [of m d n] build_out_of_range [of m d n] by (cases "in_range m d n") auto

lemma build_defined: "(\<exists>iv. build m d n = Inr iv) \<longleftrightarrow> in_range m d n"
  using build_in_range [of m d n] build_parts by blast

text \<open>Part-wise addition and subtraction undo each other on triples that can be built.\<close>

lemma add_sub_cancel:
  assumes "parts a = (m1, d1, n1)" "parts b = (m2, d2, n2)"
    "build (m1 + m2) (d1 + d2) (n1 + n2) = Inr c" "parts c = (m, d, n)"
  shows "build (m - m2) (d - d2) (n - n2) = build m1 d1 n1"
  using build_parts [OF assms(3)] assms by simp

lemma key_add:
  assumes "parts a = (m1, d1, n1)" "parts b = (m2, d2, n2)"
    "build (m1 + m2) (d1 + d2) (n1 + n2) = Inr c" "parts c = (m, d, n)"
  shows "(m * x + d) * y + n = ((m1 * x + d1) * y + n1) + ((m2 * x + d2) * y + n2)"
  using build_parts [OF assms(3)] assms by (simp add: algebra_simps)

end

interpretation iv_parts: triple_repr IntervalParts NewIntervalFromParts parts_in_range
proof unfold_locales
  fix m d n
  assume "parts_in_range m d n"
  then show "\<exists>iv. NewIntervalFromParts m d n = Inr iv \<and> IntervalParts iv = (m, d, n)"
    by (simp add: NewIntervalFromParts_Inr IntervalParts_reading of_parts_int32)
next
  fix m d n
  assume "\<not> parts_in_range m d n"
  then show "\<exists>e. NewIntervalFromParts m d n = Inl e" by (simp add: NewIntervalFromParts_error)
qed

section \<open>Carrying between units\<close>

text \<open>
  Both justification steps carry whole units of a lower part into the higher one and then
  borrow one unit when the signs differ.
\<close>

lemma carry_spec:
  fixes b hi lo :: int
  assumes "0 < b" and h: "h = hi + lo sdiv b" and l: "l = lo smod b"
    and r: "(h', l') = (if h > 0 \<and> l < 0 then (h - 1, l + b)
                        else if h < 0 \<and> l > 0 then (h + 1, l - b) else (h, l))"
  shows "h' * b + l' = hi * b + lo" "\<bar>l'\<bar> < b" "0 \<le> h' \<and> 0 \<le> l' \<or> h' \<le> 0 \<and> l' \<le> 0"
proof -
  have lo: "lo = b * (lo sdiv b) + l" "\<bar>l\<bar> < b"
    using sdiv_smod_pos [of b lo] abs_smod_pos [of b lo] assms(1) l by simp_all
  have "h * b + l = hi * b + lo" using lo(1) by (simp add: h algebra_simps)
  moreover have "h' * b + l' = h * b + l"
    using r by (auto simp: left_diff_distrib distrib_right split: if_splits)
  ultimately show "h' * b + l' = hi * b + lo" by simp
  show "\<bar>l'\<bar> < b" using r lo(2) by (auto split: if_splits)
  show "0 \<le> h' \<and> 0 \<le> l' \<or> h' \<le> 0 \<and> l' \<le> 0" using r lo(2) by (auto split: if_splits)
qed

lemma justifyDays_spec:
  assumes "\<bar>m\<bar> \<le> 1000000000000" "\<bar>d\<bar> \<le> 1000000000000" "justifyDays m d = (m', d')"
  shows "m' * 30 + d' = m * 30 + d" "\<bar>d'\<bar> < 30" "0 \<le> m' \<and> 0 \<le> d' \<or> m' \<le> 0 \<and> d' \<le> 0"
proof -
  have "int64 (m + d sdiv 30)"
    using assms(1,2) abs_sdiv_le [of 30 d] by (auto simp: int64_def)
  then have "(m', d') = (if m + d sdiv 30 > 0 \<and> d smod 30 < 0 then (m + d sdiv 30 - 1, d smod 30 + 30)
      else if m + d sdiv 30 < 0 \<and> d smod 30 > 0 then (m + d sdiv 30 + 1, d smod 30 - 30)
      else (m + d sdiv 30, d smod 30))"
    using assms(3) by (simp add: justifyDays_def Let_def)
  from carry_spec [OF _ refl refl this]
  show "m' * 30 + d' = m * 30 + d" "\<bar>d'\<bar> < 30" "0 \<le> m' \<and> 0 \<le> d' \<or> m' \<le> 0 \<and> d' \<le> 0" by simp_all
qed

lemma justifyHours_spec:
  assumes "\<bar>d\<bar> \<le> 1000000000000" "\<bar>n\<bar> \<le> 1000000000000 * nanosPerDay" "justifyHours d n = (d', n')"
  shows "d' * nanosPerDay + n' = d * nanosPerDay + n" "\<bar>n'\<bar> < nanosPerDay"
    "0 \<le> d' \<and> 0 \<le> n' \<or> d' \<le> 0 \<and> n' \<le> 0"
proof -
  let ?q = "n sdiv nanosPerDay" and ?r = "n smod nanosPerDay"
  have pos: "0 < nanosPerDay" by (simp add: nanosPerDay_def)
  have "\<bar>?q\<bar> \<le> 1000000000000" using abs_sdiv_bound [OF pos assms(2)] .
  then have "int64 ?q" "int64 (d + ?q)" using assms(1) by (auto simp: int64_def)
  then have e: "i64 (d + i64 ?q) = d + ?q" by simp
  have "(d', n') = (if d + ?q > 0 \<and> ?r < 0 then (d + ?q - 1, ?r + nanosPerDay)
      else if d + ?q < 0 \<and> ?r > 0 then (d + ?q + 1, ?r - nanosPerDay) else (d + ?q, ?r))"
    using assms(3) unfolding justifyHours_def Let_def e by (rule sym)
  from carry_spec [OF pos refl refl this]
  show "d' * nanosPerDay + n' = d * nanosPerDay + n" "\<bar>n'\<bar> < nanosPerDay"
    "0 \<le> d' \<and> 0 \<le> n' \<or> d' \<le> 0 \<and> n' \<le> 0" by simp_all
qed

lemma reading_bounds:
  assumes "iv_int32 iv"
  shows "\<bar>total_months iv\<bar> \<le> 100000000000" "\<bar>Days iv\<bar> \<le> 100000000000"
    "\<bar>time_nanos iv\<bar> \<le> 100000000000 * nanosPerDay"
  using assms by (auto simp: iv_int32_def int32_def total_months_def time_nanos_def time_secs_def
      nanosPerDay_def)

lemma compareKey_reading:
  "iv_int32 iv \<Longrightarrow> compareKey iv = (total_months iv * 30 + Days iv) * nanosPerDay + time_nanos iv"
  by (simp add: compareKey_def IntervalParts_reading)

lemma compareKey_of_parts:
  "parts_in_range m d n \<Longrightarrow> compareKey (of_parts m d n) = (m * 30 + d) * nanosPerDay + n"
  by (simp add: compareKey_reading of_parts_int32)

section \<open>Operators on triples\<close>

lemma Add_intervals:
  assumes "iv_int32 a" "iv_int32 b"
  shows "Add (IntervalValue a) (IntervalValue b) = map_sum id IntervalValue
    (NewIntervalFromParts (total_months a + total_months b) (Days a + Days b) (time_nanos a + time_nanos b))"
proof -
  have "int64 (total_months a + total_months b)" "int64 (Days a + Days b)"
    using reading_bounds [OF assms(1)] reading_bounds [OF assms(2)] by (auto simp: int64_def)
  then show ?thesis
    by (simp add: interval_Add_def IntervalParts_reading assms intervalFromParts_def)
qed

lemma Sub_intervals:
  assumes "iv_int32 a" "iv_int32 b"
  shows "Sub (IntervalValue a) (IntervalValue b) = map_sum id IntervalValue
    (NewIntervalFromParts (total_months a - total_months b) (Days a - Days b) (time_nanos a - time_nanos b))"
proof -
  have "int64 (total_months a - total_months b)" "int64 (Days a - Days b)"
    using reading_bounds [OF assms(1)] reading_bounds [OF assms(2)] by (auto simp: int64_def)
  then show ?thesis
    by (simp add: interval_Sub_def IntervalParts_reading assms intervalFromParts_def)
qed

declare Add.simps(7) [simp del] and Sub.simps(7) [simp del]

lemma map_sum_IntervalValue_Inr:
  "map_sum id IntervalValue r = Inr c \<longleftrightarrow> (\<exists>iv. r = Inr iv \<and> c = IntervalValue iv)"
  by (cases r) auto

text \<open>
  An interval that \<open>NewIntervalFromParts\<close> can build from months, days and nanoseconds: 32-bit, strictly
  canonical and in range. The ISO 8601 parser fills the fields one by one and builds others too.
\<close>

definition valid_interval :: "interval_value \<Rightarrow> bool" where
  "valid_interval iv \<longleftrightarrow> iv_int32 iv \<and> strictly_canonical iv \<and>
     parts_in_range (total_months iv) (Days iv) (time_nanos iv)"

lemma valid_interval_of_parts: "parts_in_range m d n \<Longrightarrow> valid_interval (of_parts m d n)"
  by (simp add: valid_interval_def of_parts_int32 of_parts_canonical)

lemma valid_interval_build:
  "valid_interval iv \<Longrightarrow> NewIntervalFromParts (total_months iv) (Days iv) (time_nanos iv) = Inr iv"
  by (simp add: valid_interval_def NewIntervalFromParts_Inr of_parts_of_reading)

lemma valid_interval_printable: "valid_interval iv \<Longrightarrow> printable iv"
proof -
  assume v: "valid_interval iv"
  have "\<bar>Years iv\<bar> \<le> 10000" "\<bar>Hours iv\<bar> \<le> 87840000"
    using v abs_sdiv_bound [of 12 "total_months iv" 10000]
      abs_sdiv_bound [of 3600000000000 "time_nanos iv" 87840000]
    by (simp_all add: valid_interval_def strictly_canonical_fields(1,3) parts_in_range_def)
  with v show ?thesis by (auto simp: printable_def valid_interval_def)
qed

section \<open>Properties\<close>

text \<open>
  C27. A months/days/nanoseconds triple becomes an INTERVAL exactly when every part is within
  the limits of the type, and then it is the one 32-bit, strictly canonical interval whose parts
  are that triple: building and reading are inverse.
\<close>

theorem interval_parts_roundtrip:
  "NewIntervalFromParts m d n = Inr iv \<longleftrightarrow>
     \<bar>m\<bar> \<le> 120000 \<and> \<bar>d\<bar> \<le> 3660000 \<and> \<bar>n\<bar> \<le> 87840000 * 3600000000000 \<and>
     iv_int32 iv \<and> strictly_canonical iv \<and> IntervalParts iv = (m, d, n)"
proof
  assume "NewIntervalFromParts m d n = Inr iv"
  then show "\<bar>m\<bar> \<le> 120000 \<and> \<bar>d\<bar> \<le> 3660000 \<and> \<bar>n\<bar> \<le> 87840000 * 3600000000000 \<and>
      iv_int32 iv \<and> strictly_canonical iv \<and> IntervalParts iv = (m, d, n)"
    using iv_parts.build_parts [of m d n iv]
    by (auto simp: NewIntervalFromParts_cases of_parts_int32 of_parts_canonical parts_in_range_def)
next
  assume "\<bar>m\<bar> \<le> 120000 \<and> \<bar>d\<bar> \<le> 3660000 \<and> \<bar>n\<bar> \<le> 87840000 * 3600000000000 \<and>
      iv_int32 iv \<and> strictly_canonical iv \<and> IntervalParts iv = (m, d, n)"
  then show "NewIntervalFromParts m d n = Inr iv"
    using of_parts_of_reading [of iv]
    by (auto simp: NewIntervalFromParts_cases IntervalParts_reading parts_in_range_def)
qed

text \<open>
  An out-of-range triple is refused with the error of its first offending field, in the
  order months, days, nanoseconds, and nothing else is refused.
\<close>

theorem interval_parts_error:
  "NewIntervalFromParts m d n = Inl e \<longleftrightarrow>
     \<bar>m\<bar> > 120000 \<and> e = IntervalFieldRange ''months'' m 120000 \<or>
     \<bar>m\<bar> \<le> 120000 \<and> \<bar>d\<bar> > 3660000 \<and> e = IntervalFieldRange ''days'' d 3660000 \<or>
     \<bar>m\<bar> \<le> 120000 \<and> \<bar>d\<bar> \<le> 3660000 \<and> \<bar>n\<bar> > 316224000000000000000 \<and>
       e = IntervalFieldRange ''nanoseconds'' n 316224000000000000000"
  using NewIntervalFromParts_Inr [of m d n] NewIntervalFromParts_error [of m d n]
  by (cases "parts_in_range m d n") (auto simp: parts_in_range_def)

text \<open>
  Subtracting the interval that was added gives back the original interval, whenever the sum
  exists.
\<close>

theorem interval_sub_undoes_add:
  assumes "valid_interval a" "iv_int32 b" "Add (IntervalValue a) (IntervalValue b) = Inr (IntervalValue c)"
  shows "Sub (IntervalValue c) (IntervalValue b) = Inr (IntervalValue a)"
proof -
  have a: "iv_int32 a" using assms(1) by (simp add: valid_interval_def)
  have c: "NewIntervalFromParts (total_months a + total_months b) (Days a + Days b)
      (time_nanos a + time_nanos b) = Inr c"
    using assms(3) by (simp add: Add_intervals a assms(2) map_sum_IntervalValue_Inr)
  then have ci: "iv_int32 c" by (auto simp: NewIntervalFromParts_cases of_parts_int32)
  have "NewIntervalFromParts (total_months c - total_months b) (Days c - Days b)
      (time_nanos c - time_nanos b) = NewIntervalFromParts (total_months a) (Days a) (time_nanos a)"
    by (rule iv_parts.add_sub_cancel [OF IntervalParts_reading [OF a] IntervalParts_reading [OF assms(2)]
          c IntervalParts_reading [OF ci]])
  then show ?thesis
    by (simp add: Sub_intervals ci assms(2) valid_interval_build assms(1))
qed

theorem interval_sub_undoes_add_witness:
  "Sub (IntervalValue (of_parts 13 5 7)) (IntervalValue (of_parts 1 2 3)) = Inr (IntervalValue (of_parts 12 3 4))"
proof (rule interval_sub_undoes_add)
  show "valid_interval (of_parts 12 3 4)"
    by (rule valid_interval_of_parts) (simp add: parts_in_range_def)
  show "iv_int32 (of_parts 1 2 3)" by (rule of_parts_int32) (simp add: parts_in_range_def)
  show "Add (IntervalValue (of_parts 12 3 4)) (IntervalValue (of_parts 1 2 3)) = Inr (IntervalValue (of_parts 13 5 7))"
    by (simp add: Add_intervals of_parts_int32 parts_in_range_def NewIntervalFromParts_Inr)
qed

text \<open>
  Interval addition is commutative, errors included, and the comparison key of a sum is the
  sum of the keys: adding an interval never changes the order of two others.
\<close>

theorem interval_add_key:
  assumes "iv_int32 a" "iv_int32 b"
  shows "Add (IntervalValue a) (IntervalValue b) = Add (IntervalValue b) (IntervalValue a) \<and>
    (\<forall>c. Add (IntervalValue a) (IntervalValue b) = Inr (IntervalValue c) \<longrightarrow>
       compareKey c = compareKey a + compareKey b)"
proof (intro conjI allI impI)
  show "Add (IntervalValue a) (IntervalValue b) = Add (IntervalValue b) (IntervalValue a)"
    by (simp only: Add_intervals assms add.commute)
next
  fix c
  assume "Add (IntervalValue a) (IntervalValue b) = Inr (IntervalValue c)"
  then have c: "NewIntervalFromParts (total_months a + total_months b) (Days a + Days b)
      (time_nanos a + time_nanos b) = Inr c"
    by (simp add: Add_intervals assms map_sum_IntervalValue_Inr)
  then have ci: "iv_int32 c" by (auto simp: NewIntervalFromParts_cases of_parts_int32)
  show "compareKey c = compareKey a + compareKey b"
    unfolding compareKey_reading [OF assms(1)] compareKey_reading [OF assms(2)] compareKey_reading [OF ci]
    by (rule iv_parts.key_add [OF IntervalParts_reading [OF assms(1)] IntervalParts_reading [OF assms(2)]
          c IntervalParts_reading [OF ci]])
qed

theorem interval_add_key_witness:
  "compareKey (of_parts 13 5 7) = compareKey (of_parts 12 3 4) + compareKey (of_parts 1 2 3)"
proof -
  have i: "iv_int32 (of_parts 12 3 4)" "iv_int32 (of_parts 1 2 3)"
    by (simp_all add: of_parts_int32 parts_in_range_def)
  have "Add (IntervalValue (of_parts 12 3 4)) (IntervalValue (of_parts 1 2 3)) = Inr (IntervalValue (of_parts 13 5 7))"
    by (simp add: Add_intervals i parts_in_range_def NewIntervalFromParts_Inr)
  with interval_add_key [OF i] show ?thesis by blast
qed

text \<open>
  Dividing an interval loses less than a microsecond per unit of the divisor: the key of the
  quotient times the divisor differs from the key of the dividend by less than
  1000 nanoseconds times the divisor, whatever the signs.
\<close>

theorem interval_div_error_bound:
  assumes "DivideIntervalParts m d n k = Inr iv"
  shows "\<bar>k * compareKey iv - ((m * 30 + d) * nanosPerDay + n)\<bar> < 1000 * \<bar>k\<bar>"
proof -
  have k: "k \<noteq> 0" using assms by (auto simp: DivideIntervalParts_def)
  define dd where "dd = d + (m smod k) * 30"
  define nn where "nn = n + (dd smod k) * nanosPerDay"
  define nq where "nq = nn sdiv k"
  have build: "NewIntervalFromParts (m sdiv k) (dd sdiv k) (nq sdiv 1000 * 1000) = Inr iv"
    using assms k by (simp add: DivideIntervalParts_def Let_def dd_def nn_def nq_def)
  then have key: "compareKey iv = ((m sdiv k) * 30 + dd sdiv k) * nanosPerDay + nq sdiv 1000 * 1000"
    by (auto simp: NewIntervalFromParts_cases compareKey_of_parts)
  have m: "k * (m sdiv k) = m - m smod k" and dd: "k * (dd sdiv k) = dd - dd smod k"
    and nn: "k * nq = nn - nn smod k" and nq: "nq sdiv 1000 * 1000 = nq - nq smod 1000"
    by (simp_all add: minus_smod_eq_mult_sdiv nq_def minus_smod_eq_sdiv_mult)
  have "k * compareKey iv = ((k * (m sdiv k)) * 30 + k * (dd sdiv k)) * nanosPerDay + k * nq - k * (nq smod 1000)"
    unfolding key nq by (simp add: algebra_simps)
  also have "\<dots> = ((m * 30 + d) * nanosPerDay + n) - (nn smod k + k * (nq smod 1000))"
    unfolding m dd nn by (simp add: dd_def nn_def algebra_simps)
  finally have e: "k * compareKey iv - ((m * 30 + d) * nanosPerDay + n) = - (nn smod k + k * (nq smod 1000))"
    by simp
  have "\<bar>nn smod k\<bar> < \<bar>k\<bar>" using smod_int_range [OF k, of nn] by auto
  moreover have "\<bar>nq smod 1000\<bar> \<le> 999" using abs_smod_pos [of 1000 nq] by linarith
  then have "\<bar>k * (nq smod 1000)\<bar> \<le> \<bar>k\<bar> * 999" by (simp add: abs_mult mult_left_mono)
  ultimately show ?thesis unfolding e by linarith
qed

theorem interval_div_error_bound_witness:
  "\<bar>- 7 * compareKey (of_parts (- 1) (- 21) (- 49371428571000)) - ((12 * 30 + 1) * nanosPerDay + 5)\<bar> < 1000 * \<bar>- 7\<bar>"
proof -
  have "DivideIntervalParts 12 1 5 (- 7) = Inr (of_parts (- 1) (- 21) (- 49371428571000))"
    by (simp add: DivideIntervalParts_def Let_def nanosPerDay_def NewIntervalFromParts_Inr parts_in_range_def)
  from interval_div_error_bound [OF this] show ?thesis by simp
qed

text \<open>
  Multiplying an interval by a non-zero integer and dividing the product by it gives the
  interval back, when its time part is a whole number of microseconds.
\<close>

theorem interval_mul_div_cancel:
  assumes "valid_interval a" "k \<noteq> 0" "1000 dvd time_nanos a" "Mul (IntervalValue a) (IntValue k) = Inr c"
  shows "Div c (IntValue k) = Inr (IntervalValue a)"
proof -
  have a: "iv_int32 a" using assms(1) by (simp add: valid_interval_def)
  obtain iv where iv: "c = IntervalValue iv"
    "NewIntervalFromParts (total_months a * k) (Days a * k) (time_nanos a * k) = Inr iv"
    using assms(4) by (auto simp: interval_Mul_def IntervalParts_reading a map_sum_IntervalValue_Inr)
  have p: "IntervalParts iv = (total_months a * k, Days a * k, time_nanos a * k)"
    using iv_parts.build_parts [OF iv(2)] by simp
  have [simp]: "x * k sdiv k = x" "x * k smod k = 0" for x
  proof -
    have "\<bar>x * k\<bar> mod \<bar>k\<bar> = 0" by (simp add: abs_mult)
    then show "x * k smod k = 0" by (simp add: smod_int_alt_def)
    then show "x * k sdiv k = x" using sdiv_mult_smod_eq [of "x * k" k] assms(2) by simp
  qed
  have "time_nanos a sdiv 1000 * 1000 = time_nanos a"
  proof -
    have "time_nanos a smod 1000 = 0" using assms(3) by (simp add: smod_int_alt_def)
    then show ?thesis using sdiv_mult_smod_eq [of "time_nanos a" 1000] by simp
  qed
  then show ?thesis
    using assms(2) valid_interval_build [OF assms(1)]
    by (simp add: iv(1) interval_Div_def p DivideIntervalParts_def Let_def)
qed

theorem interval_mul_div_cancel_witness:
  "Div (IntervalValue (of_parts (- 39) 15 (- 9000))) (IntValue (- 3)) = Inr (IntervalValue (of_parts 13 (- 5) 3000))"
proof (rule interval_mul_div_cancel)
  show "valid_interval (of_parts 13 (- 5) 3000)"
    by (rule valid_interval_of_parts) (simp add: parts_in_range_def)
  show "Mul (IntervalValue (of_parts 13 (- 5) 3000)) (IntValue (- 3)) = Inr (IntervalValue (of_parts (- 39) 15 (- 9000)))"
    by (simp add: interval_Mul_def IntervalParts_reading of_parts_int32 parts_in_range_def NewIntervalFromParts_Inr)
qed simp_all

lemma borrow_day:
  assumes "d2 * nanosPerDay + n2 = d1 * nanosPerDay + r" "\<bar>r\<bar> < nanosPerDay"
    "0 \<le> d2 \<and> 0 \<le> n2 \<or> d2 \<le> 0 \<and> n2 \<le> 0"
  shows "0 \<le> d1 \<Longrightarrow> 0 \<le> d2 \<and> d2 \<le> d1" "d1 \<le> 0 \<Longrightarrow> d1 \<le> d2 \<and> d2 \<le> 0"
  using assms unfolding nanosPerDay_def by arith+

lemma digits_sdiv:
  fixes m d :: int
  assumes "\<bar>d\<bar> < 30" "0 \<le> m \<and> 0 \<le> d \<or> m \<le> 0 \<and> d \<le> 0"
  shows "m = (m * 30 + d) sdiv 30" "d = (m * 30 + d) smod 30"
  using sdiv_unique [of "m * 30 + d" 30 m d] assms by auto

lemma digits_unique:
  fixes m m' d d' :: int
  assumes "m' * 30 + d' = m * 30 + d" "\<bar>d\<bar> < 30" "\<bar>d'\<bar> < 30"
    "0 \<le> m \<and> 0 \<le> d \<or> m \<le> 0 \<and> d \<le> 0" "0 \<le> m' \<and> 0 \<le> d' \<or> m' \<le> 0 \<and> d' \<le> 0"
  shows "m' = m" "d' = d"
  using digits_sdiv [OF assms(2,4)] digits_sdiv [OF assms(3,5)] unfolding assms(1) by simp_all

lemma justify_interval_steps:
  assumes "iv_int32 v" "JUSTIFY_INTERVAL v = Inr r"
  obtains m d1 d n where
    "m * 30 + d1 = total_months v * 30 + (Days v + time_nanos v sdiv nanosPerDay)"
    "d * nanosPerDay + n = d1 * nanosPerDay + time_nanos v smod nanosPerDay" "\<bar>n\<bar> < nanosPerDay"
    "0 \<le> d \<and> 0 \<le> n \<or> d \<le> 0 \<and> n \<le> 0" "\<bar>d\<bar> < 30" "0 \<le> m \<and> 0 \<le> d \<or> m \<le> 0 \<and> d \<le> 0"
    "NewIntervalFromParts m d n = Inr r"
proof -
  note b = reading_bounds [OF assms(1)]
  have pos: "0 < nanosPerDay" by (simp add: nanosPerDay_def)
  let ?q = "time_nanos v sdiv nanosPerDay" and ?r = "time_nanos v smod nanosPerDay"
  have q: "\<bar>?q\<bar> \<le> 100000000000" using abs_sdiv_bound [OF pos b(3)] .
  have i: "int64 ?q" "int64 (Days v + ?q)" using b(2) q by (auto simp: int64_def)
  obtain m1 d1 where s1: "justifyDays (total_months v) (Days v + ?q) = (m1, d1)" by fastforce
  have "\<bar>total_months v\<bar> \<le> 1000000000000" "\<bar>Days v + ?q\<bar> \<le> 1000000000000" using b q by linarith+
  note j1 = justifyDays_spec [OF this s1]
  obtain d2 n2 where s2: "justifyHours d1 ?r = (d2, n2)" by fastforce
  have rb: "\<bar>?r\<bar> < nanosPerDay" by (rule abs_smod_pos [OF pos])
  then have "\<bar>d1\<bar> \<le> 1000000000000" "\<bar>?r\<bar> \<le> 1000000000000 * nanosPerDay" using pos j1(2) by linarith+
  note j2 = justifyHours_spec [OF this s2]
  note d2 = borrow_day [OF j2(1) rb j2(3)]
  have sg: "0 \<le> m1 \<and> 0 \<le> d2 \<or> m1 \<le> 0 \<and> d2 \<le> 0" "\<bar>d2\<bar> < 30" using d2 j1(2,3) by linarith+
  obtain m3 d3 where s3: "justifyDays m1 d2 = (m3, d3)" by fastforce
  have "\<bar>m1\<bar> * 30 \<le> \<bar>m1 * 30 + d1\<bar> + 30" using j1(2) by linarith
  moreover have "\<bar>m1 * 30 + d1\<bar> \<le> 100000000000 * 30 + 200000000000"
    unfolding j1(1) using b(1,2) q by linarith
  ultimately have "\<bar>m1\<bar> \<le> 1000000000000" by linarith
  moreover have "\<bar>d2\<bar> \<le> 1000000000000" using sg(2) by linarith
  ultimately have mb: "\<bar>m1\<bar> \<le> 1000000000000" "\<bar>d2\<bar> \<le> 1000000000000" .
  note j3 = justifyDays_spec [OF mb s3]
  note e = digits_unique [OF j3(1) sg(2) j3(2) sg(1) j3(3)]
  have "NewIntervalFromParts m3 d3 n2 = Inr r"
    using assms(2) i s1 s2 s3 by (simp add: JUSTIFY_INTERVAL_def IntervalParts_reading assms(1))
  then show thesis using that [OF j1(1) j2 sg(2,1)] e by simp
qed

text \<open>
  JUSTIFY_INTERVAL never changes the time an interval stands for (with 30-day months and
  24-hour days), brings the days below 30 and the time part below a day, and makes the months
  agree in sign with the days and the days with the time part.
\<close>

theorem justify_interval_normalises:
  assumes "iv_int32 v" "JUSTIFY_INTERVAL v = Inr r"
  shows "compareKey r = compareKey v \<and> \<bar>Days r\<bar> < 30 \<and> \<bar>time_nanos r\<bar> < nanosPerDay \<and>
    (0 \<le> total_months r \<and> 0 \<le> Days r \<or> total_months r \<le> 0 \<and> Days r \<le> 0) \<and>
    (0 \<le> Days r \<and> 0 \<le> time_nanos r \<or> Days r \<le> 0 \<and> time_nanos r \<le> 0)"
  using assms
proof (rule justify_interval_steps)
  fix m d1 d n
  assume j1: "m * 30 + d1 = total_months v * 30 + (Days v + time_nanos v sdiv nanosPerDay)"
    and j2: "d * nanosPerDay + n = d1 * nanosPerDay + time_nanos v smod nanosPerDay" "\<bar>n\<bar> < nanosPerDay"
    and s: "0 \<le> d \<and> 0 \<le> n \<or> d \<le> 0 \<and> n \<le> 0" "\<bar>d\<bar> < 30" "0 \<le> m \<and> 0 \<le> d \<or> m \<le> 0 \<and> d \<le> 0"
    and b: "NewIntervalFromParts m d n = Inr r"
  have r: "compareKey r = (m * 30 + d) * nanosPerDay + n" "total_months r = m" "Days r = d" "time_nanos r = n"
    using b by (auto simp: NewIntervalFromParts_cases compareKey_of_parts)
  have t: "time_nanos v = (time_nanos v sdiv nanosPerDay) * nanosPerDay + time_nanos v smod nanosPerDay"
    by (simp add: sdiv_mult_smod_eq)
  have "compareKey r = m * 30 * nanosPerDay + (d * nanosPerDay + n)"
    by (simp add: r distrib_right)
  also have "\<dots> = (m * 30 + d1) * nanosPerDay + time_nanos v smod nanosPerDay"
    by (simp add: j2(1) distrib_right)
  also have "\<dots> = compareKey v"
    unfolding j1 compareKey_reading [OF assms(1)] by (subst (3) t) (simp add: distrib_right)
  finally show ?thesis using j2(2) s by (simp add: r)
qed

theorem justify_interval_normalises_witness:
  "compareKey (of_parts 2 6 3600000000000) = compareKey (of_parts 1 35 90000000000000) \<and>
   JUSTIFY_INTERVAL (of_parts 1 35 90000000000000) = Inr (of_parts 2 6 3600000000000)"
proof -
  have i: "iv_int32 (of_parts 1 35 90000000000000)"
    by (rule of_parts_int32) (simp add: parts_in_range_def)
  have "JUSTIFY_INTERVAL (of_parts 1 35 90000000000000) = Inr (of_parts 2 6 3600000000000)"
    by (simp add: JUSTIFY_INTERVAL_def IntervalParts_reading i justifyDays_def justifyHours_def
        nanosPerDay_def Let_def i64_eq NewIntervalFromParts_Inr parts_in_range_def)
  with justify_interval_normalises [OF i this] show ?thesis by blast
qed

text \<open>
  JUSTIFY_INTERVAL does not make the months and the time part agree in sign when the days
  are zero: one month less five hours stays one month less five hours, where 29 days and 19
  hours is the form with one sign.
\<close>

lemma justify_interval_mixed_signs:
  "JUSTIFY_INTERVAL (of_parts 1 0 (- 5 * nanosPerHour)) = Inr (of_parts 1 0 (- 5 * nanosPerHour)) \<and>
   compareKey (of_parts 1 0 (- 5 * nanosPerHour)) = compareKey (of_parts 0 29 (19 * nanosPerHour))"
  by (simp add: JUSTIFY_INTERVAL_def IntervalParts_reading of_parts_int32 justifyDays_def justifyHours_def
      nanosPerDay_def nanosPerHour_def Let_def i64_eq NewIntervalFromParts_Inr parts_in_range_def
      compareKey_of_parts)

text \<open>
  Canonicalize keeps the months, the days and the time of an interval, and returns the
  strictly canonical interval of that reading; applying it twice changes nothing more.
\<close>

theorem canonicalize_canonical:
  assumes "iv_int32 iv" "int32 (total_months iv)" "int32 (time_nanos iv sdiv 3600000000000)"
  shows "strictly_canonical (Canonicalize iv) \<and> iv_int32 (Canonicalize iv) \<and>
    IntervalParts (Canonicalize iv) = IntervalParts iv \<and>
    Canonicalize (Canonicalize iv) = Canonicalize iv"
proof -
  have c: "Canonicalize iv = of_parts (total_months iv) (Days iv) (time_nanos iv)"
    using Canonicalize_fields [OF assms(2,3)] by (simp add: of_parts_def)
  have "int32 (x smod 60)" "int32 (x smod 1000000000)" "int32 (x smod 12)" for x
    using abs_smod_pos [of 60 x] abs_smod_pos [of 1000000000 x] abs_smod_pos [of 12 x]
    by (auto simp: int32_def)
  moreover have "int32 (total_months iv sdiv 12)"
    using assms(2) abs_sdiv_bound [of 12 "total_months iv" 178956971]
    unfolding int32_def by linarith
  ultimately have i: "iv_int32 (Canonicalize iv)"
    using assms by (simp add: c iv_int32_def of_parts_def)
  then show ?thesis
    using assms Canonicalize_fields [of "Canonicalize iv"]
    by (simp add: c of_parts_canonical IntervalParts_reading of_parts_def [symmetric])
qed

theorem canonicalize_canonical_witness:
  "Canonicalize \<lparr>Years = 1, Months = - 14, Days = 3, Hours = 0, Minutes = 61, Seconds = - 70, SubSecondNanos = 5\<rparr> =
     \<lparr>Years = 0, Months = - 2, Days = 3, Hours = 0, Minutes = 59, Seconds = 50, SubSecondNanos = 5\<rparr> \<and>
   strictly_canonical (Canonicalize
     \<lparr>Years = 1, Months = - 14, Days = 3, Hours = 0, Minutes = 61, Seconds = - 70, SubSecondNanos = 5\<rparr>)"
  using canonicalize_canonical [of "\<lparr>Years = 1, Months = - 14, Days = 3, Hours = 0, Minutes = 61,
      Seconds = - 70, SubSecondNanos = 5\<rparr>"]
  by (simp add: iv_int32_def int32_def total_months_def time_nanos_def time_secs_def Canonicalize_def
      norm_secs_def i32_eq)

lemma String_iv_hd:
  assumes "printable iv"
  shows "String_iv iv \<noteq> []" "hd (String_iv iv) = CHR ''-'' \<Longrightarrow> Months iv \<le> 0"
proof -
  have c: "IsCanonical iv" using assms by (simp add: printable_def strictly_canonical_IsCanonical)
  show "String_iv iv \<noteq> []" by (simp add: String_iv_def c Let_def)
  assume h: "hd (String_iv iv) = CHR ''-''"
  show "Months iv \<le> 0"
  proof (cases "Years iv < 0 \<or> Months iv < 0")
    case True
    then show ?thesis using assms by (auto simp: printable_def strictly_canonical_def)
  next
    case False
    moreover have "hd (String_iv iv) = hd (dec_int (int32abs (Years iv)))"
    proof -
      have "dec_int (int32abs (Years iv)) \<noteq> []" by (simp add: dec_int_def)
      then show ?thesis using False c by (simp add: String_iv_def Let_def)
    qed
    ultimately have "hd (dec_nat (nat (Years iv))) = CHR ''-''"
      using h by (simp add: int32abs_def dec_int_def)
    then show ?thesis using hd_dec_nat_digit [of "nat (Years iv)"] by (simp add: is_digit_def)
  qed
qed

text \<open>
  C14. Every interval built from months, days and nanoseconds, as the INTERVAL functions and the
  arithmetic on intervals build them (\<open>NewIntervalFromParts\<close>), is recovered by the INTERVAL parser from both
  of its text forms, the SQL text and the ISO 8601 duration. The claim does not extend to what the ISO
  8601 parser builds from parts of different signs, such as an hour less a second.
\<close>

theorem interval_text_roundtrip:
  assumes "valid_interval iv"
  shows "parseInterval (String_iv iv) = Inr iv \<and> parseInterval (ISO8601 iv) = Inr iv"
proof -
  have p: "printable iv" by (rule valid_interval_printable [OF assms])
  have "parseInterval (String_iv iv) = Inr iv"
    using String_iv_hd [OF p] ParseInterval_String [OF p]
    by (cases "String_iv iv") (auto simp: parseInterval_def)
  moreover have "parseInterval (ISO8601 iv) = Inr iv"
  proof -
    have "IsCanonical iv" using p by (simp add: printable_def strictly_canonical_IsCanonical)
    then obtain r where "ISO8601 iv = CHR ''P'' # r"
      by (cases "iso_body iv = []") (auto simp: ISO8601_body)
    then show ?thesis using ParseInterval_ISO8601 [OF p] by (simp add: parseInterval_def)
  qed
  ultimately show ?thesis ..
qed

theorem interval_text_roundtrip_witness:
  "parseInterval (String_iv (of_parts (- 14) 3 (- 3600500000000))) = Inr (of_parts (- 14) 3 (- 3600500000000))"
proof -
  have "valid_interval (of_parts (- 14) 3 (- 3600500000000))"
    by (rule valid_interval_of_parts) (simp add: parts_in_range_def)
  from interval_text_roundtrip [OF this] show ?thesis by blast
qed

text \<open>
  The canonical-form test ignores the sign of the seconds, so an interval of one hour less
  one second, which the ISO parser accepts, is printed as minus one hour and one second: the
  text no longer denotes the value.
\<close>

lemma canonical_test_misses_seconds:
  "ParseInterval ''PT1H-1S'' = Inr (zero_interval\<lparr>Hours := 1, Seconds := - 1\<rparr>) \<and>
   String_iv (zero_interval\<lparr>Hours := 1, Seconds := - 1\<rparr>) = ''0-0 0 -1:0:1'' \<and>
   ParseInterval ''0-0 0 -1:0:1'' = Inr (zero_interval\<lparr>Hours := - 1, Seconds := - 1\<rparr>)"
  by (intro conjI; code_simp)

text \<open>
  Converting a duration to an interval and back is not the identity: the sub-second part,
  already in nanoseconds, is multiplied by a thousand million in 32-bit arithmetic.
\<close>

lemma duration_roundtrip_scales_nanos:
  "ToDuration (IntervalValueFromDuration 1) = 1000000000 \<and>
   ToDuration (IntervalValueFromDuration 3) = - 1294967296"
  by (intro conjI; code_simp)

text \<open>
  Three places where the code departs from its contract. JUSTIFY_INTERVAL leaves one month less
  five hours with two signs, where 29 days and 19 hours has one. The canonical-form test ignores
  the sign of the seconds, so the text printed for one hour less one second reads back as another
  value. Converting a duration to an interval and back multiplies the nanoseconds by a thousand
  million in 32-bit arithmetic.
\<close>

theorem interval_defects:
  "JUSTIFY_INTERVAL (of_parts 1 0 (- 5 * nanosPerHour)) = Inr (of_parts 1 0 (- 5 * nanosPerHour)) \<and>
   compareKey (of_parts 1 0 (- 5 * nanosPerHour)) = compareKey (of_parts 0 29 (19 * nanosPerHour)) \<and>
   ParseInterval ''PT1H-1S'' = Inr (zero_interval\<lparr>Hours := 1, Seconds := - 1\<rparr>) \<and>
   ParseInterval (String_iv (zero_interval\<lparr>Hours := 1, Seconds := - 1\<rparr>)) = Inr (zero_interval\<lparr>Hours := - 1, Seconds := - 1\<rparr>) \<and>
   ToDuration (IntervalValueFromDuration 1) = 1000000000 \<and> ToDuration (IntervalValueFromDuration 3) = - 1294967296"
  using justify_interval_mixed_signs canonical_test_misses_seconds duration_roundtrip_scales_nanos by simp

end
