(* ===== verification/MR_Compiler.thy ===== *)
theory MR_Compiler
  imports Values
begin

text \<open>
  The pattern compiler of MATCH_RECOGNIZE (\<open>internal/match_recognize.go\<close>): a row pattern
  is compiled to a program of six instructions with absolute jump targets. The compiler state
  is the instruction list emitted so far; its methods take the list and return the new one or an
  error. An index out of range, which panics in the code, is the error \<open>IndexPanic\<close>.
\<close>

section \<open>Patterns and programs\<close>

text \<open>
  A pattern node: the tag \<open>T\<close> is the constructor. The bounds of a quantifier are indices
  into the bound arguments plus one, zero for an absent bound; a quantifier has its body as
  first child.
\<close>

datatype mrPatternNode =
    PVar int
  | PEmpty
  | PStart
  | PEnd
  | PCat "mrPatternNode list"
  | PAlt "mrPatternNode list"
  | PQuant int int bool "mrPatternNode list"
  | PUnknown string

record mrSpec =
  sp_P :: mrPatternNode
  sp_Skip :: int
  sp_NB :: int
  sp_NV :: int

datatype mrOp = mrOpVar | mrOpSplit | mrOpJmp | mrOpStart | mrOpEnd | mrOpMatch

record mrInst =
  i_op :: mrOp
  i_v :: int
  i_x :: nat
  i_y :: nat

definition inst :: "mrOp \<Rightarrow> mrInst" where
  "inst oper = \<lparr>i_op = oper, i_v = 0, i_x = 0, i_y = 0\<rparr>"

record mrProgram =
  p_insts :: "mrInst list"
  p_skip :: int
  p_nv :: int
  p_nb :: int

datatype mr_error =
    PatternTooLarge
  | BoundNull
  | BoundConvert value_error
  | BoundNegative int
  | BoundOrder int int
  | UnknownPatternNode string
  | IndexPanic

definition mrMaxProgram :: nat where "mrMaxProgram = 262144"

section \<open>The compiler\<close>

definition emit :: "mrInst list \<Rightarrow> mrInst \<Rightarrow> mr_error + mrInst list \<times> nat" where
  "emit c i =
     (if length c \<ge> mrMaxProgram then Inl PatternTooLarge else Inr (c @ [i], length c))"

definition boundValue :: "val option list \<Rightarrow> int \<Rightarrow> mr_error + int \<times> bool" where
  "boundValue bounds idx =
     (if idx = 0 then Inr (0, False)
      else if idx < 1 \<or> idx > int (length bounds) then Inl IndexPanic
      else case bounds ! nat (idx - 1) of
        None \<Rightarrow> Inl BoundNull
      | Some v \<Rightarrow> (case ToInt64 v of
            Inl e \<Rightarrow> Inl (BoundConvert e)
          | Inr i \<Rightarrow> if i < 0 then Inl (BoundNegative i) else Inr (i, True)))"

definition setSplit :: "mrInst list \<Rightarrow> nat \<Rightarrow> nat \<Rightarrow> nat \<Rightarrow> bool \<Rightarrow> mrInst list" where
  "setSplit c at body exit reluctant =
     (if reluctant then c[at := (c ! at)\<lparr>i_x := exit, i_y := body\<rparr>]
      else c[at := (c ! at)\<lparr>i_x := body, i_y := exit\<rparr>])"

type_synonym code_gen = "mrInst list \<Rightarrow> mr_error + mrInst list"

text \<open>The loop over the children of a concatenation.\<close>

fun compile_cat :: "code_gen list \<Rightarrow> code_gen" where
  "compile_cat [] c = Inr c"
| "compile_cat (f # fs) c = bind_res (f c) (compile_cat fs)"

text \<open>
  The loop over the children of an alternation: every child but the last is preceded by a split
  and followed by a jump; the jumps are collected and pointed at the end afterwards.
\<close>

fun compile_alt :: "code_gen list \<Rightarrow> mrInst list \<Rightarrow> nat list \<Rightarrow> mr_error + mrInst list \<times> nat list" where
  "compile_alt [] c jumps = Inr (c, jumps)"
| "compile_alt [f] c jumps = bind_res (f c) (\<lambda>c'. Inr (c', jumps))"
| "compile_alt (f # g # fs) c jumps =
     bind_res (emit c (inst mrOpSplit)) (\<lambda>(c1, split).
     bind_res (f (c1[split := (c1 ! split)\<lparr>i_x := split + 1\<rparr>])) (\<lambda>c2.
     bind_res (emit c2 (inst mrOpJmp)) (\<lambda>(c3, j).
       compile_alt (g # fs) (c3[split := (c3 ! split)\<lparr>i_y := length c3\<rparr>]) (jumps @ [j]))))"

definition patch_jumps :: "nat list \<Rightarrow> mrInst list \<Rightarrow> mrInst list" where
  "patch_jumps jumps c = foldl (\<lambda>c j. c[j := (c ! j)\<lparr>i_x := length c\<rparr>]) c jumps"

text \<open>The loop that unrolls the mandatory repetitions of a quantifier.\<close>

fun compile_times :: "nat \<Rightarrow> code_gen \<Rightarrow> code_gen" where
  "compile_times 0 f c = Inr c"
| "compile_times (Suc n) f c = bind_res (f c) (compile_times n f)"

text \<open>The loop that unrolls the optional repetitions, each behind a split.\<close>

fun compile_opts :: "nat \<Rightarrow> code_gen \<Rightarrow> mrInst list \<Rightarrow> nat list \<Rightarrow> mr_error + mrInst list \<times> nat list" where
  "compile_opts 0 f c splits = Inr (c, splits)"
| "compile_opts (Suc n) f c splits =
     bind_res (emit c (inst mrOpSplit)) (\<lambda>(c1, s).
     bind_res (f c1) (\<lambda>c2. compile_opts n f c2 (splits @ [s])))"

definition patch_splits :: "bool \<Rightarrow> nat list \<Rightarrow> mrInst list \<Rightarrow> mrInst list" where
  "patch_splits r splits c = foldl (\<lambda>c s. setSplit c s (s + 1) (length c) r) c splits"

definition compile_quant :: "val option list \<Rightarrow> int \<Rightarrow> int \<Rightarrow> bool \<Rightarrow> code_gen list \<Rightarrow> code_gen" where
  "compile_quant bounds loIdx hiIdx r fs c =
     bind_res (boundValue bounds loIdx) (\<lambda>(lo, _).
     bind_res (boundValue bounds hiIdx) (\<lambda>(hi, hasHi).
       if hasHi \<and> hi < lo then Inl (BoundOrder hi lo)
       else if lo > int mrMaxProgram \<or> hasHi \<and> hi > int mrMaxProgram then Inl PatternTooLarge
       else (case fs of [] \<Rightarrow> Inl IndexPanic | f # _ \<Rightarrow>
         bind_res (compile_times (nat lo) f c) (\<lambda>c1.
           if \<not> hasHi then
             bind_res (emit c1 (inst mrOpSplit)) (\<lambda>(c2, loop).
             bind_res (f c2) (\<lambda>c3.
             bind_res (emit c3 ((inst mrOpJmp)\<lparr>i_x := loop\<rparr>)) (\<lambda>(c4, _).
               Inr (setSplit c4 loop (loop + 1) (length c4) r))))
           else
             bind_res (compile_opts (nat (hi - lo)) f c1 []) (\<lambda>(c2, splits).
               Inr (patch_splits r splits c2))))))"

primrec compile :: "val option list \<Rightarrow> mrPatternNode \<Rightarrow> code_gen" where
  "compile bounds (PVar v) = (\<lambda>c. map_sum id fst (emit c ((inst mrOpVar)\<lparr>i_v := v\<rparr>)))"
| "compile bounds PEmpty = (\<lambda>c. Inr c)"
| "compile bounds PStart = (\<lambda>c. map_sum id fst (emit c (inst mrOpStart)))"
| "compile bounds PEnd = (\<lambda>c. map_sum id fst (emit c (inst mrOpEnd)))"
| "compile bounds (PCat cs) = compile_cat (map (compile bounds) cs)"
| "compile bounds (PAlt cs) = (\<lambda>c.
     bind_res (compile_alt (map (compile bounds) cs) c []) (\<lambda>(c', jumps). Inr (patch_jumps jumps c')))"
| "compile bounds (PQuant lo hi r cs) = compile_quant bounds lo hi r (map (compile bounds) cs)"
| "compile bounds (PUnknown t) = (\<lambda>c. Inl (UnknownPatternNode t))"

definition mrCompile :: "mrSpec \<Rightarrow> val option list \<Rightarrow> mr_error + mrProgram" where
  "mrCompile spec bounds =
     bind_res (compile bounds (sp_P spec) []) (\<lambda>c.
     bind_res (emit c (inst mrOpMatch)) (\<lambda>(c', _).
       Inr \<lparr>p_insts = c', p_skip = sp_Skip spec, p_nv = sp_NV spec, p_nb = sp_NB spec\<rparr>))"

section \<open>What a pattern means\<close>

text \<open>
  The specification the compiled program is measured against: a pattern relates the row a match
  starts at, the pattern variables its rows are classified as, and the row after the match.
  \<open>n\<close> is the number of rows and \<open>ok i v\<close> says whether row \<open>i\<close> satisfies variable
  \<open>v\<close>. A variable number is recorded in 32 bits.
\<close>

type_synonym span = "nat \<Rightarrow> int list \<Rightarrow> nat \<Rightarrow> bool"

definition span_eps :: span where
  "span_eps i vs j \<longleftrightarrow> vs = [] \<and> j = i"

definition span_seq :: "span \<Rightarrow> span \<Rightarrow> span" where
  "span_seq R S i vs j \<longleftrightarrow> (\<exists>us ws k. vs = us @ ws \<and> R i us k \<and> S k ws j)"

fun span_cat :: "span list \<Rightarrow> span" where
  "span_cat [] = span_eps"
| "span_cat (R # Rs) = span_seq R (span_cat Rs)"

fun span_pow :: "nat \<Rightarrow> span \<Rightarrow> span" where
  "span_pow 0 R = span_eps"
| "span_pow (Suc k) R = span_seq R (span_pow k R)"

text \<open>An alternation without alternatives emits no code and matches the empty row sequence.\<close>

definition span_alt :: "span list \<Rightarrow> span" where
  "span_alt Rs i vs j \<longleftrightarrow> (if Rs = [] then span_eps i vs j else \<exists>R \<in> set Rs. R i vs j)"

definition span_quant :: "val option list \<Rightarrow> int \<Rightarrow> int \<Rightarrow> span list \<Rightarrow> span" where
  "span_quant bounds lo hi Rs i vs j \<longleftrightarrow>
     (\<exists>l h hasHi b k. boundValue bounds lo = Inr (l, b) \<and> boundValue bounds hi = Inr (h, hasHi) \<and>
        Rs \<noteq> [] \<and> l \<le> int k \<and> (hasHi \<longrightarrow> int k \<le> h) \<and> span_pow k (hd Rs) i vs j)"

primrec pmatch :: "nat \<Rightarrow> (nat \<Rightarrow> int \<Rightarrow> bool) \<Rightarrow> val option list \<Rightarrow> mrPatternNode \<Rightarrow> span" where
  "pmatch n ok bounds (PVar v) = (\<lambda>i vs j. i < n \<and> ok i v \<and> vs = [i32 v] \<and> j = Suc i)"
| "pmatch n ok bounds PEmpty = span_eps"
| "pmatch n ok bounds PStart = (\<lambda>i vs j. i = 0 \<and> span_eps i vs j)"
| "pmatch n ok bounds PEnd = (\<lambda>i vs j. i = n \<and> span_eps i vs j)"
| "pmatch n ok bounds (PCat cs) = span_cat (map (pmatch n ok bounds) cs)"
| "pmatch n ok bounds (PAlt cs) = span_alt (map (pmatch n ok bounds) cs)"
| "pmatch n ok bounds (PQuant lo hi r cs) = span_quant bounds lo hi (map (pmatch n ok bounds) cs)"
| "pmatch n ok bounds (PUnknown t) = (\<lambda>i vs j. False)"

end
