(* ===== verification/MR_Fragments.thy ===== *)
theory MR_Fragments
  imports MR_Compiler
begin

text \<open>
  Correctness of the MATCH_RECOGNIZE pattern compiler: every compiled fragment of a program
  reaches its end from its start exactly along the row sequences the pattern matches, and all of
  its jump targets stay inside the fragment.
\<close>

section \<open>Steps of a program\<close>

text \<open>
  One step of the non-deterministic machine: from a program counter and a row position to the
  next, with the variable the row is classified as.
\<close>

inductive pstep :: "nat \<Rightarrow> (nat \<Rightarrow> int \<Rightarrow> bool) \<Rightarrow> mrInst list \<Rightarrow> nat \<Rightarrow> nat \<Rightarrow> int list \<Rightarrow> nat \<Rightarrow> nat \<Rightarrow> bool"
  for n ok P where
  jmp: "pc < length P \<Longrightarrow> i_op (P ! pc) = mrOpJmp \<Longrightarrow> pstep n ok P pc i [] (i_x (P ! pc)) i"
| split_x: "pc < length P \<Longrightarrow> i_op (P ! pc) = mrOpSplit \<Longrightarrow> pstep n ok P pc i [] (i_x (P ! pc)) i"
| split_y: "pc < length P \<Longrightarrow> i_op (P ! pc) = mrOpSplit \<Longrightarrow> pstep n ok P pc i [] (i_y (P ! pc)) i"
| start: "pc < length P \<Longrightarrow> i_op (P ! pc) = mrOpStart \<Longrightarrow> i = 0 \<Longrightarrow> pstep n ok P pc i [] (Suc pc) i"
| fin: "pc < length P \<Longrightarrow> i_op (P ! pc) = mrOpEnd \<Longrightarrow> i = n \<Longrightarrow> pstep n ok P pc i [] (Suc pc) i"
| var: "pc < length P \<Longrightarrow> i_op (P ! pc) = mrOpVar \<Longrightarrow> i < n \<Longrightarrow> ok i (i_v (P ! pc)) \<Longrightarrow>
    pstep n ok P pc i [i32 (i_v (P ! pc))] (Suc pc) (Suc i)"

inductive_cases pstep_elim: "pstep n ok P pc i vs pc' j"

inductive steps :: "nat \<Rightarrow> (nat \<Rightarrow> int \<Rightarrow> bool) \<Rightarrow> mrInst list \<Rightarrow> nat \<Rightarrow> nat \<Rightarrow> nat \<Rightarrow> int list \<Rightarrow> nat \<Rightarrow> nat \<Rightarrow> bool"
  for n ok P where
  steps_0: "steps n ok P 0 pc i [] pc i"
| steps_Suc: "pstep n ok P pc i us pc' i' \<Longrightarrow> steps n ok P k pc' i' vs q j \<Longrightarrow>
    steps n ok P (Suc k) pc i (us @ vs) q j"

inductive_cases steps_0_elim: "steps n ok P 0 pc i vs q j"
inductive_cases steps_Suc_elim: "steps n ok P (Suc k) pc i vs q j"

lemma steps_append:
  "steps n ok P k pc i us q j \<Longrightarrow> steps n ok P m q j vs q' j' \<Longrightarrow> steps n ok P (k + m) pc i (us @ vs) q' j'"
proof (induction rule: steps.induct)
  case (steps_Suc pc i us' pc' i' k vs' q j)
  then show ?case
    using steps.steps_Suc [OF steps_Suc.hyps(1) steps_Suc.IH [OF steps_Suc.prems]] by simp
qed simp

section \<open>Fragments\<close>

text \<open>A fragment's instructions jump within it or to its end, and none of them accepts.\<close>

definition target_ok :: "mrInst \<Rightarrow> nat \<Rightarrow> nat \<Rightarrow> bool" where
  "target_ok x a b \<longleftrightarrow> (case i_op x of
      mrOpJmp \<Rightarrow> a \<le> i_x x \<and> i_x x \<le> b
    | mrOpSplit \<Rightarrow> a \<le> i_x x \<and> i_x x \<le> b \<and> a \<le> i_y x \<and> i_y x \<le> b
    | mrOpMatch \<Rightarrow> False
    | _ \<Rightarrow> True)"

definition code_in :: "mrInst list \<Rightarrow> nat \<Rightarrow> nat \<Rightarrow> bool" where
  "code_in P a b \<longleftrightarrow> a \<le> b \<and> b \<le> length P \<and> (\<forall>k. a \<le> k \<and> k < b \<longrightarrow> target_ok (P ! k) a b)"

text \<open>
  The fragment between \<open>a\<close> and \<open>b\<close> implements \<open>R\<close>: whatever \<open>R\<close> relates can be run
  from \<open>a\<close> to \<open>b\<close>, and a run that leaves the fragment does so through \<open>b\<close>, having
  consumed rows that \<open>R\<close> relates.
\<close>

definition frag :: "nat \<Rightarrow> (nat \<Rightarrow> int \<Rightarrow> bool) \<Rightarrow> mrInst list \<Rightarrow> nat \<Rightarrow> nat \<Rightarrow> span \<Rightarrow> bool" where
  "frag n ok P a b R \<longleftrightarrow> code_in P a b \<and>
     (\<forall>i vs j. R i vs j \<longrightarrow> (\<exists>k. steps n ok P k a i vs b j)) \<and>
     (\<forall>k i vs q j. steps n ok P k a i vs q j \<longrightarrow> a \<le> q \<and> q < b \<or>
        (\<exists>m us ws l. m \<le> k \<and> vs = us @ ws \<and> R i us l \<and> steps n ok P m b l ws q j))"

lemma fragI:
  assumes "code_in P a b"
    "\<And>i vs j. R i vs j \<Longrightarrow> \<exists>k. steps n ok P k a i vs b j"
    "\<And>k i vs q j. steps n ok P k a i vs q j \<Longrightarrow> \<not> (a \<le> q \<and> q < b) \<Longrightarrow>
       \<exists>m us ws l. m \<le> k \<and> vs = us @ ws \<and> R i us l \<and> steps n ok P m b l ws q j"
  shows "frag n ok P a b R"
  unfolding frag_def using assms(1,2) assms(3) [rule_format] by (intro conjI allI impI) metis+

lemma frag_code: "frag n ok P a b R \<Longrightarrow> code_in P a b"
  by (simp add: frag_def)

lemma frag_run: "frag n ok P a b R \<Longrightarrow> R i vs j \<Longrightarrow> \<exists>k. steps n ok P k a i vs b j"
  by (simp add: frag_def)

lemma frag_exit:
  assumes "frag n ok P a b R" "steps n ok P k a i vs q j" "\<not> (a \<le> q \<and> q < b)"
  obtains m us ws l where "m \<le> k" "vs = us @ ws" "R i us l" "steps n ok P m b l ws q j"
proof -
  have "a \<le> q \<and> q < b \<or> (\<exists>m us ws l. m \<le> k \<and> vs = us @ ws \<and> R i us l \<and> steps n ok P m b l ws q j)"
    using assms(1,2) by (simp add: frag_def)
  then show thesis using assms(3) that by blast
qed

lemma target_ok_mono: "target_ok x a b \<Longrightarrow> a' \<le> a \<Longrightarrow> b \<le> b' \<Longrightarrow> target_ok x a' b'"
  by (auto simp: target_ok_def split: mrOp.splits)

text \<open>A range of code is closed when each of its instructions is, or lies in a closed part.\<close>

lemma code_inI:
  assumes "a \<le> c" "c \<le> length P"
    "\<And>k. a \<le> k \<Longrightarrow> k < c \<Longrightarrow> target_ok (P ! k) a c \<or> (\<exists>x y. code_in P x y \<and> a \<le> x \<and> y \<le> c \<and> x \<le> k \<and> k < y)"
  shows "code_in P a c"
proof -
  have "target_ok (P ! k) a c" if "a \<le> k" "k < c" for k
    using assms(3) [OF that] target_ok_mono [of "P ! k" _ _ a c] by (auto simp: code_in_def)
  then show ?thesis using assms(1,2) by (simp add: code_in_def)
qed

lemma code_in_join:
  assumes "code_in P a b" "code_in P b c"
  shows "code_in P a c"
proof (rule code_inI)
  have b: "a \<le> b" "b \<le> c" "c \<le> length P" using assms by (auto simp: code_in_def)
  then show "a \<le> c" "c \<le> length P" by simp_all
  fix k
  assume "a \<le> k" "k < c"
  then show "target_ok (P ! k) a c \<or> (\<exists>x y. code_in P x y \<and> a \<le> x \<and> y \<le> c \<and> x \<le> k \<and> k < y)"
    using assms b by (cases "k < b") (meson order_refl not_less)+
qed

lemma code_in_single: "a < length P \<Longrightarrow> target_ok (P ! a) a (Suc a) \<Longrightarrow> code_in P a (Suc a)"
  by (auto simp: code_in_def less_Suc_eq_le)

lemma frag_eps: "a \<le> length P \<Longrightarrow> frag n ok P a a span_eps"
proof (rule fragI)
  fix k i vs q j
  assume "steps n ok P k a i vs q j"
  then show "\<exists>m us ws l. m \<le> k \<and> vs = us @ ws \<and> span_eps i us l \<and> steps n ok P m a l ws q j"
    by (intro exI [of _ k] exI [of _ "[]"] exI [of _ vs] exI [of _ i]) (simp add: span_eps_def)
qed (auto simp: code_in_def span_eps_def intro: steps_0)

lemma frag_seq:
  assumes "frag n ok P a b R" "frag n ok P b c S"
  shows "frag n ok P a c (span_seq R S)"
proof (rule fragI)
  show "code_in P a c" using assms by (blast intro: code_in_join frag_code)
  show "\<exists>k. steps n ok P k a i vs c j" if "span_seq R S i vs j" for i vs j
  proof -
    obtain us ws k where "vs = us @ ws" "R i us k" "S k ws j"
      using \<open>span_seq R S i vs j\<close> by (auto simp: span_seq_def)
    then show ?thesis using frag_run [OF assms(1)] frag_run [OF assms(2)] by (blast intro: steps_append)
  qed
  fix k i vs q j
  assume k: "steps n ok P k a i vs q j" and q: "\<not> (a \<le> q \<and> q < c)"
  have "a \<le> b" "b \<le> c" using frag_code [OF assms(1)] frag_code [OF assms(2)] by (auto simp: code_in_def)
  then have qb: "\<not> (a \<le> q \<and> q < b)" "\<not> (b \<le> q \<and> q < c)" using q by auto
  obtain m us ws l where 1: "m \<le> k" "vs = us @ ws" "R i us l" "steps n ok P m b l ws q j"
    by (rule frag_exit [OF assms(1) k qb(1)])
  obtain m' us' ws' l' where 2: "m' \<le> m" "ws = us' @ ws'" "S l us' l'" "steps n ok P m' c l' ws' q j"
    by (rule frag_exit [OF assms(2) 1(4) qb(2)])
  have "span_seq R S i (us @ us') l'" using 1 2 by (auto simp: span_seq_def)
  then show "\<exists>m us ws l. m \<le> k \<and> vs = us @ ws \<and> span_seq R S i us l \<and> steps n ok P m c l ws q j"
    using 1 2 by (intro exI [of _ m'] exI [of _ "us @ us'"] exI [of _ ws'] exI [of _ l']) simp
qed

text \<open>A single instruction, by the steps it can take.\<close>

lemma frag_instr:
  assumes "a < length P" "target_ok (P ! a) a (Suc a)"
    and pstep: "\<And>i vs q j. pstep n ok P a i vs q j \<longleftrightarrow> R i vs j \<and> q = Suc a"
  shows "frag n ok P a (Suc a) R"
proof (rule fragI)
  show "code_in P a (Suc a)" using assms(1,2) by (rule code_in_single)
  show "\<exists>k. steps n ok P k a i vs (Suc a) j" if "R i vs j" for i vs j
    using steps_Suc [OF _ steps_0, of n ok P a i vs "Suc a" j] pstep that by auto
  fix k i vs q j
  assume k: "steps n ok P k a i vs q j" and q: "\<not> (a \<le> q \<and> q < Suc a)"
  show "\<exists>m us ws l. m \<le> k \<and> vs = us @ ws \<and> R i us l \<and> steps n ok P m (Suc a) l ws q j"
    using k
  proof cases
    case steps_0
    with q show ?thesis by simp
  next
    case (steps_Suc us pc' i' m ws)
    then show ?thesis using pstep by (metis Suc_leD order_refl)
  qed
qed

lemma pstep_op:
  assumes "a < length P"
  shows "i_op (P ! a) = mrOpVar \<Longrightarrow> pstep n ok P a i vs q j \<longleftrightarrow>
      (i < n \<and> ok i (i_v (P ! a)) \<and> vs = [i32 (i_v (P ! a))] \<and> j = Suc i) \<and> q = Suc a"
    and "i_op (P ! a) = mrOpStart \<Longrightarrow> pstep n ok P a i vs q j \<longleftrightarrow> (i = 0 \<and> span_eps i vs j) \<and> q = Suc a"
    and "i_op (P ! a) = mrOpEnd \<Longrightarrow> pstep n ok P a i vs q j \<longleftrightarrow> (i = n \<and> span_eps i vs j) \<and> q = Suc a"
    and "i_op (P ! a) = mrOpJmp \<Longrightarrow> pstep n ok P a i vs q j \<longleftrightarrow> span_eps i vs j \<and> q = i_x (P ! a)"
    and "i_op (P ! a) = mrOpSplit \<Longrightarrow> pstep n ok P a i vs q j \<longleftrightarrow>
      span_eps i vs j \<and> (q = i_x (P ! a) \<or> q = i_y (P ! a))"
    and "i_op (P ! a) = mrOpMatch \<Longrightarrow> \<not> pstep n ok P a i vs q j"
  using assms by (auto simp: span_eps_def elim!: pstep_elim intro: pstep.intros)

definition split_to :: "mrInst \<Rightarrow> nat \<Rightarrow> nat \<Rightarrow> bool" where
  "split_to x p q \<longleftrightarrow> i_op x = mrOpSplit \<and> (i_x x = p \<and> i_y x = q \<or> i_x x = q \<and> i_y x = p)"

definition jmp_to :: "mrInst \<Rightarrow> nat \<Rightarrow> bool" where
  "jmp_to x p \<longleftrightarrow> i_op x = mrOpJmp \<and> i_x x = p"

lemma split_to_target: "split_to x p q \<Longrightarrow> a \<le> p \<Longrightarrow> p \<le> b \<Longrightarrow> a \<le> q \<Longrightarrow> q \<le> b \<Longrightarrow> target_ok x a b"
  by (auto simp: split_to_def target_ok_def)

lemma jmp_to_target: "jmp_to x p \<Longrightarrow> a \<le> p \<Longrightarrow> p \<le> b \<Longrightarrow> target_ok x a b"
  by (auto simp: jmp_to_def target_ok_def)

lemma split_pstep: "a < length P \<Longrightarrow> split_to (P ! a) p q \<Longrightarrow>
    pstep n ok P a i vs r j \<longleftrightarrow> span_eps i vs j \<and> (r = p \<or> r = q)"
  by (auto simp: split_to_def pstep_op)

lemma jmp_pstep: "a < length P \<Longrightarrow> jmp_to (P ! a) p \<Longrightarrow>
    pstep n ok P a i vs r j \<longleftrightarrow> span_eps i vs j \<and> r = p"
  by (auto simp: jmp_to_def pstep_op)

text \<open>Runs from a split or a jump.\<close>

lemma split_steps:
  assumes "a < length P" "split_to (P ! a) p q" "r \<in> {p, q}" "steps n ok P k r i vs s j"
  shows "steps n ok P (Suc k) a i vs s j"
  using steps_Suc [of n ok P a i "[]" r i k vs s j] assms by (auto simp: split_pstep span_eps_def)

lemma jmp_steps:
  assumes "a < length P" "jmp_to (P ! a) p" "steps n ok P k p i vs s j"
  shows "steps n ok P (Suc k) a i vs s j"
  using steps_Suc [of n ok P a i "[]" p i k vs s j] assms by (auto simp: jmp_pstep span_eps_def)

lemma split_exit:
  assumes "a < length P" "split_to (P ! a) p q" "steps n ok P k a i vs s j" "s \<noteq> a"
  obtains m r where "k = Suc m" "r \<in> {p, q}" "steps n ok P m r i vs s j"
  using assms(3)
proof cases
  case (steps_Suc us pc' i' m ws)
  then show thesis using that [of m pc'] assms(1,2) by (auto simp: split_pstep span_eps_def)
qed (use assms(4) in simp)

lemma jmp_exit:
  assumes "a < length P" "jmp_to (P ! a) p" "steps n ok P k a i vs s j" "s \<noteq> a"
  obtains m where "k = Suc m" "steps n ok P m p i vs s j"
  using assms(3)
proof cases
  case (steps_Suc us pc' i' m ws)
  then show thesis using that [of m] assms(1,2) by (auto simp: jmp_pstep span_eps_def)
qed (use assms(4) in simp)

text \<open>One alternative and the rest: split, first alternative, jump to the end, the others.\<close>

lemma frag_alt:
  assumes P: "split_to (P ! a) (Suc a) (Suc b)" "jmp_to (P ! b) c"
    and R: "frag n ok P (Suc a) b R" and S: "frag n ok P (Suc b) c S"
  shows "frag n ok P a c (\<lambda>i vs j. R i vs j \<or> S i vs j)"
proof (rule fragI)
  have l: "Suc a \<le> b" "Suc b \<le> c" "c \<le> length P"
    using frag_code [OF R] frag_code [OF S] by (auto simp: code_in_def)
  have lt: "a < length P" "b < length P" using l by auto
  show "code_in P a c"
  proof (rule code_inI)
    fix k
    assume "a \<le> k" "k < c"
    then consider "k = a" | "Suc a \<le> k" "k < b" | "k = b" | "Suc b \<le> k" using l by linarith
    then show "target_ok (P ! k) a c \<or> (\<exists>x y. code_in P x y \<and> a \<le> x \<and> y \<le> c \<and> x \<le> k \<and> k < y)"
    proof cases
      case 1
      then show ?thesis using split_to_target [OF P(1)] l by simp
    next
      case 2
      then show ?thesis using frag_code [OF R] l by (intro disjI2 exI [of _ "Suc a"] exI [of _ b]) simp
    next
      case 3
      then show ?thesis using jmp_to_target [OF P(2)] l by simp
    next
      case 4
      then show ?thesis using frag_code [OF S] l \<open>k < c\<close>
        by (intro disjI2 exI [of _ "Suc b"] exI [of _ c]) simp
    qed
  qed (use l in auto)
  show "\<exists>k. steps n ok P k a i vs c j" if "R i vs j \<or> S i vs j" for i vs j
    using that
  proof
    assume "R i vs j"
    then obtain k where "steps n ok P k (Suc a) i vs b j" using frag_run [OF R] by blast
    then have "steps n ok P (Suc k) a i vs b j" using split_steps [OF lt(1) P(1)] by blast
    from steps_append [OF this jmp_steps [OF lt(2) P(2) steps_0]] show ?thesis by auto
  next
    assume "S i vs j"
    then obtain k where "steps n ok P k (Suc b) i vs c j" using frag_run [OF S] by blast
    then show ?thesis using split_steps [OF lt(1) P(1)] by blast
  qed
  fix k i vs q j
  assume k: "steps n ok P k a i vs q j" and q: "\<not> (a \<le> q \<and> q < c)"
  have nq: "q \<noteq> a" "q \<noteq> b" "\<not> (Suc a \<le> q \<and> q < b)" "\<not> (Suc b \<le> q \<and> q < c)" using q l by auto
  obtain m r where r: "k = Suc m" "r \<in> {Suc a, Suc b}" "steps n ok P m r i vs q j"
    by (rule split_exit [OF lt(1) P(1) k nq(1)])
  show "\<exists>m us ws l. m \<le> k \<and> vs = us @ ws \<and> (R i us l \<or> S i us l) \<and> steps n ok P m c l ws q j"
  proof (cases "r = Suc a")
    case True
    obtain m' us ws l where 1: "m' \<le> m" "vs = us @ ws" "R i us l" "steps n ok P m' b l ws q j"
      using frag_exit [OF R r(3) [unfolded True] nq(3)] by blast
    obtain m'' where 2: "m' = Suc m''" "steps n ok P m'' c l ws q j"
      by (rule jmp_exit [OF lt(2) P(2) 1(4) nq(2)])
    show ?thesis
      using 1 2 r(1) by (intro exI [of _ m''] exI [of _ us] exI [of _ ws] exI [of _ l]) simp
  next
    case False
    then have "r = Suc b" using r(2) by simp
    obtain m' us ws l where "m' \<le> m" "vs = us @ ws" "S i us l" "steps n ok P m' c l ws q j"
      using frag_exit [OF S r(3) [unfolded \<open>r = Suc b\<close>] nq(4)] by blast
    then show ?thesis
      using r(1) by (intro exI [of _ m'] exI [of _ us] exI [of _ ws] exI [of _ l]) simp
  qed
qed

text \<open>An optional repetition: split between the body followed by the rest, and the exit.\<close>

lemma frag_opt:
  assumes P: "split_to (P ! a) (Suc a) c" and R: "frag n ok P (Suc a) b R" and S: "frag n ok P b c S"
  shows "frag n ok P a c (\<lambda>i vs j. span_eps i vs j \<or> span_seq R S i vs j)"
proof -
  note RS = frag_seq [OF R S]
  have l: "Suc a \<le> c" "c \<le> length P" using frag_code [OF RS] by (auto simp: code_in_def)
  have lt: "a < length P" using l by auto
  show ?thesis
  proof (rule fragI)
    show "code_in P a c"
    proof (rule code_inI)
      fix k
      assume "a \<le> k" "k < c"
      then show "target_ok (P ! k) a c \<or> (\<exists>x y. code_in P x y \<and> a \<le> x \<and> y \<le> c \<and> x \<le> k \<and> k < y)"
        using split_to_target [OF P, of a c] frag_code [OF RS] l not_less_eq_eq [of k a]
        by (cases "k = a") (simp, metis le_SucI le_antisym not_less_eq_eq order_refl)
    qed (use l in auto)
    show "\<exists>k. steps n ok P k a i vs c j" if "span_eps i vs j \<or> span_seq R S i vs j" for i vs j
      using that
    proof
      assume "span_eps i vs j"
      then show ?thesis
        using split_steps [OF lt P _ steps_0, of c n ok i] by (auto simp: span_eps_def)
    next
      assume "span_seq R S i vs j"
      then show ?thesis using frag_run [OF RS] split_steps [OF lt P] by blast
    qed
    fix k i vs q j
    assume k: "steps n ok P k a i vs q j" and q: "\<not> (a \<le> q \<and> q < c)"
    have nq: "q \<noteq> a" "\<not> (Suc a \<le> q \<and> q < c)" using q l by auto
    obtain m r where r: "k = Suc m" "r \<in> {Suc a, c}" "steps n ok P m r i vs q j"
      by (rule split_exit [OF lt P k nq(1)])
    show "\<exists>m us ws l. m \<le> k \<and> vs = us @ ws \<and> (span_eps i us l \<or> span_seq R S i us l) \<and> steps n ok P m c l ws q j"
    proof (cases "r = c")
      case True
      then show ?thesis
        using r by (intro exI [of _ m] exI [of _ "[]"] exI [of _ vs] exI [of _ i]) (simp add: span_eps_def)
    next
      case False
      then have "r = Suc a" using r(2) by simp
      obtain m' us ws l where "m' \<le> m" "vs = us @ ws" "span_seq R S i us l" "steps n ok P m' c l ws q j"
        using frag_exit [OF RS r(3) [unfolded \<open>r = Suc a\<close>] nq(2)] by blast
      then show ?thesis
        using r(1) by (intro exI [of _ m'] exI [of _ us] exI [of _ ws] exI [of _ l]) simp
    qed
  qed
qed

text \<open>An unbounded repetition: split between the body, which jumps back, and the exit.\<close>

definition span_star :: "span \<Rightarrow> span" where
  "span_star R i vs j \<longleftrightarrow> (\<exists>k. span_pow k R i vs j)"

lemma frag_star:
  assumes P: "split_to (P ! a) (Suc a) (Suc b)" "jmp_to (P ! b) a" "b < length P"
    and R: "frag n ok P (Suc a) b R"
  shows "frag n ok P a (Suc b) (span_star R)"
proof -
  have l: "Suc a \<le> b" using frag_code [OF R] by (auto simp: code_in_def)
  have lt: "a < length P" using l P(3) by auto
  have run: "\<exists>m. steps n ok P m a i vs (Suc b) j" if "span_pow k R i vs j" for k i vs j
    using that
  proof (induction k arbitrary: i vs)
    case 0
    then show ?case
      using split_steps [OF lt P(1) _ steps_0, of "Suc b" n ok i] by (auto simp: span_eps_def)
  next
    case (Suc k)
    then obtain us ws h where u: "vs = us @ ws" "R i us h" "span_pow k R h ws j"
      by (auto simp: span_seq_def)
    obtain m where "steps n ok P m a h ws (Suc b) j" using Suc.IH [OF u(3)] by blast
    then have ret: "steps n ok P (Suc m) b h ws (Suc b) j" by (rule jmp_steps [OF P(3,2)])
    obtain m' where "steps n ok P m' (Suc a) i us b h" using frag_run [OF R u(2)] by blast
    then have "steps n ok P (Suc m') a i us b h" using split_steps [OF lt P(1), of "Suc a"] by simp
    from steps_append [OF this ret] show ?case unfolding u(1) by blast
  qed
  have exit: "\<exists>m us ws h. m \<le> k \<and> vs = us @ ws \<and> span_star R i us h \<and> steps n ok P m (Suc b) h ws q j"
    if "steps n ok P k a i vs q j" "\<not> (a \<le> q \<and> q < Suc b)" for k i vs q j
    using that
  proof (induction k arbitrary: i vs rule: less_induct)
    case (less k)
    have nq: "q \<noteq> a" "q \<noteq> b" "\<not> (Suc a \<le> q \<and> q < b)" using less.prems(2) l by auto
    obtain m r where r: "k = Suc m" "r \<in> {Suc a, Suc b}" "steps n ok P m r i vs q j"
      by (rule split_exit [OF lt P(1) less.prems(1) nq(1)])
    show ?case
    proof (cases "r = Suc b")
      case True
      have "span_star R i [] i" unfolding span_star_def by (intro exI [of _ 0]) (simp add: span_eps_def)
      then show ?thesis
        using r True by (intro exI [of _ m] exI [of _ "[]"] exI [of _ vs] exI [of _ i]) simp
    next
      case False
      then have "r = Suc a" using r(2) by simp
      obtain m' us ws h where 1: "m' \<le> m" "vs = us @ ws" "R i us h" "steps n ok P m' b h ws q j"
        using frag_exit [OF R r(3) [unfolded \<open>r = Suc a\<close>] nq(3)] by blast
      obtain m'' where 2: "m' = Suc m''" "steps n ok P m'' a h ws q j"
        by (rule jmp_exit [OF P(3,2) 1(4) nq(2)])
      have "m'' < k" using 1 2 r(1) by simp
      from less.IH [OF this 2(2) less.prems(2)] obtain m3 us' ws' h' where
        3: "m3 \<le> m''" "ws = us' @ ws'" "span_star R h us' h'" "steps n ok P m3 (Suc b) h' ws' q j"
        by blast
      obtain p where "span_pow p R h us' h'" using 3(3) by (auto simp: span_star_def)
      then have "span_pow (Suc p) R i (us @ us') h'" using 1(3) by (auto simp: span_seq_def)
      then have "span_star R i (us @ us') h'" unfolding span_star_def by blast
      then show ?thesis
        using 1 2 3 r(1) by (intro exI [of _ m3] exI [of _ "us @ us'"] exI [of _ ws'] exI [of _ h']) simp
    qed
  qed
  show ?thesis
  proof (rule fragI)
    show "code_in P a (Suc b)"
    proof (rule code_inI)
      fix k
      assume "a \<le> k" "k < Suc b"
      then consider "k = a" | "Suc a \<le> k" "k < b" | "k = b" using l by linarith
      then show "target_ok (P ! k) a (Suc b) \<or> (\<exists>x y. code_in P x y \<and> a \<le> x \<and> y \<le> Suc b \<and> x \<le> k \<and> k < y)"
      proof cases
        case 2
        then show ?thesis using frag_code [OF R] by (intro disjI2 exI [of _ "Suc a"] exI [of _ b]) simp
      qed (use split_to_target [OF P(1)] jmp_to_target [OF P(2)] l in simp_all)
    qed (use l P(3) in auto)
    show "\<exists>k. steps n ok P k a i vs (Suc b) j" if "span_star R i vs j" for i vs j
      using that run unfolding span_star_def by blast
  qed (rule exit)
qed

section \<open>The contract of a code generator\<close>

text \<open>
  A generator appends a fragment to the code it is given and leaves that code alone; in any
  program that contains the fragment at its place, the fragment implements the relation. The
  size limit of the program is kept.
\<close>

definition agree :: "mrInst list \<Rightarrow> mrInst list \<Rightarrow> nat \<Rightarrow> nat \<Rightarrow> bool" where
  "agree P c a b \<longleftrightarrow> b \<le> length P \<and> (\<forall>k. a \<le> k \<and> k < b \<longrightarrow> P ! k = c ! k)"

definition extends :: "mrInst list \<Rightarrow> mrInst list \<Rightarrow> bool" where
  "extends c c' \<longleftrightarrow> length c \<le> length c' \<and> take (length c) c' = c \<and>
     (length c \<le> mrMaxProgram \<longrightarrow> length c' \<le> mrMaxProgram)"

definition gen_ok :: "nat \<Rightarrow> (nat \<Rightarrow> int \<Rightarrow> bool) \<Rightarrow> code_gen \<Rightarrow> span \<Rightarrow> bool" where
  "gen_ok n ok f R \<longleftrightarrow> (\<forall>c c'. f c = Inr c' \<longrightarrow> extends c c' \<and>
     (\<forall>P. agree P c' (length c) (length c') \<longrightarrow> frag n ok P (length c) (length c') R))"

lemma gen_okD:
  assumes "gen_ok n ok f R" "f c = Inr c'"
  shows "extends c c'" "agree P c' (length c) (length c') \<Longrightarrow> frag n ok P (length c) (length c') R"
  using assms by (simp_all add: gen_ok_def)

lemma extends_refl [simp]: "extends c c"
  by (simp add: extends_def)

lemma extends_trans: "extends a b \<Longrightarrow> extends b c \<Longrightarrow> extends a c"
proof -
  assume e: "extends a b" "extends b c"
  then have "take (length a) (take (length b) c) = take (length a) c"
    unfolding take_take by (simp add: extends_def min_absorb1)
  with e show ?thesis by (auto simp: extends_def)
qed

lemma extends_length: "extends c c' \<Longrightarrow> length c \<le> length c'"
  by (simp add: extends_def)

lemma extends_nth: "extends c c' \<Longrightarrow> k < length c \<Longrightarrow> c' ! k = c ! k"
  by (metis extends_def nth_take)

lemma extends_update: "extends c c' \<Longrightarrow> length c \<le> k \<Longrightarrow> extends c (c'[k := x])"
  by (auto simp: extends_def)

lemma emit_Inr: "emit c x = Inr (c', s) \<longleftrightarrow> length c < mrMaxProgram \<and> c' = c @ [x] \<and> s = length c"
  by (auto simp: emit_def)

lemma extends_emit: "length c < mrMaxProgram \<Longrightarrow> extends c (c @ [x])"
  by (simp add: extends_def)

lemma agree_prefix:
  assumes "agree P c' a b'" "extends c c'" "b \<le> length c" "b \<le> b'" "a \<le> a'"
  shows "agree P c a' b"
  using assms extends_nth [OF assms(2)] by (auto simp: agree_def)

lemma gen_okI:
  assumes "\<And>c c'. f c = Inr c' \<Longrightarrow> extends c c'"
    "\<And>c c' P. f c = Inr c' \<Longrightarrow> agree P c' (length c) (length c') \<Longrightarrow> frag n ok P (length c) (length c') R"
  shows "gen_ok n ok f R"
  using assms by (simp add: gen_ok_def)

lemma gen_ok_emit:
  assumes "\<And>P a i vs q j. a < length P \<Longrightarrow> P ! a = x \<Longrightarrow> pstep n ok P a i vs q j \<longleftrightarrow> R i vs j \<and> q = Suc a"
    "i_op x \<in> {mrOpVar, mrOpStart, mrOpEnd}"
  shows "gen_ok n ok (\<lambda>c. map_sum id fst (emit c x)) R"
proof (rule gen_okI)
  fix c c'
  assume "map_sum id fst (emit c x) = Inr c'"
  then have e: "length c < mrMaxProgram" "c' = c @ [x]" by (auto simp: emit_def split: if_splits)
  then show "extends c c'" by (simp add: extends_emit)
  fix P
  assume "agree P c' (length c) (length c')"
  then have "length c < length P" "P ! length c = x" by (auto simp: agree_def e)
  then show "frag n ok P (length c) (length c') R"
    using frag_instr [of "length c" P n ok R] assms by (auto simp: e target_ok_def)
qed

lemma gen_ok_cat:
  "list_all2 (gen_ok n ok) fs Rs \<Longrightarrow> gen_ok n ok (compile_cat fs) (span_cat Rs)"
proof (induction rule: list_all2_induct)
  case Nil
  show ?case by (rule gen_okI) (auto intro: frag_eps simp: agree_def)
next
  case (Cons f fs R Rs)
  show ?case
  proof (rule gen_okI)
    fix c c'
    assume "compile_cat (f # fs) c = Inr c'"
    then obtain c1 where 1: "f c = Inr c1" and 2: "compile_cat fs c1 = Inr c'"
      by (auto simp: bind_res_Inr_iff)
    note e = gen_okD(1) [OF Cons.hyps(1) 1] gen_okD(1) [OF Cons.IH 2]
    show "extends c c'" by (rule extends_trans [OF e])
    fix P
    assume a: "agree P c' (length c) (length c')"
    have "frag n ok P (length c) (length c1) R"
      using gen_okD(2) [OF Cons.hyps(1) 1] agree_prefix [OF a e(2)] extends_length [OF e(2)] by simp
    moreover have "frag n ok P (length c1) (length c') (span_cat Rs)"
      using gen_okD(2) [OF Cons.IH 2] agree_prefix [OF a, of c'] extends_length [OF e(1)] by simp
    ultimately show "frag n ok P (length c) (length c') (span_cat (R # Rs))"
      by (simp add: frag_seq)
  qed
qed

lemma gen_ok_times: "gen_ok n ok f R \<Longrightarrow> gen_ok n ok (compile_times m f) (span_pow m R)"
proof -
  assume "gen_ok n ok f R"
  then have "gen_ok n ok (compile_cat (replicate m f)) (span_cat (replicate m R))"
    by (intro gen_ok_cat) (simp add: list_all2_conv_all_nth)
  moreover have "compile_times m f c = compile_cat (replicate m f) c" for c
    by (induction m arbitrary: c) (auto simp: bind_res_def split: sum.splits)
  then have "compile_times m f = compile_cat (replicate m f)" ..
  moreover have "span_pow m R = span_cat (replicate m R)" by (induction m) auto
  ultimately show ?thesis by simp
qed

lemma length_patch_jumps [simp]: "length (patch_jumps js c) = length c"
  unfolding patch_jumps_def by (induction js arbitrary: c) auto

lemma nth_patch_jumps:
  "k < length c \<Longrightarrow> patch_jumps js c ! k = (if k \<in> set js then (c ! k)\<lparr>i_x := length c\<rparr> else c ! k)"
  unfolding patch_jumps_def
proof (induction js arbitrary: c)
  case (Cons a js)
  then show ?case by (cases "a = k") simp_all
qed simp

lemma length_patch_splits [simp]: "length (patch_splits r ss c) = length c"
  unfolding patch_splits_def by (induction ss arbitrary: c) (auto simp: setSplit_def)

lemma nth_patch_splits:
  "k < length c \<Longrightarrow> patch_splits r ss c ! k = (if k \<in> set ss
     then (if r then (c ! k)\<lparr>i_x := length c, i_y := k + 1\<rparr> else (c ! k)\<lparr>i_x := k + 1, i_y := length c\<rparr>)
     else c ! k)"
  unfolding patch_splits_def setSplit_def
proof (induction ss arbitrary: c)
  case (Cons a ss)
  then show ?case by (cases "a = k"; cases r) simp_all
qed simp

text \<open>
  The loop of an alternation: its jumps are not pointed anywhere yet, so its contract speaks of
  programs in which they lead to the end.
\<close>

definition alt_ok :: "nat \<Rightarrow> (nat \<Rightarrow> int \<Rightarrow> bool) \<Rightarrow> nat list \<Rightarrow> mrInst list \<Rightarrow> mrInst list \<Rightarrow> span \<Rightarrow> bool" where
  "alt_ok n ok js c c' R \<longleftrightarrow> extends c c' \<and>
    (\<forall>j \<in> set js. length c \<le> j \<and> j < length c' \<and> i_op (c' ! j) = mrOpJmp) \<and>
    (\<forall>P. length c' \<le> length P \<longrightarrow>
      (\<forall>k. length c \<le> k \<and> k < length c' \<and> k \<notin> set js \<longrightarrow> P ! k = c' ! k) \<longrightarrow>
      (\<forall>j \<in> set js. jmp_to (P ! j) (length c')) \<longrightarrow>
      frag n ok P (length c) (length c') R)"

lemma alt_ok_Nil: "alt_ok n ok [] c c span_eps"
  by (auto simp: alt_ok_def intro: frag_eps)

lemma alt_ok_single: "gen_ok n ok f R \<Longrightarrow> f c = Inr c' \<Longrightarrow> alt_ok n ok [] c c' R"
  using gen_okD [of n ok f R c c'] by (auto simp: alt_ok_def agree_def)

lemma alt_ok_Cons:
  fixes c c2 c3 c' :: "mrInst list"
  defines "a \<equiv> length c" and "b \<equiv> length c2"
  assumes a: "a < mrMaxProgram" and f: "gen_ok n ok f R" "f (c @ [sp]) = Inr c2" and b: "b < mrMaxProgram"
    and sp: "i_op sp = mrOpSplit" "i_x sp = Suc a"
    and c3: "c3 = (c2 @ [inst mrOpJmp])[a := sp\<lparr>i_y := Suc b\<rparr>]"
    and rest: "alt_ok n ok js c3 c' S"
  shows "alt_ok n ok (b # js) c c' (\<lambda>i vs j. R i vs j \<or> S i vs j)"
proof -
  note e2 = gen_okD(1) [OF f]
  have ab: "Suc a \<le> b" "c2 ! a = sp" using extends_length [OF e2] extends_nth [OF e2, of a]
    by (auto simp: a_def b_def)
  have l3: "length c3 = Suc b" by (simp add: c3 b_def)
  have n3: "c3 ! a = sp\<lparr>i_y := Suc b\<rparr>" "c3 ! b = inst mrOpJmp"
    "\<And>k. Suc a \<le> k \<Longrightarrow> k < b \<Longrightarrow> c3 ! k = c2 ! k"
    using ab by (auto simp: c3 b_def nth_append)
  have e3: "extends c3 c'" and js: "\<And>j. j \<in> set js \<Longrightarrow> Suc b \<le> j \<and> j < length c' \<and> i_op (c' ! j) = mrOpJmp"
    using rest by (auto simp: alt_ok_def l3)
  have "extends c (c2 @ [inst mrOpJmp])"
    using extends_trans [OF extends_trans [OF extends_emit e2] extends_emit] a b by (simp add: a_def b_def)
  then have "extends c c3" unfolding c3 by (rule extends_update) (simp add: a_def)
  then have e: "extends c c'" by (rule extends_trans [OF _ e3])
  have len: "Suc b \<le> length c'" using extends_length [OF e3] by (simp add: l3)
  have frag: "frag n ok P a (length c') (\<lambda>i vs j. R i vs j \<or> S i vs j)"
    if P: "length c' \<le> length P" "\<forall>k. a \<le> k \<and> k < length c' \<and> k \<notin> set (b # js) \<longrightarrow> P ! k = c' ! k"
      "\<forall>j \<in> set (b # js). jmp_to (P ! j) (length c')" for P
  proof (rule frag_alt)
    have eq: "P ! k = c3 ! k" if "a \<le> k" "k < b" for k
    proof -
      have "k \<notin> set (b # js)" using js that by force
      then show ?thesis using P(2) that len extends_nth [OF e3, of k] by (simp add: l3)
    qed
    show "split_to (P ! a) (Suc a) (Suc b)"
      using eq [of a] ab n3(1) sp by (simp add: split_to_def)
    show "jmp_to (P ! b) (length c')" using P(3) by simp
    have "agree P c2 (Suc a) b"
      using eq n3(3) P(1) len by (auto simp: agree_def)
    then show "frag n ok P (Suc a) b R"
      using gen_okD(2) [OF f, of P] by (simp add: a_def b_def)
    show "frag n ok P (Suc b) (length c') S"
      using rest P ab by (simp add: alt_ok_def l3)
  qed
  have js': "j \<in> set js \<Longrightarrow> a \<le> j" for j using js [of j] ab by linarith
  show ?thesis
    unfolding alt_ok_def a_def [symmetric]
    using e js js' frag ab len extends_nth [OF e3, of b] n3(2) l3
    by (auto simp: inst_def)
qed

lemma compile_alt_ok:
  assumes "list_all2 (gen_ok n ok) fs Rs" "compile_alt fs c jumps = Inr (c', jumps')"
  shows "\<exists>js. jumps' = jumps @ js \<and> alt_ok n ok js c c' (span_alt Rs)"
  using assms
proof (induction fs arbitrary: Rs c jumps)
  case Nil
  moreover have "span_alt [] = span_eps" by (intro ext) (simp add: span_alt_def)
  ultimately show ?case by (auto simp: alt_ok_Nil)
next
  case (Cons f fs)
  obtain R Rs' where R: "Rs = R # Rs'" "gen_ok n ok f R" "list_all2 (gen_ok n ok) fs Rs'"
    using Cons.prems(1) by (auto simp: list_all2_Cons1)
  show ?case
  proof (cases fs)
    case Nil
    then have f: "f c = Inr c'" "jumps' = jumps" using Cons.prems(2) by (auto simp: bind_res_Inr_iff)
    have "span_alt [R] = R" by (intro ext) (simp add: span_alt_def)
    then show ?thesis using alt_ok_single [OF R(2) f(1)] R Nil by (auto simp: f(2))
  next
    case (Cons g gs)
    let ?a = "length c" and ?sp = "(inst mrOpSplit)\<lparr>i_x := Suc (length c)\<rparr>"
    obtain c2 where a: "?a < mrMaxProgram" and f: "f (c @ [?sp]) = Inr c2" and b: "length c2 < mrMaxProgram"
      and rest: "compile_alt fs ((c2 @ [inst mrOpJmp])[?a := ((c2 @ [inst mrOpJmp]) ! ?a)\<lparr>i_y := Suc (length c2)\<rparr>])
        (jumps @ [length c2]) = Inr (c', jumps')"
      using \<open>compile_alt (f # fs) c jumps = Inr (c', jumps')\<close>
      by (auto simp: Cons bind_res_Inr_iff emit_Inr split: prod.splits)
    note e2 = gen_okD(1) [OF R(2) f]
    have "(c2 @ [inst mrOpJmp]) ! ?a = ?sp"
      using extends_length [OF e2] extends_nth [OF e2, of ?a] by (simp add: nth_append)
    from Cons.IH [OF R(3) rest [unfolded this]] obtain js where js: "jumps' = (jumps @ [length c2]) @ js"
      "alt_ok n ok js ((c2 @ [inst mrOpJmp])[?a := ?sp\<lparr>i_y := Suc (length c2)\<rparr>]) c' (span_alt Rs')" by blast
    have "alt_ok n ok (length c2 # js) c c' (\<lambda>i vs j. R i vs j \<or> span_alt Rs' i vs j)"
      by (rule alt_ok_Cons [OF a R(2) f b _ _ refl js(2)]) (simp_all add: inst_def)
    moreover have "(\<lambda>i vs j. R i vs j \<or> span_alt Rs' i vs j) = span_alt Rs"
      using R(3) Cons by (intro ext) (auto simp: span_alt_def R(1))
    ultimately show ?thesis using js(1) by auto
  qed
qed

lemma gen_ok_alt:
  assumes "list_all2 (gen_ok n ok) fs Rs"
  shows "gen_ok n ok (\<lambda>c. bind_res (compile_alt fs c []) (\<lambda>(c', jumps). Inr (patch_jumps jumps c'))) (span_alt Rs)"
proof (rule gen_okI)
  fix c c'
  assume "bind_res (compile_alt fs c []) (\<lambda>(c', jumps). Inr (patch_jumps jumps c')) = Inr c'"
  then obtain c1 js where c1: "compile_alt fs c [] = Inr (c1, js)" "c' = patch_jumps js c1"
    by (auto simp: bind_res_Inr_iff)
  then have ok: "alt_ok n ok js c c1 (span_alt Rs)" using compile_alt_ok [OF assms c1(1)] by simp
  then have e: "extends c c1" and js: "\<And>j. j \<in> set js \<Longrightarrow> length c \<le> j \<and> j < length c1 \<and> i_op (c1 ! j) = mrOpJmp"
    by (auto simp: alt_ok_def)
  have "take (length c) c' = c"
  proof (rule nth_equalityI)
    fix k
    assume "k < length (take (length c) c')"
    then have k: "k < length c" "k < length c1" using extends_length [OF e] by (auto simp: c1(2))
    then have "k \<notin> set js" using js by force
    then show "take (length c) c' ! k = c ! k"
      using k extends_nth [OF e k(1)] by (simp add: c1(2) nth_patch_jumps)
  qed (use extends_length [OF e] in \<open>simp add: c1(2)\<close>)
  then show "extends c c'" using e by (simp add: extends_def c1(2))
  fix P
  assume a: "agree P c' (length c) (length c')"
  have P: "P ! k = c' ! k" if "length c \<le> k" "k < length c1" for k
    using a that by (simp add: agree_def c1(2))
  have "\<forall>j \<in> set js. jmp_to (P ! j) (length c1)"
    using P js by (simp add: c1(2) nth_patch_jumps jmp_to_def)
  moreover have "\<forall>k. length c \<le> k \<and> k < length c1 \<and> k \<notin> set js \<longrightarrow> P ! k = c1 ! k"
    using P by (simp add: c1(2) nth_patch_jumps)
  moreover have "length c1 \<le> length P" using a by (simp add: agree_def c1(2))
  ultimately show "frag n ok P (length c) (length c') (span_alt Rs)"
    using ok by (simp add: alt_ok_def c1(2))
qed

text \<open>The loop of the optional repetitions, with the same treatment of its splits.\<close>

definition opts_ok :: "nat \<Rightarrow> (nat \<Rightarrow> int \<Rightarrow> bool) \<Rightarrow> nat list \<Rightarrow> mrInst list \<Rightarrow> mrInst list \<Rightarrow> span \<Rightarrow> bool" where
  "opts_ok n ok ss c c' R \<longleftrightarrow> extends c c' \<and>
    (\<forall>s \<in> set ss. length c \<le> s \<and> s < length c' \<and> i_op (c' ! s) = mrOpSplit) \<and>
    (\<forall>P. length c' \<le> length P \<longrightarrow>
      (\<forall>k. length c \<le> k \<and> k < length c' \<and> k \<notin> set ss \<longrightarrow> P ! k = c' ! k) \<longrightarrow>
      (\<forall>s \<in> set ss. split_to (P ! s) (Suc s) (length c')) \<longrightarrow>
      frag n ok P (length c) (length c') R)"

definition span_upto :: "nat \<Rightarrow> span \<Rightarrow> span" where
  "span_upto m R i vs j \<longleftrightarrow> (\<exists>p \<le> m. span_pow p R i vs j)"

lemma span_upto_0: "span_upto 0 R = span_eps"
  by (intro ext) (simp add: span_upto_def)

lemma span_upto_Suc: "span_upto (Suc m) R = (\<lambda>i vs j. span_eps i vs j \<or> span_seq R (span_upto m R) i vs j)"
proof (intro ext iffI)
  fix i vs j
  assume "span_upto (Suc m) R i vs j"
  then obtain p where "p \<le> Suc m" "span_pow p R i vs j" by (auto simp: span_upto_def)
  then show "span_eps i vs j \<or> span_seq R (span_upto m R) i vs j"
    by (cases p) (auto simp: span_upto_def span_seq_def)
next
  fix i vs j
  assume "span_eps i vs j \<or> span_seq R (span_upto m R) i vs j"
  then show "span_upto (Suc m) R i vs j"
  proof
    assume "span_eps i vs j"
    then show ?thesis unfolding span_upto_def by (intro exI [of _ 0]) simp
  next
    assume "span_seq R (span_upto m R) i vs j"
    then obtain us ws k p where "vs = us @ ws" "R i us k" "p \<le> m" "span_pow p R k ws j"
      by (auto simp: span_seq_def span_upto_def)
    then show ?thesis
      unfolding span_upto_def by (intro exI [of _ "Suc p"]) (auto simp: span_seq_def)
  qed
qed

lemma opts_ok_Cons:
  fixes c c2 c' :: "mrInst list"
  assumes a: "length c < mrMaxProgram" and f: "gen_ok n ok f R" "f (c @ [inst mrOpSplit]) = Inr c2"
    and rest: "opts_ok n ok ss c2 c' S"
  shows "opts_ok n ok (length c # ss) c c' (\<lambda>i vs j. span_eps i vs j \<or> span_seq R S i vs j)"
proof -
  let ?a = "length c"
  note e2 = gen_okD(1) [OF f]
  have ab: "Suc ?a \<le> length c2" "c2 ! ?a = inst mrOpSplit"
    using extends_length [OF e2] extends_nth [OF e2, of ?a] by auto
  have e3: "extends c2 c'"
    and ss: "\<And>s. s \<in> set ss \<Longrightarrow> length c2 \<le> s \<and> s < length c' \<and> i_op (c' ! s) = mrOpSplit"
    using rest by (auto simp: opts_ok_def)
  have e: "extends c c'" using extends_trans [OF extends_trans [OF extends_emit [OF a] e2] e3] .
  have frag: "frag n ok P ?a (length c') (\<lambda>i vs j. span_eps i vs j \<or> span_seq R S i vs j)"
    if P: "length c' \<le> length P" "\<forall>k. ?a \<le> k \<and> k < length c' \<and> k \<notin> set (?a # ss) \<longrightarrow> P ! k = c' ! k"
      "\<forall>s \<in> set (?a # ss). split_to (P ! s) (Suc s) (length c')" for P
  proof (rule frag_opt)
    show "split_to (P ! ?a) (Suc ?a) (length c')" using P(3) by simp
    have "P ! k = c2 ! k" if "Suc ?a \<le> k" "k < length c2" for k
    proof -
      have "k \<notin> set (?a # ss)" using ss that by force
      then show ?thesis
        using P(2) that extends_length [OF e3] extends_nth [OF e3, of k] by simp
    qed
    then have "agree P c2 (Suc ?a) (length c2)"
      using P(1) extends_length [OF e3] by (simp add: agree_def)
    then show "frag n ok P (Suc ?a) (length c2) R" using gen_okD(2) [OF f, of P] by simp
    show "frag n ok P (length c2) (length c') S" using rest P ab by (simp add: opts_ok_def)
  qed
  have ss': "s \<in> set ss \<Longrightarrow> ?a \<le> s" for s using ss [of s] ab by linarith
  show ?thesis
    unfolding opts_ok_def
    using e ss ss' frag ab extends_length [OF e3] extends_nth [OF e3, of ?a]
    by (auto simp: inst_def)
qed

lemma compile_opts_ok:
  assumes "gen_ok n ok f R" "compile_opts m f c splits = Inr (c', splits')"
  shows "\<exists>ss. splits' = splits @ ss \<and> opts_ok n ok ss c c' (span_upto m R)"
  using assms(2)
proof (induction m arbitrary: c splits)
  case 0
  then show ?case by (auto simp: span_upto_0 opts_ok_def intro: frag_eps)
next
  case (Suc m)
  then obtain c2 where a: "length c < mrMaxProgram" and f: "f (c @ [inst mrOpSplit]) = Inr c2"
    and rest: "compile_opts m f c2 (splits @ [length c]) = Inr (c', splits')"
    by (auto simp: bind_res_Inr_iff emit_Inr split: prod.splits)
  from Suc.IH [OF rest] obtain ss where ss: "splits' = (splits @ [length c]) @ ss"
    "opts_ok n ok ss c2 c' (span_upto m R)" by blast
  show ?case
    using opts_ok_Cons [OF a assms(1) f ss(2)] ss(1) by (auto simp: span_upto_Suc)
qed

lemma gen_ok_upto:
  assumes "gen_ok n ok f R"
  shows "gen_ok n ok (\<lambda>c. bind_res (compile_opts m f c []) (\<lambda>(c', splits). Inr (patch_splits r splits c'))) (span_upto m R)"
proof (rule gen_okI)
  fix c c'
  assume "bind_res (compile_opts m f c []) (\<lambda>(c', splits). Inr (patch_splits r splits c')) = Inr c'"
  then obtain c1 ss where c1: "compile_opts m f c [] = Inr (c1, ss)" "c' = patch_splits r ss c1"
    by (auto simp: bind_res_Inr_iff)
  then have ok: "opts_ok n ok ss c c1 (span_upto m R)" using compile_opts_ok [OF assms c1(1)] by simp
  then have e: "extends c c1"
    and ss: "\<And>s. s \<in> set ss \<Longrightarrow> length c \<le> s \<and> s < length c1 \<and> i_op (c1 ! s) = mrOpSplit"
    by (auto simp: opts_ok_def)
  have "take (length c) c' = c"
  proof (rule nth_equalityI)
    fix k
    assume "k < length (take (length c) c')"
    then have k: "k < length c" "k < length c1" using extends_length [OF e] by (auto simp: c1(2))
    then have "k \<notin> set ss" using ss by force
    then show "take (length c) c' ! k = c ! k"
      using k extends_nth [OF e k(1)] by (simp add: c1(2) nth_patch_splits)
  qed (use extends_length [OF e] in \<open>simp add: c1(2)\<close>)
  then show "extends c c'" using e by (simp add: extends_def c1(2))
  fix P
  assume a: "agree P c' (length c) (length c')"
  have P: "P ! k = c' ! k" if "length c \<le> k" "k < length c1" for k
    using a that by (simp add: agree_def c1(2))
  have "\<forall>s \<in> set ss. split_to (P ! s) (Suc s) (length c1)"
    using P ss by (simp add: c1(2) nth_patch_splits split_to_def)
  moreover have "\<forall>k. length c \<le> k \<and> k < length c1 \<and> k \<notin> set ss \<longrightarrow> P ! k = c1 ! k"
    using P by (simp add: c1(2) nth_patch_splits)
  moreover have "length c1 \<le> length P" using a by (simp add: agree_def c1(2))
  ultimately show "frag n ok P (length c) (length c') (span_upto m R)"
    using ok by (simp add: opts_ok_def c1(2))
qed

lemma gen_ok_star:
  assumes f: "gen_ok n ok f R"
  shows "gen_ok n ok (\<lambda>c1. bind_res (emit c1 (inst mrOpSplit)) (\<lambda>(c2, loop).
    bind_res (f c2) (\<lambda>c3. bind_res (emit c3 ((inst mrOpJmp)\<lparr>i_x := loop\<rparr>)) (\<lambda>(c4, _).
      Inr (setSplit c4 loop (loop + 1) (length c4) r))))) (span_star R)"
proof (rule gen_okI)
  fix c c' :: "mrInst list"
  let ?a = "length c" and ?j = "(inst mrOpJmp)\<lparr>i_x := length c\<rparr>"
  assume "bind_res (emit c (inst mrOpSplit)) (\<lambda>(c2, loop).
    bind_res (f c2) (\<lambda>c3. bind_res (emit c3 ((inst mrOpJmp)\<lparr>i_x := loop\<rparr>)) (\<lambda>(c4, _).
      Inr (setSplit c4 loop (loop + 1) (length c4) r)))) = Inr c'"
  then obtain c3 where a: "?a < mrMaxProgram" "f (c @ [inst mrOpSplit]) = Inr c3" "length c3 < mrMaxProgram"
    and c': "c' = setSplit (c3 @ [?j]) ?a (Suc ?a) (Suc (length c3)) r"
    by (auto simp: bind_res_Inr_iff emit_Inr)
  let ?b = "length c3"
  note e3 = gen_okD(1) [OF f a(2)]
  have ab: "Suc ?a \<le> ?b" "c3 ! ?a = inst mrOpSplit"
    using extends_length [OF e3] extends_nth [OF e3, of ?a] by auto
  have "extends c (c3 @ [?j])"
    using extends_trans [OF extends_trans [OF extends_emit [OF a(1)] e3] extends_emit [OF a(3)]] .
  then show e: "extends c c'" by (auto simp: c' setSplit_def intro: extends_update)
  have n': "length c' = Suc ?b" "split_to (c' ! ?a) (Suc ?a) (Suc ?b)" "c' ! ?b = ?j"
    "\<And>k. Suc ?a \<le> k \<Longrightarrow> k < ?b \<Longrightarrow> c' ! k = c3 ! k"
    using ab by (auto simp: c' setSplit_def split_to_def inst_def nth_append)
  fix P
  assume P: "agree P c' ?a (length c')"
  then have eq: "P ! k = c' ! k" if "?a \<le> k" "k < Suc ?b" for k using that by (simp add: agree_def n')
  have "frag n ok P (Suc ?a) ?b R"
    using gen_okD(2) [OF f a(2), of P] eq n'(4) P by (simp add: agree_def n'(1))
  then have "frag n ok P ?a (Suc ?b) (span_star R)"
    using eq [of ?a] eq [of ?b] ab n' P by (intro frag_star) (auto simp: jmp_to_def inst_def agree_def)
  then show "frag n ok P ?a (length c') (span_star R)" by (simp add: n')
qed

lemma gen_ok_bind:
  assumes "gen_ok n ok f R" "gen_ok n ok g S"
  shows "gen_ok n ok (\<lambda>c. bind_res (f c) g) (span_seq R S)"
proof -
  have "gen_ok n ok (compile_cat [f, g]) (span_cat [R, S])"
    by (rule gen_ok_cat) (simp add: assms)
  moreover have "compile_cat [f, g] = (\<lambda>c. bind_res (f c) g)"
    by (intro ext) (auto simp: bind_res_def split: sum.splits)
  moreover have "span_cat [R, S] = span_seq R S"
    by (intro ext) (auto simp: span_seq_def span_eps_def)
  ultimately show ?thesis by simp
qed

lemma span_seq_eps [simp]: "span_seq span_eps R = R"
  by (intro ext) (auto simp: span_seq_def span_eps_def)

lemma span_seq_assoc: "span_seq (span_seq R S) T = span_seq R (span_seq S T)"
  by (intro ext) (auto simp: span_seq_def, metis append.assoc, metis append.assoc)

lemma span_pow_add: "span_seq (span_pow a R) (span_pow b R) = span_pow (a + b) R"
  by (induction a) (simp_all add: span_seq_assoc)

lemma span_seq_star: "span_seq (span_pow l R) (span_star R) i vs j \<longleftrightarrow> (\<exists>k \<ge> l. span_pow k R i vs j)"
proof -
  have "span_seq (span_pow l R) (span_star R) i vs j \<longleftrightarrow> (\<exists>b. span_seq (span_pow l R) (span_pow b R) i vs j)"
    by (auto simp: span_seq_def span_star_def)
  also have "\<dots> \<longleftrightarrow> (\<exists>k \<ge> l. span_pow k R i vs j)"
    unfolding span_pow_add by (metis le_add1 le_Suc_ex)
  finally show ?thesis .
qed

lemma span_seq_upto: "l \<le> h \<Longrightarrow>
    span_seq (span_pow l R) (span_upto (h - l) R) i vs j \<longleftrightarrow> (\<exists>k. l \<le> k \<and> k \<le> h \<and> span_pow k R i vs j)"
proof -
  assume "l \<le> h"
  have "span_seq (span_pow l R) (span_upto (h - l) R) i vs j \<longleftrightarrow>
      (\<exists>b \<le> h - l. span_seq (span_pow l R) (span_pow b R) i vs j)"
    by (auto simp: span_seq_def span_upto_def)
  also have "\<dots> \<longleftrightarrow> (\<exists>k. l \<le> k \<and> k \<le> h \<and> span_pow k R i vs j)"
  proof
    assume "\<exists>b \<le> h - l. span_seq (span_pow l R) (span_pow b R) i vs j"
    then obtain b where "b \<le> h - l" "span_pow (l + b) R i vs j" by (auto simp: span_pow_add)
    then show "\<exists>k. l \<le> k \<and> k \<le> h \<and> span_pow k R i vs j"
      using \<open>l \<le> h\<close> by (intro exI [of _ "l + b"]) auto
  next
    assume "\<exists>k. l \<le> k \<and> k \<le> h \<and> span_pow k R i vs j"
    then obtain k where "l \<le> k" "k \<le> h" "span_pow k R i vs j" by blast
    then show "\<exists>b \<le> h - l. span_seq (span_pow l R) (span_pow b R) i vs j"
      by (intro exI [of _ "k - l"]) (auto simp: span_pow_add)
  qed
  finally show ?thesis .
qed

lemma boundValue_nonneg: "boundValue bounds k = Inr (x, b) \<Longrightarrow> 0 \<le> x"
  by (auto simp: boundValue_def split: if_splits option.splits sum.splits)

lemma gen_ok_quant:
  assumes "list_all2 (gen_ok n ok) fs Rs"
  shows "gen_ok n ok (compile_quant bounds lo hi r fs) (span_quant bounds lo hi Rs)"
proof (rule gen_okI)
  fix c c'
  assume q: "compile_quant bounds lo hi r fs c = Inr c'"
  obtain l b where l: "boundValue bounds lo = Inr (l, b)"
    using q by (auto simp: compile_quant_def bind_res_Inr_iff)
  obtain h hasHi where h: "boundValue bounds hi = Inr (h, hasHi)"
    using q by (auto simp: compile_quant_def bind_res_Inr_iff)
  obtain f fs' where fs: "fs = f # fs'"
    using q by (cases fs) (auto simp: compile_quant_def l h split: if_splits)
  then obtain R Rs' where R: "Rs = R # Rs'" "gen_ok n ok f R"
    using assms by (auto simp: list_all2_Cons1)
  have lh: "\<not> (hasHi \<and> h < l)" "0 \<le> l" "0 \<le> h"
    using q boundValue_nonneg [OF l] boundValue_nonneg [OF h]
    by (auto simp: compile_quant_def l h split: if_splits)
  define g where "g = (\<lambda>c1. if \<not> hasHi then
             bind_res (emit c1 (inst mrOpSplit)) (\<lambda>(c2, loop).
             bind_res (f c2) (\<lambda>c3.
             bind_res (emit c3 ((inst mrOpJmp)\<lparr>i_x := loop\<rparr>)) (\<lambda>(c4, _).
               Inr (setSplit c4 loop (loop + 1) (length c4) r))))
           else bind_res (compile_opts (nat (h - l)) f c1 []) (\<lambda>(c2, splits). Inr (patch_splits r splits c2)))"
  have c': "bind_res (compile_times (nat l) f c) g = Inr c'"
    using q by (simp add: compile_quant_def l h fs g_def split: if_splits)
  have g: "gen_ok n ok g (if hasHi then span_upto (nat (h - l)) R else span_star R)"
    unfolding g_def using gen_ok_star [OF R(2)] gen_ok_upto [OF R(2)] by simp
  have S: "span_seq (span_pow (nat l) R) (if hasHi then span_upto (nat (h - l)) R else span_star R)
      = span_quant bounds lo hi Rs"
  proof (intro ext)
    fix i vs j
    have "nat (h - l) = nat h - nat l" "hasHi \<longrightarrow> nat l \<le> nat h" using lh by auto
    then show "span_seq (span_pow (nat l) R) (if hasHi then span_upto (nat (h - l)) R else span_star R) i vs j
      \<longleftrightarrow> span_quant bounds lo hi Rs i vs j"
      by (auto simp: span_quant_def l h R(1) span_seq_star span_seq_upto nat_le_iff le_nat_iff lh)
  qed
  note ok = gen_ok_bind [OF gen_ok_times [OF R(2), of "nat l"] g, unfolded S]
  show "extends c c'" by (rule gen_okD(1) [OF ok c'])
  show "\<And>P. agree P c' (length c) (length c') \<Longrightarrow> frag n ok P (length c) (length c') (span_quant bounds lo hi Rs)"
    by (rule gen_okD(2) [OF ok c'])
qed

text \<open>The contract holds for the code of every pattern.\<close>

lemma compile_ok: "gen_ok n ok (compile bounds p) (pmatch n ok bounds p)"
proof (induction p)
  case (PVar v)
  show ?case unfolding compile.simps pmatch.simps
    by (rule gen_ok_emit) (auto simp: pstep_op inst_def)
next
  case PEmpty
  show ?case unfolding compile.simps pmatch.simps
    by (rule gen_okI) (auto intro: frag_eps simp: agree_def)
next
  case PStart
  show ?case unfolding compile.simps pmatch.simps
    by (rule gen_ok_emit) (auto simp: pstep_op inst_def)
next
  case PEnd
  show ?case unfolding compile.simps pmatch.simps
    by (rule gen_ok_emit) (auto simp: pstep_op inst_def)
next
  case (PCat cs)
  then show ?case unfolding compile.simps pmatch.simps
    by (intro gen_ok_cat) (simp add: list_all2_conv_all_nth)
next
  case (PAlt cs)
  then show ?case unfolding compile.simps pmatch.simps
    by (intro gen_ok_alt) (simp add: list_all2_conv_all_nth)
next
  case (PQuant lo hi r cs)
  then show ?case unfolding compile.simps pmatch.simps
    by (intro gen_ok_quant) (simp_all add: list_all2_conv_all_nth)
next
  case (PUnknown t)
  show ?case unfolding compile.simps by (rule gen_okI) simp_all
qed

end
