(* ===== verification/MR_Machine.thy ===== *)
theory MR_Machine
  imports MR_Fragments "HOL-Library.Word"
begin

text \<open>
  The runtime of MATCH_RECOGNIZE (\<open>internal/match_recognize.go\<close>): a Pike virtual machine
  that runs the compiled pattern from every start row, the loop that assigns match numbers and
  classifiers to the rows, and the window-function state around it.

  \<open>visited\<close> marks are \<open>uint32\<close> generation numbers that wrap around. A path is the list
  of classified variables, newest first. \<open>None\<close> is a run-time panic: an index out of range, a
  negative slice length or a nil path.
\<close>

section \<open>The virtual machine\<close>

type_synonym mrPath = "int list"
type_synonym mrThread = "nat \<times> mrPath"

definition nextGen :: "32 word list \<Rightarrow> 32 word \<Rightarrow> 32 word list \<times> 32 word" where
  "nextGen visited gen =
     (if gen + 1 = 0 then (replicate (length visited) 0, 1) else (visited, gen + 1))"

definition unvisited :: "32 word \<Rightarrow> 32 word list \<Rightarrow> nat" where
  "unvisited gen visited = length (filter (\<lambda>x. x \<noteq> gen) visited)"

lemma unvisited_mark:
  "pc < length visited \<Longrightarrow> visited ! pc \<noteq> gen \<Longrightarrow>
    unvisited gen (visited[pc := gen]) < unvisited gen visited"
  unfolding unvisited_def
proof (induction visited arbitrary: pc)
  case (Cons x xs)
  then show ?case by (cases pc) auto
qed simp

function (sequential) add :: "mrInst list \<Rightarrow> nat \<Rightarrow> 32 word \<Rightarrow> nat \<Rightarrow> mrPath \<Rightarrow>
    32 word list \<Rightarrow> mrThread list \<Rightarrow> nat \<Rightarrow> (32 word list \<times> mrThread list) option" where
  "add P n gen pos path visited list pc =
     (if pc \<ge> length visited then None
      else if visited ! pc = gen then Some (visited, list)
      else if pc \<ge> length P then None
      else (case i_op (P ! pc) of
          mrOpJmp \<Rightarrow> add P n gen pos path (visited[pc := gen]) list (i_x (P ! pc))
        | mrOpSplit \<Rightarrow>
            (case add P n gen pos path (visited[pc := gen]) list (i_x (P ! pc)) of
               None \<Rightarrow> None
             | Some (visited', list') \<Rightarrow> add P n gen pos path visited' list' (i_y (P ! pc)))
        | mrOpStart \<Rightarrow>
            if pos = 0 then add P n gen pos path (visited[pc := gen]) list (pc + 1)
            else Some (visited[pc := gen], list)
        | mrOpEnd \<Rightarrow>
            if pos = n then add P n gen pos path (visited[pc := gen]) list (pc + 1)
            else Some (visited[pc := gen], list)
        | _ \<Rightarrow> Some (visited[pc := gen], list @ [(pc, path)])))"
  by pat_completeness auto

text \<open>
  Every call marks an entry that was unmarked, and no call unmarks one: this bounds the nested
  recursion of a split.
\<close>

lemma add_unvisited:
  assumes "add_dom (P, n, gen, pos, path, visited, list, pc)"
    "add P n gen pos path visited list pc = Some (visited', list')"
  shows "unvisited gen visited' \<le> unvisited gen visited"
  using assms
proof (induction arbitrary: visited' list' rule: add.pinduct)
  case (1 P n gen pos path visited list pc)
  note res = 1(7) [unfolded add.psimps [OF 1(1)]]
  show ?case
  proof (cases "pc \<ge> length visited \<or> visited ! pc = gen \<or> pc \<ge> length P")
    case True
    then show ?thesis using res by (auto split: if_splits)
  next
    case False
    then have c: "\<not> pc \<ge> length visited" "visited ! pc \<noteq> gen" "\<not> pc \<ge> length P" by auto
    have m: "unvisited gen (visited[pc := gen]) < unvisited gen visited"
      using c by (intro unvisited_mark) auto
    show ?thesis
    proof (cases "i_op (P ! pc)")
      case mrOpSplit
      then obtain v1 l1 where s: "add P n gen pos path (visited[pc := gen]) list (i_x (P ! pc)) = Some (v1, l1)"
        "add P n gen pos path v1 l1 (i_y (P ! pc)) = Some (visited', list')"
        using res c by (auto split: option.splits)
      show ?thesis
        using 1(2) [OF c mrOpSplit s(1)] 1(3) [OF c mrOpSplit s(1) refl s(2)] m by linarith
    qed (use res c m 1(4,5,6) in \<open>auto split: if_splits dest: less_imp_le\<close>)
  qed
qed

termination add
proof (relation "measure (\<lambda>(P, n, gen, pos, path, visited, list, pc). unvisited gen visited)")
  fix P n gen pos path visited list pc x v1 l1
  assume c: "\<not> length visited \<le> pc" "visited ! pc \<noteq> gen" "\<not> length P \<le> pc" "i_op (P ! pc) = mrOpSplit"
    and x: "add P n gen pos path (visited[pc := gen]) list (i_x (P ! pc)) = Some x" "(v1, l1) = x"
    and dom: "add_dom (P, n, gen, pos, path, visited[pc := gen], list, i_x (P ! pc))"
  have "unvisited gen v1 \<le> unvisited gen (visited[pc := gen])"
    using add_unvisited [OF dom, of v1 l1] x(1) x(2) [symmetric] by simp
  also have "\<dots> < unvisited gen visited" using c by (intro unvisited_mark) auto
  finally show "((P, n, gen, pos, path, v1, l1, i_y (P ! pc)), P, n, gen, pos, path, visited, list, pc)
      \<in> measure (\<lambda>(P, n, gen, pos, path, visited, list, pc). unvisited gen visited)"
    by simp
qed (auto intro: unvisited_mark simp: not_le)

declare add.simps [simp del]

text \<open>The row predicate \<open>w.bits[pos*nv+v]\<close>, with the bounds check.\<close>

definition row_bit :: "bool list \<Rightarrow> int \<Rightarrow> nat \<Rightarrow> int \<Rightarrow> bool option" where
  "row_bit bits nv pos v =
     (let k = int pos * nv + v in if 0 \<le> k \<and> k < int (length bits) then Some (bits ! nat k) else None)"

text \<open>
  The loop over the threads of one position. \<open>best\<close> is the end and path of the match found so
  far; without \<open>longest\<close> the first match cuts off all threads of lower priority.
\<close>

fun run_threads :: "mrInst list \<Rightarrow> nat \<Rightarrow> bool \<Rightarrow> (nat \<Rightarrow> int \<Rightarrow> bool option) \<Rightarrow> 32 word \<Rightarrow> nat \<Rightarrow> mrThread list \<Rightarrow>
    32 word list \<Rightarrow> mrThread list \<Rightarrow> (nat \<times> mrPath) option \<Rightarrow>
    (32 word list \<times> mrThread list \<times> (nat \<times> mrPath) option) option" where
  "run_threads P n longest rowb gen pos [] visited nlist best = Some (visited, nlist, best)"
| "run_threads P n longest rowb gen pos ((pc, path) # ths) visited nlist best =
     (if pc \<ge> length P then None
      else (case i_op (P ! pc) of
          mrOpMatch \<Rightarrow>
            if longest then
              run_threads P n longest rowb gen pos ths visited nlist
                (case best of None \<Rightarrow> Some (pos, path)
                 | Some (bestEnd, _) \<Rightarrow> if pos > bestEnd then Some (pos, path) else best)
            else Some (visited, nlist, Some (pos, path))
        | mrOpVar \<Rightarrow>
            if pos < n then
              (case rowb pos (i_v (P ! pc)) of
                 None \<Rightarrow> None
               | Some b \<Rightarrow>
                   if b then
                     (case add P n gen (pos + 1) (i32 (i_v (P ! pc)) # path) visited nlist (pc + 1) of
                        None \<Rightarrow> None
                      | Some (visited', nlist') \<Rightarrow>
                          run_threads P n longest rowb gen pos ths visited' nlist' best)
                   else run_threads P n longest rowb gen pos ths visited nlist best)
            else run_threads P n longest rowb gen pos ths visited nlist best
        | _ \<Rightarrow> run_threads P n longest rowb gen pos ths visited nlist best))"

lemma run_threads_end:
  assumes "n \<le> pos" "run_threads P n longest rowb gen pos ths visited nlist best = Some (v', nl', best')"
  shows "nl' = nlist"
  using assms(2)
proof (induction ths arbitrary: best)
  case (Cons th ths)
  obtain pc path where "th = (pc, path)" by (cases th)
  then show ?case using Cons assms(1) by (auto split: if_splits mrOp.splits)
qed simp

text \<open>The loop over the positions.\<close>

function run_loop :: "mrInst list \<Rightarrow> nat \<Rightarrow> bool \<Rightarrow> (nat \<Rightarrow> int \<Rightarrow> bool option) \<Rightarrow> nat \<Rightarrow> 32 word list \<Rightarrow> 32 word \<Rightarrow>
    mrThread list \<Rightarrow> (nat \<times> mrPath) option \<Rightarrow> (32 word list \<times> 32 word \<times> (nat \<times> mrPath) option) option" where
  "run_loop P n longest rowb pos visited gen clist best =
     (if clist = [] then Some (visited, gen, best)
      else (case run_threads P n longest rowb (snd (nextGen visited gen)) pos clist
                   (fst (nextGen visited gen)) [] best of
              None \<Rightarrow> None
            | Some (visited', nlist, best') \<Rightarrow>
                run_loop P n longest rowb (pos + 1) visited' (snd (nextGen visited gen)) nlist best'))"
  by pat_completeness auto

termination
proof (relation "measure (\<lambda>(P, n, longest, rowb, pos, visited, gen, clist, best).
    if clist = [] then 0 else Suc (n - pos))")
  fix P n longest rowb pos visited gen and clist :: "mrThread list" and best x visited' y nlist best'
  assume c: "clist \<noteq> []"
    and x: "run_threads P n longest rowb (snd (nextGen visited gen)) pos clist (fst (nextGen visited gen)) [] best = Some x"
      "(visited', y) = x" "(nlist, best') = y"
  have "n \<le> pos \<longrightarrow> nlist = []" using run_threads_end [of n pos] x by auto
  then show "((P, n, longest, rowb, pos + 1, visited', snd (nextGen visited gen), nlist, best'),
      P, n, longest, rowb, pos, visited, gen, clist, best)
    \<in> measure (\<lambda>(P, n, longest, rowb, pos, visited, gen, clist, best). if clist = [] then 0 else Suc (n - pos))"
    using c by auto
qed simp

declare run_loop.simps [simp del]

definition run :: "mrInst list \<Rightarrow> nat \<Rightarrow> bool \<Rightarrow> (nat \<Rightarrow> int \<Rightarrow> bool option) \<Rightarrow> 32 word list \<Rightarrow> 32 word \<Rightarrow> nat \<Rightarrow>
    (32 word list \<times> 32 word \<times> (nat \<times> mrPath) option) option" where
  "run P n longest rowb visited gen start =
     (let (visited1, gen1) = nextGen visited gen
      in case add P n gen1 start [] visited1 [] 0 of
           None \<Rightarrow> None
         | Some (visited2, clist) \<Rightarrow> run_loop P n longest rowb start visited2 gen1 clist None)"

section \<open>The window function\<close>

record mrEntry =
  e_mn :: int
  e_mrn :: int
  e_v :: int

text \<open>The variables of a match of \<open>k\<close> rows, in row order, read off the linked path.\<close>

definition path_vars :: "nat \<Rightarrow> mrPath \<Rightarrow> int list option" where
  "path_vars k path = (if k \<le> length path then Some (rev (take k path)) else None)"

text \<open>The loop that appends an entry to each row of a match.\<close>

fun put_entries :: "mrEntry list list \<Rightarrow> int \<Rightarrow> nat \<Rightarrow> nat \<Rightarrow> int list \<Rightarrow> mrEntry list list option" where
  "put_entries results mn s i [] = Some results"
| "put_entries results mn s i (v # vs) =
     (if s + i < length results
      then put_entries (results[s + i := results ! (s + i) @ [\<lparr>e_mn = mn, e_mrn = int i + 1, e_v = v\<rparr>]])
             mn s (i + 1) vs
      else None)"

function compute_loop :: "mrInst list \<Rightarrow> nat \<Rightarrow> bool \<Rightarrow> int \<Rightarrow> (nat \<Rightarrow> int \<Rightarrow> bool option) \<Rightarrow> nat \<Rightarrow> int \<Rightarrow>
    32 word list \<Rightarrow> 32 word \<Rightarrow> mrEntry list list \<Rightarrow> mrEntry list list option" where
  "compute_loop P n longest sk rowb s mn visited gen results =
     (if s \<ge> n then Some results
      else case run P n longest rowb visited gen s of
        None \<Rightarrow> None
      | Some (visited', gen', None) \<Rightarrow>
          compute_loop P n longest sk rowb (s + 1) mn visited' gen' results
      | Some (visited', gen', Some (end, path)) \<Rightarrow>
          if end = s then
            compute_loop P n longest sk rowb (s + 1) (mn + 1) visited' gen'
              (results[s := results ! s @ [\<lparr>e_mn = mn + 1, e_mrn = 0, e_v = - 1\<rparr>]])
          else if end < s then None
          else (case path_vars (end - s) path of
              None \<Rightarrow> None
            | Some vars \<Rightarrow>
                (case put_entries results (mn + 1) s 0 vars of
                   None \<Rightarrow> None
                 | Some results' \<Rightarrow>
                     compute_loop P n longest sk rowb (if sk = 1 then s + 1 else end) (mn + 1)
                       visited' gen' results')))"
  by pat_completeness auto
termination
  by (relation "measure (\<lambda>(P, n, longest, sk, rowb, s, mn, visited, gen, results). n - s)") auto

declare compute_loop.simps [simp del]

record matchRecognizeWindow =
  w_pid :: int
  w_prog :: "mrProgram option"
  w_longest :: bool
  w_bits :: "bool list"
  w_n :: nat
  w_inverses :: nat
  w_results :: "mrEntry list list"
  w_computed :: bool

definition newMatchRecognizeWindow :: "int \<Rightarrow> matchRecognizeWindow" where
  "newMatchRecognizeWindow partitionSeq =
     \<lparr>w_pid = partitionSeq + 1, w_prog = None, w_longest = False, w_bits = [], w_n = 0,
      w_inverses = 0, w_results = [], w_computed = False\<rparr>"

definition compute :: "mrProgram \<Rightarrow> matchRecognizeWindow \<Rightarrow> matchRecognizeWindow option" where
  "compute prog w =
     map_option (\<lambda>results. w\<lparr>w_results := results\<rparr>)
       (compute_loop (p_insts prog) (w_n w) (w_longest w) (p_skip prog) (row_bit (w_bits w) (p_nv prog)) 0 0
          (replicate (length (p_insts prog)) 0) 0 (replicate (w_n w) []))"

definition mrTruthy :: "val option \<Rightarrow> value_error + bool" where
  "mrTruthy v = (case v of None \<Rightarrow> Inr False | Some x \<Rightarrow> ToBool x)"

datatype step_error = MissingArguments | ArgumentCount int int | StepValue value_error | StepCompile mr_error

fun truthy_all :: "val option list \<Rightarrow> value_error + bool list" where
  "truthy_all [] = Inr []"
| "truthy_all (p # ps) = bind_res (mrTruthy p) (\<lambda>b. bind_res (truthy_all ps) (\<lambda>bs. Inr (b # bs)))"

text \<open>
  One row is stepped. The arguments are the decoded spec (the pattern's JSON text is decoded by
  \<open>encoding/json\<close>) and the decoded values after it: the longest flag, the bounds, the row's
  predicates.
\<close>

definition compile_first :: "mrSpec \<Rightarrow> val option list \<Rightarrow> matchRecognizeWindow \<Rightarrow> step_error + matchRecognizeWindow" where
  "compile_first spec args w =
     (case w_prog w of
        Some _ \<Rightarrow> Inr w
      | None \<Rightarrow>
          if int (length args) + 1 \<noteq> 2 + sp_NB spec + sp_NV spec
          then Inl (ArgumentCount (2 + sp_NB spec + sp_NV spec) (int (length args) + 1))
          else let hd = take (nat (1 + sp_NB spec)) args
               in bind_res (map_sum StepValue id (mrTruthy (hd ! 0))) (\<lambda>l.
                  bind_res (map_sum StepCompile id (mrCompile spec (tl hd))) (\<lambda>prog.
                    Inr (w\<lparr>w_longest := l, w_prog := Some prog\<rparr>))))"

definition Step :: "mrSpec \<Rightarrow> val option list \<Rightarrow> matchRecognizeWindow \<Rightarrow> step_error + matchRecognizeWindow" where
  "Step spec args w =
     (if args = [] then Inl MissingArguments
      else bind_res (compile_first spec args w) (\<lambda>w1.
        let prog = the (w_prog w1)
        in bind_res (map_sum StepValue id (truthy_all (drop (nat (1 + p_nb prog)) args))) (\<lambda>preds.
             Inr (w1\<lparr>w_bits := w_bits w1 @ preds, w_n := w_n w1 + 1, w_computed := False\<rparr>))))"

definition Inverse :: "matchRecognizeWindow \<Rightarrow> matchRecognizeWindow" where
  "Inverse w = w\<lparr>w_inverses := w_inverses w + 1\<rparr>"

definition entry_text :: "int \<Rightarrow> mrEntry \<Rightarrow> string" where
  "entry_text pid e = ''['' @ dec_int pid @ '','' @ dec_int (e_mn e) @ '','' @ dec_int (e_mrn e) @ '','' @
     dec_int (e_v e) @ '']''"

fun entries_text :: "int \<Rightarrow> mrEntry list \<Rightarrow> string" where
  "entries_text pid [] = []"
| "entries_text pid [e] = entry_text pid e"
| "entries_text pid (e # es) = entry_text pid e @ '','' @ entries_text pid es"

text \<open>\<open>Done\<close> returns the new state and the row's entries, NULL when there are none.\<close>

definition Done :: "matchRecognizeWindow \<Rightarrow> (matchRecognizeWindow \<times> string option) option" where
  "Done w =
     (case w_prog w of
        None \<Rightarrow> Some (w, None)
      | Some prog \<Rightarrow>
          (case (if w_computed w then Some w else map_option (\<lambda>w. w\<lparr>w_computed := True\<rparr>) (compute prog w)) of
             None \<Rightarrow> None
           | Some w' \<Rightarrow>
               Some (w', if w_inverses w' \<ge> length (w_results w') \<or> w_results w' ! w_inverses w' = [] then None
                         else Some (''['' @ entries_text (w_pid w') (w_results w' ! w_inverses w') @ '']''))))"

end
