(* ===== verification/MR_Correct.thy ===== *)
theory MR_Correct
  imports MR_Machine
begin

text \<open>
  Correctness of the MATCH_RECOGNIZE virtual machine. The machine relies on the compiler for
  programs whose targets stay in range and on the window for complete predicate rows; the locale
  \<open>pike_vm\<close> states this, and everything below it is proved from it: no panic, soundness and
  completeness of a run, and maximality in longest mode.
\<close>

section \<open>The interface between compiler and machine\<close>

definition closed_program :: "mrInst list \<Rightarrow> bool" where
  "closed_program P \<longleftrightarrow> P \<noteq> [] \<and> (\<forall>pc < length P. case i_op (P ! pc) of
      mrOpJmp \<Rightarrow> i_x (P ! pc) < length P
    | mrOpSplit \<Rightarrow> i_x (P ! pc) < length P \<and> i_y (P ! pc) < length P
    | mrOpMatch \<Rightarrow> True
    | _ \<Rightarrow> Suc pc < length P)"

definition rows_ok :: "mrInst list \<Rightarrow> nat \<Rightarrow> (nat \<Rightarrow> int \<Rightarrow> bool option) \<Rightarrow> bool" where
  "rows_ok P n rowb \<longleftrightarrow> (\<forall>i < n. \<forall>x \<in> set P. i_op x = mrOpVar \<longrightarrow> rowb i (i_v x) \<noteq> None)"

definition leaf :: "mrInst list \<Rightarrow> nat \<Rightarrow> bool" where
  "leaf P q \<longleftrightarrow> i_op (P ! q) = mrOpVar \<or> i_op (P ! q) = mrOpMatch"

text \<open>The program counters marked with the current generation.\<close>

definition marked :: "32 word \<Rightarrow> 32 word list \<Rightarrow> nat set" where
  "marked gen v = {q. q < length v \<and> v ! q = gen}"

lemma marked_update: "pc < length v \<Longrightarrow> marked gen (v[pc := gen]) = insert pc (marked gen v)"
  by (auto simp: marked_def nth_list_update)

lemma steps_length: "steps n ok P k a i vs q j \<Longrightarrow> j = i + length vs"
proof (induction rule: steps.induct)
  case (steps_Suc pc i us pc' i' k vs q j)
  have "i' = i + length us" using steps_Suc.hyps(1) by (auto elim: pstep_elim)
  with steps_Suc.IH show ?case by simp
qed simp

lemma steps_bound: "steps n ok P k a i vs q j \<Longrightarrow> i \<le> n \<Longrightarrow> j \<le> n"
proof (induction rule: steps.induct)
  case (steps_Suc pc i us pc' i' k vs q j)
  have "i' \<le> n" using steps_Suc.hyps(1) steps_Suc.prems by (auto elim: pstep_elim)
  with steps_Suc.IH show ?case by simp
qed simp

text \<open>The last row of a run: a variable step, then steps that consume nothing.\<close>

lemma steps_last_row:
  assumes "steps n ok P k a i vs q (Suc p)" "i \<le> p"
  shows "\<exists>us pc k1 k2. steps n ok P k1 a i us pc p \<and> pc < length P \<and> i_op (P ! pc) = mrOpVar \<and> p < n \<and>
    ok p (i_v (P ! pc)) \<and> steps n ok P k2 (Suc pc) (Suc p) [] q (Suc p)"
  using assms
proof (induction k a i vs q "Suc p" rule: steps.induct)
  case (steps_Suc pc i us pc' i' k vs q)
  show ?case
  proof (cases "i' \<le> p")
    case True
    then obtain us' pc2 k1 k2 where s: "steps n ok P k1 pc' i' us' pc2 p" "pc2 < length P"
      "i_op (P ! pc2) = mrOpVar" "p < n" "ok p (i_v (P ! pc2))" "steps n ok P k2 (Suc pc2) (Suc p) [] q (Suc p)"
      using steps_Suc.hyps(3) by blast
    show ?thesis using steps.steps_Suc [OF steps_Suc.hyps(1) s(1)] s(2-) by blast
  next
    case False
    have e: "i' = Suc p" "vs = []"
      using False steps_length [OF steps_Suc.hyps(2)] by (cases vs; simp)+
    then have v: "i_op (P ! pc) = mrOpVar" "pc < length P" "i = p" "p < n" "ok p (i_v (P ! pc))" "pc' = Suc pc"
      using steps_Suc.hyps(1) steps_Suc.prems by (auto elim: pstep_elim)
    then show ?thesis using steps_Suc.hyps(2) e steps_0 [of n ok P pc i] by blast
  qed
qed simp

section \<open>The epsilon closure\<close>

text \<open>
  What a call of \<open>add\<close> does to the marks: it only adds marks of the current generation, and
  every newly marked instruction has its successors marked and, when it waits for a row or
  accepts, a thread in the list.
\<close>

definition dfs :: "nat \<Rightarrow> (nat \<Rightarrow> int \<Rightarrow> bool) \<Rightarrow> mrInst list \<Rightarrow> nat \<Rightarrow> 32 word \<Rightarrow> 32 word list \<Rightarrow> mrThread list \<Rightarrow> 32 word list \<Rightarrow> bool" where
  "dfs n ok P pos gen v new v' \<longleftrightarrow> length v' = length v \<and> (\<forall>x \<in> set v'. x \<in> set v \<or> x = gen) \<and>
     marked gen v \<subseteq> marked gen v' \<and>
     (\<forall>q \<in> marked gen v' - marked gen v.
        (\<forall>q'. pstep n ok P q pos [] q' pos \<longrightarrow> q' \<in> marked gen v') \<and>
        (leaf P q \<longrightarrow> (\<exists>p. (q, p) \<in> set new)))"

lemma dfsD:
  assumes "dfs n ok P pos gen v new v'" "q \<in> marked gen v'" "q \<notin> marked gen v"
  shows "(\<forall>q'. pstep n ok P q pos [] q' pos \<longrightarrow> q' \<in> marked gen v') \<and> (leaf P q \<longrightarrow> (\<exists>p. (q, p) \<in> set new))"
  using assms unfolding dfs_def by blast

lemma dfs_refl: "dfs n ok P pos gen v [] v"
  by (simp add: dfs_def)

lemma dfs_trans:
  assumes "dfs n ok P pos gen v new v1" "dfs n ok P pos gen v1 new' v2"
  shows "dfs n ok P pos gen v (new @ new') v2"
proof -
  have d: "length v2 = length v" "\<forall>x \<in> set v1. x \<in> set v \<or> x = gen" "\<forall>x \<in> set v2. x \<in> set v1 \<or> x = gen"
    "marked gen v \<subseteq> marked gen v1" "marked gen v1 \<subseteq> marked gen v2"
    using assms by (simp_all add: dfs_def)
  have "(\<forall>q'. pstep n ok P q pos [] q' pos \<longrightarrow> q' \<in> marked gen v2) \<and>
      (leaf P q \<longrightarrow> (\<exists>p. (q, p) \<in> set (new @ new')))" if q: "q \<in> marked gen v2 - marked gen v" for q
  proof (cases "q \<in> marked gen v1")
    case True
    then show ?thesis using dfsD [OF assms(1) True] q d(5) by auto
  next
    case False
    then show ?thesis using dfsD [OF assms(2)] q by auto
  qed
  moreover have "x \<in> set v \<or> x = gen" if "x \<in> set v2" for x using d(2,3) that by blast
  ultimately show ?thesis using d(1,4,5) unfolding dfs_def by blast
qed

lemma dfs_mark:
  assumes "pc < length v" "v ! pc \<noteq> gen" "dfs n ok P pos gen (v[pc := gen]) new v'"
    "\<And>q'. pstep n ok P pc pos [] q' pos \<Longrightarrow> q' \<in> marked gen v'" "leaf P pc \<Longrightarrow> \<exists>p. (pc, p) \<in> set new"
  shows "dfs n ok P pos gen v new v'"
proof -
  have m: "marked gen (v[pc := gen]) = insert pc (marked gen v)" by (rule marked_update [OF assms(1)])
  have d: "length v' = length v" "\<forall>x \<in> set v'. x \<in> set (v[pc := gen]) \<or> x = gen"
    "insert pc (marked gen v) \<subseteq> marked gen v'"
    using assms(3) by (simp_all add: dfs_def m)
  have "x \<in> set v \<or> x = gen" if "x \<in> set v'" for x
    using d(2) that set_update_subset_insert [of v pc gen] by blast
  moreover have "(\<forall>q'. pstep n ok P q pos [] q' pos \<longrightarrow> q' \<in> marked gen v') \<and>
      (leaf P q \<longrightarrow> (\<exists>p. (q, p) \<in> set new))" if "q \<in> marked gen v' - marked gen v" for q
  proof (cases "q = pc")
    case True
    then show ?thesis using assms(4,5) by blast
  next
    case False
    then show ?thesis using dfsD [OF assms(3)] that m by blast
  qed
  ultimately show ?thesis using d(1,3) by (simp add: dfs_def)
qed

lemma eps_closed:
  assumes "\<forall>q \<in> M. \<forall>q'. pstep n ok P q pos [] q' pos \<longrightarrow> q' \<in> M" "a \<in> M" "steps n ok P k a pos [] q pos"
  shows "q \<in> M"
  using assms(2,3)
proof (induction k arbitrary: a)
  case 0
  then show ?case by (auto elim: steps_0_elim)
next
  case (Suc k)
  from Suc.prems(2) obtain pc' i' where "pstep n ok P a pos [] pc' i'" "steps n ok P k pc' i' [] q pos"
    by (auto elim!: steps_Suc_elim)
  moreover have "i' = pos" using calculation steps_length by fastforce
  ultimately show ?case using Suc.IH [of pc'] assms(1) Suc.prems(1) by blast
qed

text \<open>
  What a call of \<open>add\<close> returns: a list extended by threads of the given path, each reached
  from \<open>pc\<close> without consuming a row, together with a completed marking.
\<close>

definition add_ok :: "nat \<Rightarrow> (nat \<Rightarrow> int \<Rightarrow> bool) \<Rightarrow> mrInst list \<Rightarrow> 32 word \<Rightarrow> nat \<Rightarrow> mrPath \<Rightarrow> 32 word list \<Rightarrow>
    mrThread list \<Rightarrow> nat \<Rightarrow> (32 word list \<times> mrThread list) option \<Rightarrow> bool" where
  "add_ok n ok P gen pos path v list pc r \<longleftrightarrow> (\<exists>v' new. r = Some (v', list @ new) \<and>
     dfs n ok P pos gen v new v' \<and> pc \<in> marked gen v' \<and>
     (\<forall>(q, p) \<in> set new. p = path \<and> q < length P \<and> leaf P q \<and> (\<exists>k. steps n ok P k pc pos [] q pos)))"

lemma add_ok_marked: "pc < length v \<Longrightarrow> v ! pc = gen \<Longrightarrow> add_ok n ok P gen pos path v list pc (Some (v, list))"
  unfolding add_ok_def by (intro exI [of _ v] exI [of _ "[]"]) (simp add: dfs_refl marked_def)

lemma add_ok_leaf:
  assumes "pc < length v" "pc < length P" "v ! pc \<noteq> gen" "leaf P pc"
  shows "add_ok n ok P gen pos path v list pc (Some (v[pc := gen], list @ [(pc, path)]))"
proof -
  have "\<not> pstep n ok P pc pos [] q' pos" for q' using assms(4) by (auto simp: leaf_def elim: pstep_elim)
  then have "dfs n ok P pos gen v [(pc, path)] (v[pc := gen])"
    using dfs_trans [OF dfs_refl dfs_refl] assms
    by (intro dfs_mark [OF assms(1,3)]) (auto simp: dfs_def)
  then show ?thesis unfolding add_ok_def
    using assms steps_0 [of n ok P pc pos] by (intro exI conjI [OF refl]) (auto simp: marked_update)
qed

lemma add_ok_dead:
  assumes "pc < length v" "v ! pc \<noteq> gen" "\<not> leaf P pc" "\<And>q'. \<not> pstep n ok P pc pos [] q' pos"
  shows "add_ok n ok P gen pos path v list pc (Some (v[pc := gen], list))"
proof -
  have "dfs n ok P pos gen v [] (v[pc := gen])"
    using assms by (intro dfs_mark [OF assms(1,2) dfs_refl]) auto
  then show ?thesis unfolding add_ok_def
    using assms(1) by (intro exI [of _ "v[pc := gen]"] exI [of _ "[]"]) (simp add: marked_update)
qed

lemma add_ok_step:
  assumes "pc < length v" "v ! pc \<noteq> gen" "\<not> leaf P pc"
    and succ: "\<And>q'. pstep n ok P pc pos [] q' pos \<longleftrightarrow> q' = s"
    and r: "add_ok n ok P gen pos path (v[pc := gen]) list s r"
  shows "add_ok n ok P gen pos path v list pc r"
proof -
  obtain v' new where n: "r = Some (v', list @ new)" "dfs n ok P pos gen (v[pc := gen]) new v'" "s \<in> marked gen v'"
    "\<forall>(q, p) \<in> set new. p = path \<and> q < length P \<and> leaf P q \<and> (\<exists>k. steps n ok P k s pos [] q pos)"
    using r by (auto simp: add_ok_def)
  have d: "dfs n ok P pos gen v new v'"
    using n(3) succ assms(3) by (intro dfs_mark [OF assms(1,2) n(2)]) auto
  have m: "pc \<in> marked gen v'" using n(2) assms(1) by (auto simp: dfs_def marked_update)
  have "\<exists>k. steps n ok P k pc pos [] q pos" if "steps n ok P k s pos [] q pos" for k q
    using steps_Suc [of n ok P pc pos "[]" s pos k "[]" q pos] succ that by auto
  then have "\<forall>(q, p) \<in> set new. p = path \<and> q < length P \<and> leaf P q \<and> (\<exists>k. steps n ok P k pc pos [] q pos)"
    using n(4) by fast
  then show ?thesis unfolding add_ok_def using n(1) d m by blast
qed

lemma add_ok_split:
  assumes "pc < length v" "v ! pc \<noteq> gen" "\<not> leaf P pc"
    and succ: "\<And>q'. pstep n ok P pc pos [] q' pos \<longleftrightarrow> q' = s \<or> q' = t"
    and s: "add_ok n ok P gen pos path (v[pc := gen]) list s (Some (v1, l1))"
    and t: "add_ok n ok P gen pos path v1 l1 t r"
  shows "add_ok n ok P gen pos path v list pc r"
proof -
  obtain new1 where 1: "l1 = list @ new1" "dfs n ok P pos gen (v[pc := gen]) new1 v1" "s \<in> marked gen v1"
    "\<forall>(q, p) \<in> set new1. p = path \<and> q < length P \<and> leaf P q \<and> (\<exists>k. steps n ok P k s pos [] q pos)"
    using s by (auto simp: add_ok_def)
  obtain v' new2 where 2: "r = Some (v', l1 @ new2)" "dfs n ok P pos gen v1 new2 v'" "t \<in> marked gen v'"
    "\<forall>(q, p) \<in> set new2. p = path \<and> q < length P \<and> leaf P q \<and> (\<exists>k. steps n ok P k t pos [] q pos)"
    using t by (auto simp: add_ok_def)
  have d: "dfs n ok P pos gen (v[pc := gen]) (new1 @ new2) v'" by (rule dfs_trans [OF 1(2) 2(2)])
  have sm: "s \<in> marked gen v'" using 1(3) 2(2) by (auto simp: dfs_def)
  have d': "dfs n ok P pos gen v (new1 @ new2) v'"
    using sm 2(3) succ assms(3) by (intro dfs_mark [OF assms(1,2) d]) auto
  have m: "pc \<in> marked gen v'" using d assms(1) by (auto simp: dfs_def marked_update)
  have "\<exists>k. steps n ok P k pc pos [] q pos" if "steps n ok P k u pos [] q pos" "u = s \<or> u = t" for k q u
    using steps_Suc [of n ok P pc pos "[]" u pos k "[]" q pos] succ that by auto
  then have "\<forall>(q, p) \<in> set (new1 @ new2). p = path \<and> q < length P \<and> leaf P q \<and> (\<exists>k. steps n ok P k pc pos [] q pos)"
    using 1(4) 2(4) by fastforce
  then show ?thesis unfolding add_ok_def using 1(1) 2(1) d' m by auto
qed

lemma closed_target:
  assumes "closed_program P" "pc < length P"
  shows "i_op (P ! pc) = mrOpJmp \<Longrightarrow> i_x (P ! pc) < length P"
    "i_op (P ! pc) = mrOpSplit \<Longrightarrow> i_x (P ! pc) < length P \<and> i_y (P ! pc) < length P"
    "i_op (P ! pc) \<in> {mrOpStart, mrOpEnd, mrOpVar} \<Longrightarrow> Suc pc < length P"
  using assms by (auto simp: closed_program_def split: mrOp.splits)

lemma add_spec:
  assumes "closed_program P" "length v = length P" "pc < length P"
  shows "add_ok n ok P gen pos path v list pc (add P n gen pos path v list pc)"
  using assms
proof (induction P n gen pos path v list pc rule: add.induct)
  case (1 P n gen pos path v list pc)
  note closed = 1(6) and len = 1(7) and pc = 1(8)
  show ?case
  proof (cases "v ! pc = gen")
    case True
    then show ?thesis using len pc by (simp add: add.simps [of P] add_ok_marked)
  next
    case False
    have c: "\<not> length v \<le> pc" "v ! pc \<noteq> gen" "\<not> length P \<le> pc" "pc < length v" using False len pc by auto
    have ul: "length (v[pc := gen]) = length P" using len by simp
    note t = closed_target [OF closed pc]
    show ?thesis
    proof (cases "i_op (P ! pc)")
      case mrOpJmp
      then have "add_ok n ok P gen pos path v list pc (add P n gen pos path (v[pc := gen]) list (i_x (P ! pc)))"
        using 1(3) [OF c(1-3) mrOpJmp closed ul t(1)] pc
        by (intro add_ok_step [OF c(4,2)]) (auto simp: leaf_def pstep_op span_eps_def)
      then show ?thesis using c mrOpJmp by (simp add: add.simps [of P])
    next
      case mrOpSplit
      have s: "add_ok n ok P gen pos path (v[pc := gen]) list (i_x (P ! pc))
          (add P n gen pos path (v[pc := gen]) list (i_x (P ! pc)))"
        using 1(1) [OF c(1-3) mrOpSplit closed ul] t(2) mrOpSplit by simp
      then obtain v1 l1 where r: "add P n gen pos path (v[pc := gen]) list (i_x (P ! pc)) = Some (v1, l1)"
        "length v1 = length P"
        using ul by (auto simp: add_ok_def dfs_def)
      have "add_ok n ok P gen pos path v1 l1 (i_y (P ! pc)) (add P n gen pos path v1 l1 (i_y (P ! pc)))"
        using 1(2) [OF c(1-3) mrOpSplit r(1) refl closed r(2)] t(2) mrOpSplit by simp
      then have "add_ok n ok P gen pos path v list pc (add P n gen pos path v1 l1 (i_y (P ! pc)))"
        using mrOpSplit pc
        by (intro add_ok_split [OF c(4,2) _ _ s [unfolded r(1)]]) (auto simp: leaf_def pstep_op span_eps_def)
      then show ?thesis using c mrOpSplit r(1) by (simp add: add.simps [of P _ _ _ _ v])
    next
      case mrOpStart
      show ?thesis
      proof (cases "pos = 0")
        case True
        then have "add_ok n ok P gen pos path v list pc (add P n gen pos path (v[pc := gen]) list (pc + 1))"
          using 1(4) [OF c(1-3) mrOpStart True closed ul] t(3) mrOpStart pc
          by (intro add_ok_step [OF c(4,2)]) (auto simp: leaf_def pstep_op span_eps_def)
        then show ?thesis using c mrOpStart True by (simp add: add.simps [of P _ _ _ _ v])
      next
        case False
        then show ?thesis using c mrOpStart
          by (simp add: add.simps [of P] add_ok_dead leaf_def pstep_op)
      qed
    next
      case mrOpEnd
      show ?thesis
      proof (cases "pos = n")
        case True
        then have "add_ok n ok P gen pos path v list pc (add P n gen pos path (v[pc := gen]) list (pc + 1))"
          using 1(5) [OF c(1-3) mrOpEnd True closed ul] t(3) mrOpEnd pc
          by (intro add_ok_step [OF c(4,2)]) (auto simp: leaf_def pstep_op span_eps_def)
        then show ?thesis using c mrOpEnd True by (simp add: add.simps [of P _ _ _ _ v])
      next
        case False
        then show ?thesis using c mrOpEnd
          by (simp add: add.simps [of P] add_ok_dead leaf_def pstep_op)
      qed
    qed (use c pc in \<open>simp_all add: add.simps [of P] add_ok_leaf leaf_def\<close>)
  qed
qed

section \<open>Generations\<close>

definition gen_inv :: "mrInst list \<Rightarrow> 32 word list \<Rightarrow> 32 word \<Rightarrow> bool" where
  "gen_inv P v gen \<longleftrightarrow> length v = length P \<and> (\<forall>x \<in> set v. x \<le> gen)"

text \<open>After \<open>nextGen\<close> nothing is marked, also when the counter wraps around.\<close>

lemma nextGen_fresh:
  assumes "gen_inv P v gen" "nextGen v gen = (v', gen')"
  shows "gen_inv P v' gen'" "marked gen' v' = {}"
proof -
  have "gen_inv P v' gen' \<and> marked gen' v' = {}"
  proof (cases "gen + 1 = 0")
    case True
    then have "v' = replicate (length v) 0" "gen' = 1" using assms(2) by (auto simp: nextGen_def)
    then show ?thesis using assms(1) by (auto simp: gen_inv_def marked_def)
  next
    case False
    then have e: "v' = v" "gen' = gen + 1" using assms(2) by (auto simp: nextGen_def)
    have "unat (gen + 1) = Suc (unat gen)" using False unatSuc [of gen] by (simp add: add.commute)
    then have "x \<le> gen \<Longrightarrow> x < gen + 1" for x by (simp add: word_le_nat_alt word_less_nat_alt)
    then have "x < gen'" if "x \<in> set v" for x using assms(1) that e(2) by (auto simp: gen_inv_def)
    moreover from this have "gen' \<notin> set v" by blast
    ultimately show ?thesis using assms(1) unfolding e(1)
      by (auto simp: gen_inv_def marked_def dest: less_imp_le)
  qed
  then show "gen_inv P v' gen'" "marked gen' v' = {}" by simp_all
qed

lemma dfs_gen_inv: "dfs n ok P pos gen v new v' \<Longrightarrow> gen_inv P v gen \<Longrightarrow> gen_inv P v' gen"
  by (auto simp: dfs_def gen_inv_def)

lemma steps_through:
  assumes "steps n ok P k a i vs q j" "i \<le> p" "p < j"
  shows "\<exists>us pc m. steps n ok P m a i us pc p \<and> pc < length P \<and> i_op (P ! pc) = mrOpVar"
  using assms(1,3)
proof (induction j arbitrary: k vs q rule: nat.induct)
  case (Suc j)
  have "i \<le> j" using Suc.prems(2) assms(2) by simp
  from steps_last_row [OF Suc.prems(1) this] obtain us pc m where
    s: "steps n ok P m a i us pc j" "pc < length P" "i_op (P ! pc) = mrOpVar" by blast
  show ?case
  proof (cases "p = j")
    case True
    then show ?thesis using s by blast
  next
    case False
    then show ?thesis using Suc.IH [OF s(1)] Suc.prems(2) by simp
  qed
qed simp

section \<open>A run of the machine\<close>

locale pike_vm =
  fixes P :: "mrInst list" and n :: nat and longest :: bool and rowb :: "nat \<Rightarrow> int \<Rightarrow> bool option"
  assumes closed: "closed_program P" and rows: "rows_ok P n rowb"
begin

abbreviation ok :: "nat \<Rightarrow> int \<Rightarrow> bool" where
  "ok \<equiv> \<lambda>i v. rowb i v = Some True"

definition is_match :: "nat \<Rightarrow> int list \<Rightarrow> nat \<Rightarrow> bool" where
  "is_match start vs e \<longleftrightarrow> (\<exists>k q. steps n ok P k 0 start vs q e \<and> q < length P \<and> i_op (P ! q) = mrOpMatch)"

definition valid :: "nat \<Rightarrow> nat \<Rightarrow> mrThread \<Rightarrow> bool" where
  "valid start pos th \<longleftrightarrow> fst th < length P \<and> leaf P (fst th) \<and>
     (\<exists>k. steps n ok P k 0 start (rev (snd th)) (fst th) pos)"

definition complete :: "nat \<Rightarrow> nat \<Rightarrow> mrThread list \<Rightarrow> bool" where
  "complete start pos ths \<longleftrightarrow> (\<forall>k vs q. steps n ok P k 0 start vs q pos \<longrightarrow> q < length P \<longrightarrow> leaf P q \<longrightarrow>
     (\<exists>p. (q, p) \<in> set ths))"

definition has_match :: "mrThread list \<Rightarrow> bool" where
  "has_match ths \<longleftrightarrow> (\<exists>th \<in> set ths. i_op (P ! fst th) = mrOpMatch)"

lemma valid_add:
  assumes "valid start pos (pc, path)" "i_op (P ! pc) = mrOpVar" "pos < n" "ok pos (i_v (P ! pc))"
    "steps n ok P k (Suc pc) (Suc pos) [] q (Suc pos)" "q < length P" "leaf P q"
  shows "valid start (Suc pos) (q, i32 (i_v (P ! pc)) # path)"
proof -
  obtain m where m: "steps n ok P m 0 start (rev path) pc pos" "pc < length P"
    using assms(1) by (auto simp: valid_def)
  have "pstep n ok P pc pos [i32 (i_v (P ! pc))] (Suc pc) (Suc pos)"
    using pstep.var [of pc P pos n ok] m(2) assms(2,3,4) by simp
  from steps_Suc [OF this assms(5)] have "steps n ok P (Suc k) pc pos [i32 (i_v (P ! pc))] q (Suc pos)" by simp
  from steps_append [OF m(1) this] show ?thesis using assms(6,7) by (auto simp: valid_def)
qed

definition best_update :: "nat \<Rightarrow> mrThread list \<Rightarrow> (nat \<times> mrPath) option \<Rightarrow> (nat \<times> mrPath) option \<Rightarrow> bool" where
  "best_update pos ths best best' \<longleftrightarrow>
     (best' = best \<or> (\<exists>q p. (q, p) \<in> set ths \<and> i_op (P ! q) = mrOpMatch \<and> best' = Some (pos, p))) \<and>
     (has_match ths \<and> (\<not> longest \<or> best = None \<or> fst (the best) \<le> pos) \<longrightarrow> (\<exists>p. best' = Some (pos, p)))"

definition seeded :: "nat \<Rightarrow> nat set \<Rightarrow> mrThread \<Rightarrow> bool" where
  "seeded pos M th \<longleftrightarrow> (i_op (P ! fst th) = mrOpVar \<and> pos < n \<and> ok pos (i_v (P ! fst th)) \<longrightarrow> Suc (fst th) \<in> M)"

definition threads_post :: "nat \<Rightarrow> nat \<Rightarrow> 32 word \<Rightarrow> 32 word list \<Rightarrow> 32 word list \<Rightarrow> mrThread list \<Rightarrow> (nat \<times> mrPath) option \<Rightarrow>
    32 word list \<times> mrThread list \<times> (nat \<times> mrPath) option \<Rightarrow> bool" where
  "threads_post start pos gen v0 v ths best r \<longleftrightarrow> (case r of (v', nlist', best') \<Rightarrow>
    length v' = length P \<and> dfs n ok P (Suc pos) gen v0 nlist' v' \<and> marked gen v \<subseteq> marked gen v' \<and>
    (\<forall>th \<in> set nlist'. valid start (Suc pos) th) \<and> best_update pos ths best best' \<and>
    (longest \<or> \<not> has_match ths \<longrightarrow> (\<forall>th \<in> set ths. seeded pos (marked gen v') th)))"

lemma best_update_match:
  assumes "i_op (P ! fst th) = mrOpMatch" "best_update pos ths best1 best'"
    "best1 = (case best of None \<Rightarrow> Some (pos, snd th)
        | Some (bestEnd, _) \<Rightarrow> if pos > bestEnd then Some (pos, snd th) else best)" longest
  shows "best_update pos (th # ths) best best'"
proof -
  have b1: "best1 = best \<or> best1 = Some (pos, snd th)"
    "best = None \<or> fst (the best) \<le> pos \<Longrightarrow> \<exists>p. best1 = Some (pos, p)"
    using assms(3) by (auto split: option.splits if_splits)
  have th: "(fst th, snd th) \<in> set (th # ths)" by simp
  have 1: "best' = best1 \<or> (\<exists>q p. (q, p) \<in> set ths \<and> i_op (P ! q) = mrOpMatch \<and> best' = Some (pos, p))"
    using assms(2) by (simp add: best_update_def)
  have 2: "best' = best \<or> (\<exists>q p. (q, p) \<in> set (th # ths) \<and> i_op (P ! q) = mrOpMatch \<and> best' = Some (pos, p))"
    using 1 b1(1) th assms(1) by (metis list.set_intros(2))
  have 3: "\<exists>p. best' = Some (pos, p)" if "best = None \<or> fst (the best) \<le> pos"
    using 1 b1(2) [OF that] by blast
  show ?thesis using 2 3 assms(4) unfolding best_update_def by blast
qed

lemma threads_post_Match:
  assumes "i_op (P ! fst th) = mrOpMatch" "threads_post start pos gen v0 v ths best1 r"
    "best1 = (case best of None \<Rightarrow> Some (pos, snd th)
        | Some (bestEnd, _) \<Rightarrow> if pos > bestEnd then Some (pos, snd th) else best)" longest
  shows "threads_post start pos gen v0 v (th # ths) best r"
proof -
  obtain v' nlist' best' where r: "r = (v', nlist', best')" by (cases r) auto
  note p = assms(2) [unfolded threads_post_def r prod.case]
  have "best_update pos (th # ths) best best'" using best_update_match [OF assms(1) _ assms(3,4)] p by blast
  moreover have "seeded pos (marked gen v') th" using assms(1) by (simp add: seeded_def)
  ultimately show ?thesis using p assms(4) unfolding threads_post_def r prod.case by simp
qed

lemma threads_post_Var:
  assumes "i_op (P ! fst th) = mrOpVar" "threads_post start pos gen v0 v1 ths best r"
    "marked gen v \<subseteq> marked gen v1" "seeded pos (marked gen v1) th"
  shows "threads_post start pos gen v0 v (th # ths) best r"
proof -
  obtain v' nlist' best' where r: "r = (v', nlist', best')" by (cases r) auto
  note p = assms(2) [unfolded threads_post_def r prod.case]
  have hm: "has_match (th # ths) \<longleftrightarrow> has_match ths" using assms(1) by (simp add: has_match_def)
  have bu: "best_update pos (th # ths) best best'"
    using p unfolding best_update_def hm by auto
  have "marked gen v \<subseteq> marked gen v'" using p assms(3) by blast
  moreover have "seeded pos (marked gen v') th" using p assms(4) by (auto simp: seeded_def)
  ultimately show ?thesis using p bu unfolding threads_post_def r prod.case hm by simp
qed

lemma run_threads_spec:
  assumes "length v = length P" "dfs n ok P (Suc pos) gen v0 nlist v"
    "\<forall>th \<in> set ths. valid start pos th" "\<forall>th \<in> set nlist. valid start (Suc pos) th"
  shows "\<exists>r. run_threads P n longest rowb gen pos ths v nlist best = Some r \<and>
    threads_post start pos gen v0 v ths best r"
  using assms
proof (induction ths arbitrary: v nlist best)
  case Nil
  then show ?case by (simp add: threads_post_def best_update_def has_match_def)
next
  case (Cons th ths)
  obtain pc path where th: "th = (pc, path)" by (cases th)
  have v: "valid start pos (pc, path)" "\<forall>th \<in> set ths. valid start pos th" using Cons.prems(3) th by auto
  then have pc: "pc < length P" "leaf P pc" by (auto simp: valid_def)
  note IH = Cons.IH [OF Cons.prems(1,2) v(2) Cons.prems(4)]
  show ?case
  proof (cases "i_op (P ! pc) = mrOpMatch")
    case True
    show ?thesis
    proof (cases longest)
      case short: False
      have "best_update pos (th # ths) best (Some (pos, path))" "has_match (th # ths)"
        using True by (auto simp: best_update_def has_match_def th)
      then have "threads_post start pos gen v0 v (th # ths) best (v, nlist, Some (pos, path))"
        using Cons.prems(1,2,4) short unfolding threads_post_def prod.case by blast
      moreover have "run_threads P n longest rowb gen pos (th # ths) v nlist best = Some (v, nlist, Some (pos, path))"
        using True short pc(1) by (simp add: th)
      ultimately show ?thesis by blast
    next
      case long: True
      define best1 where "best1 = (case best of None \<Rightarrow> Some (pos, path)
        | Some (bestEnd, _) \<Rightarrow> if pos > bestEnd then Some (pos, path) else best)"
      have e: "run_threads P n longest rowb gen pos (th # ths) v nlist best =
          run_threads P n longest rowb gen pos ths v nlist best1"
        using True long pc(1) by (simp add: th best1_def)
      obtain r where "run_threads P n longest rowb gen pos ths v nlist best1 = Some r"
        and post: "threads_post start pos gen v0 v ths best1 r" using IH by blast
      moreover have "threads_post start pos gen v0 v (th # ths) best r"
        by (rule threads_post_Match [OF _ post _ long]) (simp_all add: True th best1_def split: option.split)
      ultimately show ?thesis unfolding e by blast
    qed
  next
    case False
    then have var: "i_op (P ! fst th) = mrOpVar" using pc(2) by (simp add: leaf_def th)
    show ?thesis
    proof (cases "pos < n \<and> ok pos (i_v (P ! pc))")
      case False
      have "pos < n \<Longrightarrow> rowb pos (i_v (P ! pc)) = Some False"
        using rows False pc(1) var nth_mem [OF pc(1)] by (fastforce simp: rows_ok_def th)
      then have e: "run_threads P n longest rowb gen pos (th # ths) v nlist best =
          run_threads P n longest rowb gen pos ths v nlist best"
        using pc(1) var by (auto simp: th)
      have "seeded pos (marked gen v) th" using False by (auto simp: seeded_def th)
      then show ?thesis using IH threads_post_Var [OF var] unfolding e by blast
    next
      case True
      let ?p = "i32 (i_v (P ! pc)) # path"
      have spc: "Suc pc < length P" using closed_target(3) [OF closed pc(1)] var by (simp add: th)
      obtain v1 new where a: "add P n gen (Suc pos) ?p v nlist (Suc pc) = Some (v1, nlist @ new)"
        "dfs n ok P (Suc pos) gen v new v1" "Suc pc \<in> marked gen v1"
        "\<forall>(q, p) \<in> set new. p = ?p \<and> q < length P \<and> leaf P q \<and> (\<exists>k. steps n ok P k (Suc pc) (Suc pos) [] q (Suc pos))"
        using add_spec [OF closed Cons.prems(1) spc, of n ok gen "Suc pos" ?p nlist] by (auto simp: add_ok_def)
      have e: "run_threads P n longest rowb gen pos (th # ths) v nlist best =
          run_threads P n longest rowb gen pos ths v1 (nlist @ new) best"
        using pc(1) var True a(1) by (simp add: th)
      have "valid start (Suc pos) th'" if "th' \<in> set new" for th'
        using a(4) that valid_add [OF v(1)] var True by (cases th') (auto simp: th)
      then have nv: "\<forall>th \<in> set (nlist @ new). valid start (Suc pos) th" using Cons.prems(4) by auto
      have l1: "length v1 = length P" "marked gen v \<subseteq> marked gen v1" using a(2) Cons.prems(1) by (auto simp: dfs_def)
      have "seeded pos (marked gen v1) th" using a(3) by (simp add: seeded_def th)
      then show ?thesis
        using Cons.IH [OF l1(1) dfs_trans [OF Cons.prems(2) a(2)] v(2) nv] threads_post_Var [OF var _ l1(2)]
        unfolding e by blast
    qed
  qed
qed

text \<open>The invariant of the loop over the positions, and what a finished run guarantees.\<close>

definition loop_inv :: "nat \<Rightarrow> nat \<Rightarrow> 32 word list \<Rightarrow> 32 word \<Rightarrow> mrThread list \<Rightarrow> (nat \<times> mrPath) option \<Rightarrow> bool" where
  "loop_inv start pos v gen clist best \<longleftrightarrow> gen_inv P v gen \<and> start \<le> pos \<and>
     (\<forall>th \<in> set clist. valid start pos th) \<and>
     (\<forall>e p. best = Some (e, p) \<longrightarrow> e < pos \<and> is_match start (rev p) e) \<and>
     (longest \<or> best = None \<longrightarrow> complete start pos clist \<and>
        (\<forall>vs e. is_match start vs e \<and> e < pos \<longrightarrow> (\<exists>e' p. best = Some (e', p) \<and> e \<le> e')))"

definition run_post :: "nat \<Rightarrow> (nat \<times> mrPath) option \<Rightarrow> bool" where
  "run_post start best \<longleftrightarrow> (\<forall>e p. best = Some (e, p) \<longrightarrow> is_match start (rev p) e) \<and>
     (longest \<or> best = None \<longrightarrow> (\<forall>vs e. is_match start vs e \<longrightarrow> (\<exists>e' p. best = Some (e', p) \<and> e \<le> e')))"

lemma loop_inv_final:
  assumes "loop_inv start pos v gen [] best"
  shows "run_post start best"
proof -
  have "\<exists>e' p. best = Some (e', p) \<and> e \<le> e'" if c: "longest \<or> best = None" and m: "is_match start vs e" for vs e
  proof (cases "e < pos")
    case True
    then show ?thesis using assms c m by (auto simp: loop_inv_def)
  next
    case False
    have none: "\<not> (q < length P \<and> leaf P q)" if "steps n ok P k 0 start us q pos" for k us q
      using assms c that by (auto simp: loop_inv_def complete_def)
    obtain k q where k: "steps n ok P k 0 start vs q e" "q < length P" "i_op (P ! q) = mrOpMatch"
      using m by (auto simp: is_match_def)
    have False
    proof (cases "e = pos")
      case True
      then show ?thesis using none [of k vs q] k by (simp add: leaf_def)
    next
      case False
      have "start \<le> pos" using assms by (simp add: loop_inv_def)
      with steps_through [OF k(1)] False \<open>\<not> e < pos\<close> obtain us pc m where
        "steps n ok P m 0 start us pc pos" "pc < length P" "i_op (P ! pc) = mrOpVar" by (metis nat_neq_iff)
      then show ?thesis using none by (auto simp: leaf_def)
    qed
    then show ?thesis ..
  qed
  then show ?thesis using assms by (auto simp: loop_inv_def run_post_def)
qed

lemma complete_next:
  assumes "complete start pos clist" "start \<le> pos" "dfs n ok P (Suc pos) gen v0 nlist v" "marked gen v0 = {}"
    "\<forall>th \<in> set clist. seeded pos (marked gen v) th"
  shows "complete start (Suc pos) nlist"
  unfolding complete_def
proof (intro allI impI)
  fix k vs q
  assume s: "steps n ok P k 0 start vs q (Suc pos)" and q: "q < length P" "leaf P q"
  from steps_last_row [OF s assms(2)] obtain us pc k1 k2 where
    r: "steps n ok P k1 0 start us pc pos" "pc < length P" "i_op (P ! pc) = mrOpVar" "pos < n"
      "ok pos (i_v (P ! pc))" "steps n ok P k2 (Suc pc) (Suc pos) [] q (Suc pos)" by blast
  have "leaf P pc" using r(3) by (simp add: leaf_def)
  then obtain p where "(pc, p) \<in> set clist" using assms(1) r(1,2) unfolding complete_def by blast
  then have m: "Suc pc \<in> marked gen v" using assms(5) r(3,4,5) by (auto simp: seeded_def)
  have "\<forall>q \<in> marked gen v. \<forall>q'. pstep n ok P q (Suc pos) [] q' (Suc pos) \<longrightarrow> q' \<in> marked gen v"
    using dfsD [OF assms(3)] assms(4) by blast
  from eps_closed [OF this m r(6)] have "q \<in> marked gen v" .
  then show "\<exists>p. (q, p) \<in> set nlist" using dfsD [OF assms(3)] assms(4) q(2) by blast
qed

lemma loop_inv_step:
  assumes "loop_inv start pos v gen clist best" "nextGen v gen = (v1, gen1)"
  shows "\<exists>v' nlist best'. run_threads P n longest rowb gen1 pos clist v1 [] best = Some (v', nlist, best') \<and>
    loop_inv start (Suc pos) v' gen1 nlist best'"
proof -
  note i = assms(1) [unfolded loop_inv_def]
  have i1: "gen_inv P v gen" "start \<le> pos" "\<forall>th \<in> set clist. valid start pos th" using i by simp_all
  have i2: "\<forall>e p. best = Some (e, p) \<longrightarrow> e < pos \<and> is_match start (rev p) e"
    using i by (elim conjE)
  have i3: "longest \<or> best = None \<Longrightarrow> complete start pos clist \<and>
      (\<forall>vs e. is_match start vs e \<and> e < pos \<longrightarrow> (\<exists>e' p. best = Some (e', p) \<and> e \<le> e'))"
    using i by (elim conjE) (rule mp)
  have g1: "gen_inv P v1 gen1" "marked gen1 v1 = {}" using nextGen_fresh [OF i1(1) assms(2)] by blast+
  have l1: "length v1 = length P" using g1(1) by (simp add: gen_inv_def)
  have nil: "\<forall>th \<in> set []. valid start (Suc pos) th" by simp
  from run_threads_spec [OF l1 dfs_refl i1(3) nil]
  obtain r where r: "run_threads P n longest rowb gen1 pos clist v1 [] best = Some r"
    "threads_post start pos gen1 v1 v1 clist best r" by blast
  obtain v' nlist best' where r': "r = (v', nlist, best')" by (cases r) auto
  note p = r(2) [unfolded threads_post_def r' prod.case]
  have bu: "best_update pos clist best best'" using p by (elim conjE)
  have d': "dfs n ok P (Suc pos) gen1 v1 nlist v'" using p by (elim conjE)
  have nv: "\<forall>th \<in> set nlist. valid start (Suc pos) th" using p by (elim conjE)
  have sd: "longest \<or> \<not> has_match clist \<longrightarrow> (\<forall>th \<in> set clist. seeded pos (marked gen1 v') th)"
    using p by (elim conjE)
  have bu1: "best' = best \<or> (\<exists>q p. (q, p) \<in> set clist \<and> i_op (P ! q) = mrOpMatch \<and> best' = Some (pos, p))"
    by (rule bu [unfolded best_update_def, THEN conjunct1])
  have bu2: "has_match clist \<Longrightarrow> \<not> longest \<or> best = None \<or> fst (the best) \<le> pos \<Longrightarrow> \<exists>p. best' = Some (pos, p)"
    using bu [unfolded best_update_def, THEN conjunct2] by blast
  have b1: "e < Suc pos \<and> is_match start (rev q) e" if b: "best' = Some (e, q)" for e q
  proof (cases "best' = best")
    case True
    then show ?thesis using i2 [rule_format, of e q] b by simp
  next
    case False
    then obtain pc where c: "(pc, q) \<in> set clist" "i_op (P ! pc) = mrOpMatch" "e = pos"
      using bu1 b by auto
    then have "valid start pos (pc, q)" using i1(3) by blast
    then show ?thesis using c(2,3) unfolding valid_def is_match_def by auto
  qed
  have b2: "complete start (Suc pos) nlist \<and>
      (\<forall>vs e. is_match start vs e \<and> e < Suc pos \<longrightarrow> (\<exists>e' p. best' = Some (e', p) \<and> e \<le> e'))"
    if c: "longest \<or> best' = None"
  proof
    have nm: "longest \<or> best = None \<and> \<not> has_match clist"
      using c bu1 bu2 by blast
    then have "longest \<or> best = None" "longest \<or> \<not> has_match clist" by blast+
    note cp = conjunct1 [OF i3 [OF this(1)]] conjunct2 [OF i3 [OF this(1)]] and sd' = sd [rule_format, OF this(2)]
    show "complete start (Suc pos) nlist"
      by (rule complete_next [OF cp(1) i1(2) d' g1(2)]) (rule ballI, rule sd')
    show "\<forall>vs e. is_match start vs e \<and> e < Suc pos \<longrightarrow> (\<exists>e' p. best' = Some (e', p) \<and> e \<le> e')"
    proof (intro allI impI)
      fix vs e
      assume m: "is_match start vs e \<and> e < Suc pos"
      show "\<exists>e' p. best' = Some (e', p) \<and> e \<le> e'"
      proof (cases "e < pos")
        case True
        then obtain e' q where "best = Some (e', q)" "e \<le> e'" using cp(2) m by blast
        moreover have "best' = best \<or> (\<exists>p. best' = Some (pos, p))" using bu1 by blast
        ultimately show ?thesis using True by (elim disjE exE) (simp_all add: less_imp_le)
      next
        case False
        then have "e = pos" using m by simp
        with m obtain k q where s: "steps n ok P k 0 start vs q pos" "q < length P" "i_op (P ! q) = mrOpMatch"
          by (auto simp: is_match_def)
        then have "leaf P q" by (simp add: leaf_def)
        then obtain p' where "(q, p') \<in> set clist" using cp(1) s unfolding complete_def by blast
        then have "has_match clist" using s(3) by (force simp: has_match_def)
        moreover have "best = None \<or> fst (the best) \<le> pos" 
          using i2 [rule_format, of "fst (the best)" "snd (the best)"] by (cases best) auto
        ultimately show ?thesis using bu2 \<open>e = pos\<close> by blast
      qed
    qed
  qed
  have "loop_inv start (Suc pos) v' gen1 nlist best'"
    unfolding loop_inv_def
  proof (intro conjI)
    show "\<forall>e p. best' = Some (e, p) \<longrightarrow> e < Suc pos \<and> is_match start (rev p) e"
      using b1 by (intro allI impI)
    show "longest \<or> best' = None \<longrightarrow> complete start (Suc pos) nlist \<and>
        (\<forall>vs e. is_match start vs e \<and> e < Suc pos \<longrightarrow> (\<exists>e' p. best' = Some (e', p) \<and> e \<le> e'))"
      using b2 by (rule impI)
  qed (use dfs_gen_inv [OF d' g1(1)] i1(2) nv in simp_all)
  then show ?thesis using r(1) unfolding r' by (intro exI conjI)
qed

lemma run_loop_spec:
  assumes "loop_inv start pos v gen clist best"
  shows "\<exists>v' gen' best'. run_loop P n longest rowb pos v gen clist best = Some (v', gen', best') \<and>
    gen_inv P v' gen' \<and> run_post start best'"
proof -
  have "P' = P \<Longrightarrow> n' = n \<Longrightarrow> l' = longest \<Longrightarrow> r' = rowb \<Longrightarrow> loop_inv start pos v gen clist best \<Longrightarrow>
    \<exists>v' gen' best'. run_loop P' n' l' r' pos v gen clist best = Some (v', gen', best') \<and>
      gen_inv P v' gen' \<and> run_post start best'" for P' n' l' r'
  proof (induction P' n' l' r' pos v gen clist best rule: run_loop.induct)
    case (1 P' n' l' r' pos v gen clist best)
    show ?case
    proof (cases "clist = []")
      case True
      then have "loop_inv start pos v gen [] best" using 1(6) by simp
      moreover from this have "gen_inv P v gen" unfolding loop_inv_def by blast
      ultimately show ?thesis using loop_inv_final by (simp add: True run_loop.simps [of P'])
    next
      case False
      obtain v1 gen1 where g: "nextGen v gen = (v1, gen1)" by fastforce
      obtain v' nlist best' where s: "run_threads P n longest rowb gen1 pos clist v1 [] best = Some (v', nlist, best')"
        "loop_inv start (Suc pos) v' gen1 nlist best'" using loop_inv_step [OF 1(6) g] by blast
      have s': "run_threads P' n' l' r' (snd (nextGen v gen)) pos clist (fst (nextGen v gen)) [] best = Some (v', nlist, best')"
        using s(1) g 1(2-5) by simp
      have "loop_inv start (pos + 1) v' (snd (nextGen v gen)) nlist best'" using s(2) g by simp
      from 1(1) [OF False s' refl refl 1(2-5) this]
      show ?thesis using False s' by (simp add: run_loop.simps [of P' n' l' r' pos])
    qed
  qed
  then show ?thesis using assms by blast
qed

theorem run_spec:
  assumes "gen_inv P v gen"
  shows "\<exists>v' gen' best. run P n longest rowb v gen start = Some (v', gen', best) \<and>
    gen_inv P v' gen' \<and> run_post start best"
proof -
  obtain v1 gen1 where g: "nextGen v gen = (v1, gen1)" by fastforce
  have g1: "gen_inv P v1 gen1" "marked gen1 v1 = {}" using nextGen_fresh [OF assms g] by blast+
  have P0: "0 < length P" using closed by (simp add: closed_program_def)
  obtain v2 clist where a: "add P n gen1 start [] v1 [] 0 = Some (v2, clist)" "dfs n ok P start gen1 v1 clist v2"
    "0 \<in> marked gen1 v2"
    "\<forall>(q, p) \<in> set clist. p = [] \<and> q < length P \<and> leaf P q \<and> (\<exists>k. steps n ok P k 0 start [] q start)"
    using add_spec [OF closed _ P0, of v1 n ok gen1 start "[]" "[]"] g1(1)
    by (auto simp: add_ok_def gen_inv_def)
  have "complete start start clist"
    unfolding complete_def
  proof (intro allI impI)
    fix k vs q
    assume s: "steps n ok P k 0 start vs q start" and q: "q < length P" "leaf P q"
    have "vs = []" using steps_length [OF s] by simp
    moreover have "\<forall>q \<in> marked gen1 v2. \<forall>q'. pstep n ok P q start [] q' start \<longrightarrow> q' \<in> marked gen1 v2"
      using dfsD [OF a(2)] g1(2) by blast
    ultimately have "q \<in> marked gen1 v2" using eps_closed [OF _ a(3)] s by blast
    then show "\<exists>p. (q, p) \<in> set clist" using dfsD [OF a(2)] g1(2) q(2) by blast
  qed
  moreover have "\<not> is_match start vs e" if "e < start" for vs e
    using that steps_length by (fastforce simp: is_match_def)
  moreover have "valid start start th" if "th \<in> set clist" for th
  proof -
    have "snd th = [] \<and> fst th < length P \<and> leaf P (fst th) \<and> (\<exists>k. steps n ok P k 0 start [] (fst th) start)"
      using bspec [OF a(4) that] by (simp add: case_prod_beta)
    then show ?thesis by (simp add: valid_def)
  qed
  ultimately have "loop_inv start start v2 gen1 clist None"
    using dfs_gen_inv [OF a(2) g1(1)] by (auto simp: loop_inv_def)
  from run_loop_spec [OF this] show ?thesis using a(1) by (simp add: run_def g)
qed

end

end
