(* ===== verification/MR_Props.thy ===== *)
theory MR_Props
  imports MR_Correct
begin

text \<open>
  The properties of MATCH_RECOGNIZE as a whole: what a compiled program is, what a run of the
  machine on it returns, and what the window function reports for each row.
\<close>

section \<open>Compiled programs\<close>

text \<open>The pattern variables of a pattern are predicate columns of the row.\<close>

primrec vars_ok :: "int \<Rightarrow> mrPatternNode \<Rightarrow> bool" where
  "vars_ok m (PVar v) \<longleftrightarrow> 0 \<le> v \<and> v < m"
| "vars_ok m PEmpty \<longleftrightarrow> True"
| "vars_ok m PStart \<longleftrightarrow> True"
| "vars_ok m PEnd \<longleftrightarrow> True"
| "vars_ok m (PCat cs) \<longleftrightarrow> list_all id (map (vars_ok m) cs)"
| "vars_ok m (PAlt cs) \<longleftrightarrow> list_all id (map (vars_ok m) cs)"
| "vars_ok m (PQuant lo hi r cs) \<longleftrightarrow> list_all id (map (vars_ok m) cs)"
| "vars_ok m (PUnknown t) \<longleftrightarrow> True"

definition code_vars :: "int \<Rightarrow> mrInst list \<Rightarrow> bool" where
  "code_vars m c \<longleftrightarrow> (\<forall>x \<in> set c. i_op x = mrOpVar \<longrightarrow> 0 \<le> i_v x \<and> i_v x < m)"

definition keeps_vars :: "int \<Rightarrow> code_gen \<Rightarrow> bool" where
  "keeps_vars m f \<longleftrightarrow> (\<forall>c c'. code_vars m c \<longrightarrow> f c = Inr c' \<longrightarrow> code_vars m c')"

lemma keeps_varsD: "keeps_vars m f \<Longrightarrow> code_vars m c \<Longrightarrow> f c = Inr c' \<Longrightarrow> code_vars m c'"
  by (simp add: keeps_vars_def)

lemma code_vars_append [simp]: "code_vars m (c @ [x]) \<longleftrightarrow> code_vars m c \<and> (i_op x = mrOpVar \<longrightarrow> 0 \<le> i_v x \<and> i_v x < m)"
  by (auto simp: code_vars_def)

lemma code_vars_update:
  assumes "code_vars m c" "i_op x = i_op (c ! k)" "i_v x = i_v (c ! k)"
  shows "code_vars m (c[k := x])"
proof (cases "k < length c")
  case True
  then show ?thesis
    using assms set_update_subset_insert [of c k x] nth_mem [OF True] unfolding code_vars_def by fastforce
next
  case False
  then show ?thesis using assms(1) by (simp add: list_update_beyond)
qed

lemma keeps_vars_bind:
  assumes "keeps_vars m f" "keeps_vars m g"
  shows "keeps_vars m (\<lambda>c. bind_res (f c) g)"
  unfolding keeps_vars_def
proof (intro allI impI)
  fix c c'
  assume c: "code_vars m c" and b: "bind_res (f c) g = Inr c'"
  obtain c1 where c1: "f c = Inr c1" "g c1 = Inr c'" using b by (auto simp: bind_res_Inr_iff)
  have "code_vars m c1" by (rule keeps_varsD [of m f c c1, OF assms(1) c c1(1)])
  then show "code_vars m c'" by (rule keeps_varsD [of m g c1 c', OF assms(2) _ c1(2)])
qed

lemma keeps_vars_cat: "\<forall>f \<in> set fs. keeps_vars m f \<Longrightarrow> keeps_vars m (compile_cat fs)"
proof (induction fs)
  case (Cons f fs)
  then have "keeps_vars m (\<lambda>c. bind_res (f c) (compile_cat fs))" by (intro keeps_vars_bind) simp_all
  moreover have "compile_cat (f # fs) = (\<lambda>c. bind_res (f c) (compile_cat fs))" by (rule ext) simp
  ultimately show ?case by simp
next
  case Nil
  show ?case by (simp add: keeps_vars_def)
qed

lemma keeps_vars_times: "keeps_vars m f \<Longrightarrow> keeps_vars m (compile_times k f)"
proof (induction k)
  case (Suc k)
  then have "keeps_vars m (\<lambda>c. bind_res (f c) (compile_times k f))" by (intro keeps_vars_bind)
  moreover have "compile_times (Suc k) f = (\<lambda>c. bind_res (f c) (compile_times k f))" by (rule ext) simp
  ultimately show ?case by simp
next
  case 0
  show ?case by (simp add: keeps_vars_def)
qed

lemma compile_alt_vars:
  "\<forall>f \<in> set fs. keeps_vars m f \<Longrightarrow> code_vars m c \<Longrightarrow> compile_alt fs c js = Inr (c', js') \<Longrightarrow> code_vars m c'"
proof (induction fs arbitrary: c js)
  case (Cons f fs)
  show ?case
  proof (cases fs)
    case Nil
    then show ?thesis using Cons.prems by (auto simp: bind_res_Inr_iff dest: keeps_varsD)
  next
    case (Cons g gs)
    then obtain c2 where f: "f ((c @ [inst mrOpSplit])[length c := (inst mrOpSplit)\<lparr>i_x := Suc (length c)\<rparr>]) = Inr c2"
      and rest: "compile_alt fs ((c2 @ [inst mrOpJmp])[length c := ((c2 @ [inst mrOpJmp]) ! length c)\<lparr>i_y := Suc (length c2)\<rparr>])
        (js @ [length c2]) = Inr (c', js')"
      using Cons.prems(3) by (auto simp: bind_res_Inr_iff emit_Inr split: prod.splits)
    have "keeps_vars m f" using Cons.prems(1) by simp
    then have "code_vars m c2"
      using keeps_varsD [of m f "c @ [(inst mrOpSplit)\<lparr>i_x := Suc (length c)\<rparr>]" c2] f Cons.prems(2)
      by (simp add: inst_def)
    then show ?thesis
      using Cons.IH [OF _ _ rest] Cons.prems(1) by (simp add: code_vars_update inst_def)
  qed
qed simp

lemma compile_opts_vars:
  "keeps_vars m f \<Longrightarrow> code_vars m c \<Longrightarrow> compile_opts k f c ss = Inr (c', ss') \<Longrightarrow> code_vars m c'"
proof (induction k arbitrary: c ss)
  case (Suc k)
  then obtain c2 where f: "f (c @ [inst mrOpSplit]) = Inr c2" "compile_opts k f c2 (ss @ [length c]) = Inr (c', ss')"
    by (auto simp: bind_res_Inr_iff emit_Inr split: prod.splits)
  have "code_vars m c2"
    using keeps_varsD [of m f "c @ [inst mrOpSplit]" c2] Suc.prems(1,2) f(1) by (simp add: inst_def)
  then show ?case using Suc.IH Suc.prems(1) f(2) by blast
qed simp

lemma patch_jumps_vars: "code_vars m c \<Longrightarrow> code_vars m (patch_jumps js c)"
  unfolding patch_jumps_def by (induction js arbitrary: c) (simp_all add: code_vars_update)

lemma setSplit_vars: "code_vars m c \<Longrightarrow> code_vars m (setSplit c a b e r)"
  by (simp add: setSplit_def code_vars_update)

lemma patch_splits_vars: "code_vars m c \<Longrightarrow> code_vars m (patch_splits r ss c)"
  unfolding patch_splits_def by (induction ss arbitrary: c) (simp_all add: setSplit_vars)

lemma keeps_vars_quant:
  assumes "\<forall>f \<in> set fs. keeps_vars m f"
  shows "keeps_vars m (compile_quant bounds lo hi r fs)"
  unfolding keeps_vars_def
proof (intro allI impI)
  fix c c'
  assume c: "code_vars m c" and q: "compile_quant bounds lo hi r fs c = Inr c'"
  obtain f fs' where fs: "fs = f # fs'"
    using q by (cases fs) (auto simp: compile_quant_def bind_res_Inr_iff split: if_splits)
  have f: "keeps_vars m f" using assms fs by simp
  have star: "keeps_vars m (\<lambda>c1. bind_res (emit c1 (inst mrOpSplit)) (\<lambda>(c2, loop).
    bind_res (f c2) (\<lambda>c3. bind_res (emit c3 ((inst mrOpJmp)\<lparr>i_x := loop\<rparr>)) (\<lambda>(c4, _).
      Inr (setSplit c4 loop (loop + 1) (length c4) r)))))"
    unfolding keeps_vars_def
  proof (intro allI impI)
    fix c c'
    assume c: "code_vars m c" and b: "bind_res (emit c (inst mrOpSplit)) (\<lambda>(c2, loop).
      bind_res (f c2) (\<lambda>c3. bind_res (emit c3 ((inst mrOpJmp)\<lparr>i_x := loop\<rparr>)) (\<lambda>(c4, _).
        Inr (setSplit c4 loop (loop + 1) (length c4) r)))) = Inr c'"
    obtain c3 where c3: "f (c @ [inst mrOpSplit]) = Inr c3"
      "c' = setSplit (c3 @ [(inst mrOpJmp)\<lparr>i_x := length c\<rparr>]) (length c) (Suc (length c)) (Suc (length c3)) r"
      using b by (auto simp: bind_res_Inr_iff emit_Inr)
    have "code_vars m c3"
      using keeps_varsD [of m f "c @ [inst mrOpSplit]" c3] f c c3(1) by (simp add: inst_def)
    then show "code_vars m c'" by (simp add: c3(2) setSplit_vars inst_def)
  qed
  have opts: "keeps_vars m (\<lambda>c1. bind_res (compile_opts k f c1 []) (\<lambda>(c2, splits). Inr (patch_splits r splits c2)))" for k
    unfolding keeps_vars_def using compile_opts_vars [OF f] patch_splits_vars
    by (fastforce simp: bind_res_Inr_iff)
  obtain l b h hasHi where l: "boundValue bounds lo = Inr (l, b)" "boundValue bounds hi = Inr (h, hasHi)"
    using q by (auto simp: compile_quant_def bind_res_Inr_iff)
  have "bind_res (compile_times (nat l) f c) (\<lambda>c1. if \<not> hasHi then bind_res (emit c1 (inst mrOpSplit)) (\<lambda>(c2, loop).
    bind_res (f c2) (\<lambda>c3. bind_res (emit c3 ((inst mrOpJmp)\<lparr>i_x := loop\<rparr>)) (\<lambda>(c4, _).
      Inr (setSplit c4 loop (loop + 1) (length c4) r))))
    else bind_res (compile_opts (nat (h - l)) f c1 []) (\<lambda>(c2, splits). Inr (patch_splits r splits c2))) = Inr c'"
    using q by (simp add: compile_quant_def l fs split: if_splits)
  moreover have "keeps_vars m (\<lambda>c. bind_res (compile_times (nat l) f c) (\<lambda>c1. if \<not> hasHi then bind_res (emit c1 (inst mrOpSplit)) (\<lambda>(c2, loop).
    bind_res (f c2) (\<lambda>c3. bind_res (emit c3 ((inst mrOpJmp)\<lparr>i_x := loop\<rparr>)) (\<lambda>(c4, _).
      Inr (setSplit c4 loop (loop + 1) (length c4) r))))
    else bind_res (compile_opts (nat (h - l)) f c1 []) (\<lambda>(c2, splits). Inr (patch_splits r splits c2))))"
    using star opts by (intro keeps_vars_bind keeps_vars_times [OF f]) (cases hasHi; simp)
  ultimately show "code_vars m c'" using c by (simp add: keeps_vars_def)
qed

lemma keeps_vars_alt:
  assumes "\<forall>f \<in> set fs. keeps_vars m f"
  shows "keeps_vars m (\<lambda>c. bind_res (compile_alt fs c []) (\<lambda>(c', jumps). Inr (patch_jumps jumps c')))"
  unfolding keeps_vars_def using compile_alt_vars [OF assms] patch_jumps_vars
  by (fastforce simp: bind_res_Inr_iff)

lemma keeps_vars_emit:
  "i_op x = mrOpVar \<longrightarrow> 0 \<le> i_v x \<and> i_v x < m \<Longrightarrow> keeps_vars m (\<lambda>c. map_sum id fst (emit c x))"
  by (auto simp: keeps_vars_def emit_def split: if_splits)

lemma compile_vars: "vars_ok m p \<Longrightarrow> keeps_vars m (compile bounds p)"
proof (induction p)
  case (PAlt cs)
  then have "\<forall>f \<in> set (map (compile bounds) cs). keeps_vars m f" by (simp add: list_all_iff)
  then show ?case unfolding compile.simps by (rule keeps_vars_alt)
next
  case (PCat cs)
  then have "\<forall>f \<in> set (map (compile bounds) cs). keeps_vars m f" by (simp add: list_all_iff)
  then show ?case unfolding compile.simps by (rule keeps_vars_cat)
next
  case (PQuant lo hi r cs)
  then have "\<forall>f \<in> set (map (compile bounds) cs). keeps_vars m f" by (simp add: list_all_iff)
  then show ?case unfolding compile.simps by (rule keeps_vars_quant)
next
  case (PVar v)
  then show ?case unfolding compile.simps by (intro keeps_vars_emit) (simp add: inst_def)
next
  case PStart
  then show ?case unfolding compile.simps by (intro keeps_vars_emit) (simp add: inst_def)
next
  case PEnd
  then show ?case unfolding compile.simps by (intro keeps_vars_emit) (simp add: inst_def)
qed (simp_all add: keeps_vars_def)

lemma mrCompile_Inr:
  assumes "mrCompile spec bounds = Inr prog"
  obtains c where "compile bounds (sp_P spec) [] = Inr c" "p_insts prog = c @ [inst mrOpMatch]"
    "length c < mrMaxProgram" "p_nv prog = sp_NV spec" "p_skip prog = sp_Skip spec"
  using assms by (auto simp: mrCompile_def bind_res_Inr_iff emit_Inr)

lemma compiled_frag:
  assumes "mrCompile spec bounds = Inr prog"
  shows "p_insts prog \<noteq> []" "i_op (p_insts prog ! (length (p_insts prog) - 1)) = mrOpMatch"
    "frag n ok (p_insts prog) 0 (length (p_insts prog) - 1) (pmatch n ok bounds (sp_P spec))"
proof -
  obtain c where c: "compile bounds (sp_P spec) [] = Inr c" "p_insts prog = c @ [inst mrOpMatch]"
    by (rule mrCompile_Inr [OF assms])
  have "agree (p_insts prog) c 0 (length c)" by (simp add: agree_def c(2) nth_append)
  then show "frag n ok (p_insts prog) 0 (length (p_insts prog) - 1) (pmatch n ok bounds (sp_P spec))"
    using gen_okD(2) [OF compile_ok c(1)] by (simp add: c(2))
  show "p_insts prog \<noteq> []" "i_op (p_insts prog ! (length (p_insts prog) - 1)) = mrOpMatch"
    by (simp_all add: c(2) inst_def)
qed

lemma compiled_closed:
  assumes "mrCompile spec bounds = Inr prog"
  shows "closed_program (p_insts prog)"
proof -
  let ?P = "p_insts prog"
  note f = compiled_frag [OF assms]
  have "case i_op (?P ! pc) of mrOpJmp \<Rightarrow> i_x (?P ! pc) < length ?P
      | mrOpSplit \<Rightarrow> i_x (?P ! pc) < length ?P \<and> i_y (?P ! pc) < length ?P
      | mrOpMatch \<Rightarrow> True | _ \<Rightarrow> Suc pc < length ?P" if "pc < length ?P" for pc
  proof (cases "pc = length ?P - 1")
    case True
    then show ?thesis using f(2) by simp
  next
    case False
    then have "target_ok (?P ! pc) 0 (length ?P - 1)" "Suc pc < length ?P"
      using frag_code [OF f(3)] that by (auto simp: code_in_def)
    then show ?thesis using f(1) by (auto simp: target_ok_def split: mrOp.splits)
  qed
  then show ?thesis using f(1) by (simp add: closed_program_def)
qed

text \<open>The accepting runs of a compiled program are the matches of its pattern.\<close>

lemma compiled_language:
  assumes "mrCompile spec bounds = Inr prog"
  shows "(\<exists>k q. steps n ok (p_insts prog) k 0 i vs q j \<and> q < length (p_insts prog) \<and>
      i_op (p_insts prog ! q) = mrOpMatch) \<longleftrightarrow> pmatch n ok bounds (sp_P spec) i vs j"
proof
  let ?P = "p_insts prog" and ?b = "length (p_insts prog) - 1"
  note f = compiled_frag [OF assms]
  assume "\<exists>k q. steps n ok ?P k 0 i vs q j \<and> q < length ?P \<and> i_op (?P ! q) = mrOpMatch"
  then obtain k q where k: "steps n ok ?P k 0 i vs q j" "q < length ?P" "i_op (?P ! q) = mrOpMatch" by blast
  have "\<not> q < ?b" using frag_code [OF f(3)] k(3) by (auto simp: code_in_def target_ok_def)
  then have nb: "\<not> (0 \<le> q \<and> q < ?b)" by simp
  obtain m us ws l where
    e: "vs = us @ ws" "pmatch n ok bounds (sp_P spec) i us l" "steps n ok ?P m ?b l ws q j"
    by (rule frag_exit [OF f(3) k(1) nb])
  have "ws = [] \<and> l = j"
    using e(3)
  proof cases
    case (steps_Suc us pc' i' k vs)
    then show ?thesis using f(1,2) pstep_op(6) [of ?b ?P] by (simp add: length_greater_0_conv)
  qed simp
  then show "pmatch n ok bounds (sp_P spec) i vs j" using e by simp
next
  let ?P = "p_insts prog" and ?b = "length (p_insts prog) - 1"
  note f = compiled_frag [OF assms]
  assume "pmatch n ok bounds (sp_P spec) i vs j"
  from frag_run [OF f(3) this] obtain k where "steps n ok ?P k 0 i vs ?b j" by blast
  then show "\<exists>k q. steps n ok ?P k 0 i vs q j \<and> q < length ?P \<and> i_op (?P ! q) = mrOpMatch"
    using f(1,2) by (intro exI [of _ k] exI [of _ ?b]) simp
qed

section \<open>The machine on compiled programs\<close>

text \<open>
  The machine is interpreted on the programs the compiler returns and the predicate rows of the
  window; a window whose rows do not fit the program counts as empty.
\<close>

definition mr_code :: "mrSpec \<Rightarrow> val option list \<Rightarrow> mrInst list" where
  "mr_code spec bounds = (case mrCompile spec bounds of Inr prog \<Rightarrow> p_insts prog | Inl _ \<Rightarrow> [inst mrOpMatch])"

definition mr_rows :: "mrSpec \<Rightarrow> val option list \<Rightarrow> bool list \<Rightarrow> int \<Rightarrow> nat \<Rightarrow> nat" where
  "mr_rows spec bounds bits m n = (if rows_ok (mr_code spec bounds) n (row_bit bits m) then n else 0)"

interpretation mr: pike_vm "mr_code spec bounds" "mr_rows spec bounds bits m n" longest "row_bit bits m"
  for spec bounds bits m n longest
proof unfold_locales
  show "closed_program (mr_code spec bounds)"
    using compiled_closed [of spec bounds]
    by (auto simp: mr_code_def closed_program_def inst_def split: sum.splits)
  show "rows_ok (mr_code spec bounds) (mr_rows spec bounds bits m n) (row_bit bits m)"
    by (simp add: mr_rows_def rows_ok_def)
qed

lemma mr_code_compiled: "mrCompile spec bounds = Inr prog \<Longrightarrow> mr_code spec bounds = p_insts prog"
  by (simp add: mr_code_def)

text \<open>Rows fit when the window holds a predicate for every variable of the pattern.\<close>

lemma rows_fit:
  assumes "mrCompile spec bounds = Inr prog" "vars_ok (sp_NV spec) (sp_P spec)"
    "int (length bits) = int n * sp_NV spec"
  shows "rows_ok (p_insts prog) n (row_bit bits (p_nv prog))"
proof -
  obtain c where c: "compile bounds (sp_P spec) [] = Inr c" "p_insts prog = c @ [inst mrOpMatch]"
    "p_nv prog = sp_NV spec" by (rule mrCompile_Inr [OF assms(1)])
  have "code_vars (sp_NV spec) c"
    using keeps_varsD [OF compile_vars [OF assms(2)] _ c(1)] by (simp add: code_vars_def)
  then have v: "code_vars (sp_NV spec) (p_insts prog)" by (simp add: c(2) inst_def)
  have "row_bit bits (sp_NV spec) i w \<noteq> None" if "i < n" "0 \<le> w" "w < sp_NV spec" for i w
  proof -
    have "int i * sp_NV spec + w < (int i + 1) * sp_NV spec" using that by (simp add: distrib_right)
    also have "\<dots> \<le> int n * sp_NV spec" using that by (intro mult_right_mono) auto
    finally have "int i * sp_NV spec + w < int (length bits)" using assms(3) by simp
    then show ?thesis using that by (simp add: row_bit_def)
  qed
  then show ?thesis using v unfolding rows_ok_def code_vars_def c(3) by blast
qed

lemma run_compiled:
  assumes "mrCompile spec bounds = Inr prog" "vars_ok (sp_NV spec) (sp_P spec)"
    "int (length bits) = int n * sp_NV spec" "gen_inv (p_insts prog) v gen"
  shows "\<exists>v' gen' best. run (p_insts prog) n longest (row_bit bits (p_nv prog)) v gen start = Some (v', gen', best) \<and>
    gen_inv (p_insts prog) v' gen' \<and>
    (\<forall>e p. best = Some (e, p) \<longrightarrow> pmatch n (\<lambda>i w. row_bit bits (p_nv prog) i w = Some True) bounds (sp_P spec) start (rev p) e) \<and>
    (longest \<or> best = None \<longrightarrow> (\<forall>vs e. pmatch n (\<lambda>i w. row_bit bits (p_nv prog) i w = Some True) bounds (sp_P spec) start vs e \<longrightarrow>
       (\<exists>e' p. best = Some (e', p) \<and> e \<le> e')))"
proof -
  have r: "mr_rows spec bounds bits (p_nv prog) n = n"
    using rows_fit [OF assms(1-3)] by (simp add: mr_rows_def mr_code_compiled [OF assms(1)])
  note lang = compiled_language [OF assms(1), of n "\<lambda>i w. row_bit bits (p_nv prog) i w = Some True"]
  note s = mr.run_spec [where spec = spec and bounds = bounds and bits = bits and m = "p_nv prog" and n = n
      and v = v and gen = gen and longest = longest and start = start,
      unfolded mr.run_post_def mr.is_match_def, unfolded r mr_code_compiled [OF assms(1)] lang]
  show ?thesis by (rule s [OF assms(4)])
qed

section \<open>The rows of the matches\<close>

text \<open>
  The specification of the scan over the start rows: \<open>M s vs\<close> says that the rows from
  \<open>s\<close> on match with classification \<open>vs\<close>. A row where nothing matches is passed over; at
  any other row one match is taken, the longest in longest mode, and the scan goes on after it or,
  for an empty match or SKIP TO NEXT ROW, at the next row.
\<close>

inductive scan :: "nat \<Rightarrow> bool \<Rightarrow> int \<Rightarrow> (nat \<Rightarrow> int list \<Rightarrow> bool) \<Rightarrow> nat \<Rightarrow> (nat \<times> int list) list \<Rightarrow> bool"
  for n longest sk M where
  scan_end: "n \<le> s \<Longrightarrow> scan n longest sk M s []"
| scan_none: "s < n \<Longrightarrow> \<forall>vs. \<not> M s vs \<Longrightarrow> scan n longest sk M (Suc s) ms \<Longrightarrow> scan n longest sk M s ms"
| scan_match: "s < n \<Longrightarrow> M s vs \<Longrightarrow> longest \<longrightarrow> (\<forall>us. M s us \<longrightarrow> length us \<le> length vs) \<Longrightarrow>
    scan n longest sk M (if vs = [] \<or> sk = 1 then Suc s else s + length vs) ms \<Longrightarrow>
    scan n longest sk M s ((s, vs) # ms)"

text \<open>The entries of row \<open>r\<close>: one per match that contains it, in match order.\<close>

definition match_entry :: "int \<Rightarrow> nat \<Rightarrow> int list \<Rightarrow> nat \<Rightarrow> mrEntry list" where
  "match_entry k s vs r =
     (if vs = [] then if r = s then [\<lparr>e_mn = k, e_mrn = 0, e_v = - 1\<rparr>] else []
      else if s \<le> r \<and> r < s + length vs
           then [\<lparr>e_mn = k, e_mrn = int (r - s) + 1, e_v = vs ! (r - s)\<rparr>] else [])"

fun row_entries :: "int \<Rightarrow> (nat \<times> int list) list \<Rightarrow> nat \<Rightarrow> mrEntry list" where
  "row_entries k [] r = []"
| "row_entries k ((s, vs) # ms) r = match_entry k s vs r @ row_entries (k + 1) ms r"

lemma put_entries_spec:
  "s + i + length vs \<le> length results \<Longrightarrow> put_entries results mn s i vs = Some (map (\<lambda>r. results ! r @
     (if s + i \<le> r \<and> r < s + i + length vs
      then [\<lparr>e_mn = mn, e_mrn = int (r - s) + 1, e_v = vs ! (r - s - i)\<rparr>] else [])) [0..<length results])"
proof (induction vs arbitrary: results i)
  case Nil
  show ?case by (auto intro!: nth_equalityI)
next
  case (Cons x vs)
  let ?e = "\<lambda>v r. \<lparr>e_mn = mn, e_mrn = int (r - s) + 1, e_v = v\<rparr>"
  let ?res = "results[s + i := results ! (s + i) @ [?e x (s + i)]]"
  have l: "s + i < length results" "s + (i + 1) + length vs \<le> length ?res" using Cons.prems by simp_all
  have "put_entries results mn s i (x # vs) = put_entries ?res mn s (i + 1) vs" using l(1) by simp
  also have "\<dots> = Some (map (\<lambda>r. ?res ! r @ (if s + (i + 1) \<le> r \<and> r < s + (i + 1) + length vs
      then [?e (vs ! (r - s - (i + 1))) r] else [])) [0..<length ?res])"
    by (rule Cons.IH [OF l(2)])
  also have "\<dots> = Some (map (\<lambda>r. results ! r @ (if s + i \<le> r \<and> r < s + i + length (x # vs)
      then [?e ((x # vs) ! (r - s - i)) r] else [])) [0..<length results])"
  proof -
    have "?res ! r @ (if s + (i + 1) \<le> r \<and> r < s + (i + 1) + length vs then [?e (vs ! (r - s - (i + 1))) r] else [])
        = results ! r @ (if s + i \<le> r \<and> r < s + i + length (x # vs) then [?e ((x # vs) ! (r - s - i)) r] else [])"
      if "r < length results" for r
    proof -
      consider "r = s + i" | "r < s + i" | "s + i < r" by linarith
      then show ?thesis
      proof cases
        case 3
        then have "(x # vs) ! (r - s - i) = vs ! (r - s - (i + 1))" by (simp add: nth_Cons')
        then show ?thesis using 3 by auto
      qed (use l(1) in auto)
    qed
    then show ?thesis by simp
  qed
  finally show ?case .
qed

lemma put_entries_match:
  assumes "vs \<noteq> []" "s + length vs \<le> length results"
  shows "put_entries results k s 0 vs = Some (map (\<lambda>r. results ! r @ match_entry k s vs r) [0..<length results])"
proof -
  have "match_entry k s vs r = (if s + 0 \<le> r \<and> r < s + 0 + length vs
      then [\<lparr>e_mn = k, e_mrn = int (r - s) + 1, e_v = vs ! (r - s - 0)\<rparr>] else [])" for r
    using assms(1) by (simp add: match_entry_def)
  then show ?thesis using put_entries_spec [of s 0 vs results k] assms(2) by simp
qed

lemma empty_entries:
  assumes "s < length results"
  shows "results[s := results ! s @ [\<lparr>e_mn = k, e_mrn = 0, e_v = - 1\<rparr>]] =
    map (\<lambda>r. results ! r @ match_entry k s [] r) [0..<length results]"
  using assms by (intro nth_equalityI) (auto simp: match_entry_def nth_list_update)

text \<open>The loop over the start rows, given what a run returns.\<close>

lemma compute_loop_spec:
  assumes run: "\<And>v gen s. I v gen \<Longrightarrow> \<exists>v' gen' best. run P n longest rowb v gen s = Some (v', gen', best) \<and> I v' gen' \<and>
      (\<forall>e p. best = Some (e, p) \<longrightarrow> M s (rev p) \<and> e = s + length p) \<and>
      (longest \<or> best = None \<longrightarrow> (\<forall>vs. M s vs \<longrightarrow> (\<exists>e p. best = Some (e, p) \<and> length vs \<le> length p)))"
    and bound: "\<And>s vs. s \<le> n \<Longrightarrow> M s vs \<Longrightarrow> s + length vs \<le> n"
    and "I v gen" "length results = n"
  shows "\<exists>ms. scan n longest sk M s ms \<and> compute_loop P n longest sk rowb s mn v gen results =
    Some (map (\<lambda>r. results ! r @ row_entries (mn + 1) ms r) [0..<n])"
  using assms(3,4)
proof (induction "n - s" arbitrary: s mn v gen results rule: less_induct)
  case less
  show ?case
  proof (cases "n \<le> s")
    case True
    then have "compute_loop P n longest sk rowb s mn v gen results = Some results"
      by (subst compute_loop.simps) simp
    moreover have "results = map (\<lambda>r. results ! r @ row_entries (mn + 1) [] r) [0..<n]"
      using map_nth [of results] less.prems(2) by simp
    ultimately show ?thesis using scan_end [OF True] by (intro exI [of _ "[]"] conjI) simp_all
  next
    case False
    then have s: "s < n" by simp
    obtain v' gen' best where r: "run P n longest rowb v gen s = Some (v', gen', best)" "I v' gen'"
      "\<forall>e p. best = Some (e, p) \<longrightarrow> M s (rev p) \<and> e = s + length p"
      "longest \<or> best = None \<longrightarrow> (\<forall>vs. M s vs \<longrightarrow> (\<exists>e p. best = Some (e, p) \<and> length vs \<le> length p))"
      using run [OF less.prems(1), of s] by (elim exE conjE)
    show ?thesis
    proof (cases best)
      case None
      have lt: "n - (s + 1) < n - s" using s by simp
      obtain ms where ms: "scan n longest sk M (s + 1) ms" "compute_loop P n longest sk rowb (s + 1) mn v' gen' results =
          Some (map (\<lambda>r. results ! r @ row_entries (mn + 1) ms r) [0..<n])"
        using less.hyps [OF lt r(2) less.prems(2), of mn] by (elim exE conjE)
      have "\<forall>vs. \<not> M s vs" using r(4) None by simp
      from scan_none [where M = M, OF s this] have "scan n longest sk M s ms" using ms(1) by simp
      moreover have "compute_loop P n longest sk rowb s mn v gen results =
          compute_loop P n longest sk rowb (s + 1) mn v' gen' results"
        using r(1) None s by (subst compute_loop.simps) simp
      ultimately show ?thesis using ms(2) by (intro exI [of _ ms]) simp
    next
      case (Some ep)
      then obtain e p where b: "best = Some (e, p)" by (cases ep) auto
      then have m: "M s (rev p)" "e = s + length p" using r(3) by simp_all
      have long: "longest \<longrightarrow> (\<forall>us. M s us \<longrightarrow> length us \<le> length (rev p))" using r(4) b by simp
      let ?next = "if rev p = [] \<or> sk = 1 then Suc s else s + length (rev p)"
      let ?res = "map (\<lambda>r. results ! r @ match_entry (mn + 1) s (rev p) r) [0..<n]"
      have lt: "n - ?next < n - s" using s by (cases p) auto
      have len: "length ?res = n" by simp
      obtain ms where ms: "scan n longest sk M ?next ms"
        "compute_loop P n longest sk rowb ?next (mn + 1) v' gen' ?res =
          Some (map (\<lambda>r. ?res ! r @ row_entries (mn + 1 + 1) ms r) [0..<n])"
        using less.hyps [OF lt r(2) len, of "mn + 1"] by (elim exE conjE)
      have "compute_loop P n longest sk rowb s mn v gen results = compute_loop P n longest sk rowb ?next (mn + 1) v' gen' ?res"
      proof (cases "p = []")
        case True
        then show ?thesis
          using empty_entries [of s results "mn + 1"] less.prems(2) r(1) b m(2) s
          by (subst compute_loop.simps) simp
      next
        case False
        have "put_entries results (mn + 1) s 0 (rev p) = Some ?res"
          using put_entries_match [of "rev p" s results "mn + 1"] False bound [OF _ m(1)] s less.prems(2) by simp
        then show ?thesis
          using r(1) b m(2) s False by (subst compute_loop.simps) (simp add: path_vars_def)
      qed
      also have "\<dots> = Some (map (\<lambda>r. results ! r @ row_entries (mn + 1) ((s, rev p) # ms) r) [0..<n])"
        unfolding ms(2) by simp
      finally show ?thesis using scan_match [where M = M, OF s m(1) long ms(1)] by (intro exI conjI)
    qed
  qed
qed

lemma pmatch_length:
  assumes "mrCompile spec bounds = Inr prog" "pmatch n ok bounds (sp_P spec) i vs j"
  shows "j = i + length vs" "i \<le> n \<Longrightarrow> j \<le> n"
proof -
  obtain k q where "steps n ok (p_insts prog) k 0 i vs q j"
    using compiled_language [OF assms(1), of n ok i vs j] assms(2) by blast
  then show "j = i + length vs" "i \<le> n \<Longrightarrow> j \<le> n" using steps_length steps_bound by blast+
qed

section \<open>An example\<close>

text \<open>The pattern \<open>A B*\<close> over the variables 0 and 1, skipping past the last row.\<close>

definition example_spec :: mrSpec where
  "example_spec = \<lparr>sp_P = PCat [PVar 0, PQuant 0 0 False [PVar 1]], sp_Skip = 0, sp_NB = 0, sp_NV = 2\<rparr>"

definition example_prog :: mrProgram where
  "example_prog = \<lparr>p_insts =
     [\<lparr>i_op = mrOpVar, i_v = 0, i_x = 0, i_y = 0\<rparr>, \<lparr>i_op = mrOpSplit, i_v = 0, i_x = 2, i_y = 4\<rparr>,
      \<lparr>i_op = mrOpVar, i_v = 1, i_x = 0, i_y = 0\<rparr>, \<lparr>i_op = mrOpJmp, i_v = 0, i_x = 1, i_y = 0\<rparr>,
      \<lparr>i_op = mrOpMatch, i_v = 0, i_x = 0, i_y = 0\<rparr>], p_skip = 0, p_nv = 2, p_nb = 0\<rparr>"

text \<open>Three rows: the first is an A, the other two are B.\<close>

definition example_bits :: "bool list" where
  "example_bits = [True, False, False, True, False, True]"

lemma example_compiles: "mrCompile example_spec [] = Inr example_prog"
  by (simp add: mrCompile_def example_spec_def example_prog_def compile_quant_def boundValue_def emit_def
      mrMaxProgram_def inst_def setSplit_def)

lemma example_fields: "sp_NB example_spec = 0" "sp_NV example_spec = 2" "p_nb example_prog = 0"
  by (simp_all add: example_spec_def example_prog_def)

lemma example_vars: "vars_ok (sp_NV example_spec) (sp_P example_spec)"
  by (simp add: example_spec_def)

lemma example_rows: "int (length example_bits) = int 3 * sp_NV example_spec"
  by (simp add: example_spec_def example_bits_def)

lemma example_gen: "gen_inv (p_insts example_prog) (replicate 5 0) 0"
  by (simp add: gen_inv_def example_prog_def)

lemma example_run:
  "run (p_insts example_prog) 3 True (row_bit example_bits (p_nv example_prog)) (replicate 5 0) 0 0 =
     Some ([1, 4, 4, 4, 4], 5, Some (3, [1, 1, 0]))"
  by code_simp

section \<open>Properties\<close>

text \<open>The rows of a window as the specification sees them.\<close>

abbreviation window_ok :: "bool list \<Rightarrow> int \<Rightarrow> nat \<Rightarrow> int \<Rightarrow> bool" where
  "window_ok bits m \<equiv> \<lambda>i w. row_bit bits m i w = Some True"

text \<open>
  C1. The pattern compiler is correct: from row \<open>i\<close> the compiled program can reach its accepting
  instruction at row \<open>j\<close> with classification \<open>vs\<close> exactly when the pattern matches these
  rows in that way, for every pattern (nested alternations, empty bodies, bounded and unbounded
  quantifiers included), every row predicate and every number of rows.
\<close>

theorem mr_compiler_correct:
  assumes "mrCompile spec bounds = Inr prog"
  shows "(\<exists>k q. steps n ok (p_insts prog) k 0 i vs q j \<and> q < length (p_insts prog) \<and>
      i_op (p_insts prog ! q) = mrOpMatch) \<longleftrightarrow> pmatch n ok bounds (sp_P spec) i vs j"
  by (rule compiled_language [OF assms])

theorem mr_compiler_correct_witness:
  "(\<exists>k q. steps 3 (window_ok example_bits 2) (p_insts example_prog) k 0 0 [0, 1, 1] q 3 \<and>
      q < length (p_insts example_prog) \<and> i_op (p_insts example_prog ! q) = mrOpMatch) \<longleftrightarrow>
    pmatch 3 (window_ok example_bits 2) [] (sp_P example_spec) 0 [0, 1, 1] 3"
  by (rule mr_compiler_correct [OF example_compiles])

text \<open>
  C34. A compiled program is safe to run: it has at most 262144 instructions, every jump, split
  and successor stays inside it, and only its last instruction accepts.
\<close>

theorem mr_compiler_safe:
  assumes "mrCompile spec bounds = Inr prog"
  shows "length (p_insts prog) \<le> 262144 \<and> closed_program (p_insts prog) \<and>
    (\<forall>q < length (p_insts prog). i_op (p_insts prog ! q) = mrOpMatch \<longleftrightarrow> q = length (p_insts prog) - 1)"
proof (intro conjI allI impI)
  obtain c where c: "p_insts prog = c @ [inst mrOpMatch]" "length c < mrMaxProgram"
    by (rule mrCompile_Inr [OF assms])
  then show "length (p_insts prog) \<le> 262144" by (simp add: mrMaxProgram_def)
  show "closed_program (p_insts prog)" by (rule compiled_closed [OF assms])
  note f = compiled_frag(1,2) [OF assms] compiled_frag(3) [OF assms, of 0 "\<lambda>_ _. False"]
  fix q
  assume q: "q < length (p_insts prog)"
  have "\<not> i_op (p_insts prog ! q) = mrOpMatch" if ne: "q \<noteq> length (p_insts prog) - 1"
  proof -
    have "q < length (p_insts prog) - 1" using q ne by simp
    then have "target_ok (p_insts prog ! q) 0 (length (p_insts prog) - 1)"
      using frag_code [OF f(3)] by (simp add: code_in_def)
    then show ?thesis by (auto simp: target_ok_def)
  qed
  then show "i_op (p_insts prog ! q) = mrOpMatch \<longleftrightarrow> q = length (p_insts prog) - 1" using f(2) by blast
qed

theorem mr_compiler_safe_witness:
  "closed_program (p_insts example_prog) \<and> (i_op (p_insts example_prog ! 4) = mrOpMatch) = (4 = length (p_insts example_prog) - 1)"
proof -
  have "4 < length (p_insts example_prog)" by (simp add: example_prog_def)
  then show ?thesis using mr_compiler_safe [OF example_compiles] by blast
qed

text \<open>
  C2. A run of the machine on a compiled pattern and a window with one predicate per variable and
  row always returns, without an out-of-range index. When it reports a match, the reported
  classification is a match of the pattern that ends at the reported row; when it reports none, the
  pattern does not match at the start row. The generation marks stay valid for the next run.
\<close>

theorem mr_run_correct:
  assumes "mrCompile spec bounds = Inr prog" "vars_ok (sp_NV spec) (sp_P spec)"
    "int (length bits) = int n * sp_NV spec" "gen_inv (p_insts prog) v gen"
  shows "\<exists>v' gen' best. run (p_insts prog) n longest (row_bit bits (p_nv prog)) v gen start = Some (v', gen', best) \<and>
    gen_inv (p_insts prog) v' gen' \<and>
    (case best of
       Some (e, path) \<Rightarrow> pmatch n (window_ok bits (p_nv prog)) bounds (sp_P spec) start (rev path) e
     | None \<Rightarrow> \<forall>vs e. \<not> pmatch n (window_ok bits (p_nv prog)) bounds (sp_P spec) start vs e)"
  using run_compiled [OF assms, of longest start] by (fastforce split: option.splits)

theorem mr_run_correct_witness:
  "pmatch 3 (window_ok example_bits (p_nv example_prog)) [] (sp_P example_spec) 0 [0, 1, 1] 3"
  using mr_run_correct [OF example_compiles example_vars example_rows example_gen, of True 0]
  by (simp add: example_run)

text \<open>
  C33. In longest mode the reported match is a longest one: no match of the pattern from the same
  start row ends later.
\<close>

theorem mr_run_longest:
  assumes "mrCompile spec bounds = Inr prog" "vars_ok (sp_NV spec) (sp_P spec)"
    "int (length bits) = int n * sp_NV spec" "gen_inv (p_insts prog) v gen"
    "run (p_insts prog) n True (row_bit bits (p_nv prog)) v gen start = Some (v', gen', Some (e, path))"
    "pmatch n (window_ok bits (p_nv prog)) bounds (sp_P spec) start vs e'"
  shows "e' \<le> e"
  using run_compiled [OF assms(1-4), of True start] assms(5,6) by fastforce

lemma example_match: "pmatch 3 (window_ok example_bits (p_nv example_prog)) [] (sp_P example_spec) 0 [0] 1"
proof -
  have "span_quant [] 0 0 [R] 1 [] 1" for R
    unfolding span_quant_def boundValue_def
    by (intro exI [of _ 0] exI [of _ False]) (simp add: span_eps_def)
  moreover have "row_bit example_bits (p_nv example_prog) 0 0 = Some True" by code_simp
  ultimately show ?thesis
    by (simp add: example_spec_def span_seq_def span_eps_def exI [of _ "[0]"] i32_eq)
qed

theorem mr_run_longest_witness:
  "run (p_insts example_prog) 3 True (row_bit example_bits (p_nv example_prog)) (replicate 5 0) 0 0 =
     Some ([1, 4, 4, 4, 4], 5, Some (3, [1, 1, 0])) \<and>
   pmatch 3 (window_ok example_bits (p_nv example_prog)) [] (sp_P example_spec) 0 [0] 1 \<and> (1::nat) \<le> 3"
  using mr_run_longest [OF example_compiles example_vars example_rows example_gen example_run example_match]
    example_run example_match by blast

lemma compute_compiled:
  assumes "mrCompile spec bounds = Inr prog" "vars_ok (sp_NV spec) (sp_P spec)"
    "int (length (w_bits w)) = int (w_n w) * sp_NV spec"
  shows "\<exists>ms. scan (w_n w) (w_longest w) (p_skip prog)
      (\<lambda>s vs. pmatch (w_n w) (window_ok (w_bits w) (p_nv prog)) bounds (sp_P spec) s vs (s + length vs)) 0 ms \<and>
    compute prog w = Some (w\<lparr>w_results := map (row_entries 1 ms) [0..<w_n w]\<rparr>)"
proof -
  let ?n = "w_n w" and ?rb = "row_bit (w_bits w) (p_nv prog)"
  let ?M = "\<lambda>s vs. pmatch ?n (window_ok (w_bits w) (p_nv prog)) bounds (sp_P spec) s vs (s + length vs)"
  let ?I = "gen_inv (p_insts prog)"
  note len = pmatch_length [OF assms(1), of ?n "window_ok (w_bits w) (p_nv prog)"]
  have r: "\<exists>v' gen' best. run (p_insts prog) ?n (w_longest w) ?rb v gen s = Some (v', gen', best) \<and> ?I v' gen' \<and>
      (\<forall>e p. best = Some (e, p) \<longrightarrow> ?M s (rev p) \<and> e = s + length p) \<and>
      (w_longest w \<or> best = None \<longrightarrow> (\<forall>vs. ?M s vs \<longrightarrow> (\<exists>e p. best = Some (e, p) \<and> length vs \<le> length p)))"
    if i: "?I v gen" for v gen s
  proof -
    obtain v' gen' best where b: "run (p_insts prog) ?n (w_longest w) ?rb v gen s = Some (v', gen', best)" "?I v' gen'"
      "\<forall>e p. best = Some (e, p) \<longrightarrow> pmatch ?n (window_ok (w_bits w) (p_nv prog)) bounds (sp_P spec) s (rev p) e"
      "w_longest w \<or> best = None \<longrightarrow> (\<forall>vs e. pmatch ?n (window_ok (w_bits w) (p_nv prog)) bounds (sp_P spec) s vs e \<longrightarrow>
         (\<exists>e' p. best = Some (e', p) \<and> e \<le> e'))"
      using run_compiled [OF assms i, of "w_longest w" s] by (elim exE conjE)
    have m: "?M s (rev p) \<and> e = s + length p" if "best = Some (e, p)" for e p
      using b(3) [rule_format, OF that] len(1) [of s "rev p" e] by simp
    have l: "\<exists>e p. best = Some (e, p) \<and> length vs \<le> length p" if c: "w_longest w \<or> best = None" and v: "?M s vs" for vs
    proof -
      obtain e' p where e: "best = Some (e', p)" "s + length vs \<le> e'" using b(4) c v by blast
      then show ?thesis using m [OF e(1)] by simp
    qed
    show ?thesis
      by (intro exI [of _ v'] exI [of _ gen'] exI [of _ best] conjI b(1,2) allI impI) (use m l in \<open>simp_all\<close>)
  qed
  have i0: "?I (replicate (length (p_insts prog)) 0) 0" by (simp add: gen_inv_def)
  have bound: "s + length vs \<le> ?n" if "s \<le> ?n" "?M s vs" for s vs using len(2) [OF that(2,1)] .
  from compute_loop_spec [where I = ?I and M = ?M, OF r bound i0, of "replicate ?n []" "p_skip prog" 0 0]
  obtain ms where ms: "scan ?n (w_longest w) (p_skip prog) ?M 0 ms"
    "compute_loop (p_insts prog) ?n (w_longest w) (p_skip prog) ?rb 0 0 (replicate (length (p_insts prog)) 0) 0 (replicate ?n [])
      = Some (map (\<lambda>r. replicate ?n [] ! r @ row_entries (0 + 1) ms r) [0..<?n])" by auto
  have "map (\<lambda>r. replicate ?n [] ! r @ row_entries (0 + 1) ms r) [0..<?n] = map (row_entries 1 ms) [0..<?n]"
    by simp
  then show ?thesis using ms unfolding compute_def by auto
qed

section \<open>The states of the window\<close>

text \<open>
  The calls SQLite makes on one window: rows are stepped in with the argument count of the
  function call, removed again by \<open>Inverse\<close>, and \<open>Done\<close> is asked for the current row.
\<close>

inductive window_reach :: "mrSpec \<Rightarrow> matchRecognizeWindow \<Rightarrow> bool" for spec where
  reach_new: "window_reach spec (newMatchRecognizeWindow pid)"
| reach_step: "window_reach spec w \<Longrightarrow> int (length args) = 1 + sp_NB spec + sp_NV spec \<Longrightarrow>
    Step spec args w = Inr w' \<Longrightarrow> window_reach spec w'"
| reach_inverse: "window_reach spec w \<Longrightarrow> window_reach spec (Inverse w)"
| reach_done: "window_reach spec w \<Longrightarrow> Done w = Some (w', res) \<Longrightarrow> window_reach spec w'"

text \<open>The matches of a window.\<close>

definition window_matches :: "mrSpec \<Rightarrow> val option list \<Rightarrow> matchRecognizeWindow \<Rightarrow> (nat \<times> int list) list \<Rightarrow> bool" where
  "window_matches spec bounds w ms \<longleftrightarrow>
     scan (w_n w) (w_longest w) (sp_Skip spec)
       (\<lambda>s vs. pmatch (w_n w) (window_ok (w_bits w) (sp_NV spec)) bounds (sp_P spec) s vs (s + length vs)) 0 ms"

definition window_inv :: "mrSpec \<Rightarrow> matchRecognizeWindow \<Rightarrow> bool" where
  "window_inv spec w \<longleftrightarrow> int (length (w_bits w)) = int (w_n w) * sp_NV spec \<and>
     (case w_prog w of
        None \<Rightarrow> w_n w = 0 \<and> \<not> w_computed w
      | Some prog \<Rightarrow> p_nb prog = sp_NB spec \<and> (\<exists>bounds. mrCompile spec bounds = Inr prog \<and>
          (w_computed w \<longrightarrow> (\<exists>ms. window_matches spec bounds w ms \<and>
             w_results w = map (row_entries 1 ms) [0..<w_n w]))))"

lemma map_sum_id_Inr: "map_sum f id s = Inr y \<longleftrightarrow> s = Inr y"
  by (cases s) auto

lemma truthy_all_length: "truthy_all ps = Inr bs \<Longrightarrow> length bs = length ps"
  by (induction ps arbitrary: bs) (auto simp: bind_res_Inr_iff)

lemma mrCompile_fields:
  assumes "mrCompile spec bounds = Inr prog"
  shows "p_nb prog = sp_NB spec" "p_nv prog = sp_NV spec" "p_skip prog = sp_Skip spec"
  using assms by (auto simp: mrCompile_def bind_res_Inr_iff)

lemma compile_first_inv:
  assumes "window_inv spec w" "compile_first spec args w = Inr w1"
  shows "\<exists>prog bounds. w_prog w1 = Some prog \<and> mrCompile spec bounds = Inr prog \<and> p_nb prog = sp_NB spec \<and>
    w_bits w1 = w_bits w \<and> w_n w1 = w_n w"
proof (cases "w_prog w")
  case None
  then show ?thesis
    using assms(2) mrCompile_fields(1) by (auto simp: compile_first_def Let_def bind_res_Inr_iff map_sum_id_Inr split: if_splits)
next
  case (Some prog)
  then show ?thesis using assms by (auto simp: compile_first_def window_inv_def)
qed

lemma Step_inv:
  assumes "window_inv spec w" "int (length args) = 1 + sp_NB spec + sp_NV spec" "Step spec args w = Inr w'"
    "0 \<le> sp_NB spec" "0 \<le> sp_NV spec"
  shows "window_inv spec w'"
proof -
  obtain w1 where w1: "compile_first spec args w = Inr w1"
    using assms(3) by (auto simp: Step_def bind_res_Inr_iff split: if_splits)
  obtain prog bounds where p: "w_prog w1 = Some prog" "mrCompile spec bounds = Inr prog" "p_nb prog = sp_NB spec"
    "w_bits w1 = w_bits w" "w_n w1 = w_n w"
    using compile_first_inv [OF assms(1) w1] by (elim exE conjE)
  obtain preds where preds: "truthy_all (drop (nat (1 + sp_NB spec)) args) = Inr preds"
    "w' = w1\<lparr>w_bits := w_bits w @ preds, w_n := w_n w + 1, w_computed := False\<rparr>"
    using assms(3) w1 p by (auto simp: Step_def bind_res_Inr_iff map_sum_id_Inr split: if_splits)
  have "int (length preds) = sp_NV spec" using truthy_all_length [OF preds(1)] assms(2,4,5) by simp
  then have "int (length (w_bits w @ preds)) = int (w_n w + 1) * sp_NV spec"
    using assms(1) by (simp add: window_inv_def distrib_right)
  then show ?thesis using p preds(2) unfolding window_inv_def by (auto simp del: length_append)
qed

lemma Done_spec:
  assumes "window_inv spec w" "vars_ok (sp_NV spec) (sp_P spec)" "w_prog w = Some prog"
  obtains bounds ms where "mrCompile spec bounds = Inr prog" "window_matches spec bounds w ms"
    "Done w = Some (w\<lparr>w_results := map (row_entries 1 ms) [0..<w_n w], w_computed := True\<rparr>,
       if w_inverses w \<ge> w_n w \<or> row_entries 1 ms (w_inverses w) = [] then None
       else Some (''['' @ entries_text (w_pid w) (row_entries 1 ms (w_inverses w)) @ '']''))"
proof -
  obtain bounds where b: "mrCompile spec bounds = Inr prog" "int (length (w_bits w)) = int (w_n w) * sp_NV spec"
    "w_computed w \<longrightarrow> (\<exists>ms. window_matches spec bounds w ms \<and> w_results w = map (row_entries 1 ms) [0..<w_n w])"
    using assms(1,3) by (auto simp: window_inv_def)
  show thesis
  proof (cases "w_computed w")
    case True
    then obtain ms where ms: "window_matches spec bounds w ms" "w_results w = map (row_entries 1 ms) [0..<w_n w]"
      using b(3) by blast
    have "w\<lparr>w_results := map (row_entries 1 ms) [0..<w_n w], w_computed := True\<rparr> = w" using ms(2) True by simp
    then have "Done w = Some (w\<lparr>w_results := map (row_entries 1 ms) [0..<w_n w], w_computed := True\<rparr>,
       if w_inverses w \<ge> w_n w \<or> row_entries 1 ms (w_inverses w) = [] then None
       else Some (''['' @ entries_text (w_pid w) (row_entries 1 ms (w_inverses w)) @ '']''))"
      using assms(3) True ms(2) by (auto simp: Done_def)
    then show ?thesis by (rule that [OF b(1) ms(1)])
  next
    case False
    obtain ms where ms: "window_matches spec bounds w ms"
      "compute prog w = Some (w\<lparr>w_results := map (row_entries 1 ms) [0..<w_n w]\<rparr>)"
      using compute_compiled [OF b(1) assms(2) b(2)]
      unfolding window_matches_def mrCompile_fields [OF b(1)] by (elim exE conjE)
    have "Done w = Some (w\<lparr>w_results := map (row_entries 1 ms) [0..<w_n w], w_computed := True\<rparr>,
       if w_inverses w \<ge> w_n w \<or> row_entries 1 ms (w_inverses w) = [] then None
       else Some (''['' @ entries_text (w_pid w) (row_entries 1 ms (w_inverses w)) @ '']''))"
      using assms(3) False ms(2) by (auto simp: Done_def)
    then show ?thesis by (rule that [OF b(1) ms(1)])
  qed
qed

lemma Done_inv:
  assumes "window_inv spec w" "vars_ok (sp_NV spec) (sp_P spec)" "Done w = Some (w', res)"
  shows "window_inv spec w'"
proof (cases "w_prog w")
  case None
  then show ?thesis using assms(1,3) by (simp add: Done_def)
next
  case (Some prog)
  obtain bounds ms where d: "mrCompile spec bounds = Inr prog" "window_matches spec bounds w ms"
    "w' = w\<lparr>w_results := map (row_entries 1 ms) [0..<w_n w], w_computed := True\<rparr>"
    by (rule Done_spec [OF assms(1,2) Some]) (use assms(3) in auto)
  have "window_matches spec bounds w' ms" using d(2,3) by (simp add: window_matches_def)
  then show ?thesis using d assms(1) Some unfolding window_inv_def by auto
qed

lemma window_reach_inv:
  assumes "window_reach spec w" "vars_ok (sp_NV spec) (sp_P spec)" "0 \<le> sp_NB spec" "0 \<le> sp_NV spec"
  shows "window_inv spec w"
  using assms(1)
proof (induction rule: window_reach.induct)
  case (reach_new pid)
  show ?case by (simp add: window_inv_def newMatchRecognizeWindow_def)
next
  case (reach_step w args w')
  show ?case by (rule Step_inv [OF reach_step.IH reach_step.hyps(2,3) assms(3,4)])
next
  case (reach_inverse w)
  then show ?case by (simp add: window_inv_def Inverse_def window_matches_def split: option.splits)
next
  case (reach_done w w' res)
  show ?case by (rule Done_inv [OF reach_done.IH assms(2) reach_done.hyps(2)])
qed

text \<open>
  C7. In every state SQLite can bring a window to, \<open>Done\<close> returns (no panic, no endless
  loop) and reports for the current row one entry per match that contains it: match number,
  position in the match and classifier, of a scan that takes from left to right at each start row
  a match of the pattern (the longest one in longest mode) and resumes after it or at the next row
  as the skip mode says; NULL when no match contains the row.
\<close>

theorem mr_window_done:
  assumes "window_reach spec w" "vars_ok (sp_NV spec) (sp_P spec)" "0 \<le> sp_NB spec" "0 \<le> sp_NV spec"
    "w_prog w = Some prog"
  shows "\<exists>bounds ms w'. mrCompile spec bounds = Inr prog \<and> window_matches spec bounds w ms \<and>
    Done w = Some (w', if w_inverses w \<ge> w_n w \<or> row_entries 1 ms (w_inverses w) = [] then None
       else Some (''['' @ entries_text (w_pid w) (row_entries 1 ms (w_inverses w)) @ '']''))"
  by (rule Done_spec [OF window_reach_inv [OF assms(1-4)] assms(2,5)]) blast

lemma example_reach:
  "\<exists>w. window_reach example_spec w \<and> w_prog w = Some example_prog \<and> w_n w = 3 \<and> w_inverses w = 1 \<and> w_pid w = 1"
proof -
  let ?a = "[Some (BoolValue True), Some (BoolValue True), Some (BoolValue False)]"
  let ?b = "[Some (BoolValue True), Some (BoolValue False), Some (BoolValue True)]"
  let ?new = "newMatchRecognizeWindow 0"
  let ?w = "\<lambda>k. ?new\<lparr>w_prog := Some example_prog, w_longest := True, w_bits := take (2 * k) example_bits, w_n := k\<rparr>"
  have n: "int (length ?a) = 1 + sp_NB example_spec + sp_NV example_spec"
    "int (length ?b) = 1 + sp_NB example_spec + sp_NV example_spec" by (simp_all add: example_spec_def)
  have s: "Step example_spec ?a ?new = Inr (?w 1)" "Step example_spec ?b (?w 1) = Inr (?w 2)"
    "Step example_spec ?b (?w 2) = Inr (?w 3)"
    by (simp_all add: Step_def compile_first_def newMatchRecognizeWindow_def example_compiles mrTruthy_def
        example_bits_def example_fields)
  have "window_reach example_spec (Inverse (?w 3))"
    by (rule reach_inverse, rule reach_step [OF _ n(2) s(3)], rule reach_step [OF _ n(2) s(2)],
        rule reach_step [OF reach_new n(1) s(1)])
  then show ?thesis
    by (intro exI [of _ "Inverse (?w 3)"]) (simp add: Inverse_def newMatchRecognizeWindow_def)
qed

theorem mr_window_done_witness:
  "\<exists>w bounds ms w'. mrCompile example_spec bounds = Inr example_prog \<and> window_matches example_spec bounds w ms \<and>
    Done w = Some (w', if 1 \<ge> (3::nat) \<or> row_entries 1 ms 1 = [] then None
       else Some (''['' @ entries_text 1 (row_entries 1 ms 1) @ '']''))"
proof -
  obtain w where w: "window_reach example_spec w" "w_prog w = Some example_prog" "w_n w = 3" "w_inverses w = 1" "w_pid w = 1"
    using example_reach by (elim exE conjE)
  have "0 \<le> sp_NB example_spec" "0 \<le> sp_NV example_spec" by (simp_all add: example_spec_def)
  from mr_window_done [OF w(1) example_vars this w(2), unfolded w(3-5)] show ?thesis by (intro exI [of _ w])
qed

end
