(* ===== verification/Date_Functions.thy ===== *)
theory Date_Functions
  imports Values
begin

text \<open>
  The calendar functions of \<open>internal/functions/date\<close>, \<open>datetime\<close>, \<open>time\<close> and
  \<open>timestamp\<close> with the helpers they share (\<open>internal/functions/helper\<close>): adding and
  subtracting parts, truncation, differences, last days, buckets and date arrays.

  A time is a number of nanoseconds since 1970-01-01 (\<open>Go_Time\<close>); calendar arithmetic of the
  \<open>time\<close> package is exact, \<open>time.Duration\<close> is 64 bits wide and wraps around. A part is the
  string the SQL formatter passes; the binders take it already converted by \<open>ToString\<close>, and
  NULL is \<open>None\<close>. The prefix that \<open>DATETIME_ADD\<close> and its siblings put before an error is
  not modelled.
\<close>

section \<open>Errors and helpers\<close>

datatype fn_error =
    UnexpectedPart string
  | OutOfIntRange int
  | FnValue value_error
  | BucketMixedParts
  | BucketWidthNotPositive
  | BucketDatePartsOnly
  | BucketWidthNotInterval
  | ArgCount nat
  | StepZero
  | TooManyElements
  | TypePanic
  | NoReturn

definition SafeInt :: "int \<Rightarrow> fn_error + int" where
  "SafeInt v = (if v < - 2147483648 \<or> v > 2147483647 then Inl (OutOfIntRange v) else Inr v)"

definition WeekPartToOffset :: "string \<Rightarrow> int option" where
  "WeekPartToOffset = map_of
     [(''WEEK'', 0), (''WEEK_MONDAY'', 1), (''WEEK_TUESDAY'', 2), (''WEEK_WEDNESDAY'', 3),
      (''WEEK_THURSDAY'', 4), (''WEEK_FRIDAY'', 5), (''WEEK_SATURDAY'', 6)]"

definition QuarterStartMonths :: "int list" where
  "QuarterStartMonths = [1, 4, 7, 10]"

definition AddMonth :: "gotime \<Rightarrow> int \<Rightarrow> gotime" where
  "AddMonth t m =
     (let first' = Date (Year t) (Month t) 1 0 0 0 0;
          target = AddDate first' 0 m 0;
          after = Date (Year target) (Month target) (Day t) 0 0 0 0
      in if Month target \<noteq> Month after then AddDate first' 0 (i64 (m + 1)) (- 1)
         else AddDate t 0 m 0)"

definition AddYear :: "gotime \<Rightarrow> int \<Rightarrow> gotime" where
  "AddYear t y =
     (let first' = Date (Year t) (Month t) 1 0 0 0 0;
          target = AddDate first' y 0 0;
          after = Date (Year target) (Month target) (Day t) 0 0 0 0
      in if Month target \<noteq> Month after then AddDate first' y 1 (- 1)
         else AddDate t y 0 0)"

definition has_prefix :: "string \<Rightarrow> string \<Rightarrow> bool" where
  "has_prefix s p \<longleftrightarrow> take (length p) s = p"

section \<open>Adding and subtracting parts\<close>

definition DATE_ADD :: "gotime \<Rightarrow> int \<Rightarrow> string \<Rightarrow> fn_error + val" where
  "DATE_ADD t v part =
     (if part = ''DAY'' then bind_res (SafeInt v) (\<lambda>n. Inr (DateValue (AddDate t 0 0 n)))
      else if part = ''WEEK'' then bind_res (SafeInt (i64 (v * 7))) (\<lambda>n. Inr (DateValue (AddDate t 0 0 n)))
      else if part = ''MONTH'' then bind_res (SafeInt v) (\<lambda>n. Inr (DateValue (AddMonth t n)))
      else if part = ''YEAR'' then bind_res (SafeInt v) (\<lambda>n. Inr (DateValue (AddYear t n)))
      else if part = ''QUARTER'' then Inr (DateValue (AddMonth t 3))
      else Inl (UnexpectedPart part))"

definition DATE_SUB :: "gotime \<Rightarrow> int \<Rightarrow> string \<Rightarrow> fn_error + val" where
  "DATE_SUB t v part =
     (if part = ''DAY'' then Inr (DateValue (AddDate t 0 0 (i64 (- v))))
      else if part = ''WEEK'' then Inr (DateValue (AddDate t 0 0 (i64 (i64 (- v) * 7))))
      else if part = ''MONTH'' then Inr (DateValue (AddMonth t (i64 (- v))))
      else if part = ''YEAR'' then Inr (DateValue (AddYear t (i64 (- v))))
      else Inl (UnexpectedPart part))"

text \<open>
  The parts below a day, with their length in nanoseconds (the constants of the \<open>time\<close>
  package the four \<open>switch\<close> statements use).
\<close>

definition clock_part :: "string \<Rightarrow> int option" where
  "clock_part = map_of
     [(''MICROSECOND'', 1000), (''MILLISECOND'', 1000000), (''SECOND'', 1000000000),
      (''MINUTE'', 60000000000), (''HOUR'', 3600000000000)]"

text \<open>The date of the result with the time of day of the argument.\<close>

definition with_clock_of :: "gotime \<Rightarrow> gotime \<Rightarrow> gotime" where
  "with_clock_of t d = Date (Year d) (Month d) (Day d) (Hour t) (Minute t) (Second t) (Nanosecond t)"

definition DATETIME_ADD :: "gotime \<Rightarrow> int \<Rightarrow> string \<Rightarrow> fn_error + val" where
  "DATETIME_ADD t v part = (case clock_part part of
       Some u \<Rightarrow> Inr (DatetimeValue (t + i64 (v * u)))
     | None \<Rightarrow> bind_res (DATE_ADD t v part) (\<lambda>d.
         bind_res (map_sum FnValue id (ToTime d)) (\<lambda>dt. Inr (DatetimeValue (with_clock_of t dt)))))"

definition DATETIME_SUB :: "gotime \<Rightarrow> int \<Rightarrow> string \<Rightarrow> fn_error + val" where
  "DATETIME_SUB t v part = (case clock_part part of
       Some u \<Rightarrow> Inr (DatetimeValue (t + i64 (i64 (- v) * u)))
     | None \<Rightarrow> bind_res (DATE_SUB t v part) (\<lambda>d.
         bind_res (map_sum FnValue id (ToTime d)) (\<lambda>dt. Inr (DatetimeValue (with_clock_of t dt)))))"

definition TIME_ADD :: "gotime \<Rightarrow> int \<Rightarrow> string \<Rightarrow> fn_error + val" where
  "TIME_ADD t v part = (case clock_part part of
       Some u \<Rightarrow> Inr (TimeValue (t + i64 (v * u)))
     | None \<Rightarrow> Inl (UnexpectedPart part))"

definition TIME_SUB :: "gotime \<Rightarrow> int \<Rightarrow> string \<Rightarrow> fn_error + val" where
  "TIME_SUB t v part = (case clock_part part of
       Some u \<Rightarrow> Inr (TimeValue (t + i64 (i64 (- v) * u)))
     | None \<Rightarrow> Inl (UnexpectedPart part))"

definition TIMESTAMP_ADD :: "gotime \<Rightarrow> int \<Rightarrow> string \<Rightarrow> fn_error + val" where
  "TIMESTAMP_ADD t v part = (case clock_part part of
       Some u \<Rightarrow> Inr (TimestampValue (t + i64 (v * u)))
     | None \<Rightarrow> if part = ''DAY'' then bind_res (SafeInt v) (\<lambda>n. Inr (TimestampValue (AddDate t 0 0 n)))
               else Inl (UnexpectedPart part))"

definition TIMESTAMP_SUB :: "gotime \<Rightarrow> int \<Rightarrow> string \<Rightarrow> fn_error + val" where
  "TIMESTAMP_SUB t v part = (case clock_part part of
       Some u \<Rightarrow> Inr (TimestampValue (t + i64 (i64 (- v) * u)))
     | None \<Rightarrow> if part = ''DAY'' then bind_res (SafeInt v) (\<lambda>n. Inr (TimestampValue (AddDate t 0 0 (- n))))
               else Inl (UnexpectedPart part))"

section \<open>Differences\<close>

text \<open>
  The week difference: the full weeks between the two days, and the weekdays of the remaining
  days counted one by one in an array indexed by weekday.
\<close>

fun count_remainder :: "int \<Rightarrow> nat \<Rightarrow> int list \<Rightarrow> int list" where
  "count_remainder startingDay 0 counts = counts"
| "count_remainder startingDay (Suc r) counts =
     (let k = nat ((startingDay + int (Suc r)) smod 7)
      in count_remainder startingDay r (counts[k := counts ! k + 1]))"

definition week_diff :: "gotime \<Rightarrow> gotime \<Rightarrow> int \<Rightarrow> int" where
  "week_diff a b boundary =
     (let isNegative = Unix b > Unix a;
          start = (if isNegative then a else b);
          end' = (if isNegative then b else a);
          days = (((Unix end' - Unix start) sdiv 24) sdiv 60) sdiv 60;
          fullWeeks = days sdiv 7;
          remainder = days smod 7;
          counts = count_remainder (Weekday start) (nat remainder) (replicate 7 fullWeeks);
          result = counts ! nat boundary
      in if isNegative then - result else result)"

definition DATE_DIFF :: "gotime \<Rightarrow> gotime \<Rightarrow> string \<Rightarrow> fn_error + val" where
  "DATE_DIFF a b part =
     (if has_prefix part ''WEEK'' then
        (case WeekPartToOffset part of
           None \<Rightarrow> Inl (UnexpectedPart part)
         | Some boundary \<Rightarrow> Inr (IntValue (week_diff a b boundary)))
      else if part = ''DAY'' then
        Inr (IntValue (TimeSub (Date (Year a) (Month a) (Day a) 0 0 0 0)
                               (Date (Year b) (Month b) (Day b) 0 0 0 0) sdiv day_ns))
      else if part = ''ISOWEEK'' then
        Inr (IntValue ((Year a - Year b) * 48 + snd (ISOWeek a) - snd (ISOWeek b)))
      else if part = ''MONTH'' then
        Inr (IntValue ((Year a * 12 + Month a) - (Year b * 12 + Month b)))
      else if part = ''QUARTER'' then
        (let quarterA = (Month a - 1) sdiv 3 + 1; quarterB = (Month b - 1) sdiv 3 + 1
         in Inr (IntValue ((Year a * 4 + quarterA) - (Year b * 4 + quarterB))))
      else if part = ''YEAR'' then Inr (IntValue (Year a - Year b))
      else if part = ''ISOYEAR'' then Inr (IntValue (fst (ISOWeek a) - fst (ISOWeek b)))
      else Inl (UnexpectedPart part))"

definition floorDiv :: "int \<Rightarrow> int \<Rightarrow> int" where
  "floorDiv a b =
     (let q = a sdiv b in if a smod b \<noteq> 0 \<and> (a < 0) \<noteq> (b < 0) then q - 1 else q)"

text \<open>The units of the two microsecond differences (the \<open>unit\<close> maps).\<close>

definition micro_unit :: "string \<Rightarrow> int option" where
  "micro_unit = map_of
     [(''MICROSECOND'', 1), (''MILLISECOND'', 1000), (''SECOND'', 1000000),
      (''MINUTE'', 60 * 1000000), (''HOUR'', 3600 * 1000000)]"

definition DATETIME_DIFF :: "gotime \<Rightarrow> gotime \<Rightarrow> string \<Rightarrow> fn_error + val" where
  "DATETIME_DIFF a b part = (case micro_unit part of
       Some u \<Rightarrow> Inr (IntValue (i64 (floorDiv (UnixMicro a) u - floorDiv (UnixMicro b) u)))
     | None \<Rightarrow> DATE_DIFF a b part)"

definition TIMESTAMP_DIFF :: "gotime \<Rightarrow> gotime \<Rightarrow> string \<Rightarrow> fn_error + val" where
  "TIMESTAMP_DIFF a b part =
     (let micros = i64 (UnixMicro a - UnixMicro b)
      in case (micro_unit(''DAY'' \<mapsto> 24 * 3600 * 1000000)) part of
           Some u \<Rightarrow> Inr (IntValue (micros sdiv u))
         | None \<Rightarrow> DATE_DIFF a b part)"

definition TIME_DIFF :: "gotime \<Rightarrow> gotime \<Rightarrow> string \<Rightarrow> fn_error + val" where
  "TIME_DIFF a b part = (case clock_part part of
       Some u \<Rightarrow> Inr (IntValue (TimeSub a b sdiv u))
     | None \<Rightarrow> Inl (UnexpectedPart part))"

section \<open>Truncation and last days\<close>

text \<open>The loop that walks back to the first day of the week.\<close>

partial_function (option) walk_back :: "int \<Rightarrow> gotime \<Rightarrow> gotime option" where
  "walk_back k t = (if Weekday t = k then Some t else walk_back k (AddDate t 0 0 (- 1)))"

definition DATE_TRUNC :: "gotime \<Rightarrow> string \<Rightarrow> fn_error + val" where
  "DATE_TRUNC t part =
     (if has_prefix part ''WEEK'' then
        (case WeekPartToOffset part of
           None \<Rightarrow> Inl (UnexpectedPart part)
         | Some startOfWeek \<Rightarrow>
             (case walk_back startOfWeek t of None \<Rightarrow> Inl NoReturn | Some w \<Rightarrow> Inr (DateValue w)))
      else if part = ''DAY'' then Inr (DateValue (Date (Year t) (Month t) (Day t) 0 0 0 0))
      else if part = ''ISOWEEK'' then
        (case walk_back 1 t of None \<Rightarrow> Inl NoReturn
         | Some w \<Rightarrow> Inr (DateValue (Date (Year w) (Month w) (Day w) 0 0 0 0)))
      else if part = ''MONTH'' then Inr (DateValue (AddDate zero_time (Year t - 1) (Month t - 1) 0))
      else if part = ''QUARTER'' then
        Inr (DateValue (Date (Year t) (QuarterStartMonths ! nat ((Month t - 1) sdiv 3)) 1 0 0 0 0))
      else if part = ''YEAR'' then Inr (DateValue (AddDate zero_time (Year t - 1) 0 0))
      else if part = ''ISOYEAR'' then
        (let firstDay = Date (fst (ISOWeek t)) 1 1 0 0 0 0
         in Inr (DateValue (AddDate firstDay 0 0 (1 - Weekday firstDay))))
      else Inl (UnexpectedPart part))"

text \<open>
  \<open>DATETIME_TRUNC\<close> and \<open>TIME_TRUNC\<close> share the arithmetic of their small parts: the seconds
  are divided by the number of nanoseconds of the part.
\<close>

definition clock_trunc :: "gotime \<Rightarrow> string \<Rightarrow> gotime option" where
  "clock_trunc t part =
     (if part = ''MICROSECOND'' then Some t
      else if part = ''MILLISECOND'' then
        Some (Date (Year t) (Month t) (Day t) (Hour t) (Minute t) (Second t - Second t sdiv 1000) 0)
      else if part = ''SECOND'' then
        Some (Date (Year t) (Month t) (Day t) (Hour t) (Minute t) (Second t sdiv 1000000000) 0)
      else if part = ''MINUTE'' then Some (Date (Year t) (Month t) (Day t) (Hour t) (Minute t) 0 0)
      else if part = ''HOUR'' then Some (Date (Year t) (Month t) (Day t) (Hour t) 0 0 0)
      else None)"

definition DATETIME_TRUNC :: "gotime \<Rightarrow> string \<Rightarrow> fn_error + val" where
  "DATETIME_TRUNC t part = (case clock_trunc t part of
       Some r \<Rightarrow> Inr (DatetimeValue r)
     | None \<Rightarrow> bind_res (DATE_TRUNC t part) (\<lambda>d.
         bind_res (map_sum FnValue id (ToTime d)) (\<lambda>dt. Inr (DatetimeValue
           (Date (Year dt) (Month dt) (Day dt) (Hour dt) (Minute dt) (Second dt) (Nanosecond dt))))))"

definition TIME_TRUNC :: "gotime \<Rightarrow> string \<Rightarrow> fn_error + val" where
  "TIME_TRUNC t part = (case clock_trunc t part of
       Some r \<Rightarrow> Inr (TimeValue r)
     | None \<Rightarrow> Inl (UnexpectedPart part))"

definition weekStarts :: "string \<Rightarrow> int option" where
  "weekStarts = map_of
     [(''WEEK_SUNDAY'', 0), (''WEEK_MONDAY'', 1), (''WEEK_TUESDAY'', 2), (''WEEK_WEDNESDAY'', 3),
      (''WEEK_THURSDAY'', 4), (''WEEK_FRIDAY'', 5), (''WEEK_SATURDAY'', 6)]"

definition LAST_DAY :: "gotime \<Rightarrow> string \<Rightarrow> fn_error + val" where
  "LAST_DAY t part =
     (let day = Date (Year t) (Month t) (Day t) 0 0 0 0
      in if part = ''YEAR'' then Inr (DateValue (Date (Year t + 1) 1 0 0 0 0 0))
         else if part = ''QUARTER'' then
           (let firstOfNext = (Month t - 1) sdiv 3 * 3 + 4
            in Inr (DateValue (Date (Year t) firstOfNext 0 0 0 0 0)))
         else if part = ''MONTH'' then Inr (DateValue (Date (Year t) (Month t + 1) 0 0 0 0 0))
         else if part = ''ISOYEAR'' then
           (let jan4 = Date (fst (ISOWeek day) + 1) 1 4 0 0 0 0;
                monday = AddDate jan4 0 0 (- ((Weekday jan4 + 6) smod 7))
            in Inr (DateValue (AddDate monday 0 0 (- 1))))
         else (case (if part = ''WEEK'' then Some 0 else if part = ''ISOWEEK'' then Some 1 else weekStarts part) of
             Some start \<Rightarrow> Inr (DateValue (AddDate day 0 0 ((start + 6 - Weekday day + 7) smod 7)))
           | None \<Rightarrow> Inl (UnexpectedPart part)))"

definition weekOfYear :: "gotime \<Rightarrow> int \<Rightarrow> int" where
  "weekOfYear t start =
     (let offset = (Weekday t - start + 7) smod 7 in (YearDay t - 1 + 7 - offset) sdiv 7)"

section \<open>EXTRACT\<close>

text \<open>
  \<open>in_zone zone t\<close> is the wall-clock time of the instant \<open>t\<close> in a time zone; it stands for
  the time-zone database and is a parameter.
\<close>

definition extract_interval :: "interval_value \<Rightarrow> string \<Rightarrow> fn_error + val" where
  "extract_interval iv part =
     (if part = ''YEAR'' then Inr (IntValue (Years iv))
      else if part = ''MONTH'' then Inr (IntValue (Months iv))
      else if part = ''DAY'' then Inr (IntValue (Days iv))
      else if part = ''HOUR'' then Inr (IntValue (Hours iv))
      else if part = ''MINUTE'' then Inr (IntValue (Minutes iv))
      else if part = ''SECOND'' then Inr (IntValue (Seconds iv))
      else if part = ''MILLISECOND'' then Inr (IntValue (SubSecondNanos iv sdiv 1000000))
      else if part = ''MICROSECOND'' then Inr (IntValue (SubSecondNanos iv sdiv 1000))
      else Inl (UnexpectedPart part))"

definition extract_quarter :: "gotime \<Rightarrow> int" where
  "extract_quarter t =
     (let day = YearDay t in if day \<le> 91 then 1 else if day \<le> 182 then 2 else if day \<le> 273 then 3 else 4)"

definition extract_time :: "gotime \<Rightarrow> string \<Rightarrow> fn_error + val" where
  "extract_time t part =
     (if part = ''ISOYEAR'' then Inr (IntValue (fst (ISOWeek t)))
      else if part = ''YEAR'' then Inr (IntValue (Year t))
      else if part = ''MONTH'' then Inr (IntValue (Month t))
      else if part = ''ISOWEEK'' then Inr (IntValue (snd (ISOWeek t)))
      else if part = ''WEEK'' then Inr (IntValue (weekOfYear t 0))
      else case weekStarts part of Some start \<Rightarrow> Inr (IntValue (weekOfYear t start)) | None \<Rightarrow>
      if part = ''DAY'' then Inr (IntValue (Day t))
      else if part = ''DAYOFYEAR'' then Inr (IntValue (YearDay t))
      else if part = ''DAYOFWEEK'' then Inr (IntValue (Weekday t + 1))
      else if part = ''QUARTER'' then Inr (IntValue (extract_quarter t))
      else if part = ''HOUR'' then Inr (IntValue (Hour t))
      else if part = ''MINUTE'' then Inr (IntValue (Minute t))
      else if part = ''SECOND'' then Inr (IntValue (Second t))
      else if part = ''MILLISECOND'' then Inr (IntValue (Nanosecond t sdiv 1000000))
      else if part = ''MICROSECOND'' then Inr (IntValue (Nanosecond t sdiv 1000))
      else if part = ''DATE'' then Inr (DateValue t)
      else if part = ''DATETIME'' then Inr (DatetimeValue t)
      else if part = ''TIME'' then Inr (TimeValue t)
      else Inl (UnexpectedPart part))"

definition EXTRACT :: "(string \<Rightarrow> gotime \<Rightarrow> fn_error + gotime) \<Rightarrow> val \<Rightarrow> string \<Rightarrow> string \<Rightarrow> fn_error + val" where
  "EXTRACT in_zone v part zone = (case v of
       IntervalValue iv \<Rightarrow> extract_interval iv part
     | DateValue t \<Rightarrow> extract_time t part
     | DatetimeValue t \<Rightarrow> extract_time t part
     | TimeValue t \<Rightarrow> extract_time t part
     | TimestampValue t \<Rightarrow> bind_res (in_zone zone t) (\<lambda>lt. extract_time lt part)
     | _ \<Rightarrow> Inl (FnValue (ConvertError (type_name v))))"

section \<open>Buckets\<close>

definition floorDivInt :: "int \<Rightarrow> int \<Rightarrow> int" where
  "floorDivInt a b =
     (let q = a sdiv b in if a smod b \<noteq> 0 \<and> (a < 0) \<noteq> (b < 0) then q - 1 else q)"

definition addMonthsPreserveTimeOfMonth :: "gotime \<Rightarrow> int \<Rightarrow> gotime" where
  "addMonthsPreserveTimeOfMonth t m =
     (let first' = Date (Year t) (Month t) 1 (Hour t) (Minute t) (Second t) (Nanosecond t);
          after = AddDate first' 0 m 0;
          candidate = Date (Year after) (Month after) (Day t) (Hour t) (Minute t) (Second t) (Nanosecond t)
      in if Month candidate \<noteq> Month after
         then Date (Year after) (Month after + 1) 0 (Hour t) (Minute t) (Second t) (Nanosecond t)
         else candidate)"

definition monthBucketFloor :: "gotime \<Rightarrow> gotime \<Rightarrow> int \<Rightarrow> gotime" where
  "monthBucketFloor target origin monthsPerBucket =
     (let originMonths = Year origin * 12 + Month origin - 1;
          targetMonths = Year target * 12 + Month target - 1;
          delta = targetMonths - originMonths;
          n = floorDivInt delta monthsPerBucket;
          candidate = addMonthsPreserveTimeOfMonth origin (n * monthsPerBucket);
          (n', candidate') =
            (if candidate > target
             then (n - 1, addMonthsPreserveTimeOfMonth origin ((n - 1) * monthsPerBucket))
             else (n, candidate));
          next' = addMonthsPreserveTimeOfMonth origin ((n' + 1) * monthsPerBucket)
      in if \<not> next' > target then next' else candidate')"

definition nanosBucketFloor :: "gotime \<Rightarrow> gotime \<Rightarrow> int \<Rightarrow> gotime" where
  "nanosBucketFloor target origin widthNanos =
     (let diff = TimeSub target origin; n = floorDivInt diff widthNanos
      in origin + i64 (n * widthNanos))"

definition bucket_sub_day :: "interval_value \<Rightarrow> int" where
  "bucket_sub_day iv = i64 (Hours iv * 3600000000000 + Minutes iv * 60000000000 + Seconds iv * 1000000000
     + SubSecondNanos iv)"

definition BucketFloor :: "gotime \<Rightarrow> gotime \<Rightarrow> interval_value \<Rightarrow> fn_error + gotime" where
  "BucketFloor target origin iv =
     (let months = Years iv * 12 + Months iv; days = Days iv; subDayNanos = bucket_sub_day iv
      in if months \<noteq> 0 \<and> (days \<noteq> 0 \<or> subDayNanos \<noteq> 0) then Inl BucketMixedParts
         else if months \<noteq> 0 then
           if months < 0 then Inl BucketWidthNotPositive
           else Inr (monthBucketFloor target origin months)
         else let widthNanos = i64 (i64 (i64 (days * 24) * 3600000000000) + subDayNanos)
              in if widthNanos \<le> 0 then Inl BucketWidthNotPositive
                 else Inr (nanosBucketFloor target origin widthNanos))"

definition midnight :: "gotime \<Rightarrow> gotime" where
  "midnight t = Date (Year t) (Month t) (Day t) 0 0 0 0"

definition DATE_BUCKET :: "gotime \<Rightarrow> gotime \<Rightarrow> interval_value \<Rightarrow> fn_error + val" where
  "DATE_BUCKET target origin iv =
     (if Hours iv \<noteq> 0 \<or> Minutes iv \<noteq> 0 \<or> Seconds iv \<noteq> 0 \<or> SubSecondNanos iv \<noteq> 0
      then Inl BucketDatePartsOnly
      else bind_res (BucketFloor target origin iv) (\<lambda>lower. Inr (DateValue (midnight lower))))"

definition DATETIME_BUCKET :: "gotime \<Rightarrow> gotime \<Rightarrow> interval_value \<Rightarrow> fn_error + val" where
  "DATETIME_BUCKET target origin iv =
     bind_res (BucketFloor target origin iv) (\<lambda>lower. Inr (DatetimeValue lower))"

definition TIMESTAMP_BUCKET :: "gotime \<Rightarrow> gotime \<Rightarrow> interval_value \<Rightarrow> fn_error + val" where
  "TIMESTAMP_BUCKET target origin iv =
     bind_res (BucketFloor target origin iv) (\<lambda>lower. Inr (TimestampValue lower))"

text \<open>
  The three binders differ in how they prepare the two times: \<open>prep\<close> drops the time of day for
  DATE and is the identity otherwise (a time is held in UTC). The default origin is 1950-01-01.
\<close>

definition bind_bucket :: "(gotime \<Rightarrow> gotime) \<Rightarrow> (gotime \<Rightarrow> gotime \<Rightarrow> interval_value \<Rightarrow> fn_error + val) \<Rightarrow>
    val option list \<Rightarrow> fn_error + val option" where
  "bind_bucket prep f args =
     (if length args < 2 \<or> length args > 3 then Inl (ArgCount (length args))
      else case (args ! 0, args ! 1) of
        (Some a, Some w) \<Rightarrow>
          bind_res (map_sum FnValue id (ToTime a)) (\<lambda>target.
            case w of
              IntervalValue iv \<Rightarrow>
                bind_res (case args of
                    [_, _, Some third] \<Rightarrow> bind_res (map_sum FnValue id (ToTime third)) (\<lambda>t. Inr (prep t))
                  | _ \<Rightarrow> Inr (Date 1950 1 1 0 0 0 0)) (\<lambda>origin.
                  bind_res (f (prep target) origin iv) (\<lambda>v. Inr (Some v)))
            | _ \<Rightarrow> Inl BucketWidthNotInterval)
      | _ \<Rightarrow> Inr None)"

definition BindDateBucket :: "val option list \<Rightarrow> fn_error + val option" where
  "BindDateBucket = bind_bucket midnight DATE_BUCKET"

definition BindDatetimeBucket :: "val option list \<Rightarrow> fn_error + val option" where
  "BindDatetimeBucket = bind_bucket (\<lambda>t. t) DATETIME_BUCKET"

definition BindTimestampBucket :: "val option list \<Rightarrow> fn_error + val option" where
  "BindTimestampBucket = bind_bucket (\<lambda>t. t) TIMESTAMP_BUCKET"

section \<open>Arrays of dates\<close>

text \<open>The step is a Go \<open>int\<close>; the products with it are written without wrap-around.\<close>

definition AddDateWithInterval :: "gotime \<Rightarrow> int \<Rightarrow> string \<Rightarrow> gotime" where
  "AddDateWithInterval d v interval =
     (if interval = ''WEEK'' then AddDate d 0 0 (v * 7)
      else if interval = ''MONTH'' then addMonthsClamped d v
      else if interval = ''QUARTER'' then addMonthsClamped d (3 * v)
      else if interval = ''YEAR'' then addMonthsClamped d (12 * v)
      else AddDate d 0 0 v)"

definition maxArray :: nat where "maxArray = 10000000"

text \<open>
  The loop of \<open>generateDateArray\<close>: it ends at the latest when the array has ten million elements.
  \<open>rest\<close> is the number of elements that still fit.
\<close>

fun date_array_loop :: "nat \<Rightarrow> bool \<Rightarrow> val \<Rightarrow> int \<Rightarrow> string \<Rightarrow> val \<Rightarrow> val list \<Rightarrow> fn_error + val list" where
  "date_array_loop 0 isLT end' step interval cur arr = Inl TooManyElements"
| "date_array_loop (Suc rest) isLT end' step interval cur arr =
     (case cur of
        DateValue d \<Rightarrow>
          (let after = DateValue (AddDateWithInterval d step interval)
           in bind_res (map_sum FnValue id (if isLT then LTE after end' else GTE after end')) (\<lambda>cond.
                if cond then date_array_loop rest isLT end' step interval after (arr @ [cur])
                else Inr (arr @ [cur])))
      | _ \<Rightarrow> Inl TypePanic)"

definition generateDateArray :: "val option \<Rightarrow> val option \<Rightarrow> int \<Rightarrow> string \<Rightarrow> fn_error + val list option" where
  "generateDateArray start end' step interval = (case (start, end') of
       (Some s, Some e) \<Rightarrow>
         if step = 0 then Inl StepZero
         else bind_res (map_sum FnValue id (LTE s e)) (\<lambda>isLT.
           if isLT \<and> \<not> step > 0 \<or> \<not> isLT \<and> step > 0 then Inr (Some [])
           else bind_res (date_array_loop maxArray isLT e step interval s []) (\<lambda>arr. Inr (Some arr)))
     | _ \<Rightarrow> Inr None)"

text \<open>The optional step: its count and its part (a NULL step is not handled by the code and panics).\<close>

definition GENERATE_DATE_ARRAY :: "val option \<Rightarrow> val option \<Rightarrow> (val option \<times> string option) option \<Rightarrow>
    fn_error + val list option" where
  "GENERATE_DATE_ARRAY start end' step = (case step of
       None \<Rightarrow> generateDateArray start end' 1 ''DAY''
     | Some (None, _) \<Rightarrow> Inl TypePanic
     | Some (Some n, interval) \<Rightarrow>
         bind_res (map_sum FnValue id (ToInt64 n)) (\<lambda>v.
         bind_res (SafeInt v) (\<lambda>step32.
           generateDateArray start end' step32 (case interval of None \<Rightarrow> ''DAY'' | Some i \<Rightarrow> i))))"

section \<open>Binders\<close>

text \<open>\<open>Scalar2\<close> and \<open>Scalar3\<close>: NULL in, NULL out; the argument count is fixed by the types.\<close>

definition Scalar2 :: "('a \<Rightarrow> 'b \<Rightarrow> 'e + 'v) \<Rightarrow> 'a option \<Rightarrow> 'b option \<Rightarrow> 'e + 'v option" where
  "Scalar2 f a b = (case (a, b) of (Some x, Some y) \<Rightarrow> map_sum id Some (f x y) | _ \<Rightarrow> Inr None)"

definition Scalar3 :: "('a \<Rightarrow> 'b \<Rightarrow> 'c \<Rightarrow> 'e + 'v) \<Rightarrow> 'a option \<Rightarrow> 'b option \<Rightarrow> 'c option \<Rightarrow> 'e + 'v option" where
  "Scalar3 f a b c = (case (a, b, c) of
     (Some x, Some y, Some z) \<Rightarrow> map_sum id Some (f x y z) | _ \<Rightarrow> Inr None)"

definition time_int_part :: "(gotime \<Rightarrow> int \<Rightarrow> string \<Rightarrow> fn_error + val) \<Rightarrow> val \<Rightarrow> val \<Rightarrow> string \<Rightarrow> fn_error + val" where
  "time_int_part f a b part =
     bind_res (map_sum FnValue id (ToTime a)) (\<lambda>t. bind_res (map_sum FnValue id (ToInt64 b)) (\<lambda>num. f t num part))"

definition time_time_part :: "(gotime \<Rightarrow> gotime \<Rightarrow> string \<Rightarrow> fn_error + val) \<Rightarrow> val \<Rightarrow> val \<Rightarrow> string \<Rightarrow> fn_error + val" where
  "time_time_part f a b part =
     bind_res (map_sum FnValue id (ToTime a)) (\<lambda>t. bind_res (map_sum FnValue id (ToTime b)) (\<lambda>t2. f t t2 part))"

definition time_part :: "(gotime \<Rightarrow> string \<Rightarrow> fn_error + val) \<Rightarrow> val \<Rightarrow> string \<Rightarrow> fn_error + val" where
  "time_part f a part = bind_res (map_sum FnValue id (ToTime a)) (\<lambda>t. f t part)"

definition BindDateAdd where "BindDateAdd = Scalar3 (time_int_part DATE_ADD)"
definition BindDateSub where "BindDateSub = Scalar3 (time_int_part DATE_SUB)"
definition BindDatetimeAdd where "BindDatetimeAdd = Scalar3 (time_int_part DATETIME_ADD)"
definition BindDatetimeSub where "BindDatetimeSub = Scalar3 (time_int_part DATETIME_SUB)"
definition BindTimeAdd where "BindTimeAdd = Scalar3 (time_int_part TIME_ADD)"
definition BindTimeSub where "BindTimeSub = Scalar3 (time_int_part TIME_SUB)"
definition BindTimestampAdd where "BindTimestampAdd = Scalar3 (time_int_part TIMESTAMP_ADD)"
definition BindTimestampSub where "BindTimestampSub = Scalar3 (time_int_part TIMESTAMP_SUB)"
definition BindDateDiff where "BindDateDiff = Scalar3 (time_time_part DATE_DIFF)"
definition BindDatetimeDiff where "BindDatetimeDiff = Scalar3 (time_time_part DATETIME_DIFF)"
definition BindTimeDiff where "BindTimeDiff = Scalar3 (time_time_part TIME_DIFF)"
definition BindTimestampDiff where "BindTimestampDiff = Scalar3 (time_time_part TIMESTAMP_DIFF)"
definition BindDateTrunc where "BindDateTrunc = Scalar2 (time_part DATE_TRUNC)"
definition BindDatetimeTrunc where "BindDatetimeTrunc = Scalar2 (time_part DATETIME_TRUNC)"
definition BindTimeTrunc where "BindTimeTrunc = Scalar2 (time_part TIME_TRUNC)"

definition BindLastDay :: "val option \<Rightarrow> string option option \<Rightarrow> fn_error + val option" where
  "BindLastDay a part = (case (a, part) of
       (Some x, None) \<Rightarrow> map_sum id Some (time_part LAST_DAY x ''MONTH'')
     | (Some x, Some (Some p)) \<Rightarrow> map_sum id Some (time_part LAST_DAY x p)
     | _ \<Rightarrow> Inr None)"

end
