(* ===== verification/Date_Periods.thy ===== *)
theory Date_Periods
  imports Date_Functions
begin

text \<open>
  How the calendar functions act on days. A date part divides the days into consecutive periods; the
  locale \<open>date_scale\<close> states what the truncation, last-day and difference functions need of
  that division, and it is interpreted once on the division that belongs to each part name.
\<close>

section \<open>Periods of days\<close>

locale date_scale =
  fixes ix :: "int \<Rightarrow> int" and starts :: "int \<Rightarrow> bool"
  assumes ix_step: "ix (d + 1) = ix d + (if starts (d + 1) then 1 else 0)"
begin

lemma ix_mono: "a \<le> b \<Longrightarrow> ix a \<le> ix b"
proof (induction b rule: int_ge_induct)
  case (step i)
  then show ?case by (simp add: ix_step)
qed simp

lemma ix_start_less: "a < b \<Longrightarrow> starts b \<Longrightarrow> ix a < ix b"
  using ix_mono [of a "b - 1"] ix_step [of "b - 1"] by simp

lemma floor_day:
  assumes "starts f" "ix f = ix d"
  shows "f \<le> d" "f < e \<Longrightarrow> e \<le> d \<Longrightarrow> \<not> starts e"
proof -
  show "f \<le> d" using ix_start_less [of d f] assms by (cases "d < f") auto
  show "\<not> starts e" if "f < e" "e \<le> d"
    using ix_start_less [OF that(1)] ix_mono [OF that(2)] assms(2) by auto
qed

lemma last_day:
  assumes "starts (l + 1)" "ix (l + 1) = ix d + 1"
  shows "d \<le> l" "d < e \<Longrightarrow> e \<le> l \<Longrightarrow> \<not> starts e"
proof -
  have l: "ix l = ix d" using ix_step [of l] assms by simp
  show "d \<le> l" using ix_mono [of "l + 1" d] assms(2) by (cases "l < d") auto
  show "\<not> starts e" if "d < e" "e \<le> l"
    using ix_start_less [OF that(1)] ix_mono [OF that(2)] l by auto
qed

text \<open>The difference of the period numbers is the number of period starts passed.\<close>

lemma ix_count: "b \<le> a \<Longrightarrow> ix a - ix b = int (card {d. b < d \<and> d \<le> a \<and> starts d})"
proof (induction a rule: int_ge_induct)
  case base
  have *: "{d. b < d \<and> d \<le> b \<and> starts d} = {}" by auto
  show ?case unfolding * by simp
next
  case (step i)
  have le_step: "d \<le> i + 1 \<longleftrightarrow> d \<le> i \<or> d = i + 1" for d :: int by linarith
  have fin: "finite {d. b < d \<and> d \<le> i \<and> starts d}"
    by (rule finite_subset [of _ "{b..i}"]) auto
  have "{d. b < d \<and> d \<le> i + 1 \<and> starts d} =
      (if starts (i + 1) then insert (i + 1) {d. b < d \<and> d \<le> i \<and> starts d} else {d. b < d \<and> d \<le> i \<and> starts d})"
    using step.hyps by (auto simp: le_step)
  then show ?case using step fin by (auto simp: ix_step)
qed

end

section \<open>The periods of the date parts\<close>

definition part_start :: "string \<Rightarrow> int \<Rightarrow> bool" where
  "part_start part d \<longleftrightarrow> (case WeekPartToOffset part of
       Some k \<Rightarrow> (d + 4) mod 7 = k
     | None \<Rightarrow>
         (let (y, m, dd) = civil_of_days d
          in if part = ''DAY'' then True
             else if part = ''ISOWEEK'' then (d + 4) mod 7 = 1
             else if part = ''MONTH'' then dd = 1
             else if part = ''QUARTER'' then dd = 1 \<and> m \<in> {1, 4, 7, 10}
             else if part = ''YEAR'' then dd = 1 \<and> m = 1
             else if part = ''ISOYEAR'' then (d + 4) mod 7 = 1 \<and> snd (year_yday (d + 3)) < 7
             else False))"

definition part_index :: "string \<Rightarrow> int \<Rightarrow> int" where
  "part_index part d = (case WeekPartToOffset part of
       Some k \<Rightarrow> (d + 4 - k) div 7
     | None \<Rightarrow>
         (let (y, m, dd) = civil_of_days d
          in if part = ''DAY'' then d
             else if part = ''ISOWEEK'' then (d + 3) div 7
             else if part = ''MONTH'' then y * 12 + m
             else if part = ''QUARTER'' then y * 4 + (m - 1) div 3
             else if part = ''YEAR'' then y
             else if part = ''ISOYEAR'' then fst (year_yday (d - (d + 3) mod 7 + 3))
             else 0))"

lemma div_mod_next:
  fixes x k :: int
  assumes "0 < k"
  shows "(x + 1) div k = x div k + (if x mod k = k - 1 then 1 else 0)"
    "(x + 1) mod k = (if x mod k = k - 1 then 0 else x mod k + 1)"
proof -
  have b: "0 \<le> x mod k" "x mod k < k" using assms by simp_all
  have x: "k * (x div k) + x mod k = x" by (rule mult_div_mod_eq)
  have "(x + 1) div k = x div k + (if x mod k = k - 1 then 1 else 0) \<and>
      (x + 1) mod k = (if x mod k = k - 1 then 0 else x mod k + 1)"
  proof (cases "x mod k = k - 1")
    case True
    have "x + 1 = k * (x div k) + k" using x True by linarith
    then have "x + 1 = k * (x div k + 1) + 0" by (simp only: distrib_left mult_1_right add_0_right)
    from int_div_pos_eq [OF this] int_mod_pos_eq [OF this] show ?thesis using True assms by simp
  next
    case False
    then have "x mod k + 1 < k" using b by simp
    moreover have "x + 1 = k * (x div k) + (x mod k + 1)" using x by linarith
    ultimately show ?thesis
      using int_div_pos_eq [of "x + 1" k "x div k" "x mod k + 1"] int_mod_pos_eq [of "x + 1" k "x div k" "x mod k + 1"] False b
      by simp
  qed
  then show "(x + 1) div k = x div k + (if x mod k = k - 1 then 1 else 0)"
    "(x + 1) mod k = (if x mod k = k - 1 then 0 else x mod k + 1)" by simp_all
qed

lemma week_step:
  fixes d k :: int
  assumes "0 \<le> k" "k < 7"
  shows "(d + 1 + 4 - k) div 7 = (d + 4 - k) div 7 + (if (d + 1 + 4) mod 7 = k then 1 else 0)"
proof -
  define x where "x = d + 4 - k"
  have "(x + 1 + k) mod 7 = ((x + 1) mod 7 + k) mod 7" by (simp add: mod_simps)
  also have "\<dots> = k \<longleftrightarrow> (x + 1) mod 7 = 0"
  proof -
    define r where "r = (x + 1) mod 7"
    have "0 \<le> r" "r < 7" by (simp_all add: r_def)
    then have "(r + k) mod 7 = (if r + k < 7 then r + k else r + k - 7)"
      using assms mod_pos_pos_trivial [of "r + k - 7" 7] minus_mod_self2 [of "r + k" 7] by (simp del: minus_mod_self2)
    then show ?thesis unfolding r_def [symmetric] using \<open>0 \<le> r\<close> \<open>r < 7\<close> assms by auto
  qed
  also have "\<dots> \<longleftrightarrow> x mod 7 = 6"
    using div_mod_next(2) [of 7 x] pos_mod_sign [of 7 x] by auto
  finally have "(x + 1 + k) mod 7 = k \<longleftrightarrow> x mod 7 = 6" .
  then show ?thesis using div_mod_next(1) [of 7 x] by (simp add: x_def algebra_simps)
qed

lemma WeekPart_range: "WeekPartToOffset part = Some k \<Longrightarrow> 0 \<le> k \<and> k < 7"
  by (auto simp: WeekPartToOffset_def split: if_splits)

lemma WeekPart_prefix: "WeekPartToOffset part = Some k \<Longrightarrow> has_prefix part ''WEEK''"
  by (auto simp: WeekPartToOffset_def has_prefix_def split: if_splits)

lemma WeekPart_others [simp]:
  "WeekPartToOffset ''DAY'' = None" "WeekPartToOffset ''ISOWEEK'' = None" "WeekPartToOffset ''MONTH'' = None"
  "WeekPartToOffset ''QUARTER'' = None" "WeekPartToOffset ''YEAR'' = None" "WeekPartToOffset ''ISOYEAR'' = None"
  by (simp_all add: WeekPartToOffset_def)

lemma civil_next:
  assumes "civil_of_days d = (y, m, dd)"
  shows "civil_of_days (d + 1) = (if dd < month_len y m then (y, m, dd + 1)
    else if m < 12 then (y, m + 1, 1) else (y + 1, 1, 1))"
proof -
  note v = civil_of_days_bounds [OF assms]
  have m: "1 \<le> m" "m \<le> 12" "1 \<le> dd" "dd \<le> month_len y m" using v(1) by (auto simp: valid_civil_def)
  have ml: "1 \<le> month_len y' m'" for y' m' using month_len_bounds(1) [of y' m'] by simp
  consider "dd < month_len y m" | "dd = month_len y m" "m < 12" | "dd = month_len y m" "m = 12"
    using m by linarith
  then show ?thesis
  proof cases
    case 1
    then have "valid_civil y m (dd + 1)" "days_of_civil y m (dd + 1) = d + 1"
      using m v(2) by (auto simp: valid_civil_def days_of_civil_def)
    then show ?thesis using greg.of_days_to_days [of y m "dd + 1"] 1 by simp
  next
    case 2
    then have "valid_civil y (m + 1) 1" "days_of_civil y (m + 1) 1 = d + 1"
      using m v(2) ml by (auto simp: valid_civil_def days_of_civil_def days_before_month_Suc)
    then show ?thesis using greg.of_days_to_days [of y "m + 1" 1] 2 by simp
  next
    case 3
    then have "valid_civil (y + 1) 1 1" "days_of_civil (y + 1) 1 1 = d + 1"
      using v(2) ml days_before_month_end [of y]
      by (auto simp: valid_civil_def days_of_civil_def days_before_year_Suc days_before_month_def)
    then show ?thesis using greg.of_days_to_days [of "y + 1" 1 1] 3 by simp
  qed
qed

lemma year_week_step:
  assumes "year_yday n = (y, yd)" "year_yday (n + 7) = (y', yd')"
  shows "y' = y + (if yd' < 7 then 1 else 0)"
proof -
  note b = year_yday_bounds [OF assms(1)]
  show ?thesis
  proof (cases "yd + 7 < year_len y")
    case True
    then have "year_yday (n + 7) = (y, yd + 7)" using year_yday_inverse [of "yd + 7" y] b by (simp add: algebra_simps)
    then show ?thesis using assms(2) b(2) by simp
  next
    case False
    have "n + 7 = days_before_year (y + 1) + (yd + 7 - year_len y)" using b(1) days_before_year_Suc [of y] by simp
    moreover have "yd + 7 - year_len y < year_len (y + 1)" using b(3) year_len_pos(1) [of "y + 1"] by linarith
    ultimately have "year_yday (n + 7) = (y + 1, yd + 7 - year_len y)"
      using year_yday_inverse [of "yd + 7 - year_len y" "y + 1"] False by (simp only: not_less diff_ge_0_iff_ge)
    then show ?thesis using assms(2) b(3) by simp
  qed
qed

lemma isoyear_step:
  "fst (year_yday (d + 1 - (d + 1 + 3) mod 7 + 3)) = fst (year_yday (d - (d + 3) mod 7 + 3)) +
    (if (d + 1 + 4) mod 7 = 1 \<and> snd (year_yday (d + 1 + 3)) < 7 then 1 else 0)"
proof (cases "(d + 3) mod 7 = 6")
  case True
  then have m: "(d + 1 + 3) mod 7 = 0" "(d + 1 + 4) mod 7 = 1"
    using div_mod_next(2) [of 7 "d + 3"] div_mod_next(2) [of 7 "d + 4"] by (simp_all add: algebra_simps)
  obtain y yd y' yd' where y: "year_yday (d - 3) = (y, yd)" "year_yday (d + 4) = (y', yd')"
    by (metis surj_pair)
  have e7: "d - 3 + 7 = d + 4" by simp
  note * = year_week_step [OF y(1), unfolded e7, OF y(2)]
  have e: "d + 1 - 0 + 3 = d + 4" "d - 6 + 3 = d - 3" "d + 1 + 3 = d + 4" by simp_all
  show ?thesis unfolding m True unfolding e y using * by simp
next
  case False
  have b: "0 \<le> (d + 3) mod 7" "(d + 3) mod 7 < 7" by simp_all
  have m1: "(d + 4) mod 7 = (d + 3) mod 7 + 1" using False div_mod_next(2) [of 7 "d + 3"] by (simp add: algebra_simps)
  then have "(d + 5) mod 7 \<noteq> 1" using b div_mod_next(2) [of 7 "d + 4"] by (simp add: algebra_simps split: if_splits)
  with m1 have m: "(d + 1 + 3) mod 7 = (d + 3) mod 7 + 1" "(d + 1 + 4) mod 7 \<noteq> 1" by (simp_all add: algebra_simps)
  have e: "d + 1 - ((d + 3) mod 7 + 1) + 3 = d - (d + 3) mod 7 + 3" by simp
  show ?thesis unfolding m(1) e using m(2) by simp
qed

text \<open>The two definitions, part by part.\<close>

lemma part_index_eqs:
  "WeekPartToOffset part = Some k \<Longrightarrow> part_index part d = (d + 4 - k) div 7"
  "part_index ''DAY'' d = d"
  "part_index ''ISOWEEK'' d = (d + 3) div 7"
  "civil_of_days d = (y, m, dd) \<Longrightarrow> part_index ''MONTH'' d = y * 12 + m"
  "civil_of_days d = (y, m, dd) \<Longrightarrow> part_index ''QUARTER'' d = y * 4 + (m - 1) div 3"
  "civil_of_days d = (y, m, dd) \<Longrightarrow> part_index ''YEAR'' d = y"
  "part_index ''ISOYEAR'' d = fst (year_yday (d - (d + 3) mod 7 + 3))"
  by (simp_all add: part_index_def split_beta)

lemma part_start_eqs:
  "WeekPartToOffset part = Some k \<Longrightarrow> part_start part d \<longleftrightarrow> (d + 4) mod 7 = k"
  "part_start ''DAY'' d"
  "part_start ''ISOWEEK'' d \<longleftrightarrow> (d + 4) mod 7 = 1"
  "civil_of_days d = (y, m, dd) \<Longrightarrow> part_start ''MONTH'' d \<longleftrightarrow> dd = 1"
  "civil_of_days d = (y, m, dd) \<Longrightarrow> part_start ''QUARTER'' d \<longleftrightarrow> dd = 1 \<and> m \<in> {1, 4, 7, 10}"
  "civil_of_days d = (y, m, dd) \<Longrightarrow> part_start ''YEAR'' d \<longleftrightarrow> dd = 1 \<and> m = 1"
  "part_start ''ISOYEAR'' d \<longleftrightarrow> (d + 4) mod 7 = 1 \<and> snd (year_yday (d + 3)) < 7"
  by (simp_all add: part_start_def split_beta)

lemma quarter_step:
  "1 \<le> m \<Longrightarrow> m < 12 \<Longrightarrow> m div 3 = (m - 1) div 3 + (if m + 1 \<in> {1, 4, 7, 10} then 1 else 0)" for m :: int
proof -
  assume "1 \<le> m" "m < 12"
  then have "m \<in> set [1..11]" by simp
  then show ?thesis by (auto simp: upto_rec1)
qed

lemma civil_step:
  fixes d :: int
  obtains y m dd y' m' dd' where "civil_of_days d = (y, m, dd)" "civil_of_days (d + 1) = (y', m', dd')"
    "1 \<le> m" "m \<le> 12" "1 \<le> dd"
    "y' = y \<and> m' = m \<and> dd' = dd + 1 \<or> y' = y \<and> m < 12 \<and> m' = m + 1 \<and> dd' = 1 \<or> y' = y + 1 \<and> m = 12 \<and> m' = 1 \<and> dd' = 1"
proof -
  obtain y m dd where c: "civil_of_days d = (y, m, dd)" by (cases "civil_of_days d") auto
  have m: "1 \<le> m" "m \<le> 12" "1 \<le> dd" using civil_of_days_bounds(1) [OF c] by (auto simp: valid_civil_def)
  consider "dd < month_len y m" | "\<not> dd < month_len y m" "m < 12" | "\<not> dd < month_len y m" "m = 12"
    using m(2) by linarith
  then show thesis
  proof cases
    case 1
    then show thesis using that [of y m dd y m "dd + 1"] c m civil_next [OF c] by simp
  next
    case 2
    then show thesis using that [of y m dd y "m + 1" 1] c m civil_next [OF c] by simp
  next
    case 3
    then show thesis using that [of y m dd "y + 1" 1 1] c m civil_next [OF c] by simp
  qed
qed

lemma civil_part_step:
  assumes "part \<in> {''MONTH'', ''QUARTER'', ''YEAR''}"
  shows "part_index part (d + 1) = part_index part d + (if part_start part (d + 1) then 1 else 0)"
proof -
  obtain y m dd y' m' dd' where c: "civil_of_days d = (y, m, dd)" "civil_of_days (d + 1) = (y', m', dd')"
    and m: "1 \<le> m" "m \<le> 12" "1 \<le> dd"
    and s: "y' = y \<and> m' = m \<and> dd' = dd + 1 \<or> y' = y \<and> m < 12 \<and> m' = m + 1 \<and> dd' = 1 \<or> y' = y + 1 \<and> m = 12 \<and> m' = 1 \<and> dd' = 1"
    by (rule civil_step [of d])
  note eqs = part_index_eqs(4-6) [OF c(1)] part_index_eqs(4-6) [OF c(2)] part_start_eqs(4-6) [OF c(2)]
  have "part_index ''MONTH'' (d + 1) = part_index ''MONTH'' d + (if part_start ''MONTH'' (d + 1) then 1 else 0)"
    unfolding eqs using s m(3) by (elim disjE conjE) simp_all
  moreover have "part_index ''YEAR'' (d + 1) = part_index ''YEAR'' d + (if part_start ''YEAR'' (d + 1) then 1 else 0)"
    unfolding eqs using s m by (elim disjE conjE) simp_all
  moreover have "part_index ''QUARTER'' (d + 1) = part_index ''QUARTER'' d + (if part_start ''QUARTER'' (d + 1) then 1 else 0)"
    unfolding eqs using s m(3) quarter_step [OF m(1)] by (elim disjE conjE) simp_all
  ultimately show ?thesis using assms by (elim insertE emptyE) simp_all
qed

lemma part_step:
  "part_index part (d + 1) = part_index part d + (if part_start part (d + 1) then 1 else 0)"
proof (cases "WeekPartToOffset part")
  case (Some k)
  then show ?thesis using week_step [of k d] WeekPart_range [OF Some] by (simp add: part_index_eqs(1) part_start_eqs(1))
next
  case None
  have w: "(d + 1 + 3) div 7 = (d + 3) div 7 + (if (d + 1 + 4) mod 7 = 1 then 1 else 0)"
    using week_step [of 1 d] by (simp add: algebra_simps)
  show ?thesis
  proof (cases "part \<in> {''MONTH'', ''QUARTER'', ''YEAR''}")
    case True
    then show ?thesis by (rule civil_part_step)
  next
    case civil: False
    show ?thesis
    proof (cases "part = ''ISOWEEK''")
      case True
      show ?thesis unfolding True part_index_eqs(3) part_start_eqs(3) by (rule w)
    next
      case iso: False
      show ?thesis
      proof (cases "part = ''ISOYEAR''")
        case True
        show ?thesis unfolding True part_index_eqs(7) part_start_eqs(7) by (rule isoyear_step)
      next
        case False
        then show ?thesis
          using None civil iso by (simp add: part_index_def part_start_def split_beta)
      qed
    qed
  qed
qed

interpretation part: date_scale "part_index part" "part_start part" for part
  by unfold_locales (rule part_step)

section \<open>Truncation\<close>

lemma midnight_eq: "clock_ns t = 0 \<Longrightarrow> t = day_number t * day_ns"
  using time_split [of t] by simp

lemma day_number_mult [simp]: "day_number (n * day_ns) = n" "clock_ns (n * day_ns) = 0"
  by (simp_all add: day_number_def clock_ns_def)

lemma part_index_time:
  "part_index ''MONTH'' (day_number t) = Year t * 12 + Month t"
  "part_index ''QUARTER'' (day_number t) = Year t * 4 + (Month t - 1) div 3"
  "part_index ''YEAR'' (day_number t) = Year t"
  "part_index ''ISOYEAR'' (day_number t) = fst (ISOWeek t)"
proof -
  show "part_index ''MONTH'' (day_number t) = Year t * 12 + Month t"
    by (rule part_index_eqs(4) [OF civil_of_time])
  show "part_index ''QUARTER'' (day_number t) = Year t * 4 + (Month t - 1) div 3"
    by (rule part_index_eqs(5) [OF civil_of_time])
  show "part_index ''YEAR'' (day_number t) = Year t"
    by (rule part_index_eqs(6) [OF civil_of_time])
  have "(Weekday t + 6) mod 7 = (day_number t + 3) mod 7"
    using mod_add_left_eq [of "day_number t + 4" 7 6] mod_add_self2 [of "day_number t + 3" 7] by (simp add: Weekday_def)
  then show "part_index ''ISOYEAR'' (day_number t) = fst (ISOWeek t)"
    unfolding part_index_eqs(7) by (simp add: ISOWeek_def split_beta)
qed

text \<open>The first day of a month, seen from the civil date of a time.\<close>

lemma civil_first:
  assumes "1 \<le> m" "m \<le> 12"
  shows "civil_of_days (days_of_civil y m 1) = (y, m, 1)" "valid_civil y m 1"
proof -
  show v: "valid_civil y m 1" using assms month_len_bounds(1) [of y m] by (simp add: valid_civil_def)
  show "civil_of_days (days_of_civil y m 1) = (y, m, 1)" by (rule greg.of_days_to_days [OF v])
qed

lemma Date_day:
  assumes "1 \<le> m" "m \<le> 12"
  shows "Date y m d 0 0 0 0 = days_of_civil y m d * day_ns"
  using Date_in_range [OF assms, of y d 0 0 0 0] by simp

lemma Date_same: "Date (Year t) (Month t) (Day t) 0 0 0 0 = day_number t * day_ns"
  using Date_day [OF Month_bounds] days_of_time by simp

lemma zero_time_civil: "Year zero_time = 1" "Month zero_time = 1" "Day zero_time = 1" "clock_ns zero_time = 0"
proof -
  have "day_number zero_time = -719162" by (simp add: zero_time_def day_number_def day_ns_def)
  moreover have "civil_of_days (-719162) = (1, 1, 1)" by code_simp
  ultimately show "Year zero_time = 1" "Month zero_time = 1" "Day zero_time = 1"
    by (simp_all add: Year_def Month_def Day_def)
  show "clock_ns zero_time = 0" by (simp add: zero_time_def clock_ns_def)
qed

lemma AddDate_zero_time:
  assumes "1 \<le> m" "m \<le> 12"
  shows "AddDate zero_time (y - 1) (m - 1) 0 = days_of_civil y m 1 * day_ns"
  using Date_day [OF assms, of y 1]
  by (simp add: AddDate_def zero_time_civil Hour_def Minute_def Second_def Nanosecond_def)

lemma Weekday_prev: "Weekday (AddDate t 0 0 (- 1)) = (Weekday t - 1) mod 7"
proof -
  have "day_number (t - day_ns) = day_number t - 1" using day_number_add_days [of t "- 1"] by simp
  then show ?thesis by (simp add: AddDate_days Weekday_def mod_simps)
qed

text \<open>The walk back to the start of the week ends, after at most six steps.\<close>

lemma walk_back_spec:
  assumes "0 \<le> k" "k < 7"
  shows "walk_back k t = Some (t - (Weekday t - k) mod 7 * day_ns)"
proof (induction "nat ((Weekday t - k) mod 7)" arbitrary: t)
  case 0
  then have "(Weekday t - k) mod 7 = 0" using pos_mod_sign [of 7 "Weekday t - k"] by simp
  moreover have "Weekday t = k"
  proof -
    obtain c where "Weekday t - k = 7 * c" using calculation by (auto simp: mod_eq_0_iff_dvd)
    then show ?thesis using assms Weekday_bounds [of t] by arith
  qed
  ultimately show ?case by (subst walk_back.simps) simp
next
  case (Suc n)
  define x where "x = Weekday t - k"
  have xm: "x mod 7 = int n + 1" using Suc.hyps(2) by (simp add: x_def)
  have ne: "Weekday t \<noteq> k" using xm by (auto simp: x_def)
  have "x mod 7 < 7" by simp
  then have "(x - 1) mod 7 = int n"
    using xm mod_diff_left_eq [of x 7 1] by (simp add: mod_pos_pos_trivial)
  moreover have "(Weekday (AddDate t 0 0 (- 1)) - k) mod 7 = (x - 1) mod 7"
    by (simp add: Weekday_prev x_def mod_simps algebra_simps)
  ultimately have e: "(Weekday (AddDate t 0 0 (- 1)) - k) mod 7 = int n" by simp
  have "walk_back k t = walk_back k (AddDate t 0 0 (- 1))" using ne by (subst walk_back.simps) simp
  also have "\<dots> = Some (AddDate t 0 0 (- 1) - int n * day_ns)" using Suc.hyps(1) [of "AddDate t 0 0 (- 1)"] e by simp
  finally show ?case using xm by (simp add: AddDate_days x_def algebra_simps)
qed

lemma week_floor:
  assumes "0 \<le> k" "k < 7"
  shows "walk_back k t = Some (t - (day_number t + 4 - k) mod 7 * day_ns)"
  using walk_back_spec [OF assms, of t] by (simp add: Weekday_def mod_simps)

lemma week_floor_day:
  fixes d k f :: int
  assumes "0 \<le> k" "k < 7" "f = d - (d + 4 - k) mod 7"
  shows "(f + 4) mod 7 = k" "(f + 4 - k) div 7 = (d + 4 - k) div 7"
proof -
  define x where "x = d + 4 - k"
  have f: "f + 4 - k = 7 * (x div 7)" using assms(3) by (simp add: x_def minus_mod_eq_mult_div [symmetric])
  then have "f + 4 = k + 7 * (x div 7)" by simp
  then show "(f + 4) mod 7 = k" using assms(1,2) by simp
  show "(f + 4 - k) div 7 = (d + 4 - k) div 7" unfolding f by (simp add: x_def)
qed

text \<open>What a truncation promises, and that a day of the same period that starts it satisfies it.\<close>

definition floor_of :: "string \<Rightarrow> gotime \<Rightarrow> gotime \<Rightarrow> bool" where
  "floor_of part t f \<longleftrightarrow> clock_ns f = 0 \<and> day_number f \<le> day_number t \<and> part_start part (day_number f) \<and>
     (\<forall>d. day_number f < d \<and> d \<le> day_number t \<longrightarrow> \<not> part_start part d)"

lemma floor_ofI:
  assumes "part_start part n" "part_index part n = part_index part (day_number t)"
  shows "floor_of part t (n * day_ns)"
  using part.floor_day [OF assms] assms(1) by (auto simp: floor_of_def)

lemma date_trunc_civil:
  "floor_of ''MONTH'' t (days_of_civil (Year t) (Month t) 1 * day_ns)"
  "floor_of ''YEAR'' t (days_of_civil (Year t) 1 1 * day_ns)"
  "floor_of ''QUARTER'' t (days_of_civil (Year t) ((Month t - 1) div 3 * 3 + 1) 1 * day_ns)"
proof -
  note m = Month_bounds [of t]
  show "floor_of ''MONTH'' t (days_of_civil (Year t) (Month t) 1 * day_ns)"
    by (rule floor_ofI) (simp_all add: part_start_eqs(4) [OF civil_first(1) [OF m]]
      part_index_eqs(4) [OF civil_first(1) [OF m]] part_index_time)
  have c: "civil_of_days (days_of_civil (Year t) 1 1) = (Year t, 1, 1)" by (rule civil_first) simp_all
  show "floor_of ''YEAR'' t (days_of_civil (Year t) 1 1 * day_ns)"
    by (rule floor_ofI) (simp_all add: part_start_eqs(6) [OF c] part_index_eqs(6) [OF c] part_index_time)
  let ?q = "(Month t - 1) div 3"
  have q: "?q \<in> {0, 1, 2, 3}" using m by auto
  have c: "civil_of_days (days_of_civil (Year t) (?q * 3 + 1) 1) = (Year t, ?q * 3 + 1, 1)"
    by (rule civil_first) (use q in auto)
  show "floor_of ''QUARTER'' t (days_of_civil (Year t) (?q * 3 + 1) 1 * day_ns)"
    by (rule floor_ofI) (use q in \<open>auto simp: part_start_eqs(5) [OF c] part_index_eqs(5) [OF c] part_index_time\<close>)
qed

lemma week_floor_of:
  assumes "0 \<le> k" "k < 7" "clock_ns t = 0"
    "\<And>d. part_start part d \<longleftrightarrow> (d + 4) mod 7 = k" "\<And>d. part_index part d = (d + 4 - k) div 7"
  shows "floor_of part t (t - (day_number t + 4 - k) mod 7 * day_ns)"
proof -
  let ?f = "day_number t - (day_number t + 4 - k) mod 7"
  have "floor_of part t (?f * day_ns)"
    by (rule floor_ofI) (simp_all add: assms(4,5) week_floor_day [OF assms(1,2) refl])
  moreover have "t - (day_number t + 4 - k) mod 7 * day_ns = ?f * day_ns"
    by (subst (1) midnight_eq [OF assms(3)]) (simp add: left_diff_distrib)
  ultimately show ?thesis by simp
qed

lemma DATE_TRUNC_eqs:
  "WeekPartToOffset part = Some k \<Longrightarrow> DATE_TRUNC t part = Inr (DateValue (t - (day_number t + 4 - k) mod 7 * day_ns))"
  "DATE_TRUNC t ''DAY'' = Inr (DateValue (day_number t * day_ns))"
  "clock_ns t = 0 \<Longrightarrow> DATE_TRUNC t ''ISOWEEK'' = Inr (DateValue (t - (day_number t + 4 - 1) mod 7 * day_ns))"
  "DATE_TRUNC t ''MONTH'' = Inr (DateValue (days_of_civil (Year t) (Month t) 1 * day_ns))"
  "DATE_TRUNC t ''QUARTER'' = Inr (DateValue (days_of_civil (Year t) ((Month t - 1) div 3 * 3 + 1) 1 * day_ns))"
  "DATE_TRUNC t ''YEAR'' = Inr (DateValue (days_of_civil (Year t) 1 1 * day_ns))"
proof -
  show "DATE_TRUNC t part = Inr (DateValue (t - (day_number t + 4 - k) mod 7 * day_ns))" if "WeekPartToOffset part = Some k"
    using WeekPart_prefix [OF that] WeekPart_range [OF that] that by (simp add: DATE_TRUNC_def week_floor)
  show "DATE_TRUNC t ''DAY'' = Inr (DateValue (day_number t * day_ns))"
    by (simp add: DATE_TRUNC_def has_prefix_def Date_same)
  show "DATE_TRUNC t ''ISOWEEK'' = Inr (DateValue (t - (day_number t + 4 - 1) mod 7 * day_ns))" if c: "clock_ns t = 0"
  proof -
    let ?w = "t - (day_number t + 4 - 1) mod 7 * day_ns"
    have "clock_ns ?w = 0" using week_floor_of [of 1 t "''ISOWEEK''"] c part_start_eqs(3) part_index_eqs(3)
      by (simp add: floor_of_def)
    then have "day_number ?w * day_ns = ?w" using midnight_eq by simp
    then show ?thesis using week_floor [of 1 t] Date_same [of ?w] by (simp add: DATE_TRUNC_def has_prefix_def)
  qed
  show "DATE_TRUNC t ''MONTH'' = Inr (DateValue (days_of_civil (Year t) (Month t) 1 * day_ns))"
    by (simp add: DATE_TRUNC_def has_prefix_def AddDate_zero_time [OF Month_bounds])
  have "(Month t - 1) div 3 \<in> {0, 1, 2, 3}" using Month_bounds [of t] by auto
  then have q: "QuarterStartMonths ! nat ((Month t - 1) sdiv 3) = (Month t - 1) div 3 * 3 + 1"
    using Month_bounds [of t] by (auto simp: go_arith QuarterStartMonths_def)
  have "1 \<le> (Month t - 1) div 3 * 3 + 1" "(Month t - 1) div 3 * 3 + 1 \<le> 12" using Month_bounds [of t] by auto
  then show "DATE_TRUNC t ''QUARTER'' = Inr (DateValue (days_of_civil (Year t) ((Month t - 1) div 3 * 3 + 1) 1 * day_ns))"
    unfolding DATE_TRUNC_def q by (simp add: has_prefix_def Date_day)
  show "DATE_TRUNC t ''YEAR'' = Inr (DateValue (days_of_civil (Year t) 1 1 * day_ns))"
    using AddDate_zero_time [of 1 "Year t"] by (simp add: DATE_TRUNC_def has_prefix_def)
qed

section \<open>Last days\<close>

text \<open>What the last day of a period is, and that the day before the next period satisfies it.\<close>

definition last_of :: "string \<Rightarrow> gotime \<Rightarrow> gotime \<Rightarrow> bool" where
  "last_of part t l \<longleftrightarrow> clock_ns l = 0 \<and> day_number t \<le> day_number l \<and> part_start part (day_number l + 1) \<and>
     (\<forall>d. day_number t < d \<and> d \<le> day_number l \<longrightarrow> \<not> part_start part d)"

lemma last_ofI:
  assumes "part_start part (n + 1)" "part_index part (n + 1) = part_index part (day_number t) + 1"
  shows "last_of part t (n * day_ns)"
  using part.last_day [OF assms] assms(1) by (auto simp: last_of_def)

lemma Date_before_month:
  "Date y m 0 0 0 0 0 = (days_of_civil (y + (m - 1) div 12) ((m - 1) mod 12 + 1) 1 - 1) * day_ns"
  by (simp add: Date_def Let_def)

lemma month_last:
  assumes "1 \<le> m" "m \<le> 12" "part_start part (days_of_civil y m 1)"
    "part_index part (days_of_civil y m 1) = part_index part (day_number t) + 1"
  shows "last_of part t ((days_of_civil y m 1 - 1) * day_ns)"
  by (rule last_ofI) (use assms in simp_all)

lemma LAST_DAY_civil:
  "part \<in> {''MONTH'', ''QUARTER'', ''YEAR''} \<Longrightarrow> \<exists>l. LAST_DAY t part = Inr (DateValue l) \<and> last_of part t l"
proof (elim insertE emptyE)
  note m = Month_bounds [of t]
  let ?y = "Year t + Month t div 12" and ?m = "Month t mod 12 + 1"
  have mm: "1 \<le> ?m" "?m \<le> 12" by simp_all
  have sum: "?y * 12 + ?m = Year t * 12 + Month t + 1" by (simp add: distrib_right)
  have c: "civil_of_days (days_of_civil ?y ?m 1) = (?y, ?m, 1)" by (rule civil_first(1) [OF mm])
  assume p: "part = ''MONTH''"
  have "last_of part t ((days_of_civil ?y ?m 1 - 1) * day_ns)"
    by (rule month_last [OF mm]) (simp_all add: p part_start_eqs(4) [OF c] part_index_eqs(4) [OF c] part_index_time sum)
  moreover have "LAST_DAY t part = Inr (DateValue ((days_of_civil ?y ?m 1 - 1) * day_ns))"
    by (simp add: p LAST_DAY_def Date_before_month)
  ultimately show ?thesis by blast
next
  note m = Month_bounds [of t]
  let ?q = "(Month t - 1) div 3"
  let ?y = "Year t + (?q * 3 + 3) div 12" and ?m = "(?q * 3 + 3) mod 12 + 1"
  have q: "?q \<in> {0, 1, 2, 3}" using m by auto
  have mm: "1 \<le> ?m" "?m \<le> 12" by simp_all
  have c: "civil_of_days (days_of_civil ?y ?m 1) = (?y, ?m, 1)" by (rule civil_first(1) [OF mm])
  assume p: "part = ''QUARTER''"
  have "last_of part t ((days_of_civil ?y ?m 1 - 1) * day_ns)"
    by (rule month_last [OF mm])
      (use q in \<open>auto simp: p part_start_eqs(5) [OF c] part_index_eqs(5) [OF c] part_index_time\<close>)
  moreover have "LAST_DAY t part = Inr (DateValue ((days_of_civil ?y ?m 1 - 1) * day_ns))"
    using m by (simp add: p LAST_DAY_def Date_before_month go_arith add.commute)
  ultimately show ?thesis by blast
next
  assume p: "part = ''YEAR''"
  have c: "civil_of_days (days_of_civil (Year t + 1) 1 1) = (Year t + 1, 1, 1)" by (rule civil_first(1)) simp_all
  have "last_of part t ((days_of_civil (Year t + 1) 1 1 - 1) * day_ns)"
    by (rule month_last) (simp_all add: p part_start_eqs(6) [OF c] part_index_eqs(6) [OF c] part_index_time)
  moreover have "LAST_DAY t part = Inr (DateValue ((days_of_civil (Year t + 1) 1 1 - 1) * day_ns))"
    by (simp add: p LAST_DAY_def Date_before_month)
  ultimately show ?thesis by blast
qed

lemma week_last:
  assumes "0 \<le> k" "k < 7"
    "\<And>d. part_start part d \<longleftrightarrow> (d + 4) mod 7 = k" "\<And>d. part_index part d = (d + 4 - k) div 7"
  shows "last_of part t (AddDate (day_number t * day_ns) 0 0 ((k + 6 - Weekday (day_number t * day_ns) + 7) smod 7))"
proof -
  define d where "d = day_number t"
  define x where "x = d + 4 - k"
  have e: "(k + 6 - (d + 4) mod 7 + 7) smod 7 = 6 - x mod 7"
  proof -
    have "0 \<le> (d + 4) mod 7" "(d + 4) mod 7 < 7" "0 \<le> x mod 7" "x mod 7 < 7" by simp_all
    then have "(k + 6 - (d + 4) mod 7 + 7) smod 7 = (k + 6 - (d + 4) mod 7 + 7) mod 7" using assms(1) by (simp add: go_arith)
    also have "\<dots> = (6 - x + 1 * 7) mod 7" by (simp add: mod_simps x_def algebra_simps)
    also have "\<dots> = (6 - x) mod 7" by (rule mod_mult_self1)
    also have "\<dots> = (6 - x mod 7) mod 7" by (simp add: mod_simps)
    also have "\<dots> = 6 - x mod 7" using \<open>0 \<le> x mod 7\<close> \<open>x mod 7 < 7\<close> by (simp add: mod_pos_pos_trivial)
    finally show ?thesis .
  qed
  have l: "d + (6 - x mod 7) + 1 + 4 - k = 7 * (x div 7 + 1)"
    using minus_mod_eq_mult_div [of x 7] by (simp add: x_def)
  then have "d + (6 - x mod 7) + 1 + 4 = k + 7 * (x div 7 + 1)" by simp
  then have s: "(d + (6 - x mod 7) + 1 + 4) mod 7 = k" using assms(1,2) by (simp only: mod_mult_self2 mod_pos_pos_trivial)
  have "last_of part t ((d + (6 - x mod 7)) * day_ns)"
    by (rule last_ofI) (simp_all only: assms(3,4) s l d_def [symmetric] x_def [symmetric], simp)
  moreover have "AddDate (d * day_ns) 0 0 ((k + 6 - Weekday (d * day_ns) + 7) smod 7) = (d + (6 - x mod 7)) * day_ns"
  proof -
    have w: "Weekday (d * day_ns) = (d + 4) mod 7" by (simp add: Weekday_def)
    show ?thesis unfolding w e AddDate_days by (simp add: distrib_right)
  qed
  ultimately show ?thesis by (simp add: d_def)
qed

lemma isoyear_last: "\<exists>l. LAST_DAY t ''ISOYEAR'' = Inr (DateValue l) \<and> last_of ''ISOYEAR'' t l"
proof -
  define y where "y = fst (ISOWeek (day_number t * day_ns)) + 1"
  define j where "j = days_before_year y + 3"
  define r where "r = (j + 3) mod 7"
  define n where "n = j - r - 1"
  have rb: "0 \<le> r" "r < 7" by (simp_all add: r_def)
  have j: "Date y 1 4 0 0 0 0 = j * day_ns"
    using Date_day [of 1 y 4] by (simp add: j_def days_of_civil_def days_before_month_def)
  have w: "(Weekday (j * day_ns) + 6) smod 7 = r"
  proof -
    have "(Weekday (j * day_ns) + 6) smod 7 = ((j + 4) mod 7 + 6) mod 7" by (simp add: go_arith Weekday_def)
    also have "\<dots> = (j + 3 + 1 * 7) mod 7" by (simp add: mod_simps algebra_simps)
    also have "\<dots> = r" unfolding r_def by (rule mod_mult_self1)
    finally show ?thesis .
  qed
  have yy: "year_yday (n + 1 + 3) = (y, 6 - r)"
    using year_yday_inverse [of "6 - r" y] rb year_len_pos(1) [of y] by (simp add: n_def j_def algebra_simps)
  have k: "n + 1 + 3 = 7 * ((j + 3) div 7)"
    using minus_mod_eq_mult_div [of "j + 3" 7] by (simp add: n_def r_def)
  have m3: "(n + 1 + 3) mod 7 = 0" unfolding k by simp
  have "n + 1 + 4 = 1 + 7 * ((j + 3) div 7)" using k by simp
  then have m4: "(n + 1 + 4) mod 7 = 1" by (simp only: mod_mult_self2) simp
  have yi: "y = part_index ''ISOYEAR'' (day_number t) + 1"
    unfolding y_def using part_index_time(4) [of "day_number t * day_ns"] by simp
  have "last_of ''ISOYEAR'' t (n * day_ns)"
  proof (rule last_ofI)
    show "part_start ''ISOYEAR'' (n + 1)" unfolding part_start_eqs(7) m4 yy using rb by simp
    have "n + 1 - 0 + 3 = n + 1 + 3" by simp
    then show "part_index ''ISOYEAR'' (n + 1) = part_index ''ISOYEAR'' (day_number t) + 1"
      unfolding part_index_eqs(7) [of "n + 1"] m3 yi [symmetric] using yy by simp
  qed
  moreover have "LAST_DAY t ''ISOYEAR'' = Inr (DateValue (n * day_ns))"
  proof -
    have "AddDate (AddDate (j * day_ns) 0 0 (- r)) 0 0 (- 1) = n * day_ns"
      by (simp add: AddDate_days n_def algebra_simps)
    then show ?thesis
      unfolding LAST_DAY_def Let_def Date_same y_def [symmetric] j w by simp
  qed
  ultimately show ?thesis by blast
qed

lemma weekStarts_WeekPart:
  "WeekPartToOffset part = Some k \<Longrightarrow> (if part = ''WEEK'' then Some 0 else if part = ''ISOWEEK'' then Some 1 else weekStarts part) = Some k"
  "WeekPartToOffset part = Some k \<Longrightarrow> part \<notin> {''YEAR'', ''QUARTER'', ''MONTH'', ''ISOYEAR''}"
  by (auto simp: WeekPartToOffset_def weekStarts_def split: if_splits)

lemma LAST_DAY_week:
  "WeekPartToOffset part = Some k \<Longrightarrow> LAST_DAY t part =
     Inr (DateValue (AddDate (day_number t * day_ns) 0 0 ((k + 6 - Weekday (day_number t * day_ns) + 7) smod 7)))"
  "LAST_DAY t ''ISOWEEK'' =
     Inr (DateValue (AddDate (day_number t * day_ns) 0 0 ((1 + 6 - Weekday (day_number t * day_ns) + 7) smod 7)))"
proof -
  show "LAST_DAY t part =
     Inr (DateValue (AddDate (day_number t * day_ns) 0 0 ((k + 6 - Weekday (day_number t * day_ns) + 7) smod 7)))"
    if k: "WeekPartToOffset part = Some k"
    using weekStarts_WeekPart(2) [OF k] unfolding LAST_DAY_def weekStarts_WeekPart(1) [OF k] Date_same Let_def by simp
  show "LAST_DAY t ''ISOWEEK'' =
     Inr (DateValue (AddDate (day_number t * day_ns) 0 0 ((1 + 6 - Weekday (day_number t * day_ns) + 7) smod 7)))"
    unfolding LAST_DAY_def Date_same Let_def by simp
qed

section \<open>Differences\<close>

lemma count_remainder_nth:
  assumes "length cs = 7" "0 \<le> s" "0 \<le> k" "k < 7"
  shows "count_remainder s r cs ! nat k = cs ! nat k + (s + int r - k) div 7 - (s - k) div 7"
  using assms(1)
proof (induction r arbitrary: cs)
  case (Suc r)
  let ?i = "(s + int (Suc r)) smod 7"
  have i: "?i = (s + int (Suc r)) mod 7" using assms(2) by (simp add: go_arith)
  have b: "0 \<le> ?i" "?i < 7" unfolding i by simp_all
  have step: "(s + int (Suc r) - k) div 7 = (s + int r - k) div 7 + (if ?i = k then 1 else 0)"
    using week_step [OF assms(3,4), of "s + int r - 4"] unfolding i by (simp add: algebra_simps)
  have nth: "cs[nat ?i := cs ! nat ?i + 1] ! nat k = cs ! nat k + (if ?i = k then 1 else 0)"
    using b assms(3,4) Suc.prems by (cases "?i = k") (auto simp: nth_list_update eq_nat_nat_iff)
  have "count_remainder s (Suc r) cs ! nat k = count_remainder s r (cs[nat ?i := cs ! nat ?i + 1]) ! nat k"
    by (simp add: Let_def)
  also have "\<dots> = cs ! nat k + (if ?i = k then 1 else 0) + (s + int r - k) div 7 - (s - k) div 7"
    using Suc.IH [of "cs[nat ?i := cs ! nat ?i + 1]"] Suc.prems nth by simp
  finally show ?case using step by simp
qed simp

lemma week_diff_forward:
  assumes "clock_ns a = 0" "clock_ns b = 0" "day_number b \<le> day_number a" "0 \<le> k" "k < 7"
  shows "count_remainder (Weekday b) (nat ((day_number a - day_number b) smod 7))
      (replicate 7 ((day_number a - day_number b) sdiv 7)) ! nat k
    = (day_number a + 4 - k) div 7 - (day_number b + 4 - k) div 7"
proof -
  define n where "n = day_number a - day_number b"
  define z where "z = day_number b + 4"
  have n: "0 \<le> n" using assms(3) by (simp add: n_def)
  have "(z + n - k) div 7 - (z - k) div 7 = n div 7 + (z mod 7 + n mod 7 - k) div 7 - (z mod 7 - k) div 7"
  proof -
    have "z + n - k = (7 * (z div 7) + z mod 7) + (7 * (n div 7) + n mod 7) - k" by (simp only: mult_div_mod_eq)
    then have e1: "z + n - k = (z mod 7 + n mod 7 - k) + 7 * (z div 7 + n div 7)" by (simp only: algebra_simps)
    have "z - k = (7 * (z div 7) + z mod 7) - k" by (simp only: mult_div_mod_eq)
    then have e2: "z - k = (z mod 7 - k) + 7 * (z div 7)" by (simp only: algebra_simps)
    have "(z + n - k) div 7 = (z div 7 + n div 7) + (z mod 7 + n mod 7 - k) div 7"
      by (subst e1, rule div_mult_self2) simp
    moreover have "(z - k) div 7 = z div 7 + (z mod 7 - k) div 7"
      by (subst e2, rule div_mult_self2) simp
    ultimately show ?thesis by simp
  qed
  moreover have "count_remainder (z mod 7) (nat (n mod 7)) (replicate 7 (n div 7)) ! nat k
      = n div 7 + (z mod 7 + n mod 7 - k) div 7 - (z mod 7 - k) div 7"
    using count_remainder_nth [of "replicate 7 (n div 7)" "z mod 7" k "nat (n mod 7)"] assms(4,5) by simp
  moreover have "day_number a + 4 - k = z + n - k" "day_number b + 4 - k = z - k" by (simp_all add: z_def n_def)
  moreover have "Weekday b = z mod 7" "n sdiv 7 = n div 7" "n smod 7 = n mod 7"
    using n by (simp_all add: Weekday_def z_def go_arith)
  ultimately show ?thesis unfolding n_def [symmetric] by (simp only:)
qed

lemma Unix_midnight: "clock_ns t = 0 \<Longrightarrow> Unix t = day_number t * 86400"
proof -
  assume "clock_ns t = 0"
  then have "t = day_number t * 86400 * 1000000000" using midnight_eq [of t] by (simp add: day_ns_def)
  then show ?thesis unfolding Unix_def by (metis nonzero_mult_div_cancel_right zero_neq_numeral)
qed

lemma week_diff_index:
  assumes "clock_ns a = 0" "clock_ns b = 0" "0 \<le> k" "k < 7"
  shows "week_diff a b k = (day_number a + 4 - k) div 7 - (day_number b + 4 - k) div 7"
proof -
  have u: "(((Unix e - Unix s) sdiv 24) sdiv 60) sdiv 60 = day_number e - day_number s"
    if "clock_ns s = 0" "clock_ns e = 0" for s e
  proof -
    have "Unix e - Unix s = 86400 * (day_number e - day_number s) + 0"
      using that by (simp add: Unix_midnight algebra_simps)
    then have "(Unix e - Unix s) sdiv 86400 = day_number e - day_number s"
      by (rule sdiv_unique(1)) simp_all
    then show ?thesis by (simp add: sdiv_sdiv_pos)
  qed
  have neg: "Unix b > Unix a \<longleftrightarrow> day_number b > day_number a" using assms(1,2) by (simp add: Unix_midnight)
  show ?thesis
  proof (cases "day_number b > day_number a")
    case True
    then show ?thesis using week_diff_forward [OF assms(2,1) _ assms(3,4)] neg u [OF assms(1,2)]
      by (simp add: week_diff_def)
  next
    case False
    then show ?thesis using week_diff_forward [OF assms(1,2) _ assms(3,4)] neg u [OF assms(2,1)]
      by (simp add: week_diff_def)
  qed
qed

lemma DATE_DIFF_index:
  assumes "clock_ns a = 0" "clock_ns b = 0"
  shows "WeekPartToOffset part = Some k \<Longrightarrow>
      DATE_DIFF a b part = Inr (IntValue (part_index part (day_number a) - part_index part (day_number b)))"
    "part \<in> {''MONTH'', ''QUARTER'', ''YEAR'', ''ISOYEAR''} \<Longrightarrow>
      DATE_DIFF a b part = Inr (IntValue (part_index part (day_number a) - part_index part (day_number b)))"
    "\<bar>day_number a - day_number b\<bar> \<le> 106751 \<Longrightarrow>
      DATE_DIFF a b ''DAY'' = Inr (IntValue (part_index ''DAY'' (day_number a) - part_index ''DAY'' (day_number b)))"
proof -
  show "DATE_DIFF a b part = Inr (IntValue (part_index part (day_number a) - part_index part (day_number b)))"
    if k: "WeekPartToOffset part = Some k"
    using week_diff_index [OF assms] WeekPart_range [OF k] WeekPart_prefix [OF k] k
    by (simp add: DATE_DIFF_def part_index_eqs(1))
  show "DATE_DIFF a b part = Inr (IntValue (part_index part (day_number a) - part_index part (day_number b)))"
    if "part \<in> {''MONTH'', ''QUARTER'', ''YEAR'', ''ISOYEAR''}"
    using that Month_bounds(1) [of a] Month_bounds(1) [of b]
    by (elim insertE emptyE) (simp_all add: DATE_DIFF_def has_prefix_def part_index_time go_arith Let_def)
  show "DATE_DIFF a b ''DAY'' = Inr (IntValue (part_index ''DAY'' (day_number a) - part_index ''DAY'' (day_number b)))"
    if d: "\<bar>day_number a - day_number b\<bar> \<le> 106751"
  proof -
    define n where "n = day_number a - day_number b"
    have "TimeSub (day_number a * day_ns) (day_number b * day_ns) = n * day_ns"
    proof -
      have "n \<le> 106751" "- 106751 \<le> n" using d by (simp_all add: n_def)
      then have "\<not> n * day_ns < - 9223372036854775808" "\<not> n * day_ns > 9223372036854775807"
        unfolding day_ns_def by linarith+
      then show ?thesis unfolding TimeSub_def Let_def left_diff_distrib [symmetric] n_def [symmetric] by simp
    qed
    moreover have "n * day_ns sdiv day_ns = n"
      by (rule sdiv_unique(1) [of _ _ _ 0]) simp_all
    ultimately show ?thesis by (simp add: DATE_DIFF_def has_prefix_def Date_same part_index_eqs(2) n_def)
  qed
qed

end
