(* ===== verification/Date_Months.thy ===== *)
theory Date_Months
  imports Date_Periods
begin

text \<open>
  Adding months. The program has three routines for it (\<open>AddMonth\<close> of the helper package,
  \<open>addMonthsClamped\<close> of the value package, \<open>addMonthsPreserveTimeOfMonth\<close> of the bucket
  functions); all of them are compared with one specification, \<open>shift_months\<close>.
\<close>

section \<open>The specification\<close>

text \<open>Months are counted from year 0; a month index has a year, a month and a first day.\<close>

definition month_year :: "int \<Rightarrow> int" where "month_year k = k div 12"
definition month_no :: "int \<Rightarrow> int" where "month_no k = k mod 12 + 1"
definition month_day :: "int \<Rightarrow> int" where "month_day k = days_of_civil (month_year k) (month_no k) 1"
definition month_size :: "int \<Rightarrow> int" where "month_size k = month_len (month_year k) (month_no k)"
definition month_of :: "gotime \<Rightarrow> int" where "month_of t = Year t * 12 + Month t - 1"

text \<open>The same time of day and day of the month, clamped to the last day, \<open>m\<close> months later.\<close>

definition shift_months :: "gotime \<Rightarrow> int \<Rightarrow> gotime" where
  "shift_months t m =
     (let k = month_of t + m in (month_day k + min (Day t) (month_size k) - 1) * day_ns + clock_ns t)"

lemma month_no_bounds: "1 \<le> month_no k" "month_no k \<le> 12"
  by (simp_all add: month_no_def)

lemma month_index: "month_year k * 12 + month_no k - 1 = k"
  by (simp add: month_year_def month_no_def)

lemma month_size_bounds: "28 \<le> month_size k" "month_size k \<le> 31"
  by (simp_all add: month_size_def month_len_bounds)

lemma month_year_of [simp]: "month_year (month_of t) = Year t" "month_no (month_of t) = Month t"
proof -
  have e: "month_of t = (Month t - 1) + Year t * 12" by (simp add: month_of_def)
  show "month_year (month_of t) = Year t" "month_no (month_of t) = Month t"
    using Month_bounds [of t] unfolding e month_year_def month_no_def by simp_all
qed

lemma month_day_next: "month_day (k + 1) = month_day k + month_size k"
proof -
  note v = civil_first [OF month_no_bounds, of "month_year k" k]
  have a: "civil_of_days (month_day k) = (month_year k, month_no k, 1)" using v(1) by (simp add: month_day_def)
  have m: "month_year (k + 1) = month_year k + (if month_no k = 12 then 1 else 0)"
    "month_no (k + 1) = (if month_no k = 12 then 1 else month_no k + 1)"
    using div_mod_next [of 12 k] by (simp_all add: month_year_def month_no_def)
  show ?thesis
  proof (cases "month_no k = 12")
    case True
    then show ?thesis using m days_before_month_end [of "month_year k"]
      by (simp add: month_day_def month_size_def days_of_civil_def days_before_year_Suc days_before_month_def)
  next
    case False
    then show ?thesis using m month_no_bounds [of k]
      by (simp add: month_day_def month_size_def days_of_civil_def days_before_month_Suc)
  qed
qed

lemma month_day_mono: "k < l \<Longrightarrow> month_day k + month_size k \<le> month_day l"
proof (induction l rule: int_gr_induct)
  case base
  show ?case by (simp add: month_day_next)
next
  case (step i)
  then show ?case using month_size_bounds(1) [of i] by (simp add: month_day_next)
qed

text \<open>A time whose day lies in month \<open>k\<close> has the year, month and day that belong to it.\<close>

lemma in_month:
  assumes "1 \<le> d" "d \<le> month_size k" "0 \<le> c" "c < day_ns" "t = (month_day k + d - 1) * day_ns + c"
  shows "Year t = month_year k" "Month t = month_no k" "Day t = d" "month_of t = k" "clock_ns t = c"
proof -
  have v: "valid_civil (month_year k) (month_no k) d"
    using assms(1,2) month_no_bounds [of k] by (simp add: valid_civil_def month_size_def)
  have n: "day_number t = month_day k + d - 1" "clock_ns t = c"
    using day_number_clock [OF assms(3,4), of "month_day k + d - 1"] assms(5) by simp_all
  have "month_day k + d - 1 = days_of_civil (month_year k) (month_no k) d" by (simp add: month_day_def days_of_civil_def)
  then have "civil_of_days (day_number t) = (month_year k, month_no k, d)" using greg.of_days_to_days [OF v] n(1) by simp
  then show "Year t = month_year k" "Month t = month_no k" "Day t = d" by (simp_all add: Year_def Month_def Day_def)
  then show "month_of t = k" using month_index [of k] by (simp add: month_of_def)
  show "clock_ns t = c" by (rule n(2))
qed

lemma time_in_month: "t = (month_day (month_of t) + Day t - 1) * day_ns + clock_ns t" "Day t \<le> month_size (month_of t)"
proof -
  have "month_day (month_of t) + Day t - 1 = day_number t"
    using days_of_time [of t] by (simp add: month_day_def days_of_civil_def)
  then show "t = (month_day (month_of t) + Day t - 1) * day_ns + clock_ns t" using time_split [of t] by simp
  show "Day t \<le> month_size (month_of t)" using Day_bounds(2) [of t] by (simp add: month_size_def)
qed

lemma shift_months_fields:
  "month_of (shift_months t m) = month_of t + m" "Day (shift_months t m) = min (Day t) (month_size (month_of t + m))"
  "clock_ns (shift_months t m) = clock_ns t"
proof -
  let ?k = "month_of t + m"
  have d: "1 \<le> min (Day t) (month_size ?k)" using Day_bounds(1) [of t] month_size_bounds(1) [of ?k] by simp
  have e: "shift_months t m = (month_day ?k + min (Day t) (month_size ?k) - 1) * day_ns + clock_ns t"
    by (simp add: shift_months_def Let_def)
  note f = in_month [OF d min.cobounded2 clock_ns_bounds e]
  show "month_of (shift_months t m) = ?k" "Day (shift_months t m) = min (Day t) (month_size ?k)"
    "clock_ns (shift_months t m) = clock_ns t" using f(4,3,5) by simp_all
qed

text \<open>Later months give later times.\<close>

lemma shift_months_less: "m < n \<Longrightarrow> shift_months t m < shift_months t n"
proof -
  assume "m < n"
  let ?k = "month_of t + m" and ?l = "month_of t + n"
  have "month_day ?k + min (Day t) (month_size ?k) - 1 < month_day ?l + min (Day t) (month_size ?l) - 1"
    using month_day_mono [of ?k ?l] Day_bounds(1) [of t] month_size_bounds(1) [of ?l] \<open>m < n\<close> by simp
  then show ?thesis by (simp add: shift_months_def Let_def)
qed

section \<open>The three routines\<close>

text \<open>\<open>time.Date\<close> in terms of month indices.\<close>

lemma Date_month:
  "Date y m d hh mi ss ns = (month_day (y * 12 + m - 1) + d - 1) * day_ns
     + (hh * 3600000000000 + mi * 60000000000 + ss * 1000000000 + ns)"
proof -
  have "(y * 12 + m - 1) div 12 = y + (m - 1) div 12" "(y * 12 + m - 1) mod 12 = (m - 1) mod 12"
    using div_mult_self3 [of 12 y "m - 1"] mod_mult_self3 [of y 12 "m - 1"] by (simp_all add: algebra_simps)
  then show ?thesis by (simp add: Date_def Let_def month_day_def month_year_def month_no_def)
qed

lemma Date_clock:
  "Date y m d (Hour t) (Minute t) (Second t) (Nanosecond t) = (month_day (y * 12 + m - 1) + d - 1) * day_ns + clock_ns t"
  by (simp add: Date_month clock_split)

lemma Date_zero: "Date y m d 0 0 0 0 = (month_day (y * 12 + m - 1) + d - 1) * day_ns"
  by (simp add: Date_month)

lemma AddDate_month:
  "AddDate t 0 m d = (month_day (month_of t + m) + Day t + d - 1) * day_ns + clock_ns t"
  by (simp add: AddDate_def Date_clock month_of_def algebra_simps)

text \<open>A day past the end of month \<open>k\<close>, but within the next one, has another month number.\<close>

lemma past_month:
  assumes "month_size k < d" "d \<le> 31" "0 \<le> c" "c < day_ns"
  shows "Month ((month_day k + d - 1) * day_ns + c) \<noteq> month_no k"
proof -
  let ?t = "(month_day k + d - 1) * day_ns + c"
  have "?t = (month_day (k + 1) + (d - month_size k) - 1) * day_ns + c" by (simp add: month_day_next)
  then have "Month ?t = month_no (k + 1)"
    using in_month(2) [of "d - month_size k" "k + 1" c ?t] assms month_size_bounds [of k] month_size_bounds [of "k + 1"] by simp
  then show ?thesis using div_mod_next(2) [of 12 k] by (simp add: month_no_def)
qed

lemma day_in_month:
  assumes "1 \<le> d" "d \<le> 31" "0 \<le> c" "c < day_ns"
  shows "Month ((month_day k + d - 1) * day_ns + c) = month_no k \<longleftrightarrow> d \<le> month_size k"
  using past_month [of k d c] in_month(2) [of d k c] assms by force

lemma Day_le_31: "Day t \<le> 31"
  using time_in_month(2) [of t] month_size_bounds(2) [of "month_of t"] by simp

text \<open>The first of the month \<open>m\<close> months later, which all three routines compute first.\<close>

lemma first_of_month:
  assumes "0 \<le> c" "c < day_ns"
  shows "Year (month_day k * day_ns + c) = month_year k" "Month (month_day k * day_ns + c) = month_no k"
    "Day (month_day k * day_ns + c) = 1" "month_of (month_day k * day_ns + c) = k" "clock_ns (month_day k * day_ns + c) = c"
  using in_month [of 1 k c "month_day k * day_ns + c"] assms month_size_bounds(1) [of k] by simp_all

lemma addMonthsPreserve_shift: "addMonthsPreserveTimeOfMonth t m = shift_months t m"
proof -
  let ?k = "month_of t + m" and ?c = "clock_ns t"
  note c = clock_ns_bounds [of t]
  note f = first_of_month [OF c, of "month_of t"] and g = first_of_month [OF c, of ?k]
  have first: "Date (Year t) (Month t) 1 (Hour t) (Minute t) (Second t) (Nanosecond t) = month_day (month_of t) * day_ns + ?c"
    by (simp add: Date_clock month_of_def)
  have after: "AddDate (month_day (month_of t) * day_ns + ?c) 0 m 0 = month_day ?k * day_ns + ?c"
    by (simp add: AddDate_month f)
  have d: "month_year ?k * 12 + month_no ?k - 1 = ?k" by (rule month_index)
  have d1: "month_year ?k * 12 + (month_no ?k + 1) - 1 = ?k + 1" using d by simp
  have "addMonthsPreserveTimeOfMonth t m =
      (if Month ((month_day ?k + Day t - 1) * day_ns + ?c) \<noteq> month_no ?k
       then (month_day (?k + 1) + 0 - 1) * day_ns + ?c else (month_day ?k + Day t - 1) * day_ns + ?c)"
    unfolding addMonthsPreserveTimeOfMonth_def Let_def first after unfolding g Date_clock d d1 by (rule refl)
  also have "\<dots> = shift_months t m"
    unfolding day_in_month [OF Day_bounds(1) Day_le_31 c]
    by (simp add: shift_months_def Let_def month_day_next min_def)
  finally show ?thesis .
qed

lemma addMonthsClamped_shift: "addMonthsClamped t m = shift_months t m"
proof -
  let ?k = "month_of t + m" and ?c = "clock_ns t"
  note c = clock_ns_bounds [of t]
  note f = first_of_month [OF c, of "month_of t"] and g = first_of_month [OF c, of ?k]
  have first: "Date (Year t) (Month t) 1 (Hour t) (Minute t) (Second t) (Nanosecond t) = month_day (month_of t) * day_ns + ?c"
    by (simp add: Date_clock month_of_def)
  have after: "AddDate (month_day (month_of t) * day_ns + ?c) 0 m 0 = month_day ?k * day_ns + ?c"
    by (simp add: AddDate_month f)
  have "AddDate (month_day ?k * day_ns + ?c) 0 1 (- 1) = (month_day ?k + month_size ?k - 1) * day_ns + ?c"
    by (simp add: AddDate_month g month_day_next)
  then have last: "Day (AddDate (month_day ?k * day_ns + ?c) 0 1 (- 1)) = month_size ?k"
    using in_month(3) [of "month_size ?k" ?k ?c] c month_size_bounds(1) [of ?k] by simp
  have d: "month_year ?k * 12 + month_no ?k - 1 = ?k" by (rule month_index)
  show ?thesis
    unfolding addMonthsClamped_def Let_def first after last unfolding g Date_clock d
    by (simp add: shift_months_def Let_def min_def)
qed

lemma AddMonth_shift:
  assumes "clock_ns t = 0" "int32 m"
  shows "AddMonth t m = shift_months t m"
proof -
  let ?k = "month_of t + m"
  note f = first_of_month [of 0 "month_of t", simplified] and g = first_of_month [of 0 ?k, simplified]
  have m1: "i64 (m + 1) = m + 1" using assms(2) by (simp add: int32_def int64_def)
  have first: "Date (Year t) (Month t) 1 0 0 0 0 = month_day (month_of t) * day_ns" by (simp add: Date_zero month_of_def)
  have after: "AddDate (month_day (month_of t) * day_ns) 0 m 0 = month_day ?k * day_ns" by (simp add: AddDate_month f)
  have d: "month_year ?k * 12 + month_no ?k - 1 = ?k" by (rule month_index)
  have l: "AddDate (month_day (month_of t) * day_ns) 0 (m + 1) (- 1) = (month_day (?k + 1) - 1) * day_ns"
    by (simp add: AddDate_month f add.assoc)
  have s: "AddDate t 0 m 0 = (month_day ?k + Day t - 1) * day_ns" by (simp add: AddDate_month assms(1))
  show ?thesis
    using day_in_month [OF Day_bounds(1) [of t] Day_le_31, of 0 ?k]
    unfolding AddMonth_def Let_def first after m1 l s unfolding g Date_zero d
    by (auto simp: shift_months_def Let_def month_day_next assms(1) min_def)
qed

lemma AddYear_shift:
  assumes "clock_ns t = 0"
  shows "AddYear t y = shift_months t (12 * y)"
proof -
  let ?k = "month_of t + 12 * y"
  note f = first_of_month [of 0 "month_of t", simplified] and g = first_of_month [of 0 ?k, simplified]
  have yr: "AddDate u y m d = AddDate u 0 (12 * y + m) d" for u m d
    by (simp add: AddDate_def Date_month algebra_simps)
  have first: "Date (Year t) (Month t) 1 0 0 0 0 = month_day (month_of t) * day_ns" by (simp add: Date_zero month_of_def)
  have after: "AddDate (month_day (month_of t) * day_ns) y 0 0 = month_day ?k * day_ns" by (simp add: yr AddDate_month f)
  have d: "month_year ?k * 12 + month_no ?k - 1 = ?k" by (rule month_index)
  have l: "AddDate (month_day (month_of t) * day_ns) y 1 (- 1) = (month_day (?k + 1) - 1) * day_ns"
    by (simp add: yr AddDate_month f add.assoc)
  have s: "AddDate t y 0 0 = (month_day ?k + Day t - 1) * day_ns" by (simp add: yr AddDate_month assms)
  show ?thesis
    using day_in_month [OF Day_bounds(1) [of t] Day_le_31, of 0 ?k]
    unfolding AddYear_def Let_def first after l s unfolding g Date_zero d
    by (auto simp: shift_months_def Let_def month_day_next assms min_def)
qed

section \<open>Buckets\<close>

lemma div_floor:
  fixes x w :: int
  assumes "0 < w"
  shows "x div w * w \<le> x" "x < (x div w + 1) * w"
proof -
  have e: "x div w * w + x mod w = x" by (rule div_mult_mod_eq)
  have b: "0 \<le> x mod w" "x mod w < w" using assms by simp_all
  show "x div w * w \<le> x" using e b by linarith
  have "(x div w + 1) * w = x div w * w + w" by (simp add: distrib_right)
  then show "x < (x div w + 1) * w" using e b by linarith
qed

lemma floorDivInt_div: "0 < b \<Longrightarrow> floorDivInt a b = a div b"
proof -
  assume b: "0 < b"
  show ?thesis
  proof (cases "0 \<le> a")
    case True
    then show ?thesis using b by (simp add: floorDivInt_def go_arith)
  next
    case False
    have "- a div b = - (a div b) - (if a mod b = 0 then 0 else 1)"
      using zdiv_zminus1_eq_if [of b a] b by simp
    moreover have "- a mod b = 0 \<longleftrightarrow> a mod b = 0" using zmod_zminus1_eq_if [of a b] pos_mod_bound [OF b, of a] by (auto simp: less_le)
    ultimately show ?thesis using False b by (simp add: floorDivInt_def go_arith)
  qed
qed

lemma month_of_less: "month_of a < month_of b \<Longrightarrow> a < b"
proof -
  assume m: "month_of a < month_of b"
  have n: "day_number u = month_day (month_of u) + Day u - 1" for u
    using days_of_time [of u] by (simp add: month_day_def days_of_civil_def)
  have "day_number a < day_number b"
    using month_day_mono [OF m] time_in_month(2) [of a] Day_bounds(1) [of b] by (simp add: n)
  then show ?thesis using zdiv_mono1 [of b a day_ns] by (cases "b \<le> a") (auto simp: day_number_def)
qed

lemma monthBucketFloor_spec:
  assumes "0 < w"
  shows "\<exists>k. monthBucketFloor target origin w = shift_months origin (k * w) \<and>
    shift_months origin (k * w) \<le> target \<and> target < shift_months origin ((k + 1) * w)"
proof -
  define dl where "dl = month_of target - month_of origin"
  define n where "n = dl div w"
  have d: "(Year target * 12 + Month target - 1) - (Year origin * 12 + Month origin - 1) = dl"
    by (simp add: dl_def month_of_def)
  have nw: "n * w \<le> dl" "dl < (n + 1) * w"
    using assms div_floor [of w dl] by (simp_all add: n_def)
  have "month_of target < month_of (shift_months origin ((n + 1) * w))"
    using nw(2) by (simp add: shift_months_fields dl_def)
  then have above: "target < shift_months origin ((n + 1) * w)" by (rule month_of_less)
  have "(n - 1) * w < dl" using nw(1) assms by (simp add: algebra_simps)
  then have "month_of (shift_months origin ((n - 1) * w)) < month_of target"
    by (simp add: shift_months_fields dl_def)
  then have below: "shift_months origin ((n - 1) * w) < target" by (rule month_of_less)
  have eq: "monthBucketFloor target origin w =
      (if shift_months origin (n * w) > target
       then if \<not> shift_months origin ((n - 1 + 1) * w) > target then shift_months origin ((n - 1 + 1) * w)
            else shift_months origin ((n - 1) * w)
       else if \<not> shift_months origin ((n + 1) * w) > target then shift_months origin ((n + 1) * w)
            else shift_months origin (n * w))"
    unfolding monthBucketFloor_def Let_def d floorDivInt_div [OF assms] addMonthsPreserve_shift n_def by simp
  show ?thesis
  proof (cases "shift_months origin (n * w) > target")
    case True
    then show ?thesis using below by (intro exI [of _ "n - 1"]) (simp add: eq)
  next
    case False
    then show ?thesis using above by (intro exI [of _ n]) (simp add: eq)
  qed
qed

lemma nanosBucketFloor_spec:
  assumes "0 < w" "int64 (target - origin)" "int64 (target - origin - w)"
  shows "\<exists>k. nanosBucketFloor target origin w = origin + k * w \<and> origin + k * w \<le> target \<and> target < origin + (k + 1) * w"
proof -
  define df where "df = target - origin"
  define n where "n = df div w"
  have s: "TimeSub target origin = df" using assms(2) by (simp add: TimeSub_def df_def int64_def)
  have nw: "n * w \<le> df" "df < (n + 1) * w"
    using assms(1) div_floor [of w df] by (simp_all add: n_def)
  have "df - w < n * w" using nw(2) by (simp add: algebra_simps)
  then have "int64 (n * w)" using nw(1) assms(2,3) unfolding df_def [symmetric] int64_def by linarith
  then have "nanosBucketFloor target origin w = origin + n * w"
    by (simp add: nanosBucketFloor_def s floorDivInt_div [OF assms(1)] n_def)
  then show ?thesis using nw by (intro exI [of _ n]) (simp add: df_def algebra_simps)
qed

section \<open>Arrays of dates\<close>

text \<open>
  The loop of \<open>generateDateArray\<close> for a step of \<open>k\<close> days, in either direction: the distance
  to the end decides how many elements follow.
\<close>

lemma date_array_loop_days:
  assumes step: "\<And>x. AddDateWithInterval x step interval = x + k * day_ns"
    and "k \<noteq> 0" "isLT \<longleftrightarrow> 0 < k" "w = \<bar>k\<bar> * day_ns" "0 \<le> (if isLT then e - d else d - e)"
  shows "date_array_loop rest isLT (DateValue e) step interval (DateValue d) arr =
    (if (if isLT then e - d else d - e) div w < int rest
     then Inr (arr @ map (\<lambda>i. DateValue (d + int i * (k * day_ns))) [0..<Suc (nat ((if isLT then e - d else d - e) div w))])
     else Inl TooManyElements)"
  using assms(5)
proof (induction rest arbitrary: d arr)
  case 0
  have "0 < w" using assms(2,4) by simp
  then have "0 \<le> (if isLT then e - d else d - e) div w" using 0 by (simp add: pos_imp_zdiv_nonneg_iff)
  then show ?case by simp
next
  case (Suc rest)
  have w: "0 < w" using assms(2,4) by simp
  define z where "z = (if isLT then e - d else d - e)"
  have z: "0 \<le> z" using Suc.prems by (simp add: z_def)
  define d' where "d' = d + k * day_ns"
  define z' where "z' = (if isLT then e - d' else d' - e)"
  have zz: "z' = z - w" using assms(3,4) by (simp add: z_def z'_def d'_def)
  have c: "(if isLT then LTE (DateValue d') (DateValue e) else GTE (DateValue d') (DateValue e)) = Inr (w \<le> z)"
    using zz by (auto simp: time_cmp_def z'_def)
  have eq: "date_array_loop (Suc rest) isLT (DateValue e) step interval (DateValue d) arr =
      (if w \<le> z then date_array_loop rest isLT (DateValue e) step interval (DateValue d') (arr @ [DateValue d])
       else Inr (arr @ [DateValue d]))"
    using c by (simp add: step d'_def [symmetric] Let_def)
  show ?case
  proof (cases "w \<le> z")
    case True
    have q: "z div w = z' div w + 1" using w zz div_add_self2 [of w z'] by simp
    have z'0: "0 \<le> z'" using True zz by simp
    have n0: "0 \<le> z' div w" using w z'0 by (simp add: pos_imp_zdiv_nonneg_iff)
    have "DateValue d # map (\<lambda>i. DateValue (d' + int i * (k * day_ns))) [0..<Suc (nat (z' div w))]
        = map (\<lambda>i. DateValue (d + int i * (k * day_ns))) [0..<Suc (nat (z div w))]"
    proof -
      have "nat (z div w) = Suc (nat (z' div w))" using q n0 by simp
      moreover have "[0..<Suc (Suc m)] = 0 # map Suc [0..<Suc m]" for m by (simp add: map_Suc_upt upt_conv_Cons del: upt_Suc)
      ultimately show ?thesis by (simp add: d'_def algebra_simps comp_def del: upt_Suc)
    qed
    then show ?thesis
      using Suc.IH [of d' "arr @ [DateValue d]"] z'0 q
      unfolding eq z_def [symmetric] z'_def [symmetric] by (simp add: True del: upt_Suc)
  next
    case False
    then have "z div w = 0" using z by (simp add: div_pos_pos_trivial)
    then show ?thesis unfolding eq z_def [symmetric] by (simp add: False)
  qed
qed

end
