(* ===== verification/Date_Props.thy ===== *)
theory Date_Props
  imports Date_Months
begin

text \<open>
  The properties of the calendar functions.
\<close>

section \<open>Properties\<close>

text \<open>
  C20. Truncating a date to DAY, WEEK(weekday), ISOWEEK, MONTH, QUARTER or YEAR always returns, and
  returns the latest day that starts a period of that part and is not after the argument.
\<close>

theorem date_trunc_floor:
  assumes "clock_ns t = 0"
    "part \<in> {''DAY'', ''ISOWEEK'', ''MONTH'', ''QUARTER'', ''YEAR''} \<or> WeekPartToOffset part \<noteq> None"
  shows "\<exists>f. DATE_TRUNC t part = Inr (DateValue f) \<and> floor_of part t f"
  using assms(2)
proof (elim disjE insertE emptyE)
  assume "WeekPartToOffset part \<noteq> None"
  then obtain k where k: "WeekPartToOffset part = Some k" by blast
  have "floor_of part t (t - (day_number t + 4 - k) mod 7 * day_ns)"
    by (rule week_floor_of [OF _ _ assms(1)]) (use WeekPart_range [OF k] part_start_eqs(1) [OF k] part_index_eqs(1) [OF k] in simp_all)
  then show ?thesis using DATE_TRUNC_eqs(1) [OF k] by blast
next
  assume p: "part = ''ISOWEEK''"
  have "floor_of ''ISOWEEK'' t (t - (day_number t + 4 - 1) mod 7 * day_ns)"
    by (rule week_floor_of [OF _ _ assms(1)]) (simp_all add: part_start_eqs(3) part_index_eqs(3))
  then show ?thesis using DATE_TRUNC_eqs(3) [OF assms(1)] p by blast
next
  assume p: "part = ''DAY''"
  have "floor_of ''DAY'' t (day_number t * day_ns)" by (rule floor_ofI) (simp_all add: part_start_eqs(2))
  then show ?thesis using DATE_TRUNC_eqs(2) p by blast
qed (use date_trunc_civil [of t] DATE_TRUNC_eqs(4-6) [of t] in simp_all)

theorem date_trunc_floor_witness:
  "\<exists>f. DATE_TRUNC (19795 * day_ns) ''WEEK_MONDAY'' = Inr (DateValue f) \<and> floor_of ''WEEK_MONDAY'' (19795 * day_ns) f"
  by (rule date_trunc_floor) (simp_all add: WeekPartToOffset_def)

text \<open>
  C35. The last day of a part is not before the argument, the next day starts a new period of the
  part and no day in between does; for every part, ISO years included.
\<close>

theorem last_day_of_period:
  assumes "part \<in> {''ISOWEEK'', ''MONTH'', ''QUARTER'', ''YEAR'', ''ISOYEAR''} \<or> WeekPartToOffset part \<noteq> None"
  shows "\<exists>l. LAST_DAY t part = Inr (DateValue l) \<and> last_of part t l"
  using assms
proof (elim disjE insertE emptyE)
  assume "WeekPartToOffset part \<noteq> None"
  then obtain k where k: "WeekPartToOffset part = Some k" by blast
  show ?thesis
    using week_last [of k part t] LAST_DAY_week(1) [OF k] WeekPart_range [OF k] part_start_eqs(1) [OF k] part_index_eqs(1) [OF k]
    by simp
next
  assume p: "part = ''ISOWEEK''"
  show ?thesis unfolding p using week_last [of 1 "''ISOWEEK''" t] LAST_DAY_week(2) [of t] part_start_eqs(3) part_index_eqs(3)
    by simp
qed (use LAST_DAY_civil [of part t] isoyear_last [of t] in simp_all)

theorem last_day_of_period_witness:
  "\<exists>l. LAST_DAY (19795 * day_ns + 5) ''ISOYEAR'' = Inr (DateValue l) \<and> last_of ''ISOYEAR'' (19795 * day_ns + 5) l"
  by (rule last_day_of_period) simp

text \<open>
  C21. DATE_DIFF counts boundaries: for two dates, the later first, the result for a WEEK, MONTH,
  QUARTER, YEAR or ISOYEAR part (and for DAY within 106751 days) is the number of days after the
  earlier one, up to the later one, that start a period of the part; swapping the dates negates it.
\<close>

theorem date_diff_counts:
  assumes "clock_ns a = 0" "clock_ns b = 0" "day_number b \<le> day_number a"
    "part \<in> {''MONTH'', ''QUARTER'', ''YEAR'', ''ISOYEAR''} \<or> WeekPartToOffset part \<noteq> None \<or>
     part = ''DAY'' \<and> day_number a - day_number b \<le> 106751"
  shows "DATE_DIFF a b part =
      Inr (IntValue (int (card {d. day_number b < d \<and> d \<le> day_number a \<and> part_start part d}))) \<and>
    DATE_DIFF b a part =
      Inr (IntValue (- int (card {d. day_number b < d \<and> d \<le> day_number a \<and> part_start part d})))"
proof -
  have i: "DATE_DIFF a b part = Inr (IntValue (part_index part (day_number a) - part_index part (day_number b))) \<and>
      DATE_DIFF b a part = Inr (IntValue (part_index part (day_number b) - part_index part (day_number a)))"
    using assms(4)
  proof (elim disjE)
    assume p: "part \<in> {''MONTH'', ''QUARTER'', ''YEAR'', ''ISOYEAR''}"
    show ?thesis by (intro conjI DATE_DIFF_index(2) assms(1,2) p)
  next
    assume "WeekPartToOffset part \<noteq> None"
    then obtain k where k: "WeekPartToOffset part = Some k" by blast
    show ?thesis by (intro conjI DATE_DIFF_index(1) [OF _ _ k] assms(1,2))
  next
    assume p: "part = ''DAY'' \<and> day_number a - day_number b \<le> 106751"
    then have "\<bar>day_number a - day_number b\<bar> \<le> 106751" "\<bar>day_number b - day_number a\<bar> \<le> 106751"
      using assms(3) by simp_all
    then show ?thesis using p DATE_DIFF_index(3) [OF assms(1,2)] DATE_DIFF_index(3) [OF assms(2,1)] by simp
  qed
  show ?thesis using i part.ix_count [where part = part, OF assms(3)] by simp
qed

theorem date_diff_counts_witness:
  "DATE_DIFF (19795 * day_ns) (19700 * day_ns) ''QUARTER'' =
     Inr (IntValue (int (card {d. 19700 < d \<and> d \<le> 19795 \<and> part_start ''QUARTER'' d})))"
  using date_diff_counts [of "19795 * day_ns" "19700 * day_ns" "''QUARTER''"] by simp

text \<open>
  C36. Adding months: DATE_ADD and the step of date arrays both move a date by whole months and keep
  the day of the month, clamped to the last day of the target month; years are twelve months.
  DATE_ADD refuses a count outside 32 bits, and nothing else.
\<close>

theorem add_months_clamped:
  assumes "clock_ns t = 0"
  shows "DATE_ADD t v ''MONTH'' = (if int32 v then Inr (DateValue (shift_months t v)) else Inl (OutOfIntRange v)) \<and>
    DATE_ADD t v ''YEAR'' = (if int32 v then Inr (DateValue (shift_months t (12 * v))) else Inl (OutOfIntRange v)) \<and>
    AddDateWithInterval t v ''MONTH'' = shift_months t v \<and>
    AddDateWithInterval t v ''QUARTER'' = shift_months t (3 * v) \<and>
    AddDateWithInterval t v ''YEAR'' = shift_months t (12 * v)"
proof (intro conjI)
  have s: "SafeInt v = (if int32 v then Inr v else Inl (OutOfIntRange v))" by (auto simp: SafeInt_def int32_def)
  show "DATE_ADD t v ''MONTH'' = (if int32 v then Inr (DateValue (shift_months t v)) else Inl (OutOfIntRange v))"
    using AddMonth_shift [OF assms] by (simp add: DATE_ADD_def s)
  show "DATE_ADD t v ''YEAR'' = (if int32 v then Inr (DateValue (shift_months t (12 * v))) else Inl (OutOfIntRange v))"
    using AddYear_shift [OF assms] by (simp add: DATE_ADD_def s)
qed (simp_all add: AddDateWithInterval_def addMonthsClamped_shift)

text \<open>January 31, 2024 plus one month is February 29.\<close>

theorem add_months_clamped_witness:
  "DATE_ADD (19753 * day_ns) 1 ''MONTH'' = Inr (DateValue (19782 * day_ns))"
proof -
  have "shift_months (19753 * day_ns) 1 = 19782 * day_ns" by code_simp
  then show ?thesis using add_months_clamped [of "19753 * day_ns" 1] by (simp add: int32_def)
qed

text \<open>
  C37. A bucket contains its target: the lower bound of a bucket of whole months lies a whole number
  of bucket widths from the origin, is not after the target, and the next bound is after it; the
  same holds for a width in nanoseconds when target minus origin (less one width) fits in 64 bits.
\<close>

theorem bucket_contains_target:
  assumes "BucketFloor target origin iv = Inr lower"
  shows "(Years iv * 12 + Months iv \<noteq> 0 \<longrightarrow> (\<exists>k. lower = shift_months origin (k * (Years iv * 12 + Months iv)) \<and>
      lower \<le> target \<and> target < shift_months origin ((k + 1) * (Years iv * 12 + Months iv)))) \<and>
    (Years iv * 12 + Months iv = 0 \<longrightarrow> (\<forall>w. w = i64 (i64 (i64 (Days iv * 24) * 3600000000000) + bucket_sub_day iv) \<longrightarrow>
      int64 (target - origin) \<longrightarrow> int64 (target - origin - w) \<longrightarrow>
      (\<exists>k. lower = origin + k * w \<and> lower \<le> target \<and> target < lower + w)))"
proof (intro conjI impI allI)
  let ?m = "Years iv * 12 + Months iv"
  assume "?m \<noteq> 0"
  then have "0 < ?m" "lower = monthBucketFloor target origin ?m"
    using assms by (auto simp: BucketFloor_def Let_def split: if_splits)
  then show "\<exists>k. lower = shift_months origin (k * ?m) \<and> lower \<le> target \<and> target < shift_months origin ((k + 1) * ?m)"
    using monthBucketFloor_spec [of ?m target origin] by auto
next
  fix w
  assume m: "Years iv * 12 + Months iv = 0" and w: "w = i64 (i64 (i64 (Days iv * 24) * 3600000000000) + bucket_sub_day iv)"
    and b: "int64 (target - origin)" "int64 (target - origin - w)"
  have "0 < w" "lower = nanosBucketFloor target origin w"
    using assms m unfolding BucketFloor_def Let_def w [symmetric] by (auto split: if_splits)
  then show "\<exists>k. lower = origin + k * w \<and> lower \<le> target \<and> target < lower + w"
    using nanosBucketFloor_spec [OF _ b] by (auto simp: algebra_simps)
qed

theorem bucket_contains_target_witness:
  "\<exists>k. 19783 * day_ns = shift_months 0 (k * 1) \<and> 19783 * day_ns \<le> 19795 * day_ns \<and>
     19795 * day_ns < shift_months 0 ((k + 1) * 1)"
proof -
  have "BucketFloor (19795 * day_ns) 0 (zero_interval\<lparr>Months := 1\<rparr>) = Inr (19783 * day_ns)" by code_simp
  then show ?thesis using bucket_contains_target [of "19795 * day_ns" 0 "zero_interval\<lparr>Months := 1\<rparr>"]
    by (simp add: zero_interval_def)
qed

text \<open>
  GENERATE_DATE_ARRAY with a step of days or weeks returns exactly the dates start,
  start + step, ... up to the end, in both directions; none when the step points away from the end;
  and an error when they are more than ten million.
\<close>

theorem date_array_days:
  assumes "interval \<in> {''DAY'', ''WEEK''}" "step \<noteq> 0" "k = (if interval = ''WEEK'' then step * 7 else step)"
  shows "generateDateArray (Some (DateValue s)) (Some (DateValue e)) step interval =
    (if (s \<le> e) \<noteq> (0 < step) then Inr (Some [])
     else if \<bar>e - s\<bar> div (\<bar>k\<bar> * day_ns) < 10000000
     then Inr (Some (map (\<lambda>i. DateValue (s + int i * (k * day_ns))) [0..<Suc (nat (\<bar>e - s\<bar> div (\<bar>k\<bar> * day_ns)))]))
     else Inl TooManyElements)"
proof -
  have step: "AddDateWithInterval x step interval = x + k * day_ns" for x
    using assms(1,3) by (auto simp: AddDateWithInterval_def AddDate_days)
  have k: "k \<noteq> 0" "0 < k \<longleftrightarrow> 0 < step" using assms(2,3) by auto
  have lte: "LTE (DateValue s) (DateValue e) = Inr (s \<le> e)" by (auto simp: time_cmp_def)
  show ?thesis
  proof (cases "(s \<le> e) = (0 < step)")
    case True
    have "(if s \<le> e then e - s else s - e) = \<bar>e - s\<bar>" by simp
    then show ?thesis
      using date_array_loop_days [OF step k(1), of "s \<le> e" "\<bar>k\<bar> * day_ns" e s maxArray "[]"] True k(2) assms(2)
      by (simp add: generateDateArray_def lte maxArray_def del: upt_Suc LTE.simps)
  next
    case False
    then show ?thesis using assms(2) by (auto simp: generateDateArray_def lte simp del: LTE.simps)
  qed
qed

theorem date_array_days_witness:
  "generateDateArray (Some (DateValue 0)) (Some (DateValue (10 * day_ns))) 5 ''DAY'' =
     Inr (Some [DateValue 0, DateValue (5 * day_ns), DateValue (10 * day_ns)])"
proof -
  have "\<bar>10 * day_ns - 0\<bar> div (\<bar>5\<bar> * day_ns) = 2" by (simp add: day_ns_def)
  then show ?thesis
    using date_array_days [of "''DAY''" 5 5 0 "10 * day_ns"] by (simp add: upt_rec less_imp_le)
qed

text \<open>
  Truncating a DATETIME or TIME to SECOND drops the seconds as well, and truncating to
  MILLISECOND drops the milliseconds: the seconds are divided by a number of nanoseconds.
\<close>

theorem datetime_trunc_seconds:
  "DATETIME_TRUNC t ''SECOND'' = DATETIME_TRUNC t ''MINUTE'' \<and> TIME_TRUNC t ''SECOND'' = TIME_TRUNC t ''MINUTE'' \<and>
   DATETIME_TRUNC t ''MILLISECOND'' = Inr (DatetimeValue (t - t mod 1000000000))"
proof -
  have s: "0 \<le> Second t" "Second t < 60" by (simp_all add: Second_def)
  then have z: "Second t sdiv 1000000000 = 0" "Second t sdiv 1000 = 0" by (simp_all add: go_arith)
  have "Date (Year t) (Month t) (Day t) (Hour t) (Minute t) (Second t) 0 = t - Nanosecond t"
    using Date_clock [of "Year t" "Month t" "Day t" t] time_in_month(1) [of t] Date_month [of "Year t" "Month t" "Day t"]
    by (simp add: month_of_def)
  moreover have "Nanosecond t = t mod 1000000000"
  proof -
    have "(1000000000::int) dvd day_ns" by (simp add: day_ns_def)
    then show ?thesis by (simp add: Nanosecond_def clock_ns_def mod_mod_cancel)
  qed
  ultimately show ?thesis by (simp add: DATETIME_TRUNC_def TIME_TRUNC_def clock_trunc_def z)
qed

text \<open>
  Parts the calendar functions get wrong: DATE_ADD QUARTER adds three months whatever the count
  and DATE_SUB refuses QUARTER; January 15, 2021 truncated to ISOYEAR is December 28, 2020, which
  does not start an ISO year; between the Mondays of two consecutive weeks DATE_DIFF ISOWEEK gives -4;
  April 1, 2023 is extracted as quarter 1; and the days between January 1 of year 1 and
  December 31, 9999 are given as 106751.
\<close>

theorem date_part_defects:
  "DATE_ADD t v ''QUARTER'' = DATE_ADD t 3 ''MONTH'' \<and> DATE_SUB t v ''QUARTER'' = Inl (UnexpectedPart ''QUARTER'') \<and>
   DATE_TRUNC (18642 * day_ns) ''ISOYEAR'' = Inr (DateValue (18624 * day_ns)) \<and> \<not> part_start ''ISOYEAR'' 18624 \<and>
   DATE_DIFF (18631 * day_ns) (18624 * day_ns) ''ISOWEEK'' = Inr (IntValue (- 4)) \<and>
   extract_time (19448 * day_ns) ''QUARTER'' = Inr (IntValue 1) \<and> Month (19448 * day_ns) = 4 \<and>
   DATE_DIFF (2932896 * day_ns) zero_time ''DAY'' = Inr (IntValue 106751)"
proof (intro conjI)
  show "DATE_ADD t v ''QUARTER'' = DATE_ADD t 3 ''MONTH''" by (simp add: DATE_ADD_def SafeInt_def)
  show "DATE_SUB t v ''QUARTER'' = Inl (UnexpectedPart ''QUARTER'')" by (simp add: DATE_SUB_def)
  show "DATE_TRUNC (18642 * day_ns) ''ISOYEAR'' = Inr (DateValue (18624 * day_ns))"
    unfolding DATE_TRUNC_def has_prefix_def by (simp add: Let_def) code_simp
  show "\<not> part_start ''ISOYEAR'' 18624" by code_simp
  show "DATE_DIFF (18631 * day_ns) (18624 * day_ns) ''ISOWEEK'' = Inr (IntValue (- 4))" by code_simp
  show "extract_time (19448 * day_ns) ''QUARTER'' = Inr (IntValue 1)" by code_simp
  show "Month (19448 * day_ns) = 4" by code_simp
  show "DATE_DIFF (2932896 * day_ns) zero_time ''DAY'' = Inr (IntValue 106751)" by code_simp
qed

end
