(* ===== verification/Range_Functions.thy ===== *)
theory Range_Functions
  imports Values
begin

text \<open>
  The RANGE functions (\<open>internal/functions/rangefn\<close>): construction and access, containment,
  overlap, intersection and the division of a range into an array of ranges. An argument is a
  \<open>val option\<close>, \<open>None\<close> for NULL; an array is a list of values.
\<close>

section \<open>Construction and access\<close>

datatype range_error =
    RangeArgs nat
  | RangeOrder
  | RangeType
  | RangeNoOverlap
  | RangeUnbounded
  | RangeValueError value_error

definition pick_header :: "val option \<Rightarrow> elem_type" where
  "pick_header v = (case v of
       Some (DateValue _) \<Rightarrow> DateElem
     | Some (DatetimeValue _) \<Rightarrow> DatetimeElem
     | Some (TimestampValue _) \<Rightarrow> TimestampElem
     | _ \<Rightarrow> NoElem)"

definition elementHeader :: "val option \<Rightarrow> val option \<Rightarrow> elem_type" where
  "elementHeader start end' =
     (if pick_header start \<noteq> NoElem then pick_header start else pick_header end')"

definition RANGE :: "val option \<Rightarrow> val option \<Rightarrow> range_error + val" where
  "RANGE start end' =
     bind_res (case (start, end') of
         (Some s, Some e) \<Rightarrow> bind_res (map_sum RangeValueError id (LT s e)) (\<lambda>lt. if lt then Inr () else Inl RangeOrder)
       | _ \<Rightarrow> Inr ())
       (\<lambda>_. Inr (RangeValue start end' (elementHeader start end')))"

definition BindRange :: "val option list \<Rightarrow> range_error + val option" where
  "BindRange args = (case args of
       [start, end'] \<Rightarrow> map_sum id Some (RANGE start end')
     | _ \<Rightarrow> Inl (RangeArgs (length args)))"

text \<open>The four accessors differ in what they take from the two bounds.\<close>

definition bind_accessor :: "(val option \<Rightarrow> val option \<Rightarrow> val option) \<Rightarrow> val option list \<Rightarrow> range_error + val option" where
  "bind_accessor f args = (case args of
       [None] \<Rightarrow> Inr None
     | [Some (RangeValue s e _)] \<Rightarrow> Inr (f s e)
     | [Some _] \<Rightarrow> Inl RangeType
     | _ \<Rightarrow> Inl (RangeArgs (length args)))"

definition BindRangeStart :: "val option list \<Rightarrow> range_error + val option" where
  "BindRangeStart = bind_accessor (\<lambda>s e. s)"

definition BindRangeEnd :: "val option list \<Rightarrow> range_error + val option" where
  "BindRangeEnd = bind_accessor (\<lambda>s e. e)"

definition BindRangeIsStartUnbounded :: "val option list \<Rightarrow> range_error + val option" where
  "BindRangeIsStartUnbounded = bind_accessor (\<lambda>s e. Some (BoolValue (s = None)))"

definition BindRangeIsEndUnbounded :: "val option list \<Rightarrow> range_error + val option" where
  "BindRangeIsEndUnbounded = bind_accessor (\<lambda>s e. Some (BoolValue (e = None)))"

section \<open>Comparison of ranges\<close>

definition rangeBoundLEQ :: "val option \<Rightarrow> val option \<Rightarrow> bool \<Rightarrow> bool" where
  "rangeBoundLEQ x y startSide = (case x of
       None \<Rightarrow> startSide
     | Some a \<Rightarrow> (case y of
           None \<Rightarrow> \<not> startSide
         | Some b \<Rightarrow> (case LTE a b of Inl _ \<Rightarrow> False | Inr leq \<Rightarrow> leq)))"

definition pointLT :: "val option \<Rightarrow> val option \<Rightarrow> value_error + bool" where
  "pointLT a b = (case (a, b) of (Some x, Some y) \<Rightarrow> LT x y | _ \<Rightarrow> Inr False)"

definition maxBound :: "val option \<Rightarrow> val option \<Rightarrow> bool \<Rightarrow> val option" where
  "maxBound a b startSide = (case a of
       None \<Rightarrow> if startSide then b else a
     | Some x \<Rightarrow> (case b of
           None \<Rightarrow> if startSide then a else b
         | Some y \<Rightarrow> (case GT x y of Inl _ \<Rightarrow> a | Inr gt \<Rightarrow> if gt then a else b)))"

definition minBound :: "val option \<Rightarrow> val option \<Rightarrow> bool \<Rightarrow> val option" where
  "minBound a b startSide = (case a of
       None \<Rightarrow> if startSide then a else b
     | Some x \<Rightarrow> (case b of
           None \<Rightarrow> if startSide then b else a
         | Some y \<Rightarrow> (case LT x y of Inl _ \<Rightarrow> a | Inr lt \<Rightarrow> if lt then a else b)))"

definition contains_range :: "val option \<Rightarrow> val option \<Rightarrow> val option \<Rightarrow> val option \<Rightarrow> bool" where
  "contains_range os oe is' ie \<longleftrightarrow> rangeBoundLEQ os is' True \<and> rangeBoundLEQ ie oe False"

definition contains_point :: "val option \<Rightarrow> val option \<Rightarrow> val \<Rightarrow> range_error + bool" where
  "contains_point os oe point =
     (if \<not> rangeBoundLEQ os (Some point) True then Inr False
      else if oe \<noteq> None then map_sum RangeValueError id (pointLT (Some point) oe)
      else Inr True)"

definition BindRangeContains :: "val option list \<Rightarrow> range_error + val option" where
  "BindRangeContains args = (case args of
       [Some outer, Some inner] \<Rightarrow>
         (case outer of
            RangeValue os oe _ \<Rightarrow>
              (case inner of
                 RangeValue is' ie _ \<Rightarrow> Inr (Some (BoolValue (contains_range os oe is' ie)))
               | _ \<Rightarrow> map_sum id (\<lambda>b. Some (BoolValue b)) (contains_point os oe inner))
          | _ \<Rightarrow> Inl RangeType)
     | [_, _] \<Rightarrow> Inr None
     | _ \<Rightarrow> Inl (RangeArgs (length args)))"

definition overlaps :: "val option \<Rightarrow> val option \<Rightarrow> val option \<Rightarrow> val option \<Rightarrow> value_error + bool" where
  "overlaps as ae bs be =
     bind_res (if ae \<noteq> None \<and> bs \<noteq> None then pointLT bs ae else Inr True) (\<lambda>lt1.
       if \<not> lt1 then Inr False
       else if be \<noteq> None \<and> as \<noteq> None then pointLT as be else Inr True)"

definition BindRangeOverlaps :: "val option list \<Rightarrow> range_error + val option" where
  "BindRangeOverlaps args = (case args of
       [Some a, Some b] \<Rightarrow>
         (case (a, b) of
            (RangeValue as ae _, RangeValue bs be _) \<Rightarrow>
              map_sum RangeValueError (\<lambda>r. Some (BoolValue r)) (overlaps as ae bs be)
          | _ \<Rightarrow> Inl RangeType)
     | [_, _] \<Rightarrow> Inr None
     | _ \<Rightarrow> Inl (RangeArgs (length args)))"

definition BindRangeIntersect :: "val option list \<Rightarrow> range_error + val option" where
  "BindRangeIntersect args = (case args of
       [Some a, Some b] \<Rightarrow>
         (case (a, b) of
            (RangeValue as ae h, RangeValue bs be _) \<Rightarrow>
              bind_res (BindRangeOverlaps [Some a, Some b]) (\<lambda>overlap.
                if overlap = Some (BoolValue True)
                then Inr (Some (RangeValue (maxBound as bs True) (minBound ae be False) h))
                else Inl RangeNoOverlap)
          | _ \<Rightarrow> Inl RangeType)
     | [_, _] \<Rightarrow> Inr None
     | _ \<Rightarrow> Inl (RangeArgs (length args)))"

section \<open>Arrays of ranges\<close>

definition coerceRangeBound :: "val \<Rightarrow> elem_type \<Rightarrow> val" where
  "coerceRangeBound v elem = (case (elem, v) of
       (DateElem, DatetimeValue t) \<Rightarrow> DateValue (Date (Year t) (Month t) (Day t) 0 0 0 0)
     | _ \<Rightarrow> v)"

definition maxBuckets :: nat where "maxBuckets = 65536"

text \<open>The loop, with the number of iterations left; \<open>out\<close> holds the buckets so far.\<close>

fun range_array_loop :: "nat \<Rightarrow> val \<Rightarrow> elem_type \<Rightarrow> val \<Rightarrow> bool \<Rightarrow> val \<Rightarrow> val list \<Rightarrow> value_error + val list" where
  "range_array_loop 0 end' h step includePartial cur out = Inr out"
| "range_array_loop (Suc i) end' h step includePartial cur out =
     bind_res (Add cur step) (\<lambda>v.
       let next' = coerceRangeBound v h
       in bind_res (GT next' end') (\<lambda>gt.
            if gt then Inr (if includePartial then out @ [RangeValue (Some cur) (Some end') h] else out)
            else let out' = out @ [RangeValue (Some cur) (Some next') h]
                 in if EQ next' end' = Inr True then Inr out'
                    else range_array_loop i end' h step includePartial next' out'))"

definition BindGenerateRangeArray :: "val option list \<Rightarrow> range_error + val list option" where
  "BindGenerateRangeArray args =
     (if length args < 2 \<or> length args > 3 then Inl (RangeArgs (length args))
      else case (args ! 0, args ! 1) of
        (Some r, Some step) \<Rightarrow>
          (case r of
             RangeValue s e h \<Rightarrow>
               (case (s, e) of
                  (Some start, Some end') \<Rightarrow>
                    bind_res (case args of
                        [_, _, Some p] \<Rightarrow> map_sum RangeValueError id (ToBool p)
                      | _ \<Rightarrow> Inr True) (\<lambda>includePartial.
                      map_sum RangeValueError Some
                        (range_array_loop maxBuckets end' h step includePartial start []))
                | _ \<Rightarrow> Inl RangeUnbounded)
           | _ \<Rightarrow> Inl RangeType)
      | _ \<Rightarrow> Inr None)"

section \<open>Half-open ranges of times\<close>

text \<open>The times a range contains, from its bounds.\<close>

definition points :: "gotime option \<Rightarrow> gotime option \<Rightarrow> gotime set" where
  "points s e = {t. (\<forall>a. s = Some a \<longrightarrow> a \<le> t) \<and> (\<forall>b. e = Some b \<longrightarrow> t < b)}"

definition proper :: "gotime option \<Rightarrow> gotime option \<Rightarrow> bool" where
  "proper s e \<longleftrightarrow> (case (s, e) of (Some a, Some b) \<Rightarrow> a < b | _ \<Rightarrow> True)"

lemma proper_points: "proper s e \<longleftrightarrow> points s e \<noteq> {}"
proof (cases s; cases e)
  fix b assume "s = None" "e = Some b"
  moreover from this have "b - 1 \<in> points s e" by (simp add: points_def)
  ultimately show ?thesis by (auto simp: proper_def)
next
  fix a assume "s = Some a" "e = None"
  moreover from this have "a \<in> points s e" by (simp add: points_def)
  ultimately show ?thesis by (auto simp: proper_def)
next
  fix a b assume s: "s = Some a" "e = Some b"
  show ?thesis
  proof (cases "a < b")
    case True
    then have "a \<in> points s e" using s by (simp add: points_def)
    then show ?thesis using True s by (auto simp: proper_def)
  qed (use s in \<open>auto simp: proper_def points_def\<close>)
qed (simp add: proper_def points_def)

lemma points_subset:
  assumes "proper s' (Some b')"
  shows "points s' (Some b') \<subseteq> points s e \<longleftrightarrow>
    (\<forall>a. s = Some a \<longrightarrow> (\<exists>a'. s' = Some a' \<and> a \<le> a')) \<and> (\<forall>b. e = Some b \<longrightarrow> b' \<le> b)"
proof
  assume sub: "points s' (Some b') \<subseteq> points s e"
  have "b' - 1 \<in> points s' (Some b')" using assms by (auto simp: points_def proper_def split: option.splits)
  with sub have "b' - 1 \<in> points s e" by blast
  then have e: "\<forall>b. e = Some b \<longrightarrow> b' \<le> b" by (auto simp: points_def)
  have s: "\<exists>a'. s' = Some a' \<and> a \<le> a'" if "s = Some a" for a
  proof (cases s')
    case None
    then have "min a b' - 1 \<in> points s' (Some b')" by (simp add: points_def)
    with sub have "min a b' - 1 \<in> points s e" by blast
    then show ?thesis using that by (auto simp: points_def)
  next
    case (Some a')
    then have "a' \<in> points s' (Some b')" using assms by (simp add: points_def proper_def)
    with sub have "a' \<in> points s e" by blast
    then show ?thesis using that Some by (auto simp: points_def)
  qed
  show "(\<forall>a. s = Some a \<longrightarrow> (\<exists>a'. s' = Some a' \<and> a \<le> a')) \<and> (\<forall>b. e = Some b \<longrightarrow> b' \<le> b)"
    using s e by blast
next
  assume "(\<forall>a. s = Some a \<longrightarrow> (\<exists>a'. s' = Some a' \<and> a \<le> a')) \<and> (\<forall>b. e = Some b \<longrightarrow> b' \<le> b)"
  then show "points s' (Some b') \<subseteq> points s e" by (force simp: points_def)
qed

text \<open>
  What the range functions need of an element type: its values are an image of the times, and the
  comparison methods compare the times.
\<close>

locale range_element =
  fixes mk :: "gotime \<Rightarrow> val" and h :: elem_type
  assumes mk_LT: "LT (mk a) (mk b) = Inr (a < b)"
    and mk_GT: "GT (mk a) (mk b) = Inr (a > b)"
    and mk_LTE: "LTE (mk a) (mk b) = Inr (a \<le> b)"
    and mk_EQ: "EQ (mk a) (mk b) = Inr (a = b)"
    and mk_header: "pick_header (Some (mk a)) = h" "h \<noteq> NoElem"
    and mk_step: "Add (mk a) step = Inr v \<Longrightarrow> \<exists>b. coerceRangeBound v h = mk b"
    and mk_no_range: "mk a \<noteq> RangeValue x y z"
begin

definition rng :: "gotime option \<Rightarrow> gotime option \<Rightarrow> val" where
  "rng s e = RangeValue (map_option mk s) (map_option mk e) h"

lemmas mk_cmp = mk_LT mk_GT mk_LTE mk_EQ

lemma mk_inject: "mk a = mk b \<longleftrightarrow> a = b"
  using mk_EQ [of a b] mk_EQ [of a a] by auto

lemma RANGE_bounds:
  assumes "s \<noteq> None \<or> e \<noteq> None"
  shows "RANGE (map_option mk s) (map_option mk e) = (if proper s e then Inr (rng s e) else Inl RangeOrder)"
proof -
  have "elementHeader (map_option mk s) (map_option mk e) = h"
    using assms mk_header by (cases s; cases e) (simp_all add: elementHeader_def pick_header_def)
  then show ?thesis by (cases s; cases e) (simp_all add: RANGE_def rng_def proper_def mk_cmp)
qed

lemma pointLT_mk: "pointLT (Some (mk a)) (Some (mk b)) = Inr (a < b)"
  by (simp add: pointLT_def mk_cmp)

lemma contains_point_mk: "contains_point (map_option mk s) (map_option mk e) (mk t) = Inr (t \<in> points s e)"
  by (cases s; cases e) (auto simp: contains_point_def rangeBoundLEQ_def pointLT_mk mk_cmp points_def)

lemma contains_range_mk:
  assumes "proper s' e'"
  shows "contains_range (map_option mk s) (map_option mk e) (map_option mk s') (map_option mk e') \<longleftrightarrow>
    e' \<noteq> None \<and> points s' e' \<subseteq> points s e"
proof (cases e')
  case None
  then show ?thesis by (simp add: contains_range_def rangeBoundLEQ_def)
next
  case (Some b')
  have "contains_range (map_option mk s) (map_option mk e) (map_option mk s') (map_option mk (Some b')) \<longleftrightarrow>
      (\<forall>a. s = Some a \<longrightarrow> (\<exists>a'. s' = Some a' \<and> a \<le> a')) \<and> (\<forall>b. e = Some b \<longrightarrow> b' \<le> b)"
    by (cases s; cases s'; cases e) (simp_all add: contains_range_def rangeBoundLEQ_def mk_cmp)
  then show ?thesis using points_subset [of s' b' s e] assms Some by simp
qed

lemma overlaps_mk:
  assumes "proper s e" "proper s' e'"
  shows "overlaps (map_option mk s) (map_option mk e) (map_option mk s') (map_option mk e') =
    Inr (points s e \<inter> points s' e' \<noteq> {})"
proof -
  have i: "points s e \<inter> points s' e' =
      points (if s = None then s' else if s' = None then s else Some (max (the s) (the s')))
             (if e = None then e' else if e' = None then e else Some (min (the e) (the e')))"
    by (cases s; cases s'; cases e; cases e') (auto simp: points_def)
  show ?thesis unfolding i proper_points [symmetric]
    using assms by (cases s; cases s'; cases e; cases e') (auto simp: overlaps_def pointLT_mk proper_def)
qed

lemma intersect_mk:
  "maxBound (map_option mk s) (map_option mk s') True =
     map_option mk (if s = None then s' else if s' = None then s else Some (max (the s) (the s')))"
  "minBound (map_option mk e) (map_option mk e') False =
     map_option mk (if e = None then e' else if e' = None then e else Some (min (the e) (the e')))"
  by (cases s; cases s'; simp add: maxBound_def mk_cmp max_def)
    (cases e; cases e'; simp add: minBound_def mk_cmp min_def)

text \<open>
  The buckets of a range: from \<open>s\<close> the buckets of the list follow each other without gaps, and
  the last one ends at \<open>t\<close>.
\<close>

fun buckets :: "gotime \<Rightarrow> val list \<Rightarrow> gotime \<Rightarrow> bool" where
  "buckets s [] t \<longleftrightarrow> s = t"
| "buckets s (b # bs) t \<longleftrightarrow> (\<exists>u. b = rng (Some s) (Some u) \<and> buckets u bs t)"

lemma buckets_snoc: "buckets s (bs @ [rng (Some u) (Some t)]) v \<longleftrightarrow> buckets s bs u \<and> v = t"
  by (induction bs arbitrary: s) (auto simp: rng_def mk_inject)

lemma range_array_loop_buckets:
  assumes "range_array_loop n (mk e) h step p (mk c) out = Inr out'" "buckets s out c" "length out + n \<le> k" "c \<le> e"
  shows "\<exists>t. buckets s out' t \<and> t \<le> e \<and> (p \<and> length out' < k \<longrightarrow> t = e \<or> length out' = length out + n)"
  using assms
proof (induction n arbitrary: c out)
  case 0
  then show ?case by auto
next
  case (Suc n)
  obtain v where v: "Add (mk c) step = Inr v" using Suc.prems(1) by (auto simp: bind_res_Inr_iff)
  obtain b where b: "coerceRangeBound v h = mk b" using mk_step [OF v] by blast
  have res: "(if b > e then Inr (if p then out @ [rng (Some c) (Some e)] else out)
      else if b = e then Inr (out @ [rng (Some c) (Some b)])
      else range_array_loop n (mk e) h step p (mk b) (out @ [rng (Some c) (Some b)])) = Inr out'"
    using Suc.prems(1) v b by (cases p) (simp_all add: mk_cmp rng_def Let_def split: if_splits)
  show ?case
  proof (cases "b < e")
    case True
    then have r: "range_array_loop n (mk e) h step p (mk b) (out @ [rng (Some c) (Some b)]) = Inr out'" using res by simp
    have "buckets s (out @ [rng (Some c) (Some b)]) b" using Suc.prems(2) by (simp add: buckets_snoc)
    from Suc.IH [OF r this] Suc.prems(3) True show ?thesis by auto
  next
    case False
    then consider "out' = out @ [rng (Some c) (Some e)]" | "\<not> p" "out' = out" using res by (auto split: if_splits)
    then show ?thesis
    proof cases
      case 1
      then show ?thesis using Suc.prems(2) by (intro exI [of _ e]) (simp add: buckets_snoc)
    next
      case 2
      then show ?thesis using Suc.prems(2,4) by (intro exI [of _ c]) simp
    qed
  qed
qed

lemma generate_range_array_mk:
  assumes "BindGenerateRangeArray [Some (rng (Some s) (Some e)), Some step, Some (BoolValue p)] = Inr (Some out)" "s \<le> e"
  shows "\<exists>t. buckets s out t \<and> t \<le> e \<and> length out \<le> 65536 \<and> (p \<and> length out < 65536 \<longrightarrow> t = e)"
proof -
  have "range_array_loop maxBuckets (mk e) h step p (mk s) [] = Inr out"
    using assms(1) by (cases "range_array_loop maxBuckets (mk e) h step p (mk s) []")
      (auto simp: BindGenerateRangeArray_def rng_def)
  moreover have "length out' \<le> length out + n" if "range_array_loop n (mk e) h step p x out = Inr out'" for n x out out'
    using that
  proof (induction n arbitrary: x out)
    case (Suc n)
    then obtain v gt where v: "Add x step = Inr v" "GT (coerceRangeBound v h) (mk e) = Inr gt" by (auto simp: bind_res_Inr_iff Let_def)
    show ?case using Suc.prems Suc.IH [of "coerceRangeBound v h"] v by (fastforce simp: Let_def split: if_splits)
  qed simp
  ultimately show ?thesis
    using range_array_loop_buckets [of maxBuckets e step p s "[]" out s maxBuckets] assms(2)
    by (fastforce simp: maxBuckets_def)
qed

end

section \<open>The three element types\<close>

interpretation date: range_element DateValue DateElem
  by unfold_locales
    (auto simp: time_cmp_def pick_header_def date_Add_def coerceRangeBound_def split: val.splits)

interpretation datetime: range_element DatetimeValue DatetimeElem
  by unfold_locales
    (auto simp: time_cmp_def pick_header_def datetime_Add_def coerceRangeBound_def split: val.splits)

interpretation timestamp: range_element TimestampValue TimestampElem
  by unfold_locales
    (auto simp: time_cmp_def pick_header_def timestamp_Add_def coerceRangeBound_def split: val.splits)

section \<open>Properties\<close>

fun elem_val :: "elem_type \<Rightarrow> gotime \<Rightarrow> val" where
  "elem_val DateElem t = DateValue t"
| "elem_val DatetimeElem t = DatetimeValue t"
| "elem_val TimestampElem t = TimestampValue t"
| "elem_val NoElem t = IntValue t"

text \<open>The RANGE value of two optional times of an element type.\<close>

definition time_range :: "elem_type \<Rightarrow> gotime option \<Rightarrow> gotime option \<Rightarrow> val" where
  "time_range k s e = RangeValue (map_option (elem_val k) s) (map_option (elem_val k) e) k"

lemma elem_val_eta: "elem_val DateElem = DateValue" "elem_val DatetimeElem = DatetimeValue" "elem_val TimestampElem = TimestampValue"
  by (simp_all add: fun_eq_iff)

lemmas overlaps_elem = date.overlaps_mk datetime.overlaps_mk timestamp.overlaps_mk
lemmas contains_elem = date.contains_range_mk datetime.contains_range_mk timestamp.contains_range_mk
lemmas point_elem = date.contains_point_mk datetime.contains_point_mk timestamp.contains_point_mk
lemmas intersect_elem = date.intersect_mk datetime.intersect_mk timestamp.intersect_mk

lemma points_Int: "points s e \<inter> points s' e' =
    points (if s = None then s' else if s' = None then s else Some (max (the s) (the s')))
           (if e = None then e' else if e' = None then e else Some (min (the e) (the e')))"
  by (cases s; cases s'; cases e; cases e') (auto simp: points_def)

text \<open>
  C26. Two ranges overlap exactly when a time lies in both. Their intersection is then a range that
  contains exactly the common times. Without a common time RANGE_INTERSECT is an error, as the
  documentation of the function requires; the comment above the Go function says NULL instead.
\<close>

theorem range_overlap_intersect:
  assumes "k \<noteq> NoElem" "proper s e" "proper s' e'"
  shows "BindRangeOverlaps [Some (time_range k s e), Some (time_range k s' e')] =
      Inr (Some (BoolValue (points s e \<inter> points s' e' \<noteq> {}))) \<and>
    (if points s e \<inter> points s' e' = {}
     then BindRangeIntersect [Some (time_range k s e), Some (time_range k s' e')] = Inl RangeNoOverlap
     else \<exists>s'' e''. points s'' e'' = points s e \<inter> points s' e' \<and>
       BindRangeIntersect [Some (time_range k s e), Some (time_range k s' e')] = Inr (Some (time_range k s'' e'')))"
proof -
  let ?s = "if s = None then s' else if s' = None then s else Some (max (the s) (the s'))"
  let ?e = "if e = None then e' else if e' = None then e else Some (min (the e) (the e'))"
  have o: "BindRangeOverlaps [Some (time_range k s e), Some (time_range k s' e')] =
      Inr (Some (BoolValue (points s e \<inter> points s' e' \<noteq> {})))"
    using assms(1) by (cases k)
      (simp_all add: time_range_def BindRangeOverlaps_def elem_val_eta overlaps_elem [OF assms(2,3)])
  moreover have "BindRangeIntersect [Some (time_range k s e), Some (time_range k s' e')] =
      (if points s e \<inter> points s' e' = {} then Inl RangeNoOverlap else Inr (Some (time_range k ?s ?e)))"
    using assms(1) o by (cases k) (simp_all add: time_range_def BindRangeIntersect_def elem_val_eta intersect_elem)
  ultimately show ?thesis using points_Int [of s e s' e'] by auto
qed

theorem range_overlap_intersect_witness:
  "BindRangeOverlaps [Some (time_range DateElem (Some 0) None), Some (time_range DateElem None (Some 5))] =
      Inr (Some (BoolValue (points (Some 0) None \<inter> points None (Some 5) \<noteq> {})))"
  using range_overlap_intersect [of DateElem "Some 0" None None "Some 5"] by (simp add: proper_def)

text \<open>
  RANGE_CONTAINS of a range and a point is membership. Of two ranges it is inclusion, except
  that a range without an end is never contained, not even in itself.
\<close>

theorem range_contains_inclusion:
  assumes "k \<noteq> NoElem" "proper s' e'"
  shows "BindRangeContains [Some (time_range k s e), Some (elem_val k t)] = Inr (Some (BoolValue (t \<in> points s e))) \<and>
    BindRangeContains [Some (time_range k s e), Some (time_range k s' e')] =
      Inr (Some (BoolValue (e' \<noteq> None \<and> points s' e' \<subseteq> points s e)))"
  using assms(1) by (cases k)
    (simp_all add: time_range_def BindRangeContains_def elem_val_eta point_elem contains_elem [OF assms(2)])

theorem range_contains_inclusion_witness:
  "BindRangeContains [Some (time_range DateElem (Some 0) None), Some (time_range DateElem (Some 0) None)] =
     Inr (Some (BoolValue False))"
  using range_contains_inclusion [of DateElem "Some 0" None "Some 0" None 0] by (simp add: proper_def)

text \<open>The buckets of a range array, for any element type.\<close>

fun range_buckets :: "elem_type \<Rightarrow> gotime \<Rightarrow> val list \<Rightarrow> gotime \<Rightarrow> bool" where
  "range_buckets k s [] t \<longleftrightarrow> s = t"
| "range_buckets k s (b # bs) t \<longleftrightarrow> (\<exists>u. b = time_range k (Some s) (Some u) \<and> range_buckets k u bs t)"

lemma range_buckets_eq:
  "range_buckets DateElem s bs t = date.buckets s bs t" "range_buckets DatetimeElem s bs t = datetime.buckets s bs t"
  "range_buckets TimestampElem s bs t = timestamp.buckets s bs t"
  by (induction bs arbitrary: s)
    (simp_all add: time_range_def elem_val_eta date.rng_def datetime.rng_def timestamp.rng_def)

text \<open>
  GENERATE_RANGE_ARRAY cuts the range into buckets that follow each other without gap or
  overlap, starting at its start and never passing its end, whatever the step; when the partial
  last bucket is kept and fewer than 65536 buckets come out they cover the whole range.
\<close>

theorem range_array_buckets:
  assumes "k \<noteq> NoElem" "s \<le> e"
    "BindGenerateRangeArray [Some (time_range k (Some s) (Some e)), Some step, Some (BoolValue p)] = Inr (Some out)"
  shows "\<exists>t. range_buckets k s out t \<and> t \<le> e \<and> length out \<le> 65536 \<and> (p \<and> length out < 65536 \<longrightarrow> t = e)"
proof (cases k)
  case DateElem
  then show ?thesis using date.generate_range_array_mk [of s e step p out] assms(2,3)
    by (simp add: range_buckets_eq time_range_def date.rng_def)
next
  case DatetimeElem
  then show ?thesis using datetime.generate_range_array_mk [of s e step p out] assms(2,3)
    by (simp add: range_buckets_eq time_range_def datetime.rng_def)
next
  case TimestampElem
  then show ?thesis using timestamp.generate_range_array_mk [of s e step p out] assms(2,3)
    by (simp add: range_buckets_eq time_range_def timestamp.rng_def)
qed (use assms(1) in simp)

theorem range_array_buckets_witness:
  "\<exists>t. range_buckets DateElem 0 [time_range DateElem (Some 0) (Some (2 * day_ns)), time_range DateElem (Some (2 * day_ns)) (Some (3 * day_ns))] t
     \<and> t \<le> 3 * day_ns"
proof -
  have "BindGenerateRangeArray [Some (time_range DateElem (Some 0) (Some (3 * day_ns))), Some (IntValue 2), Some (BoolValue True)] =
      Inr (Some [time_range DateElem (Some 0) (Some (2 * day_ns)), time_range DateElem (Some (2 * day_ns)) (Some (3 * day_ns))])"
  proof -
    have m: "maxBuckets = Suc (Suc 65534)" by (simp add: maxBuckets_def)
    have "range_array_loop (Suc (Suc n)) (DateValue (3 * day_ns)) DateElem (IntValue 2) True (DateValue 0) [] =
        Inr [RangeValue (Some (DateValue 0)) (Some (DateValue (2 * day_ns))) DateElem,
             RangeValue (Some (DateValue (2 * day_ns))) (Some (DateValue (3 * day_ns))) DateElem]" for n
      by (simp add: date_Add_def AddDate_days coerceRangeBound_def time_cmp_def day_ns_def Let_def)
    from this [of 65534, folded m] show ?thesis by (simp add: BindGenerateRangeArray_def time_range_def)
  qed
  from range_array_buckets [OF _ _ this] show ?thesis by auto
qed

end
