(* ===== verification/String_Functions.thy ===== *)
theory String_Functions
  imports Go_Base
begin

text \<open>
  The string functions (\<open>internal/functions/string\<close>) on STRING and BYTES values. A STRING is the
  list of its code points (the code works on \<open>[]rune\<close>, and conversion to and from it is the
  identity on valid UTF-8), a BYTES value the list of its bytes; both are lists of \<^typ>\<open>int\<close>.
  Slicing out of range and a negative repeat count panic in Go: here they are the error
  \<open>Panic\<close>. The functions of the \<open>strings\<close> and \<open>bytes\<close> packages the code calls are
  defined first.
\<close>

section \<open>Values, errors and library functions\<close>

type_synonym runes = "int list"

datatype text_value = StringValue runes | BytesValue runes

datatype string_error =
    NegativeLength
  | LengthRange int
  | EmptyPattern
  | SameTypeRequired
  | PositionZero
  | OccurrenceNotPositive int
  | DuplicateSource int
  | DelimiterRequired
  | BadReplacement
  | Panic

text \<open>\<open>helper.SafeInt\<close>, for lengths and counts.\<close>

definition SafeLen :: "int \<Rightarrow> string_error + int" where
  "SafeLen v = (if int32 v then Inr v else Inl (LengthRange v))"

text \<open>The slice expression \<open>xs[i:j]\<close>.\<close>

definition slice :: "'a list \<Rightarrow> int \<Rightarrow> int \<Rightarrow> string_error + 'a list" where
  "slice xs i j =
     (if 0 \<le> i \<and> i \<le> j \<and> j \<le> int (length xs) then Inr (take (nat (j - i)) (drop (nat i) xs)) else Inl Panic)"

text \<open>\<open>Repeat\<close> panics on a negative count.\<close>

definition Repeat :: "'a list \<Rightarrow> int \<Rightarrow> string_error + 'a list" where
  "Repeat xs k = (if k < 0 then Inl Panic else Inr (concat (replicate (nat k) xs)))"

text \<open>\<open>HasPrefix\<close>, \<open>HasSuffix\<close> and the position of the first occurrence (\<open>Index\<close>).\<close>

definition HasPrefix :: "runes \<Rightarrow> runes \<Rightarrow> bool" where
  "HasPrefix s p \<longleftrightarrow> take (length p) s = p"

definition HasSuffix :: "runes \<Rightarrow> runes \<Rightarrow> bool" where
  "HasSuffix s p \<longleftrightarrow> length p \<le> length s \<and> drop (length s - length p) s = p"

fun Index :: "runes \<Rightarrow> runes \<Rightarrow> nat option" where
  "Index [] p = (if p = [] then Some 0 else None)"
| "Index (x # xs) p = (if HasPrefix (x # xs) p then Some 0 else map_option Suc (Index xs p))"

lemma Index_bound: "Index s p = Some i \<Longrightarrow> i + length p \<le> length s"
proof (induction s p arbitrary: i rule: Index.induct)
  case (2 x xs p)
  show ?case
  proof (cases "HasPrefix (x # xs) p")
    case True
    then have "length p \<le> length (x # xs)" by (metis HasPrefix_def length_take min.cobounded1)
    then show ?thesis using 2(2) True by simp
  next
    case False
    then show ?thesis using 2 by auto
  qed
qed (auto split: if_splits)

text \<open>\<open>Split\<close> and \<open>ReplaceAll\<close> for a non-empty separator.\<close>

function (sequential) Split :: "runes \<Rightarrow> runes \<Rightarrow> runes list" where
  "Split [] s = [s]"
| "Split (d # ds) s = (case Index s (d # ds) of
       None \<Rightarrow> [s]
     | Some i \<Rightarrow> take i s # Split (d # ds) (drop (i + length (d # ds)) s))"
  by pat_completeness auto
termination Split
  by (relation "measure (\<lambda>(d, s). length s)") (auto dest: Index_bound)

definition ReplaceAll :: "runes \<Rightarrow> runes \<Rightarrow> runes \<Rightarrow> runes" where
  "ReplaceAll s old new = (case Split old s of [] \<Rightarrow> [] | p # ps \<Rightarrow> p @ concat (map (\<lambda>q. new @ q) ps))"

section \<open>Parts of a text\<close>

definition substrPos :: "int \<Rightarrow> int \<Rightarrow> int" where
  "substrPos pos strlen =
     (if pos = 0 \<or> pos < - strlen then 0
      else if pos > strlen then strlen
      else if pos > 0 then pos - 1
      else strlen + pos)"

definition substrLen :: "int option \<Rightarrow> int \<Rightarrow> string_error + int" where
  "substrLen length' strlen = (case length' of
       None \<Rightarrow> Inr strlen
     | Some l \<Rightarrow> if l < 0 then Inl NegativeLength else if l > strlen then Inr strlen else Inr l)"

text \<open>The body of both cases of \<open>SUBSTR\<close>.\<close>

definition substr_text :: "runes \<Rightarrow> int \<Rightarrow> int option \<Rightarrow> string_error + runes" where
  "substr_text v pos length' =
     (let vLen = int (length v); actualPos = substrPos pos vLen
      in bind_res (substrLen length' vLen) (\<lambda>actualLen.
           slice v actualPos (min (i64 (actualPos + actualLen)) vLen)))"

definition SUBSTR :: "text_value \<Rightarrow> int \<Rightarrow> int option \<Rightarrow> string_error + text_value" where
  "SUBSTR val pos length' = (case val of
       StringValue v \<Rightarrow> map_sum id StringValue (substr_text v pos length')
     | BytesValue v \<Rightarrow> map_sum id BytesValue (substr_text v pos length'))"

definition LEFT :: "text_value \<Rightarrow> int \<Rightarrow> string_error + text_value" where
  "LEFT val len =
     (if len < 0 then Inl NegativeLength
      else bind_res (SafeLen len) (\<lambda>n. case val of
          StringValue s \<Rightarrow> if int (length s) \<le> n then Inr val else map_sum id StringValue (slice s 0 n)
        | BytesValue b \<Rightarrow> if int (length b) \<le> n then Inr val else map_sum id BytesValue (slice b 0 n)))"

definition RIGHT :: "text_value \<Rightarrow> int \<Rightarrow> string_error + text_value" where
  "RIGHT val len =
     (if len < 0 then Inl NegativeLength
      else bind_res (SafeLen len) (\<lambda>n. case val of
          StringValue s \<Rightarrow> if int (length s) \<le> n then Inr val
            else map_sum id StringValue (slice s (int (length s) - n) (int (length s)))
        | BytesValue b \<Rightarrow> if int (length b) \<le> n then Inr val
            else map_sum id BytesValue (slice b (int (length b) - n) (int (length b)))))"

section \<open>Padding, repetition and reversal\<close>

text \<open>The padding both cases of \<open>LPAD\<close> and \<open>RPAD\<close> compute, cut to the missing length.\<close>

definition padding :: "int \<Rightarrow> runes option \<Rightarrow> string_error + runes" where
  "padding remainLen pattern =
     bind_res (case pattern of
         None \<Rightarrow> Repeat [32] remainLen
       | Some p \<Rightarrow>
           if p = [] then Inl EmptyPattern
           else if remainLen - int (length p) > 0
           then Repeat p ((remainLen - int (length p)) sdiv int (length p) + 2)
           else Inr p)
       (\<lambda>pat. slice pat 0 remainLen)"

definition pad :: "bool \<Rightarrow> runes \<Rightarrow> int \<Rightarrow> runes option \<Rightarrow> string_error + runes" where
  "pad left s retLen pattern =
     (if int (length s) \<ge> retLen then slice s 0 retLen
      else bind_res (padding (retLen - int (length s)) pattern) (\<lambda>p. Inr (if left then p @ s else s @ p)))"

definition pad_value :: "bool \<Rightarrow> text_value \<Rightarrow> int \<Rightarrow> runes option \<Rightarrow> string_error + text_value" where
  "pad_value left original returnLength pattern =
     (if returnLength < 0 then Inl NegativeLength
      else bind_res (SafeLen returnLength) (\<lambda>retLen. case original of
          StringValue s \<Rightarrow> map_sum id StringValue (pad left s retLen pattern)
        | BytesValue b \<Rightarrow> map_sum id BytesValue (pad left b retLen pattern)))"

definition LPAD :: "text_value \<Rightarrow> int \<Rightarrow> runes option \<Rightarrow> string_error + text_value" where
  "LPAD = pad_value True"

definition RPAD :: "text_value \<Rightarrow> int \<Rightarrow> runes option \<Rightarrow> string_error + text_value" where
  "RPAD = pad_value False"

definition REPEAT :: "text_value \<Rightarrow> int \<Rightarrow> string_error + text_value" where
  "REPEAT original repetitions =
     bind_res (SafeLen repetitions) (\<lambda>reps. case original of
         StringValue v \<Rightarrow> map_sum id StringValue (Repeat v reps)
       | BytesValue v \<Rightarrow> map_sum id BytesValue (Repeat v reps))"

text \<open>The loop that swaps the elements from both ends.\<close>

function swap_loop :: "'a list \<Rightarrow> int \<Rightarrow> int \<Rightarrow> 'a list" where
  "swap_loop rs i j =
     (if i < j then swap_loop (rs[nat i := rs ! nat j, nat j := rs ! nat i]) (i + 1) (j - 1) else rs)"
  by pat_completeness auto
termination by (relation "measure (\<lambda>(rs, i, j). nat (j - i))") auto

declare swap_loop.simps [simp del]

definition REVERSE :: "text_value \<Rightarrow> text_value" where
  "REVERSE val = (case val of
       StringValue v \<Rightarrow> StringValue (swap_loop v 0 (int (length v) - 1))
     | BytesValue v \<Rightarrow> BytesValue (rev v))"

section \<open>Searching and replacing\<close>

definition STARTS_WITH :: "text_value \<Rightarrow> runes \<Rightarrow> bool" where
  "STARTS_WITH val starts = (case val of StringValue v \<Rightarrow> HasPrefix v starts | BytesValue v \<Rightarrow> HasPrefix v starts)"

definition ENDS_WITH :: "text_value \<Rightarrow> runes \<Rightarrow> bool" where
  "ENDS_WITH val ends = (case val of StringValue v \<Rightarrow> HasSuffix v ends | BytesValue v \<Rightarrow> HasSuffix v ends)"

definition STRPOS :: "text_value \<Rightarrow> runes \<Rightarrow> int" where
  "STRPOS val search = (case val of
       StringValue v \<Rightarrow> (case Index v search of None \<Rightarrow> 0 | Some i \<Rightarrow> int i + 1)
     | BytesValue v \<Rightarrow> (case Index v search of None \<Rightarrow> 0 | Some i \<Rightarrow> int i + 1))"

text \<open>\<open>instrIndex\<close>: \<open>matchAt\<close> reads \<open>src\<close> from \<open>i\<close>; the two loops scan up and down.\<close>

definition matchAt :: "'a list \<Rightarrow> 'a list \<Rightarrow> int \<Rightarrow> bool" where
  "matchAt src sub i \<longleftrightarrow> list_all (\<lambda>k. src ! nat (i + int k) = sub ! k) [0..<length sub]"

function scan_up :: "'a list \<Rightarrow> 'a list \<Rightarrow> int \<Rightarrow> int \<Rightarrow> int \<Rightarrow> int" where
  "scan_up src sub occurrence i found =
     (if i + int (length sub) \<le> int (length src) then
        if matchAt src sub i then
          if found + 1 = occurrence then i + 1 else scan_up src sub occurrence (i + 1) (found + 1)
        else scan_up src sub occurrence (i + 1) found
      else 0)"
  by pat_completeness auto
termination by (relation "measure (\<lambda>(src, sub, oc, i, f). nat (int (length src) + 1 - i))") auto

function scan_down :: "'a list \<Rightarrow> 'a list \<Rightarrow> int \<Rightarrow> int \<Rightarrow> int \<Rightarrow> int" where
  "scan_down src sub occurrence i found =
     (if i \<ge> 0 then
        if matchAt src sub i then
          if found + 1 = occurrence then i + 1 else scan_down src sub occurrence (i - 1) (found + 1)
        else scan_down src sub occurrence (i - 1) found
      else 0)"
  by pat_completeness auto
termination by (relation "measure (\<lambda>(src, sub, oc, i, f). nat (i + 1))") auto

declare scan_up.simps [simp del] scan_down.simps [simp del]

definition instrIndex :: "'a list \<Rightarrow> 'a list \<Rightarrow> int \<Rightarrow> int \<Rightarrow> int" where
  "instrIndex src sub position occurrence =
     (let n = int (length src); m = int (length sub)
      in if position > 0 then
           if position > n then 0 else scan_up src sub occurrence (position - 1) 0
         else let start = n + position
              in if start < 0 then 0
                 else scan_down src sub occurrence (if start + m > n then n - m else start) 0)"

definition INSTR :: "text_value \<Rightarrow> text_value \<Rightarrow> int \<Rightarrow> int \<Rightarrow> string_error + int" where
  "INSTR source search position occurrence =
     (if position = 0 then Inl PositionZero
      else if occurrence \<le> 0 then Inl (OccurrenceNotPositive occurrence)
      else case (source, search) of
          (StringValue src, StringValue sub) \<Rightarrow> Inr (instrIndex src sub position occurrence)
        | (BytesValue src, BytesValue sub) \<Rightarrow> Inr (instrIndex src sub position occurrence)
        | _ \<Rightarrow> Inl SameTypeRequired)"

definition REPLACE :: "text_value \<Rightarrow> runes \<Rightarrow> runes \<Rightarrow> text_value" where
  "REPLACE original from to = (case original of
       StringValue v \<Rightarrow> if from = [] then StringValue v else StringValue (ReplaceAll v from to)
     | BytesValue v \<Rightarrow> if from = [] then BytesValue v else BytesValue (ReplaceAll v from to))"

text \<open>\<open>SplitSeq\<close> with an empty separator yields the single code points.\<close>

definition SPLIT :: "text_value \<Rightarrow> runes option \<Rightarrow> string_error + text_value list" where
  "SPLIT val delimValue = (case val of
       StringValue v \<Rightarrow>
         (let delim = (case delimValue of None \<Rightarrow> [44] | Some d \<Rightarrow> d)
          in if v = [] then Inr [StringValue []]
             else Inr (map StringValue (if delim = [] then map (\<lambda>c. [c]) v else Split delim v)))
     | BytesValue v \<Rightarrow>
         (case delimValue of
            None \<Rightarrow> Inl DelimiterRequired
          | Some delim \<Rightarrow>
              if v = [] then Inr [BytesValue []]
              else if delim = [] then Inr (map (\<lambda>c. BytesValue [c]) v)
              else Inr (map BytesValue (Split delim v))))"

section \<open>TRANSLATE\<close>

text \<open>
  For a STRING two maps are built from the source characters: the mapped ones and the deleted ones.
\<close>

fun build_maps :: "runes \<Rightarrow> runes \<Rightarrow> nat \<Rightarrow> (int \<rightharpoonup> int) \<Rightarrow> int set \<Rightarrow> string_error + ((int \<rightharpoonup> int) \<times> int set)" where
  "build_maps [] tgt i mapping deleted = Inr (mapping, deleted)"
| "build_maps (sr # srs) tgt i mapping deleted =
     (if mapping sr \<noteq> None then Inl (DuplicateSource sr)
      else if sr \<in> deleted then Inl (DuplicateSource sr)
      else if i < length tgt then build_maps srs tgt (i + 1) (mapping(sr \<mapsto> tgt ! i)) deleted
      else build_maps srs tgt (i + 1) mapping (insert sr deleted))"

fun apply_maps :: "(int \<rightharpoonup> int) \<Rightarrow> int set \<Rightarrow> runes \<Rightarrow> runes" where
  "apply_maps mapping deleted [] = []"
| "apply_maps mapping deleted (r # rs) =
     (if r \<in> deleted then apply_maps mapping deleted rs
      else (case mapping r of Some v \<Rightarrow> v | None \<Rightarrow> r) # apply_maps mapping deleted rs)"

text \<open>For BYTES every source byte is replaced in the whole value, one after the other.\<close>

fun translate_bytes :: "runes \<Rightarrow> runes \<Rightarrow> nat \<Rightarrow> int set \<Rightarrow> runes \<Rightarrow> string_error + runes" where
  "translate_bytes [] t i evaluated e = Inr e"
| "translate_bytes (s # ss) t i evaluated e =
     (if s \<in> evaluated then Inl (DuplicateSource s)
      else translate_bytes ss t (i + 1) (insert s evaluated) (ReplaceAll e [s] (if length t > i then [t ! i] else [])))"

definition TRANSLATE :: "text_value \<Rightarrow> text_value \<Rightarrow> text_value \<Rightarrow> string_error + text_value" where
  "TRANSLATE expr source target = (case (expr, source, target) of
       (StringValue e, StringValue s, StringValue t) \<Rightarrow>
         bind_res (build_maps s t 0 Map.empty {}) (\<lambda>(mapping, deleted). Inr (StringValue (apply_maps mapping deleted e)))
     | (BytesValue e, BytesValue s, BytesValue t) \<Rightarrow> map_sum id BytesValue (translate_bytes s t 0 {} e)
     | _ \<Rightarrow> Inl SameTypeRequired)"

section \<open>TRIM\<close>

definition trimFunc :: "runes \<Rightarrow> (int \<Rightarrow> bool) \<Rightarrow> bool \<Rightarrow> bool \<Rightarrow> runes" where
  "trimFunc s f left right =
     (let s1 = (if left then dropWhile f s else s)
      in if right then rev (dropWhile f (rev s1)) else s1)"

function trim_start :: "(int \<Rightarrow> bool) \<Rightarrow> runes \<Rightarrow> nat \<Rightarrow> nat \<Rightarrow> nat" where
  "trim_start set' b start end' =
     (if start < end' \<and> set' (b ! start) then trim_start set' b (start + 1) end' else start)"
  by pat_completeness auto
termination by (relation "measure (\<lambda>(f, b, s, e). e - s)") auto

fun trim_end :: "(int \<Rightarrow> bool) \<Rightarrow> runes \<Rightarrow> nat \<Rightarrow> nat \<Rightarrow> nat" where
  "trim_end set' b start 0 = 0"
| "trim_end set' b start (Suc e) = (if Suc e > start \<and> set' (b ! e) then trim_end set' b start e else Suc e)"

text \<open>\<open>unicode.IsSpace\<close> and \<open>strings.TrimSpace\<close>.\<close>

definition IsSpace :: "int \<Rightarrow> bool" where
  "IsSpace r \<longleftrightarrow> 9 \<le> r \<and> r \<le> 13 \<or> r \<in> {32, 0x85, 0xA0, 0x1680, 0x2028, 0x2029, 0x202F, 0x205F, 0x3000} \<or> 0x2000 \<le> r \<and> r \<le> 0x200A"

definition TrimSpace_runes :: "runes \<Rightarrow> runes" where
  "TrimSpace_runes s = trimFunc s IsSpace True True"

text \<open>A missing cutset is \<open>None\<close>.\<close>

definition trimValue :: "text_value \<Rightarrow> runes option \<Rightarrow> bool \<Rightarrow> bool \<Rightarrow> string_error + text_value" where
  "trimValue v cutset left right = (case v of
       StringValue s \<Rightarrow>
         Inr (StringValue (trimFunc s (case cutset of None \<Rightarrow> IsSpace | Some c \<Rightarrow> (\<lambda>r. r \<in> set c)) left right))
     | BytesValue b \<Rightarrow>
         (let set' = (\<lambda>c. c \<in> set (case cutset of None \<Rightarrow> [32, 9, 10, 13, 12, 11] | Some cb \<Rightarrow> cb));
              start = (if left then trim_start set' b 0 (length b) else 0);
              end' = (if right then trim_end set' b start (length b) else length b)
          in map_sum id BytesValue (slice b (int start) (int end'))))"

definition TRIM :: "text_value \<Rightarrow> runes option \<Rightarrow> string_error + text_value" where
  "TRIM v cutset = trimValue v cutset True True"

definition LTRIM :: "text_value \<Rightarrow> runes option \<Rightarrow> string_error + text_value" where
  "LTRIM v cutset = trimValue v cutset True False"

definition RTRIM :: "text_value \<Rightarrow> runes option \<Rightarrow> string_error + text_value" where
  "RTRIM v cutset = trimValue v cutset False True"

section \<open>EDIT_DISTANCE\<close>

text \<open>
  The two rows are arrays of length \<open>m + 1\<close>; the inner loop fills \<open>cur\<close> from the left,
  the outer loop exchanges the rows.
\<close>

definition edit_cell :: "int \<Rightarrow> runes \<Rightarrow> nat list \<Rightarrow> nat list \<Rightarrow> nat \<Rightarrow> nat" where
  "edit_cell c rb prev cur j =
     (let cost = (if c = rb ! (j - 1) then 0 else 1);
          del = prev ! j + 1;
          ins = cur ! (j - 1) + 1;
          sub = prev ! (j - 1) + cost;
          m1 = (if ins < del then ins else del)
      in if sub < m1 then sub else m1)"

definition edit_row :: "int \<Rightarrow> runes \<Rightarrow> nat list \<Rightarrow> nat list \<Rightarrow> nat \<Rightarrow> nat list" where
  "edit_row c rb prev cur i =
     foldl (\<lambda>cur j. cur[j := edit_cell c rb prev cur j]) (cur[0 := i]) [1..<length rb + 1]"

definition edit_rows :: "runes \<Rightarrow> runes \<Rightarrow> nat list \<times> nat list" where
  "edit_rows ra rb =
     foldl (\<lambda>(prev, cur) i. (edit_row (ra ! (i - 1)) rb prev cur i, prev))
       ([0..<length rb + 1], replicate (length rb + 1) 0) [1..<length ra + 1]"

definition EDIT_DISTANCE :: "runes \<Rightarrow> runes \<Rightarrow> int" where
  "EDIT_DISTANCE ra rb =
     (if length ra = 0 then int (length rb)
      else if length rb = 0 then int (length ra)
      else int (fst (edit_rows ra rb) ! length rb))"

text \<open>
  The binder caps the distance at the optional maximum, whatever its sign, and ignores the argument
  \<open>byte_semantics\<close>, which is left out here; a call with fewer than two arguments gives NULL like a
  NULL argument.
\<close>

definition BindEditDistance :: "runes option \<Rightarrow> runes option \<Rightarrow> int option \<Rightarrow> int option" where
  "BindEditDistance a b maxDistance = (case (a, b) of
       (Some ra, Some rb) \<Rightarrow>
         (let got = EDIT_DISTANCE ra rb
          in case maxDistance of Some mx \<Rightarrow> Some (if got > mx then mx else got) | None \<Rightarrow> Some got)
     | _ \<Rightarrow> None)"

section \<open>REGEXP_REPLACE templates and SOUNDEX\<close>

text \<open>
  A replacement is rewritten byte by byte: backslash (92) and a digit become a group reference,
  a doubled backslash one backslash, and a dollar sign (36) is doubled.
\<close>

fun normalizeReplacement :: "runes \<Rightarrow> string_error + runes" where
  "normalizeReplacement [] = Inr []"
| "normalizeReplacement (c # cs) =
     (if c = 92 then
        (case cs of
           [] \<Rightarrow> Inl BadReplacement
         | next' # rest \<Rightarrow>
             if 48 \<le> next' \<and> next' \<le> 57 then map_sum id (\<lambda>r. [36, 123, next', 125] @ r) (normalizeReplacement rest)
             else if next' = 92 then map_sum id (\<lambda>r. 92 # r) (normalizeReplacement rest)
             else Inl BadReplacement)
      else if c = 36 then map_sum id (\<lambda>r. 36 # 36 # r) (normalizeReplacement cs)
      else map_sum id (\<lambda>r. c # r) (normalizeReplacement cs))"

text \<open>The soundex code of an upper-case letter (\<open>soundexMap\<close>), zero for any other byte.\<close>

definition soundexMap :: "int \<Rightarrow> int" where
  "soundexMap c =
     (if c \<in> {65, 69, 72, 73, 79, 85, 87, 89} then 48
      else if c \<in> {66, 70, 80, 86} then 49
      else if c \<in> {67, 71, 74, 75, 81, 83, 88, 90} then 50
      else if c \<in> {68, 84} then 51
      else if c = 76 then 52
      else if c \<in> {77, 78} then 53
      else if c = 82 then 54
      else 0)"

text \<open>An ASCII letter is a single byte that \<open>unicode.IsLetter\<close> accepts; other letters are skipped.\<close>

definition ascii_letter :: "int \<Rightarrow> bool" where
  "ascii_letter r \<longleftrightarrow> 65 \<le> r \<and> r \<le> 90 \<or> 97 \<le> r \<and> r \<le> 122"

definition to_upper :: "int \<Rightarrow> int" where
  "to_upper b = (if 97 \<le> b \<and> b \<le> 122 then b - 32 else b)"

fun soundex_loop :: "runes \<Rightarrow> int \<Rightarrow> nat \<Rightarrow> runes \<Rightarrow> nat \<times> runes" where
  "soundex_loop [] prevCode point buf = (point, buf)"
| "soundex_loop (r # rs) prevCode point buf =
     (if \<not> ascii_letter r then soundex_loop rs prevCode point buf
      else let code = soundexMap (to_upper r)
           in if point = 0 then soundex_loop rs code 1 (buf[0 := r])
              else if code = prevCode \<or> code = 48 then soundex_loop rs prevCode point buf
              else if point + 1 = 4 then (4, buf[point := code])
              else soundex_loop rs code (point + 1) (buf[point := code]))"

definition SOUNDEX :: "runes \<Rightarrow> runes" where
  "SOUNDEX val =
     (let (point, buf) = soundex_loop val 0 0 [32, 48, 48, 48] in if point = 0 then [] else buf)"

end
