(* ===== verification/String_Props.thy ===== *)
theory String_Props
  imports String_Functions
begin

text \<open>
  Properties of the string functions: the edit distance is the length of a shortest edit script,
  parts and padding have the right length and content, searches return the right occurrence,
  splitting is undone by joining, and TRANSLATE agrees with the character map it is given.
\<close>

section \<open>Edit scripts\<close>

text \<open>
  \<open>script k xs ys\<close>: reading both texts from the left, \<open>xs\<close> turns into \<open>ys\<close> by
  copying characters and \<open>k\<close> replacements, insertions and deletions.
\<close>

inductive script :: "nat \<Rightarrow> runes \<Rightarrow> runes \<Rightarrow> bool" where
  script_nil: "script 0 [] []"
| script_copy: "script k xs ys \<Longrightarrow> script k (x # xs) (x # ys)"
| script_repl: "script k xs ys \<Longrightarrow> script (Suc k) (x # xs) (y # ys)"
| script_ins: "script k xs ys \<Longrightarrow> script (Suc k) xs (y # ys)"
| script_del: "script k xs ys \<Longrightarrow> script (Suc k) (x # xs) ys"

lemmas script_intros = script.intros

text \<open>The recurrence the two-row computation follows.\<close>

fun lev :: "runes \<Rightarrow> runes \<Rightarrow> nat" where
  "lev [] ys = length ys"
| "lev xs [] = length xs"
| "lev (x # xs) (y # ys) =
     min (min (lev xs (y # ys) + 1) (lev (x # xs) ys + 1)) (lev xs ys + (if x = y then 0 else 1))"

lemma lev_Nil2 [simp]: "lev xs [] = length xs"
  by (cases xs) simp_all

lemma script_Nil: "script (length ys) [] ys"
  by (induction ys) (auto intro: script_intros)

lemma script_Nil2: "script (length xs) xs []"
  by (induction xs) (auto intro: script_intros)

lemma script_lev: "script (lev xs ys) xs ys"
proof (induction xs ys rule: lev.induct)
  case (3 x xs y ys)
  let ?d = "lev xs (y # ys) + 1" and ?i = "lev (x # xs) ys + 1" and ?s = "lev xs ys + (if x = y then 0 else 1)"
  have "script ?d (x # xs) (y # ys)" "script ?i (x # xs) (y # ys)" "script ?s (x # xs) (y # ys)"
    using 3 by (auto intro: script_intros)
  then show ?case by (auto simp: min_def)
qed (auto intro: script_Nil script_Nil2 [of "_ # _", simplified])

lemma lev_ins: "lev xs (y # ys) \<le> lev xs ys + 1"
  by (cases xs) simp_all

lemma lev_del: "lev (x # xs) ys \<le> lev xs ys + 1"
  by (cases ys) simp_all

lemma lev_least: "script k xs ys \<Longrightarrow> lev xs ys \<le> k"
proof (induction rule: script.induct)
  case (script_ins k xs ys y)
  then show ?case using lev_ins [of xs y ys] by simp
next
  case (script_del k xs ys x)
  then show ?case using lev_del [of x xs ys] by simp
qed auto

lemma script_snoc:
  "script k xs ys \<Longrightarrow> script k (xs @ [x]) (ys @ [x])"
  "script k xs ys \<Longrightarrow> script (Suc k) (xs @ [x]) (ys @ [y])"
  "script k xs ys \<Longrightarrow> script (Suc k) xs (ys @ [y])"
  "script k xs ys \<Longrightarrow> script (Suc k) (xs @ [x]) ys"
  by (induction rule: script.induct) (auto intro: script_intros)

lemma script_rev: "script k xs ys \<Longrightarrow> script k (rev xs) (rev ys)"
  by (induction rule: script.induct) (auto intro: script_intros script_snoc)

lemma Least_script: "(LEAST k. script k xs ys) = lev (rev xs) (rev ys)"
proof (rule Least_equality)
  show "script (lev (rev xs) (rev ys)) xs ys" using script_rev [OF script_lev [of "rev xs" "rev ys"]] by simp
  show "lev (rev xs) (rev ys) \<le> k" if "script k xs ys" for k by (rule lev_least [OF script_rev [OF that]])
qed

section \<open>The two rows\<close>

text \<open>The distance of the first \<open>i\<close> and the first \<open>j\<close> characters.\<close>

definition dist :: "runes \<Rightarrow> runes \<Rightarrow> nat \<Rightarrow> nat \<Rightarrow> nat" where
  "dist a b i j = lev (rev (take i a)) (rev (take j b))"

lemma dist_0: "j \<le> length b \<Longrightarrow> dist a b 0 j = j" "i \<le> length a \<Longrightarrow> dist a b i 0 = i"
  by (simp_all add: dist_def)

lemma dist_Suc:
  assumes "i < length a" "j < length b"
  shows "dist a b (Suc i) (Suc j) =
    min (min (dist a b i (Suc j) + 1) (dist a b (Suc i) j + 1)) (dist a b i j + (if a ! i = b ! j then 0 else 1))"
  using assms by (simp add: dist_def take_Suc_conv_app_nth)

lemma edit_row_spec:
  assumes "length cur = length b + 1" "i < length a" "\<And>j. j \<le> length b \<Longrightarrow> prev ! j = dist a b i j"
  shows "length (edit_row (a ! i) b prev cur (Suc i)) = length b + 1"
    "j \<le> length b \<Longrightarrow> edit_row (a ! i) b prev cur (Suc i) ! j = dist a b (Suc i) j"
proof -
  let ?f = "\<lambda>cur j. cur[j := edit_cell (a ! i) b prev cur j]"
  have inv: "length (foldl ?f (cur[0 := Suc i]) [1..<k + 1]) = length b + 1 \<and>
      (\<forall>j\<le>k. foldl ?f (cur[0 := Suc i]) [1..<k + 1] ! j = dist a b (Suc i) j)" if "k \<le> length b" for k
    using that
  proof (induction k)
    case 0
    then show ?case using assms(1,2) by (simp add: dist_0 nth_list_update)
  next
    case (Suc k)
    let ?c = "foldl ?f (cur[0 := Suc i]) [1..<k + 1]"
    have c: "length ?c = length b + 1" "\<And>j. j \<le> k \<Longrightarrow> ?c ! j = dist a b (Suc i) j" using Suc by auto
    have "edit_cell (a ! i) b prev ?c (Suc k) = dist a b (Suc i) (Suc k)"
      using Suc.prems c(2) [of k] assms(2,3) dist_Suc [of i a k b] by (simp add: edit_cell_def Let_def min_def)
    moreover have "foldl ?f (cur[0 := Suc i]) [1..<Suc k + 1] = ?f ?c (Suc k)" by simp
    ultimately have e: "foldl ?f (cur[0 := Suc i]) [1..<Suc k + 1] = ?c[Suc k := dist a b (Suc i) (Suc k)]" by simp
    show ?case unfolding e using c Suc.prems by (auto simp: nth_list_update le_Suc_eq)
  qed
  show "length (edit_row (a ! i) b prev cur (Suc i)) = length b + 1"
    "j \<le> length b \<Longrightarrow> edit_row (a ! i) b prev cur (Suc i) ! j = dist a b (Suc i) j"
    using inv [of "length b"] unfolding edit_row_def by auto
qed

lemma edit_rows_spec: "j \<le> length b \<Longrightarrow> fst (edit_rows a b) ! j = dist a b (length a) j"
proof -
  let ?g = "\<lambda>(prev, cur) i. (edit_row (a ! (i - 1)) b prev cur i, prev)"
  let ?s = "([0..<length b + 1], replicate (length b + 1) 0)"
  have "length (snd (foldl ?g ?s [1..<k + 1])) = length b + 1 \<and> length (fst (foldl ?g ?s [1..<k + 1])) = length b + 1 \<and>
      (\<forall>j\<le>length b. fst (foldl ?g ?s [1..<k + 1]) ! j = dist a b k j)" if "k \<le> length a" for k
    using that
  proof (induction k)
    case 0
    then show ?case by (auto simp: dist_0 nth_append le_less)
  next
    case (Suc k)
    obtain prev cur where pc: "foldl ?g ?s [1..<k + 1] = (prev, cur)" by (cases "foldl ?g ?s [1..<k + 1]")
    have l: "length cur = length b + 1" "length prev = length b + 1" "\<And>j. j \<le> length b \<Longrightarrow> prev ! j = dist a b k j"
      using Suc pc by auto
    have e: "foldl ?g ?s [1..<Suc k + 1] = (edit_row (a ! k) b prev cur (Suc k), prev)"
      using pc by simp
    have k: "k < length a" using Suc.prems by simp
    show ?case unfolding e using edit_row_spec [OF l(1) k l(3)] l(2) by simp
  qed
  from this [of "length a"] show "j \<le> length b \<Longrightarrow> fst (edit_rows a b) ! j = dist a b (length a) j"
    unfolding edit_rows_def by simp
qed

lemma EDIT_DISTANCE_lev: "EDIT_DISTANCE a b = int (lev (rev a) (rev b))"
  using edit_rows_spec [of "length b" b a] by (auto simp: EDIT_DISTANCE_def dist_def)

text \<open>
  C25. \<open>EDIT_DISTANCE\<close> is the length of a shortest edit script between the two texts, and the
  binder returns it, or the given maximum when that is smaller.
\<close>

theorem edit_distance_least:
  "EDIT_DISTANCE a b = int (LEAST k. script k a b) \<and>
   BindEditDistance (Some a) (Some b) None = Some (int (LEAST k. script k a b)) \<and>
   BindEditDistance (Some a) (Some b) (Some mx) = Some (min mx (int (LEAST k. script k a b)))"
  by (simp add: EDIT_DISTANCE_lev Least_script BindEditDistance_def Let_def min_def)

section \<open>Parts and padding\<close>

lemma slice_ok: "0 \<le> i \<Longrightarrow> i \<le> j \<Longrightarrow> j \<le> int (length xs) \<Longrightarrow> slice xs i j = Inr (take (nat (j - i)) (drop (nat i) xs))"
  by (simp add: slice_def)

lemma concat_replicate_nth:
  "i < k * length p \<Longrightarrow> concat (replicate k p) ! i = p ! (i mod length p)"
proof (induction k arbitrary: i)
  case (Suc k)
  show ?case
  proof (cases "i < length p")
    case False
    then have "concat (replicate k p) ! (i - length p) = p ! ((i - length p) mod length p)" using Suc by simp
    then show ?thesis using False by (simp add: nth_append le_mod_geq)
  qed (simp add: nth_append)
qed simp

lemma concat_replicate_length: "length (concat (replicate k p)) = k * length p"
  by (induction k) simp_all

text \<open>The padding is the pattern, repeated and cut.\<close>

lemma padding_spec:
  assumes "0 < r" "pattern \<noteq> Some []"
  shows "\<exists>q. padding r pattern = Inr q \<and> int (length q) = r \<and>
    (\<forall>i < length q. q ! i = (case pattern of None \<Rightarrow> 32 | Some p \<Rightarrow> p ! (i mod length p)))"
proof (cases pattern)
  case None
  have "padding r pattern = Inr (take (nat r) (concat (replicate (nat r) [32])))"
    using None assms(1) by (simp add: padding_def Repeat_def slice_def concat_replicate_length)
  then show ?thesis using None assms(1) concat_replicate_nth [of _ "nat r" "[32]"]
    by (simp add: concat_replicate_length)
next
  case (Some p)
  have p: "0 < int (length p)" using assms(2) Some by simp
  define k where "k = (if r - int (length p) > 0 then (r - int (length p)) sdiv int (length p) + 2 else 1)"
  have k: "0 < k" "r \<le> k * int (length p)"
  proof -
    show "0 < k"
    proof (cases "r - int (length p) > 0")
      case True
      then have "0 \<le> (r - int (length p)) div int (length p)" using p by (simp add: pos_imp_zdiv_nonneg_iff)
      then show ?thesis using True p by (simp add: k_def go_arith)
    qed (simp add: k_def)
    show "r \<le> k * int (length p)"
    proof (cases "r - int (length p) > 0")
      case True
      have "(r - int (length p)) div int (length p) * int (length p) + (r - int (length p)) mod int (length p) = r - int (length p)"
        by (rule div_mult_mod_eq)
      moreover have "(r - int (length p)) mod int (length p) < int (length p)" using p by simp
      moreover have "k * int (length p) = (r - int (length p)) div int (length p) * int (length p) + 2 * int (length p)"
        using True p by (simp add: k_def go_arith distrib_right)
      ultimately show ?thesis by linarith
    qed (simp add: k_def)
  qed
  have len: "int (length (concat (replicate (nat k) p))) = k * int (length p)"
    using k(1) by (simp add: concat_replicate_length)
  have "padding r pattern = slice (concat (replicate (nat k) p)) 0 r"
    using Some p k(1) by (auto simp: padding_def Repeat_def k_def split: if_splits)
  also have "\<dots> = Inr (take (nat r) (concat (replicate (nat k) p)))"
    using assms(1) k(2) len by (simp add: slice_def)
  finally have e: "padding r pattern = Inr (take (nat r) (concat (replicate (nat k) p)))" .
  have l: "length (take (nat r) (concat (replicate (nat k) p))) = nat r" using k(2) len by simp
  have "take (nat r) (concat (replicate (nat k) p)) ! i = p ! (i mod length p)" if "i < nat r" for i
    using that l concat_replicate_nth [of i "nat k" p] concat_replicate_length [of "nat k" p] by simp
  then show ?thesis using e l assms(1) Some by simp
qed

subsection \<open>Reversal\<close>

lemma swap_loop_nth:
  "0 \<le> i \<Longrightarrow> i + j = int (length rs) - 1 \<Longrightarrow> i \<le> j + 1 \<Longrightarrow>
   length (swap_loop rs i j) = length rs \<and>
   (\<forall>k < length rs. swap_loop rs i j ! k = (if i \<le> int k \<and> int k \<le> j then rs ! (length rs - 1 - k) else rs ! k))"
proof (induction rs i j rule: swap_loop.induct)
  case (1 rs i j)
  show ?case
  proof (cases "i < j")
    case True
    let ?rs = "rs[nat i := rs ! nat j, nat j := rs ! nat i]"
    have ih: "length (swap_loop ?rs (i + 1) (j - 1)) = length rs"
      "\<And>k. k < length rs \<Longrightarrow> swap_loop ?rs (i + 1) (j - 1) ! k =
        (if i + 1 \<le> int k \<and> int k \<le> j - 1 then ?rs ! (length rs - 1 - k) else ?rs ! k)"
      using 1(1)[OF True] 1(2,3) True by auto
    have e: "swap_loop rs i j = swap_loop ?rs (i + 1) (j - 1)" using True by (subst swap_loop.simps) simp
    have "swap_loop rs i j ! k = (if i \<le> int k \<and> int k \<le> j then rs ! (length rs - 1 - k) else rs ! k)"
      if k: "k < length rs" for k
    proof -
      consider "int k = i" | "int k = j" | "i < int k" "int k < j" | "int k < i \<or> j < int k" by linarith
      then show ?thesis
      proof cases
        case 1
        then have "length rs - 1 - k = nat j" "k = nat i" using \<open>i + j = int (length rs) - 1\<close> by linarith+
        then show ?thesis using e ih(2)[OF k] True k \<open>0 \<le> i\<close> by auto
      next
        case 2
        then have "length rs - 1 - k = nat i" "k = nat j" using \<open>i + j = int (length rs) - 1\<close> by linarith+
        then show ?thesis using e ih(2)[OF k] True k \<open>0 \<le> i\<close> by auto
      next
        case 3
        then have "length rs - 1 - k \<noteq> nat i" "length rs - 1 - k \<noteq> nat j" using \<open>i + j = int (length rs) - 1\<close> \<open>0 \<le> i\<close> by linarith+
        then show ?thesis using e ih(2)[OF k] 3 by auto
      next
        case 4
        then have "k \<noteq> nat i" "k \<noteq> nat j" using \<open>0 \<le> i\<close> True by linarith+
        then show ?thesis using e ih(2)[OF k] 4 by auto
      qed
    qed
    then show ?thesis using e ih(1) by simp
  next
    case False
    then have "swap_loop rs i j = rs" by (subst swap_loop.simps) simp
    moreover have "length rs - 1 - k = k" if "i \<le> int k" "int k \<le> j" for k using that False 1(3) by linarith
    ultimately show ?thesis by auto
  qed
qed

lemma swap_loop_rev: "swap_loop rs 0 (int (length rs) - 1) = rev rs"
  using swap_loop_nth [of 0 "int (length rs) - 1" rs] by (intro nth_equalityI) (auto simp: rev_nth)

lemma swap_loop_rev': "n = int (length rs) - 1 \<Longrightarrow> swap_loop rs 0 n = rev rs"
  by (simp add: swap_loop_rev)

lemma pad_spec:
  assumes "0 \<le> n" "pattern \<noteq> Some []"
  shows "\<exists>r. pad left s n pattern = Inr r \<and> int (length r) = n \<and>
    (n \<le> int (length s) \<longrightarrow> r = take (nat n) s) \<and>
    (int (length s) < n \<longrightarrow> (\<exists>q. r = (if left then q @ s else s @ q) \<and>
       (\<forall>i < length q. q ! i = (case pattern of None \<Rightarrow> 32 | Some p \<Rightarrow> p ! (i mod length p)))))"
proof (cases "int (length s) \<ge> n")
  case True
  then show ?thesis using assms by (simp add: pad_def slice_def)
next
  case False
  then obtain q where "padding (n - int (length s)) pattern = Inr q" "int (length q) = n - int (length s)"
    "\<forall>i < length q. q ! i = (case pattern of None \<Rightarrow> 32 | Some p \<Rightarrow> p ! (i mod length p))"
    using padding_spec [of "n - int (length s)" pattern] assms(2) by auto
  then show ?thesis using False by (auto simp: pad_def bind_res_def)
qed

fun text_of :: "text_value \<Rightarrow> runes" where
  "text_of (StringValue v) = v"
| "text_of (BytesValue v) = v"

lemma substr_text_spec:
  assumes "int (length v) < 2 ^ 62" "\<And>n. l = Some n \<Longrightarrow> 0 \<le> n"
  shows "substr_text v p l = Inr
    (let d = drop (nat (substrPos p (int (length v)))) v in case l of None \<Rightarrow> d | Some n \<Rightarrow> take (nat n) d)"
proof -
  let ?n = "int (length v)" and ?s = "substrPos p (int (length v))"
  have s: "0 \<le> ?s" "?s \<le> ?n" by (auto simp: substrPos_def)
  obtain m where m: "substrLen l ?n = Inr m" "0 \<le> m" "m \<le> ?n" "m = (case l of None \<Rightarrow> ?n | Some k \<Rightarrow> min k ?n)"
    using assms(2) by (cases l) (auto simp: substrLen_def)
  have i: "i64 (?s + m) = ?s + m" using s m assms(1) by (simp add: i64_id int64_def)
  have "substr_text v p l = slice v ?s (min (?s + m) ?n)"
    using m(1) i by (simp add: substr_text_def bind_res_def Let_def)
  also have "\<dots> = Inr (take (nat (min (?s + m) ?n - ?s)) (drop (nat ?s) v))"
    using s m by (intro slice_ok) auto
  also have "take (nat (min (?s + m) ?n - ?s)) (drop (nat ?s) v) = take (nat m) (drop (nat ?s) v)"
  proof (cases "?s + m \<le> ?n")
    case False
    then show ?thesis using s by simp
  qed simp
  also have "\<dots> = (case l of None \<Rightarrow> drop (nat ?s) v | Some n \<Rightarrow> take (nat n) (drop (nat ?s) v))"
    using s m(4) assms(2) by (cases l) (auto simp: min_def)
  finally show ?thesis by (simp add: Let_def split: option.splits)
qed

text \<open>
  For a count \<open>n\<close> between 1 and the largest INT32, \<open>LEFT\<close> is \<open>SUBSTR\<close> from
  position 1, \<open>RIGHT\<close> is \<open>SUBSTR\<close> from position \<open>-n\<close> and the reverse of
  \<open>LEFT\<close> of the reversed value, none of them fails, and
  \<open>LEFT(v, n)\<close> followed by \<open>SUBSTR(v, n + 1)\<close> is the value again, the first part having
  \<open>min n (length v)\<close> elements.
\<close>

theorem left_right_substr:
  assumes "0 < n" "int32 n" "int (length (text_of val)) < 2 ^ 62"
  shows "LEFT val n = SUBSTR val 1 (Some n) \<and> RIGHT val n = SUBSTR val (- n) None \<and>
    RIGHT val n = map_sum id REVERSE (LEFT (REVERSE val) n) \<and>
    (\<exists>l r. LEFT val n = Inr l \<and> SUBSTR val (n + 1) None = Inr r \<and> text_of l @ text_of r = text_of val \<and>
       int (length (text_of l)) = min n (int (length (text_of val))))"
proof -
  have d: "LEFT v n = Inr (case v of StringValue s \<Rightarrow> StringValue (take (nat n) s) | BytesValue s \<Rightarrow> BytesValue (take (nat n) s))" for v
    using assms(1,2) by (cases v) (simp_all add: LEFT_def SafeLen_def slice_def bind_res_def)
  have r: "RIGHT val n = Inr (case val of StringValue s \<Rightarrow> StringValue (drop (length s - nat n) s)
      | BytesValue s \<Rightarrow> BytesValue (drop (length s - nat n) s))"
  proof (cases "int (length (text_of val)) \<le> n")
    case True
    then show ?thesis using assms(1,2) by (cases val) (simp_all add: RIGHT_def SafeLen_def bind_res_def)
  next
    case False
    then have e: "nat (int (length s) - n) = length s - nat n" "0 \<le> int (length s) - n" if "s = text_of val" for s
      using assms(1) that by auto
    show ?thesis using False assms(1,2) e by (cases val) (simp_all add: RIGHT_def SafeLen_def bind_res_def slice_def)
  qed
  let ?v = "text_of val"
  have p: "take (nat n) (drop (nat (substrPos 1 (int (length ?v)))) ?v) = take (nat n) ?v"
    "drop (nat (substrPos (n + 1) (int (length ?v)))) ?v = drop (nat n) ?v"
    using assms(1) by (auto simp: substrPos_def)
  have q: "nat (substrPos (- n) (int (length ?v))) = length ?v - nat n"
    using assms(1) by (auto simp: substrPos_def)
  have s: "substr_text v 1 (Some n) = Inr (take (nat n) v)" "substr_text v (n + 1) None = Inr (drop (nat n) v)"
    "substr_text v (- n) None = Inr (drop (length v - nat n) v)" if "v = ?v" for v
    using that assms(1,3) p q substr_text_spec [of v "Some n" 1] substr_text_spec [of v None "n + 1"]
      substr_text_spec [of v None "- n"] by (simp_all add: Let_def)
  have "RIGHT val n = map_sum id REVERSE (LEFT (REVERSE val) n)"
    using d [of "REVERSE val"] r by (cases val) (simp_all add: REVERSE_def swap_loop_rev' take_rev)
  then show ?thesis using d [of val] r s assms(1) by (cases val) (auto simp: SUBSTR_def min_def)
qed

theorem left_right_substr_witness:
  "LEFT (StringValue [1,2,3]) 2 = Inr (StringValue [1,2]) \<and> RIGHT (BytesValue [1,2,3]) 2 = Inr (BytesValue [2,3])
   \<and> SUBSTR (StringValue [1,2,3]) 1 (Some 2) = Inr (StringValue [1,2]) \<and> SUBSTR (BytesValue [1,2,3]) (- 2) None = Inr (BytesValue [2,3])"
proof -
  have "int32 2" by (simp add: int32_def)
  then have "LEFT (StringValue [1,2,3]) 2 = SUBSTR (StringValue [1,2,3]) 1 (Some 2)"
    "RIGHT (BytesValue [1,2,3]) 2 = SUBSTR (BytesValue [1,2,3]) (- 2) None"
    using left_right_substr [of 2 "StringValue [1,2,3]"] left_right_substr [of 2 "BytesValue [1,2,3]"] by simp_all
  moreover have "LEFT (StringValue [1,2,3]) 2 = Inr (StringValue [1,2])" "RIGHT (BytesValue [1,2,3]) 2 = Inr (BytesValue [2,3])"
    by (simp_all add: LEFT_def RIGHT_def SafeLen_def int32_def slice_def bind_res_def)
  ultimately show ?thesis by simp
qed

text \<open>
  C40. \<open>LPAD\<close> and \<open>RPAD\<close> with a length in the INT32 range and a pattern that is not empty
  return exactly that many elements: the value cut from the right when it is longer, otherwise the
  value with the pattern (a blank when it is missing) repeated before or after it. A negative
  length is an error.
\<close>

theorem pad_exact:
  assumes "pattern \<noteq> Some []" "n \<le> 2147483647"
  shows "pad_value left val n pattern =
    (if n < 0 then Inl NegativeLength
     else let s = text_of val; c = (case val of StringValue _ \<Rightarrow> StringValue | BytesValue _ \<Rightarrow> BytesValue);
              q = map (\<lambda>i. case pattern of None \<Rightarrow> 32 | Some p \<Rightarrow> p ! (i mod length p)) [0..<nat n - length s]
          in Inr (c (if n \<le> int (length s) then take (nat n) s else if left then q @ s else s @ q)))"
proof (cases "n < 0")
  case False
  then have i: "int32 n" using assms(2) by (simp add: int32_def)
  let ?s = "text_of val"
  let ?q = "map (\<lambda>i. case pattern of None \<Rightarrow> 32 | Some p \<Rightarrow> p ! (i mod length p)) [0..<nat n - length ?s]"
  obtain r where r: "pad left ?s n pattern = Inr r" "int (length r) = n" "n \<le> int (length ?s) \<longrightarrow> r = take (nat n) ?s"
    "int (length ?s) < n \<longrightarrow> (\<exists>q. r = (if left then q @ ?s else ?s @ q) \<and>
       (\<forall>i < length q. q ! i = (case pattern of None \<Rightarrow> 32 | Some p \<Rightarrow> p ! (i mod length p))))"
    using pad_spec [of n pattern left ?s] False assms(1) by auto
  have "r = (if n \<le> int (length ?s) then take (nat n) ?s else if left then ?q @ ?s else ?s @ ?q)"
  proof (cases "n \<le> int (length ?s)")
    case False
    then obtain q where q: "r = (if left then q @ ?s else ?s @ q)"
      "\<And>i. i < length q \<Longrightarrow> q ! i = (case pattern of None \<Rightarrow> 32 | Some p \<Rightarrow> p ! (i mod length p))"
      using r(4) by auto
    have "length q = nat n - length ?s" using q(1) r(2) by (cases left) auto
    then have "q = ?q" using q(2) by (cases pattern) (auto intro!: nth_equalityI)
    then show ?thesis using False q(1) by simp
  qed (use r(3) in simp)
  then show ?thesis using False i r(1)
    by (cases val) (simp_all add: pad_value_def SafeLen_def bind_res_def Let_def)
qed (simp add: pad_value_def)

theorem pad_exact_witness:
  "LPAD (StringValue [7]) 4 (Some [1, 2]) = Inr (StringValue [1, 2, 1, 7]) \<and>
   RPAD (BytesValue [7, 8, 9]) 2 None = Inr (BytesValue [7, 8])"
  using pad_exact [of "Some [1, 2]" 4 True "StringValue [7]"] pad_exact [of None 2 False "BytesValue [7, 8, 9]"]
  by (simp add: LPAD_def RPAD_def upt_rec)

section \<open>Searching\<close>

lemma matchAt_HasPrefix:
  assumes "0 \<le> i" "i + int (length sub) \<le> int (length src)"
  shows "matchAt src sub i \<longleftrightarrow> take (length sub) (drop (nat i) src) = sub"
proof -
  have n: "nat (i + int k) = nat i + k" for k using assms(1) by linarith
  have l: "nat i + length sub \<le> length src" using assms by linarith
  have s: "length (take (length sub) (drop (nat i) src)) = length sub"
    "\<And>k. k < length sub \<Longrightarrow> take (length sub) (drop (nat i) src) ! k = src ! (nat i + k)" using l by simp_all
  have "matchAt src sub i \<longleftrightarrow> (\<forall>k < length sub. src ! (nat i + k) = sub ! k)"
    by (simp add: matchAt_def list_all_iff n Ball_def)
  also have "\<dots> \<longleftrightarrow> take (length sub) (drop (nat i) src) = sub"
    using s by (subst list_eq_iff_nth_eq) simp
  finally show ?thesis .
qed

abbreviation hits :: "'a list \<Rightarrow> 'a list \<Rightarrow> nat list \<Rightarrow> nat list" where
  "hits src sub \<equiv> filter (\<lambda>i. take (length sub) (drop i src) = sub)"

text \<open>The position (from 1) of the \<open>k\<close>-th hit, 0 when there are fewer.\<close>

definition nth_hit :: "nat list \<Rightarrow> int \<Rightarrow> int" where
  "nth_hit ps k = (if nat k \<le> length ps then int (ps ! (nat k - 1)) + 1 else 0)"

lemma prefix_at_bound: "take (length sub) (drop i src) = sub \<Longrightarrow> i \<le> length src \<Longrightarrow> i + length sub \<le> length src"
  by (metis add_le_cancel_left le_add_diff_inverse length_drop length_take min.cobounded2 min.commute)

lemma nth_hit_Cons: "0 < k \<Longrightarrow> nth_hit (p # ps) (k + 1) = nth_hit ps k"
proof -
  assume "0 < k"
  then obtain m where m: "nat k = Suc m" by (metis gr0_implies_Suc zero_less_nat_eq)
  have "nat (k + 1) = Suc (Suc m)" using m \<open>0 < k\<close> by linarith
  then show ?thesis by (simp add: m nth_hit_def)
qed

lemma scan_up_spec:
  "0 \<le> i \<Longrightarrow> i \<le> int (length src) + 1 \<Longrightarrow> f < oc \<Longrightarrow>
   scan_up src sub oc i f = nth_hit (hits src sub [nat i..<length src + 1]) (oc - f)"
proof (induction src sub oc i f rule: scan_up.induct)
  case (1 src sub oc i f)
  show ?case
  proof (cases "i + int (length sub) \<le> int (length src)")
    case True
    have "nat i < length src + 1" "nat (i + 1) = Suc (nat i)" using True 1(3) by linarith+
    then have u: "[nat i..<length src + 1] = nat i # [nat (i + 1)..<length src + 1]"
      by (metis upt_conv_Cons)
    have b: "0 \<le> i + 1" "i + 1 \<le> int (length src) + 1" using 1(3) True by auto
    show ?thesis
    proof (cases "matchAt src sub i")
      case m: True
      then have h: "take (length sub) (drop (nat i) src) = sub" using matchAt_HasPrefix 1(3) True by blast
      show ?thesis
      proof (cases "f + 1 = oc")
        case True
        then show ?thesis using 1(3) m h u \<open>i + int (length sub) \<le> int (length src)\<close>
          by (subst scan_up.simps) (auto simp: nth_hit_def)
      next
        case False
        have e: "nth_hit (nat i # ps) (oc - f) = nth_hit ps (oc - (f + 1))" for ps
          using nth_hit_Cons [of "oc - (f + 1)" "nat i" ps] 1(5) False by simp
        have "scan_up src sub oc i f = scan_up src sub oc (i + 1) (f + 1)"
          using m False True by (subst scan_up.simps) simp
        then show ?thesis using 1(1)[OF True m False b] 1(5) False h e unfolding u by simp
      qed
    next
      case False
      then have h: "take (length sub) (drop (nat i) src) \<noteq> sub" using matchAt_HasPrefix 1(3) True by blast
      have "scan_up src sub oc i f = scan_up src sub oc (i + 1) f" using False True by (subst scan_up.simps) simp
      then show ?thesis using 1(2)[OF True False b 1(5)] h unfolding u by simp
    qed
  next
    case False
    have "hits src sub [nat i..<length src + 1] = []"
    proof -
      have "take (length sub) (drop j src) \<noteq> sub" if "j \<in> set [nat i..<length src + 1]" for j
        using prefix_at_bound [of sub j src] that False by auto
      then show ?thesis by (simp only: filter_empty_conv) blast
    qed
    then show ?thesis using False 1(5) by (subst scan_up.simps) (simp add: nth_hit_def)
  qed
qed

lemma scan_down_spec:
  "i + int (length sub) \<le> int (length src) \<Longrightarrow> f < oc \<Longrightarrow>
   scan_down src sub oc i f = nth_hit (hits src sub (rev [0..<nat (i + 1)])) (oc - f)"
proof (induction src sub oc i f rule: scan_down.induct)
  case (1 src sub oc i f)
  show ?case
  proof (cases "0 \<le> i")
    case True
    have "nat (i + 1) = Suc (nat i)" using True by linarith
    then have u: "rev [0..<nat (i + 1)] = nat i # rev [0..<nat (i - 1 + 1)]" by simp
    have b: "i - 1 + int (length sub) \<le> int (length src)" using 1(3) by simp
    have h: "matchAt src sub i \<longleftrightarrow> take (length sub) (drop (nat i) src) = sub" using matchAt_HasPrefix 1(3) True by blast
    show ?thesis
    proof (cases "matchAt src sub i")
      case m: True
      show ?thesis
      proof (cases "f + 1 = oc")
        case fc: True
        then show ?thesis unfolding u using m h True by (subst scan_down.simps) (auto simp: nth_hit_def)
      next
        case False
        have e: "nth_hit (nat i # ps) (oc - f) = nth_hit ps (oc - (f + 1))" for ps
          using nth_hit_Cons [of "oc - (f + 1)" "nat i" ps] 1(4) False by simp
        have "scan_down src sub oc i f = scan_down src sub oc (i - 1) (f + 1)"
          using m False True by (subst scan_down.simps) simp
        then show ?thesis unfolding u using 1(1)[OF True m False b] 1(4) False h m e by simp
      qed
    next
      case False
      then have "scan_down src sub oc i f = scan_down src sub oc (i - 1) f" using True by (subst scan_down.simps) simp
      then show ?thesis unfolding u using 1(2)[OF True False b 1(4)] h False by simp
    qed
  next
    case False
    then show ?thesis using 1(4) by (subst scan_down.simps) (simp add: nth_hit_def)
  qed
qed

text \<open>Positions from which the needle cannot fit are no hits.\<close>

lemma hits_cut:
  assumes "k \<le> l" "\<And>i. k \<le> i \<Longrightarrow> i < l \<Longrightarrow> take (length sub) (drop i src) \<noteq> sub"
  shows "hits src sub (rev [0..<l]) = hits src sub (rev [0..<k])"
proof -
  have "[0..<l] = [0..<k] @ [k..<l]" using assms(1) by (metis le_add_diff_inverse upt_add_eq_append zero_le)
  moreover have "hits src sub (rev [k..<l]) = []" using assms(2) by (simp add: filter_empty_conv)
  ultimately show ?thesis by simp
qed

text \<open>
  The places where a search from \<open>position\<close> looks, in its order: forwards from a positive
  position, backwards from a negative one, none when the position is outside the text.
\<close>

definition search_order :: "nat \<Rightarrow> int \<Rightarrow> nat list" where
  "search_order n position =
     (if 0 < position then if position \<le> int n then [nat (position - 1)..<n + 1] else []
      else if 0 \<le> int n + position then rev [0..<nat (int n + position + 1)] else [])"

lemma instrIndex_spec:
  assumes "position \<noteq> 0" "0 < oc"
  shows "instrIndex src sub position oc = nth_hit (hits src sub (search_order (length src) position)) oc"
proof (cases "0 < position")
  case True
  then show ?thesis using assms(2) scan_up_spec [of "position - 1" src 0 oc sub]
    by (auto simp: instrIndex_def search_order_def nth_hit_def Let_def)
next
  case False
  let ?n = "int (length src)" and ?m = "int (length sub)"
  show ?thesis
  proof (cases "0 \<le> ?n + position")
    case in_range: True
    define st where "st = (if ?n + position + ?m > ?n then ?n - ?m else ?n + position)"
    have st: "st + ?m \<le> ?n" "st \<le> ?n + position" by (auto simp: st_def)
    have "instrIndex src sub position oc = scan_down src sub oc st 0"
      using in_range False by (simp add: instrIndex_def Let_def st_def)
    also have "\<dots> = nth_hit (hits src sub (rev [0..<nat (st + 1)])) oc"
      using scan_down_spec [OF st(1), of 0 oc] assms(2) by simp
    also have "hits src sub (rev [0..<nat (st + 1)]) = hits src sub (rev [0..<nat (?n + position + 1)])"
    proof (rule hits_cut [symmetric])
      show "nat (st + 1) \<le> nat (?n + position + 1)" using st(2) by simp
      show "take (length sub) (drop i src) \<noteq> sub" if "nat (st + 1) \<le> i" "i < nat (?n + position + 1)" for i
        using prefix_at_bound [of sub i src] that False by (auto simp: st_def split: if_splits)
    qed
    finally show ?thesis using in_range False by (simp add: search_order_def)
  qed (use False assms(2) in \<open>simp add: instrIndex_def search_order_def nth_hit_def\<close>)
qed

text \<open>
  C39. \<open>INSTR\<close> on two STRING or two BYTES values returns the position, counted from 1, of the
  requested occurrence among all (overlapping) occurrences in the order of the search, or 0 when
  there are fewer; position 0 and an occurrence that is not positive are errors.
\<close>

theorem instr_occurrence:
  "INSTR (StringValue src) (StringValue sub) position oc = INSTR (BytesValue src) (BytesValue sub) position oc \<and>
   INSTR (StringValue src) (StringValue sub) position oc =
     (if position = 0 then Inl PositionZero
      else if oc \<le> 0 then Inl (OccurrenceNotPositive oc)
      else Inr (nth_hit (hits src sub (search_order (length src) position)) oc))"
  by (simp add: INSTR_def instrIndex_spec)

section \<open>Splitting and replacing\<close>

lemma Index_Some: "Index s p = Some i \<Longrightarrow> take (length p) (drop i s) = p"
proof (induction s p arbitrary: i rule: Index.induct)
  case (2 x xs p)
  then show ?case by (auto simp: HasPrefix_def split: if_splits)
qed (auto split: if_splits)

lemma Index_first: "Index s p = Some i \<Longrightarrow> j < i \<Longrightarrow> take (length p) (drop j s) \<noteq> p"
proof (induction s p arbitrary: i j rule: Index.induct)
  case (2 x xs p)
  from 2(2,3) obtain k where k: "\<not> HasPrefix (x # xs) p" "Index xs p = Some k" "i = Suc k"
    by (auto split: if_splits)
  show ?case
  proof (cases j)
    case 0
    then show ?thesis using k(1) by (simp add: HasPrefix_def)
  next
    case (Suc l)
    then show ?thesis using 2(1)[OF k(1,2), of l] 2(3) k(3) by simp
  qed
qed (auto split: if_splits)

lemma Index_None_iff: "p \<noteq> [] \<Longrightarrow> Index s p = None \<longleftrightarrow> (\<forall>j < length s. take (length p) (drop j s) \<noteq> p)"
proof (induction s p rule: Index.induct)
  case (2 x xs p)
  have a: "(\<forall>j < length (x # xs). take (length p) (drop j (x # xs)) \<noteq> p) \<longleftrightarrow>
    \<not> HasPrefix (x # xs) p \<and> (\<forall>j < length xs. take (length p) (drop j xs) \<noteq> p)"
    by (simp add: All_less_Suc2 HasPrefix_def)
  show ?case unfolding a using 2 by simp
qed simp

lemma Index_take_None:
  assumes "Index s p = Some i" "p \<noteq> []"
  shows "Index (take i s) p = None"
proof -
  have "take (length p) (drop j (take i s)) \<noteq> p" if j: "j < i" for j
  proof
    assume e: "take (length p) (drop j (take i s)) = p"
    then have "take (min (length p) (i - j)) (drop j s) = p" by (simp add: drop_take min.commute)
    moreover from this have "length p \<le> i - j" by (metis length_take min.cobounded1 min.cobounded2 order_trans)
    ultimately show False using Index_first [OF assms(1) j] by (simp add: min_absorb1)
  qed
  then show ?thesis using assms(2) by (simp add: Index_None_iff)
qed

fun join :: "runes \<Rightarrow> runes list \<Rightarrow> runes" where
  "join d [] = []"
| "join d (p # ps) = p @ concat (map (\<lambda>q. d @ q) ps)"

lemma Split_cases:
  "Index s d = None \<Longrightarrow> Split d s = [s]"
  "d \<noteq> [] \<Longrightarrow> Index s d = Some i \<Longrightarrow> Split d s = take i s # Split d (drop (i + length d) s)"
  by (cases d; simp)+

declare Split.simps(2) [simp del]

lemma Split_nonempty: "Split d s \<noteq> []"
  by (cases d) (auto simp: Split.simps(2) split: option.splits)

lemma join_Cons: "ps \<noteq> [] \<Longrightarrow> join d (p # ps) = p @ d @ join d ps"
  by (cases ps) simp_all

lemma join_Split: "d \<noteq> [] \<Longrightarrow> join d (Split d s) = s"
proof (induction d s rule: Split.induct)
  case (2 c cs s)
  show ?case
  proof (cases "Index s (c # cs)")
    case (Some i)
    have "take i s @ (c # cs) @ drop (i + length (c # cs)) s = s"
      using Index_Some [OF Some] by (metis add.commute append_take_drop_id drop_drop)
    then show ?thesis using 2 Some by (simp add: join_Cons Split_nonempty Split_cases(2) del: join.simps)
  qed (simp add: Split_cases)
qed simp

lemma Split_pieces: "d \<noteq> [] \<Longrightarrow> q \<in> set (Split d s) \<Longrightarrow> Index q d = None"
proof (induction d s rule: Split.induct)
  case (2 c cs s)
  show ?case
  proof (cases "Index s (c # cs)")
    case None
    then show ?thesis using 2(3) by (simp add: Split_cases)
  next
    case (Some i)
    then have "q = take i s \<or> q \<in> set (Split (c # cs) (drop (i + length (c # cs)) s))"
      using 2(3) by (simp add: Split_cases(2))
    then show ?thesis using 2(1)[OF Some 2(2)] Index_take_None [OF Some 2(2)] by blast
  qed
qed simp

lemma ReplaceAll_join: "ReplaceAll s d new = join new (Split d s)"
  by (cases "Split d s") (simp_all add: ReplaceAll_def)

text \<open>
  \<open>SPLIT\<close> with a delimiter that is not empty returns at least one piece, none of which
  contains the delimiter; putting the delimiter between the pieces gives the value back, and
  \<open>REPLACE\<close> puts its replacement there.
\<close>

theorem split_join:
  assumes "d \<noteq> []" "v \<noteq> []"
  shows "\<exists>ps. SPLIT (StringValue v) (Some d) = Inr (map StringValue ps) \<and> SPLIT (BytesValue v) (Some d) = Inr (map BytesValue ps) \<and>
    ps \<noteq> [] \<and> join d ps = v \<and> (\<forall>q \<in> set ps. Index q d = None) \<and>
    REPLACE (StringValue v) d r = StringValue (join r ps) \<and> REPLACE (BytesValue v) d r = BytesValue (join r ps)"
  using assms join_Split [OF assms(1), of v] Split_pieces [OF assms(1), of _ v] Split_nonempty [of d v]
  by (intro exI [of _ "Split d v"]) (simp add: SPLIT_def REPLACE_def ReplaceAll_join)

theorem split_join_witness:
  "\<exists>ps. SPLIT (StringValue [97, 44, 44, 98]) (Some [44]) = Inr (map StringValue ps) \<and> join [44] ps = [97, 44, 44, 98] \<and>
    ps = [[97], [], [98]]"
  using split_join [of "[44]" "[97, 44, 44, 98]"] by (auto simp: SPLIT_def HasPrefix_def Split.simps)

section \<open>TRANSLATE\<close>

lemma Split_single:
  "join new (Split [c] s) = concat (map (\<lambda>x. if x = c then new else [x]) s)"
proof (induction "[c]" s rule: Split.induct)
  case (2 s)
  show ?case
  proof (cases "Index s [c]")
    case None
    then have "c \<notin> set s"
      using Index_None_iff [of "[c]" s] by (auto simp: in_set_conv_nth take_Suc_conv_app_nth)
    then have "concat (map (\<lambda>x. if x = c then new else [x]) s) = concat (map (\<lambda>x. [x]) s)"
      by (intro arg_cong [where f = concat] map_cong) auto
    then show ?thesis using None by (simp add: Split_cases)
  next
    case (Some i)
    have b: "i < length s" using Index_bound [OF Some] by simp
    have c: "s ! i = c" using Index_Some [OF Some] b by (simp add: take_Suc_conv_app_nth)
    have n: "c \<notin> set (take i s)"
      using Index_first [OF Some] b by (auto simp: in_set_conv_nth take_Suc_conv_app_nth)
    have "concat (map (\<lambda>x. if x = c then new else [x]) (take i s)) = concat (map (\<lambda>x. [x]) (take i s))"
      using n by (intro arg_cong [where f = concat] map_cong) auto
    then have "concat (map (\<lambda>x. if x = c then new else [x]) s) = take i s @ new @
      concat (map (\<lambda>x. if x = c then new else [x]) (drop (Suc i) s))"
      by (subst (1) id_take_nth_drop [OF b]) (simp add: c)
    then show ?thesis using Some 2 by (simp add: join_Cons Split_nonempty Split_cases(2) del: join.simps)
  qed
qed

text \<open>
  The character map \<open>TRANSLATE\<close> promises: a source character becomes the target character at
  its position and vanishes when there is none, every other character stays.
\<close>

definition tr_char :: "runes \<Rightarrow> runes \<Rightarrow> int \<Rightarrow> runes" where
  "tr_char s t c = (case map_of (zip s (map Some t @ replicate (length s) None)) c of
     None \<Rightarrow> [c] | Some None \<Rightarrow> [] | Some (Some d) \<Rightarrow> [d])"

lemma tr_char_Nil [simp]: "tr_char [] t c = [c]"
  by (simp add: tr_char_def)

lemma tr_char_Nil_fun: "tr_char [] t = (\<lambda>c. [c])"
  by (rule ext) simp

lemma tr_char_Cons:
  "tr_char (x # s) t c = (if c = x then (case t of [] \<Rightarrow> [] | d # _ \<Rightarrow> [d]) else tr_char s (tl t) c)"
proof (cases t)
  case Nil
  have "zip s (replicate (length s) None) = zip s (map Some [] @ replicate (length s) (None :: int option))" by simp
  then show ?thesis using Nil by (simp add: tr_char_def)
next
  case (Cons d ds)
  have "zip s (map Some ds @ replicate (Suc (length s)) None) = zip s (map Some ds @ replicate (length s) None)"
    by (simp add: zip_append2 take_Cons' flip: replicate_append_same)
  then show ?thesis using Cons by (simp add: tr_char_def)
qed

lemma tr_char_other: "c \<notin> set s \<Longrightarrow> tr_char s t c = [c]"
  by (induction s arbitrary: t) (auto simp: tr_char_Cons)

lemma drop_head: "(case drop i t of [] \<Rightarrow> a | d # _ \<Rightarrow> f d) = (if i < length t then f (t ! i) else a)"
  by (cases "i < length t") (simp_all add: Cons_nth_drop_Suc [symmetric])

definition looked_up :: "(int \<rightharpoonup> int) \<Rightarrow> int set \<Rightarrow> int \<Rightarrow> runes" where
  "looked_up m d c = (if c \<in> d then [] else [case m c of Some v \<Rightarrow> v | None \<Rightarrow> c])"

lemma apply_maps_concat: "apply_maps m d e = concat (map (looked_up m d) e)"
  by (induction e) (simp_all add: looked_up_def)

lemma build_maps_ok:
  assumes "distinct s" "set s \<inter> (dom m \<union> d) = {}"
  shows "\<exists>m' d'. build_maps s t i m d = Inr (m', d') \<and>
    (\<forall>c. looked_up m' d' c = (if c \<in> set s then tr_char s (drop i t) c else looked_up m d c))"
  using assms
proof (induction s arbitrary: i m d)
  case (Cons x s)
  have x: "m x = None" "x \<notin> d" using Cons.prems(2) by auto
  define m1 where "m1 = (if i < length t then m(x \<mapsto> t ! i) else m)"
  define d1 where "d1 = (if i < length t then d else insert x d)"
  have b: "build_maps (x # s) t i m d = build_maps s t (i + 1) m1 d1" using x by (simp add: m1_def d1_def)
  have "set s \<inter> (dom m1 \<union> d1) = {}" using Cons.prems by (auto simp: m1_def d1_def)
  then obtain m' d' where r: "build_maps s t (i + 1) m1 d1 = Inr (m', d')"
    "\<And>c. looked_up m' d' c = (if c \<in> set s then tr_char s (drop (i + 1) t) c else looked_up m1 d1 c)"
    using Cons.IH [of m1 d1 "i + 1"] Cons.prems(1) by auto
  have "looked_up m1 d1 c = (if c = x then (case drop i t of [] \<Rightarrow> [] | d # _ \<Rightarrow> [d]) else looked_up m d c)" for c
    using x by (simp add: drop_head looked_up_def m1_def d1_def)
  then show ?case using b r Cons.prems(1) by (auto simp: tr_char_Cons tl_drop drop_Suc)
qed simp

lemma build_maps_dup:
  "\<not> (distinct s \<and> set s \<inter> (dom m \<union> d) = {}) \<Longrightarrow> \<exists>c \<in> set s. build_maps s t i m d = Inl (DuplicateSource c)"
proof (induction s arbitrary: i m d)
  case (Cons x s)
  show ?case
  proof (cases "x \<in> dom m \<union> d")
    case False
    then have "\<not> (distinct s \<and> set s \<inter> (dom (m(x \<mapsto> t ! i)) \<union> d) = {})" "\<not> (distinct s \<and> set s \<inter> (dom m \<union> insert x d) = {})"
      using Cons.prems by auto
    from Cons.IH [OF this(1), of "i + 1"] Cons.IH [OF this(2), of "i + 1"]
    obtain c1 c2 where "c1 \<in> set s" "build_maps s t (i + 1) (m(x \<mapsto> t ! i)) d = Inl (DuplicateSource c1)"
      "c2 \<in> set s" "build_maps s t (i + 1) m (insert x d) = Inl (DuplicateSource c2)" by blast
    then show ?thesis using False by (cases "i < length t") (auto simp: domIff)
  qed auto
qed simp

lemma translate_bytes_ok:
  assumes "distinct s" "set s \<inter> ev = {}" "set t \<inter> set s = {}"
  shows "translate_bytes s t i ev e = Inr (concat (map (tr_char s (drop i t)) e))"
  using assms
proof (induction s arbitrary: i ev e)
  case (Cons x s)
  let ?new = "if i < length t then [t ! i] else []"
  have tr: "concat (map (tr_char s (drop (i + 1) t)) (if c = x then ?new else [c])) = tr_char (x # s) (drop i t) c" for c
  proof (cases "c = x")
    case True
    have "t ! i \<notin> set s" if "i < length t" using Cons.prems(3) that nth_mem by fastforce
    then show ?thesis using True by (simp add: tr_char_Cons drop_head tr_char_other)
  qed (simp add: tr_char_Cons tl_drop drop_Suc)
  have "concat (map f (concat (map g e))) = concat (map (\<lambda>c. concat (map f (g c))) e)" for f :: "int \<Rightarrow> runes" and g
    by (induction e) simp_all
  then have "concat (map (tr_char s (drop (i + 1) t)) (ReplaceAll e [x] ?new)) = concat (map (tr_char (x # s) (drop i t)) e)"
    by (simp only: ReplaceAll_join Split_single tr)
  then show ?case using Cons.IH [of "insert x ev" "i + 1" "ReplaceAll e [x] ?new"] Cons.prems by auto
qed (simp add: tr_char_Nil_fun)

text \<open>
  On STRING values \<open>TRANSLATE\<close> replaces every character by the character map of its
  source and target, all at once, and refuses a source that repeats a character. On BYTES values
  it does so when no target byte is a source byte; otherwise the replacements are applied one
  after the other to the result of the previous ones, so swapping two bytes loses one of them.
\<close>

theorem translate_map:
  "(distinct s \<longrightarrow> TRANSLATE (StringValue e) (StringValue s) (StringValue t) = Inr (StringValue (concat (map (tr_char s t) e)))) \<and>
   (\<not> distinct s \<longrightarrow> (\<exists>c \<in> set s. TRANSLATE (StringValue e) (StringValue s) (StringValue t) = Inl (DuplicateSource c))) \<and>
   (distinct s \<longrightarrow> set t \<inter> set s = {} \<longrightarrow>
      TRANSLATE (BytesValue e) (BytesValue s) (BytesValue t) = Inr (BytesValue (concat (map (tr_char s t) e)))) \<and>
   TRANSLATE (StringValue [97, 98]) (StringValue [97, 98]) (StringValue [98, 97]) = Inr (StringValue [98, 97]) \<and>
   TRANSLATE (BytesValue [97, 98]) (BytesValue [97, 98]) (BytesValue [98, 97]) = Inr (BytesValue [97, 97])"
proof (intro conjI impI)
  assume d: "distinct s"
  then obtain m' d' where b: "build_maps s t 0 Map.empty {} = Inr (m', d')"
    "\<And>c. looked_up m' d' c = tr_char s t c"
    using build_maps_ok [of s Map.empty "{}" t 0] by (auto simp: tr_char_other looked_up_def [of Map.empty])
  have "looked_up m' d' = tr_char s t" using b(2) by (rule ext)
  with b(1) show "TRANSLATE (StringValue e) (StringValue s) (StringValue t) = Inr (StringValue (concat (map (tr_char s t) e)))"
    by (simp add: TRANSLATE_def bind_res_def apply_maps_concat)
next
  assume "\<not> distinct s"
  then show "\<exists>c \<in> set s. TRANSLATE (StringValue e) (StringValue s) (StringValue t) = Inl (DuplicateSource c)"
    using build_maps_dup [of s Map.empty "{}" t 0] by (auto simp: TRANSLATE_def bind_res_def)
next
  assume "distinct s" "set t \<inter> set s = {}"
  then show "TRANSLATE (BytesValue e) (BytesValue s) (BytesValue t) = Inr (BytesValue (concat (map (tr_char s t) e)))"
    using translate_bytes_ok [of s "{}" t 0 e] by (simp add: TRANSLATE_def)
qed (simp_all add: TRANSLATE_def bind_res_def ReplaceAll_def HasPrefix_def Split.simps)

theorem translate_map_witness:
  "TRANSLATE (BytesValue [1, 2, 3, 1]) (BytesValue [1, 3]) (BytesValue [9]) = Inr (BytesValue [9, 2, 9])"
  using translate_map [of "[1, 3]" "[1, 2, 3, 1]" "[9]"] by (simp add: tr_char_def)

section \<open>Trimming\<close>

declare trim_start.simps [simp del]

lemma trim_start_spec:
  "st \<le> length b \<Longrightarrow> trim_start f b st (length b) = st + length (takeWhile f (drop st b))"
proof (induction f b st "length b" rule: trim_start.induct)
  case (1 f b st)
  show ?case
  proof (cases "st < length b \<and> f (b ! st)")
    case True
    then have d: "drop st b = b ! st # drop (st + 1) b" by (simp add: Cons_nth_drop_Suc)
    have "trim_start f b st (length b) = trim_start f b (st + 1) (length b)" using True by (subst trim_start.simps) simp
    then show ?thesis using 1(1)[OF True] True d by simp
  next
    case False
    then have "takeWhile f (drop st b) = []"
      using 1(2) by (cases "st < length b") (simp_all add: Cons_nth_drop_Suc [symmetric])
    then show ?thesis using False by (subst trim_start.simps) auto
  qed
qed

lemma trim_end_spec:
  "st \<le> e \<Longrightarrow> e \<le> length b \<Longrightarrow>
   st \<le> trim_end f b st e \<and> trim_end f b st e \<le> e \<and>
   drop st (take (trim_end f b st e) b) = rev (dropWhile f (rev (drop st (take e b))))"
proof (induction e)
  case (Suc e)
  show ?case
  proof (cases "st = Suc e")
    case False
    then have d: "drop st (take (Suc e) b) = drop st (take e b) @ [b ! e]"
      using Suc.prems by (simp add: take_Suc_conv_app_nth)
    show ?thesis using Suc False d by auto
  qed (use Suc.prems in simp)
qed simp

text \<open>The trimmed text: as much as possible of the characters of the set goes, on each side.\<close>

lemma trimFunc_parts:
  "\<exists>a c. s = a @ trimFunc s f left right @ c \<and> (\<forall>x \<in> set a \<union> set c. f x) \<and>
    (left \<longrightarrow> trimFunc s f left right \<noteq> [] \<longrightarrow> \<not> f (hd (trimFunc s f left right))) \<and>
    (right \<longrightarrow> trimFunc s f left right \<noteq> [] \<longrightarrow> \<not> f (last (trimFunc s f left right))) \<and>
    (\<not> left \<longrightarrow> a = []) \<and> (\<not> right \<longrightarrow> c = [])"
proof -
  define a where "a = (if left then takeWhile f s else [])"
  define s1 where "s1 = (if left then dropWhile f s else s)"
  define c where "c = (if right then rev (takeWhile f (rev s1)) else [])"
  define r where "r = (if right then rev (dropWhile f (rev s1)) else s1)"
  have t: "trimFunc s f left right = r" by (simp add: trimFunc_def s1_def r_def)
  have s1: "s1 = r @ c"
  proof (cases right)
    case True
    have "rev (takeWhile f (rev s1) @ dropWhile f (rev s1)) = s1" by (simp del: rev_append)
    then have "s1 = rev (dropWhile f (rev s1)) @ rev (takeWhile f (rev s1))" by (simp only: rev_append)
    then show ?thesis using True by (simp add: r_def c_def)
  qed (simp add: r_def c_def)
  have "s = a @ s1" by (simp add: a_def s1_def)
  moreover have "f x" if "x \<in> set a \<union> set c" for x
    using that by (auto simp: a_def c_def split: if_splits dest: set_takeWhileD)
  moreover have "\<not> f (hd r)" if "left" "r \<noteq> []"
  proof -
    have "s1 \<noteq> []" "hd s1 = hd r" using s1 that(2) by auto
    then show ?thesis using that(1) hd_dropWhile [of f s] by (simp add: s1_def)
  qed
  moreover have "\<not> f (last r)" if "right" "r \<noteq> []"
    using that hd_dropWhile [of f "rev s1"] by (simp add: r_def last_rev)
  moreover have "\<not> left \<longrightarrow> a = []" "\<not> right \<longrightarrow> c = []" by (simp_all add: a_def c_def)
  ultimately show ?thesis unfolding t by (intro exI [of _ a] exI [of _ c]) (use s1 in blast)
qed

text \<open>
  Trimming a STRING or a BYTES value with a cutset (or, without one, the white space of its
  type) never fails and returns the value without a prefix and a suffix of cutset elements; what
  remains starts and ends outside the cutset on the trimmed sides, and an untrimmed side is kept.
\<close>

theorem trim_maximal:
  "\<exists>r a c. trimValue v cutset left right = Inr r \<and> text_of v = a @ text_of r @ c \<and>
    (let f = (case cutset of Some cs \<Rightarrow> (\<lambda>x. x \<in> set cs)
       | None \<Rightarrow> (case v of StringValue _ \<Rightarrow> IsSpace | BytesValue _ \<Rightarrow> (\<lambda>x. x \<in> {9, 10, 11, 12, 13, 32})))
     in list_all f a \<and> list_all f c \<and> (a = [] \<or> left) \<and> (c = [] \<or> right) \<and>
        (text_of r = [] \<or> (\<not> (left \<and> f (hd (text_of r))) \<and> \<not> (right \<and> f (last (text_of r))))))"
proof -
  define f where "f = (case cutset of Some cs \<Rightarrow> (\<lambda>x. x \<in> set cs)
       | None \<Rightarrow> (case v of StringValue _ \<Rightarrow> IsSpace | BytesValue _ \<Rightarrow> (\<lambda>x. x \<in> {9, 10, 11, 12, 13, 32})))"
  obtain a c where ac: "text_of v = a @ trimFunc (text_of v) f left right @ c" "\<forall>x \<in> set a \<union> set c. f x"
    "left \<longrightarrow> trimFunc (text_of v) f left right \<noteq> [] \<longrightarrow> \<not> f (hd (trimFunc (text_of v) f left right))"
    "right \<longrightarrow> trimFunc (text_of v) f left right \<noteq> [] \<longrightarrow> \<not> f (last (trimFunc (text_of v) f left right))"
    "\<not> left \<longrightarrow> a = []" "\<not> right \<longrightarrow> c = []"
    using trimFunc_parts [of "text_of v" f left right] by blast
  have "\<exists>r. trimValue v cutset left right = Inr r \<and> text_of r = trimFunc (text_of v) f left right"
  proof (cases v)
    case (StringValue s)
    then show ?thesis by (simp add: trimValue_def f_def split: option.splits)
  next
    case (BytesValue b)
    have g: "(\<lambda>c. c \<in> set (case cutset of None \<Rightarrow> [32, 9, 10, 13, 12, 11] | Some cb \<Rightarrow> cb)) = f"
      by (cases cutset) (auto simp: f_def BytesValue)
    define st where "st = (if left then trim_start f b 0 (length b) else 0)"
    define en where "en = (if right then trim_end f b st (length b) else length b)"
    have st: "st \<le> length b" "drop st b = (if left then dropWhile f b else b)"
      by (auto simp: st_def trim_start_spec dropWhile_eq_drop length_takeWhile_le)
    have en: "st \<le> en" "en \<le> length b" "drop st (take en b) = trimFunc b f left right"
      using trim_end_spec [of st "length b" b f] st by (auto simp: en_def trimFunc_def)
    have "trimValue v cutset left right = map_sum id BytesValue (slice b (int st) (int en))"
      unfolding trimValue_def BytesValue text_value.case Let_def g st_def en_def by simp
    also have "\<dots> = Inr (BytesValue (drop st (take en b)))"
      using en(1,2) by (simp add: slice_def drop_take nat_diff_distrib)
    finally show ?thesis using en(3) BytesValue by simp
  qed
  then obtain r where r: "trimValue v cutset left right = Inr r" "text_of r = trimFunc (text_of v) f left right"
    by blast
  have "list_all f a" "list_all f c" using ac(2) by (simp_all add: list_all_iff)
  with r ac(1,3-6) show ?thesis unfolding f_def [symmetric] Let_def
    by (intro exI [of _ r] exI [of _ a] exI [of _ c]) metis
qed

section \<open>SOUNDEX\<close>

lemma soundexMap_range: "ascii_letter r \<Longrightarrow> soundexMap (to_upper r) \<in> {48..54}"
proof -
  assume "ascii_letter r"
  then have "to_upper r \<in> {65..90}" by (auto simp: ascii_letter_def to_upper_def)
  then have "nat (to_upper r) \<in> set [65..<91]" unfolding set_upt by (simp del: upt.simps) linarith
  moreover have "to_upper r = int (nat (to_upper r))" using \<open>to_upper r \<in> {65..90}\<close> by simp
  ultimately have "to_upper r \<in> set (map int [65..<91])" by (metis image_eqI set_map)
  moreover have "\<forall>c \<in> set (map int [65..<91]). soundexMap c \<in> {48..54}" by (simp add: soundexMap_def upt_rec)
  ultimately show ?thesis by blast
qed

definition soundex_ok :: "nat \<Rightarrow> runes \<Rightarrow> bool" where
  "soundex_ok point buf \<longleftrightarrow> length buf = 4 \<and> point \<le> 4 \<and> (0 < point \<longrightarrow> ascii_letter (buf ! 0)) \<and>
     (\<forall>i \<in> {1, 2, 3}. buf ! i \<in> {48..54}) \<and> (\<forall>i \<in> {1, 2, 3}. if i < point then buf ! i \<noteq> 48 else buf ! i = 48)"

lemma soundex_loop_ok:
  "soundex_ok point buf \<Longrightarrow> point < 4 \<Longrightarrow> soundex_loop rs prev point buf = (p, b) \<Longrightarrow> soundex_ok p b"
proof (induction rs prev point buf rule: soundex_loop.induct)
  case (2 r rs prev point buf)
  let ?c = "soundexMap (to_upper r)"
  show ?case
  proof (cases "ascii_letter r")
    case True
    have c: "?c \<in> {48..54}" by (rule soundexMap_range [OF True])
    consider "point = 0" | "0 < point" "?c = prev \<or> ?c = 48" | "point = 3" "?c \<noteq> prev" "?c \<noteq> 48"
      | "point \<in> {1, 2}" "?c \<noteq> prev" "?c \<noteq> 48" using 2(6) by fastforce
    then show ?thesis
    proof cases
      case 1
      then have "soundex_ok 1 (buf[0 := r])" using 2(5) True by (simp add: soundex_ok_def)
      then show ?thesis using 2(2,7) 1 True by (simp add: Let_def)
    next
      case 2
      then show ?thesis using \<open>soundex_ok point buf\<close> \<open>point < 4\<close> True 2 "2.IH"(3) "2.prems"(3) by (simp add: Let_def)
    next
      case 3
      then have "soundex_ok 4 (buf[3 := ?c])" using 2(5) c by (simp add: soundex_ok_def)
      then show ?thesis using 3 True 2(7) by (simp add: Let_def)
    next
      case 4
      then have "soundex_ok (point + 1) (buf[point := ?c])" using 2(5) c by (auto simp: soundex_ok_def)
      then show ?thesis using 4 True 2(4,7) by (auto simp: Let_def)
    qed
  qed (use 2 in simp)
qed simp

text \<open>
  \<open>SOUNDEX\<close> of a text without an ASCII letter is empty; otherwise it is a letter of the
  text followed by three digits, where digits other than zero come first.
\<close>

theorem soundex_shape:
  "SOUNDEX v = [] \<or> (\<exists>l a b c. SOUNDEX v = [l, a, b, c] \<and> ascii_letter l \<and>
     {a, b, c} \<subseteq> {48..54} \<and> (a = 48 \<longrightarrow> b = 48) \<and> (b = 48 \<longrightarrow> c = 48))"
proof -
  obtain p b where pb: "soundex_loop v 0 0 [32, 48, 48, 48] = (p, b)" by fastforce
  have "soundex_ok 0 [32, 48, 48, 48]" by (simp add: soundex_ok_def)
  then have ok: "soundex_ok p b" using soundex_loop_ok pb by auto
  show ?thesis
  proof (cases "p = 0")
    case False
    have "length b = 4" using ok by (simp add: soundex_ok_def)
    then obtain l x y z where b: "b = [l, x, y, z]" by (auto simp: numeral_eq_Suc length_Suc_conv)
    then show ?thesis using ok pb False by (auto simp: soundex_ok_def SOUNDEX_def split: if_splits)
  qed (simp add: SOUNDEX_def pb)
qed

theorem soundex_shape_witness: "SOUNDEX [82, 111, 98, 101, 114, 116] = [82, 49, 54, 51] \<and> ascii_letter 82"
proof -
  have "SOUNDEX [82, 111, 98, 101, 114, 116] = [82, 49, 54, 51]"
    by (simp add: SOUNDEX_def ascii_letter_def to_upper_def soundexMap_def Let_def)
  then show ?thesis using soundex_shape [of "[82, 111, 98, 101, 114, 116]"] by simp
qed

end
