(* ===== verification/Script_Split.thy ===== *)
theory Script_Split
  imports String_Functions
begin

text \<open>
  The statement splitter of the command-line shell (\<open>internal/cli/script.go\<close>): a text is cut at
  the semicolons that are not inside a comment, a quoted identifier or a string literal. The code
  walks over a rune array with an index \<open>i\<close>; here the position is the rest \<open>runes[i:]\<close> of the
  array, and a scan returns how many runes it passes.

  After the definitions: every scan looks no further than the semicolon that ends it
  (\<open>tok_stable\<close>), so the splitter can be restarted after any top-level semicolon. This is
  what the read-eval-print loop relies on when it keeps only the unfinished part of its input.
\<close>

section \<open>Comments, quoted identifiers and literals\<close>

definition starts2 :: "int \<Rightarrow> int \<Rightarrow> runes \<Rightarrow> bool" where
  "starts2 a b s \<longleftrightarrow> (case s of c # d # _ \<Rightarrow> c = a \<and> d = b | _ \<Rightarrow> False)"

text \<open>A line comment starts with two dashes or a hash sign and ends before the newline.\<close>

definition line_comment :: "runes \<Rightarrow> bool" where
  "line_comment s \<longleftrightarrow> starts2 45 45 s \<or> (case s of c # _ \<Rightarrow> c = 35 | [] \<Rightarrow> False)"

definition line_len :: "runes \<Rightarrow> nat" where
  "line_len s = length (takeWhile (\<lambda>c. c \<noteq> 10) s)"

text \<open>The rest of a block comment, up to and including the closing star and slash if there is one.\<close>

fun block_end :: "runes \<Rightarrow> nat" where
  "block_end [] = 0"
| "block_end (c # cs) = (if starts2 42 47 (c # cs) then 2 else Suc (block_end cs))"

definition block_len :: "runes \<Rightarrow> nat" where
  "block_len s = 2 + block_end (drop 2 s)"

fun backtick_end :: "runes \<Rightarrow> nat" where
  "backtick_end [] = 0"
| "backtick_end (c # cs) = (if c = 96 then 1 else Suc (backtick_end cs))"

text \<open>
  The prefix scan of \<open>stringLiteralAt\<close>: at most two of the letters R and B, each at most once.
\<close>

fun literal_prefix :: "nat \<Rightarrow> runes \<Rightarrow> bool \<Rightarrow> bool \<Rightarrow> bool \<times> bool" where
  "literal_prefix 0 s hasR hasB = (hasR, hasB)"
| "literal_prefix (Suc k) [] hasR hasB = (hasR, hasB)"
| "literal_prefix (Suc k) (c # cs) hasR hasB =
     (if (c = 114 \<or> c = 82) \<and> \<not> hasR then literal_prefix k cs True hasB
      else if (c = 98 \<or> c = 66) \<and> \<not> hasB then literal_prefix k cs hasR True
      else (hasR, hasB))"

text \<open>\<open>Some (raw, q)\<close>: a literal whose quote is \<open>q\<close> runes further on.\<close>

definition stringLiteralAt :: "runes \<Rightarrow> (bool \<times> nat) option" where
  "stringLiteralAt s =
     (let (hasR, hasB) = literal_prefix 2 s False False;
          q = (if hasR then 1 else 0) + (if hasB then 1 else 0)
      in if q < length s \<and> (s ! q = 39 \<or> s ! q = 34) then Some (hasR, q) else None)"

text \<open>The two loops of \<open>consumeString\<close>; a backslash (92) skips the next rune unless raw.\<close>

fun triple_end :: "bool \<Rightarrow> int \<Rightarrow> runes \<Rightarrow> nat" where
  "triple_end raw q [] = 0"
| "triple_end raw q (c # cs) =
     (if \<not> raw \<and> c = 92 then (case cs of [] \<Rightarrow> 1 | _ # cs' \<Rightarrow> 2 + triple_end raw q cs')
      else if c = q \<and> starts2 q q cs then 3
      else Suc (triple_end raw q cs))"

fun single_end :: "bool \<Rightarrow> int \<Rightarrow> runes \<Rightarrow> nat" where
  "single_end raw q [] = 0"
| "single_end raw q (c # cs) =
     (if \<not> raw \<and> c = 92 then (case cs of [] \<Rightarrow> 1 | _ # cs' \<Rightarrow> 2 + single_end raw q cs')
      else if c = q then 1
      else if c = 10 then 0
      else Suc (single_end raw q cs))"

text \<open>\<open>consumeString\<close> from the opening quote.\<close>

definition consumeString :: "runes \<Rightarrow> bool \<Rightarrow> nat" where
  "consumeString s raw =
     (let q = hd s
      in if starts2 q q (tl s) then 3 + triple_end raw q (drop 3 s) else 1 + single_end raw q (drop 1 s))"

section \<open>Statement content\<close>

lemma line_len_pos: "line_comment s \<Longrightarrow> 0 < line_len s"
  by (cases s) (auto simp: line_comment_def line_len_def starts2_def split: list.splits)

function (sequential) hasSQLContent :: "runes \<Rightarrow> bool" where
  "hasSQLContent [] = False"
| "hasSQLContent (c # cs) =
     (if c = 32 \<or> c = 9 \<or> c = 10 \<or> c = 13 then hasSQLContent cs
      else if line_comment (c # cs) then hasSQLContent (drop (line_len (c # cs)) (c # cs))
      else if starts2 47 42 (c # cs) then hasSQLContent (drop (block_len (c # cs)) (c # cs))
      else True)"
  by pat_completeness auto
termination
  by (relation "measure length") (auto simp: block_len_def dest: line_len_pos)

declare hasSQLContent.simps(2) [simp del]

definition isWordRune :: "int \<Rightarrow> bool" where
  "isWordRune r \<longleftrightarrow> r = 95 \<or> 97 \<le> r \<and> r \<le> 122 \<or> 65 \<le> r \<and> r \<le> 90 \<or> 48 \<le> r \<and> r \<le> 57"

function (sequential) leadingKeyword :: "runes \<Rightarrow> runes" where
  "leadingKeyword [] = []"
| "leadingKeyword (c # cs) =
     (if c = 32 \<or> c = 9 \<or> c = 10 \<or> c = 13 then leadingKeyword cs
      else if line_comment (c # cs) then leadingKeyword (drop (line_len (c # cs)) (c # cs))
      else if starts2 47 42 (c # cs) then leadingKeyword (drop (block_len (c # cs)) (c # cs))
      else if c = 40 then [40]
      else map to_upper (takeWhile isWordRune (c # cs)))"
  by pat_completeness auto
termination
  by (relation "measure length") (auto simp: block_len_def dest: line_len_pos)

declare leadingKeyword.simps(2) [simp del]

text \<open>SELECT, WITH, VALUES, TABLE, FROM, GRAPH and an opening parenthesis.\<close>

definition queryLeadKeywords :: "runes list" where
  "queryLeadKeywords =
     [[83,69,76,69,67,84], [87,73,84,72], [86,65,76,85,69,83], [84,65,66,76,69], [70,82,79,77], [71,82,65,80,72], [40]]"

definition isQueryStatement :: "runes \<Rightarrow> bool" where
  "isQueryStatement stmt \<longleftrightarrow> leadingKeyword stmt \<in> set queryLeadKeywords"

section \<open>Splitting\<close>

text \<open>\<open>flush\<close> appends the accumulated statement unless it is empty or only comments.\<close>

definition flush :: "runes \<Rightarrow> runes list \<Rightarrow> runes list" where
  "flush cur stmts = (let s = TrimSpace_runes cur in if s \<noteq> [] \<and> hasSQLContent s then stmts @ [s] else stmts)"

function (sequential) split_loop :: "runes \<Rightarrow> runes \<Rightarrow> runes list \<Rightarrow> runes list" where
  "split_loop [] cur stmts = flush cur stmts"
| "split_loop (c # cs) cur stmts =
     (if line_comment (c # cs) then
        let k = line_len (c # cs) in split_loop (drop k (c # cs)) (cur @ take k (c # cs)) stmts
      else if starts2 47 42 (c # cs) then
        let k = block_len (c # cs) in split_loop (drop k (c # cs)) (cur @ take k (c # cs)) stmts
      else if c = 96 then
        let k = 1 + backtick_end cs in split_loop (drop k (c # cs)) (cur @ take k (c # cs)) stmts
      else if c = 59 then split_loop cs [] (flush cur stmts)
      else (case stringLiteralAt (c # cs) of
          Some (raw, q) \<Rightarrow>
            let k = q + consumeString (drop q (c # cs)) raw
            in split_loop (drop k (c # cs)) (cur @ take k (c # cs)) stmts
        | None \<Rightarrow> split_loop cs (cur @ [c]) stmts))"
  by pat_completeness auto
termination
  by (relation "measure (\<lambda>(s, c, x). length s)")
    (auto simp: block_len_def consumeString_def Let_def dest: line_len_pos split: if_splits)

declare split_loop.simps(2) [simp del]

definition SplitStatements :: "runes \<Rightarrow> runes list" where
  "SplitStatements runes = split_loop runes [] []"

text \<open>\<open>lastTopLevelSemicolon\<close>, with the index \<open>i\<close> carried along.\<close>

function (sequential) last_semi :: "runes \<Rightarrow> int \<Rightarrow> int \<Rightarrow> int" where
  "last_semi [] i last' = last'"
| "last_semi (c # cs) i last' =
     (if line_comment (c # cs) then
        let k = line_len (c # cs) in last_semi (drop k (c # cs)) (i + int k) last'
      else if starts2 47 42 (c # cs) then
        let k = block_len (c # cs) in last_semi (drop k (c # cs)) (i + int k) last'
      else if c = 96 then
        let k = 1 + backtick_end cs in last_semi (drop k (c # cs)) (i + int k) last'
      else if c = 59 then last_semi cs (i + 1) i
      else (case stringLiteralAt (c # cs) of
          Some (raw, q) \<Rightarrow>
            let k = q + consumeString (drop q (c # cs)) raw in last_semi (drop k (c # cs)) (i + int k) last'
        | None \<Rightarrow> last_semi cs (i + 1) last'))"
  by pat_completeness auto
termination
  by (relation "measure (\<lambda>(s, i, l). length s)")
    (auto simp: block_len_def consumeString_def Let_def dest: line_len_pos split: if_splits)

declare last_semi.simps(2) [simp del]

definition lastTopLevelSemicolon :: "runes \<Rightarrow> int" where
  "lastTopLevelSemicolon runes = last_semi runes 0 (- 1)"

definition SplitComplete :: "runes \<Rightarrow> runes list \<times> runes" where
  "SplitComplete runes =
     (let last' = lastTopLevelSemicolon runes;
          (head, tailRaw) = (if last' \<ge> 0 then (take (nat (last' + 1)) runes, drop (nat (last' + 1)) runes) else ([], runes));
          complete = SplitStatements head;
          tail' = TrimSpace_runes tailRaw
      in if \<not> hasSQLContent tail' then (complete, [])
         else if HasSuffix tail' [92, 71] then (complete @ [tail'], [])
         else (complete, tailRaw))"

text \<open>
  The loop of \<open>RunInput\<close> over the lines of its input, none of them a dot-command and every
  statement succeeding: the statements it runs, in order.
\<close>

fun run_lines :: "runes list \<Rightarrow> runes \<Rightarrow> runes list" where
  "run_lines [] buf = (let tail' = TrimSpace_runes buf in if tail' \<noteq> [] then SplitStatements tail' else [])"
| "run_lines (l # ls) buf = (let (complete, remainder) = SplitComplete (buf @ l @ [10]) in complete @ run_lines ls remainder)"

section \<open>Tokens\<close>

text \<open>How many runes a loop passes at once at a position that holds no top-level semicolon.\<close>

definition tok :: "runes \<Rightarrow> nat" where
  "tok s =
     (if line_comment s then line_len s
      else if starts2 47 42 s then block_len s
      else if hd s = 96 then 1 + backtick_end (tl s)
      else case stringLiteralAt s of Some (raw, q) \<Rightarrow> q + consumeString (drop q s) raw | None \<Rightarrow> 1)"

definition semi :: "runes \<Rightarrow> bool" where
  "semi s \<longleftrightarrow> (case s of c # _ \<Rightarrow> c = 59 | [] \<Rightarrow> False)"

lemma semi_simps [simp]: "semi (c # cs) \<longleftrightarrow> c = 59" "\<not> semi []"
  by (simp_all add: semi_def)

lemma semi_plain: "\<not> line_comment (59 # cs)" "\<not> starts2 47 42 (59 # cs)"
  by (simp_all add: line_comment_def starts2_def split: list.splits)

lemma tok_pos: "s \<noteq> [] \<Longrightarrow> 0 < tok s"
  by (auto simp: tok_def block_len_def consumeString_def Let_def dest: line_len_pos split: option.splits)

lemma loops_tok:
  assumes "s \<noteq> []" "\<not> semi s"
  shows "split_loop s cur stmts = split_loop (drop (tok s) s) (cur @ take (tok s) s) stmts"
    "last_semi s i l = last_semi (drop (tok s) s) (i + int (tok s)) l"
  using assms by (cases s; simp add: split_loop.simps(2) last_semi.simps(2) tok_def Let_def split: option.splits)+

lemma loops_semi:
  "split_loop (59 # cs) cur stmts = split_loop cs [] (flush cur stmts)"
  "last_semi (59 # cs) i l = last_semi cs (i + 1) i"
  by (simp_all add: split_loop.simps(2) last_semi.simps(2) semi_plain)

section \<open>A scan that ends before a semicolon does not look behind it\<close>

lemma starts2_stable: "b \<noteq> 59 \<Longrightarrow> x \<noteq> [] \<Longrightarrow> starts2 a b (x @ 59 # y) \<longleftrightarrow> starts2 a b (x @ 59 # z)"
  by (cases x rule: list.exhaust; simp add: starts2_def split: list.splits) (auto simp: append_eq_Cons_conv Cons_eq_append_conv)

lemma line_len_stable: "line_len (x @ 59 # y) \<le> length x \<Longrightarrow> line_len (x @ 59 # z) = line_len (x @ 59 # y)"
  by (induction x) (auto simp: line_len_def split: if_splits)

lemma block_end_stable: "block_end (x @ 59 # y) \<le> length x \<Longrightarrow> block_end (x @ 59 # z) = block_end (x @ 59 # y)"
proof (induction x)
  case (Cons c x)
  have "starts2 42 47 ((c # x) @ 59 # y) = starts2 42 47 ((c # x) @ 59 # z)" by (rule starts2_stable) simp_all
  then show ?case using Cons by (auto split: if_splits)
qed (simp add: starts2_def split: list.splits)

lemma backtick_end_stable: "backtick_end (x @ 59 # y) \<le> length x \<Longrightarrow> backtick_end (x @ 59 # z) = backtick_end (x @ 59 # y)"
  by (induction x) auto

lemma triple_end_stable:
  "q \<noteq> 59 \<Longrightarrow> triple_end raw q (x @ 59 # y) \<le> length x \<Longrightarrow> triple_end raw q (x @ 59 # z) = triple_end raw q (x @ 59 # y)"
proof (induction x rule: length_induct)
  case (1 x)
  show ?case
  proof (cases x)
    case Nil
    then show ?thesis using 1(2,3) by simp
  next
    case (Cons c x1)
    show ?thesis
    proof (cases "\<not> raw \<and> c = 92")
      case True
      show ?thesis
      proof (cases x1)
        case Nil
        then show ?thesis using 1(3) Cons True by simp
      next
        case (Cons d x2)
        then show ?thesis using 1(1)[rule_format, of x2] 1(2,3) \<open>x = c # x1\<close> True by simp
      qed
    next
      case False
      have e: "starts2 q q (x1 @ 59 # y) = starts2 q q (x1 @ 59 # z)"
        using 1(2) starts2_stable [of q x1 q y z] by (cases x1) (simp_all add: starts2_def split: list.splits)
      show ?thesis
      proof (cases "c = q \<and> starts2 q q (x1 @ 59 # y)")
        case True
        then show ?thesis using False e Cons by auto
      next
        case n: False
        then have n': "\<not> (c = q \<and> starts2 q q (x1 @ 59 # z))" using e by simp
        have s: "triple_end raw q (x @ 59 # w) = Suc (triple_end raw q (x1 @ 59 # w))"
          if "\<not> (c = q \<and> starts2 q q (x1 @ 59 # w))" for w
          using that False unfolding Cons append_Cons triple_end.simps by meson
        have "triple_end raw q (x1 @ 59 # y) \<le> length x1" using 1(3) s [OF n] Cons by simp
        then show ?thesis using 1(1)[rule_format, of x1] 1(2) s [OF n] s [OF n'] Cons by simp
      qed
    qed
  qed
qed

lemma single_end_stable:
  "q \<noteq> 59 \<Longrightarrow> single_end raw q (x @ 59 # y) \<le> length x \<Longrightarrow> single_end raw q (x @ 59 # z) = single_end raw q (x @ 59 # y)"
proof (induction x rule: length_induct)
  case (1 x)
  show ?case
  proof (cases x)
    case Nil
    then show ?thesis using 1(2,3) by simp
  next
    case (Cons c x1)
    show ?thesis
    proof (cases "\<not> raw \<and> c = 92")
      case True
      show ?thesis
      proof (cases x1)
        case Nil
        then show ?thesis using 1(3) Cons True by simp
      next
        case (Cons d x2)
        then show ?thesis using 1(1)[rule_format, of x2] 1(2,3) \<open>x = c # x1\<close> True by simp
      qed
    next
      case False
      then show ?thesis using 1(1)[rule_format, of x1] 1(2,3) Cons by auto
    qed
  qed
qed

lemma starts2_stable_quote: "q \<noteq> 59 \<Longrightarrow> starts2 q q (x @ 59 # y) \<longleftrightarrow> starts2 q q (x @ 59 # z)"
  using starts2_stable [of q x q y z] by (cases x) (simp_all add: starts2_def split: list.splits)

lemma consumeString_stable:
  assumes "hd (x @ 59 # y) \<in> {34, 39}" "consumeString (x @ 59 # y) raw \<le> length x"
  shows "consumeString (x @ 59 # z) raw = consumeString (x @ 59 # y) raw"
proof (cases x)
  case Nil
  then show ?thesis using assms(1) by simp
next
  case (Cons q x1)
  have q: "q \<noteq> 59" using assms(1) Cons by auto
  note st = starts2_stable_quote [OF q, of x1 y z]
  show ?thesis
  proof (cases "starts2 q q (x1 @ 59 # y)")
    case True
    then have b: "2 + triple_end raw q (drop 2 (x1 @ 59 # y)) \<le> length x1"
      using assms(2) Cons by (simp add: consumeString_def del: drop_append)
    then have "2 \<le> length x1" by linarith
    then have d: "drop 2 (x1 @ 59 # w) = drop 2 x1 @ 59 # w" for w by simp
    have "triple_end raw q (drop 2 x1 @ 59 # y) \<le> length (drop 2 x1)" using b unfolding d by simp
    then have "triple_end raw q (drop 2 (x1 @ 59 # z)) = triple_end raw q (drop 2 (x1 @ 59 # y))"
      unfolding d by (rule triple_end_stable [OF q])
    then show ?thesis using True st Cons by (simp add: consumeString_def del: drop_append)
  next
    case False
    then have "single_end raw q (x1 @ 59 # y) \<le> length x1" using assms(2) Cons by (simp add: consumeString_def)
    then show ?thesis using single_end_stable [OF q, of raw x1 y z] False st Cons by (simp add: consumeString_def)
  qed
qed

lemma literal_prefix_stable: "literal_prefix k (x @ 59 # y) r b = literal_prefix k (x @ 59 # z) r b"
proof (induction x arbitrary: k r b)
  case Nil
  then show ?case by (cases k) simp_all
next
  case (Cons c x)
  then show ?case by (cases k) simp_all
qed

abbreviation letters :: "bool \<times> bool \<Rightarrow> nat" where
  "letters p \<equiv> (if fst p then 1 else 0) + (if snd p then 1 else 0)"

lemma literal_prefix_bound: "letters (literal_prefix k (x @ 59 # y) r b) \<le> letters (r, b) + length x"
proof (induction x arbitrary: k r b)
  case Nil
  then show ?case by (cases k) simp_all
next
  case (Cons c x)
  show ?case
  proof (cases k)
    case (Suc j)
    then show ?thesis using Cons [of j True b] Cons [of j r True] by auto
  qed simp
qed

lemma stringLiteralAt_alt:
  "stringLiteralAt s = (let p = literal_prefix 2 s False False; q = letters p
     in if q < length s \<and> (s ! q = 39 \<or> s ! q = 34) then Some (fst p, q) else None)"
  by (simp add: stringLiteralAt_def case_prod_beta Let_def)

lemma stringLiteralAt_stable: "stringLiteralAt (x @ 59 # y) = stringLiteralAt (x @ 59 # z)"
proof -
  define p where "p = literal_prefix 2 (x @ 59 # y) False False"
  have z: "literal_prefix 2 (x @ 59 # z) False False = p" unfolding p_def by (rule literal_prefix_stable)
  have b: "letters p \<le> length x" using literal_prefix_bound [of 2 x y False False] by (simp add: p_def)
  then have "(x @ 59 # y) ! letters p = (x @ 59 # z) ! letters p" "letters p < length (x @ 59 # y)" "letters p < length (x @ 59 # z)"
    by (simp_all only: nth_append length_append) (cases "letters p < length x", simp_all)
  then show ?thesis unfolding stringLiteralAt_alt Let_def z p_def [symmetric] by (simp only:)
qed

lemma stringLiteralAt_Some: "stringLiteralAt s = Some (raw, q) \<Longrightarrow> q < length s \<and> s ! q \<in> {34, 39}"
  by (auto simp: stringLiteralAt_alt Let_def split: if_splits)

lemma tok_stable:
  assumes "x \<noteq> []" "tok (x @ 59 # y) \<le> length x"
  shows "tok (x @ 59 # z) = tok (x @ 59 # y)"
proof -
  have hd: "hd (x @ 59 # w) = hd x" "tl (x @ 59 # w) = tl x @ 59 # w" for w using assms(1) by simp_all
  have lc: "line_comment (x @ 59 # w) \<longleftrightarrow> starts2 45 45 (x @ 59 # w) \<or> hd x = 35" for w
    using assms(1) by (cases x) (simp_all add: line_comment_def)
  have st: "starts2 45 45 (x @ 59 # z) = starts2 45 45 (x @ 59 # y)" "starts2 47 42 (x @ 59 # z) = starts2 47 42 (x @ 59 # y)"
    using starts2_stable assms(1) by simp_all
  consider (line) "line_comment (x @ 59 # y)"
    | (block) "\<not> line_comment (x @ 59 # y)" "starts2 47 42 (x @ 59 # y)"
    | (tick) "\<not> line_comment (x @ 59 # y)" "\<not> starts2 47 42 (x @ 59 # y)" "hd x = 96"
    | (lit) "\<not> line_comment (x @ 59 # y)" "\<not> starts2 47 42 (x @ 59 # y)" "hd x \<noteq> 96" by blast
  then show ?thesis
  proof cases
    case line
    then show ?thesis using assms(2) line_len_stable [of x y z] lc st by (simp add: tok_def)
  next
    case block
    then have b: "2 + block_end (drop 2 (x @ 59 # y)) \<le> length x"
      using assms(2) by (simp add: tok_def block_len_def del: drop_append)
    then have "2 \<le> length x" by linarith
    then have d: "drop 2 (x @ 59 # w) = drop 2 x @ 59 # w" for w by simp
    have "block_end (drop 2 x @ 59 # y) \<le> length (drop 2 x)" using b unfolding d by simp
    then have "block_end (drop 2 (x @ 59 # z)) = block_end (drop 2 (x @ 59 # y))"
      unfolding d by (rule block_end_stable)
    then show ?thesis using block lc st by (simp add: tok_def block_len_def del: drop_append)
  next
    case tick
    then have b: "backtick_end (tl x @ 59 # y) \<le> length (tl x)" using assms(2) hd by (simp add: tok_def)
    then show ?thesis using tick backtick_end_stable [of "tl x" y z] lc st hd by (simp add: tok_def)
  next
    case lit
    show ?thesis
    proof (cases "stringLiteralAt (x @ 59 # y)")
      case None
      then show ?thesis using lit lc st hd stringLiteralAt_stable [of x y z] by (simp add: tok_def)
    next
      case (Some p)
      obtain raw q where p: "p = (raw, q)" by (cases p)
      have b: "q + consumeString (drop q (x @ 59 # y)) raw \<le> length x"
        using assms(2) lit hd Some p by (simp add: tok_def del: drop_append)
      then have "q \<le> length x" by linarith
      then have d: "drop q (x @ 59 # w) = drop q x @ 59 # w" for w by simp
      have "hd (drop q (x @ 59 # y)) \<in> {34, 39}"
        using stringLiteralAt_Some Some p by (metis hd_drop_conv_nth)
      then have "consumeString (drop q x @ 59 # z) raw = consumeString (drop q x @ 59 # y) raw"
        using consumeString_stable [of "drop q x" y raw z] b unfolding d by simp
      then show ?thesis using lit lc st hd Some p d stringLiteralAt_stable [of x y z] by (simp add: tok_def)
    qed
  qed
qed

section \<open>Pieces between top-level semicolons\<close>

lemma tok_le: "s \<noteq> [] \<Longrightarrow> length (drop (tok s) s) < length s"
  using tok_pos [of s] by simp

function pieces :: "runes \<Rightarrow> runes \<Rightarrow> runes list" where
  "pieces s cur =
     (if s = [] then [cur]
      else if semi s then cur # pieces (tl s) []
      else pieces (drop (tok s) s) (cur @ take (tok s) s))"
  by pat_completeness auto
termination by (relation "measure (\<lambda>(s, c). length s)") (auto simp: tok_pos)

text \<open>The positions of the top-level semicolons, the last one first.\<close>

function semis :: "runes \<Rightarrow> nat list" where
  "semis s =
     (if s = [] then []
      else if semi s then map Suc (semis (tl s)) @ [0]
      else map ((+) (tok s)) (semis (drop (tok s) s)))"
  by pat_completeness auto
termination by (relation "measure length") (auto simp: tok_pos)

declare pieces.simps [simp del] semis.simps [simp del]

lemma pieces_simps:
  "pieces [] cur = [cur]"
  "pieces (59 # cs) cur = cur # pieces cs []"
  "s \<noteq> [] \<Longrightarrow> \<not> semi s \<Longrightarrow> pieces s cur = pieces (drop (tok s) s) (cur @ take (tok s) s)"
  by (simp_all add: pieces.simps)

lemma semis_simps:
  "semis [] = []"
  "semis (59 # cs) = map Suc (semis cs) @ [0]"
  "s \<noteq> [] \<Longrightarrow> \<not> semi s \<Longrightarrow> semis s = map ((+) (tok s)) (semis (drop (tok s) s))"
  by (simp_all add: semis.simps)

definition statement_of :: "runes \<Rightarrow> runes list" where
  "statement_of cur = flush cur []"

lemma flush_statement: "flush cur stmts = stmts @ statement_of cur"
  by (simp add: statement_of_def flush_def Let_def)

lemma split_loop_pieces: "split_loop s cur stmts = stmts @ concat (map statement_of (pieces s cur))"
proof (induction s cur arbitrary: stmts rule: pieces.induct)
  case (1 s cur)
  show ?case
  proof (cases s)
    case Nil
    then show ?thesis by (simp add: pieces_simps flush_statement)
  next
    case (Cons c cs)
    then show ?thesis
      using 1 by (cases "c = 59") (simp_all add: pieces_simps loops_semi flush_statement loops_tok(1))
  qed
qed

lemma SplitStatements_pieces: "SplitStatements s = concat (map statement_of (pieces s []))"
  by (simp add: SplitStatements_def split_loop_pieces)

lemma last_semi_semis: "last_semi s i l = (case semis s of [] \<Rightarrow> l | m # _ \<Rightarrow> i + int m)"
proof (induction s arbitrary: i l rule: semis.induct)
  case (1 s)
  show ?case
  proof (cases s)
    case Nil
    then show ?thesis by (simp add: semis_simps)
  next
    case (Cons c cs)
    then show ?thesis
      using 1 by (cases "c = 59") (auto simp: semis_simps loops_semi loops_tok(2) split: list.splits)
  qed
qed

text \<open>Without a top-level semicolon there is one piece.\<close>

lemma pieces_no_semi: "semis s = [] \<Longrightarrow> pieces s cur = [cur @ s]"
proof (induction s cur rule: pieces.induct)
  case (1 s cur)
  show ?case
  proof (cases s)
    case (Cons c cs)
    then show ?thesis using 1 by (cases "c = 59") (simp_all add: semis_simps pieces_simps)
  qed (simp add: pieces_simps)
qed

text \<open>A top-level semicolon is a place where the scan can start again, whatever follows it.\<close>

lemma restart:
  assumes "m \<in> set (semis s)"
  shows "\<exists>x y ps. s = x @ 59 # y \<and> length x = m \<and> (\<forall>z. pieces (x @ 59 # z) cur = ps @ pieces z []) \<and>
    (\<forall>z. \<exists>l. semis (x @ 59 # z) = map ((+) (Suc m)) (semis z) @ m # l)"
  using assms
proof (induction s arbitrary: m cur rule: semis.induct)
  case (1 s)
  then have ne: "s \<noteq> []" by (auto simp: semis_simps)
  show ?case
  proof (cases "semi s")
    case True
    then obtain cs where s: "s = 59 # cs" using ne by (cases s) auto
    show ?thesis
    proof (cases "m = 0")
      case True
      then show ?thesis unfolding s
        by (intro exI [of _ "[]"] exI [of _ cs] exI [of _ "[cur]"]) (simp add: pieces_simps semis_simps)
    next
      case False
      then obtain k where k: "m = Suc k" "k \<in> set (semis cs)" using 1(3) s by (auto simp: semis_simps)
      obtain x y ps where x: "cs = x @ 59 # y" "length x = k" "\<And>z. pieces (x @ 59 # z) [] = ps @ pieces z []"
        "\<And>z. \<exists>l. semis (x @ 59 # z) = map ((+) (Suc k)) (semis z) @ k # l"
        using 1(1)[OF ne True, of k "[]"] k(2) unfolding s list.sel by blast
      have "\<exists>l. semis ((59 # x) @ 59 # z) = map ((+) (Suc m)) (semis z) @ m # l" for z
        using x(4)[of z] k(1) by (auto simp: semis_simps)
      moreover have "pieces ((59 # x) @ 59 # z) cur = (cur # ps) @ pieces z []" for z
        using x(3) by (simp add: pieces_simps)
      moreover have "s = (59 # x) @ 59 # y" "length (59 # x) = m" using x(1,2) s k(1) by simp_all
      ultimately show ?thesis by blast
    qed
  next
    case False
    let ?k = "tok s"
    obtain j where j: "m = ?k + j" "j \<in> set (semis (drop ?k s))" using 1(3) ne False by (auto simp: semis_simps)
    obtain x y ps where x: "drop ?k s = x @ 59 # y" "length x = j"
      "\<And>z. pieces (x @ 59 # z) (cur @ take ?k s) = ps @ pieces z []"
      "\<And>z. \<exists>l. semis (x @ 59 # z) = map ((+) (Suc j)) (semis z) @ j # l"
      using 1(2)[OF ne False j(2), of "cur @ take ?k s"] by blast
    define w where "w = take ?k s @ x"
    have kl: "?k \<le> length s" using x(1) by (cases "?k \<le> length s") auto
    have s: "s = w @ 59 # y" unfolding w_def using x(1) by (metis append.assoc append_take_drop_id)
    have lw: "length w = m" using kl x(2) j(1) by (simp add: w_def)
    have tk: "take ?k s \<noteq> []" using ne tok_pos [OF ne] by simp
    then have wne: "w \<noteq> []" by (simp add: w_def)
    have t: "tok (w @ 59 # z) = ?k" for z using tok_stable [OF wne, of y z] s lw j(1) by simp
    have d: "drop ?k (w @ 59 # z) = x @ 59 # z" "take ?k (w @ 59 # z) = take ?k s" for z
      using kl by (simp_all add: w_def min_def)
    have ns: "w @ 59 # z \<noteq> []" "\<not> semi (w @ 59 # z)" for z
      using False s wne by (cases w; simp)+
    have "pieces (w @ 59 # z) cur = ps @ pieces z []" for z
      using pieces_simps(3)[OF ns] t d x(3) by simp
    moreover have "\<exists>l. semis (w @ 59 # z) = map ((+) (Suc m)) (semis z) @ m # l" for z
      using semis_simps(3)[OF ns] t d x(4)[of z] j(1) by (auto simp: ac_simps)
    ultimately show ?thesis using s lw by blast
  qed
qed

section \<open>Incremental splitting\<close>

text \<open>What \<open>SplitComplete\<close> computes, by the last top-level semicolon.\<close>

lemma SplitComplete_cases:
  obtains (none) "semis s = []" "SplitComplete s =
      (let t = TrimSpace_runes s in if \<not> hasSQLContent t then ([], []) else if HasSuffix t [92, 71] then ([t], []) else ([], s))"
  | (some) x y ps where "s = x @ 59 # y" "semis y = []" "\<And>z. pieces (x @ 59 # z) [] = ps @ pieces z []"
      "SplitComplete s = (let c = concat (map statement_of ps); t = TrimSpace_runes y
         in if \<not> hasSQLContent t then (c, []) else if HasSuffix t [92, 71] then (c @ [t], []) else (c, y))"
proof (cases "semis s")
  case Nil
  then have "lastTopLevelSemicolon s = - 1" by (simp add: lastTopLevelSemicolon_def last_semi_semis)
  then have "SplitComplete s =
      (let t = TrimSpace_runes s in if \<not> hasSQLContent t then ([], []) else if HasSuffix t [92, 71] then ([t], []) else ([], s))"
    by (simp add: SplitComplete_def Let_def SplitStatements_def flush_def TrimSpace_runes_def trimFunc_def)
  then show ?thesis using none Nil by blast
next
  case (Cons m ms)
  obtain x y ps where x: "s = x @ 59 # y" "length x = m" "\<And>z. pieces (x @ 59 # z) [] = ps @ pieces z []"
    "\<And>z. \<exists>l. semis (x @ 59 # z) = map ((+) (Suc m)) (semis z) @ m # l"
    using restart [of m s "[]"] Cons by auto
  have y: "semis y = []"
  proof (cases "semis y")
    case (Cons j js)
    then have "Suc m + j = m" using x(4)[of y] \<open>semis s = m # ms\<close> x(1) by auto
    then show ?thesis by simp
  qed
  have l: "lastTopLevelSemicolon s = int m" using Cons by (simp add: lastTopLevelSemicolon_def last_semi_semis)
  have h: "take (Suc m) s = x @ 59 # []" "drop (Suc m) s = y" using x(1,2) by simp_all
  have "SplitStatements (x @ 59 # []) = concat (map statement_of ps)"
    unfolding SplitStatements_pieces x(3)
    by (simp add: pieces_simps statement_of_def flush_def TrimSpace_runes_def trimFunc_def)
  then have "SplitComplete s = (let c = concat (map statement_of ps); t = TrimSpace_runes y
         in if \<not> hasSQLContent t then (c, []) else if HasSuffix t [92, 71] then (c @ [t], []) else (c, y))"
    using l h by (simp add: SplitComplete_def Let_def nat_add_distrib)
  then show ?thesis using some x(1,3) y by blast
qed

lemma statement_of_alt: "statement_of cur = (if hasSQLContent (TrimSpace_runes cur) then [TrimSpace_runes cur] else [])"
  by (auto simp: statement_of_def flush_def Let_def)

lemma SplitStatements_Nil: "SplitStatements [] = []"
  by (simp add: SplitStatements_pieces pieces_simps statement_of_alt TrimSpace_runes_def trimFunc_def)

text \<open>
  Splitting incrementally loses and invents nothing: the complete statements that
  \<open>SplitComplete\<close> returns, followed by the statements of the remainder, are the statements of the whole text. No
  statement is empty or consists of comments only.
\<close>

theorem split_complete_statements:
  "SplitStatements s = fst (SplitComplete s) @ SplitStatements (snd (SplitComplete s)) \<and>
   list_all hasSQLContent (SplitStatements s)"
proof
  show "SplitStatements s = fst (SplitComplete s) @ SplitStatements (snd (SplitComplete s))"
  proof (cases s rule: SplitComplete_cases)
    case none
    then show ?thesis
      by (simp add: SplitStatements_pieces pieces_no_semi statement_of_alt Let_def SplitStatements_Nil [unfolded SplitStatements_pieces])
  next
    case (some x y ps)
    have "SplitStatements s = concat (map statement_of ps) @ statement_of y"
      unfolding SplitStatements_pieces some(1) some(3) by (simp add: pieces_no_semi some(2))
    then show ?thesis using some(4)
      by (simp add: SplitStatements_pieces pieces_no_semi some(2) statement_of_alt Let_def SplitStatements_Nil [unfolded SplitStatements_pieces])
  qed
  show "list_all hasSQLContent (SplitStatements s)"
    by (auto simp: SplitStatements_pieces list_all_iff statement_of_alt split: if_splits)
qed

text \<open>
  C22. The shell may go on with the remainder alone: when \<open>SplitComplete\<close> keeps a remainder,
  the statements of the input continued by any further text are the complete ones followed by the
  statements of the continued remainder, literals and comments that span the two parts included.
\<close>

theorem split_complete_continue:
  assumes "SplitComplete a = (c, r)" "r \<noteq> []"
  shows "SplitStatements (a @ b) = c @ SplitStatements (r @ b)"
proof (cases a rule: SplitComplete_cases)
  case none
  then show ?thesis using assms by (auto simp: Let_def split: if_splits)
next
  case (some x y ps)
  have "c = concat (map statement_of ps)" "r = y" using some(4) assms by (auto simp: Let_def split: if_splits)
  moreover have "SplitStatements (a @ b) = concat (map statement_of ps) @ SplitStatements (y @ b)"
    using some(3)[of "y @ b"] by (simp add: SplitStatements_pieces some(1))
  ultimately show ?thesis by simp
qed

theorem split_complete_continue_witness:
  "SplitStatements ([49, 59, 39, 97] @ [59, 39]) = [[49]] @ SplitStatements ([39, 97] @ [59, 39])"
proof -
  have "SplitComplete [49, 59, 39, 97] = ([[49]], [39, 97])" by code_simp
  then show ?thesis by (rule split_complete_continue) simp
qed

text \<open>
  Two inputs the shell mishandles. A block comment that opens a statement and spans two lines is
  dropped after its first line, so the rest of the comment is run as a statement, although the
  splitter finds no statement in the whole text. A string literal that directly follows a keyword
  ending in R or B is taken for a raw literal, so an escaped quote ends it and the semicolon behind
  it cuts the statement.
\<close>

theorem split_defects:
  "run_lines [[47, 42, 97], [98, 59, 42, 47]] [] = [[98], [42, 47]] \<and>
   SplitStatements ([47, 42, 97] @ [10] @ [98, 59, 42, 47]) = [] \<and>
   SplitStatements [79, 82, 32, 39, 92, 39, 59, 39] = [[79, 82, 32, 39, 92, 39, 59, 39]] \<and>
   SplitStatements [79, 82, 39, 92, 39, 59, 39] = [[79, 82, 39, 92, 39], [39]]"
  by code_simp

end
