(* ===== verification/JSON_Path.thy ===== *)
theory JSON_Path
  imports Go_Strings "HOL-Library.Word"
begin

text \<open>
  JSON path selection on raw text, \<open>src/internal/functions/json/jsonpath.go\<close>: the parser of
  JSONPath expressions (\<open>parsePath\<close>, \<open>readQuoted\<close>) and the extraction that walks the bytes of
  a document without decoding it (\<open>Extract\<close>, \<open>rawObjectMember\<close>, \<open>rawArrayElem\<close>, \<open>keyEquals\<close>,
  \<open>skipSpace\<close>, \<open>skipString\<close>, \<open>skipValue\<close>). Documents and paths are byte strings; positions are
  indices into them, as in the code. The lemmas read a position \<open>i\<close> of \<open>b\<close> through the suffix
  \<open>drop i b\<close>.
\<close>

section \<open>Suffixes at a position\<close>

lemma drop_ConsD:
  assumes "drop i b = c # r"
  shows "i < length b" "b ! i = c" "drop (Suc i) b = r"
proof -
  show "i < length b" using assms by (metis drop_eq_Nil2 leI list.distinct(1))
  then show "b ! i = c" "drop (Suc i) b = r" using assms by (auto simp: Cons_nth_drop_Suc [symmetric])
qed

lemma drop_appD: "drop i b = w @ r \<Longrightarrow> drop (i + length w) b = r"
  by (metis add.commute append_eq_conv_conj drop_drop)

lemma drop_NilD: "drop i b = [] \<Longrightarrow> \<not> i < length b"
  by simp

text \<open>\<open>b[i:j]\<close> of a slice or a string.\<close>

definition subslice :: "'a list \<Rightarrow> nat \<Rightarrow> nat \<Rightarrow> 'a list" where
  "subslice b i j = take (j - i) (drop i b)"

lemma subslice_app [simp]: "drop i b = w @ r \<Longrightarrow> subslice b i (i + length w) = w"
  by (simp add: subslice_def)

section \<open>Scanning a document\<close>

definition json_ws :: "char \<Rightarrow> bool" where
  "json_ws c \<longleftrightarrow> c = CHR '' '' \<or> c = CHR 0x09 \<or> c = CHR 0x0A \<or> c = CHR 0x0D"

function skipSpace :: "string \<Rightarrow> nat \<Rightarrow> nat" where
  "skipSpace b i = (if i < length b \<and> json_ws (b ! i) then skipSpace b (i + 1) else i)"
  by pat_completeness auto
termination
  by (relation "measure (\<lambda>(b, i). length b - i)") auto

text \<open>The loop of \<open>skipString\<close>: a backslash skips the next byte.\<close>

function skipString_from :: "string \<Rightarrow> nat \<Rightarrow> nat option" where
  "skipString_from b j =
     (if j < length b then
        (if b ! j = CHR 0x5C then skipString_from b (j + 2)
         else if b ! j = CHR 0x22 then Some (j + 1)
         else skipString_from b (j + 1))
      else None)"
  by pat_completeness auto
termination
  by (relation "measure (\<lambda>(b, j). length b - j)") auto

definition skipString :: "string \<Rightarrow> nat \<Rightarrow> nat option" where
  "skipString b i = skipString_from b (i + 1)"

declare skipSpace.simps [simp del] skipString_from.simps [simp del]

lemma skipString_from_gt: "skipString_from b j = Some e \<Longrightarrow> j < e"
  by (induction b j rule: skipString_from.induct)
     (subst (asm) (2) skipString_from.simps, auto split: if_splits)

lemma skipString_gt: "skipString b i = Some e \<Longrightarrow> i < e"
  by (auto simp: skipString_def dest: skipString_from_gt)

text \<open>The loop over a container: strings are skipped whole, brackets of either kind count.\<close>

function skipNest :: "string \<Rightarrow> nat \<Rightarrow> int \<Rightarrow> nat option" where
  "skipNest b j depth =
     (if j < length b then
        (if b ! j = CHR 0x22 then
           (case skipString b j of None \<Rightarrow> None | Some e \<Rightarrow> skipNest b e depth)
         else if b ! j = CHR ''{'' \<or> b ! j = CHR ''['' then skipNest b (j + 1) (depth + 1)
         else if b ! j = CHR ''}'' \<or> b ! j = CHR '']'' then
           (if depth - 1 = 0 then Some (j + 1) else skipNest b (j + 1) (depth - 1))
         else skipNest b (j + 1) depth)
      else None)"
  by pat_completeness auto
termination
  by (relation "measure (\<lambda>(b, j, d). length b - j)") (auto dest!: skipString_gt)

declare skipNest.simps [simp del]

definition scalar_end :: "char \<Rightarrow> bool" where
  "scalar_end c \<longleftrightarrow> c = CHR '','' \<or> c = CHR ''}'' \<or> c = CHR '']'' \<or> json_ws c"

function skipScalar :: "string \<Rightarrow> nat \<Rightarrow> nat" where
  "skipScalar b j = (if j < length b \<and> \<not> scalar_end (b ! j) then skipScalar b (j + 1) else j)"
  by pat_completeness auto
termination
  by (relation "measure (\<lambda>(b, j). length b - j)") auto

declare skipScalar.simps [simp del]

definition skipValue :: "string \<Rightarrow> nat \<Rightarrow> nat option" where
  "skipValue b i =
     (if i \<ge> length b then None
      else if b ! i = CHR 0x22 then skipString b i
      else if b ! i = CHR ''{'' \<or> b ! i = CHR ''['' then skipNest b i 0
      else let j = skipScalar b i in if j = i then None else Some j)"

lemma skipSpace_ge: "i \<le> skipSpace b i"
  by (induction b i rule: skipSpace.induct) (subst skipSpace.simps, auto)

lemma skipScalar_ge: "i \<le> skipScalar b i"
  by (induction b i rule: skipScalar.induct) (subst skipScalar.simps, auto)

lemma skipNest_gt: "skipNest b j d = Some e \<Longrightarrow> j < e"
proof (induction b j d rule: skipNest.induct)
  case (1 b j d)
  then show ?case
    by (subst (asm) (5) skipNest.simps)
       (auto dest!: skipString_gt split: if_splits option.splits intro: less_trans)
qed

lemma skipValue_gt: "skipValue b i = Some e \<Longrightarrow> i < e"
  using skipScalar_ge [of i b]
  by (auto simp: skipValue_def Let_def dest: skipNest_gt skipString_gt split: if_splits)

section \<open>Member names\<close>

text \<open>
  \<open>encoding/json\<close> decoding of a string body: escapes, \<open>\\u\<close> with surrogate pairs, and
  invalid UTF-8 or a lone surrogate as U+FFFD; a bad escape or a control character is an error.
\<close>

definition EncodeRune :: "nat \<Rightarrow> string" where
  "EncodeRune r =
     (if r < 0x80 then [char_of r]
      else if r < 0x800 then [char_of (0xC0 + r div 64), char_of (0x80 + r mod 64)]
      else if r < 0x10000 then
        [char_of (0xE0 + r div 4096), char_of (0x80 + r div 64 mod 64), char_of (0x80 + r mod 64)]
      else
        [char_of (0xF0 + r div 262144), char_of (0x80 + r div 4096 mod 64),
         char_of (0x80 + r div 64 mod 64), char_of (0x80 + r mod 64)])"

definition hex_digit :: "char \<Rightarrow> nat option" where
  "hex_digit c =
     (if is_digit c then Some (digit_val c)
      else if byte_in 97 102 c then Some (of_char c - 87)
      else if byte_in 65 70 c then Some (of_char c - 55)
      else None)"

definition hex4 :: "string \<Rightarrow> nat option" where
  "hex4 s =
     (case map hex_digit (take 4 s) of
        [Some a, Some b, Some c, Some d] \<Rightarrow> Some (((a * 16 + b) * 16 + c) * 16 + d)
      | _ \<Rightarrow> None)"

definition simple_escape :: "char \<Rightarrow> char option" where
  "simple_escape e =
     (if e = CHR 0x22 \<or> e = CHR 0x5C \<or> e = CHR ''/'' then Some e
      else if e = CHR ''b'' then Some (CHR 0x08) else if e = CHR ''f'' then Some (CHR 0x0C)
      else if e = CHR ''n'' then Some (CHR 0x0A) else if e = CHR ''r'' then Some (CHR 0x0D)
      else if e = CHR ''t'' then Some (CHR 0x09) else None)"

text \<open>The rune of a \<open>\\u\<close> escape with value \<open>u\<close>, and the rest after it and its pair, if any.\<close>

definition utf16_rune :: "nat \<Rightarrow> string \<Rightarrow> nat \<times> string" where
  "utf16_rune u r =
     (if 0xD800 \<le> u \<and> u < 0xE000 then
        (case (if take 2 r = [CHR 0x5C, CHR ''u''] then hex4 (drop 2 r) else None) of
           Some v \<Rightarrow> if u < 0xDC00 \<and> 0xDC00 \<le> v \<and> v < 0xE000
                     then ((u - 0xD800) * 1024 + (v - 0xDC00) + 0x10000, drop 6 r)
                     else (0xFFFD, r)
         | None \<Rightarrow> (0xFFFD, r))
      else (u, r))"

lemma utf16_rune_length: "length (snd (utf16_rune u r)) \<le> length r"
  by (auto simp: utf16_rune_def split: option.splits)

function unquote :: "string \<Rightarrow> string option" where
  "unquote s =
     (case s of
        [] \<Rightarrow> Some []
      | c # r \<Rightarrow>
          if c = CHR 0x22 \<or> byte_in 0 0x1F c then None
          else if c = CHR 0x5C then
            (case r of
               [] \<Rightarrow> None
             | e # r2 \<Rightarrow>
                 if e = CHR ''u'' then
                   (case hex4 r2 of
                      None \<Rightarrow> None
                    | Some u \<Rightarrow> map_option (append (EncodeRune (fst (utf16_rune u (drop 4 r2)))))
                                 (unquote (snd (utf16_rune u (drop 4 r2)))))
                 else (case simple_escape e of
                         None \<Rightarrow> None
                       | Some d \<Rightarrow> map_option (Cons d) (unquote r2)))
          else if utf8_len s = 0 then map_option (append (EncodeRune 0xFFFD)) (unquote r)
          else map_option (append (take (utf8_len s) s)) (unquote (drop (utf8_len s) s)))"
  by pat_completeness auto
termination
proof (relation "measure length")
  fix s r u x21 x22 and c e :: char
  assume s: "s = c # r" "r = x21 # x22"
  have "length (snd (utf16_rune u (drop 4 x22))) \<le> length (drop 4 x22)" by (rule utf16_rune_length)
  also have "\<dots> \<le> length x22" by simp
  finally show "(snd (utf16_rune u (drop 4 x22)), s) \<in> measure length" using s by simp
qed auto

declare unquote.simps [simp del]

definition keyEquals :: "string \<Rightarrow> string \<Rightarrow> bool" where
  "keyEquals rawKey key =
     (if CHR 0x5C \<notin> set rawKey then rawKey = key else unquote rawKey = Some key)"

section \<open>Selecting a member or an element\<close>

text \<open>
  \<open>rawObjectMember\<close> and \<open>rawArrayElem\<close>: the loop over the members with \<open>i\<close> at a member name,
  the loop over the elements with \<open>i\<close> at a value. \<open>None\<close> stands for the result
  \<open>nil, false\<close>.
\<close>

function object_loop :: "string \<Rightarrow> string \<Rightarrow> nat \<Rightarrow> string option" where
  "object_loop raw key i =
     (if \<not> i < length raw then None
      else if raw ! i \<noteq> CHR 0x22 then None
      else (case skipString raw i of
        None \<Rightarrow> None
      | Some e \<Rightarrow>
          let k = subslice raw (i + 1) (e - 1); i1 = skipSpace raw e in
          if i1 \<ge> length raw \<or> raw ! i1 \<noteq> CHR '':'' then None
          else let i2 = skipSpace raw (i1 + 1) in
            (case skipValue raw i2 of
               None \<Rightarrow> None
             | Some vEnd \<Rightarrow>
                 if keyEquals k key then Some (subslice raw i2 vEnd)
                 else let i3 = skipSpace raw vEnd in
                   if i3 \<ge> length raw then None
                   else if raw ! i3 = CHR ''}'' then None
                   else if raw ! i3 \<noteq> CHR '','' then None
                   else object_loop raw key (skipSpace raw (i3 + 1)))))"
  by pat_completeness auto
termination
proof (relation "measure (\<lambda>(raw, key, i). length raw - i)", goal_cases)
  case (2 raw key i e k i1 i2 vEnd i3)
  have "i < e" "i2 < vEnd" using 2 skipString_gt skipValue_gt by auto
  then show ?case
    using 2 skipSpace_ge [of e raw] skipSpace_ge [of "i1 + 1" raw] skipSpace_ge [of vEnd raw]
      skipSpace_ge [of "i3 + 1" raw] by simp
qed auto

definition rawObjectMember :: "string \<Rightarrow> string \<Rightarrow> string option" where
  "rawObjectMember raw key =
     (if length raw = 0 \<or> raw ! 0 \<noteq> CHR ''{'' then None
      else let i = skipSpace raw 1 in
        if i < length raw \<and> raw ! i = CHR ''}'' then None else object_loop raw key i)"

function array_loop :: "string \<Rightarrow> int \<Rightarrow> int \<Rightarrow> nat \<Rightarrow> string option" where
  "array_loop raw idx n i =
     (if \<not> i < length raw then None
      else (case skipValue raw i of
        None \<Rightarrow> None
      | Some vEnd \<Rightarrow>
          if n = idx then Some (subslice raw i vEnd)
          else let i1 = skipSpace raw vEnd in
            if i1 \<ge> length raw \<or> raw ! i1 \<noteq> CHR '','' then None
            else array_loop raw idx (n + 1) (skipSpace raw (i1 + 1))))"
  by pat_completeness auto
termination
proof (relation "measure (\<lambda>(raw, idx, n, i). length raw - i)", goal_cases)
  case (2 raw idx n i vEnd i1)
  then show ?case
    using skipValue_gt [of raw i vEnd] skipSpace_ge [of vEnd raw] skipSpace_ge [of "i1 + 1" raw]
    by auto
qed auto

declare object_loop.simps [simp del] array_loop.simps [simp del]

definition rawArrayElem :: "string \<Rightarrow> int \<Rightarrow> string option" where
  "rawArrayElem raw idx =
     (if length raw = 0 \<or> raw ! 0 \<noteq> CHR ''['' \<or> idx < 0 then None
      else let i = skipSpace raw 1 in
        if i < length raw \<and> raw ! i = CHR '']'' then None else array_loop raw idx 0 i)"

text \<open>A step of a path and a parsed path; \<open>Extract\<close> gives the selected text or nothing.\<close>

record pathStep =
  ps_name :: string
  ps_index :: int
  ps_isIndex :: bool

record gsqlPath =
  gp_steps :: "pathStep list"
  gp_usedSingleQuote :: bool

definition extract_step :: "string \<Rightarrow> pathStep \<Rightarrow> string option" where
  "extract_step raw st =
     (if ps_isIndex st then rawArrayElem raw (ps_index st) else rawObjectMember raw (ps_name st))"

fun extract_steps :: "string \<Rightarrow> pathStep list \<Rightarrow> string list" where
  "extract_steps raw [] = [raw]"
| "extract_steps raw (st # sts) =
     (case extract_step raw st of None \<Rightarrow> [] | Some r \<Rightarrow> extract_steps r sts)"

definition Extract :: "gsqlPath \<Rightarrow> string \<Rightarrow> string list" where
  "Extract p doc = extract_steps (TrimSpace doc) (gp_steps p)"

section \<open>Parsing a path\<close>

datatype path_error =
    MustStartWithDollar
  | UnexpectedEnd
  | UnterminatedName
  | EmptyMember
  | UnterminatedBracket
  | ExpectedBracket
  | EmptySubscript
  | NegativeSubscript
  | UnexpectedCharacter char

text \<open>The unescaped content and the number of bytes consumed, the opening quote included.\<close>

function readQuoted_from :: "string \<Rightarrow> char \<Rightarrow> nat \<Rightarrow> string \<Rightarrow> path_error + string \<times> nat" where
  "readQuoted_from s q i b =
     (if i < length s then
        (if s ! i = CHR 0x5C \<and> i + 1 < length s then readQuoted_from s q (i + 2) (b @ [s ! (i + 1)])
         else if s ! i = q then Inr (b, i + 1)
         else readQuoted_from s q (i + 1) (b @ [s ! i]))
      else Inl UnterminatedName)"
  by pat_completeness auto
termination
  by (relation "measure (\<lambda>(s, q, i, b). length s - i)") auto

declare readQuoted_from.simps [simp del]

definition readQuoted :: "string \<Rightarrow> char \<Rightarrow> path_error + string \<times> nat" where
  "readQuoted s q = readQuoted_from s q 1 []"

definition name_step :: "string \<Rightarrow> pathStep" where
  "name_step n = \<lparr>ps_name = n, ps_index = 0, ps_isIndex = False\<rparr>"

definition index_step :: "int \<Rightarrow> pathStep" where
  "index_step i = \<lparr>ps_name = [], ps_index = i, ps_isIndex = True\<rparr>"

text \<open>The index just past a run of blanks.\<close>

function skip_blanks :: "string \<Rightarrow> nat \<Rightarrow> nat" where
  "skip_blanks s i = (if i < length s \<and> s ! i = CHR '' '' then skip_blanks s (i + 1) else i)"
  by pat_completeness auto
termination
  by (relation "measure (\<lambda>(s, i). length s - i)") auto

function member_end :: "string \<Rightarrow> nat \<Rightarrow> nat" where
  "member_end s j =
     (if j < length s \<and> s ! j \<noteq> CHR ''.'' \<and> s ! j \<noteq> CHR ''['' then member_end s (j + 1) else j)"
  by pat_completeness auto
termination
  by (relation "measure (\<lambda>(s, i). length s - i)") auto

declare skip_blanks.simps [simp del] member_end.simps [simp del]

text \<open>One round of the loop at \<open>s[i]\<close>: the step read, whether it is single-quoted, the next index.\<close>

definition parse_dot :: "string \<Rightarrow> nat \<Rightarrow> path_error + pathStep \<times> bool \<times> nat" where
  "parse_dot s i0 =
     (let i = i0 + 1 in
      if i \<ge> length s then Inl UnexpectedEnd
      else if s ! i = CHR 0x22 then
        bind_res (readQuoted (drop i s) (CHR 0x22)) (\<lambda>(name, n). Inr (name_step name, False, i + n))
      else let j = member_end s i in
        if j = i then Inl EmptyMember else Inr (name_step (subslice s i j), False, j))"

definition parse_bracket :: "string \<Rightarrow> nat \<Rightarrow> path_error + pathStep \<times> bool \<times> nat" where
  "parse_bracket s i0 =
     (let i = skip_blanks s (i0 + 1) in
      if i \<ge> length s then Inl UnterminatedBracket
      else if s ! i = CHR 0x27 \<or> s ! i = CHR 0x22 then
        bind_res (readQuoted (drop i s) (s ! i)) (\<lambda>(name, n).
          let i1 = skip_blanks s (i + n) in
          if i1 \<ge> length s \<or> s ! i1 \<noteq> CHR '']'' then Inl ExpectedBracket
          else Inr (name_step name, s ! i = CHR 0x27, i1 + 1))
      else (case IndexByte (drop i s) (CHR '']'') of
        None \<Rightarrow> Inl UnterminatedBracket
      | Some j \<Rightarrow>
          let tok = TrimSpace (subslice s i (i + j)) in
          if tok = [] then Inl EmptySubscript
          else (case ParseInt tok 64 of
            Inr n \<Rightarrow> if n < 0 then Inl NegativeSubscript else Inr (index_step n, False, i + j + 1)
          | Inl _ \<Rightarrow> Inr (name_step tok, False, i + j + 1))))"

definition parse_one :: "string \<Rightarrow> nat \<Rightarrow> path_error + pathStep \<times> bool \<times> nat" where
  "parse_one s i =
     (if s ! i = CHR ''.'' then parse_dot s i
      else if s ! i = CHR ''['' then parse_bracket s i
      else Inl (UnexpectedCharacter (s ! i)))"

lemma skip_blanks_ge: "i \<le> skip_blanks s i"
  by (induction s i rule: skip_blanks.induct) (subst skip_blanks.simps, auto)

lemma skip_blanks_twice: "i < Suc (skip_blanks s (skip_blanks s (Suc i) + n))"
  using skip_blanks_ge [of "Suc i" s] skip_blanks_ge [of "skip_blanks s (Suc i) + n" s] by simp

lemma member_end_ge: "i \<le> member_end s i"
  by (induction s i rule: member_end.induct) (subst member_end.simps, auto)

lemma parse_one_gt: "parse_one s i = Inr (st, q, j) \<Longrightarrow> i < j"
  using skip_blanks_ge [of "Suc i" s] member_end_ge [of "Suc i" s]
  by (auto simp: parse_one_def parse_dot_def parse_bracket_def Let_def bind_res_Inr_iff
        skip_blanks_twice split: if_splits prod.splits option.splits sum.splits)

function parse_loop :: "string \<Rightarrow> nat \<Rightarrow> gsqlPath \<Rightarrow> path_error + gsqlPath" where
  "parse_loop s i p =
     (if i < length s then
        (case parse_one s i of
           Inl e \<Rightarrow> Inl e
         | Inr (st, q, j) \<Rightarrow>
             parse_loop s j (p\<lparr>gp_steps := gp_steps p @ [st],
                                gp_usedSingleQuote := gp_usedSingleQuote p \<or> q\<rparr>))
      else Inr p)"
  by pat_completeness auto
termination
  by (relation "measure (\<lambda>(s, i, p). length s - i)") (auto dest!: parse_one_gt)

declare parse_loop.simps [simp del]

definition parsePath :: "string \<Rightarrow> path_error + gsqlPath" where
  "parsePath path =
     (let s = TrimSpace path in
      if s = [] \<or> s ! 0 \<noteq> CHR ''$'' then Inl MustStartWithDollar
      else parse_loop s 1 \<lparr>gp_steps = [], gp_usedSingleQuote = False\<rparr>)"

section \<open>The text of a document\<close>

text \<open>
  A JSON document with its white space: a scalar spelled by a token, a string by its escaped
  body, an array and an object by their elements and members. Each value is followed by white
  space, and by a comma and more white space when another one follows.
\<close>

datatype json =
    JLit string
  | JStr string
  | JArr string jelems
  | JObj string jmembers
and jelems = ENil | ECons json string string jelems
and jmembers = MNil | MCons string string string json string string jmembers

primrec print_json :: "json \<Rightarrow> string"
  and print_elems :: "jelems \<Rightarrow> string"
  and print_members :: "jmembers \<Rightarrow> string"
where
  "print_json (JLit s) = s"
| "print_json (JStr s) = CHR 0x22 # s @ [CHR 0x22]"
| "print_json (JArr w es) = CHR ''['' # w @ print_elems es @ '']''"
| "print_json (JObj w ms) = CHR ''{'' # w @ print_members ms @ ''}''"
| "print_elems ENil = []"
| "print_elems (ECons v w1 w2 es) =
     print_json v @ w1 @ (if es = ENil then [] else CHR '','' # w2 @ print_elems es)"
| "print_members MNil = []"
| "print_members (MCons k w1 w2 v w3 w4 ms) =
     CHR 0x22 # k @ CHR 0x22 # w1 @ CHR '':'' # w2 @ print_json v @ w3
       @ (if ms = MNil then [] else CHR '','' # w4 @ print_members ms)"

definition all_ws :: "string \<Rightarrow> bool" where
  "all_ws w = list_all json_ws w"

text \<open>A token of a scalar, the escaped body of a string, and a name in valid UTF-8.\<close>

definition lit_char :: "char \<Rightarrow> bool" where
  "lit_char c \<longleftrightarrow> graphic c \<and> c \<notin> set [CHR 0x22, CHR '','', CHR ''['', CHR '']'', CHR ''{'', CHR ''}'']"

fun string_body :: "string \<Rightarrow> bool" where
  "string_body [] = True"
| "string_body (c # cs) =
     (if c = CHR 0x5C then (case cs of [] \<Rightarrow> False | _ # ds \<Rightarrow> string_body ds)
      else c \<noteq> CHR 0x22 \<and> string_body cs)"

function utf8_text :: "string \<Rightarrow> bool" where
  "utf8_text s \<longleftrightarrow>
     (if s = [] then True
      else if byte_in 0 0x1F (hd s) \<or> utf8_len s = 0 then False
      else utf8_text (drop (utf8_len s) s))"
  by pat_completeness auto
termination
  by (relation "measure length") auto

declare utf8_text.simps [simp del]

primrec wf_json :: "json \<Rightarrow> bool"
  and wf_elems :: "jelems \<Rightarrow> bool"
  and wf_members :: "jmembers \<Rightarrow> bool"
where
  "wf_json (JLit s) \<longleftrightarrow> s \<noteq> [] \<and> list_all lit_char s"
| "wf_json (JStr s) \<longleftrightarrow> string_body s"
| "wf_json (JArr w es) \<longleftrightarrow> all_ws w \<and> wf_elems es"
| "wf_json (JObj w ms) \<longleftrightarrow> all_ws w \<and> wf_members ms"
| "wf_elems ENil \<longleftrightarrow> True"
| "wf_elems (ECons v w1 w2 es) \<longleftrightarrow> wf_json v \<and> all_ws w1 \<and> all_ws w2 \<and> wf_elems es"
| "wf_members MNil \<longleftrightarrow> True"
| "wf_members (MCons k w1 w2 v w3 w4 ms) \<longleftrightarrow>
     string_body k \<and> utf8_text k \<and> all_ws w1 \<and> all_ws w2 \<and> wf_json v \<and> all_ws w3 \<and> all_ws w4 \<and> wf_members ms"

text \<open>Navigation in the document: the element at an index, the first member with a decoded name.\<close>

fun elem_at :: "jelems \<Rightarrow> int \<Rightarrow> json option" where
  "elem_at ENil n = None"
| "elem_at (ECons v w1 w2 es) n = (if n = 0 then Some v else elem_at es (n - 1))"

fun member_named :: "jmembers \<Rightarrow> string \<Rightarrow> json option" where
  "member_named MNil key = None"
| "member_named (MCons k w1 w2 v w3 w4 ms) key =
     (if unquote k = Some key then Some v else member_named ms key)"

definition json_step :: "json \<Rightarrow> pathStep \<Rightarrow> json option" where
  "json_step t st =
     (case t of
        JArr w es \<Rightarrow> if ps_isIndex st then elem_at es (ps_index st) else None
      | JObj w ms \<Rightarrow> if ps_isIndex st then None else member_named ms (ps_name st)
      | _ \<Rightarrow> None)"

fun json_navigate :: "json \<Rightarrow> pathStep list \<Rightarrow> json option" where
  "json_navigate t [] = Some t"
| "json_navigate t (st # sts) =
     (case json_step t st of None \<Rightarrow> None | Some u \<Rightarrow> json_navigate u sts)"

end
