(* ===== verification/Name_Path.thy ===== *)
theory Name_Path
  imports Go_Strings
begin

text \<open>
  Name paths, \<open>src/internal/name_path.go\<close>: the current project and dataset of a connection, how
  a table or function name is completed with them, and the flat name a completed path gets in the
  SQLite database. A name is a byte string; a path is a list of names.
\<close>

section \<open>Operations\<close>

record NamePath =
  np_path :: "string list"
  np_maxNum :: int

definition isInformationSchema :: "string list \<Rightarrow> bool" where
  "isInformationSchema path =
     (if path = [] then False
      else list_ex (\<lambda>subPath. EqualFold_word subPath ''information_schema'') (butlast path))"

definition setMaxNum :: "NamePath \<Rightarrow> int \<Rightarrow> NamePath" where
  "setMaxNum p num = (if num > 0 then p\<lparr>np_maxNum := num\<rparr> else p)"

definition getMaxNum :: "NamePath \<Rightarrow> string list \<Rightarrow> int" where
  "getMaxNum p path =
     (if np_maxNum p = 0 then 0
      else if isInformationSchema path then np_maxNum p + 1
      else np_maxNum p)"

text \<open>\<open>strings.Split(s, ".")\<close>.\<close>

fun split_dots :: "string \<Rightarrow> string list" where
  "split_dots [] = [[]]"
| "split_dots (c # cs) =
     (if c = CHR ''.'' then [] # split_dots cs
      else (case split_dots cs of w # ws \<Rightarrow> (c # w) # ws | [] \<Rightarrow> [[c]]))"

definition normalizePath :: "string list \<Rightarrow> string list" where
  "normalizePath path = concat (map split_dots path)"

fun merge_loop :: "int \<Rightarrow> string list \<Rightarrow> string list \<Rightarrow> string list \<Rightarrow> string list" where
  "merge_loop maxNum path [] merged = merged"
| "merge_loop maxNum path (basePath # rest) merged =
     (if hd path = basePath then merged
      else if maxNum > 0 \<and> int (length merged) + int (length path) \<ge> maxNum then merged
      else merge_loop maxNum path rest (merged @ [basePath]))"

definition mergePath :: "NamePath \<Rightarrow> string list \<Rightarrow> string list" where
  "mergePath p path0 =
     (let path = normalizePath path0; maxNum = getMaxNum p path in
      if maxNum > 0 \<and> int (length path) = maxNum then path
      else if length path = 0 then np_path p
      else merge_loop maxNum path (np_path p) [] @ path)"

fun formatPath :: "string list \<Rightarrow> string" where
  "formatPath [] = []"
| "formatPath [n] = n"
| "formatPath (n # ns) = n @ ''_'' @ formatPath ns"

definition format :: "NamePath \<Rightarrow> string list \<Rightarrow> string" where
  "format p path = formatPath (mergePath p path)"

datatype name_path_error = TooManyNamePaths "string list" int int

definition setPath :: "NamePath \<Rightarrow> string list \<Rightarrow> name_path_error + NamePath" where
  "setPath p path =
     (let normalizedPath = normalizePath path; maxNum = getMaxNum p path in
      if maxNum > 0 \<and> int (length normalizedPath) > maxNum
      then Inl (TooManyNamePaths path (int (length normalizedPath)) maxNum)
      else Inr (p\<lparr>np_path := normalizedPath\<rparr>))"

definition addPath :: "NamePath \<Rightarrow> string \<Rightarrow> name_path_error + NamePath" where
  "addPath p path =
     (let normalizedPath = normalizePath [path];
          totalPath = int (length (np_path p)) + int (length normalizedPath);
          maxNum = getMaxNum p normalizedPath in
      if maxNum > 0 \<and> totalPath > maxNum
      then Inl (TooManyNamePaths (np_path p @ normalizedPath) totalPath maxNum)
      else Inr (p\<lparr>np_path := np_path p @ normalizedPath\<rparr>))"

definition empty_path :: "NamePath \<Rightarrow> bool" where
  "empty_path p \<longleftrightarrow> length (np_path p) = 0"

section \<open>Completion\<close>

lemma split_dots_not_Nil [simp]: "split_dots s \<noteq> []"
  by (cases s) (auto split: list.splits)

lemma split_dots_no_dot: "w \<in> set (split_dots s) \<Longrightarrow> CHR ''.'' \<notin> set w"
proof (induction s arbitrary: w)
  case (Cons c cs)
  then show ?case by (auto split: if_splits list.splits)
qed simp

lemma split_dots_plain: "CHR ''.'' \<notin> set s \<Longrightarrow> split_dots s = [s]"
  by (induction s) auto

lemma normalizePath_plain: "(\<And>n. n \<in> set path \<Longrightarrow> CHR ''.'' \<notin> set n) \<Longrightarrow> normalizePath path = path"
  by (induction path) (auto simp: normalizePath_def split_dots_plain)

lemma normalizePath_idem: "normalizePath (normalizePath path) = normalizePath path"
  by (rule normalizePath_plain) (auto simp: normalizePath_def dest: split_dots_no_dot)

text \<open>The loop copies the base path up to the first name of the path or the room that is left.\<close>

lemma merge_loop_take:
  assumes "path \<noteq> []" "maxNum > 0 \<longrightarrow> int (length merged) + int (length path) \<le> maxNum \<or> merged = []"
  shows "\<exists>k \<le> length rest. merge_loop maxNum path rest merged = merged @ take k rest
     \<and> hd path \<notin> set (take k rest)
     \<and> (k = length rest \<or> rest ! k = hd path
        \<or> maxNum > 0 \<and> int (length merged) + int k + int (length path) \<ge> maxNum)
     \<and> (maxNum > 0 \<longrightarrow> int (length merged) + int k + int (length path) \<le> maxNum \<or> merged = [] \<and> k = 0)"
  using assms(2)
proof (induction rest arbitrary: merged)
  case (Cons b rest)
  show ?case
  proof (cases "hd path = b \<or> maxNum > 0 \<and> int (length merged) + int (length path) \<ge> maxNum")
    case True
    then show ?thesis using Cons.prems by (intro exI [of _ 0]) auto
  next
    case False
    then have pre: "maxNum > 0 \<longrightarrow> int (length (merged @ [b])) + int (length path) \<le> maxNum \<or> merged @ [b] = []"
      by auto
    obtain k where k: "k \<le> length rest"
      "merge_loop maxNum path rest (merged @ [b]) = (merged @ [b]) @ take k rest" "hd path \<notin> set (take k rest)"
      "k = length rest \<or> rest ! k = hd path
        \<or> maxNum > 0 \<and> int (length (merged @ [b])) + int k + int (length path) \<ge> maxNum"
      "maxNum > 0 \<longrightarrow> int (length (merged @ [b])) + int k + int (length path) \<le> maxNum \<or> merged @ [b] = [] \<and> k = 0"
      using Cons.IH [OF pre] by blast
    then show ?thesis using False by (intro exI [of _ "Suc k"]) auto
  qed
qed (use assms in simp)

text \<open>The stored path stays within the room of the connection, one more with INFORMATION_SCHEMA.\<close>

definition path_bounded :: "NamePath \<Rightarrow> bool" where
  "path_bounded p \<longleftrightarrow> 0 \<le> np_maxNum p \<and> (0 < np_maxNum p \<longrightarrow> int (length (np_path p)) \<le> np_maxNum p + 1)"

lemma path_bounded_set: "path_bounded p \<Longrightarrow> setPath p path = Inr p' \<Longrightarrow> path_bounded p'"
  by (auto simp: setPath_def path_bounded_def getMaxNum_def Let_def split: if_splits)

lemma path_bounded_add: "path_bounded p \<Longrightarrow> addPath p path = Inr p' \<Longrightarrow> path_bounded p'"
  by (auto simp: addPath_def path_bounded_def getMaxNum_def Let_def split: if_splits)

section \<open>Properties\<close>

text \<open>
  C32. Completing a name: the result is a front part of the connection's path followed by the given
  names, with dots split. The front part ends before the first name that equals the first given
  name, so a name that repeats the project or the dataset is not doubled; it never makes the
  result longer than the limit (one more with INFORMATION_SCHEMA), and it is the longest such
  part. An empty path gives the connection's path, and a path already of the limit's length is
  left alone.\<close>

theorem merge_path_completes:
  assumes "normalizePath path \<noteq> []" "m = getMaxNum p (normalizePath path)"
  shows "\<exists>k \<le> length (np_path p). mergePath p path = take k (np_path p) @ normalizePath path
     \<and> (m > 0 \<and> int (length (normalizePath path)) = m \<longrightarrow> k = 0)
     \<and> hd (normalizePath path) \<notin> set (take k (np_path p))
     \<and> (m > 0 \<longrightarrow> int (length (mergePath p path)) \<le> m \<or> k = 0)
     \<and> (k = length (np_path p) \<or> np_path p ! k = hd (normalizePath path)
        \<or> m > 0 \<and> int (length (mergePath p path)) \<ge> m)"
proof (cases "m > 0 \<and> int (length (normalizePath path)) = m")
  case True
  then show ?thesis using assms by (intro exI [of _ 0]) (simp add: mergePath_def Let_def)
next
  case False
  have l: "int (length (xs @ ys)) = int (length xs) + int (length ys)" for xs ys :: "string list" by simp
  have e: "mergePath p path = merge_loop m (normalizePath path) (np_path p) [] @ normalizePath path"
    using False assms(1) unfolding mergePath_def Let_def assms(2) by auto
  obtain k where k: "k \<le> length (np_path p)" "merge_loop m (normalizePath path) (np_path p) [] = take k (np_path p)"
    "hd (normalizePath path) \<notin> set (take k (np_path p))"
    "k = length (np_path p) \<or> np_path p ! k = hd (normalizePath path)
      \<or> m > 0 \<and> int k + int (length (normalizePath path)) \<ge> m"
    "m > 0 \<longrightarrow> int k + int (length (normalizePath path)) \<le> m \<or> k = 0"
    using merge_loop_take [of "normalizePath path" m "[]" "np_path p"] assms(1) by auto
  show ?thesis using e k False by (intro exI [of _ k]) auto
qed

theorem merge_path_completes_witness:
  "mergePath \<lparr>np_path = [''p'', ''d''], np_maxNum = 3\<rparr> [''t''] = [''p'', ''d'', ''t''] \<and>
   (\<exists>k. k \<le> length [''p'', ''d'']
      \<and> mergePath \<lparr>np_path = [''p'', ''d''], np_maxNum = 3\<rparr> [''d'', ''t''] = take k [''p'', ''d''] @ [''d'', ''t''])"
proof
  let ?p = "\<lparr>np_path = [''p'', ''d''], np_maxNum = 3\<rparr>"
  have n: "normalizePath [''d'', ''t''] = [''d'', ''t'']" by (simp add: normalizePath_def)
  have "normalizePath [''d'', ''t''] \<noteq> []" unfolding n by simp
  from merge_path_completes [OF this refl, of ?p] obtain k where
    "k \<le> length (np_path ?p)" "mergePath ?p [''d'', ''t''] = take k (np_path ?p) @ normalizePath [''d'', ''t'']"
    by blast
  then show "\<exists>k. k \<le> length [''p'', ''d''] \<and> mergePath ?p [''d'', ''t''] = take k [''p'', ''d''] @ [''d'', ''t'']"
    unfolding n NamePath.simps by blast
  show "mergePath ?p [''t''] = [''p'', ''d'', ''t'']"
    by (simp add: mergePath_def normalizePath_def getMaxNum_def isInformationSchema_def)
qed

text \<open>
  Defects of name paths: two different tables get the same SQLite name when underscores in the
  names move across the boundary of a part, and setting a path written as one dotted string is
  refused where the same path given in parts is accepted, because the limit is computed before
  the dots are split.\<close>

theorem name_path_defects:
  "formatPath [''a_b'', ''c''] = formatPath [''a'', ''b_c'']
   \<and> setPath \<lparr>np_path = [], np_maxNum = 2\<rparr> [''d'', ''information_schema'', ''t'']
       = Inr \<lparr>np_path = [''d'', ''information_schema'', ''t''], np_maxNum = 2\<rparr>
   \<and> setPath \<lparr>np_path = [], np_maxNum = 2\<rparr> [''d.information_schema.t'']
       = Inl (TooManyNamePaths [''d.information_schema.t''] 3 2)"
proof -
  have "EqualFold_word ''information_schema'' ''information_schema''" by (simp add: lower_char_def)
  moreover have "\<not> EqualFold_word ''d'' ''information_schema''" by (simp add: lower_char_def)
  ultimately show ?thesis
    by (simp add: setPath_def getMaxNum_def isInformationSchema_def normalizePath_def Let_def)
qed

end
