(* ===== verification/Sql_Lex.thy ===== *)
theory Sql_Lex
  imports JSON_Path Name_Path
begin

text \<open>
  The lexical scanners that the rewrites of the query text share (\<open>src/internal/analyzer.go\<close>):
  identifiers, string literals with their triple-quoted forms and escapes, backtick names and line
  comments. Positions are byte indices; every scanner returns the index just past what it read.
  The query is a byte string and the scanners look at ASCII bytes only.
\<close>

section \<open>Scanners\<close>

definition isIdentStart :: "char \<Rightarrow> bool" where
  "isIdentStart c \<longleftrightarrow> byte_in 97 122 c \<or> byte_in 65 90 c \<or> c = CHR ''_''"

definition isIdentCont :: "char \<Rightarrow> bool" where
  "isIdentCont c \<longleftrightarrow> isIdentStart c \<or> byte_in 48 57 c"

definition isSpaceByte :: "char \<Rightarrow> bool" where
  "isSpaceByte c \<longleftrightarrow> c = CHR '' '' \<or> c = CHR 0x09 \<or> c = CHR 0x0A \<or> c = CHR 0x0D"

definition is_quote :: "char \<Rightarrow> bool" where
  "is_quote c \<longleftrightarrow> c = CHR 0x27 \<or> c = CHR 0x22"

text \<open>The loop \<open>for j < len(s) && p(s[j]) { j++ }\<close>.\<close>

function skip_while :: "(char \<Rightarrow> bool) \<Rightarrow> string \<Rightarrow> nat \<Rightarrow> nat" where
  "skip_while p s j = (if j < length s \<and> p (s ! j) then skip_while p s (j + 1) else j)"
  by pat_completeness auto
termination
  by (relation "measure (\<lambda>(p, s, j). length s - j)") auto

declare skip_while.simps [simp del]

text \<open>The body of a string literal with quote \<open>q\<close>; a line break ends an unterminated one.\<close>

function literal_body :: "string \<Rightarrow> char \<Rightarrow> bool \<Rightarrow> nat \<Rightarrow> nat" where
  "literal_body s q triple i =
     (if i < length s then
        (if s ! i = CHR 0x5C \<and> i + 1 < length s then literal_body s q triple (i + 2)
         else if triple then
           (if s ! i = q \<and> i + 2 < length s \<and> s ! (i + 1) = q \<and> s ! (i + 2) = q then i + 3
            else literal_body s q triple (i + 1))
         else if s ! i = q then i + 1
         else if s ! i = CHR 0x0A then i
         else literal_body s q triple (i + 1))
      else length s)"
  by pat_completeness auto
termination
  by (relation "measure (\<lambda>(s, q, t, i). length s - i)") auto

declare literal_body.simps [simp del]

definition scanStringLiteral :: "string \<Rightarrow> nat \<Rightarrow> nat" where
  "scanStringLiteral s start =
     (if start \<ge> length s then length s
      else let q = s ! start in
        if \<not> is_quote q then start + 1
        else let triple = (start + 2 < length s \<and> s ! (start + 1) = q \<and> s ! (start + 2) = q)
             in literal_body s q triple (if triple then start + 3 else start + 1))"

text \<open>A backtick name that starts at \<open>i\<close>, a line comment that starts at \<open>i\<close>, an identifier.\<close>

definition quoted_name_end :: "string \<Rightarrow> nat \<Rightarrow> nat" where
  "quoted_name_end s i = (let j = skip_while (\<lambda>c. c \<noteq> CHR 0x60) s (i + 1) in if j < length s then j + 1 else j)"

definition comment_end :: "string \<Rightarrow> nat \<Rightarrow> nat" where
  "comment_end s i = skip_while (\<lambda>c. c \<noteq> CHR 0x0A) s i"

definition ident_end :: "string \<Rightarrow> nat \<Rightarrow> nat" where
  "ident_end s i = skip_while isIdentCont s (i + 1)"

text \<open>\<open>strings.ToUpper\<close> of an identifier, whose bytes are ASCII.\<close>

definition upper_word :: "string \<Rightarrow> string" where
  "upper_word w = map upper_char w"

section \<open>Progress\<close>

lemma skip_while_ge: "j \<le> skip_while p s j"
  by (induction p s j rule: skip_while.induct) (subst skip_while.simps, auto)

lemma skip_while_le: "j \<le> length s \<Longrightarrow> skip_while p s j \<le> length s"
  by (induction p s j rule: skip_while.induct) (subst skip_while.simps, auto)

lemma skip_while_comment: "j < length s \<Longrightarrow> p (s ! j) \<Longrightarrow> j < skip_while p s j"
  using skip_while_ge [of "j + 1" p s] by (subst skip_while.simps) simp

lemma literal_body_bounds: "i \<le> length s \<Longrightarrow> i \<le> literal_body s q t i \<and> literal_body s q t i \<le> length s"
proof (induction s q t i rule: literal_body.induct)
  case (1 s q t i)
  show ?case
    by (subst (1 2) literal_body.simps)
       (use 1 in \<open>auto simp: not_le dest: Suc_leD\<close>)
qed

lemma scanStringLiteral_bounds:
  assumes "i < length s"
  shows "i < scanStringLiteral s i" "scanStringLiteral s i \<le> length s"
  using assms literal_body_bounds [of "i + 3" s "s ! i" True] literal_body_bounds [of "i + 1" s "s ! i" False]
  by (auto simp: scanStringLiteral_def Let_def)

lemma quoted_name_end_bounds:
  assumes "i < length s"
  shows "i < quoted_name_end s i" "quoted_name_end s i \<le> length s"
  using assms skip_while_ge [of "i + 1" "\<lambda>c. c \<noteq> CHR 0x60" s] skip_while_le [of "i + 1" s "\<lambda>c. c \<noteq> CHR 0x60"]
  by (auto simp: quoted_name_end_def Let_def)

lemma ident_end_bounds:
  assumes "i < length s"
  shows "i < ident_end s i" "ident_end s i \<le> length s"
  using assms skip_while_ge [of "i + 1" isIdentCont s] skip_while_le [of "i + 1" s isIdentCont]
  by (auto simp: ident_end_def)

lemma subslice_drop: "i \<le> j \<Longrightarrow> j \<le> length s \<Longrightarrow> subslice s i j @ drop j s = drop i s"
  unfolding subslice_def by (metis append_take_drop_id drop_drop le_add_diff_inverse2)

section \<open>Copying with changed words\<close>

text \<open>
  The shape of the rewrites: literals and backtick names are copied, an identifier is replaced by
  \<open>onWord query start end\<close>, any other byte is copied. With \<open>prefixed\<close> a literal may follow an
  \<open>r\<close> or \<open>b\<close> directly.
\<close>

definition is_prefix_char :: "char \<Rightarrow> bool" where
  "is_prefix_char c \<longleftrightarrow> c = CHR ''r'' \<or> c = CHR ''R'' \<or> c = CHR ''b'' \<or> c = CHR ''B''"

function copy_from :: "bool \<Rightarrow> (string \<Rightarrow> nat \<Rightarrow> nat \<Rightarrow> string) \<Rightarrow> string \<Rightarrow> nat \<Rightarrow> string" where
  "copy_from prefixed onWord query i =
     (if i < length query then
        let c = query ! i in
        if is_quote c then
          (let e = scanStringLiteral query i in subslice query i e @ copy_from prefixed onWord query e)
        else if c = CHR 0x60 then
          (let e = quoted_name_end query i in subslice query i e @ copy_from prefixed onWord query e)
        else if prefixed \<and> is_prefix_char c \<and> i + 1 < length query \<and> is_quote (query ! (i + 1)) then
          (let e = scanStringLiteral query (i + 1)
           in c # subslice query (i + 1) e @ copy_from prefixed onWord query e)
        else if isIdentStart c then
          (let j = ident_end query i in onWord query i j @ copy_from prefixed onWord query j)
        else c # copy_from prefixed onWord query (i + 1)
      else [])"
  by pat_completeness auto
termination
proof (relation "measure (\<lambda>(p, f, s, i). length s - i)", goal_cases)
  case (4 prefixed onWord query i c e)
  then show ?case using scanStringLiteral_bounds(1) [of "i + 1" query] by auto
qed (auto intro!: diff_less_mono2 scanStringLiteral_bounds(1) quoted_name_end_bounds(1) ident_end_bounds(1))

declare copy_from.simps [simp del]

text \<open>The tokens of a query, as its scanners see them.\<close>

datatype token = Verbatim string | Word nat nat

function tokens_from :: "bool \<Rightarrow> string \<Rightarrow> nat \<Rightarrow> token list" where
  "tokens_from prefixed query i =
     (if i < length query then
        if is_quote (query ! i) then
          Verbatim (subslice query i (scanStringLiteral query i)) # tokens_from prefixed query (scanStringLiteral query i)
        else if query ! i = CHR 0x60 then
          Verbatim (subslice query i (quoted_name_end query i)) # tokens_from prefixed query (quoted_name_end query i)
        else if prefixed \<and> is_prefix_char (query ! i) \<and> i + 1 < length query \<and> is_quote (query ! (i + 1)) then
          Verbatim (subslice query i (scanStringLiteral query (i + 1)))
            # tokens_from prefixed query (scanStringLiteral query (i + 1))
        else if isIdentStart (query ! i) then
          Word i (ident_end query i) # tokens_from prefixed query (ident_end query i)
        else Verbatim [query ! i] # tokens_from prefixed query (i + 1)
      else [])"
  by pat_completeness auto
termination
proof (relation "measure (\<lambda>(p, s, i). length s - i)", goal_cases)
  case (4 prefixed query i)
  then show ?case using scanStringLiteral_bounds(1) [of "i + 1" query] by auto
qed (auto intro!: diff_less_mono2 scanStringLiteral_bounds(1) quoted_name_end_bounds(1) ident_end_bounds(1))

declare tokens_from.simps [simp del]

fun token_text :: "(string \<Rightarrow> nat \<Rightarrow> nat \<Rightarrow> string) \<Rightarrow> string \<Rightarrow> token \<Rightarrow> string" where
  "token_text onWord query (Verbatim s) = s"
| "token_text onWord query (Word i j) = onWord query i j"

lemma subslice_Cons: "i < j \<Longrightarrow> j \<le> length s \<Longrightarrow> subslice s i j = s ! i # subslice s (i + 1) j"
  by (simp add: subslice_def Cons_nth_drop_Suc [symmetric] take_Cons' Suc_diff_Suc)

lemma copy_from_tokens:
  "copy_from prefixed onWord query i = concat (map (token_text onWord query) (tokens_from prefixed query i))"
proof (induction prefixed query i rule: tokens_from.induct)
  case (1 prefixed query i)
  then show ?case
    using scanStringLiteral_bounds [of "i + 1" query] subslice_Cons [of i "scanStringLiteral query (i + 1)" query]
    by (subst copy_from.simps, subst tokens_from.simps) (auto simp: Let_def)
qed

text \<open>Lexing loses nothing: the texts of the tokens are the query.\<close>

lemma tokens_lossless: "i \<le> length query \<Longrightarrow> concat (map (token_text subslice query) (tokens_from prefixed query i)) = drop i query"
proof (induction prefixed query i rule: tokens_from.induct)
  case (1 prefixed query i)
  show ?case
  proof (cases "i < length query")
    case True
    note b = scanStringLiteral_bounds [OF True] quoted_name_end_bounds [OF True] ident_end_bounds [OF True]
      scanStringLiteral_bounds [of "i + 1" query]
    show ?thesis using 1 True b subslice_drop [of i _ query]
      by (subst tokens_from.simps) (auto simp: Cons_nth_drop_Suc)
  qed (subst tokens_from.simps, use 1 in simp)
qed

lemma copy_from_same: "copy_from prefixed subslice query 0 = query"
  by (simp add: copy_from_tokens tokens_lossless)

end
