(* ===== verification/Sql_Rewrite.thy ===== *)
theory Sql_Rewrite
  imports Sql_Lex "HOL-Library.Monad_Syntax"
begin

text \<open>
  The rewrites of the query text before analysis, \<open>src/internal/analyzer.go\<close>: type name aliases,
  ingestion-time partition columns and the PARTITION BY clause, positional and named parameters
  in one query, and TIMESTAMP literals without a time zone.
\<close>

section \<open>Type name aliases\<close>

definition type_name_alias :: "string \<Rightarrow> string option" where
  "type_name_alias w =
     (if w = ''BIG_NUMERIC'' then Some ''BIGNUMERIC''
      else if w = ''INT'' \<or> w = ''INTEGER'' \<or> w = ''SMALLINT'' \<or> w = ''BIGINT'' \<or> w = ''TINYINT'' \<or> w = ''BYTEINT''
      then Some ''INT64'' else None)"

text \<open>The regular expression that tells whether any alias occurs as a word, in any case.\<close>

definition word_boundary :: "string \<Rightarrow> nat \<Rightarrow> bool" where
  "word_boundary s i \<longleftrightarrow> (0 < i \<and> i \<le> length s \<and> isIdentCont (s ! (i - 1))) \<noteq> (i < length s \<and> isIdentCont (s ! i))"

definition typeAliasNeedle :: "string \<Rightarrow> bool" where
  "typeAliasNeedle s = list_ex (\<lambda>i. list_ex (\<lambda>n. list_ex (\<lambda>w.
       EqualFold_word (subslice s i (i + n)) w \<and> word_boundary s i \<and> word_boundary s (i + n))
     [''big_numeric'', ''int'', ''integer'', ''smallint'', ''bigint'', ''tinyint'', ''byteint''])
     [1..<Suc (length s - i)]) [0..<length s]"

definition isAliasInTypePosition :: "string \<Rightarrow> nat \<Rightarrow> nat \<Rightarrow> bool" where
  "isAliasInTypePosition query start end' =
     (if (case dropWhile isSpaceByte (rev (take start query)) of c # _ \<Rightarrow> c = CHR ''('' \<or> c = CHR '','' | [] \<Rightarrow> False)
      then False
      else if (case dropWhile isSpaceByte (drop end' query) of c # _ \<Rightarrow> isIdentStart c \<or> c = CHR 0x60 | [] \<Rightarrow> False)
      then False
      else True)"

definition alias_word :: "string \<Rightarrow> nat \<Rightarrow> nat \<Rightarrow> string" where
  "alias_word query i j =
     (case type_name_alias (upper_word (subslice query i j)) of
        Some replacement \<Rightarrow> if isAliasInTypePosition query i j then replacement else subslice query i j
      | None \<Rightarrow> subslice query i j)"

definition applyTypeNameAliases :: "string \<Rightarrow> string" where
  "applyTypeNameAliases query =
     (if \<not> typeAliasNeedle query then query else copy_from True alias_word query 0)"

section \<open>Ingestion-time partitions\<close>

definition partition_word :: "string \<Rightarrow> nat \<Rightarrow> nat \<Rightarrow> string" where
  "partition_word query i j =
     (let w = upper_word (subslice query i j) in
      if w = ''_PARTITIONTIME'' then ''CURRENT_TIMESTAMP()''
      else if w = ''_PARTITIONDATE'' then ''CURRENT_DATE()''
      else subslice query i j)"

definition blank :: "char \<Rightarrow> bool" where
  "blank c \<longleftrightarrow> c = CHR '' '' \<or> c = CHR 0x09 \<or> c = CHR 0x0A"

text \<open>The end of the expression of a PARTITION BY clause.\<close>

function partition_expr_end :: "string \<Rightarrow> nat \<Rightarrow> nat \<Rightarrow> nat" where
  "partition_expr_end query exprDepth k =
     (if k < length query then
        let ch = query ! k in
        if is_quote ch then partition_expr_end query exprDepth (scanStringLiteral query k)
        else if ch = CHR ''('' then partition_expr_end query (exprDepth + 1) (k + 1)
        else if ch = CHR '')'' then (if exprDepth = 0 then k else partition_expr_end query (exprDepth - 1) (k + 1))
        else if exprDepth = 0 \<and> isIdentStart ch then
          (let kEnd = ident_end query k; w = upper_word (subslice query k kEnd) in
           if w = ''CLUSTER'' \<or> w = ''OPTIONS'' \<or> w = ''AS'' then k
           else partition_expr_end query exprDepth kEnd)
        else if ch = CHR '';'' \<and> exprDepth = 0 then k
        else partition_expr_end query exprDepth (k + 1)
      else k)"
  by pat_completeness auto
termination
  by (relation "measure (\<lambda>(s, d, k). length s - k)")
     (auto intro!: diff_less_mono2 scanStringLiteral_bounds(1) ident_end_bounds(1))

declare partition_expr_end.simps [simp del]

lemma partition_expr_end_ge: "k \<le> partition_expr_end query d k"
proof (induction query d k rule: partition_expr_end.induct)
  case (1 query d k)
  show ?case
  proof (cases "k < length query")
    case True
    note le = order.trans [OF less_imp_le [OF scanStringLiteral_bounds(1) [OF True]]]
      order.trans [OF less_imp_le [OF ident_end_bounds(1) [OF True]]] order.trans [OF le_add1 [of k 1]]
    note IH = "1.IH"(1,2,3) [OF True refl] "1.IH"(4) [OF True refl _ _ _ _ refl refl] "1.IH"(5) [OF True refl]
    note steps = le(1) [OF IH(1)] le(3) [OF IH(2)] le(3) [OF IH(3)] le(2) [OF IH(4)] le(3) [OF IH(5)]
    let ?c = "query ! k"
    show ?thesis
    proof (cases "is_quote ?c")
      case q: True
      then show ?thesis using steps(1) True by (subst partition_expr_end.simps) simp
    next
      case q: False
      show ?thesis
      proof (cases "?c = CHR ''('' \<or> ?c = CHR '')''")
        case p: True
        then show ?thesis using q steps(2,3) True by (subst partition_expr_end.simps) auto
      next
        case p: False
        show ?thesis
        proof (cases "d = 0 \<and> isIdentStart ?c")
          case w: True
          then show ?thesis using p q steps(4) True by (subst partition_expr_end.simps) (auto simp: Let_def)
        next
          case w: False
          have "k \<le> partition_expr_end query d (k + 1)" if "\<not> (?c = CHR '';'' \<and> d = 0)"
            using steps(5) p q w that by blast
          then show ?thesis using p q w True by (subst partition_expr_end.simps) auto
        qed
      qed
    qed
  qed (subst partition_expr_end.simps, simp)
qed

text \<open>
  The clause at \<open>i\<close>: the word PARTITION at a word boundary, blanks, and BY. The query is of ASCII
  bytes, so that its upper-case form has the same length.
\<close>

definition partition_by_at :: "string \<Rightarrow> nat \<Rightarrow> nat option" where
  "partition_by_at query i =
     (if i + 9 \<le> length query \<and> upper_word (subslice query i (i + 9)) = ''PARTITION''
         \<and> (i = 0 \<or> \<not> isIdentCont (query ! (i - 1)))
         \<and> i + 9 < length query \<and> blank (query ! (i + 9))
      then let k = skip_while blank query (i + 9) in
        if k + 2 \<le> length query \<and> upper_word (subslice query k (k + 2)) = ''BY''
           \<and> (k + 2 = length query \<or> \<not> isIdentCont (query ! (k + 2)))
        then Some (k + 2) else None
      else None)"

lemma partition_by_at_gt: "partition_by_at query i = Some k \<Longrightarrow> i < k"
  using skip_while_ge [of "i + 9" blank query]
  by (auto simp: partition_by_at_def Let_def split: if_splits)

function strip_partition :: "string \<Rightarrow> int \<Rightarrow> nat \<Rightarrow> string" where
  "strip_partition query depth i =
     (if i < length query then
        let c = query ! i in
        if is_quote c \<or> c = CHR 0x60 then
          (let e = (if c = CHR 0x60 then quoted_name_end query i else scanStringLiteral query i)
           in subslice query i e @ strip_partition query depth e)
        else if c = CHR ''('' then c # strip_partition query (depth + 1) (i + 1)
        else if c = CHR '')'' then c # strip_partition query (depth - 1) (i + 1)
        else (case (if depth = 0 then partition_by_at query i else None) of
          Some k \<Rightarrow> strip_partition query depth (partition_expr_end query 0 k)
        | None \<Rightarrow> c # strip_partition query depth (i + 1))
      else [])"
  by pat_completeness auto
termination
proof (relation "measure (\<lambda>(s, d, i). length s - i)", goal_cases)
  case (6 query depth i c k)
  then have "i < k" using partition_by_at_gt [of query i k] by (auto split: if_splits)
  also have "k \<le> partition_expr_end query 0 k" by (rule partition_expr_end_ge)
  finally show ?case using 6 by auto
qed (auto intro!: diff_less_mono2 scanStringLiteral_bounds(1) quoted_name_end_bounds(1))

declare strip_partition.simps [simp del]

definition stripPartitionByClause :: "string \<Rightarrow> string" where
  "stripPartitionByClause query = strip_partition query 0 0"

definition contains :: "string \<Rightarrow> string \<Rightarrow> bool" where
  "contains s needle = sublist needle s"

definition applyIngestionPartitionRewrite :: "string \<Rightarrow> string" where
  "applyIngestionPartitionRewrite query0 =
     (let query = (if contains query0 ''PARTITION'' \<or> contains query0 ''partition''
                   then stripPartitionByClause query0 else query0) in
      if \<not> contains query ''_PARTITION'' then query
      else copy_from False partition_word query 0)"

section \<open>Positional and named parameters\<close>

text \<open>An argument is its name, empty for a positional one, and its value.\<close>

function mixed_from :: "string \<Rightarrow> nat \<Rightarrow> nat \<Rightarrow> string \<times> nat" where
  "mixed_from query i posCount =
     (if i < length query then
        let c = query ! i in
        if is_quote c then
          (let e = scanStringLiteral query i in apfst (append (subslice query i e)) (mixed_from query e posCount))
        else if c = CHR 0x60 then
          (let e = quoted_name_end query i in apfst (append (subslice query i e)) (mixed_from query e posCount))
        else if c = CHR ''?'' then
          apfst (append (''@gsl_pos_'' @ dec_nat (posCount + 1))) (mixed_from query (i + 1) (posCount + 1))
        else apfst (Cons c) (mixed_from query (i + 1) posCount)
      else ([], posCount))"
  by pat_completeness auto
termination
  by (relation "measure (\<lambda>(s, i, n). length s - i)")
     (auto intro!: diff_less_mono2 scanStringLiteral_bounds(1) quoted_name_end_bounds(1))

function queryHasNamedRef_from :: "string \<Rightarrow> nat \<Rightarrow> bool" where
  "queryHasNamedRef_from query i =
     (if i < length query then
        let c = query ! i in
        if is_quote c then queryHasNamedRef_from query (scanStringLiteral query i)
        else if c = CHR 0x60 then queryHasNamedRef_from query (quoted_name_end query i)
        else if c = CHR ''@'' \<and> i + 1 < length query \<and> isIdentStart (query ! (i + 1)) then True
        else queryHasNamedRef_from query (i + 1)
      else False)"
  by pat_completeness auto
termination
  by (relation "measure (\<lambda>(s, i). length s - i)")
     (auto intro!: diff_less_mono2 scanStringLiteral_bounds(1) quoted_name_end_bounds(1))

declare mixed_from.simps [simp del] queryHasNamedRef_from.simps [simp del]

definition queryHasNamedRef :: "string \<Rightarrow> bool" where
  "queryHasNamedRef query = queryHasNamedRef_from query 0"

fun name_positional :: "nat \<Rightarrow> (string \<times> 'v) list \<Rightarrow> (string \<times> 'v) list" where
  "name_positional assigned [] = []"
| "name_positional assigned ((name, v) # args) =
     (if name \<noteq> [] then (name, v) # name_positional assigned args
      else (''gsl_pos_'' @ dec_nat (assigned + 1), v) # name_positional (assigned + 1) args)"

definition applyMixedParameterRewrite :: "string \<Rightarrow> (string \<times> 'v) list \<Rightarrow> string \<times> (string \<times> 'v) list" where
  "applyMixedParameterRewrite query args =
     (if CHR ''?'' \<notin> set query then (query, args)
      else
        let hasNamed = list_ex (\<lambda>a. fst a \<noteq> []) args; hasPositional = list_ex (\<lambda>a. fst a = []) args in
        if \<not> (hasNamed \<and> hasPositional) \<and> (length args > 0 \<or> \<not> queryHasNamedRef query) then (query, args)
        else (case mixed_from query 0 0 of
          (q, posCount) \<Rightarrow> if posCount = 0 then (query, args) else (q, name_positional 0 args)))"

section \<open>TIMESTAMP literals without a zone\<close>

text \<open>White space of a regular expression, and the three expressions on the tail of a literal.\<close>

definition re_space :: "char \<Rightarrow> bool" where
  "re_space c \<longleftrightarrow> c = CHR '' '' \<or> c = CHR 0x09 \<or> c = CHR 0x0A \<or> c = CHR 0x0C \<or> c = CHR 0x0D"

definition strip_tail :: "string \<Rightarrow> string" where
  "strip_tail s = rev (dropWhile re_space (rev s))"

definition digits_upto :: "nat \<Rightarrow> string \<Rightarrow> bool" where
  "digits_upto n s \<longleftrightarrow> list_all is_digit s \<and> 1 \<le> length s \<and> length s \<le> n"

definition dateOnlyRe :: "string \<Rightarrow> bool" where
  "dateOnlyRe s =
     (let t = strip_tail (dropWhile re_space s);
          y = takeWhile is_digit t; r1 = drop (length y) t;
          m = takeWhile is_digit (drop 1 r1); r2 = drop (length m) (drop 1 r1);
          d = drop 1 r2
      in length y = 4 \<and> take 1 r1 = ''-'' \<and> digits_upto 2 m \<and> take 1 r2 = ''-'' \<and> digits_upto 2 d)"

definition tzOffsetTail :: "string \<Rightarrow> bool" where
  "tzOffsetTail s =
     (case rev (strip_tail s) of
        d2 # d1 # sg # r \<Rightarrow>
          is_digit d2 \<and> is_digit d1
          \<and> (sg = CHR ''+'' \<or> sg = CHR ''-''
             \<or> (case (if sg = CHR '':'' then r else sg # r) of
                  e2 # e1 # sg' # _ \<Rightarrow> is_digit e2 \<and> is_digit e1 \<and> (sg' = CHR ''+'' \<or> sg' = CHR ''-'')
                | _ \<Rightarrow> False))
      | _ \<Rightarrow> False)"

definition zone_char :: "char \<Rightarrow> bool" where
  "zone_char c \<longleftrightarrow> byte_in 65 90 c \<or> byte_in 97 122 c \<or> c = CHR ''_'' \<or> c = CHR ''/'' \<or> c = CHR ''+'' \<or> c = CHR ''-''"

definition tzNameTail :: "string \<Rightarrow> bool" where
  "tzNameTail s =
     (let t = rev (strip_tail s); run = takeWhile zone_char t
      in run \<noteq> [] \<and> (byte_in 65 90 (last run) \<or> byte_in 97 122 (last run))
         \<and> length run < length t \<and> re_space (t ! length run))"

definition timestampHasTZ :: "string \<Rightarrow> bool" where
  "timestampHasTZ s =
     (if length s = 0 then False
      else if dateOnlyRe s then False
      else if last s = CHR ''Z'' \<or> last s = CHR ''z'' then True
      else if tzOffsetTail s then True
      else tzNameTail s)"

definition naiveUTCSuffix :: "string \<Rightarrow> string" where
  "naiveUTCSuffix s = (if dateOnlyRe s then '' 00:00:00+00:00'' else ''+00:00'')"

text \<open>\<open>RANGE<TIMESTAMP> '...'\<close>: the index of the opening quote.\<close>

definition rangeTimestampLiteralStart :: "string \<Rightarrow> nat \<Rightarrow> nat option" where
  "rangeTimestampLiteralStart query i =
     (let k1 = skip_while isSpaceByte query i in
      if k1 \<ge> length query \<or> query ! k1 \<noteq> CHR ''<'' then None
      else let k2 = skip_while isSpaceByte query (k1 + 1) in
      if k2 + 9 > length query \<or> \<not> EqualFold_word (subslice query k2 (k2 + 9)) ''timestamp'' then None
      else let k3 = skip_while isSpaceByte query (k2 + 9) in
      if k3 \<ge> length query \<or> query ! k3 \<noteq> CHR ''>'' then None
      else let k4 = skip_while isSpaceByte query (k3 + 1) in
      if k4 \<ge> length query \<or> \<not> is_quote (query ! k4) then None else Some k4)"

text \<open>\<open>strings.Split(s, ",")\<close>.\<close>

fun split_commas :: "string \<Rightarrow> string list" where
  "split_commas [] = [[]]"
| "split_commas (c # cs) =
     (if c = CHR '','' then [] # split_commas cs
      else (case split_commas cs of w # ws \<Rightarrow> (c # w) # ws | [] \<Rightarrow> [[c]]))"

definition utc_bound :: "string \<Rightarrow> string" where
  "utc_bound part =
     (let p = TrimSpace part in
      if p = [] \<or> EqualFold_word p ''unbounded'' \<or> EqualFold_word p ''null'' \<or> timestampHasTZ p then p
      else p @ naiveUTCSuffix p)"

definition naiveRangeBoundsUTC :: "string \<Rightarrow> string" where
  "naiveRangeBoundsUTC body =
     (let t = TrimSpace body in
      if length t < 2 \<or> t ! 0 \<noteq> CHR ''['' \<or> t ! (length t - 1) \<noteq> CHR '')'' then body
      else (case split_commas (subslice t 1 (length t - 1)) of
              [a, b] \<Rightarrow> ''['' @ utc_bound a @ '', '' @ utc_bound b @ '')''
            | _ \<Rightarrow> body))"

text \<open>The expression that finds \<open>TIMESTAMP\<close>, or \<open>TIMESTAMP>\<close>, before a quote.\<close>

definition timestampNeedle :: "string \<Rightarrow> bool" where
  "timestampNeedle s = list_ex (\<lambda>i. list_ex (\<lambda>n.
       word_boundary s i \<and> EqualFold_word (subslice s i (i + n)) ''timestamp''
       \<and> (let k = skip_while re_space s (i + n);
              k' = (if k < length s \<and> s ! k = CHR ''>'' then skip_while re_space s (k + 1) else k)
          in k' < length s \<and> is_quote (s ! k'))) [9, 10]) [0..<length s]"

text \<open>What follows a word that ends at \<open>i\<close>: the rewritten literal, if any, and the next index.\<close>

definition after_word :: "string \<Rightarrow> string \<Rightarrow> nat \<Rightarrow> string \<times> nat" where
  "after_word query word i =
     (case (if EqualFold_word word ''range'' then rangeTimestampLiteralStart query i else None) of
        Some k \<Rightarrow>
          let e = scanStringLiteral query k in
          if e > k + 1 \<and> e \<le> length query
          then (subslice query i k @ [query ! k] @ naiveRangeBoundsUTC (subslice query (k + 1) (e - 1)) @ [query ! k], e)
          else ([], i)
      | None \<Rightarrow>
          if EqualFold_word word ''timestamp'' then
            let k = skip_while isSpaceByte query i in
            if k < length query \<and> is_quote (query ! k) then
              let e = scanStringLiteral query k in
              if e > k + 1 \<and> e \<le> length query then
                let content = subslice query (k + 1) (e - 1) in
                (subslice query i k @
                   (if \<not> timestampHasTZ content
                    then [query ! k] @ content @ naiveUTCSuffix content @ [query ! k]
                    else subslice query k e), e)
              else ([], i)
            else ([], i)
          else ([], i))"

lemma rangeTimestampLiteralStart_ge: "rangeTimestampLiteralStart query i = Some k \<Longrightarrow> i \<le> k"
  using skip_while_ge [of i isSpaceByte query]
    skip_while_ge [of "skip_while isSpaceByte query i + 1" isSpaceByte query]
    skip_while_ge [of "skip_while isSpaceByte query (skip_while isSpaceByte query i + 1) + 9" isSpaceByte query]
    skip_while_ge [of "skip_while isSpaceByte query (skip_while isSpaceByte query
      (skip_while isSpaceByte query i + 1) + 9) + 1" isSpaceByte query]
  by (auto simp: rangeTimestampLiteralStart_def Let_def split: if_splits)

lemma after_word_ge: "i \<le> snd (after_word query word i)"
proof -
  have "i \<le> k" if "rangeTimestampLiteralStart query i = Some k" for k
    by (rule rangeTimestampLiteralStart_ge [OF that])
  moreover have "i \<le> skip_while isSpaceByte query i" by (rule skip_while_ge)
  ultimately show ?thesis
    by (auto simp: after_word_def Let_def split: option.splits if_splits)
qed

function naive_from :: "string \<Rightarrow> nat \<Rightarrow> string" where
  "naive_from query i =
     (if i < length query then
        let c = query ! i in
        if is_quote c then
          (let e = scanStringLiteral query i in subslice query i e @ naive_from query e)
        else if is_prefix_char c \<and> i + 1 < length query \<and> is_quote (query ! (i + 1)) then
          (let e = scanStringLiteral query (i + 1) in c # subslice query (i + 1) e @ naive_from query e)
        else if isIdentStart c then
          (let j = ident_end query i; word = subslice query i j; r = after_word query word j
           in word @ fst r @ naive_from query (snd r))
        else c # naive_from query (i + 1)
      else [])"
  by pat_completeness auto
termination
proof (relation "measure (\<lambda>(s, i). length s - i)", goal_cases)
  case (3 query i c e)
  then show ?case using scanStringLiteral_bounds(1) [of "i + 1" query] by auto
next
  case (4 query i c j word r)
  then show ?case using ident_end_bounds(1) [of i query] after_word_ge [of j query word] by auto
qed (auto intro!: diff_less_mono2 scanStringLiteral_bounds(1))

declare naive_from.simps [simp del]

definition applyNaiveTimestampUTC :: "string \<Rightarrow> string" where
  "applyNaiveTimestampUTC query = (if \<not> timestampNeedle query then query else naive_from query 0)"

section \<open>Signed NaN\<close>

text \<open>The rest of a text after a word in any case; the long s has two bytes.\<close>

definition fold_rest :: "string \<Rightarrow> string \<Rightarrow> string option" where
  "fold_rest w s =
     (case filter (\<lambda>n. n \<le> length s \<and> EqualFold_word (take n s) w) [length w..<Suc (2 * length w)] of
        n # _ \<Rightarrow> Some (drop n s)
      | [] \<Rightarrow> None)"

text \<open>One of the characters that \<open>P\<close> accepts, directly or after white space.\<close>

definition next_char :: "(char \<Rightarrow> bool) \<Rightarrow> string \<Rightarrow> (char \<times> string) option" where
  "next_char P s = (case s of c # r \<Rightarrow> if P c then Some (c, r) else None | [] \<Rightarrow> None)"

definition space_char :: "(char \<Rightarrow> bool) \<Rightarrow> string \<Rightarrow> (char \<times> string) option" where
  "space_char P s = next_char P (dropWhile re_space s)"

definition some_space :: "string \<Rightarrow> string option" where
  "some_space s = (case s of c # r \<Rightarrow> if re_space c then Some (dropWhile re_space r) else None | [] \<Rightarrow> None)"

text \<open>The name of a floating-point type and the closing parenthesis.\<close>

definition nan_type :: "string \<Rightarrow> string \<Rightarrow> (string \<times> string) option" where
  "nan_type ty s =
     (case fold_rest ty s of
        Some r \<Rightarrow> map_option (\<lambda>(_, r'). (take (length s - length r) s, r')) (space_char (\<lambda>c. c = CHR '')'') r)
      | None \<Rightarrow> None)"

definition nan_types :: "string \<Rightarrow> (string \<times> string) option" where
  "nan_types s =
     (case nan_type ''double'' s of
        Some x \<Rightarrow> Some x
      | None \<Rightarrow> (case nan_type ''float64'' s of Some x \<Rightarrow> Some x | None \<Rightarrow> nan_type ''float'' s))"

text \<open>A match at the start of a text: the two quotes, the name of the type and the rest.\<close>

definition signedNaNCastRe :: "string \<Rightarrow> (char \<times> char \<times> string \<times> string) option" where
  "signedNaNCastRe s =
     do { r1 \<leftarrow> fold_rest ''cast'' s;
          (_, r2) \<leftarrow> space_char (\<lambda>c. c = CHR ''('') r1;
          (q1, r3) \<leftarrow> space_char is_quote r2;
          (_, r4) \<leftarrow> next_char (\<lambda>c. c = CHR ''+'' \<or> c = CHR ''-'') r3;
          r5 \<leftarrow> fold_rest ''nan'' r4;
          (q2, r6) \<leftarrow> next_char is_quote r5;
          r7 \<leftarrow> some_space r6;
          r8 \<leftarrow> fold_rest ''as'' r7;
          r9 \<leftarrow> some_space r8;
          (ty, r10) \<leftarrow> nan_types r9;
          Some (q1, q2, ty, r10) }"

lemma fold_rest_length: "fold_rest w s = Some r \<Longrightarrow> length r \<le> length s"
  by (auto simp: fold_rest_def split: list.splits)

lemma next_char_length: "next_char P s = Some (c, r) \<Longrightarrow> length r < length s"
  by (auto simp: next_char_def split: list.splits if_splits)

lemma space_char_length: "space_char P s = Some (c, r) \<Longrightarrow> length r < length s"
  using length_dropWhile_le [of re_space s] by (auto simp: space_char_def dest!: next_char_length)

lemma some_space_length: "some_space s = Some r \<Longrightarrow> length r < length s"
  using length_dropWhile_le [of re_space "tl s"] by (auto simp: some_space_def split: list.splits if_splits)

lemma nan_type_length: "nan_type ty s = Some (n, r) \<Longrightarrow> length r < length s"
  by (auto simp: nan_type_def dest!: fold_rest_length space_char_length split: option.splits)

lemma nan_types_length: "nan_types s = Some (n, r) \<Longrightarrow> length r < length s"
  by (auto simp: nan_types_def dest!: nan_type_length split: option.splits)

lemma signedNaNCastRe_length: "signedNaNCastRe s = Some (q1, q2, ty, r) \<Longrightarrow> length r < length s"
  by (auto simp: signedNaNCastRe_def bind_eq_Some_conv
      dest!: fold_rest_length next_char_length space_char_length some_space_length nan_types_length)

text \<open>The flag says whether the byte before belongs to a word.\<close>

function nan_from :: "bool \<Rightarrow> string \<Rightarrow> string" where
  "nan_from w s =
     (case s of
        [] \<Rightarrow> []
      | c # cs \<Rightarrow>
          (case (if w then None else signedNaNCastRe s) of
             Some (q1, q2, ty, rest) \<Rightarrow>
               (if q1 \<noteq> q2 then take (length s - length rest) s
                else ''CAST('' @ [q1] @ ''NAN'' @ [q1] @ '' AS '' @ ty @ '')'') @ nan_from False rest
           | None \<Rightarrow> c # nan_from (isIdentCont c) cs))"
  by pat_completeness auto
termination
  by (relation "measure (\<lambda>(w, s). length s)") (auto dest!: signedNaNCastRe_length split: if_splits)

declare nan_from.simps [simp del]

definition applySignedNaNCast :: "string \<Rightarrow> string" where
  "applySignedNaNCast query =
     (if CHR ''N'' \<notin> set query \<and> CHR ''n'' \<notin> set query then query else nan_from False query)"

lemma fold_rest_word: "EqualFold_word v w \<Longrightarrow> length v = length w \<Longrightarrow> fold_rest w (v @ r) = Some r"
  by (simp add: fold_rest_def upt_conv_Cons del: upt_Suc)

lemma fold_rest_other:
  assumes "lower_char c \<noteq> d" "d \<noteq> CHR ''s''" "d \<noteq> CHR ''k''"
  shows "fold_rest (d # w) (c # s) = None"
proof -
  have "\<not> EqualFold_word (take n (c # s)) (d # w)" for n using assms by (cases n) auto
  then show ?thesis by (simp add: fold_rest_def filter_False del: upt_Suc take_Suc_Cons)
qed

lemma signed_nan_cast:
  assumes "is_quote q" "sg = CHR ''+'' \<or> sg = CHR ''-''"
  shows "applySignedNaNCast (''CAST('' @ [q, sg] @ ''NAN'' @ [q] @ '' AS FLOAT64)'' @ rest)
    = ''CAST('' @ [q] @ ''NAN'' @ [q] @ '' AS FLOAT64)'' @ nan_from False rest"
proof -
  have q: "\<not> re_space q" using assms(1) by (auto simp: is_quote_def re_space_def)
  have l: "lower_char (CHR ''C'') = CHR ''c''" "lower_char (CHR ''A'') = CHR ''a''" "lower_char (CHR ''S'') = CHR ''s''"
    "lower_char (CHR ''T'') = CHR ''t''" "lower_char (CHR ''N'') = CHR ''n''" "lower_char (CHR ''F'') = CHR ''f''"
    "lower_char (CHR ''L'') = CHR ''l''" "lower_char (CHR ''O'') = CHR ''o''" "lower_char (CHR ''6'') = CHR ''6''"
    "lower_char (CHR ''4'') = CHR ''4''"
    by (simp_all add: lower_char_def char_of_eq_iff)
  note w = fold_rest_word [of "''CAST''" "''cast''"] fold_rest_word [of "''NAN''" "''nan''"]
    fold_rest_word [of "''AS''" "''as''"] fold_rest_word [of "''FLOAT64''" "''float64''"]
  have "nan_types (''FLOAT64)'' @ rest) = Some (''FLOAT64'', rest)"
    using w(4) [of "CHR '')'' # rest"] l
    by (simp add: nan_types_def nan_type_def fold_rest_other space_char_def next_char_def re_space_def)
  then have "signedNaNCastRe (''CAST('' @ [q, sg] @ ''NAN'' @ [q] @ '' AS FLOAT64)'' @ rest) = Some (q, q, ''FLOAT64'', rest)"
    using w(1) [of "CHR ''('' # q # sg # ''NAN'' @ q # '' AS FLOAT64)'' @ rest"] w(2) [of "q # '' AS FLOAT64)'' @ rest"]
      w(3) [of "'' FLOAT64)'' @ rest"] assms q l
    by (simp add: signedNaNCastRe_def space_char_def next_char_def some_space_def re_space_def)
  then show ?thesis by (subst applySignedNaNCast_def, subst nan_from.simps) simp
qed

text \<open>The first part of the pipeline, which runs its steps in order.\<close>

definition sqlRewritePipelinePreScriptVars :: "(string \<Rightarrow> string option) list" where
  "sqlRewritePipelinePreScriptVars = map (\<lambda>fn query. Some (fn query))
     [applyTypeNameAliases, applyNaiveTimestampUTC, applyIngestionPartitionRewrite, applySignedNaNCast]"

text \<open>A step may have no result, when its loop does not end.\<close>

definition applySQLRewritePipeline :: "string \<Rightarrow> (string \<Rightarrow> string option) list \<Rightarrow> string option" where
  "applySQLRewritePipeline query steps = foldl Option.bind (Some query) steps"

section \<open>Zones\<close>

lemma takeWhile_drop: "takeWhile P xs @ drop (length (takeWhile P xs)) xs = xs"
  by (metis append_eq_conv_conj takeWhile_dropWhile_id)

lemma take1_eq: "take 1 xs = [c] \<Longrightarrow> xs = c # drop 1 xs"
  by (cases xs) auto

lemma strip_tail_decomp: "\<exists>w. s = strip_tail s @ w \<and> list_all re_space w"
  unfolding strip_tail_def
  by (metis list_all_iff rev_append rev_rev_ident set_rev set_takeWhileD takeWhile_dropWhile_id)

lemma dateOnlyRe_chars:
  assumes "dateOnlyRe s" "c \<in> set s"
  shows "is_digit c \<or> c = CHR ''-'' \<or> re_space c"
proof -
  define t where "t = strip_tail (dropWhile re_space s)"
  define y where "y = takeWhile is_digit t"
  define r1 where "r1 = drop (length y) t"
  define m where "m = takeWhile is_digit (drop 1 r1)"
  define r2 where "r2 = drop (length m) (drop 1 r1)"
  define d where "d = drop 1 r2"
  have h: "take 1 r1 = ''-''" "digits_upto 2 m" "take 1 r2 = ''-''" "digits_upto 2 d"
    using assms(1) unfolding dateOnlyRe_def Let_def d_def r2_def m_def r1_def y_def t_def by blast+
  have "t = y @ r1" unfolding y_def r1_def by (rule takeWhile_drop [symmetric])
  moreover have "r1 = CHR ''-'' # drop 1 r1" by (rule take1_eq [OF h(1)])
  moreover have "drop 1 r1 = m @ r2" unfolding m_def r2_def by (rule takeWhile_drop [symmetric])
  moreover have "r2 = CHR ''-'' # d" using take1_eq [OF h(3)] by (simp add: d_def)
  ultimately have "t = y @ CHR ''-'' # m @ CHR ''-'' # d" by metis
  moreover have "\<forall>c \<in> set y. is_digit c" unfolding y_def by (auto dest: set_takeWhileD)
  ultimately have t: "\<forall>c \<in> set t. is_digit c \<or> c = CHR ''-''"
    using h(2,4) by (auto simp: digits_upto_def list_all_iff)
  obtain w where "dropWhile re_space s = t @ w" "list_all re_space w"
    using strip_tail_decomp [of "dropWhile re_space s"] unfolding t_def by blast
  then have "s = takeWhile re_space s @ t @ w" by (metis takeWhile_dropWhile_id)
  then have "set s = set (takeWhile re_space s) \<union> set t \<union> set w" by (metis set_append Un_assoc)
  then show ?thesis using assms(2) t \<open>list_all re_space w\<close> by (auto simp: list_all_iff dest: set_takeWhileD)
qed

lemma colon_not_date: "CHR '':'' \<in> set s \<Longrightarrow> \<not> dateOnlyRe s"
  using dateOnlyRe_chars [of s "CHR '':''"] by (auto simp: is_digit_def re_space_def)

lemma zone_suffix_has_zone: "timestampHasTZ (s @ naiveUTCSuffix s)"
proof -
  have tail: "tzOffsetTail (x @ ''+00:00'')" for x
    by (simp add: tzOffsetTail_def strip_tail_def re_space_def is_digit_def)
  have "timestampHasTZ (x @ ''+00:00'')" for x
    using colon_not_date [of "x @ ''+00:00''"] tail [of x] by (simp add: timestampHasTZ_def)
  from this [of s] this [of "s @ '' 00:00:00''"] show ?thesis by (simp add: naiveUTCSuffix_def)
qed

section \<open>Placeholders\<close>

text \<open>The query as text and placeholders: \<open>Inr ()\<close> is a question mark outside quotes.\<close>

function marks_from :: "string \<Rightarrow> nat \<Rightarrow> (string + unit) list" where
  "marks_from query i =
     (if i < length query then
        if is_quote (query ! i) then
          Inl (subslice query i (scanStringLiteral query i)) # marks_from query (scanStringLiteral query i)
        else if query ! i = CHR 0x60 then
          Inl (subslice query i (quoted_name_end query i)) # marks_from query (quoted_name_end query i)
        else if query ! i = CHR ''?'' then Inr () # marks_from query (i + 1)
        else Inl [query ! i] # marks_from query (i + 1)
      else [])"
  by pat_completeness auto
termination
  by (relation "measure (\<lambda>(s, i). length s - i)")
     (auto intro!: diff_less_mono2 scanStringLiteral_bounds(1) quoted_name_end_bounds(1))

declare marks_from.simps [simp del]

text \<open>The text with the placeholders numbered from \<open>n + 1\<close>, and the original text.\<close>

fun number_marks :: "nat \<Rightarrow> (string + unit) list \<Rightarrow> string" where
  "number_marks n [] = []"
| "number_marks n (Inl s # ms) = s @ number_marks n ms"
| "number_marks n (Inr _ # ms) = (''@gsl_pos_'' @ dec_nat (n + 1)) @ number_marks (n + 1) ms"

definition mark_text :: "string + unit \<Rightarrow> string" where
  "mark_text m = (case m of Inl s \<Rightarrow> s | Inr _ \<Rightarrow> ''?'')"

lemma mark_text_simps [simp]: "mark_text (Inl s) = s" "mark_text (Inr u) = ''?''"
  by (simp_all add: mark_text_def)

definition placeholders :: "(string + unit) list \<Rightarrow> nat" where
  "placeholders ms = length (filter (\<lambda>m. m = Inr ()) ms)"

lemma placeholders_simps [simp]:
  "placeholders [] = 0" "placeholders (Inl s # ms) = placeholders ms"
  "placeholders (Inr u # ms) = Suc (placeholders ms)"
  by (simp_all add: placeholders_def)

lemma mixed_from_marks:
  "mixed_from query i n = (number_marks n (marks_from query i), n + placeholders (marks_from query i))"
proof (induction query i n rule: mixed_from.induct)
  case (1 query i n)
  then show ?case by (subst mixed_from.simps, subst (1 2) marks_from.simps) (simp add: Let_def)
qed

lemma marks_lossless: "i \<le> length query \<Longrightarrow> concat (map mark_text (marks_from query i)) = drop i query"
proof (induction query i rule: marks_from.induct)
  case (1 query i)
  show ?case
  proof (cases "i < length query")
    case True
    note b = scanStringLiteral_bounds [OF True] quoted_name_end_bounds [OF True]
    have c: "query ! i = CHR ''?'' \<Longrightarrow> CHR ''?'' # drop (Suc i) query = drop i query"
      using Cons_nth_drop_Suc [OF True] by metis
    show ?thesis using 1 True b subslice_drop [of i _ query] c
      by (subst marks_from.simps) (auto simp: Cons_nth_drop_Suc)
  qed (subst marks_from.simps, use 1 in simp)
qed

lemma name_positional_values: "map snd (name_positional n args) = map snd args"
  by (induction n args rule: name_positional.induct) auto

lemma length_name_positional [simp]: "length (name_positional n args) = length args"
  by (induction n args rule: name_positional.induct) auto

text \<open>The names given to the positional arguments, in order.\<close>

definition positional_names :: "(string \<times> 'v) list \<Rightarrow> (string \<times> 'v) list \<Rightarrow> string list" where
  "positional_names args args' = map (\<lambda>(a, a'). fst a') (filter (\<lambda>(a, a'). fst a = []) (zip args args'))"

lemma name_positional_names:
  "positional_names args (name_positional n args)
     = map (\<lambda>k. ''gsl_pos_'' @ dec_nat k) [n + 1..<n + 1 + length (filter (\<lambda>a. fst a = []) args)]"
proof (induction n args rule: name_positional.induct)
  case (2 n name v args)
  then show ?case by (auto simp: positional_names_def upt_conv_Cons simp del: upt_Suc)
qed (simp add: positional_names_def)

lemma name_positional_named: "i < length args \<Longrightarrow> fst (args ! i) \<noteq> [] \<Longrightarrow> name_positional n args ! i = args ! i"
proof (induction n args arbitrary: i rule: name_positional.induct)
  case (2 n name v args)
  then show ?case by (cases i) auto
qed simp

section \<open>Properties\<close>

text \<open>
  The alias rewrite works word by word: a query splits into literals, backtick names, words and
  single bytes whose texts together are the query, the result is the query itself or the same
  pieces with some words replaced, and a word is replaced only when it is one of the alias names
  in a type position, by BIGNUMERIC or INT64. The pieces of the ingestion-time rewrite are treated
  likewise.\<close>

theorem rewrite_words_only:
  "concat (map (token_text subslice q) (tokens_from p q 0)) = q
   \<and> applyTypeNameAliases q = (if typeAliasNeedle q
        then concat (map (token_text alias_word q) (tokens_from True q 0)) else q)
   \<and> (alias_word q i j \<noteq> subslice q i j \<longrightarrow>
        isAliasInTypePosition q i j \<and> type_name_alias (upper_word (subslice q i j)) = Some (alias_word q i j))
   \<and> copy_from False partition_word q 0 = concat (map (token_text partition_word q) (tokens_from False q 0))"
  by (auto simp: tokens_lossless applyTypeNameAliases_def copy_from_tokens alias_word_def split: option.splits)

theorem rewrite_words_only_witness:
  "alias_word ''CAST(x AS INT)'' 10 13 = ''INT64''
   \<and> concat (map (token_text subslice ''CAST(x AS INT)'') (tokens_from True ''CAST(x AS INT)'' 0)) = ''CAST(x AS INT)''"
proof -
  have up: "upper_char (CHR ''I'') = CHR ''I''" "upper_char (CHR ''N'') = CHR ''N''" "upper_char (CHR ''T'') = CHR ''T''"
    by (simp_all add: upper_char_def byte_in_def)
  have "subslice ''CAST(x AS INT)'' 10 13 = ''INT''" by (simp add: subslice_def)
  then have "alias_word ''CAST(x AS INT)'' 10 13 = ''INT64''"
    by (simp add: alias_word_def upper_word_def up type_name_alias_def isAliasInTypePosition_def
        isSpaceByte_def isIdentStart_def byte_in_def numeral_eq_Suc)
  then show ?thesis using rewrite_words_only [of "''CAST(x AS INT)''" True] by simp
qed

text \<open>
  C29. Positional and named parameters in one query: the query is text with question marks outside
  quotes, and when the rewrite applies the k-th question mark becomes the parameter
  \<open>@gsl_pos_k\<close> while the k-th positional argument gets the name \<open>gsl_pos_k\<close>; named arguments, the
  values and their order stay. A query without such a question mark comes back unchanged.\<close>

theorem mixed_parameters_match:
  assumes "applyMixedParameterRewrite query args = (q, args')"
  shows "concat (map mark_text (marks_from query 0)) = query
    \<and> (q = query \<and> args' = args
       \<or> q = number_marks 0 (marks_from query 0) \<and> 0 < placeholders (marks_from query 0)
         \<and> positional_names args args'
             = map (\<lambda>k. ''gsl_pos_'' @ dec_nat k) [1..<1 + length (filter (\<lambda>a. fst a = []) args)]
         \<and> map snd args' = map snd args)
    \<and> (i < length args \<and> fst (args ! i) \<noteq> [] \<longrightarrow> args' ! i = args ! i)"
  using assms name_positional_names [of args 0] name_positional_values [of 0 args] name_positional_named [of i args 0]
  by (auto simp: applyMixedParameterRewrite_def mixed_from_marks marks_lossless Let_def split: if_splits)

theorem mixed_parameters_match_witness:
  "applyMixedParameterRewrite ''? + @a + ?'' [([], 1), (''a'', 2), ([], 3)]
     = (''@gsl_pos_1 + @a + @gsl_pos_2'', [(''gsl_pos_1'', 1), (''a'', 2), (''gsl_pos_2'', 3 :: int)])
   \<and> concat (map mark_text (marks_from ''? + @a + ?'' 0)) = ''? + @a + ?''"
proof -
  have d: "dec_nat (Suc 0) = ''1''" "dec_nat 2 = ''2''" "dec_nat (Suc (Suc 0)) = ''2''"
    by (simp_all add: dec_nat.simps digit_char_def char_of_eq_iff)
  have "mixed_from ''? + @a + ?'' 0 0 = (''@gsl_pos_1 + @a + @gsl_pos_2'', 2)"
    by (simp add: mixed_from.simps is_quote_def d Let_def)
  then have e: "applyMixedParameterRewrite ''? + @a + ?'' [([], 1), (''a'', 2), ([], 3)]
     = (''@gsl_pos_1 + @a + @gsl_pos_2'', [(''gsl_pos_1'', 1), (''a'', 2), (''gsl_pos_2'', 3 :: int)])"
    by (simp add: applyMixedParameterRewrite_def d)
  then show ?thesis using mixed_parameters_match [OF e, of 0] by simp
qed

text \<open>
  TIMESTAMP literals: appending the suffix gives a literal with a zone, so a literal without
  one is rewritten to a literal with one and rewriting again changes nothing; a literal that has a
  zone is copied. The bounds of a RANGE literal are treated likewise.\<close>

theorem naive_timestamp_zoned:
  "timestampHasTZ (s @ naiveUTCSuffix s)
   \<and> (TrimSpace part \<noteq> [] \<longrightarrow>
        utc_bound part = TrimSpace part \<and> (EqualFold_word (TrimSpace part) ''unbounded''
          \<or> EqualFold_word (TrimSpace part) ''null'' \<or> timestampHasTZ (TrimSpace part))
        \<or> timestampHasTZ (utc_bound part))"
  using zone_suffix_has_zone [of s] zone_suffix_has_zone [of "TrimSpace part"] by (simp add: utc_bound_def Let_def)

theorem naive_timestamp_zoned_witness:
  "timestampHasTZ (''2024-01-01 10:00:00'' @ naiveUTCSuffix ''2024-01-01 10:00:00'')"
  using naive_timestamp_zoned [of "''2024-01-01 10:00:00''" "[]"] by blast

text \<open>
  The lexical test for a type position refuses a column type that another word follows, and
  every field of a STRUCT type but the first: INT in \<open>a INT NOT NULL\<close> and in
  \<open>STRUCT<STRING, INT>\<close> stays.\<close>

lemma alias_position_defects:
  "alias_word ''(a INT NOT NULL)'' 3 6 = ''INT'' \<and> alias_word ''STRUCT<STRING, INT>'' 15 18 = ''INT''"
proof -
  have "subslice ''(a INT NOT NULL)'' 3 6 = ''INT''" "subslice ''STRUCT<STRING, INT>'' 15 18 = ''INT''"
    by (simp_all add: subslice_def)
  then show ?thesis
    by (simp add: alias_word_def isAliasInTypePosition_def isSpaceByte_def isIdentStart_def byte_in_def
        numeral_eq_Suc split: option.splits)
qed

end
