(* ===== verification/Script_Vars.thy ===== *)
theory Script_Vars
  imports Sql_Rewrite "HOL-Library.AList"
begin

text \<open>
  Script variables, \<open>src/internal/script_vars.go\<close>: the split of a script into statements, DECLARE and
  SET, and the substitution of variables into the remaining statements. The variables are a
  field of the connection, an association list here. SQLite, which evaluates the expression of a
  variable, and the printing of its floating-point results are parameters.
\<close>

section \<open>Quotes and comments\<close>

text \<open>The first occurrence of a text, \<open>strings.Index\<close>.\<close>

fun index_of :: "string \<Rightarrow> string \<Rightarrow> nat option" where
  "index_of p [] = (if p = [] then Some 0 else None)"
| "index_of p (c # s) = (if prefix p (c # s) then Some 0 else map_option Suc (index_of p s))"

text \<open>
  The scanners work on the rest of the query, \<open>query[i:]\<close>, and count bytes. The first is the loop of
  \<open>scanQuoted\<close> behind the opening quote.
\<close>

fun quoted_len :: "char \<Rightarrow> string \<Rightarrow> nat" where
  "quoted_len q [] = 0"
| "quoted_len q [c] = 1"
| "quoted_len q (c # d # s) =
     (if c = CHR 0x5C \<and> q \<noteq> CHR 0x60 then 2 + quoted_len q s
      else if c = q then 1
      else 1 + quoted_len q (d # s))"

definition scanQuoted :: "string \<Rightarrow> nat \<Rightarrow> char \<Rightarrow> nat" where
  "scanQuoted query start quote' = start + 1 + quoted_len quote' (drop (start + 1) query)"

definition skip_len :: "string \<Rightarrow> nat option" where
  "skip_len s =
     (case s of
        [] \<Rightarrow> None
      | c # r \<Rightarrow>
          if is_quote c then
            (if prefix [c, c, c] s then
               Some (case index_of [c, c, c] (drop 3 s) of Some e \<Rightarrow> 3 + e + 3 | None \<Rightarrow> length s)
             else Some (1 + quoted_len c r))
          else if c = CHR 0x60 then Some (1 + quoted_len c r)
          else if c = CHR ''#'' \<or> prefix ''--'' s then
            Some (case IndexByte s (CHR 0x0A) of Some e \<Rightarrow> e | None \<Rightarrow> length s)
          else if prefix ''/*'' s then
            Some (case index_of ''*/'' (drop 2 s) of Some e \<Rightarrow> 2 + e + 2 | None \<Rightarrow> length s)
          else None)"

definition skipLiteralOrComment :: "string \<Rightarrow> nat \<Rightarrow> nat option" where
  "skipLiteralOrComment query i = map_option (\<lambda>n. i + n) (skip_len (drop i query))"

lemma index_of_length: "index_of p s = Some e \<Longrightarrow> e + length p \<le> length s"
proof (induction p s arbitrary: e rule: index_of.induct)
  case (2 p c s)
  then show ?case by (auto dest: prefix_length_le split: if_splits)
qed (simp split: if_splits)

lemma quoted_len_le: "quoted_len q s \<le> length s"
  by (induction q s rule: quoted_len.induct) auto

lemma IndexByte_bounds: "IndexByte s c = Some e \<Longrightarrow> e < length s"
  by (induction s arbitrary: e) (auto simp: IndexByte_def split: if_splits)

lemma skip_len_bounds:
  assumes "skip_len s = Some n"
  shows "0 < n" "n \<le> length s"
proof -
  obtain c r where s: "s = c # r" using assms by (cases s) (auto simp: skip_len_def)
  have e: "3 + e + 3 \<le> length s" if "prefix [c, c, c] s" "index_of [c, c, c] (drop 3 s) = Some e" for e
    using index_of_length [OF that(2)] prefix_length_le [OF that(1)] by simp
  have f: "2 + e + 2 \<le> length s" if "prefix ''/*'' s" "index_of ''*/'' (drop 2 s) = Some e" for e
    using index_of_length [OF that(2)] prefix_length_le [OF that(1)] by simp
  have "0 < e" if "IndexByte s (CHR 0x0A) = Some e" "c \<noteq> CHR 0x0A" for e
    using that s by (auto simp: IndexByte_def split: if_splits)
  moreover have "c \<noteq> CHR 0x0A" if "c = CHR ''#'' \<or> prefix ''--'' s" using that s by auto
  ultimately show "0 < n" using assms s by (auto simp: skip_len_def split: if_splits option.splits)
  have "1 + quoted_len q r \<le> length s" for q using quoted_len_le [of q r] s by simp
  then show "n \<le> length s" using assms s e f IndexByte_bounds [of s "CHR 0x0A"]
    by (auto simp: skip_len_def split: if_splits option.splits)
qed

section \<open>Statements\<close>

text \<open>The statement read so far and the rest of the query.\<close>

function split_from :: "string \<Rightarrow> string \<Rightarrow> string list" where
  "split_from cur s =
     (case s of
        [] \<Rightarrow> if cur = [] then [] else [cur]
      | c # r \<Rightarrow>
          (case skip_len s of
             Some n \<Rightarrow> split_from (cur @ take n s) (drop n s)
           | None \<Rightarrow> if c = CHR '';'' then cur # split_from [] r else split_from (cur @ [c]) r))"
  by pat_completeness auto
termination
  by (relation "measure (\<lambda>(cur, s). length s)") (auto dest: skip_len_bounds)

declare split_from.simps [simp del]

definition splitTopLevelStatements :: "string \<Rightarrow> string list" where
  "splitTopLevelStatements query = split_from [] query"

section \<open>DECLARE and SET\<close>

definition TrimLeftSpace :: "string \<Rightarrow> string" where
  "TrimLeftSpace s = trim_left utf8_space_seqs s"

definition lower_word :: "string \<Rightarrow> string" where
  "lower_word w = map lower_char w"

text \<open>The keyword is given in lower case.\<close>

definition matchKeyword :: "string \<Rightarrow> string \<Rightarrow> string option" where
  "matchKeyword stmt0 kw =
     (let stmt = TrimLeftSpace stmt0 in
      if length stmt < length kw then None
      else if \<not> EqualFold_word (take (length kw) stmt) kw then None
      else if length stmt > length kw \<and> isIdentCont (stmt ! length kw) then None
      else Some (drop (length kw) stmt))"

function indexOfKeyword_from :: "string \<Rightarrow> string \<Rightarrow> nat \<Rightarrow> nat option" where
  "indexOfKeyword_from s kw i =
     (if i < length s then
        let c = s ! i in
        if is_quote c \<or> c = CHR 0x60 then indexOfKeyword_from s kw (scanQuoted s i c)
        else if isIdentStart c then
          (let j = ident_end s i in
           if EqualFold_word (subslice s i j) kw then Some i else indexOfKeyword_from s kw j)
        else indexOfKeyword_from s kw (i + 1)
      else None)"
  by pat_completeness auto
termination
  by (relation "measure (\<lambda>(s, kw, i). length s - i)")
     (auto simp: scanQuoted_def intro!: diff_less_mono2 ident_end_bounds(1))

declare indexOfKeyword_from.simps [simp del]

definition indexOfKeyword :: "string \<Rightarrow> string \<Rightarrow> nat option" where
  "indexOfKeyword s kw = indexOfKeyword_from s kw 0"

definition scanIdent :: "string \<Rightarrow> nat" where
  "scanIdent s = (if length s = 0 \<or> \<not> isIdentStart (s ! 0) then 0 else skip_while isIdentCont s 1)"

definition TrimSemicolon :: "string \<Rightarrow> string" where
  "TrimSemicolon s = (if s \<noteq> [] \<and> last s = CHR '';'' then butlast s else s)"

text \<open>The name in lower case and the text of the expression.\<close>

definition parseDeclare :: "string \<Rightarrow> (string \<times> string) option" where
  "parseDeclare stmt =
     (case matchKeyword stmt ''declare'' of
        None \<Rightarrow> None
      | Some rest0 \<Rightarrow>
          let rest1 = TrimLeftSpace rest0; identEnd = scanIdent rest1 in
          if identEnd = 0 then None
          else let name = lower_word (take identEnd rest1); rest = TrimLeftSpace (drop identEnd rest1) in
            (case indexOfKeyword rest ''default'' of
               None \<Rightarrow> Some (name, ''NULL'')
             | Some d \<Rightarrow>
                 let expr = TrimSpace (TrimSemicolon (TrimSpace (drop (d + 7) rest))) in
                 Some (name, if expr = [] then ''NULL'' else expr)))"

definition parseAssignment :: "string \<Rightarrow> (string \<times> string) option" where
  "parseAssignment stmt =
     (case matchKeyword stmt ''set'' of
        None \<Rightarrow> None
      | Some rest0 \<Rightarrow>
          let rest1 = TrimLeftSpace rest0 in
          if prefix ''@@'' rest1 then None
          else let identEnd = scanIdent rest1 in
          if identEnd = 0 then None
          else let name = lower_word (take identEnd rest1); rest = TrimLeftSpace (drop identEnd rest1) in
            if \<not> prefix ''='' rest then None
            else let expr = TrimSpace (TrimSemicolon (TrimSpace (drop 1 rest))) in
              if expr = [] then None else Some (name, expr))"

section \<open>Variables\<close>

type_synonym script_vars = "(string \<times> string) list"

definition SetScriptVariable :: "script_vars \<Rightarrow> string \<Rightarrow> string \<Rightarrow> script_vars" where
  "SetScriptVariable vars name exprSQL = AList.update (lower_word name) exprSQL vars"

definition ScriptVariable :: "script_vars \<Rightarrow> string \<Rightarrow> string option" where
  "ScriptVariable vars name = map_of vars (lower_word name)"

text \<open>The text that replaces the word \<open>stmt[i:j]\<close>; a word before a parenthesis is a function name.\<close>

definition variable_word :: "script_vars \<Rightarrow> string \<Rightarrow> nat \<Rightarrow> nat \<Rightarrow> string" where
  "variable_word vars stmt i j =
     (case ScriptVariable vars (lower_word (subslice stmt i j)) of
        Some expr \<Rightarrow>
          (let k = skip_while (\<lambda>c. c = CHR '' '' \<or> c = CHR 0x09) stmt j in
           if k < length stmt \<and> stmt ! k = CHR ''('' then subslice stmt i j else expr)
      | None \<Rightarrow> subslice stmt i j)"

text \<open>
  The loop of the substitution, as the list of its pieces: a literal or comment, an accessor with
  its field, a word, or one byte.
\<close>

function script_tokens :: "string \<Rightarrow> nat \<Rightarrow> token list" where
  "script_tokens stmt i =
     (if i < length stmt then
        (case skipLiteralOrComment stmt i of
           Some e \<Rightarrow> Verbatim (subslice stmt i e) # script_tokens stmt e
         | None \<Rightarrow>
             if stmt ! i = CHR ''.'' then
               (let j = skip_while isIdentCont stmt (i + 1)
                in Verbatim (stmt ! i # subslice stmt (i + 1) j) # script_tokens stmt j)
             else if isIdentStart (stmt ! i) \<and> (i = 0 \<or> \<not> isIdentCont (stmt ! (i - 1))) then
               Word i (ident_end stmt i) # script_tokens stmt (ident_end stmt i)
             else Verbatim [stmt ! i] # script_tokens stmt (i + 1))
      else [])"
  by pat_completeness auto
termination
proof (relation "measure (\<lambda>(s, i). length s - i)", goal_cases)
  case (2 stmt i j)
  then show ?case using skip_while_ge [of "i + 1" isIdentCont stmt] by auto
next
  case (5 stmt i e)
  then show ?case by (auto simp: skipLiteralOrComment_def dest: skip_len_bounds)
qed (auto intro!: diff_less_mono2 ident_end_bounds(1))

declare script_tokens.simps [simp del]

definition substituteScriptVariables :: "string \<Rightarrow> script_vars \<Rightarrow> string" where
  "substituteScriptVariables stmt vars =
     (if vars = [] then stmt
      else concat (map (token_text (variable_word vars) stmt) (script_tokens stmt 0)))"

text \<open>The value of \<open>SELECT expr\<close>, or no value when the query fails.\<close>

datatype 'f sql_value = SNull | SInt int | SFloat 'f | SBool bool | SText string | SBytes string | SOther

definition quote_script_text :: "string \<Rightarrow> string" where
  "quote_script_text v =
     [CHR 0x22] @ concat (map (\<lambda>c. if c = CHR 0x22 then [CHR 0x5C, CHR 0x22] else [c]) v) @ [CHR 0x22]"

definition evaluateScriptVariableExpr ::
  "(string \<Rightarrow> 'f sql_value option) \<Rightarrow> ('f \<Rightarrow> string) \<Rightarrow> string \<Rightarrow> string" where
  "evaluateScriptVariableExpr query_row formatFloat expr0 =
     (let expr = TrimSpace expr0 in
      if expr = [] then ''NULL''
      else (case query_row (''SELECT '' @ expr) of
              None \<Rightarrow> ''('' @ expr @ '')''
            | Some SNull \<Rightarrow> ''NULL''
            | Some (SInt v) \<Rightarrow> dec_int v
            | Some (SFloat v) \<Rightarrow> formatFloat v
            | Some (SBool v) \<Rightarrow> if v then ''TRUE'' else ''FALSE''
            | Some (SText v) \<Rightarrow> quote_script_text v
            | Some (SBytes v) \<Rightarrow> quote_script_text v
            | Some SOther \<Rightarrow> ''('' @ expr @ '')''))"

text \<open>One statement: the new variables and the statement that is kept, if any.\<close>

definition script_statement ::
  "(string \<Rightarrow> 'f sql_value option) \<Rightarrow> ('f \<Rightarrow> string) \<Rightarrow> string \<Rightarrow> script_vars \<Rightarrow> script_vars \<times> string option" where
  "script_statement query_row formatFloat stmt vars =
     (let trimmed = TrimSpace stmt;
          lit = (\<lambda>expr. evaluateScriptVariableExpr query_row formatFloat (substituteScriptVariables expr vars));
          kept = (vars, Some (substituteScriptVariables stmt vars))
      in if trimmed = [] then (vars, None)
         else (case parseDeclare trimmed of
                 Some (name, expr) \<Rightarrow> (SetScriptVariable vars name (lit expr), None)
               | None \<Rightarrow>
                   (case parseAssignment trimmed of
                      Some (name, expr) \<Rightarrow>
                        if ScriptVariable vars name \<noteq> None then (SetScriptVariable vars name (lit expr), None)
                        else kept
                    | None \<Rightarrow> kept)))"

fun script_loop ::
  "(string \<Rightarrow> 'f sql_value option) \<Rightarrow> ('f \<Rightarrow> string) \<Rightarrow> string list \<Rightarrow> script_vars \<Rightarrow> script_vars \<times> string list" where
  "script_loop query_row formatFloat [] vars = (vars, [])"
| "script_loop query_row formatFloat (stmt # stmts) vars =
     (case script_statement query_row formatFloat stmt vars of
        (vars', kept) \<Rightarrow>
          (case script_loop query_row formatFloat stmts vars' of
             (vars'', keep) \<Rightarrow> (vars'', (case kept of None \<Rightarrow> keep | Some s \<Rightarrow> s # keep))))"

fun join_with :: "string \<Rightarrow> string list \<Rightarrow> string" where
  "join_with sep [] = []"
| "join_with sep [s] = s"
| "join_with sep (s # t # ss) = s @ sep @ join_with sep (t # ss)"

text \<open>Without a connection the query is returned as it is.\<close>

definition applyScriptVariables ::
  "(string \<Rightarrow> 'f sql_value option) \<Rightarrow> ('f \<Rightarrow> string) \<Rightarrow> string \<Rightarrow> script_vars option
     \<Rightarrow> string \<times> script_vars option" where
  "applyScriptVariables query_row formatFloat query conn =
     (case conn of
        None \<Rightarrow> (query, None)
      | Some vars \<Rightarrow>
          (let stmts = splitTopLevelStatements query in
           if stmts = [] then (query, Some vars)
           else (case script_loop query_row formatFloat stmts vars of
                   (vars', keep) \<Rightarrow>
                     (if keep = [] then ''SELECT 1'' else join_with '';'' keep, Some vars'))))"

section \<open>Splitting\<close>

text \<open>A text without a semicolon outside quotes and comments.\<close>

function no_separator :: "string \<Rightarrow> bool" where
  "no_separator s =
     (case s of
        [] \<Rightarrow> True
      | c # r \<Rightarrow> (case skip_len s of Some n \<Rightarrow> no_separator (drop n s) | None \<Rightarrow> c \<noteq> CHR '';'' \<and> no_separator r))"
  by pat_completeness auto
termination
  by (relation "measure length") (auto dest: skip_len_bounds)

declare no_separator.simps [simp del]

text \<open>A scan that stops inside a prefix of the text does not depend on what follows the prefix.\<close>

lemma index_of_app:
  "index_of p (s @ t) = Some e \<Longrightarrow> e + length p \<le> length s \<Longrightarrow> index_of p s = Some e"
proof (induction s arbitrary: e)
  case Nil
  then show ?case by (cases t) (auto split: if_splits)
next
  case (Cons c s)
  show ?case
  proof (cases "prefix p (c # s @ t)")
    case True
    then have "length p \<le> length (c # s)" using Cons.prems by simp
    then have "prefix p (c # s)" using True prefix_length_prefix [of p "(c # s) @ t" "c # s"] by simp
    then show ?thesis using Cons.prems True by simp
  next
    case False
    then have "\<not> prefix p (c # s)" using prefix_order.trans [of p "c # s" "c # s @ t"] by auto
    then show ?thesis using Cons False by auto
  qed
qed

lemma quoted_len_app: "quoted_len q (s @ t) \<le> length s \<Longrightarrow> quoted_len q s = quoted_len q (s @ t)"
proof (induction q s rule: quoted_len.induct)
  case (1 q)
  then show ?case by simp
next
  case (2 q c)
  then show ?case by (cases t) (auto split: if_splits)
qed (auto split: if_splits)

lemma IndexByte_prefix: "IndexByte (s @ t) c = Some e \<Longrightarrow> e < length s \<Longrightarrow> IndexByte s c = Some e"
  by (auto simp: IndexByte_def takeWhile_append split: if_splits)

lemma prefix_app_iff: "length p \<le> length s \<Longrightarrow> prefix p (s @ t) = prefix p s"
  using prefix_length_prefix [of p "s @ t" s] by (auto simp: prefix_prefix)

lemma quoted_len_pos: "s \<noteq> [] \<Longrightarrow> 0 < quoted_len q s"
  by (induction q s rule: quoted_len.induct) auto

lemma backtick_not_quote [simp]: "\<not> is_quote (CHR 0x60)"
  by (simp add: is_quote_def)

lemma skip_len_app:
  assumes "skip_len (s @ t) = Some n" "n \<le> length s"
  shows "skip_len s = Some n"
proof (cases "t = []")
  case False
  have n: "n < length (s @ t)" using assms(2) False by (cases t) auto
  obtain c r where s: "s = c # r" using assms skip_len_bounds(1) [OF assms(1)] by (cases s) auto
  have sub: "prefix p s \<Longrightarrow> prefix p (s @ t)" for p by (simp add: prefix_prefix)
  consider (triple) "is_quote c" "prefix [c, c, c] (s @ t)"
    | (single) "is_quote c \<or> c = CHR 0x60" "\<not> (is_quote c \<and> prefix [c, c, c] (s @ t))"
    | (line) "\<not> is_quote c" "c \<noteq> CHR 0x60" "c = CHR ''#'' \<or> prefix ''--'' (s @ t)"
    | (block) "\<not> is_quote c" "c \<noteq> CHR 0x60" "\<not> (c = CHR ''#'' \<or> prefix ''--'' (s @ t))" "prefix ''/*'' (s @ t)"
    | (none) "\<not> is_quote c" "c \<noteq> CHR 0x60" "\<not> (c = CHR ''#'' \<or> prefix ''--'' (s @ t))" "\<not> prefix ''/*'' (s @ t)"
    by blast
  then show ?thesis
  proof cases
    case triple
    then obtain e where e: "index_of [c, c, c] (drop 3 (s @ t)) = Some e" "n = 3 + e + 3"
      using assms(1) s n by (auto simp: skip_len_def split: option.splits)
    then have "3 \<le> length s" using assms(2) by simp
    then have "prefix [c, c, c] s" "index_of [c, c, c] (drop 3 s) = Some e"
      using triple(2) prefix_app_iff [of "[c, c, c]" s t] index_of_app [of "[c, c, c]" "drop 3 s" t e] e assms(2) by auto
    then show ?thesis using triple(1) s e(2) by (simp add: skip_len_def)
  next
    case single
    then have "n = 1 + quoted_len c (r @ t)" using assms(1) s by (auto simp: skip_len_def)
    then show ?thesis using single s sub [of "[c, c, c]"] quoted_len_app [of c r t] assms(2)
      by (auto simp: skip_len_def)
  next
    case line
    then have i: "IndexByte (s @ t) (CHR 0x0A) = Some n"
      using assms(1) s n by (auto simp: skip_len_def split: option.splits)
    have l: "c = CHR ''#'' \<or> prefix ''--'' s"
    proof (rule disjCI)
      assume "\<not> prefix ''--'' s"
      show "c = CHR ''#''"
      proof (rule ccontr)
        assume "c \<noteq> CHR ''#''"
        then have "prefix ''--'' (s @ t)" using line by simp
        with \<open>\<not> prefix ''--'' s\<close> have "length s < 2" "c = CHR ''-''"
          using prefix_app_iff [of "''--''" s t] s by (auto simp: not_less [symmetric])
        then have "r = []" using s by (cases r) auto
        then show False using i s \<open>prefix ''--'' (s @ t)\<close> assms(2)
          by (cases t) (auto simp: IndexByte_def split: if_splits)
      qed
    qed
    show ?thesis
    proof (cases "n < length s")
      case True
      then show ?thesis using IndexByte_prefix [OF i] line l s by (auto simp: skip_len_def)
    next
      case False
      then have "n = length s" using assms(2) by simp
      then have "CHR 0x0A \<notin> set s"
        using i by (auto simp: IndexByte_def takeWhile_append split: if_splits)
          (metis IndexByte_bounds IndexByte_def less_irrefl)
      then show ?thesis using line l s \<open>n = length s\<close> by (auto simp: skip_len_def IndexByte_def)
    qed
  next
    case block
    then obtain e where e: "index_of ''*/'' (drop 2 (s @ t)) = Some e" "n = 2 + e + 2"
      using assms(1) s n by (auto simp: skip_len_def split: option.splits)
    then have "2 \<le> length s" using assms(2) by simp
    then have "prefix ''/*'' s" "index_of ''*/'' (drop 2 s) = Some e"
      using block(4) prefix_app_iff [of "''/*''" s t] index_of_app [of "''*/''" "drop 2 s" t e] e assms(2) by auto
    then show ?thesis using block s e(2) sub [of "''--''"] by (auto simp: skip_len_def)
  next
    case none
    then have "skip_len (s @ t) = None" using s by (simp add: skip_len_def)
    then show ?thesis using assms(1) by simp
  qed
qed (use assms in simp)

lemma skip_len_app_None: "skip_len (s @ t) = None \<Longrightarrow> skip_len s = None"
  by (cases s) (auto simp: skip_len_def prefix_prefix split: if_splits option.splits)

lemma no_separator_skip: "skip_len s = Some n \<Longrightarrow> no_separator s = no_separator (drop n s)"
  using skip_len_bounds [of s n] by (subst no_separator.simps) (cases s, auto)

lemma split_from_whole: "no_separator s \<Longrightarrow> split_from cur s = (if cur @ s = [] then [] else [cur @ s])"
proof (induction cur s rule: split_from.induct)
  case (1 cur s)
  show ?case
  proof (cases s)
    case Nil
    then show ?thesis by (subst split_from.simps) simp
  next
    case (Cons c r)
    show ?thesis
    proof (cases "skip_len s")
      case (Some n)
      then have "no_separator (drop n s)" using "1.prems" Cons no_separator.simps [of s] by simp
      then have "split_from (cur @ take n s) (drop n s) = [cur @ s]"
        using 1(3) [OF Cons Some] Cons by simp
      then show ?thesis using Cons Some by (subst split_from.simps) simp
    next
      case None
      then have "c \<noteq> CHR '';''" "no_separator r" using "1.prems" Cons no_separator.simps [of s] by simp_all
      then show ?thesis using 1(2) [OF Cons None] Cons None by (subst split_from.simps) simp
    qed
  qed
qed

lemma split_from_pieces:
  "split_from cur s = [] \<and> cur = [] \<and> s = []
   \<or> (\<exists>p0 qs. split_from cur s = (cur @ p0) # qs \<and> prefix p0 s \<and> no_separator p0 \<and> list_all no_separator qs)"
proof (induction cur s rule: split_from.induct)
  case (1 cur s)
  show ?case
  proof (cases s)
    case Nil
    then show ?thesis by (subst (1 2) split_from.simps) (auto simp: no_separator.simps [of "[]"])
  next
    case (Cons c r)
    show ?thesis
    proof (cases "skip_len s")
      case (Some n)
      have n: "0 < n" "n \<le> length s" using skip_len_bounds [OF Some] by auto
      obtain p1 qs where p: "split_from (cur @ take n s) (drop n s) = ((cur @ take n s) @ p1) # qs"
        "prefix p1 (drop n s)" "no_separator p1" "list_all no_separator qs"
        using 1(3) [OF Cons Some] n Cons by fastforce
      have "prefix (take n s @ p1) s"
        using p(2) by (metis append_take_drop_id same_prefix_prefix)
      then obtain t where t: "s = (take n s @ p1) @ t" by (auto elim: prefixE)
      have "skip_len (take n s @ p1) = Some n" using skip_len_app [of "take n s @ p1" t n] Some t n by simp
      moreover have "drop n (take n s @ p1) = p1" using n by simp
      ultimately have "no_separator (take n s @ p1)" using p(3) no_separator_skip by metis
      then show ?thesis using p Some Cons \<open>prefix (take n s @ p1) s\<close>
        by (subst (1 2) split_from.simps) auto
    next
      case None
      show ?thesis
      proof (cases "c = CHR '';''")
        case True
        have "list_all no_separator (split_from [] r)" using 1(1) [OF Cons None True] by auto
        then show ?thesis using True None Cons
          by (subst (1 2) split_from.simps) (auto simp: no_separator.simps [of "[]"])
      next
        case False
        then obtain p1 qs where p: "split_from (cur @ [c]) r = ((cur @ [c]) @ p1) # qs"
          "prefix p1 r" "no_separator p1" "list_all no_separator qs"
          using 1(2) [OF Cons None False] by fastforce
        then obtain t where "s = (c # p1) @ t" using Cons by (auto elim: prefixE)
        then have "skip_len (c # p1) = None" using None skip_len_app_None [of "c # p1" t] by simp
        then have "no_separator (c # p1)" using p(3) False by (subst no_separator.simps) simp
        then show ?thesis using p Cons None False by (subst (1 2) split_from.simps) auto
      qed
    qed
  qed
qed

lemma split_from_join:
  "join_with '';'' (split_from cur s) = cur @ s \<or> join_with '';'' (split_from cur s) @ '';'' = cur @ s"
proof (induction cur s rule: split_from.induct)
  case (1 cur s)
  show ?case
  proof (cases s)
    case Nil
    then show ?thesis by (subst (1 2) split_from.simps) simp
  next
    case (Cons c r)
    show ?thesis
    proof (cases "skip_len s")
      case (Some n)
      then show ?thesis using 1(3) [OF Cons Some] Cons by (subst (1 2) split_from.simps) simp
    next
      case None
      have "split_from [] r = [] \<and> r = [] \<or> (\<exists>p ps. split_from [] r = p # ps)"
        using split_from_pieces [of "[]" r] by auto
      then show ?thesis using 1(1,2) [OF Cons None] Cons None by (subst (1 2) split_from.simps) auto
    qed
  qed
qed

section \<open>Substitution\<close>

lemma script_tokens_lossless:
  "i \<le> length stmt \<Longrightarrow> concat (map (token_text subslice stmt) (script_tokens stmt i)) = drop i stmt"
proof (induction stmt i rule: script_tokens.induct)
  case (1 stmt i)
  show ?case
  proof (cases "i < length stmt")
    case True
    let ?j = "skip_while isIdentCont stmt (i + 1)"
    have j: "i < ?j" "?j \<le> length stmt"
      using skip_while_ge [of "i + 1" isIdentCont stmt] skip_while_le [of "i + 1" stmt isIdentCont] True by auto
    have e: "i < e \<and> e \<le> length stmt" if "skipLiteralOrComment stmt i = Some e" for e
      using that skip_len_bounds [of "drop i stmt"] by (auto simp: skipLiteralOrComment_def)
    note b = ident_end_bounds [OF True]
    have d: "subslice stmt i k @ drop k stmt = drop i stmt" if "i < k" "k \<le> length stmt" for k
      using subslice_drop [of i k stmt] that by simp
    have f: "stmt ! i # subslice stmt (i + 1) ?j @ drop ?j stmt = drop i stmt"
      using d [OF j] subslice_Cons [OF j] by simp
    show ?thesis
    proof (cases "skipLiteralOrComment stmt i")
      case (Some e')
      then show ?thesis using 1(4) [OF True Some] e [OF Some] d [of e'] True by (subst script_tokens.simps) simp
    next
      case None
      then show ?thesis using 1(1-3) [OF True None] True b d [of "ident_end stmt i"] j f
        by (subst script_tokens.simps) (auto simp: Let_def Cons_nth_drop_Suc)
    qed
  qed (subst script_tokens.simps, use 1 in simp)
qed

lemma substitute_tokens:
  "substituteScriptVariables stmt vars = concat (map (token_text (variable_word vars) stmt) (script_tokens stmt 0))"
proof (cases "vars = []")
  case True
  then have "variable_word vars = subslice" by (simp add: variable_word_def ScriptVariable_def fun_eq_iff)
  then show ?thesis using script_tokens_lossless [of 0 stmt] True by (simp add: substituteScriptVariables_def)
qed (simp add: substituteScriptVariables_def)

section \<open>The variable table\<close>

definition var_name :: "string \<Rightarrow> bool" where
  "var_name n \<longleftrightarrow> n \<noteq> [] \<and> isIdentStart (hd n) \<and> list_all isIdentCont n \<and> lower_word n = n"

definition script_inv :: "script_vars \<Rightarrow> bool" where
  "script_inv vars \<longleftrightarrow> distinct (map fst vars) \<and> list_all var_name (map fst vars)"

lemma lower_char_ident [simp]:
  "isIdentStart (lower_char c) = isIdentStart c" "isIdentCont (lower_char c) = isIdentCont c"
  "lower_char (lower_char c) = lower_char c"
  by (auto simp: isIdentCont_def isIdentStart_def lower_char_def byte_in_def)

lemma lower_word_lower [simp]: "lower_word (lower_word w) = lower_word w"
  by (simp add: lower_word_def)

lemma skip_while_all: "j \<le> k \<Longrightarrow> k < skip_while p s j \<Longrightarrow> p (s ! k)"
proof (induction p s j rule: skip_while.induct)
  case (1 p s j)
  then show ?case
    by (cases "j < length s \<and> p (s ! j)"; cases "k = j") (auto simp: skip_while.simps [of p s j])
qed

lemma scanIdent_name:
  assumes "scanIdent s \<noteq> 0"
  shows "var_name (lower_word (take (scanIdent s) s))"
proof -
  have s: "s \<noteq> []" "isIdentStart (s ! 0)" "scanIdent s = skip_while isIdentCont s 1"
    using assms by (auto simp: scanIdent_def split: if_splits)
  have "isIdentCont (s ! k)" if "k < scanIdent s" for k
    using that s skip_while_all [of 1 k isIdentCont s] by (cases k) (auto simp: isIdentCont_def)
  moreover have "scanIdent s \<le> length s" using s skip_while_le [of 1 s isIdentCont] by (cases s) auto
  ultimately have "list_all isIdentCont (take (scanIdent s) s)" by (auto simp: list_all_length)
  then show ?thesis using s assms by (simp add: var_name_def lower_word_def list_all_iff hd_map hd_conv_nth)
qed

lemma parse_names:
  "parseDeclare stmt = Some (name, expr) \<Longrightarrow> var_name name"
  "parseAssignment stmt = Some (name, expr) \<Longrightarrow> var_name name"
  using scanIdent_name
  by (auto simp: parseDeclare_def parseAssignment_def Let_def split: option.splits if_splits)

lemma set_variable_inv:
  assumes "script_inv vars" "var_name name"
  shows "script_inv (SetScriptVariable vars name e)"
    "fst ` set vars \<subseteq> fst ` set (SetScriptVariable vars name e)"
proof -
  have n: "lower_word name = name" using assms(2) by (simp add: var_name_def)
  have k: "map fst (SetScriptVariable vars name e)
      = (if name \<in> set (map fst vars) then map fst vars else map fst vars @ [name])"
    by (simp add: SetScriptVariable_def n update_keys)
  then show "script_inv (SetScriptVariable vars name e)" using assms by (auto simp: script_inv_def)
  have "set (map fst vars) \<subseteq> set (map fst (SetScriptVariable vars name e))"
    unfolding k by auto
  then show "fst ` set vars \<subseteq> fst ` set (SetScriptVariable vars name e)" by simp
qed

lemma script_statement_inv:
  assumes "script_statement qr ff stmt vars = (vars', kept)" "script_inv vars"
  shows "script_inv vars' \<and> fst ` set vars \<subseteq> fst ` set vars'"
proof -
  have "vars' = vars \<or> (\<exists>name e. var_name name \<and> vars' = SetScriptVariable vars name e)"
    using assms(1)
    by (auto simp: script_statement_def Let_def split: if_splits option.splits dest!: parse_names) blast+
  then show ?thesis using set_variable_inv [OF assms(2)] assms(2) by blast
qed

lemma script_loop_inv:
  "script_loop qr ff stmts vars = (vars', keep) \<Longrightarrow> script_inv vars
     \<Longrightarrow> script_inv vars' \<and> fst ` set vars \<subseteq> fst ` set vars'"
proof (induction stmts arbitrary: vars vars' keep)
  case (Cons stmt stmts)
  obtain v1 k where s: "script_statement qr ff stmt vars = (v1, k)" by fastforce
  obtain v2 k2 where l: "script_loop qr ff stmts v1 = (v2, k2)" by fastforce
  have "vars' = v2" using Cons.prems(1) s l by simp
  then show ?case using script_statement_inv [OF s Cons.prems(2)] Cons.IH [OF l] by blast
qed simp

lemma pass_statement:
  "TrimSpace stmt \<noteq> [] \<Longrightarrow> parseDeclare (TrimSpace stmt) = None \<Longrightarrow> script_statement qr ff stmt [] = ([], Some stmt)"
  by (auto simp: script_statement_def Let_def substituteScriptVariables_def ScriptVariable_def split: option.split)

lemma pass_loop:
  "list_all (\<lambda>stmt. TrimSpace stmt \<noteq> [] \<and> parseDeclare (TrimSpace stmt) = None) stmts
     \<Longrightarrow> script_loop qr ff stmts [] = ([], stmts)"
  by (induction stmts) (simp_all add: pass_statement)

text \<open>
  A query the pre-pass has nothing to do with, no variables, no blank statement and no DECLARE,
  is returned byte for byte, except that a last semicolon is dropped.
\<close>

lemma script_passthrough:
  assumes "list_all (\<lambda>stmt. TrimSpace stmt \<noteq> [] \<and> parseDeclare (TrimSpace stmt) = None)
      (splitTopLevelStatements query)"
  shows "snd (applyScriptVariables qr ff query (Some [])) = Some []
    \<and> (fst (applyScriptVariables qr ff query (Some [])) = query
       \<or> fst (applyScriptVariables qr ff query (Some [])) @ '';'' = query)"
  using pass_loop [OF assms, of qr ff] split_from_join [of "[]" query]
  by (auto simp: applyScriptVariables_def Let_def splitTopLevelStatements_def)

section \<open>Properties\<close>

text \<open>None of the statements has a semicolon outside quotes and comments, so it is not split again.\<close>

lemma statements_whole:
  "list_all (\<lambda>p. splitTopLevelStatements p = (if p = [] then [] else [p])) (splitTopLevelStatements query)"
proof -
  have "list_all no_separator (splitTopLevelStatements query)"
    using split_from_pieces [of "[]" query] by (auto simp: splitTopLevelStatements_def)
  then show ?thesis using split_from_whole [of _ "[]"] by (auto simp: list_all_iff splitTopLevelStatements_def)
qed

text \<open>
  C38. The variable table keeps its shape: its names are distinct lower-case identifiers, whatever
  the script, so every spelling of a name finds its variable; no variable is ever lost.\<close>

theorem script_variables_table:
  assumes "script_inv vars"
  shows "\<exists>q vars'. applyScriptVariables qr ff query (Some vars) = (q, Some vars') \<and> script_inv vars'
    \<and> fst ` set vars \<subseteq> fst ` set vars'"
proof -
  obtain v k where l: "script_loop qr ff (splitTopLevelStatements query) vars = (v, k)" by fastforce
  show ?thesis
    using script_loop_inv [OF l assms] assms l
    by (cases "splitTopLevelStatements query = []") (simp_all add: applyScriptVariables_def Let_def)
qed

theorem script_variables_table_witness:
  "\<exists>q vars'. applyScriptVariables (\<lambda>_. Some (SInt 5 :: unit sql_value)) (\<lambda>_. []) ''DECLARE X INT64 DEFAULT 5'' (Some [(''y'', ''1'')]) = (q, Some vars')
     \<and> script_inv vars' \<and> fst ` set [(''y'', ''1'')] \<subseteq> fst ` set vars'"
  by (rule script_variables_table)
     (simp add: script_inv_def var_name_def lower_word_def lower_char_def isIdentCont_def isIdentStart_def byte_in_def)

text \<open>
  Values are pasted in without parentheses and text values without escaping backslashes, and a
  query parameter with the name of a variable is replaced too: with x = -1 the difference \<open>5-x\<close>
  becomes 5 followed by a comment, \<open>@x\<close> becomes \<open>@1\<close>, and a text that ends in a backslash becomes a
  literal that runs on over the rest of the statement.\<close>

lemma script_variable_defects:
  "evaluateScriptVariableExpr (\<lambda>_. Some (SInt (- 1))) ff ''0-1'' = ''-1''
   \<and> substituteScriptVariables ''5-x'' [(''x'', ''-1'')] = ''5--1''
   \<and> skipLiteralOrComment ''5--1'' 1 = Some (length ''5--1'')
   \<and> substituteScriptVariables ''@x'' [(''x'', ''1'')] = ''@1''
   \<and> evaluateScriptVariableExpr (\<lambda>_. Some (SText [CHR 0x5C])) ff ''t'' = [CHR 0x22, CHR 0x5C, CHR 0x22]
   \<and> skipLiteralOrComment ([CHR 0x22, CHR 0x5C, CHR 0x22] @ '' FROM t'') 0 = Some (3 + length '' FROM t'')"
proof (intro conjI)
  have l: "lower_char (CHR ''x'') = CHR ''x''" by (simp add: lower_char_def)
  note eval = substitute_tokens script_tokens.simps skipLiteralOrComment_def skip_len_def is_quote_def isIdentStart_def
    isIdentCont_def byte_in_def ident_end_def skip_while.simps subslice_def Let_def
    variable_word_def ScriptVariable_def lower_word_def l
  have "TrimSpace ''0-1'' = ''0-1''" by (rule TrimSpace_graphic) (simp add: graphic_def)
  moreover have "dec_int (- 1) = ''-1''" by (simp add: dec_int_def dec_nat.simps digit_char_def char_of_eq_iff)
  ultimately show "evaluateScriptVariableExpr (\<lambda>_. Some (SInt (- 1))) ff ''0-1'' = ''-1''"
    by (simp add: evaluateScriptVariableExpr_def)
  show "substituteScriptVariables ''5-x'' [(''x'', ''-1'')] = ''5--1''" by (simp add: eval)
  show "skipLiteralOrComment ''5--1'' 1 = Some (length ''5--1'')" by (simp add: eval IndexByte_def)
  show "substituteScriptVariables ''@x'' [(''x'', ''1'')] = ''@1''" by (simp add: eval)
  have "TrimSpace ''t'' = ''t''" by (rule TrimSpace_graphic) (simp add: graphic_def)
  then show "evaluateScriptVariableExpr (\<lambda>_. Some (SText [CHR 0x5C])) ff ''t'' = [CHR 0x22, CHR 0x5C, CHR 0x22]"
    by (simp add: evaluateScriptVariableExpr_def quote_script_text_def)
  show "skipLiteralOrComment ([CHR 0x22, CHR 0x5C, CHR 0x22] @ '' FROM t'') 0 = Some (3 + length '' FROM t'')"
    by (simp add: skipLiteralOrComment_def skip_len_def is_quote_def)
qed

end
