(* ===== verification/Sql_Calls.thy ===== *)
theory Sql_Calls
  imports Script_Vars
begin

text \<open>
  The rewrites of calls that the analyzer does not know, which run after the script variables:
  RANGE_SESSIONIZE (\<open>src/internal/range_sessionize.go\<close>), GAP_FILL (\<open>gap_fill.go\<close>), nested IFERROR
  (\<open>iferror_rewrite.go\<close>) and the stubs for BigQuery table functions (\<open>tvf_stubs.go\<close>). They find a
  call in the text of the query, split its arguments and paste a replacement. A loop that repeats
  a rewrite until nothing is found is a \<open>partial_function\<close>, with \<open>None\<close> for no result.
\<close>

section \<open>Case-insensitive search\<close>

definition containsCaseInsensitive :: "string \<Rightarrow> string \<Rightarrow> bool" where
  "containsCaseInsensitive s needle = contains (upper_text s) (upper_text needle)"

section \<open>Calls and their arguments\<close>

lemma comment_end_gt: "i < length s \<Longrightarrow> s ! i = CHR ''-'' \<Longrightarrow> i < comment_end s i"
  unfolding comment_end_def by (rule skip_while_comment) simp_all

text \<open>The loop of \<open>matchingCloseParen\<close>; \<open>None\<close> is the result -1.\<close>

function close_from :: "string \<Rightarrow> nat \<Rightarrow> int \<Rightarrow> nat option" where
  "close_from s i depth =
     (if i < length s then
        let c = s ! i in
        if c = CHR ''('' then close_from s (i + 1) (depth + 1)
        else if c = CHR '')'' then
          (if depth - 1 = 0 then Some i else close_from s (i + 1) (depth - 1))
        else if is_quote c then close_from s (scanStringLiteral s i) depth
        else if c = CHR 0x60 then close_from s (quoted_name_end s i) depth
        else close_from s (i + 1) depth
      else None)"
  by pat_completeness auto
termination
  by (relation "measure (\<lambda>(s, i, d). length s - i)")
     (auto intro!: diff_less_mono2 scanStringLiteral_bounds(1) quoted_name_end_bounds(1))

declare close_from.simps [simp del]

definition matchingCloseParen :: "string \<Rightarrow> nat \<Rightarrow> nat option" where
  "matchingCloseParen s open' = close_from s open' 0"

text \<open>
  The scan of \<open>findGapFillCall\<close> and \<open>findRangeSessionizeCall\<close>: literals, backtick names and line
  comments are skipped, and the first call of a function whose name satisfies \<open>is_name\<close> is returned
  as its start, its end and the text between its parentheses.
\<close>

function find_call :: "(string \<Rightarrow> bool) \<Rightarrow> string \<Rightarrow> nat \<Rightarrow> (nat \<times> nat \<times> string) option" where
  "find_call is_name s i =
     (if i < length s then
        let c = s ! i in
        if is_quote c then find_call is_name s (scanStringLiteral s i)
        else if c = CHR 0x60 then find_call is_name s (quoted_name_end s i)
        else if c = CHR ''-'' \<and> i + 1 < length s \<and> s ! (i + 1) = CHR ''-'' then find_call is_name s (comment_end s i)
        else if isIdentStart c then
          (let j = ident_end s i; k = skip_while isSpaceByte s j in
           case (if is_name (subslice s i j) \<and> k < length s \<and> s ! k = CHR ''(''
                 then matchingCloseParen s k else None) of
             Some close \<Rightarrow> Some (i, close + 1, subslice s (k + 1) close)
           | None \<Rightarrow> find_call is_name s j)
        else find_call is_name s (i + 1)
      else None)"
  by pat_completeness auto
termination
proof (relation "measure (\<lambda>(f, s, i). length s - i)", goal_cases)
  case (4 is_name s i c)
  then have "i < comment_end s i" by (intro comment_end_gt) auto
  then show ?case using 4 by (auto intro!: diff_less_mono2)
qed (auto intro!: diff_less_mono2 scanStringLiteral_bounds(1) quoted_name_end_bounds(1) ident_end_bounds(1))

declare find_call.simps [simp del]

definition findGapFillCall :: "string \<Rightarrow> (nat \<times> nat \<times> string) option" where
  "findGapFillCall s = find_call (\<lambda>w. EqualFold_word w ''gap_fill'') s 0"

definition findRangeSessionizeCall :: "string \<Rightarrow> (nat \<times> nat \<times> string) option" where
  "findRangeSessionizeCall s = find_call (\<lambda>w. upper_word w = ''RANGE_SESSIONIZE'') s 0"

text \<open>The two splitters of an argument list; \<open>last\<close> is the start of the current argument.\<close>

function commas_from :: "string \<Rightarrow> nat \<Rightarrow> nat \<Rightarrow> int \<Rightarrow> string list" where
  "commas_from s i last' depth =
     (if i < length s then
        let c = s ! i in
        if c = CHR ''('' \<or> c = CHR ''['' then commas_from s (i + 1) last' (depth + 1)
        else if c = CHR '')'' \<or> c = CHR '']'' then commas_from s (i + 1) last' (depth - 1)
        else if is_quote c then commas_from s (scanStringLiteral s i) last' depth
        else if c = CHR '','' \<and> depth = 0 then subslice s last' i # commas_from s (i + 1) (i + 1) depth
        else commas_from s (i + 1) last' depth
      else if last' < length s then [drop last' s] else [])"
  by pat_completeness auto
termination
  by (relation "measure (\<lambda>(s, i, l, d). length s - i)")
     (auto intro!: diff_less_mono2 scanStringLiteral_bounds(1))

declare commas_from.simps [simp del]

definition splitTopLevelCommas :: "string \<Rightarrow> string list" where
  "splitTopLevelCommas s = commas_from s 0 0 0"

function args_from :: "string \<Rightarrow> nat \<Rightarrow> nat \<Rightarrow> int \<Rightarrow> string list" where
  "args_from s i start depth =
     (if i < length s then
        let c = s ! i in
        if is_quote c then args_from s (scanStringLiteral s i) start depth
        else if c = CHR 0x60 then args_from s (quoted_name_end s i) start depth
        else if c = CHR ''('' then args_from s (i + 1) start (depth + 1)
        else if c = CHR '')'' then args_from s (i + 1) start (depth - 1)
        else if c = CHR '','' \<and> depth = 0 then subslice s start i # args_from s (i + 1) (i + 1) depth
        else args_from s (i + 1) start depth
      else [drop start s])"
  by pat_completeness auto
termination
  by (relation "measure (\<lambda>(s, i, l, d). length s - i)")
     (auto intro!: diff_less_mono2 scanStringLiteral_bounds(1) quoted_name_end_bounds(1))

declare args_from.simps [simp del]

definition splitTopLevelArgs :: "string \<Rightarrow> string list" where
  "splitTopLevelArgs s = args_from s 0 0 0"

definition stripQuotes :: "string \<Rightarrow> string" where
  "stripQuotes s0 =
     (let s = TrimSpace s0 in
      if length s \<ge> 2 \<and> is_quote (hd s) \<and> hd s = last s then butlast (tl s) else s)"

text \<open>The text without its first and last character, when it starts and ends as given.\<close>

definition unbracket :: "char \<Rightarrow> char \<Rightarrow> string \<Rightarrow> string" where
  "unbracket a b s = (if s \<noteq> [] \<and> hd s = a \<and> last s = b then butlast (tl s) else s)"

definition parseStringArray :: "string \<Rightarrow> string list" where
  "parseStringArray s =
     filter (\<lambda>v. v \<noteq> [])
       (map (\<lambda>p. stripQuotes (TrimSpace p)) (splitTopLevelCommas (unbracket (CHR ''['') (CHR '']'') (TrimSpace s))))"

section \<open>The input of a table function\<close>

datatype call_error =
    EmptyArguments
  | TooFewArguments nat
  | InvalidMode string
  | ColumnRequired
  | BucketWidthRequired
  | InputRequired
  | UnknownMethod string string
  | SlicePanic

text \<open>The table and the subquery of the first argument: \<open>TABLE name\<close>, \<open>(subquery)\<close> or a name.\<close>

definition input_of :: "string \<Rightarrow> call_error + string \<times> string" where
  "input_of part =
     (let first = TrimSpace part; up = upper_text first in
      if prefix ''TABLE '' up \<or> prefix (''TABLE'' @ [CHR 0x09]) up \<or> prefix (''TABLE'' @ [CHR 0x0A]) up
      then Inr (TrimSpace (drop 5 first), [])
      else if prefix ''('' first then
        (if length first = 1 then Inl SlicePanic else Inr ([], TrimSpace (butlast (tl first))))
      else Inr (first, []))"

definition backticked :: "string \<Rightarrow> string" where
  "backticked c = [CHR 0x60] @ c @ [CHR 0x60]"

definition input_ref :: "string \<Rightarrow> string \<Rightarrow> string" where
  "input_ref table subquery = (if table = [] then ''('' @ subquery @ '')'' else table)"

section \<open>RANGE_SESSIONIZE\<close>

record rangeSessionizeArgs =
  rs_inputTable :: string
  rs_inputSubquery :: string
  rs_rangeColumn :: string
  rs_partitioningCols :: "string list"
  rs_mode :: string

definition session_mode :: "string list \<Rightarrow> call_error + string" where
  "session_mode parts =
     (if length parts \<ge> 4 then
        (let mode = upper_text (stripQuotes (TrimSpace (parts ! 3))) in
         if mode = ''MEETS'' \<or> mode = ''OVERLAPS'' then Inr mode else Inl (InvalidMode mode))
      else Inr ''MEETS'')"

definition parseRangeSessionizeArgs :: "string \<Rightarrow> call_error + rangeSessionizeArgs" where
  "parseRangeSessionizeArgs raw =
     (let parts = splitTopLevelCommas raw in
      if length parts < 3 then Inl (TooFewArguments (length parts))
      else bind_res (input_of (parts ! 0)) (\<lambda>(table, subquery).
             let col = stripQuotes (TrimSpace (parts ! 1)) in
             bind_res (session_mode parts) (\<lambda>mode.
               if col = [] then Inl ColumnRequired
               else if table = [] \<and> subquery = [] then Inl InputRequired
               else Inr \<lparr>rs_inputTable = table, rs_inputSubquery = subquery, rs_rangeColumn = col,
                         rs_partitioningCols = parseStringArray (TrimSpace (parts ! 2)), rs_mode = mode\<rparr>)))"

definition session_sql :: "rangeSessionizeArgs \<Rightarrow> string" where
  "session_sql args =
     (let rc = backticked (rs_rangeColumn args);
          cmp = (if rs_mode args = ''OVERLAPS'' then ''>='' else ''>'');
          partitionList = join_with '', '' (map backticked (rs_partitioningCols args));
          partitionClause = (if partitionList = [] then [] else ''PARTITION BY '' @ partitionList);
          forSession = (if partitionList = [] then [] else partitionList @ '', '');
          extracted = ''SELECT *, RANGE_START('' @ rc @ '') AS __rs_start, RANGE_END('' @ rc @ '') AS __rs_end FROM ''
            @ input_ref (rs_inputTable args) (rs_inputSubquery args);
          marked = ''SELECT *, MAX(__rs_end) OVER ('' @ partitionClause
            @ '' ORDER BY __rs_start ROWS BETWEEN UNBOUNDED PRECEDING AND 1 PRECEDING) AS __rs_prev_max_end FROM (''
            @ extracted @ '')'';
          indicator = ''SELECT *, CASE WHEN __rs_prev_max_end IS NULL THEN 1 WHEN __rs_start '' @ cmp
            @ '' __rs_prev_max_end THEN 1 ELSE 0 END AS __rs_new_session FROM ('' @ marked @ '')'';
          grouped = ''SELECT *, SUM(__rs_new_session) OVER ('' @ partitionClause
            @ '' ORDER BY __rs_start ROWS UNBOUNDED PRECEDING) AS __rs_session_id FROM ('' @ indicator @ '')'';
          final = ''SELECT * EXCEPT(__rs_start, __rs_end, __rs_prev_max_end, __rs_new_session, __rs_session_id), RANGE(MIN(__rs_start) OVER (PARTITION BY ''
            @ forSession @ ''__rs_session_id), MAX(__rs_end) OVER (PARTITION BY '' @ forSession
            @ ''__rs_session_id)) AS session_range FROM ('' @ grouped @ '')''
      in ''('' @ final @ '')'')"

definition rewriteRangeSessionize :: "string \<Rightarrow> call_error + string" where
  "rewriteRangeSessionize rawArgs = bind_res (parseRangeSessionizeArgs rawArgs) (\<lambda>args. Inr (session_sql args))"

text \<open>The loop that the two table functions share: rewrite the first call until there is none.\<close>

partial_function (option) rewrite_calls ::
  "(string \<Rightarrow> (nat \<times> nat \<times> string) option) \<Rightarrow> (string \<Rightarrow> call_error + string) \<Rightarrow> string \<Rightarrow> string option" where
  "rewrite_calls findCall rewrite query =
     (case findCall query of
        None \<Rightarrow> Some query
      | Some (start, end', args) \<Rightarrow>
          (case rewrite args of
             Inl _ \<Rightarrow> Some query
           | Inr replacement \<Rightarrow> rewrite_calls findCall rewrite (take start query @ replacement @ drop end' query)))"

definition applyRangeSessionizeRewrite :: "string \<Rightarrow> string option" where
  "applyRangeSessionizeRewrite query =
     (if \<not> containsCaseInsensitive query ''RANGE_SESSIONIZE'' then Some query
      else rewrite_calls findRangeSessionizeCall rewriteRangeSessionize query)"

section \<open>GAP\_FILL\<close>

record gapFillValueCol =
  gv_name :: string
  gv_method :: string

record gapFillArgs =
  gf_inputTable :: string
  gf_inputSubquery :: string
  gf_tsColumn :: string
  gf_bucketWidth :: string
  gf_partitioningCols :: "string list"
  gf_valueCols :: "gapFillValueCol list"
  gf_origin :: string
  gf_ignoreNullValues :: bool
  gf_ignoreNullExplicit :: bool

definition value_column :: "string \<Rightarrow> gapFillValueCol option" where
  "value_column p0 =
     (let p = TrimSpace p0 in
      if \<not> (p \<noteq> [] \<and> hd p = CHR ''('' \<and> last p = CHR '')'') then None
      else let fields = splitTopLevelCommas (butlast (tl p)) in
      if length fields < 2 then None
      else let col = stripQuotes (TrimSpace (fields ! 0)); method = lower_text (stripQuotes (TrimSpace (fields ! 1))) in
      if col = [] then None else Some \<lparr>gv_name = col, gv_method = method\<rparr>)"

definition parseValueColumnsArray :: "string \<Rightarrow> gapFillValueCol list" where
  "parseValueColumnsArray s =
     List.map_filter value_column (splitTopLevelCommas (unbracket (CHR ''['') (CHR '']'') (TrimSpace s)))"

definition named_argument :: "gapFillArgs \<Rightarrow> string \<Rightarrow> gapFillArgs" where
  "named_argument args p0 =
     (let p = TrimSpace p0 in
      case index_of ''=>'' p of
        None \<Rightarrow> args
      | Some eq \<Rightarrow>
          let name = lower_text (TrimSpace (take eq p)); valStr = TrimSpace (drop (eq + 2) p) in
          if name = ''ts_column'' then args\<lparr>gf_tsColumn := stripQuotes valStr\<rparr>
          else if name = ''bucket_width'' then args\<lparr>gf_bucketWidth := valStr\<rparr>
          else if name = ''partitioning_columns'' then args\<lparr>gf_partitioningCols := parseStringArray valStr\<rparr>
          else if name = ''value_columns'' then args\<lparr>gf_valueCols := parseValueColumnsArray valStr\<rparr>
          else if name = ''origin'' then args\<lparr>gf_origin := valStr\<rparr>
          else if name = ''ignore_null_values'' then
            args\<lparr>gf_ignoreNullExplicit := True, gf_ignoreNullValues := EqualFold_word valStr ''true''\<rparr>
          else args)"

definition parseGapFillArgs :: "string \<Rightarrow> call_error + gapFillArgs" where
  "parseGapFillArgs raw =
     (case splitTopLevelCommas raw of
        [] \<Rightarrow> Inl EmptyArguments
      | part # parts \<Rightarrow>
          bind_res (input_of part) (\<lambda>(table, subquery).
            let args = foldl named_argument
              \<lparr>gf_inputTable = table, gf_inputSubquery = subquery, gf_tsColumn = [], gf_bucketWidth = [],
               gf_partitioningCols = [], gf_valueCols = [], gf_origin = [], gf_ignoreNullValues = True,
               gf_ignoreNullExplicit = False\<rparr> parts
            in if gf_tsColumn args = [] then Inl ColumnRequired
               else if gf_bucketWidth args = [] then Inl BucketWidthRequired
               else if gf_inputTable args = [] \<and> gf_inputSubquery args = [] then Inl InputRequired
               else Inr args))"

definition filled :: "gapFillValueCol \<Rightarrow> bool" where
  "filled vc \<longleftrightarrow> gv_method vc = ''locf'' \<or> gv_method vc = ''linear''"

text \<open>The columns that number the groups of rows since, or until, a value.\<close>

definition group_columns :: "string \<Rightarrow> string \<Rightarrow> gapFillValueCol \<Rightarrow> string list" where
  "group_columns ts partClause vc =
     (if filled vc then
        [''COUNT('' @ backticked (gv_name vc) @ '') OVER ('' @ partClause @ ''ORDER BY '' @ backticked ts
           @ '' ROWS BETWEEN UNBOUNDED PRECEDING AND CURRENT ROW) AS '' @ backticked (''__gf_grp_'' @ gv_name vc)]
      else [])
     @ (if gv_method vc = ''linear'' then
        [''COUNT('' @ backticked (gv_name vc) @ '') OVER ('' @ partClause @ ''ORDER BY '' @ backticked ts
           @ '' ROWS BETWEEN CURRENT ROW AND UNBOUNDED FOLLOWING) AS '' @ backticked (''__gf_fgrp_'' @ gv_name vc)]
      else [])"

definition partition_by :: "string \<Rightarrow> string \<Rightarrow> string" where
  "partition_by partitionList column =
     ''PARTITION BY '' @ (if partitionList = [] then [] else partitionList @ '', '') @ backticked column"

definition linear_column :: "string \<Rightarrow> string \<Rightarrow> string \<Rightarrow> string" where
  "linear_column ts partitionList name =
     (let prevPart = partition_by partitionList (''__gf_grp_'' @ name);
          nextPart = partition_by partitionList (''__gf_fgrp_'' @ name);
          value_of = (\<lambda>part. ''MAX('' @ backticked name @ '') OVER ('' @ part @ '')'');
          time_of = (\<lambda>part. ''MAX(IF('' @ backticked name @ '' IS NULL, NULL, '' @ backticked ts @ '')) OVER ('' @ part @ '')'');
          prevV = value_of prevPart; nextV = value_of nextPart; prevT = time_of prevPart; nextT = time_of nextPart
      in ''CASE WHEN '' @ backticked name @ '' IS NOT NULL THEN '' @ backticked name
         @ '' WHEN ('' @ prevV @ '') IS NULL OR ('' @ nextV @ '') IS NULL THEN NULL ''
         @ ''WHEN TIMESTAMP_DIFF(('' @ nextT @ ''), ('' @ prevT @ ''), SECOND) = 0 THEN ('' @ prevV @ '') ''
         @ ''ELSE ('' @ prevV @ '') + (TIMESTAMP_DIFF('' @ backticked ts @ '', ('' @ prevT @ ''), SECOND) * CAST((('' @ nextV
         @ '') - ('' @ prevV @ '')) AS FLOAT64) / TIMESTAMP_DIFF(('' @ nextT @ ''), ('' @ prevT @ ''), SECOND)) END AS ''
         @ backticked name)"

definition project_column :: "string \<Rightarrow> string \<Rightarrow> gapFillValueCol \<Rightarrow> call_error + string" where
  "project_column ts partitionList vc =
     (if gv_method vc = ''locf'' then
        Inr (''MAX('' @ backticked (gv_name vc) @ '') OVER ('' @ partition_by partitionList (''__gf_grp_'' @ gv_name vc)
             @ '') AS '' @ backticked (gv_name vc))
      else if gv_method vc = ''linear'' then Inr (linear_column ts partitionList (gv_name vc))
      else if gv_method vc = ''null'' \<or> gv_method vc = [] then Inr (backticked (gv_name vc))
      else Inl (UnknownMethod (gv_method vc) (gv_name vc)))"

fun project_columns :: "string \<Rightarrow> string \<Rightarrow> gapFillValueCol list \<Rightarrow> call_error + string list" where
  "project_columns ts partitionList [] = Inr []"
| "project_columns ts partitionList (vc # vcs) =
     bind_res (project_column ts partitionList vc) (\<lambda>c.
       bind_res (project_columns ts partitionList vcs) (\<lambda>cs. Inr (c # cs)))"

definition gap_fill_origin :: "gapFillArgs \<Rightarrow> string" where
  "gap_fill_origin args = (if gf_origin args = []
     then ''TIMESTAMP '' @ [CHR 0x27] @ ''1950-01-01 00:00:00+00'' @ [CHR 0x27] else gf_origin args)"

text \<open>The rows with their bucket, and the bucket starts of every partition.\<close>

definition aligned_sql :: "gapFillArgs \<Rightarrow> string" where
  "aligned_sql args =
     (let ts = backticked (gf_tsColumn args) in
      ''SELECT TIMESTAMP_BUCKET('' @ ts @ '', '' @ gf_bucketWidth args @ '', '' @ gap_fill_origin args @ '') AS '' @ ts
        @ '', * EXCEPT('' @ ts @ '') FROM '' @ input_ref (gf_inputTable args) (gf_inputSubquery args))"

definition ticks_sql :: "gapFillArgs \<Rightarrow> string \<Rightarrow> string" where
  "ticks_sql args partitionList =
     (let ts = backticked (gf_tsColumn args); bw = gf_bucketWidth args; origin = gap_fill_origin args;
          bucket = (\<lambda>x. ''TIMESTAMP_BUCKET('' @ x @ '', '' @ bw @ '', '' @ origin @ '')'');
          bounds = ''MIN('' @ ts @ '') AS mn, MAX('' @ ts @ '') AS mx FROM ('' @ aligned_sql args @ '')'';
          array = ''UNNEST(GENERATE_TIMESTAMP_ARRAY('' @ bucket ''mn'' @ '', '' @ bucket ''mx'' @ '', '' @ bw @ '')) AS bucket_ts''
      in if partitionList = [] then
           ''SELECT bucket_ts AS '' @ ts @ '' FROM (SELECT '' @ bounds @ ''), '' @ array
         else
           ''SELECT bucket_ts AS '' @ ts @ '', '' @ partitionList @ '' FROM (SELECT '' @ partitionList @ '', '' @ bounds
             @ '' GROUP BY '' @ partitionList @ ''), '' @ array)"

definition rewriteGapFill :: "string \<Rightarrow> call_error + string" where
  "rewriteGapFill rawArgs = bind_res (parseGapFillArgs rawArgs) (\<lambda>args.
     let ts = gf_tsColumn args; cols = map backticked (gf_partitioningCols args);
         partitionList = join_with '', '' cols;
         joinUsing = backticked ts @ concat (map (\<lambda>c. '', '' @ c) cols);
         joined = ''SELECT * FROM ('' @ ticks_sql args partitionList @ '') AS '' @ backticked ''__gf_ticks''
           @ '' LEFT JOIN ('' @ aligned_sql args @ '') AS '' @ backticked ''__gf_src'' @ '' USING ('' @ joinUsing @ '')'';
         partClause = (if partitionList = [] then [] else ''PARTITION BY '' @ partitionList @ '' '');
         grouped = (if list_ex filled (gf_valueCols args) then
             ''SELECT '' @ join_with '', '' (''*'' # concat (map (group_columns ts partClause) (gf_valueCols args)))
               @ '' FROM ('' @ joined @ '') AS '' @ backticked ''__gf_j''
           else joined)
     in bind_res (project_columns ts partitionList (gf_valueCols args)) (\<lambda>projected.
          Inr (''(SELECT '' @ join_with '', '' (backticked ts # cols @ projected) @ '' FROM ('' @ grouped @ '') AS ''
               @ backticked ''__gf_g'' @ '' ORDER BY '' @ backticked ts @ '')'')))"

definition applyGapFillRewrite :: "string \<Rightarrow> string option" where
  "applyGapFillRewrite query =
     (if \<not> containsCaseInsensitive query ''GAP_FILL'' then Some query
      else rewrite_calls findGapFillCall rewriteGapFill query)"

section \<open>Nested IFERROR\<close>

definition looksLikeNumberLiteral :: "string \<Rightarrow> bool" where
  "looksLikeNumberLiteral expr =
     (let r = (case expr of c # cs \<Rightarrow> if c = CHR ''-'' \<or> c = CHR ''+'' then cs else expr | [] \<Rightarrow> []) in
      r \<noteq> []
      \<and> list_all (\<lambda>c. is_digit c \<or> c = CHR ''.'' \<or> c = CHR ''e'' \<or> c = CHR ''E'' \<or> c = CHR ''+'' \<or> c = CHR ''-'') r
      \<and> list_ex is_digit r)"

text \<open>At most two prefix letters are removed; with three the expression is returned.\<close>

definition stripStringPrefix :: "string \<Rightarrow> string" where
  "stripStringPrefix expr =
     (let n = length (takeWhile is_prefix_char expr) in if n > 2 then expr else drop n expr)"

definition literalTypeName :: "string \<Rightarrow> string option" where
  "literalTypeName expr0 =
     (let expr = TrimSpace expr0; stripped = stripStringPrefix expr in
      if expr = [] then None
      else if stripped \<noteq> [] \<and> is_quote (hd stripped) then
        (if scanStringLiteral stripped 0 = length stripped then Some ''STRING'' else None)
      else if looksLikeNumberLiteral expr then
        Some (if list_ex (\<lambda>c. c = CHR ''.'' \<or> c = CHR ''e'' \<or> c = CHR ''E'') expr then ''FLOAT64'' else ''INT64'')
      else if EqualFold_word expr ''true'' \<or> EqualFold_word expr ''false'' then Some ''BOOL''
      else None)"

definition startsWithCallIdent :: "string \<Rightarrow> string \<Rightarrow> bool" where
  "startsWithCallIdent expr name =
     (if length expr < length name + 2 then False
      else if \<not> EqualFold_word (take (length name) expr) name then False
      else let k = skip_while isSpaceByte expr (length name) in
      if k \<ge> length expr \<or> expr ! k \<noteq> CHR ''('' then False
      else matchingCloseParen expr k = Some (length expr - 1))"

definition isIferrorOfTwoErrors :: "string \<Rightarrow> bool" where
  "isIferrorOfTwoErrors expr0 =
     (let expr = TrimSpace expr0 in
      if expr = [] \<or> last expr \<noteq> CHR '')'' then False
      else if length expr < 8 then False
      else if \<not> EqualFold_word (take 7 expr) ''iferror'' then False
      else let k = skip_while isSpaceByte expr 7 in
      if k \<ge> length expr \<or> expr ! k \<noteq> CHR ''('' then False
      else if matchingCloseParen expr k \<noteq> Some (length expr - 1) then False
      else let args = splitTopLevelArgs (subslice expr (k + 1) (length expr - 1)) in
      length args = 2 \<and> list_all (\<lambda>a. startsWithCallIdent (TrimSpace a) ''error'') args)"

definition tryRewriteOuterIferror :: "string \<Rightarrow> nat \<Rightarrow> string option" where
  "tryRewriteOuterIferror s afterName =
     (let k = skip_while isSpaceByte s afterName in
      if k \<ge> length s \<or> s ! k \<noteq> CHR ''('' then None
      else (case matchingCloseParen s k of
              None \<Rightarrow> None
            | Some close \<Rightarrow>
                (case splitTopLevelArgs (subslice s (k + 1) close) of
                   [a, b] \<Rightarrow>
                     (case literalTypeName (TrimSpace b) of
                        None \<Rightarrow> None
                      | Some castType \<Rightarrow>
                          if \<not> isIferrorOfTwoErrors (TrimSpace a) then None
                          else Some (take (k + 1) s @ ''SAFE_CAST('' @ TrimSpace a @ '' AS '' @ castType @ '')''
                                     @ '', '' @ TrimSpace b @ drop close s))
                 | _ \<Rightarrow> None)))"

function iferror_from :: "string \<Rightarrow> nat \<Rightarrow> string option" where
  "iferror_from s i =
     (if i < length s then
        let c = s ! i in
        if is_quote c then iferror_from s (scanStringLiteral s i)
        else if c = CHR 0x60 then iferror_from s (quoted_name_end s i)
        else if c = CHR ''-'' \<and> i + 1 < length s \<and> s ! (i + 1) = CHR ''-'' then iferror_from s (comment_end s i)
        else if isIdentStart c then
          (let j = ident_end s i in
           case (if EqualFold_word (subslice s i j) ''iferror'' then tryRewriteOuterIferror s j else None) of
             Some rewritten \<Rightarrow> Some rewritten
           | None \<Rightarrow> iferror_from s j)
        else iferror_from s (i + 1)
      else None)"
  by pat_completeness auto
termination
proof (relation "measure (\<lambda>(s, i). length s - i)", goal_cases)
  case (4 s i c)
  then have "i < comment_end s i" by (intro comment_end_gt) auto
  then show ?case using 4 by (auto intro!: diff_less_mono2)
qed (auto intro!: diff_less_mono2 scanStringLiteral_bounds(1) quoted_name_end_bounds(1) ident_end_bounds(1))

declare iferror_from.simps [simp del]

definition rewriteOneIferrorPattern :: "string \<Rightarrow> string option" where
  "rewriteOneIferrorPattern s = iferror_from s 0"

partial_function (option) iferror_loop :: "string \<Rightarrow> string option" where
  "iferror_loop query =
     (case rewriteOneIferrorPattern query of None \<Rightarrow> Some query | Some next' \<Rightarrow> iferror_loop next')"

definition applyIferrorTypePropagation :: "string \<Rightarrow> string option" where
  "applyIferrorTypePropagation query =
     (if \<not> containsCaseInsensitive query ''IFERROR'' then Some query else iferror_loop query)"

section \<open>Stubs for table functions\<close>

text \<open>
  The loop of \<open>scanBalancedArgs\<close>: the arguments before the current one and its text so far. The
  result is the index past the closing parenthesis and the trimmed arguments.
\<close>

function balanced_from :: "string \<Rightarrow> nat \<Rightarrow> int \<Rightarrow> string list \<Rightarrow> string \<Rightarrow> (nat \<times> string list) option" where
  "balanced_from s i depth args cur =
     (if i < length s then
        let c = s ! i in
        if c = CHR ''('' then balanced_from s (i + 1) (depth + 1) args (if depth + 1 > 1 then cur @ [c] else cur)
        else if c = CHR '')'' then
          (if depth - 1 = 0 then Some (i + 1, if cur \<noteq> [] \<or> args \<noteq> [] then args @ [TrimSpace cur] else args)
           else balanced_from s (i + 1) (depth - 1) args (cur @ [c]))
        else if c = CHR '','' then
          (if depth = 1 then balanced_from s (i + 1) depth (args @ [TrimSpace cur]) []
           else balanced_from s (i + 1) depth args (cur @ [c]))
        else if is_quote c then
          (let e = scanStringLiteral s i in balanced_from s e depth args (cur @ subslice s i e))
        else if c = CHR 0x60 then
          (let e = quoted_name_end s i in balanced_from s e depth args (cur @ subslice s i e))
        else balanced_from s (i + 1) depth args (cur @ [c])
      else None)"
  by pat_completeness auto
termination
  by (relation "measure (\<lambda>(s, i, _). length s - i)")
     (auto intro!: diff_less_mono2 scanStringLiteral_bounds(1) quoted_name_end_bounds(1))

declare balanced_from.simps [simp del]

definition scanBalancedArgs :: "string \<Rightarrow> nat \<Rightarrow> (nat \<times> string list) option" where
  "scanBalancedArgs s start =
     (if start \<ge> length s \<or> s ! start \<noteq> CHR ''('' then None else balanced_from s start 0 [] [])"

definition tvf_before :: "string \<Rightarrow> nat \<Rightarrow> bool" where
  "tvf_before s i \<longleftrightarrow> i > 0 \<and> (isIdentCont (s ! (i - 1)) \<or> s ! (i - 1) = CHR ''.'')"

text \<open>A call of \<open>name\<close> (in lower case) at \<open>i\<close>: its end and arguments.\<close>

definition tvf_call_at :: "string \<Rightarrow> string \<Rightarrow> nat \<Rightarrow> (nat \<times> string list) option" where
  "tvf_call_at s name i =
     (if \<not> EqualFold_word (subslice s i (i + length name)) name then None
      else if tvf_before s i then None
      else let j = skip_while isSpaceByte s (i + length name) in
      if j \<ge> length s \<or> s ! j \<noteq> CHR ''('' then None else scanBalancedArgs s j)"

function tvf_from :: "string \<Rightarrow> string \<Rightarrow> (string list \<Rightarrow> string) \<Rightarrow> nat \<Rightarrow> string option" where
  "tvf_from s name bodyFn i =
     (if i < length s \<and> i + length name \<le> length s then
        let c = s ! i in
        if is_quote c then tvf_from s name bodyFn (scanStringLiteral s i)
        else if c = CHR 0x60 then tvf_from s name bodyFn (quoted_name_end s i)
        else if c = CHR ''-'' \<and> i + 1 < length s \<and> s ! (i + 1) = CHR ''-'' then tvf_from s name bodyFn (comment_end s i)
        else (case tvf_call_at s name i of
                Some (end', args) \<Rightarrow> Some (take i s @ bodyFn args @ drop end' s)
              | None \<Rightarrow> tvf_from s name bodyFn (i + 1))
      else None)"
  by pat_completeness auto
termination
proof (relation "measure (\<lambda>(s, n, f, i). length s - i)", goal_cases)
  case (4 s name bodyFn i c)
  then have "i < comment_end s i" by (intro comment_end_gt) auto
  then show ?case using 4 by (auto intro!: diff_less_mono2)
qed (auto intro!: diff_less_mono2 scanStringLiteral_bounds(1) quoted_name_end_bounds(1))

declare tvf_from.simps [simp del]

definition rewriteTvfCall :: "string \<Rightarrow> string \<Rightarrow> (string list \<Rightarrow> string) \<Rightarrow> string option" where
  "rewriteTvfCall s name bodyFn = tvf_from s name bodyFn 0"

definition no_rows :: string where
  "no_rows = ''(SELECT 1 WHERE FALSE)''"

definition tvfTableRef :: "string list \<Rightarrow> string" where
  "tvfTableRef args =
     (case args of
        [] \<Rightarrow> no_rows
      | a # _ \<Rightarrow>
          (let first = TrimSpace a;
               first' = (if EqualFold_word (take 5 first) ''table'' then TrimSpace (drop 5 first) else first)
           in if first' = [] then no_rows else first'))"

definition buildAppendsBody :: "string list \<Rightarrow> string" where
  "buildAppendsBody args =
     ''(SELECT *, CAST(NULL AS STRING) AS _CHANGE_TYPE, CAST(NULL AS TIMESTAMP) AS _CHANGE_TIMESTAMP FROM ''
     @ tvfTableRef args @ '' WHERE FALSE)''"

definition buildChangesBody :: "string list \<Rightarrow> string" where
  "buildChangesBody args =
     ''(SELECT *, CAST(NULL AS STRING) AS _CHANGE_TYPE, CAST(NULL AS TIMESTAMP) AS _CHANGE_TIMESTAMP, CAST(NULL AS STRING) AS _CHANGE_SEQUENCE_NUMBER FROM ''
     @ tvfTableRef args @ '' WHERE FALSE)''"

definition buildVectorIndexStatisticsBody :: "string list \<Rightarrow> string" where
  "buildVectorIndexStatisticsBody args = ''(SELECT CAST(NULL AS FLOAT64) AS drift FROM (SELECT 1) WHERE FALSE)''"

partial_function (option) tvf_loop :: "string \<Rightarrow> string option" where
  "tvf_loop query =
     (case rewriteTvfCall query ''appends'' buildAppendsBody of
        Some q \<Rightarrow> tvf_loop q
      | None \<Rightarrow>
          (case rewriteTvfCall query ''changes'' buildChangesBody of
             Some q \<Rightarrow> tvf_loop q
           | None \<Rightarrow>
               (case rewriteTvfCall query ''vector_index.statistics'' buildVectorIndexStatisticsBody of
                  Some q \<Rightarrow> tvf_loop q
                | None \<Rightarrow> Some query)))"

definition applyBigQueryTvfStubs :: "string \<Rightarrow> string option" where
  "applyBigQueryTvfStubs query =
     (if \<not> contains (upper_text query) ''APPENDS'' \<and> \<not> contains (upper_text query) ''CHANGES''
         \<and> \<not> contains (upper_text query) ''VECTOR_INDEX''
      then Some query else tvf_loop query)"

section \<open>The pipeline\<close>

definition sqlRewritePipelinePostScriptVars :: "(string \<Rightarrow> string option) list" where
  "sqlRewritePipelinePostScriptVars =
     [applyGapFillRewrite, applyRangeSessionizeRewrite, applyIferrorTypePropagation, applyBigQueryTvfStubs]"

text \<open>The rewrites in the order in which \<open>Analyze\<close> runs them, before the query is parsed.\<close>

definition rewrite_query ::
  "(string \<Rightarrow> 'f sql_value option) \<Rightarrow> ('f \<Rightarrow> string) \<Rightarrow> script_vars option \<Rightarrow> string \<Rightarrow> (string \<times> 'v) list
     \<Rightarrow> (string \<times> (string \<times> 'v) list \<times> script_vars option) option" where
  "rewrite_query query_row formatFloat conn query args =
     (case applyMixedParameterRewrite query args of
        (query1, args') \<Rightarrow>
          do { query2 \<leftarrow> applySQLRewritePipeline query1 sqlRewritePipelinePreScriptVars;
               let (query3, conn') = applyScriptVariables query_row formatFloat query2 conn;
               query4 \<leftarrow> applySQLRewritePipeline query3 sqlRewritePipelinePostScriptVars;
               Some (query4, args', conn') })"

end
