(* ===== verification/Call_Props.thy ===== *)
theory Call_Props
  imports Sql_Calls
begin

text \<open>
  What the call rewrites of \<open>Sql_Calls\<close> do. Argument texts are described by trees (literals, backtick
  names, groups in parentheses and other characters); the locale \<open>piece_scanner\<close> states what a scanner
  has to do at one character to pass over the text of every tree, and is interpreted for the
  parenthesis matcher and the argument splitter. The loop of the stubs ends because the number of
  names it looks for decreases.
\<close>

section \<open>Texts\<close>

datatype piece =
    Code char
  | Lit char string
  | Name string
  | Group "piece list"

fun print_piece :: "piece \<Rightarrow> string" where
  "print_piece (Code c) = [c]"
| "print_piece (Lit q body) = q # body @ [q]"
| "print_piece (Name n) = CHR 0x60 # n @ [CHR 0x60]"
| "print_piece (Group ps) = CHR ''('' # concat (map print_piece ps) @ '')''"

definition print_pieces :: "piece list \<Rightarrow> string" where
  "print_pieces ps = concat (map print_piece ps)"

text \<open>The body of a one-line literal: no bare quote or line break, and no open escape.\<close>

fun lit_body :: "char \<Rightarrow> string \<Rightarrow> bool" where
  "lit_body q [] = True"
| "lit_body q [c] = (c \<noteq> CHR 0x5C \<and> c \<noteq> q \<and> c \<noteq> CHR 0x0A)"
| "lit_body q (c # d # b) =
     (if c = CHR 0x5C then lit_body q b else c \<noteq> q \<and> c \<noteq> CHR 0x0A \<and> lit_body q (d # b))"

definition plain_code :: "char \<Rightarrow> bool" where
  "plain_code c \<longleftrightarrow> \<not> is_quote c \<and> c \<noteq> CHR 0x60 \<and> c \<noteq> CHR ''('' \<and> c \<noteq> CHR '')''"

fun wf_piece :: "piece \<Rightarrow> bool" where
  "wf_piece (Code c) = plain_code c"
| "wf_piece (Lit q body) = (is_quote q \<and> body \<noteq> [] \<and> lit_body q body)"
| "wf_piece (Name n) = (CHR 0x60 \<notin> set n)"
| "wf_piece (Group ps) = list_all wf_piece ps"

text \<open>An argument: well-formed pieces with no comma outside groups.\<close>

definition wf_arg :: "piece list \<Rightarrow> bool" where
  "wf_arg ps \<longleftrightarrow> list_all (\<lambda>p. wf_piece p \<and> p \<noteq> Code (CHR '','')) ps"

section \<open>Scanning a text\<close>

lemma drop_nth: "drop i s = c # r \<Longrightarrow> s ! i = c \<and> i < length s"
  using drop_ConsD [of i s c r] by simp

lemma literal_body_text:
  assumes "drop i s = body @ q # r" "lit_body q body" "is_quote q"
  shows "literal_body s q False i = i + length body + 1"
  using assms
proof (induction q body arbitrary: i rule: lit_body.induct)
  case (1 q)
  then show ?case using drop_nth [of i s q r]
    by (subst literal_body.simps) (auto simp: is_quote_def)
next
  case (2 q c)
  then have "drop i s = c # q # r" "drop (i + 1) s = q # r" using drop_appD [of i s "[c]"] by simp_all
  then have "literal_body s q False (i + 1) = i + 1 + 1"
    using drop_nth [of "i + 1" s q r] "2.prems" by (subst literal_body.simps) (auto simp: is_quote_def)
  then show ?case using \<open>drop i s = c # q # r\<close> drop_nth [of i s c "q # r"] "2.prems"
    by (subst literal_body.simps) simp
next
  case (3 q c d b)
  have d: "drop i s = c # d # b @ q # r" "drop (i + 1) s = d # b @ q # r" "drop (i + 2) s = b @ q # r"
    using "3.prems"(1) drop_appD [of i s "[c]"] drop_appD [of i s "[c, d]"] by simp_all
  note n = drop_nth [OF d(1)] drop_nth [OF d(2)]
  show ?case
  proof (cases "c = CHR 0x5C")
    case True
    then show ?thesis using 3 d n by (subst literal_body.simps) simp
  next
    case False
    then show ?thesis using 3 d n by (subst literal_body.simps) simp
  qed
qed

lemma scanStringLiteral_text:
  assumes "drop i s = print_piece (Lit q body) @ r" "wf_piece (Lit q body)"
  shows "scanStringLiteral s i = i + length (print_piece (Lit q body))"
proof -
  obtain c b where body: "body = c # b" using assms(2) by (cases body) auto
  have d: "drop i s = q # body @ q # r" "drop (i + 1) s = body @ q # r"
    using assms(1) drop_appD [of i s "[q]"] by simp_all
  have "c \<noteq> q" using assms(2) body by (cases b) (auto simp: is_quote_def split: if_splits)
  then have "s ! (i + 1) \<noteq> q" using drop_nth [of "i + 1" s c] d(2) body by simp
  then show ?thesis
    using drop_nth [OF d(1)] literal_body_text [OF d(2)] assms(2) by (simp add: scanStringLiteral_def)
qed

lemma skip_while_text:
  assumes "drop i s = w @ r" "list_all p w" "r = [] \<or> \<not> p (hd r)"
  shows "skip_while p s i = i + length w"
  using assms
proof (induction w arbitrary: i)
  case Nil
  then show ?case using drop_nth [of i s "hd r" "tl r"] drop_NilD [of i s]
    by (subst skip_while.simps) (cases r, auto)
next
  case (Cons c w)
  have "drop (i + 1) s = w @ r" using Cons.prems(1) drop_appD [of i s "[c]"] by simp
  then have "skip_while p s (i + 1) = i + 1 + length w" using Cons by simp
  then show ?case using drop_nth [of i s c] Cons.prems by (subst skip_while.simps) simp
qed

lemma quoted_name_text:
  assumes "drop i s = print_piece (Name n) @ r" "wf_piece (Name n)"
  shows "quoted_name_end s i = i + length (print_piece (Name n))"
proof -
  have d: "drop (i + 1) s = n @ CHR 0x60 # r" using assms(1) drop_appD [of i s "[CHR 0x60]"] by simp
  then have "skip_while (\<lambda>c. c \<noteq> CHR 0x60) s (i + 1) = i + 1 + length n"
    using assms(2) by (intro skip_while_text [OF d]) (auto simp: list_all_iff)
  moreover have "i + 1 + length n < length s"
    using drop_appD [OF d] by (metis drop_eq_Nil2 leI list.distinct(1))
  ultimately show ?thesis by (simp add: quoted_name_end_def)
qed

text \<open>
  What a scanner that counts parentheses does at one character. Above the depth \<open>base\<close> it passes over
  parentheses; a comma may mean something at depth 0.
\<close>

locale piece_scanner =
  fixes scan :: "string \<Rightarrow> nat \<Rightarrow> int \<Rightarrow> 'a" and base :: int
  assumes base_nonneg: "0 \<le> base"
    and at_quote: "i < length s \<Longrightarrow> is_quote (s ! i) \<Longrightarrow> scan s i d = scan s (scanStringLiteral s i) d"
    and at_backtick: "i < length s \<Longrightarrow> s ! i = CHR 0x60 \<Longrightarrow> scan s i d = scan s (quoted_name_end s i) d"
    and at_open: "i < length s \<Longrightarrow> s ! i = CHR ''('' \<Longrightarrow> scan s i d = scan s (i + 1) (d + 1)"
    and at_close: "i < length s \<Longrightarrow> s ! i = CHR '')'' \<Longrightarrow> base < d \<Longrightarrow> scan s i d = scan s (i + 1) (d - 1)"
    and at_code: "i < length s \<Longrightarrow> plain_code (s ! i) \<Longrightarrow> s ! i \<noteq> CHR '','' \<or> 0 < d \<Longrightarrow> scan s i d = scan s (i + 1) d"
begin

lemma skip_list:
  assumes "\<And>p i r d. p \<in> set ps \<Longrightarrow> drop i s = print_piece p @ r \<Longrightarrow> base \<le> d \<Longrightarrow> 0 < d \<or> p \<noteq> Code (CHR '','')
      \<Longrightarrow> scan s i d = scan s (i + length (print_piece p)) d"
    and "drop i s = print_pieces ps @ r" "base \<le> d" "0 < d \<or> Code (CHR '','') \<notin> set ps"
  shows "scan s i d = scan s (i + length (print_pieces ps)) d"
  using assms
proof (induction ps arbitrary: i)
  case Nil
  then show ?case by (simp add: print_pieces_def)
next
  case (Cons p ps)
  have d: "drop i s = print_piece p @ print_pieces ps @ r" using Cons.prems(2) by (simp add: print_pieces_def)
  have "scan s i d = scan s (i + length (print_piece p)) d"
    using Cons.prems(1) [of p i] d Cons.prems(3,4) by auto
  also have "\<dots> = scan s (i + length (print_piece p) + length (print_pieces ps)) d"
    using Cons.prems(1,3,4) drop_appD [OF d] by (intro Cons.IH) auto
  finally show ?case by (simp add: print_pieces_def add.assoc)
qed

lemma skip_piece:
  assumes "wf_piece p" "drop i s = print_piece p @ r" "base \<le> d" "0 < d \<or> p \<noteq> Code (CHR '','')"
  shows "scan s i d = scan s (i + length (print_piece p)) d"
  using assms
proof (induction p arbitrary: i r d)
  case (Code c)
  then show ?case using drop_nth [of i s c r] at_code [of i s d] by auto
next
  case (Lit q body)
  then show ?case using drop_nth [of i s q] at_quote [of i s d] scanStringLiteral_text [of i s q body r] by simp
next
  case (Name n)
  then show ?case using drop_nth [of i s "CHR 0x60"] at_backtick [of i s d] quoted_name_text [of i s n r] by simp
next
  case (Group ps)
  have d: "drop i s = CHR ''('' # print_pieces ps @ CHR '')'' # r" using Group.prems(2) by (simp add: print_pieces_def)
  have d1: "drop (i + 1) s = print_pieces ps @ CHR '')'' # r" using d drop_appD [of i s "''(''"] by simp
  have d2: "drop (i + 1 + length (print_pieces ps)) s = CHR '')'' # r" using drop_appD [OF d1] by simp
  have "scan s i d = scan s (i + 1) (d + 1)" using drop_nth [OF d] at_open by simp
  also have "\<dots> = scan s (i + 1 + length (print_pieces ps)) (d + 1)"
    using Group.prems(1,3) base_nonneg by (intro skip_list [OF _ d1] Group.IH) (auto simp: list_all_iff)
  also have "\<dots> = scan s (i + 1 + length (print_pieces ps) + 1) d"
    using drop_nth [OF d2] at_close [of "i + 1 + length (print_pieces ps)" s "d + 1"] Group.prems(3) by simp
  finally show ?case by (simp add: print_pieces_def add.assoc)
qed

lemma skip_pieces:
  assumes "list_all wf_piece ps" "drop i s = print_pieces ps @ r" "base \<le> d" "0 < d \<or> Code (CHR '','') \<notin> set ps"
  shows "scan s i d = scan s (i + length (print_pieces ps)) d"
  using assms(1,3,4) by (intro skip_list [OF _ assms(2)] skip_piece) (auto simp: list_all_iff)

end

interpretation closer: piece_scanner close_from 1
  by unfold_locales ((subst close_from.simps)?, auto simp: Let_def plain_code_def is_quote_def)+

interpretation splitter: piece_scanner "\<lambda>s i d. args_from s i start d" 0 for start
  by unfold_locales ((subst args_from.simps)?, auto simp: Let_def plain_code_def is_quote_def)+

section \<open>Finding a call and splitting its arguments\<close>

lemma matching_paren_text:
  assumes "drop i s = CHR ''('' # print_pieces ps @ CHR '')'' # r" "list_all wf_piece ps"
  shows "matchingCloseParen s i = Some (i + 1 + length (print_pieces ps))"
proof -
  have d: "drop (i + 1) s = print_pieces ps @ CHR '')'' # r" using assms(1) drop_appD [of i s "''(''"] by simp
  have "close_from s i 0 = close_from s (i + 1) 1" using drop_nth [OF assms(1)] by (subst close_from.simps) simp
  also have "\<dots> = close_from s (i + 1 + length (print_pieces ps)) 1"
    using closer.skip_pieces [OF assms(2) d] by simp
  also have "\<dots> = Some (i + 1 + length (print_pieces ps))"
    using drop_nth [OF drop_appD [OF d]] by (subst close_from.simps) simp
  finally show ?thesis by (simp add: matchingCloseParen_def)
qed

text \<open>The text of an argument list.\<close>

definition print_args :: "piece list list \<Rightarrow> string" where
  "print_args args = join_with '','' (map print_pieces args)"

lemma args_from_text:
  assumes "list_all wf_arg args" "args \<noteq> []" "drop i s = print_args args"
  shows "args_from s i i 0 = map print_pieces args"
  using assms
proof (induction args arbitrary: i)
  case (Cons a args)
  have wf: "list_all wf_piece a" "Code (CHR '','') \<notin> set a"
    using Cons.prems(1) by (auto simp: wf_arg_def list_all_iff)
  show ?case
  proof (cases args)
    case Nil
    then have d: "drop i s = print_pieces a @ []" using Cons.prems(3) by (simp add: print_args_def)
    have "args_from s i i 0 = args_from s (i + length (print_pieces a)) i 0"
      using splitter.skip_pieces [OF wf(1) d] wf(2) by simp
    moreover have "\<not> i + length (print_pieces a) < length s" using drop_appD [OF d] by simp
    ultimately show ?thesis using Nil d by (simp add: args_from.simps [of s "i + length (print_pieces a)"])
  next
    case (Cons b bs)
    let ?j = "i + length (print_pieces a)"
    have d: "drop i s = print_pieces a @ CHR '','' # print_args args"
      using Cons.prems(3) Cons by (simp add: print_args_def)
    have d1: "drop ?j s = CHR '','' # print_args args" using drop_appD [OF d] .
    have d2: "drop (?j + 1) s = print_args args" using drop_appD [of ?j s "'',''"] d1 by simp
    have "args_from s i i 0 = args_from s ?j i 0" using splitter.skip_pieces [OF wf(1) d] wf(2) by simp
    also have "\<dots> = subslice s i ?j # args_from s (?j + 1) (?j + 1) 0"
      using drop_nth [OF d1] by (subst args_from.simps) (simp add: is_quote_def)
    finally show ?thesis using Cons.IH [OF _ _ d2] Cons.prems(1) Cons d by (simp add: subslice_app [OF d])
  qed
qed simp

lemma splitTopLevelArgs_text:
  "list_all wf_arg args \<Longrightarrow> args \<noteq> [] \<Longrightarrow> splitTopLevelArgs (print_args args) = map print_pieces args"
  unfolding splitTopLevelArgs_def by (rule args_from_text) simp_all

lemma print_args_pieces:
  "list_all wf_arg args \<Longrightarrow> \<exists>ps. list_all wf_piece ps \<and> print_args args = print_pieces ps"
proof (induction args)
  case Nil
  then show ?case by (intro exI [of _ "[]"]) (simp add: print_args_def print_pieces_def)
next
  case (Cons a args)
  then obtain ps where ps: "list_all wf_piece ps" "print_args args = print_pieces ps" by auto
  have a: "list_all wf_piece a" using Cons.prems by (auto simp: wf_arg_def list_all_iff)
  show ?case
  proof (cases args)
    case Nil
    then show ?thesis using a by (intro exI [of _ a]) (simp add: print_args_def)
  next
    case (Cons b bs)
    then show ?thesis using a ps
      by (intro exI [of _ "a @ Code (CHR '','') # ps"])
         (simp add: print_args_def print_pieces_def plain_code_def is_quote_def)
  qed
qed

lemma matching_paren_args:
  assumes "drop i s = CHR ''('' # print_args args @ CHR '')'' # r" "list_all wf_arg args"
  shows "matchingCloseParen s i = Some (i + 1 + length (print_args args))"
  using print_args_pieces [OF assms(2)] matching_paren_text [of i s _ r] assms(1) by auto

definition ident :: "string \<Rightarrow> bool" where
  "ident w \<longleftrightarrow> w \<noteq> [] \<and> isIdentStart (hd w) \<and> list_all isIdentCont w"

lemma ident_end_text:
  assumes "drop i s = w @ r" "ident w" "r = [] \<or> \<not> isIdentCont (hd r)"
  shows "ident_end s i = i + length w"
proof -
  obtain c w' where w: "w = c # w'" using assms(2) by (cases w) (auto simp: ident_def)
  then have "drop (i + 1) s = w' @ r" using assms(1) drop_appD [of i s "[c]"] by simp
  then have "skip_while isIdentCont s (i + 1) = i + 1 + length w'"
    using assms(2,3) w by (intro skip_while_text) (auto simp: ident_def)
  then show ?thesis using w by (simp add: ident_end_def)
qed

lemma ident_start_plain: "isIdentStart c \<Longrightarrow> \<not> is_quote c \<and> c \<noteq> CHR 0x60 \<and> c \<noteq> CHR ''-'' \<and> c \<noteq> CHR ''(''"
  by (auto simp: isIdentStart_def is_quote_def byte_in_def)

lemma space_not_ident: "isSpaceByte c \<Longrightarrow> \<not> isIdentCont c"
  by (auto simp: isSpaceByte_def isIdentCont_def isIdentStart_def byte_in_def)

lemma find_call_text:
  assumes "drop i s = w @ ws @ CHR ''('' # print_args args @ CHR '')'' # r" "ident w" "list_all isSpaceByte ws"
    "is_name w" "list_all wf_arg args"
  shows "find_call is_name s i
    = Some (i, i + length w + length ws + 1 + length (print_args args) + 1, print_args args)"
proof -
  let ?j = "i + length w"
  have hd: "hd (ws @ CHR ''('' # x) = CHR ''('' \<or> isSpaceByte (hd (ws @ CHR ''('' # x))" for x
    using assms(3) by (cases ws) auto
  have "\<not> isIdentCont (CHR ''('')" by (simp add: isIdentCont_def isIdentStart_def byte_in_def)
  then have j: "ident_end s i = ?j"
    using hd space_not_ident by (intro ident_end_text [OF assms(1,2)]) metis
  have dj: "drop ?j s = ws @ CHR ''('' # print_args args @ CHR '')'' # r" using drop_appD [OF assms(1)] .
  have k: "skip_while isSpaceByte s ?j = ?j + length ws"
    using assms(3) by (intro skip_while_text [OF dj]) (auto simp: isSpaceByte_def)
  have dk: "drop (?j + length ws) s = CHR ''('' # print_args args @ CHR '')'' # r" using drop_appD [OF dj] .
  have da: "drop (?j + length ws + 1) s = print_args args @ CHR '')'' # r"
    using drop_appD [of "?j + length ws" s "''(''"] dk by simp
  obtain c w' where w: "w = c # w'" "isIdentStart c" using assms(2) by (cases w) (auto simp: ident_def)
  have c: "i < length s" "isIdentStart (s ! i)" using drop_nth [of i s c] assms(1) w by auto
  then show ?thesis
    using ident_start_plain [OF c(2)] assms(4) drop_nth [OF dk] matching_paren_args [OF dk assms(5)]
      subslice_app [OF assms(1)] subslice_app [OF da]
    by (subst find_call.simps) (simp add: j k Let_def)
qed

section \<open>Nested IFERROR\<close>

lemma graphic_letters: "graphic (CHR ''I'')" "graphic (CHR ''E'')" "graphic (CHR '')'')"
  by (simp_all add: graphic_def)

lemma starts_with_call_text:
  assumes "list_all wf_piece ps" "EqualFold_word w name" "length w = length name"
  shows "startsWithCallIdent (w @ CHR ''('' # print_pieces ps @ '')'') name"
proof -
  let ?e = "w @ CHR ''('' # print_pieces ps @ '')''"
  have d: "drop (length w) ?e = CHR ''('' # print_pieces ps @ CHR '')'' # []" by simp
  have "skip_while isSpaceByte ?e (length w) = length w + length []"
    using skip_while_text [of "length w" ?e "[]" "CHR ''('' # print_pieces ps @ '')''" isSpaceByte]
    by (simp add: isSpaceByte_def)
  moreover have "?e ! length w = CHR ''(''" by (rule nth_append_length)
  ultimately show ?thesis using assms matching_paren_text [OF d assms(1)] by (simp add: startsWithCallIdent_def Let_def)
qed

text \<open>\<open>IFERROR(ERROR(a), ERROR(b))\<close>.\<close>

definition error_call :: "piece list \<Rightarrow> piece list" where
  "error_call a = map Code ''ERROR'' @ [Group a]"

definition two_errors :: "piece list \<Rightarrow> piece list \<Rightarrow> string" where
  "two_errors a b = ''IFERROR('' @ print_args [error_call a, Code (CHR '' '') # error_call b] @ '')''"

lemma print_error_call: "print_pieces (error_call a) = ''ERROR('' @ print_pieces a @ '')''"
  by (simp add: error_call_def print_pieces_def)

lemma print_two_errors:
  "two_errors a b = ''IFERROR(ERROR('' @ print_pieces a @ ''), ERROR('' @ print_pieces b @ ''))''"
  by (simp add: two_errors_def print_args_def print_error_call) (simp add: print_pieces_def error_call_def)

lemma wf_error_call: "list_all wf_piece a \<Longrightarrow> wf_arg (error_call a)"
  by (simp add: wf_arg_def error_call_def plain_code_def is_quote_def)

lemma trim_left_blank: "trim_left utf8_space_seqs (CHR '' '' # s) = trim_left utf8_space_seqs s"
  by (subst trim_left.simps) (simp add: space_len_def ascii_space_def)

lemma TrimSpace_blank: "graphic (hd s) \<and> graphic (last s) \<Longrightarrow> TrimSpace (CHR '' '' # s) = s"
  using TrimSpace_graphic [of s] by (simp add: TrimSpace_def trim_left_blank)

lemma two_errors_recognised:
  assumes "list_all wf_piece a" "list_all wf_piece b"
  shows "isIferrorOfTwoErrors (two_errors a b)" "TrimSpace (two_errors a b) = two_errors a b"
proof -
  let ?e = "two_errors a b" and ?args = "[error_call a, Code (CHR '' '') # error_call b]"
  have l: "lower_char (CHR ''I'') = CHR ''i''" "lower_char (CHR ''F'') = CHR ''f''" "lower_char (CHR ''E'') = CHR ''e''"
    "lower_char (CHR ''R'') = CHR ''r''" "lower_char (CHR ''O'') = CHR ''o''"
    by (simp_all add: lower_char_def char_of_eq_iff)
  show t: "TrimSpace ?e = ?e" by (rule TrimSpace_graphic) (simp add: two_errors_def graphic_letters)
  have wf: "list_all wf_arg ?args"
    using assms wf_error_call by (simp add: wf_arg_def plain_code_def is_quote_def)
  have d: "drop 7 ?e = CHR ''('' # print_args ?args @ CHR '')'' # []" by (simp add: two_errors_def)
  have len: "length ?e = 9 + length (print_args ?args)" by (simp add: two_errors_def)
  have k: "skip_while isSpaceByte ?e 7 = 7"
    using skip_while_text [of 7 ?e "[]" "CHR ''('' # print_args ?args @ '')''" isSpaceByte] d by (simp add: isSpaceByte_def)
  have close: "matchingCloseParen ?e 7 = Some (length ?e - 1)" using matching_paren_args [OF d wf] len by simp
  have "drop 8 ?e = print_args ?args @ '')''" by (simp add: two_errors_def)
  then have inner: "subslice ?e 8 (length ?e - 1) = print_args ?args" using len by (simp add: subslice_def)
  have s: "splitTopLevelArgs (print_args ?args) = map print_pieces ?args" by (rule splitTopLevelArgs_text [OF wf]) simp
  have "print_pieces (Code (CHR '' '') # error_call b) = CHR '' '' # print_pieces (error_call b)"
    by (simp add: print_pieces_def)
  then have tb: "TrimSpace (print_pieces (Code (CHR '' '') # error_call b)) = print_pieces (error_call b)"
    using TrimSpace_blank [of "print_pieces (error_call b)"] by (simp add: print_error_call graphic_letters)
  have ta: "TrimSpace (print_pieces (error_call a)) = print_pieces (error_call a)"
    by (rule TrimSpace_graphic) (simp add: print_error_call graphic_letters)
  have "startsWithCallIdent (print_pieces (error_call x)) ''error''" if "list_all wf_piece x" for x
    using starts_with_call_text [OF that, of "''ERROR''" "''error''"] l by (simp add: print_error_call)
  then have "list_all (\<lambda>x. startsWithCallIdent (TrimSpace x) ''error'') (map print_pieces ?args)"
    using assms ta tb by simp
  moreover have "EqualFold_word (take 7 ?e) ''iferror''" using l by (simp add: two_errors_def)
  moreover have "?e \<noteq> [] \<and> last ?e = CHR '')''" "?e ! 7 = CHR ''(''" by (simp_all add: two_errors_def)
  ultimately show "isIferrorOfTwoErrors ?e"
    using k close inner s len by (simp add: isIferrorOfTwoErrors_def t)
qed

lemma try_rewrite_text:
  assumes "drop i s = CHR ''('' # print_args [ps, Code (CHR '' '') # lp] @ CHR '')'' # r"
    "print_pieces ps = two_errors a b" "wf_arg ps" "wf_arg lp" "list_all wf_piece a" "list_all wf_piece b"
    "graphic (hd (print_pieces lp)) \<and> graphic (last (print_pieces lp))" "literalTypeName (print_pieces lp) = Some T"
  shows "tryRewriteOuterIferror s i = Some (take i s @ ''(SAFE_CAST('' @ two_errors a b @ '' AS '' @ T @ ''), ''
    @ print_pieces lp @ '')'' @ r)"
proof -
  let ?args = "[ps, Code (CHR '' '') # lp]"
  have wf: "list_all wf_arg ?args" using assms(3,4) by (simp add: wf_arg_def plain_code_def is_quote_def)
  have k: "skip_while isSpaceByte s i = i"
    using skip_while_text [of i s "[]" "CHR ''('' # print_args ?args @ CHR '')'' # r" isSpaceByte] assms(1)
    by (simp add: isSpaceByte_def)
  have c: "i < length s" "s ! i = CHR ''(''" using drop_nth [OF assms(1)] by auto
  have d: "drop (i + 1) s = print_args ?args @ CHR '')'' # r" using assms(1) drop_appD [of i s "''(''"] by simp
  have close: "matchingCloseParen s i = Some (i + 1 + length (print_args ?args))"
    using matching_paren_args [OF assms(1) wf] .
  have split: "splitTopLevelArgs (print_args ?args) = map print_pieces ?args" by (rule splitTopLevelArgs_text [OF wf]) simp
  have "print_pieces (Code (CHR '' '') # lp) = CHR '' '' # print_pieces lp" by (simp add: print_pieces_def)
  then have b: "TrimSpace (print_pieces (Code (CHR '' '') # lp)) = print_pieces lp" using TrimSpace_blank assms(7) by simp
  have "take (i + 1) s = take i s @ ''(''" using c by (simp add: take_Suc_conv_app_nth)
  moreover have "drop (i + 1 + length (print_args ?args)) s = CHR '')'' # r" using drop_appD [OF d] .
  ultimately show ?thesis
    using k c close split b subslice_app [OF d] two_errors_recognised [OF assms(5,6)] assms(2,8)
    by (simp add: tryRewriteOuterIferror_def Let_def)
qed

section \<open>The loop of the stubs\<close>

text \<open>A name, given in lower case, at the start of a text in any case, and the number of places where it stands.\<close>

fun name_at :: "string \<Rightarrow> string \<Rightarrow> bool" where
  "name_at [] s = True"
| "name_at (x # n) [] = False"
| "name_at (x # n) (c # s) = (if lower_char c = x then name_at n s else False)"

fun occ :: "string \<Rightarrow> string \<Rightarrow> nat" where
  "occ n [] = 0"
| "occ n (c # s) = (if name_at n (c # s) then Suc (occ n s) else occ n s)"

lemma name_at_app: "name_at n s \<Longrightarrow> name_at n (s @ t)"
  by (induction n s rule: name_at.induct) (auto split: if_splits)

lemma name_at_sep: "name_at n (a @ c # b) \<Longrightarrow> lower_char c \<notin> set n \<Longrightarrow> name_at n a"
proof (induction n a rule: name_at.induct)
  case (2 x n)
  then show ?case by (simp split: if_splits)
qed (auto split: if_splits)

lemma occ_sep: "n \<noteq> [] \<Longrightarrow> lower_char c \<notin> set n \<Longrightarrow> occ n (a @ c # b) = occ n a + occ n b"
proof (induction a)
  case Nil
  then have "\<not> name_at n (c # b)" by (cases n) auto
  then show ?case by simp
next
  case (Cons x a)
  then have "name_at n (x # a @ c # b) = name_at n (x # a)"
    using name_at_sep [of n "x # a" c b] name_at_app [of n "x # a" "c # b"] by auto
  then show ?case using Cons by simp
qed

lemma occ_append_ge: "occ n a + occ n b \<le> occ n (a @ b)"
proof (induction a)
  case (Cons x a)
  then show ?case using name_at_app [of n "x # a" b] by simp
qed simp

lemma occ_infix: "occ n m \<le> occ n (a @ m @ b)"
  using occ_append_ge [of n a "m @ b"] occ_append_ge [of n m b] by simp

lemma trim_left_suffix: "\<exists>a. s = a @ trim_left seqs s"
proof (induction seqs s rule: trim_left.induct)
  case (1 seqs s)
  show ?case
  proof (cases "s \<noteq> [] \<and> 0 < space_len seqs s")
    case True
    then obtain a where "drop (space_len seqs s) s = a @ trim_left seqs (drop (space_len seqs s) s)" using 1 by blast
    then have "s = (take (space_len seqs s) s @ a) @ trim_left seqs (drop (space_len seqs s) s)"
      by (metis append.assoc append_take_drop_id)
    then show ?thesis using True trim_left.simps [of seqs s] by metis
  qed (use trim_left.simps [of seqs s] in auto)
qed

lemma TrimSpace_infix: "\<exists>a b. s = a @ TrimSpace s @ b"
proof -
  let ?l = "trim_left utf8_space_seqs s"
  obtain a where a: "s = a @ ?l" using trim_left_suffix by blast
  obtain b where "rev ?l = b @ trim_left (map rev utf8_space_seqs) (rev ?l)" using trim_left_suffix by blast
  then have "?l = TrimSpace s @ rev b" unfolding TrimSpace_def by (metis rev_append rev_rev_ident)
  then show ?thesis using a by metis
qed

lemma occ_TrimSpace: "occ n (TrimSpace s) \<le> occ n s"
  using TrimSpace_infix [of s] occ_infix by metis

lemma fold_word_name:
  "EqualFold_word v w \<Longrightarrow> length w \<le> length v \<and> (length v = length w \<longrightarrow> map lower_char v = w)"
proof (induction v w rule: EqualFold_word.induct)
  case (2 c cs w ws)
  then show ?case by (auto split: if_splits list.splits)
qed auto

lemma name_at_map: "map lower_char v = n \<Longrightarrow> name_at n (v @ r)"
  by (induction v arbitrary: n) auto

lemma subslice_step:
  assumes "i < k" "k \<le> e"
  shows "subslice s i k @ subslice s k e = subslice s i e"
proof -
  have "e - i = (k - i) + (e - k)" "k - i + i = k" using assms by simp_all
  then show ?thesis unfolding subslice_def by (metis drop_drop take_add)
qed

text \<open>The result of the argument scan: it ends inside the text, and the first argument is the trimmed text up to some point.\<close>

definition first_arg :: "string \<Rightarrow> nat \<Rightarrow> string list \<Rightarrow> string \<Rightarrow> nat \<times> string list \<Rightarrow> bool" where
  "first_arg s i args cur r \<longleftrightarrow> i < fst r \<and> fst r \<le> length s
     \<and> (if args \<noteq> [] then snd r \<noteq> [] \<and> hd (snd r) = hd args
        else snd r = [] \<or> (\<exists>k. i \<le> k \<and> k < fst r \<and> hd (snd r) = TrimSpace (cur @ subslice s i k)))"

lemma first_arg_step:
  assumes "first_arg s e args (cur @ subslice s i e) r" "i < e"
  shows "first_arg s i args cur r"
proof (cases "args = [] \<and> snd r \<noteq> []")
  case True
  then obtain k where k: "e \<le> k" "k < fst r" "fst r \<le> length s"
      "hd (snd r) = TrimSpace ((cur @ subslice s i e) @ subslice s e k)"
    using assms(1) by (auto simp: first_arg_def)
  then have "hd (snd r) = TrimSpace (cur @ subslice s i k)" using subslice_step [of i e k s] assms(2) by simp
  then show ?thesis using k assms(2) True by (auto simp: first_arg_def intro!: exI [of _ k])
qed (use assms in \<open>auto simp: first_arg_def\<close>)

lemma subslice_one: "i < length s \<Longrightarrow> subslice s i (i + 1) = [s ! i]"
  using subslice_Cons [of i "i + 1" s] by (simp add: subslice_def)

lemma balanced_from_first:
  "balanced_from s i d args cur = Some r \<Longrightarrow> 1 \<le> d \<Longrightarrow> first_arg s i args cur r"
proof (induction s i d args cur arbitrary: r rule: balanced_from.induct)
  case (1 s i d args cur)
  have i: "i < length s" using "1.prems"(1) by (subst (asm) balanced_from.simps) (simp split: if_splits)
  note b = scanStringLiteral_bounds [OF i] quoted_name_end_bounds [OF i]
  note one = subslice_one [OF i]
  note eq = "1.prems"(1) [unfolded balanced_from.simps [of s i d args cur] Let_def]
  have one_step: "first_arg s i args cur r" if "first_arg s (i + 1) args (cur @ [s ! i]) r"
    using first_arg_step [of s "i + 1" args cur i r] that one by simp
  have comma: "first_arg s i args cur r" if "first_arg s (i + 1) (args @ [TrimSpace cur]) [] r"
    using that by (auto simp: first_arg_def hd_append subslice_def split: if_splits intro!: exI [of _ i])
  consider "s ! i = CHR ''(''" | "s ! i = CHR '')''" | "s ! i = CHR '',''" | "is_quote (s ! i)"
    | "s ! i = CHR 0x60" | "plain_code (s ! i)" "s ! i \<noteq> CHR '',''"
    by (auto simp: plain_code_def)
  then show ?case
  proof cases
    case 1
    then show ?thesis using eq i "1.prems"(2) "1.IH"(1) [OF i refl 1] one_step by simp
  next
    case 2
    show ?thesis
    proof (cases "d - 1 = 0")
      case True
      then have "r = (i + 1, if cur \<noteq> [] \<or> args \<noteq> [] then args @ [TrimSpace cur] else args)"
        using eq i 2 by simp
      then show ?thesis using i by (auto simp: first_arg_def subslice_def hd_append intro!: exI [of _ i])
    next
      case False
      then show ?thesis using eq i 2 "1.prems"(2) "1.IH"(2) [OF i refl _ 2 False] one_step by simp
    qed
  next
    case 3
    then show ?thesis using eq i "1.prems"(2) "1.IH"(3) [OF i refl _ _ 3] "1.IH"(4) [OF i refl _ _ 3] comma one_step
      by (cases "d = 1") simp_all
  next
    case 4
    then have "s ! i \<noteq> CHR ''(''" "s ! i \<noteq> CHR '')''" "s ! i \<noteq> CHR '',''" by (auto simp: is_quote_def)
    then show ?thesis using eq i "1.prems"(2) "1.IH"(5) [OF i refl _ _ _ 4 refl] b first_arg_step 4 by simp
  next
    case 5
    then show ?thesis using eq i "1.prems"(2) "1.IH"(6) [OF i refl _ _ _ _ 5 refl] b first_arg_step by simp
  next
    case 6
    then have "s ! i \<noteq> CHR ''(''" "s ! i \<noteq> CHR '')''" "\<not> is_quote (s ! i)" "s ! i \<noteq> CHR 0x60"
      by (auto simp: plain_code_def)
    then show ?thesis using eq i "1.prems"(2) "1.IH"(7) [OF i refl] 6 one_step by simp
  qed
qed

lemma occ_drop_mono: "i \<le> j \<Longrightarrow> occ n (drop j s) \<le> occ n (drop i s)"
  using occ_append_ge [of n "take (j - i) (drop i s)" "drop j s"]
  by (metis add_leE append_take_drop_id drop_drop le_add_diff_inverse2)

lemma occ_take_drop: "occ n (take i s) + occ n (drop i s) \<le> occ n s"
  using occ_append_ge [of n "take i s" "drop i s"] by simp

lemma occ_subslice: "i \<le> k \<Longrightarrow> occ n (subslice s i k) + occ n (drop k s) \<le> occ n (drop i s)"
  using occ_append_ge [of n "take (k - i) (drop i s)" "drop (k - i) (drop i s)"]
  unfolding append_take_drop_id by (simp add: subslice_def)

lemma occ_name:
  assumes "EqualFold_word (subslice s i (i + length nm)) nm" "i + length nm \<le> length s" "nm \<noteq> []"
  shows "(if n = nm then 1 else 0) + occ n (drop (i + length nm) s) \<le> occ n (drop i s)"
proof (cases "n = nm")
  case True
  let ?v = "subslice s i (i + length nm)"
  have v: "drop i s = ?v @ drop (i + length nm) s" using subslice_drop [of i "i + length nm" s] assms(2) by simp
  have len: "length ?v = length nm" using assms(2) by (simp add: subslice_def)
  have "map lower_char ?v = nm" using fold_word_name [OF assms(1)] len by blast
  then have at: "name_at nm (?v @ drop (i + length nm) s)" by (rule name_at_map)
  obtain c w where w: "?v = c # w" using len assms(3) by (cases ?v) auto
  have "occ nm (drop i s) = Suc (occ nm (w @ drop (i + length nm) s))"
    unfolding v using at unfolding w by simp
  then show ?thesis using True occ_append_ge [of nm w "drop (i + length nm) s"] by simp
qed (use occ_drop_mono [of i "i + length nm" n s] in simp)

text \<open>The names of the stubs, and the pieces of the replacements.\<close>

definition tvf_name :: "string \<Rightarrow> bool" where
  "tvf_name n \<longleftrightarrow> n = ''appends'' \<or> n = ''changes'' \<or> n = ''vector_index.statistics''"

lemma tvf_name_sep:
  "tvf_name n \<Longrightarrow> n \<noteq> [] \<and> lower_char (CHR ''('') \<notin> set n \<and> lower_char (CHR '' '') \<notin> set n \<and> lower_char (CHR '')'') \<notin> set n"
  by (auto simp: tvf_name_def lower_char_def)

lemma occ_body:
  "tvf_name n \<Longrightarrow> occ n (a @ CHR ''('' # P @ CHR '' '' # ref @ CHR '' '' # Q @ CHR '')'' # b)
     = occ n a + occ n P + occ n ref + occ n Q + occ n b"
  using tvf_name_sep [of n] by (simp add: occ_sep)

lemma lower_char_table:
  "lower_char (CHR ''A'') = CHR ''a''" "lower_char (CHR ''B'') = CHR ''b''" "lower_char (CHR ''C'') = CHR ''c''"
    "lower_char (CHR ''D'') = CHR ''d''" "lower_char (CHR ''E'') = CHR ''e''" "lower_char (CHR ''F'') = CHR ''f''"
    "lower_char (CHR ''G'') = CHR ''g''" "lower_char (CHR ''H'') = CHR ''h''" "lower_char (CHR ''I'') = CHR ''i''"
    "lower_char (CHR ''J'') = CHR ''j''" "lower_char (CHR ''K'') = CHR ''k''" "lower_char (CHR ''L'') = CHR ''l''"
    "lower_char (CHR ''M'') = CHR ''m''" "lower_char (CHR ''N'') = CHR ''n''" "lower_char (CHR ''O'') = CHR ''o''"
    "lower_char (CHR ''P'') = CHR ''p''" "lower_char (CHR ''Q'') = CHR ''q''" "lower_char (CHR ''R'') = CHR ''r''"
    "lower_char (CHR ''S'') = CHR ''s''" "lower_char (CHR ''T'') = CHR ''t''" "lower_char (CHR ''U'') = CHR ''u''"
    "lower_char (CHR ''V'') = CHR ''v''" "lower_char (CHR ''W'') = CHR ''w''" "lower_char (CHR ''X'') = CHR ''x''"
    "lower_char (CHR ''Y'') = CHR ''y''" "lower_char (CHR ''Z'') = CHR ''z''" "lower_char (CHR ''a'') = CHR ''a''"
    "lower_char (CHR ''b'') = CHR ''b''" "lower_char (CHR ''c'') = CHR ''c''" "lower_char (CHR ''d'') = CHR ''d''"
    "lower_char (CHR ''e'') = CHR ''e''" "lower_char (CHR ''f'') = CHR ''f''" "lower_char (CHR ''g'') = CHR ''g''"
    "lower_char (CHR ''h'') = CHR ''h''" "lower_char (CHR ''i'') = CHR ''i''" "lower_char (CHR ''j'') = CHR ''j''"
    "lower_char (CHR ''k'') = CHR ''k''" "lower_char (CHR ''l'') = CHR ''l''" "lower_char (CHR ''m'') = CHR ''m''"
    "lower_char (CHR ''n'') = CHR ''n''" "lower_char (CHR ''o'') = CHR ''o''" "lower_char (CHR ''p'') = CHR ''p''"
    "lower_char (CHR ''q'') = CHR ''q''" "lower_char (CHR ''r'') = CHR ''r''" "lower_char (CHR ''s'') = CHR ''s''"
    "lower_char (CHR ''t'') = CHR ''t''" "lower_char (CHR ''u'') = CHR ''u''" "lower_char (CHR ''v'') = CHR ''v''"
    "lower_char (CHR ''w'') = CHR ''w''" "lower_char (CHR ''x'') = CHR ''x''" "lower_char (CHR ''y'') = CHR ''y''"
    "lower_char (CHR ''z'') = CHR ''z''" "lower_char (CHR ''('') = CHR ''(''" "lower_char (CHR '')'') = CHR '')''"
    "lower_char (CHR '','') = CHR '',''" "lower_char (CHR ''*'') = CHR ''*''" "lower_char (CHR ''_'') = CHR ''_''"
    "lower_char (CHR ''.'') = CHR ''.''" "lower_char (CHR ''0'') = CHR ''0''" "lower_char (CHR ''1'') = CHR ''1''"
    "lower_char (CHR ''2'') = CHR ''2''" "lower_char (CHR ''3'') = CHR ''3''" "lower_char (CHR ''4'') = CHR ''4''"
    "lower_char (CHR ''5'') = CHR ''5''" "lower_char (CHR ''6'') = CHR ''6''" "lower_char (CHR ''7'') = CHR ''7''"
    "lower_char (CHR ''8'') = CHR ''8''" "lower_char (CHR ''9'') = CHR ''9''" "lower_char (CHR '' '') = CHR '' ''"
  by (simp_all add: lower_char_def char_of_eq_iff)

lemma occ_templates:
  assumes "tvf_name n"
  shows "occ n ''SELECT *, CAST(NULL AS STRING) AS _CHANGE_TYPE, CAST(NULL AS TIMESTAMP) AS _CHANGE_TIMESTAMP FROM'' = 0"
    "occ n ''SELECT *, CAST(NULL AS STRING) AS _CHANGE_TYPE, CAST(NULL AS TIMESTAMP) AS _CHANGE_TIMESTAMP, CAST(NULL AS STRING) AS _CHANGE_SEQUENCE_NUMBER FROM'' = 0"
    "occ n ''WHERE FALSE'' = 0" "occ n no_rows = 0"
    "occ n ''SELECT CAST(NULL AS FLOAT64) AS drift FROM'' = 0" "occ n ''(SELECT 1)'' = 0"
  using assms unfolding tvf_name_def no_rows_def by (elim disjE; simp add: lower_char_table)+

lemma occ_tableRef:
  assumes "tvf_name n" "args = [] \<or> hd args = TrimSpace x"
  shows "occ n (tvfTableRef args) \<le> occ n x"
proof (cases args)
  case Nil
  then show ?thesis using occ_templates(4) [OF assms(1)] by (simp add: tvfTableRef_def)
next
  case (Cons a as)
  have "occ n (drop 5 (TrimSpace a)) \<le> occ n (TrimSpace a)" using occ_drop_mono [of 0 5 n "TrimSpace a"] by simp
  moreover have "occ n a \<le> occ n x" using assms(2) Cons occ_TrimSpace by simp
  ultimately show ?thesis
    using Cons occ_templates(4) [OF assms(1)] occ_TrimSpace [of n "drop 5 (TrimSpace a)"] occ_TrimSpace [of n a]
    by (auto simp: tvfTableRef_def Let_def)
qed

lemma tvf_call_occ:
  assumes "tvf_call_at s nm i = Some (e, args)" "tvf_name n" "tvf_name nm"
  shows "occ n (take i s) + (if n = nm then 1 else 0) + occ n (tvfTableRef args) + occ n (drop e s) \<le> occ n s"
proof -
  let ?j = "skip_while isSpaceByte s (i + length nm)"
  have fold: "EqualFold_word (subslice s i (i + length nm)) nm" and j: "?j < length s" "s ! ?j = CHR ''(''"
    and scan: "balanced_from s ?j 0 [] [] = Some (e, args)"
    using assms(1) by (auto simp: tvf_call_at_def scanBalancedArgs_def Let_def split: if_splits)
  have ge: "i + length nm \<le> ?j" by (rule skip_while_ge)
  have "balanced_from s (?j + 1) 1 [] [] = Some (e, args)"
    using scan j by (subst (asm) balanced_from.simps) (simp add: Let_def)
  then have "first_arg s (?j + 1) [] [] (e, args)" by (rule balanced_from_first) simp
  then obtain k where k: "?j + 1 \<le> k" "k < e" "args = [] \<or> hd args = TrimSpace (subslice s (?j + 1) k)"
    by (auto simp: first_arg_def)
  have "occ n (tvfTableRef args) + occ n (drop e s) \<le> occ n (drop (?j + 1) s)"
    using occ_tableRef [OF assms(2) k(3)] occ_subslice [OF k(1), of n s] occ_drop_mono [of k e n s] k(2) by simp
  also have "\<dots> \<le> occ n (drop (i + length nm) s)" using ge by (intro occ_drop_mono) simp
  finally show ?thesis
    using occ_name [OF fold, of n] ge j(1) occ_take_drop [of n i s] tvf_name_sep [OF assms(3)] by (auto simp: less_imp_le)
qed

lemma tvf_from_call:
  "tvf_from s nm bodyFn i = Some q \<Longrightarrow> \<exists>i e args. tvf_call_at s nm i = Some (e, args) \<and> q = take i s @ bodyFn args @ drop e s"
proof (induction s nm bodyFn i rule: tvf_from.induct)
  case (1 s nm bodyFn i)
  show ?case using "1.prems" 1(1-3) 1(4)
    by (subst (asm) tvf_from.simps) (fastforce simp: Let_def split: if_splits option.splits)
qed

definition calls_left :: "string \<Rightarrow> nat" where
  "calls_left s = occ ''appends'' s + occ ''changes'' s + occ ''vector_index.statistics'' s"

definition stub_body :: "(string list \<Rightarrow> string) \<Rightarrow> bool" where
  "stub_body bodyFn \<longleftrightarrow> (\<forall>n a args b. tvf_name n \<longrightarrow>
     occ n (a @ bodyFn args @ b) \<le> occ n a + occ n (tvfTableRef args) + occ n b)"

lemma stub_bodies: "stub_body buildAppendsBody" "stub_body buildChangesBody" "stub_body buildVectorIndexStatisticsBody"
proof -
  note o = occ_body [of _ _ "''SELECT *, CAST(NULL AS STRING) AS _CHANGE_TYPE, CAST(NULL AS TIMESTAMP) AS _CHANGE_TIMESTAMP FROM''" _ "''WHERE FALSE''"]
    occ_body [of _ _ "''SELECT *, CAST(NULL AS STRING) AS _CHANGE_TYPE, CAST(NULL AS TIMESTAMP) AS _CHANGE_TIMESTAMP, CAST(NULL AS STRING) AS _CHANGE_SEQUENCE_NUMBER FROM''" _ "''WHERE FALSE''"]
    occ_body [of _ _ "''SELECT CAST(NULL AS FLOAT64) AS drift FROM''" "''(SELECT 1)''" "''WHERE FALSE''"]
  show "stub_body buildAppendsBody" using o(1) occ_templates
    by (simp add: stub_body_def buildAppendsBody_def)
  show "stub_body buildChangesBody" using o(2) occ_templates
    by (simp add: stub_body_def buildChangesBody_def)
  show "stub_body buildVectorIndexStatisticsBody" using o(3) occ_templates
    by (simp add: stub_body_def buildVectorIndexStatisticsBody_def)
qed

lemma rewrite_tvf_decreases:
  assumes "rewriteTvfCall s nm bodyFn = Some q" "tvf_name nm" "stub_body bodyFn"
  shows "calls_left q < calls_left s"
proof -
  obtain i e args where c: "tvf_call_at s nm i = Some (e, args)" "q = take i s @ bodyFn args @ drop e s"
    using tvf_from_call assms(1) by (fastforce simp: rewriteTvfCall_def)
  have le: "occ n q + (if n = nm then 1 else 0) \<le> occ n s" if "tvf_name n" for n
    using tvf_call_occ [OF c(1) that assms(2)] assms(3) that unfolding stub_body_def c(2)
    by (smt (verit) add.assoc add.commute le_trans add_le_mono1)
  show ?thesis
    using le [of "''appends''"] le [of "''changes''"] le [of "''vector_index.statistics''"] assms(2)
    by (auto simp: tvf_name_def calls_left_def)
qed

lemma tvf_loop_returns:
  "\<exists>r. tvf_loop q = Some r \<and> rewriteTvfCall r ''appends'' buildAppendsBody = None
     \<and> rewriteTvfCall r ''changes'' buildChangesBody = None
     \<and> rewriteTvfCall r ''vector_index.statistics'' buildVectorIndexStatisticsBody = None"
proof (induction "calls_left q" arbitrary: q rule: less_induct)
  case less
  have "tvf_name ''appends''" "tvf_name ''changes''" "tvf_name ''vector_index.statistics''"
    by (simp_all add: tvf_name_def)
  note dec = rewrite_tvf_decreases [OF _ this(1) stub_bodies(1)] rewrite_tvf_decreases [OF _ this(2) stub_bodies(2)]
    rewrite_tvf_decreases [OF _ this(3) stub_bodies(3)]
  show ?case using less dec [of q] by (subst tvf_loop.simps) (auto split: option.split)
qed

text \<open>The search for the names in capitals finds every place where a name stands.\<close>

lemma upper_text_app:
  "b = [] \<or> hd b \<noteq> CHR 0xBF \<and> hd b \<noteq> CHR 0xB1 \<Longrightarrow> upper_text (a @ b) = upper_text a @ upper_text b"
  by (induction a rule: upper_text.induct; cases b) auto

lemma upper_text_word:
  "list_all (\<lambda>c. c \<noteq> CHR 0xC5 \<and> c \<noteq> CHR 0xC4) v \<Longrightarrow> upper_text (v @ b) = map upper_char v @ upper_text b"
proof (induction v)
  case (Cons c v)
  then show ?case by (cases "v @ b") auto
qed simp

lemma upper_lower: "upper_char (lower_char c) = upper_char c"
  by (auto simp: upper_char_def lower_char_def byte_in_def)

lemma name_at_take: "name_at n s \<Longrightarrow> map lower_char (take (length n) s) = n"
  by (induction n s rule: name_at.induct) (auto split: if_splits)

lemma occ_split: "0 < occ n s \<Longrightarrow> \<exists>a b. s = a @ b \<and> name_at n b"
proof (induction s)
  case (Cons c s)
  show ?case
  proof (cases "name_at n (c # s)")
    case False
    then obtain a b where "s = a @ b" "name_at n b" using Cons by auto
    then show ?thesis by (intro exI [of _ "c # a"] exI [of _ b]) simp
  qed (intro exI [of _ "[]"] exI [of _ "c # s"], simp)
qed simp

lemma occ_upper:
  assumes "0 < occ n s" "n \<noteq> []" "list_all (\<lambda>c. isIdentCont c \<or> c = CHR ''.'') n"
  shows "contains (upper_text s) (map upper_char n)"
proof -
  obtain a b where s: "s = a @ b" "name_at n b" using occ_split [OF assms(1)] by blast
  let ?v = "take (length n) b" and ?r = "drop (length n) b"
  have v: "map lower_char ?v = n" using name_at_take [OF s(2)] .
  have id: "isIdentCont (lower_char c) \<or> lower_char c = CHR ''.''" if "c \<in> set ?v" for c
  proof -
    have "lower_char c \<in> set (map lower_char ?v)" using that by simp
    then show ?thesis using assms(3) unfolding v list_all_iff by blast
  qed
  have plain: "c \<noteq> CHR 0xC5 \<and> c \<noteq> CHR 0xC4 \<and> c \<noteq> CHR 0xBF \<and> c \<noteq> CHR 0xB1" if "c \<in> set ?v" for c
    using id [OF that] by (auto simp: lower_char_def isIdentCont_def isIdentStart_def byte_in_def)
  have "?v \<noteq> []" using v assms(2) by auto
  then have "hd b \<in> set ?v" by (metis append_take_drop_id hd_append2 hd_in_set)
  then have "upper_text s = upper_text a @ upper_text (?v @ ?r)"
    using upper_text_app [of b a] plain s(1) by simp
  also have "\<dots> = upper_text a @ map upper_char ?v @ upper_text ?r"
    using upper_text_word [of ?v ?r] plain by (simp add: list_all_iff)
  also have "map upper_char ?v = map upper_char (map lower_char ?v)" by (simp add: upper_lower)
  also have "\<dots> = map upper_char n" unfolding v ..
  finally show ?thesis by (auto simp: contains_def sublist_def)
qed

lemma tvf_call_found:
  assumes "rewriteTvfCall s nm bodyFn \<noteq> None" "tvf_name nm"
  shows "0 < occ nm s"
proof -
  obtain i e args where "tvf_call_at s nm i = Some (e, args)"
    using assms(1) tvf_from_call by (fastforce simp: rewriteTvfCall_def)
  from tvf_call_occ [OF this assms(2) assms(2)] show ?thesis by simp
qed

lemma contains_part: "sublist (a @ b) s \<Longrightarrow> sublist a s"
  by (metis append.assoc sublist_def)

lemma stub_needles:
  "0 < occ ''appends'' s \<Longrightarrow> contains (upper_text s) ''APPENDS''"
  "0 < occ ''changes'' s \<Longrightarrow> contains (upper_text s) ''CHANGES''"
  "0 < occ ''vector_index.statistics'' s \<Longrightarrow> contains (upper_text s) ''VECTOR_INDEX''"
proof -
  note id = isIdentCont_def isIdentStart_def byte_in_def
  note up = upper_char_def byte_in_def char_of_eq_iff
  have n: "map upper_char ''appends'' = ''APPENDS''" "map upper_char ''changes'' = ''CHANGES''" by (simp_all add: up)
  show "contains (upper_text s) ''APPENDS''" if "0 < occ ''appends'' s"
    using occ_upper [OF that] unfolding n by (simp add: id)
  show "contains (upper_text s) ''CHANGES''" if "0 < occ ''changes'' s"
    using occ_upper [OF that] unfolding n by (simp add: id)
  have "map upper_char ''vector_index.statistics'' = ''VECTOR_INDEX'' @ ''.STATISTICS''" by (simp add: up)
  then have "sublist (''VECTOR_INDEX'' @ ''.STATISTICS'') (upper_text s)" if "0 < occ ''vector_index.statistics'' s"
    using occ_upper [OF that] unfolding contains_def by (simp add: id)
  then show "contains (upper_text s) ''VECTOR_INDEX''" if "0 < occ ''vector_index.statistics'' s"
    using that contains_part unfolding contains_def by blast
qed

section \<open>Properties\<close>

text \<open>
  C8. A call is found and its arguments are split as written: from the start of a name that is looked
  for, with arguments of any nesting, literals and backtick names, the search returns the
  whole call and the text between its parentheses, and the splitter returns exactly the arguments.\<close>

theorem call_arguments:
  assumes "drop i s = w @ ws @ CHR ''('' # print_args args @ CHR '')'' # r" "ident w" "list_all isSpaceByte ws"
    "is_name w" "list_all wf_arg args" "args \<noteq> []"
  shows "find_call is_name s i = Some (i, length s - length r, print_args args)
    \<and> splitTopLevelArgs (print_args args) = map print_pieces args"
proof -
  have "length (drop i s) = length w + length ws + 2 + length (print_args args) + length r"
    unfolding assms(1) by simp
  moreover have "i < length s" using drop_nth [of i s "hd w"] assms(1,2) by (cases w) (auto simp: ident_def)
  ultimately have "i + length w + length ws + 1 + length (print_args args) + 1 = length s - length r" by simp
  then show ?thesis using find_call_text [where is_name = is_name, OF assms(1-5)] splitTopLevelArgs_text [OF assms(5,6)] by simp
qed

theorem call_arguments_witness:
  "find_call (\<lambda>w. upper_word w = ''F'') ''f (a, (b,c)) + 1'' 0 = Some (0, 12, ''a, (b,c)'')
   \<and> splitTopLevelArgs ''a, (b,c)'' = [''a'', '' (b,c)'']"
proof -
  let ?args = "[[Code (CHR ''a'')], [Code (CHR '' ''), Group [Code (CHR ''b''), Code (CHR '',''), Code (CHR ''c'')]]]"
  have p: "print_args ?args = ''a, (b,c)''" "map print_pieces ?args = [''a'', '' (b,c)'']"
    by (simp_all add: print_args_def print_pieces_def)
  have "ident ''f''" "list_all isSpaceByte '' ''" "upper_word ''f'' = ''F''" "list_all wf_arg ?args"
    by (simp_all add: ident_def isIdentCont_def isIdentStart_def byte_in_def isSpaceByte_def upper_word_def
        upper_char_def wf_arg_def plain_code_def is_quote_def char_of_eq_iff)
  then show ?thesis
    using call_arguments [of 0 "''f (a, (b,c)) + 1''" "''f''" "'' ''" ?args "'' + 1''" "\<lambda>w. upper_word w = ''F''"] p
    by simp
qed

text \<open>
  Nested IFERROR: a call whose first argument is an IFERROR of two ERROR calls and whose second
  is a literal with a known type gets its first argument wrapped in a cast to that type, and
  nothing else in the query changes.\<close>

theorem iferror_cast:
  assumes "drop i s = ''IFERROR('' @ print_args [ps, Code (CHR '' '') # lp] @ '')'' @ r"
    "print_pieces ps = two_errors a b" "wf_arg ps" "wf_arg lp" "list_all wf_piece a" "list_all wf_piece b"
    "graphic (hd (print_pieces lp)) \<and> graphic (last (print_pieces lp))" "literalTypeName (print_pieces lp) = Some T"
  shows "iferror_from s i = Some (take i s @ ''IFERROR(SAFE_CAST('' @ two_errors a b @ '' AS '' @ T @ ''), ''
    @ print_pieces lp @ '')'' @ r)"
proof -
  let ?call = "CHR ''('' # print_args [ps, Code (CHR '' '') # lp] @ CHR '')'' # r"
  have d: "drop i s = ''IFERROR'' @ ?call" using assms(1) by simp
  have w: "ident ''IFERROR''" by (simp add: ident_def isIdentCont_def isIdentStart_def byte_in_def)
  have "\<not> isIdentCont (CHR ''('')" by (simp add: isIdentCont_def isIdentStart_def byte_in_def)
  then have j: "ident_end s i = i + 7" using ident_end_text [OF d w] by simp
  have dj: "drop (i + 7) s = ?call" using drop_appD [OF d] by (simp add: numeral_eq_Suc)
  have fold: "EqualFold_word (subslice s i (i + 7)) ''iferror''"
    using subslice_app [OF d] by (simp add: lower_char_table numeral_eq_Suc)
  have i: "i < length s" "s ! i = CHR ''I''" using drop_nth [of i s "CHR ''I''"] d by auto
  have "take (i + 7) s = take i s @ ''IFERROR''" using d take_add [of i 7 s] by simp
  then show ?thesis
    using try_rewrite_text [OF dj assms(2-8)] fold i j
    by (subst iferror_from.simps) (simp add: Let_def is_quote_def isIdentStart_def byte_in_def)
qed

theorem iferror_cast_witness:
  "iferror_from ''SELECT IFERROR(IFERROR(ERROR(1), ERROR(2)), 3)'' 7
     = Some ''SELECT IFERROR(SAFE_CAST(IFERROR(ERROR(1), ERROR(2)) AS INT64), 3)''"
proof -
  let ?a = "[Code (CHR ''1'')]" and ?b = "[Code (CHR ''2'')]" and ?l = "[Code (CHR ''3'')]"
  let ?ps = "map Code ''IFERROR'' @ [Group (error_call ?a @ [Code (CHR '',''), Code (CHR '' '')] @ error_call ?b)]"
  have p: "print_pieces ?l = ''3''" "two_errors ?a ?b = ''IFERROR(ERROR(1), ERROR(2))''"
    by (simp_all add: print_pieces_def print_two_errors)
  have ps: "print_pieces ?ps = two_errors ?a ?b" by (simp add: p(2)) (simp add: print_pieces_def error_call_def)
  have wf: "wf_arg ?ps" "wf_arg ?l" "list_all wf_piece ?a" "list_all wf_piece ?b"
    by (simp_all add: wf_arg_def error_call_def plain_code_def is_quote_def)
  have g: "graphic (CHR ''3'')" by (simp add: graphic_def)
  have "TrimSpace ''3'' = ''3''" using g by (intro TrimSpace_graphic) simp
  then have t: "literalTypeName ''3'' = Some ''INT64''"
    by (simp add: literalTypeName_def stripStringPrefix_def is_prefix_char_def is_quote_def looksLikeNumberLiteral_def is_digit_def)
  have d: "drop 7 ''SELECT IFERROR(IFERROR(ERROR(1), ERROR(2)), 3)'' = ''IFERROR('' @ print_args [?ps, Code (CHR '' '') # ?l] @ '')'' @ []"
    by (simp add: print_args_def print_pieces_def error_call_def)
  show ?thesis using iferror_cast [OF d ps wf] g t p by simp
qed

text \<open>
  C9. The stubs for table functions: the loop that replaces the calls of APPENDS, CHANGES and
  VECTOR_INDEX.STATISTICS always ends, and in the result no call that it would replace is left.\<close>

theorem tvf_stubs_complete:
  "\<exists>r. applyBigQueryTvfStubs query = Some r
     \<and> rewriteTvfCall r ''appends'' buildAppendsBody = None
     \<and> rewriteTvfCall r ''changes'' buildChangesBody = None
     \<and> rewriteTvfCall r ''vector_index.statistics'' buildVectorIndexStatisticsBody = None"
proof -
  have "tvf_name ''appends''" "tvf_name ''changes''" "tvf_name ''vector_index.statistics''"
    by (simp_all add: tvf_name_def)
  note found = tvf_call_found [OF _ this(1)] tvf_call_found [OF _ this(2)] tvf_call_found [OF _ this(3)]
  show ?thesis
  proof (cases "contains (upper_text query) ''APPENDS'' \<or> contains (upper_text query) ''CHANGES''
      \<or> contains (upper_text query) ''VECTOR_INDEX''")
    case True
    then have "applyBigQueryTvfStubs query = tvf_loop query" unfolding applyBigQueryTvfStubs_def by auto
    then show ?thesis using tvf_loop_returns [of query] by simp
  next
    case False
    then have "rewriteTvfCall query ''appends'' f = None" "rewriteTvfCall query ''changes'' f = None"
      "rewriteTvfCall query ''vector_index.statistics'' f = None" for f
      using found stub_needles by blast+
    then show ?thesis using False by (simp add: applyBigQueryTvfStubs_def)
  qed
qed

text \<open>
  Where the rewrites misread their input: a table whose name begins with TABLE loses these
  letters in a stub, a BYTES literal is taken for a STRING, and the splitter of GAP_FILL and
  RANGE_SESSIONIZE divides a backtick name at a comma.\<close>

lemma call_rewrite_defects:
  "tvfTableRef [''TABLETS''] = ''TS''
   \<and> literalTypeName [CHR ''b'', CHR 0x27, CHR ''x'', CHR 0x27] = Some ''STRING''
   \<and> splitTopLevelCommas [CHR 0x60, CHR ''a'', CHR '','', CHR ''b'', CHR 0x60]
       = [[CHR 0x60, CHR ''a''], [CHR ''b'', CHR 0x60]]"
proof (intro conjI)
  have t: "TrimSpace ''TABLETS'' = ''TABLETS''" "TrimSpace ''TS'' = ''TS''"
    by (rule TrimSpace_graphic, simp add: graphic_def)+
  show "tvfTableRef [''TABLETS''] = ''TS''" by (simp add: tvfTableRef_def t lower_char_table)
  let ?b = "[CHR ''b'', CHR 0x27, CHR ''x'', CHR 0x27]"
  have "TrimSpace ?b = ?b" by (rule TrimSpace_graphic) (simp add: graphic_def)
  moreover have "scanStringLiteral [CHR 0x27, CHR ''x'', CHR 0x27] 0 = 3"
    by (simp add: scanStringLiteral_def literal_body.simps is_quote_def)
  ultimately show "literalTypeName ?b = Some ''STRING''"
    by (simp add: literalTypeName_def stripStringPrefix_def is_prefix_char_def is_quote_def Let_def)
  show "splitTopLevelCommas [CHR 0x60, CHR ''a'', CHR '','', CHR ''b'', CHR 0x60]
       = [[CHR 0x60, CHR ''a''], [CHR ''b'', CHR 0x60]]"
    by (simp add: splitTopLevelCommas_def commas_from.simps is_quote_def subslice_def Let_def)
qed

end
