(* ===== verification/Script_Text.thy ===== *)
theory Script_Text
  imports Call_Props
begin

text \<open>
  What the splitter and the substitution of \<open>Script_Vars\<close> do to SQL text. The text is described from
  outside, as a sequence of lexical pieces (identifiers, numbers, field accesses, query
  parameters, literals with one or three quotes, quoted names, comments and single marks) with the
  conditions under which writing them one after the other gives the same pieces back. On such text
  a script is cut exactly at the semicolons between its statements, and variables replace
  identifiers and nothing else.
\<close>

section \<open>Pieces\<close>

datatype script_piece =
    Mark char
  | Ident string
  | Number string
  | Access string
  | Param string
  | Quoted string char string
  | Triple string char string
  | Backtick string
  | LineComment string string
  | BlockComment string

text \<open>A literal has the word written directly before it, such as the r of a raw literal.\<close>

fun piece_text :: "script_piece \<Rightarrow> string" where
  "piece_text (Mark c) = [c]"
| "piece_text (Ident w) = w"
| "piece_text (Number w) = w"
| "piece_text (Access w) = CHR ''.'' # w"
| "piece_text (Param w) = CHR ''@'' # w"
| "piece_text (Quoted pre q body) = pre @ q # body @ [q]"
| "piece_text (Triple pre q body) = pre @ [q, q, q] @ body @ [q, q, q]"
| "piece_text (Backtick n) = CHR 0x60 # n @ [CHR 0x60]"
| "piece_text (LineComment open' body) = open' @ body @ [CHR 0x0A]"
| "piece_text (BlockComment body) = ''/*'' @ body @ ''*/''"

definition script_text :: "script_piece list \<Rightarrow> string" where
  "script_text ps = concat (map piece_text ps)"

definition is_word :: "string \<Rightarrow> bool" where
  "is_word w \<longleftrightarrow> w \<noteq> [] \<and> isIdentStart (hd w) \<and> list_all isIdentCont w"

fun good_piece :: "script_piece \<Rightarrow> bool" where
  "good_piece (Mark c) \<longleftrightarrow> \<not> isIdentCont c \<and> \<not> is_quote c \<and> c \<notin> {CHR 0x60, CHR ''#'', CHR '';'', CHR ''.''}"
| "good_piece (Ident w) \<longleftrightarrow> is_word w"
| "good_piece (Number w) \<longleftrightarrow> w \<noteq> [] \<and> \<not> isIdentStart (hd w) \<and> list_all isIdentCont w"
| "good_piece (Access w) \<longleftrightarrow> list_all isIdentCont w"
| "good_piece (Param w) \<longleftrightarrow> is_word w"
| "good_piece (Quoted pre q body) \<longleftrightarrow> (pre = [] \<or> is_word pre) \<and> is_quote q \<and> lit_body q body"
| "good_piece (Triple pre q body) \<longleftrightarrow> (pre = [] \<or> is_word pre) \<and> is_quote q
     \<and> \<not> sublist [q, q, q] (body @ [q, q]) \<and> (body \<noteq> [] \<longrightarrow> last body \<noteq> CHR 0x5C)"
| "good_piece (Backtick n) \<longleftrightarrow> CHR 0x60 \<notin> set n \<and> CHR 0x5C \<notin> set n"
| "good_piece (LineComment open' body) \<longleftrightarrow> (open' = ''#'' \<or> open' = ''--'') \<and> CHR 0x0A \<notin> set body"
| "good_piece (BlockComment body) \<longleftrightarrow> \<not> sublist ''*/'' (body @ ''*'')"

text \<open>
  The text after a piece must not run on into it: an identifier is as long as possible and not the
  prefix of a literal, an empty literal is not followed by its quote, two marks do not open a
  comment, and a name after \<open>@\<close> is a parameter.
\<close>

definition begins :: "(char \<Rightarrow> bool) \<Rightarrow> string \<Rightarrow> bool" where
  "begins P t \<longleftrightarrow> (case t of [] \<Rightarrow> False | c # _ \<Rightarrow> P c)"

fun ends_before :: "script_piece \<Rightarrow> string \<Rightarrow> bool" where
  "ends_before (Mark c) t \<longleftrightarrow> \<not> prefix ''--'' (c # t) \<and> \<not> prefix ''/*'' (c # t) \<and> (c = CHR ''@'' \<longrightarrow> \<not> begins isIdentStart t)"
| "ends_before (Ident w) t \<longleftrightarrow> \<not> begins isIdentCont t \<and> \<not> begins is_quote t"
| "ends_before (Number w) t \<longleftrightarrow> \<not> begins isIdentCont t"
| "ends_before (Access w) t \<longleftrightarrow> \<not> begins isIdentCont t"
| "ends_before (Param w) t \<longleftrightarrow> \<not> begins isIdentCont t"
| "ends_before (Quoted pre q body) t \<longleftrightarrow> (body = [] \<longrightarrow> \<not> begins (\<lambda>c. c = q) t)"
| "ends_before _ t \<longleftrightarrow> True"

fun wf_text :: "script_piece list \<Rightarrow> bool" where
  "wf_text [] \<longleftrightarrow> True"
| "wf_text (p # ps) \<longleftrightarrow> good_piece p \<and> ends_before p (script_text ps) \<and> wf_text ps"

lemma begins_simps [simp]: "\<not> begins P []" "begins P (c # t) = P c"
  by (simp_all add: begins_def)

lemma script_text_simps [simp]: "script_text [] = []" "script_text (p # ps) = piece_text p @ script_text ps"
  by (simp_all add: script_text_def)

section \<open>Literals and comments\<close>

lemma not_ident_chars [simp]:
  "\<not> isIdentCont (CHR 0x27)" "\<not> isIdentCont (CHR 0x22)" "\<not> isIdentCont (CHR 0x60)" "\<not> isIdentCont (CHR ''#'')"
  "\<not> isIdentCont (CHR ''-'')" "\<not> isIdentCont (CHR ''/'')" "\<not> isIdentCont (CHR '';'')" "\<not> isIdentCont (CHR ''.'')"
  "\<not> isIdentCont (CHR ''@'')" "\<not> isIdentCont (CHR 0x0A)"
  by (simp_all add: isIdentCont_def isIdentStart_def byte_in_def)

lemma ident_chars:
  assumes "isIdentCont c"
  shows "\<not> is_quote c" "c \<noteq> CHR 0x60" "c \<noteq> CHR ''#''" "c \<noteq> CHR ''-''" "c \<noteq> CHR ''/''" "c \<noteq> CHR '';''" "c \<noteq> CHR ''.''"
  by (rule notI, use assms in \<open>auto simp: is_quote_def\<close>)+

lemma ident_no_skip: "isIdentCont c \<Longrightarrow> skip_len (c # r) = None"
  using ident_chars [of c] by (simp add: skip_len_def)

lemma index_of_first:
  assumes "p \<noteq> []" "\<not> sublist p (b @ butlast p)"
  shows "index_of p (b @ p @ r) = Some (length b)"
  using assms(2)
proof (induction b)
  case Nil
  then show ?case using assms(1) by (cases p) auto
next
  case (Cons c b)
  have s: "c # b @ p @ r = (c # b @ butlast p) @ last p # r" using assms(1) by simp
  have "\<not> prefix p (c # b @ p @ r)"
  proof
    assume "prefix p (c # b @ p @ r)"
    then have "prefix p (c # b @ butlast p)"
      unfolding s using prefix_length_prefix [of p _ "c # b @ butlast p"] assms(1) by (simp add: Suc_leI)
    then show False using Cons.prems prefix_imp_sublist by fastforce
  qed
  moreover have "\<not> sublist p (b @ butlast p)" using Cons.prems by (simp add: sublist_Cons_right)
  ultimately show ?case using Cons.IH by simp
qed

lemma quoted_len_body:
  "is_quote q \<Longrightarrow> lit_body q body \<Longrightarrow> quoted_len q (body @ q # r) = length body + 1"
proof (induction q body rule: lit_body.induct)
  case (1 q)
  then show ?case by (cases r) (auto simp: is_quote_def)
next
  case (2 q c)
  then show ?case by (cases r) (auto simp: is_quote_def)
qed (auto simp: is_quote_def split: if_splits)

lemma quoted_len_name: "CHR 0x60 \<notin> set n \<Longrightarrow> quoted_len (CHR 0x60) (n @ CHR 0x60 # r) = length n + 1"
proof (induction n)
  case Nil
  then show ?case by (cases r) auto
next
  case (Cons c n)
  then show ?case by (cases n) auto
qed

lemma skip_quoted:
  assumes "is_quote q" "lit_body q body" "body = [] \<longrightarrow> \<not> begins (\<lambda>c. c = q) r"
  shows "skip_len ((q # body @ [q]) @ r) = Some (length (q # body @ [q]))"
proof -
  have "\<not> prefix [q, q, q] (q # body @ q # r)"
  proof (cases body)
    case Nil
    then show ?thesis using assms(3) by (cases r) auto
  next
    case (Cons c b)
    then have "c \<noteq> q" using assms(1,2) by (cases b) (auto simp: is_quote_def split: if_splits)
    then show ?thesis using Cons by simp
  qed
  then show ?thesis using assms(1) quoted_len_body [OF assms(1,2), of r] by (simp add: skip_len_def)
qed

lemma skip_triple:
  assumes "is_quote q" "\<not> sublist [q, q, q] (body @ [q, q])"
  shows "skip_len (([q, q, q] @ body @ [q, q, q]) @ r) = Some (length ([q, q, q] @ body @ [q, q, q]))"
  using assms index_of_first [of "[q, q, q]" body r] by (simp add: skip_len_def)

lemma skip_backtick:
  "CHR 0x60 \<notin> set n \<Longrightarrow> skip_len ((CHR 0x60 # n @ [CHR 0x60]) @ r) = Some (length (CHR 0x60 # n @ [CHR 0x60]))"
  using quoted_len_name [of n r] by (simp add: skip_len_def)

lemma skip_line:
  assumes "open' = ''#'' \<or> open' = ''--''" "CHR 0x0A \<notin> set body"
  shows "skip_len ((open' @ body) @ CHR 0x0A # r) = Some (length (open' @ body))"
proof -
  have "takeWhile (\<lambda>d. d \<noteq> CHR 0x0A) ((open' @ body) @ CHR 0x0A # r) = open' @ body"
    using assms by (subst takeWhile_append2) auto
  then have "IndexByte ((open' @ body) @ CHR 0x0A # r) (CHR 0x0A) = Some (length (open' @ body))"
    by (simp add: IndexByte_def)
  then show ?thesis using assms(1) by (auto simp: skip_len_def is_quote_def)
qed

lemma skip_block:
  "\<not> sublist ''*/'' (body @ ''*'') \<Longrightarrow>
     skip_len ((''/*'' @ body @ ''*/'') @ r) = Some (length (''/*'' @ body @ ''*/''))"
  using index_of_first [of "''*/''" body r] by (simp add: skip_len_def is_quote_def)

section \<open>Splitting a script\<close>

lemma split_skip:
  assumes "skip_len (t @ r) = Some (length t)"
  shows "split_from cur (t @ r) = split_from (cur @ t) r"
proof -
  obtain c u where c: "t @ r = c # u" using skip_len_bounds(1) [OF assms] by (cases t) auto
  then have "take (length t) (c # u) = t" "drop (length t) (c # u) = r" by (metis append_eq_conv_conj)+
  then show ?thesis using assms c by (subst split_from.simps) simp
qed

lemma split_char: "skip_len (c # r) = None \<Longrightarrow> c \<noteq> CHR '';'' \<Longrightarrow> split_from cur (c # r) = split_from (cur @ [c]) r"
  by (subst split_from.simps) simp

lemma split_word: "list_all isIdentCont w \<Longrightarrow> split_from cur (w @ r) = split_from (cur @ w) r"
proof (induction w arbitrary: cur)
  case (Cons c w)
  then show ?case using split_char [of c "w @ r" cur] ident_no_skip ident_chars(6) by simp
qed simp

lemma mark_no_skip: "good_piece (Mark c) \<Longrightarrow> ends_before (Mark c) r \<Longrightarrow> skip_len (c # r) = None"
  by (simp add: skip_len_def)

lemma word_prefix: "pre = [] \<or> is_word pre \<Longrightarrow> list_all isIdentCont pre"
  by (auto simp: is_word_def)

lemma split_piece:
  assumes "good_piece p" "ends_before p r"
  shows "split_from cur (piece_text p @ r) = split_from (cur @ piece_text p) r"
proof (cases p)
  case (Mark c)
  then show ?thesis using assms split_char [of c r cur] mark_no_skip [of c r] by simp
next
  case (Access w)
  have "skip_len (CHR ''.'' # w @ r) = None" by (simp add: skip_len_def is_quote_def)
  then show ?thesis using assms Access split_char [of "CHR ''.''" "w @ r" cur] split_word [of w "cur @ ''.''"] by simp
next
  case (Param w)
  have "skip_len (CHR ''@'' # w @ r) = None" by (simp add: skip_len_def is_quote_def)
  then show ?thesis using assms Param split_char [of "CHR ''@''" "w @ r" cur] split_word [of w "cur @ ''@''"]
    by (simp add: is_word_def)
next
  case (Quoted pre q body)
  then show ?thesis using assms split_word [OF word_prefix, of pre cur] split_skip [OF skip_quoted [of q body r], of "cur @ pre"]
    by simp
next
  case (Triple pre q body)
  then show ?thesis using assms split_word [OF word_prefix, of pre cur] split_skip [OF skip_triple [of q body r], of "cur @ pre"]
    by simp
next
  case (Backtick n)
  then show ?thesis using assms split_skip [OF skip_backtick [of n r], of cur] by simp
next
  case (LineComment m body)
  then have g: "m = ''#'' \<or> m = ''--''" "CHR 0x0A \<notin> set body" using assms by simp_all
  have "skip_len (CHR 0x0A # r) = None" by (simp add: skip_len_def is_quote_def)
  then show ?thesis using LineComment split_skip [OF skip_line [OF g]] split_char [of "CHR 0x0A" r "cur @ m @ body"] by simp
next
  case (BlockComment body)
  then show ?thesis using assms split_skip [OF skip_block [of body r], of cur] by simp
qed (use assms split_word in \<open>auto simp: is_word_def\<close>)

lemma begins_append: "\<not> begins P t \<Longrightarrow> \<not> begins P r \<Longrightarrow> \<not> begins P (t @ r)"
  by (cases t) simp_all

lemma prefix_separator:
  "r = [] \<or> (\<exists>u. r = CHR '';'' # u) \<Longrightarrow> b \<noteq> CHR '';'' \<Longrightarrow> prefix [a, b] (c # t @ r) \<Longrightarrow> prefix [a, b] (c # t)"
  by (cases t) auto

lemma ends_before_separator:
  assumes "good_piece p" "ends_before p t" "r = [] \<or> (\<exists>u. r = CHR '';'' # u)"
  shows "ends_before p (t @ r)"
proof -
  have i: "\<not> begins isIdentCont r" "\<not> begins isIdentStart r" "\<not> begins is_quote r"
    using assms(3) by (elim disjE exE; simp add: isIdentStart_def byte_in_def is_quote_def)+
  show ?thesis
  proof (cases p)
    case (Mark c)
    then have e: "\<not> prefix ''--'' (c # t)" "\<not> prefix ''/*'' (c # t)" "c = CHR ''@'' \<longrightarrow> \<not> begins isIdentStart t"
      using assms(2) by simp_all
    have "\<not> prefix ''--'' (c # t @ r)" using prefix_separator [OF assms(3), of "CHR ''-''" "CHR ''-''" c t] e(1) by auto
    moreover have "\<not> prefix ''/*'' (c # t @ r)" using prefix_separator [OF assms(3), of "CHR ''*''" "CHR ''/''" c t] e(2) by auto
    ultimately show ?thesis using Mark e(3) begins_append [OF _ i(2)] by (simp del: Cons_prefix_Cons)
  next
    case (Quoted pre q body)
    then have "\<not> begins (\<lambda>c. c = q) r" using assms(1,3) by (auto simp: is_quote_def)
    then show ?thesis using Quoted assms(2) begins_append by simp
  qed (use assms(2) i begins_append in simp_all)
qed

lemma split_text:
  assumes "wf_text ps" "r = [] \<or> (\<exists>u. r = CHR '';'' # u)"
  shows "split_from cur (script_text ps @ r) = split_from (cur @ script_text ps) r"
  using assms(1)
proof (induction ps arbitrary: cur)
  case (Cons p ps)
  then show ?case
    using split_piece [OF _ ends_before_separator [OF _ _ assms(2)], of p "script_text ps" cur] by simp
qed simp

lemma split_separator: "split_from cur (CHR '';'' # r) = cur # split_from [] r"
  by (subst split_from.simps) (simp add: skip_len_def is_quote_def)

lemma split_statements:
  assumes "list_all wf_text stmts" "stmts \<noteq> []"
  shows "split_from [] (join_with '';'' (map script_text stmts) @ '';'') = map script_text stmts"
    and "script_text (last stmts) \<noteq> [] \<Longrightarrow> split_from [] (join_with '';'' (map script_text stmts)) = map script_text stmts"
  using assms
proof (induction stmts)
  case (Cons ps stmts)
  have end': "split_from cur [] = (if cur = [] then [] else [cur])" for cur by (subst split_from.simps) simp
  {
    case 1
    then show ?case using Cons.IH(1) split_text [of ps "CHR '';'' # u" "[]" for u] end'
      by (cases stmts) (simp_all add: split_separator)
  next
    case 2
    then show ?case using Cons.IH(2) split_text [of ps "CHR '';'' # u" "[]" for u] split_text [of ps "[]" "[]"] end'
      by (cases stmts) (simp_all add: split_separator)
  }
qed simp_all

section \<open>Substituting variables\<close>

text \<open>
  The specification: an identifier that names a variable is replaced by its expression, unless it
  is written before a parenthesis, as a function name; everything else stays.
\<close>

definition called :: "string \<Rightarrow> bool" where
  "called t \<longleftrightarrow> begins (\<lambda>c. c = CHR ''('') (dropWhile (\<lambda>c. c = CHR '' '' \<or> c = CHR 0x09) t)"

fun subst_text :: "script_vars \<Rightarrow> script_piece list \<Rightarrow> string" where
  "subst_text vars [] = []"
| "subst_text vars (Ident w # ps) =
     (case map_of vars (lower_word w) of
        Some expr \<Rightarrow> if called (script_text ps) then w else expr
      | None \<Rightarrow> w) @ subst_text vars ps"
| "subst_text vars (p # ps) = piece_text p @ subst_text vars ps"

text \<open>Parameters and words before a literal must not have the name of a variable.\<close>

fun uncaptured :: "script_vars \<Rightarrow> script_piece \<Rightarrow> bool" where
  "uncaptured vars (Param w) \<longleftrightarrow> map_of vars (lower_word w) = None"
| "uncaptured vars (Quoted pre q body) \<longleftrightarrow> map_of vars (lower_word pre) = None"
| "uncaptured vars (Triple pre q body) \<longleftrightarrow> map_of vars (lower_word pre) = None"
| "uncaptured vars _ \<longleftrightarrow> True"

definition subst_from :: "script_vars \<Rightarrow> string \<Rightarrow> nat \<Rightarrow> string" where
  "subst_from vars stmt i = concat (map (token_text (variable_word vars) stmt) (script_tokens stmt i))"

definition fresh_at :: "string \<Rightarrow> nat \<Rightarrow> bool" where
  "fresh_at stmt i \<longleftrightarrow> i = 0 \<or> \<not> isIdentCont (stmt ! (i - 1)) \<or> \<not> begins isIdentCont (drop i stmt)"

lemma subst_skip:
  assumes "drop i stmt = t @ r" "skip_len (t @ r) = Some (length t)"
  shows "subst_from vars stmt i = t @ subst_from vars stmt (i + length t)"
proof -
  have "i < length stmt" using assms skip_len_bounds(1) [OF assms(2)]
    by (metis append_is_Nil_conv drop_eq_Nil2 leI list.size(3) less_nat_zero_code)
  then show ?thesis using assms unfolding subst_from_def
    by (subst script_tokens.simps) (simp add: skipLiteralOrComment_def)
qed

lemma subst_char:
  assumes "drop i stmt = c # r" "skip_len (c # r) = None" "c \<noteq> CHR ''.''"
    "\<not> isIdentStart c \<or> 0 < i \<and> isIdentCont (stmt ! (i - 1))"
  shows "subst_from vars stmt i = c # subst_from vars stmt (i + 1)"
  using assms drop_nth [OF assms(1)] unfolding subst_from_def
  by (subst script_tokens.simps) (auto simp: skipLiteralOrComment_def)

lemma subst_run:
  assumes "list_all isIdentCont w" "drop i stmt = w @ r" "0 < i" "isIdentCont (stmt ! (i - 1))"
  shows "subst_from vars stmt i = w @ subst_from vars stmt (i + length w)"
  using assms
proof (induction w arbitrary: i)
  case (Cons c w)
  have d: "drop (i + 1) stmt = w @ r" using Cons.prems(2) drop_appD [of i stmt "[c]"] by simp
  have "subst_from vars stmt i = c # subst_from vars stmt (i + 1)"
    using Cons.prems ident_no_skip ident_chars(7) by (intro subst_char [of i stmt c "w @ r"]) auto
  then show ?case using Cons.IH [OF _ d] Cons.prems drop_nth [of i stmt c] by simp
qed simp

lemma stop_text: "\<not> begins P r \<longleftrightarrow> r = [] \<or> \<not> P (hd r)"
  by (cases r) simp_all

lemma subst_field:
  assumes "drop i stmt = CHR ''.'' # w @ r" "list_all isIdentCont w" "\<not> begins isIdentCont r"
  shows "subst_from vars stmt i = CHR ''.'' # w @ subst_from vars stmt (i + 1 + length w)"
proof -
  have d: "drop (i + 1) stmt = w @ r" using assms(1) drop_appD [of i stmt "''.''"] by simp
  have "skip_while isIdentCont stmt (i + 1) = i + 1 + length w"
    using assms(3) by (intro skip_while_text [OF d assms(2)]) (simp add: stop_text)
  moreover have "skipLiteralOrComment stmt i = None" by (simp add: skipLiteralOrComment_def assms(1) skip_len_def is_quote_def)
  ultimately show ?thesis using drop_nth [OF assms(1)] subslice_app [OF d] unfolding subst_from_def
    by (subst script_tokens.simps) (simp add: Let_def)
qed

lemma while_parts: "list_all P (takeWhile P r)" "dropWhile P r = [] \<or> \<not> P (hd (dropWhile P r))"
  by (induction r) simp_all

lemma begins_drop: "drop k s = t \<Longrightarrow> k < length s \<and> s ! k = c \<longleftrightarrow> begins (\<lambda>d. d = c) t"
  using drop_nth [of k s] by (cases t) auto

lemma called_spaces:
  assumes "drop j stmt = r"
  defines "k \<equiv> skip_while (\<lambda>c. c = CHR '' '' \<or> c = CHR 0x09) stmt j"
  shows "k < length stmt \<and> stmt ! k = CHR ''('' \<longleftrightarrow> called r"
proof -
  let ?p = "\<lambda>c. c = CHR '' '' \<or> c = CHR 0x09"
  have d: "drop j stmt = takeWhile ?p r @ dropWhile ?p r" using assms(1) by simp
  have "k = j + length (takeWhile ?p r)"
    unfolding k_def by (rule skip_while_text [OF d while_parts])
  then have "drop k stmt = dropWhile ?p r" using drop_appD [OF d] by simp
  then show ?thesis unfolding called_def by (rule begins_drop)
qed

lemma subst_word:
  assumes "drop i stmt = w @ r" "is_word w" "\<not> begins isIdentCont r" "fresh_at stmt i"
  shows "subst_from vars stmt i = (case map_of vars (lower_word w) of
      Some expr \<Rightarrow> if called r then w else expr | None \<Rightarrow> w) @ subst_from vars stmt (i + length w)"
proof -
  obtain c u where w: "w = c # u" "isIdentStart c" "isIdentCont c" "list_all isIdentCont u"
    using assms(2) by (cases w) (auto simp: is_word_def)
  have d: "drop i stmt = c # u @ r" "drop (i + 1) stmt = u @ r" "drop (i + length w) stmt = r"
    using assms(1) w(1) drop_appD [of i stmt "[c]"] drop_appD [OF assms(1)] by simp_all
  have e: "ident_end stmt i = i + length w"
    unfolding ident_end_def using skip_while_text [OF d(2) w(4)] assms(3) by (simp add: stop_text w(1))
  have "i = 0 \<or> \<not> isIdentCont (stmt ! (i - 1))" using assms(4) w(3) d(1) by (simp add: fresh_at_def)
  moreover have "skipLiteralOrComment stmt i = None" using ident_no_skip [OF w(3)] by (simp add: skipLiteralOrComment_def d(1))
  ultimately have "subst_from vars stmt i = variable_word vars stmt i (i + length w) @ subst_from vars stmt (i + length w)"
    using drop_nth [OF d(1)] w(2) ident_chars(7) [OF w(3)] unfolding subst_from_def e [symmetric]
    by (subst script_tokens.simps) simp
  moreover have "variable_word vars stmt i (i + length w) =
      (case map_of vars (lower_word w) of Some expr \<Rightarrow> if called r then w else expr | None \<Rightarrow> w)"
    using subslice_app [OF assms(1)] called_spaces [OF d(3)]
    by (simp add: variable_word_def ScriptVariable_def Let_def split: option.split)
  ultimately show ?thesis by simp
qed

text \<open>A literal, a quoted name or a comment, behind a word that is not a variable or no word.\<close>

lemma subst_literal:
  assumes "drop i stmt = pre @ t @ r" "pre = [] \<or> is_word pre" "pre \<noteq> [] \<longrightarrow> map_of vars (lower_word pre) = None"
    "skip_len (t @ r) = Some (length t)" "\<not> begins isIdentCont t" "fresh_at stmt i"
  shows "subst_from vars stmt i = (pre @ t) @ subst_from vars stmt (i + length (pre @ t))"
proof -
  have "\<not> begins isIdentCont (t @ r)" using assms(5) skip_len_bounds(1) [OF assms(4)] by (cases t) simp_all
  then have "subst_from vars stmt i = pre @ subst_from vars stmt (i + length pre)"
    using subst_word [OF assms(1)] assms(2,3,6) by auto
  then show ?thesis using subst_skip [OF drop_appD [OF assms(1)] assms(4)] by (simp add: add.assoc)
qed

lemma subst_number:
  assumes "drop i stmt = w @ r" "good_piece (Number w)"
  shows "subst_from vars stmt i = w @ subst_from vars stmt (i + length w)"
proof -
  obtain c u where w: "w = c # u" "\<not> isIdentStart c" "isIdentCont c" "list_all isIdentCont u"
    using assms(2) by (cases w) auto
  have d: "drop i stmt = c # u @ r" "drop (i + 1) stmt = u @ r"
    using assms(1) w(1) drop_appD [of i stmt "[c]"] by simp_all
  have "subst_from vars stmt i = c # subst_from vars stmt (i + 1)"
    using d(1) w(2,3) ident_no_skip ident_chars(7) by (intro subst_char) auto
  then show ?thesis using w subst_run [OF w(4) d(2), of vars] drop_nth [OF d(1)] by simp
qed

lemma subst_param:
  assumes "drop i stmt = CHR ''@'' # w @ r" "is_word w" "map_of vars (lower_word w) = None" "\<not> begins isIdentCont r"
  shows "subst_from vars stmt i = CHR ''@'' # w @ subst_from vars stmt (i + 1 + length w)"
proof -
  have d: "drop (i + 1) stmt = w @ r" using assms(1) drop_appD [of i stmt "''@''"] by simp
  have "subst_from vars stmt i = CHR ''@'' # subst_from vars stmt (i + 1)"
    by (rule subst_char [OF assms(1)]) (simp_all add: skip_len_def is_quote_def isIdentStart_def byte_in_def)
  moreover have "fresh_at stmt (i + 1)" using drop_nth [OF assms(1)] by (simp add: fresh_at_def)
  ultimately show ?thesis using subst_word [OF d assms(2,4), of vars] assms(3) by simp
qed

lemma subst_line:
  assumes "drop i stmt = piece_text (LineComment m body) @ r" "good_piece (LineComment m body)"
  shows "subst_from vars stmt i = piece_text (LineComment m body) @ subst_from vars stmt (i + length (piece_text (LineComment m body)))"
proof -
  have d: "drop i stmt = (m @ body) @ CHR 0x0A # r" using assms(1) by simp
  have "subst_from vars stmt i = (m @ body) @ subst_from vars stmt (i + length (m @ body))"
    by (rule subst_skip [OF d skip_line]) (use assms(2) in simp_all)
  moreover have "subst_from vars stmt (i + length (m @ body)) = CHR 0x0A # subst_from vars stmt (i + length (m @ body) + 1)"
    by (rule subst_char [OF drop_appD [OF d]]) (simp_all add: skip_len_def is_quote_def isIdentStart_def byte_in_def)
  ultimately show ?thesis by simp
qed

lemma subst_piece:
  assumes "good_piece p" "ends_before p r" "uncaptured vars p" "drop i stmt = piece_text p @ r" "fresh_at stmt i"
    "r = script_text ps"
  shows "\<exists>t. subst_text vars (p # ps) = t @ subst_text vars ps \<and> subst_from vars stmt i = t @ subst_from vars stmt (i + length (piece_text p))"
proof (cases p)
  case (Mark c)
  then have "\<not> isIdentStart c" "c \<noteq> CHR ''.''" using assms(1) by (auto simp: isIdentCont_def)
  then show ?thesis using Mark assms subst_char [of i stmt c r vars] mark_no_skip [of c r] by simp
next
  case (Ident w)
  then show ?thesis using assms subst_word [of i stmt w r vars] by (auto split: option.split)
next
  case (Number w)
  then show ?thesis using assms subst_number [of i stmt w r vars] by simp
next
  case (Access w)
  then show ?thesis using assms subst_field [of i stmt w r vars] by simp
next
  case (Param w)
  then show ?thesis using assms subst_param [of i stmt w r vars] by simp
next
  case (Quoted pre q body)
  then have "\<not> isIdentCont q" using assms(1) by (auto simp: is_quote_def)
  then show ?thesis using assms Quoted subst_literal [OF _ _ _ skip_quoted, of i stmt pre q body r vars] by simp
next
  case (Triple pre q body)
  then have "\<not> isIdentCont q" using assms(1) by (auto simp: is_quote_def)
  then show ?thesis using assms Triple subst_literal [OF _ _ _ skip_triple, of i stmt pre q body r vars] by simp
next
  case (Backtick n)
  then show ?thesis using assms subst_skip [OF _ skip_backtick, of i stmt n r vars] by simp
next
  case (LineComment m body)
  then show ?thesis using assms subst_line [of i stmt m body r vars] by simp
next
  case (BlockComment body)
  then show ?thesis using assms subst_skip [OF _ skip_block, of i stmt body r vars] by simp
qed

lemma piece_fresh:
  assumes "good_piece p" "ends_before p r" "drop i stmt = piece_text p @ r"
  shows "fresh_at stmt (i + length (piece_text p))"
proof (cases "begins isIdentCont r")
  case True
  then have "\<not> isIdentCont (last (piece_text p))" "piece_text p \<noteq> []"
    using assms(1,2) by (cases p; auto simp: is_quote_def)+
  moreover have "stmt ! (i + length (piece_text p) - 1) = last (piece_text p)" if "piece_text p \<noteq> []"
  proof -
    have "drop i stmt ! (length (piece_text p) - 1) = last (piece_text p)"
      using that by (simp add: assms(3) nth_append last_conv_nth)
    moreover have "i \<le> length stmt" using that assms(3) by (metis append_is_Nil_conv drop_all linear)
    ultimately show ?thesis using that by (cases "piece_text p") simp_all
  qed
  ultimately show ?thesis by (simp add: fresh_at_def)
qed (simp add: fresh_at_def drop_appD [OF assms(3)])

lemma subst_pieces:
  assumes "wf_text ps" "list_all (uncaptured vars) ps" "drop i stmt = script_text ps" "fresh_at stmt i"
  shows "subst_from vars stmt i = subst_text vars ps"
  using assms
proof (induction ps arbitrary: i)
  case Nil
  then show ?case by (simp add: subst_from_def script_tokens.simps [of stmt i])
next
  case (Cons p ps)
  have d: "drop i stmt = piece_text p @ script_text ps" using Cons.prems(3) by simp
  obtain t where t: "subst_text vars (p # ps) = t @ subst_text vars ps"
    "subst_from vars stmt i = t @ subst_from vars stmt (i + length (piece_text p))"
    using subst_piece [OF _ _ _ d Cons.prems(4) refl] Cons.prems(1,2) by auto
  have "subst_from vars stmt (i + length (piece_text p)) = subst_text vars ps"
    using Cons.IH [OF _ _ drop_appD [OF d] piece_fresh [OF _ _ d]] Cons.prems(1,2) by simp
  then show ?case using t by simp
qed

section \<open>Properties\<close>

text \<open>
  C19. A script is cut exactly at the semicolons between its statements: for statements written with
  identifiers, numbers, marks, parameters, literals, quoted names and comments, which may hold
  semicolons, quotes and comment openers themselves, splitting the statements joined by semicolons
  gives back these statements, with or without a semicolon after the last one. On every
  text the parts joined by semicolons give the text back, but for a last semicolon.\<close>

theorem script_split_join:
  assumes "list_all wf_text stmts" "stmts \<noteq> []"
  shows "splitTopLevelStatements (join_with '';'' (map script_text stmts) @ '';'') = map script_text stmts
    \<and> (script_text (last stmts) \<noteq> [] \<longrightarrow>
         splitTopLevelStatements (join_with '';'' (map script_text stmts)) = map script_text stmts)
    \<and> (join_with '';'' (splitTopLevelStatements query) = query
       \<or> join_with '';'' (splitTopLevelStatements query) @ '';'' = query)"
  using split_statements [OF assms] split_from_join [of "[]" query] by (simp add: splitTopLevelStatements_def)

text \<open>A semicolon in a literal, in a comment and between the statements.\<close>

lemmas eval_pieces = is_word_def isIdentCont_def isIdentStart_def byte_in_def is_quote_def sublist_Cons_right

theorem script_split_join_witness:
  "splitTopLevelStatements ''SELECT \"a;b\";/*;*/x;'' = [''SELECT \"a;b\"'', ''/*;*/x'']"
  using script_split_join [of "[[Ident ''SELECT'', Mark (CHR '' ''), Quoted [] (CHR 0x22) ''a;b''], [BlockComment '';'', Ident ''x'']]" "[]"]
  by (simp add: eval_pieces)

text \<open>
  C28. Substitution replaces identifiers and nothing else: in a text of lexical pieces every
  identifier that names a variable, in any case, becomes its expression, unless it is written
  before a parenthesis; literals, quoted names, comments, numbers, field accesses and marks stay byte for
  byte. The text must not use the name of a variable as a query parameter or directly before a
  literal: there the code replaces it too.\<close>

theorem script_substitution:
  assumes "wf_text ps" "list_all (uncaptured vars) ps"
  shows "substituteScriptVariables (script_text ps) vars = subst_text vars ps"
  using subst_pieces [OF assms, of 0 "script_text ps"] by (simp add: substitute_tokens subst_from_def fresh_at_def)

theorem script_substitution_witness:
  "substituteScriptVariables ''X+\"x\" x(x)/*x*/.x'' [(''x'', ''5'')] = ''5+\"x\" x(5)/*x*/.x''"
proof -
  let ?ps = "[Ident ''X'', Mark (CHR ''+''), Quoted [] (CHR 0x22) ''x'', Mark (CHR '' ''), Ident ''x'', Mark (CHR ''(''),
    Ident ''x'', Mark (CHR '')''), BlockComment ''x'', Access ''x'']"
  have "wf_text ?ps" "list_all (uncaptured [(''x'', ''5'')]) ?ps" by (simp_all add: eval_pieces lower_word_def)
  from script_substitution [OF this] show ?thesis by (simp add: lower_word_def lower_char_def called_def char_of_eq_iff)
qed

text \<open>
  Outside these conditions the scanners depart from the language: the prefix of a raw literal is
  replaced when a variable has its name, and a literal with three quotes ends at the next three
  quotes even when a backslash escapes the first of them.\<close>

lemma literal_scan_defects:
  "substituteScriptVariables ''r\"a\"'' [(''r'', ''1'')] = ''1\"a\"''
   \<and> skipLiteralOrComment ([CHR 0x22, CHR 0x22, CHR 0x22, CHR 0x5C, CHR 0x22, CHR 0x22, CHR 0x22] @ t) 0 = Some 7"
proof
  have "subst_from [(''r'', ''1'')] ''r\"a\"'' 0 = ''1'' @ subst_from [(''r'', ''1'')] ''r\"a\"'' 1"
    using subst_word [of 0 "''r\"a\"''" "''r''" "''\"a\"''" "[(''r'', ''1'')]"]
    by (simp add: eval_pieces fresh_at_def lower_word_def lower_char_def called_def)
  moreover have "subst_from [(''r'', ''1'')] ''r\"a\"'' 1 = ''\"a\"'' @ subst_from [(''r'', ''1'')] ''r\"a\"'' 4"
    using subst_skip [of 1 "''r\"a\"''" "''\"a\"''" "[]"] by (simp add: skip_len_def eval_pieces numeral_eq_Suc)
  moreover have "subst_from [(''r'', ''1'')] ''r\"a\"'' 4 = []"
    by (simp add: subst_from_def script_tokens.simps [of _ 4])
  ultimately show "substituteScriptVariables ''r\"a\"'' [(''r'', ''1'')] = ''1\"a\"''"
    by (simp add: substitute_tokens subst_from_def [symmetric])
  show "skipLiteralOrComment ([CHR 0x22, CHR 0x22, CHR 0x22, CHR 0x5C, CHR 0x22, CHR 0x22, CHR 0x22] @ t) 0 = Some 7"
    by (simp add: skipLiteralOrComment_def skip_len_def is_quote_def)
qed

end
