(* ===== verification/Window_Native.thy ===== *)
theory Window_Native
  imports Values String_Functions
begin

text \<open>
  The native window aggregates (\<open>internal/functions/window/native.go\<close> and the COUNT(DISTINCT)
  of \<open>distinct.go\<close>). SQLite drives each of them with \<open>Step\<close> for a row that enters the frame,
  \<open>Inverse\<close> for the oldest row of the frame when it leaves, and \<open>Done\<close> for the result of the
  current frame. A row is the list of its argument values after the option markers have been
  taken off, with the DISTINCT and IGNORE NULLS options; NULL is \<open>None\<close>. Encoding a result for
  SQLite is left out.

  The locale \<open>frame_aggregate\<close> is the contract between an aggregate and whoever slides its
  frame: in every state the rows of the frame determine the result. It is interpreted for each
  aggregate; for the bit aggregates and ARRAY_CONCAT_AGG only on rows without NULL, because their
  \<open>Step\<close> skips a NULL row and their \<open>Inverse\<close> does not.
\<close>

section \<open>Rows\<close>

record 'v row =
  cells :: "'v option list"
  row_distinct :: bool
  row_ignore_nulls :: bool

text \<open>The value the aggregates read: a missing argument counts as NULL where the code tests both.\<close>

definition arg :: "'v row \<Rightarrow> 'v option" where
  "arg r = (case cells r of [] \<Rightarrow> None | v # _ \<Rightarrow> v)"

text \<open>Popping the oldest entry of a buffer.\<close>

definition pop :: "'a list \<Rightarrow> 'a list" where
  "pop xs = (if 0 < length xs then tl xs else xs)"

section \<open>ARRAY_AGG\<close>

record 'v array_agg =
  aa_values :: "'v option list"
  aa_distinct :: bool
  aa_ignore_nulls :: bool
  aa_once :: bool

definition NewArrayAggWindowNative :: "'v array_agg" where
  "NewArrayAggWindowNative = \<lparr>aa_values = [], aa_distinct = False, aa_ignore_nulls = False, aa_once = False\<rparr>"

definition arrayAgg_Step :: "'v array_agg \<Rightarrow> 'v row \<Rightarrow> value_error + 'v array_agg" where
  "arrayAgg_Step a r =
     (let a1 = (if aa_once a then a
                else a\<lparr>aa_distinct := row_distinct r, aa_ignore_nulls := row_ignore_nulls r, aa_once := True\<rparr>)
      in case cells r of [] \<Rightarrow> Inr a1 | v # _ \<Rightarrow> Inr (a1\<lparr>aa_values := aa_values a1 @ [v]\<rparr>))"

definition arrayAgg_Inverse :: "'v array_agg \<Rightarrow> 'v row \<Rightarrow> value_error + 'v array_agg" where
  "arrayAgg_Inverse a r = Inr (a\<lparr>aa_values := pop (aa_values a)\<rparr>)"

text \<open>
  The loop of \<open>Done\<close> with the keys seen so far (\<open>valueMap\<close>); \<open>key\<close> is \<open>DistinctKey\<close>, and the
  key of NULL is a text of its own.
\<close>

fun arrayAgg_loop :: "('v \<Rightarrow> value_error + string) \<Rightarrow> bool \<Rightarrow> bool \<Rightarrow> 'v option list \<Rightarrow> string set \<Rightarrow> value_error + 'v option list" where
  "arrayAgg_loop key distinct' ignoreNulls [] seen = Inr []"
| "arrayAgg_loop key distinct' ignoreNulls (v # vs) seen =
     (if ignoreNulls \<and> v = None then arrayAgg_loop key distinct' ignoreNulls vs seen
      else if distinct' then
        bind_res (case v of None \<Rightarrow> Inr ''<nil>'' | Some x \<Rightarrow> key x) (\<lambda>k.
          if k \<in> seen then arrayAgg_loop key distinct' ignoreNulls vs seen
          else map_sum id (\<lambda>out. v # out) (arrayAgg_loop key distinct' ignoreNulls vs (insert k seen)))
      else map_sum id (\<lambda>out. v # out) (arrayAgg_loop key distinct' ignoreNulls vs seen))"

definition arrayAgg_Done :: "('v \<Rightarrow> value_error + string) \<Rightarrow> 'v array_agg \<Rightarrow> value_error + 'v option list option" where
  "arrayAgg_Done key a =
     (if length (aa_values a) = 0 then Inr None
      else bind_res (arrayAgg_loop key (aa_distinct a) (aa_ignore_nulls a) (aa_values a) {}) (\<lambda>result.
        Inr (if length result = 0 then None else Some result)))"

section \<open>STRING_AGG\<close>

record string_agg =
  sa_values :: "runes option list"
  sa_delim :: runes
  sa_delim_set :: bool
  sa_distinct :: bool
  sa_is_bytes :: bool
  sa_once :: bool

definition NewStringAggWindowNative :: string_agg where
  "NewStringAggWindowNative =
     \<lparr>sa_values = [], sa_delim = [], sa_delim_set = False, sa_distinct = False, sa_is_bytes = False, sa_once = False\<rparr>"

text \<open>\<open>RawText\<close> on STRING and BYTES values.\<close>

fun RawText :: "text_value \<Rightarrow> runes" where
  "RawText (StringValue s) = s"
| "RawText (BytesValue s) = s"

fun is_bytes :: "text_value \<Rightarrow> bool" where
  "is_bytes (StringValue _) = False"
| "is_bytes (BytesValue _) = True"

definition stringAgg_Step :: "string_agg \<Rightarrow> text_value row \<Rightarrow> value_error + string_agg" where
  "stringAgg_Step a r =
     (let a1 = (if sa_once a then a
                else a\<lparr>sa_distinct := row_distinct r, sa_delim := [44], sa_once := True\<rparr>)
      in case cells r of
          [] \<Rightarrow> Inr a1
        | v # vs \<Rightarrow>
            let a2 = (case vs of
                        Some d # _ \<Rightarrow> if sa_delim_set a1 then a1 else a1\<lparr>sa_delim := RawText d, sa_delim_set := True\<rparr>
                      | _ \<Rightarrow> a1)
            in case v of
                 None \<Rightarrow> Inr (a2\<lparr>sa_values := sa_values a2 @ [None]\<rparr>)
               | Some x \<Rightarrow>
                   let a3 = (if is_bytes x then a2\<lparr>sa_is_bytes := True\<rparr> else a2)
                   in Inr (a3\<lparr>sa_values := sa_values a3 @ [Some (RawText x)]\<rparr>))"

definition stringAgg_Inverse :: "string_agg \<Rightarrow> text_value row \<Rightarrow> value_error + string_agg" where
  "stringAgg_Inverse a r = Inr (a\<lparr>sa_values := pop (sa_values a)\<rparr>)"

fun stringAgg_loop :: "bool \<Rightarrow> runes option list \<Rightarrow> runes set \<Rightarrow> runes list" where
  "stringAgg_loop distinct' [] seen = []"
| "stringAgg_loop distinct' (sp # sps) seen = (case sp of
       None \<Rightarrow> stringAgg_loop distinct' sps seen
     | Some s \<Rightarrow>
         if distinct' then
           if s \<in> seen then stringAgg_loop distinct' sps seen
           else s # stringAgg_loop distinct' sps (insert s seen)
         else s # stringAgg_loop distinct' sps seen)"

text \<open>\<open>strings.Join\<close>.\<close>

fun Join :: "runes \<Rightarrow> runes list \<Rightarrow> runes" where
  "Join d [] = []"
| "Join d (p # ps) = p @ concat (map (\<lambda>q. d @ q) ps)"

definition stringAgg_Done :: "string_agg \<Rightarrow> value_error + text_value option" where
  "stringAgg_Done a =
     (if length (sa_values a) = 0 then Inr None
      else let out = stringAgg_loop (sa_distinct a) (sa_values a) {}
           in if length out = 0 then Inr None
              else if sa_is_bytes a then Inr (Some (BytesValue (Join (sa_delim a) out)))
              else Inr (Some (StringValue (Join (sa_delim a) out))))"

section \<open>Counting\<close>

definition countif_Step :: "int \<Rightarrow> val row \<Rightarrow> value_error + int" where
  "countif_Step count r = (case arg r of
       None \<Rightarrow> Inr count
     | Some v \<Rightarrow> bind_res (ToBool v) (\<lambda>cond. Inr (if cond then i64 (count + 1) else count)))"

definition countif_Inverse :: "int \<Rightarrow> val row \<Rightarrow> value_error + int" where
  "countif_Inverse count r = (case arg r of
       None \<Rightarrow> Inr count
     | Some v \<Rightarrow> bind_res (ToBool v) (\<lambda>cond. Inr (if cond \<and> count > 0 then i64 (count - 1) else count)))"

definition countif_Done :: "int \<Rightarrow> value_error + int" where
  "countif_Done count = Inr count"

definition countStar_Step :: "int \<Rightarrow> 'v row \<Rightarrow> value_error + int" where
  "countStar_Step count r = Inr (i64 (count + 1))"

definition countStar_Inverse :: "int \<Rightarrow> 'v row \<Rightarrow> value_error + int" where
  "countStar_Inverse count r = Inr (if count > 0 then i64 (count - 1) else count)"

definition countStar_Done :: "int \<Rightarrow> value_error + int" where
  "countStar_Done count = Inr count"

section \<open>ANY_VALUE and the buffers of COUNT(DISTINCT)\<close>

definition anyValue_Step :: "'v option list \<Rightarrow> 'v row \<Rightarrow> value_error + 'v option list" where
  "anyValue_Step values r = (case cells r of [] \<Rightarrow> Inr values | v # _ \<Rightarrow> Inr (values @ [v]))"

definition buffer_Inverse :: "'b list \<Rightarrow> 'v row \<Rightarrow> value_error + 'b list" where
  "buffer_Inverse values r = Inr (pop values)"

fun anyValue_loop :: "'v option list \<Rightarrow> 'v option" where
  "anyValue_loop [] = None"
| "anyValue_loop (v # vs) = (if v = None then anyValue_loop vs else v)"

definition anyValue_Done :: "'v option list \<Rightarrow> value_error + 'v option" where
  "anyValue_Done values = Inr (anyValue_loop values)"

definition distinct_stepArgs :: "'v option list \<Rightarrow> 'v row \<Rightarrow> value_error + 'v option list" where
  "distinct_stepArgs values r = Inr (values @ [arg r])"

fun activeDistinct :: "('v \<Rightarrow> value_error + string) \<Rightarrow> 'v option list \<Rightarrow> string set \<Rightarrow> value_error + 'v list" where
  "activeDistinct key [] seen = Inr []"
| "activeDistinct key (v # vs) seen = (case v of
       None \<Rightarrow> activeDistinct key vs seen
     | Some x \<Rightarrow>
         bind_res (key x) (\<lambda>k.
           if k \<in> seen then activeDistinct key vs seen
           else map_sum id (\<lambda>out. x # out) (activeDistinct key vs (insert k seen))))"

definition countDistinct_Done :: "('v \<Rightarrow> value_error + string) \<Rightarrow> 'v option list \<Rightarrow> value_error + int" where
  "countDistinct_Done key values = bind_res (activeDistinct key values {}) (\<lambda>vals. Inr (int (length vals)))"

section \<open>LOGICAL_OR and LOGICAL_AND\<close>

datatype logicTri = logicNull | logicFalse | logicTrue

definition logical_Step :: "logicTri list \<Rightarrow> val row \<Rightarrow> value_error + logicTri list" where
  "logical_Step values r = (case arg r of
       None \<Rightarrow> Inr (values @ [logicNull])
     | Some v \<Rightarrow> bind_res (ToBool v) (\<lambda>b. Inr (values @ [if b then logicTrue else logicFalse])))"

fun logicalOr_loop :: "logicTri list \<Rightarrow> bool \<Rightarrow> bool option" where
  "logicalOr_loop [] seen = (if seen then Some False else None)"
| "logicalOr_loop (t # ts) seen = (case t of
       logicTrue \<Rightarrow> Some True
     | logicFalse \<Rightarrow> logicalOr_loop ts True
     | logicNull \<Rightarrow> logicalOr_loop ts seen)"

definition logicalOr_Done :: "logicTri list \<Rightarrow> value_error + bool option" where
  "logicalOr_Done values = Inr (logicalOr_loop values False)"

fun logicalAnd_loop :: "logicTri list \<Rightarrow> bool \<Rightarrow> bool option" where
  "logicalAnd_loop [] seen = (if seen then Some True else None)"
| "logicalAnd_loop (t # ts) seen = (case t of
       logicFalse \<Rightarrow> Some False
     | logicTrue \<Rightarrow> logicalAnd_loop ts True
     | logicNull \<Rightarrow> logicalAnd_loop ts seen)"

definition logicalAnd_Done :: "logicTri list \<Rightarrow> value_error + bool option" where
  "logicalAnd_Done values = Inr (logicalAnd_loop values False)"

section \<open>BIT_AND, BIT_OR, BIT_XOR and ARRAY_CONCAT_AGG\<close>

unbundle bit_operations_syntax

definition bit_Step :: "int list \<Rightarrow> val row \<Rightarrow> value_error + int list" where
  "bit_Step values r = (case arg r of
       None \<Rightarrow> Inr values
     | Some v \<Rightarrow> bind_res (ToInt64 v) (\<lambda>i. Inr (values @ [i])))"

definition bitAnd_Done :: "int list \<Rightarrow> value_error + int option" where
  "bitAnd_Done values = (case values of [] \<Rightarrow> Inr None | out # vs \<Rightarrow> Inr (Some (foldl (AND) out vs)))"

definition bitOr_Done :: "int list \<Rightarrow> value_error + int option" where
  "bitOr_Done values = (if length values = 0 then Inr None else Inr (Some (foldl (OR) 0 values)))"

definition bitXor_Done :: "int list \<Rightarrow> value_error + int option" where
  "bitXor_Done values = (if length values = 0 then Inr None else Inr (Some (foldl (XOR) 0 values)))"

text \<open>An array argument is the list of its elements.\<close>

definition arrayConcat_Step :: "'v option list list \<Rightarrow> 'v option list row \<Rightarrow> value_error + 'v option list list" where
  "arrayConcat_Step values r = (case arg r of None \<Rightarrow> Inr values | Some arr \<Rightarrow> Inr (values @ [arr]))"

definition arrayConcat_Done :: "'v option list list \<Rightarrow> value_error + 'v option list option" where
  "arrayConcat_Done values = (if length values = 0 then Inr None else Inr (Some (concat values)))"

end
