(* ===== verification/Window_Frames.thy ===== *)
theory Window_Frames
  imports Window_Native
begin

text \<open>
  The contract of the native window aggregates. \<open>slide\<close> is what SQLite does to an aggregate:
  rows enter at the end of the frame and leave at its front. The locale \<open>frame_aggregate\<close> states
  what an aggregate promises about it, with a relation between its states and the rows of the
  frame; the interpretations give, for every aggregate, the result as a function of the frame.
\<close>

section \<open>Sliding frames\<close>

inductive slide :: "('r \<Rightarrow> bool) \<Rightarrow> 's \<Rightarrow> ('s \<Rightarrow> 'r \<Rightarrow> 'e + 's) \<Rightarrow> ('s \<Rightarrow> 'r \<Rightarrow> 'e + 's) \<Rightarrow> 's \<Rightarrow> 'r list \<Rightarrow> bool"
  for P init step inverse where
  slide_init: "slide P init step inverse init []"
| slide_step: "slide P init step inverse s rs \<Longrightarrow> P r \<Longrightarrow> length rs + 1 < 2 ^ 63 \<Longrightarrow> step s r = Inr s' \<Longrightarrow>
    slide P init step inverse s' (rs @ [r])"
| slide_inverse: "slide P init step inverse s (r # rs) \<Longrightarrow> inverse s r = Inr s' \<Longrightarrow> slide P init step inverse s' rs"

locale frame_aggregate =
  fixes ok :: "'r \<Rightarrow> bool"
    and init :: 's
    and step :: "'s \<Rightarrow> 'r \<Rightarrow> value_error + 's"
    and inverse :: "'s \<Rightarrow> 'r \<Rightarrow> value_error + 's"
    and result :: "'s \<Rightarrow> value_error + 'a"
    and holds :: "'s \<Rightarrow> 'r list \<Rightarrow> bool"
    and value_of :: "'r list \<Rightarrow> 'a"
  assumes init_holds: "holds init []"
    and step_holds: "holds s rs \<Longrightarrow> ok r \<Longrightarrow> length rs + 1 < 2 ^ 63 \<Longrightarrow> \<exists>s'. step s r = Inr s' \<and> holds s' (rs @ [r])"
    and inverse_holds: "holds s (r # rs) \<Longrightarrow> \<exists>s'. inverse s r = Inr s' \<and> holds s' rs"
    and result_holds: "holds s rs \<Longrightarrow> result s = Inr (value_of rs)"
begin

lemma slide_holds: "slide ok init step inverse s rs \<Longrightarrow> holds s rs"
proof (induction rule: slide.induct)
  case slide_init
  then show ?case by (rule init_holds)
next
  case (slide_step s rs r s')
  then show ?case using step_holds by fastforce
next
  case (slide_inverse s r rs s')
  then show ?case using inverse_holds by fastforce
qed

lemma slide_result: "slide ok init step inverse s rs \<Longrightarrow> result s = Inr (value_of rs)"
  by (rule result_holds [OF slide_holds])

lemma fold_step_holds:
  "holds s rs \<Longrightarrow> list_all ok xs \<Longrightarrow> length rs + length xs < 2 ^ 63 \<Longrightarrow>
   \<exists>s'. fold_res step s xs = Inr s' \<and> holds s' (rs @ xs)"
proof (induction xs arbitrary: s rs)
  case (Cons x xs)
  obtain s1 where "step s x = Inr s1" "holds s1 (rs @ [x])" using step_holds [of s rs x] Cons.prems by auto
  then show ?case using Cons.IH [of s1 "rs @ [x]"] Cons.prems by auto
qed simp

lemma fold_inverse_holds: "holds s (xs @ rs) \<Longrightarrow> \<exists>s'. fold_res inverse s xs = Inr s' \<and> holds s' rs"
proof (induction xs arbitrary: s)
  case (Cons x xs)
  obtain s1 where "inverse s x = Inr s1" "holds s1 (xs @ rs)" using inverse_holds [of s x "xs @ rs"] Cons.prems by auto
  then show ?case using Cons.IH by auto
qed simp

end

section \<open>First occurrences\<close>

fun first_by :: "('a \<Rightarrow> 'k) \<Rightarrow> 'a list \<Rightarrow> 'a list" where
  "first_by f [] = []"
| "first_by f (x # xs) = x # filter (\<lambda>y. f y \<noteq> f x) (first_by f xs)"

lemma first_by_filter: "filter (\<lambda>y. f y \<notin> A) (first_by f xs) = first_by f (filter (\<lambda>y. f y \<notin> A) xs)"
proof (induction xs)
  case (Cons x xs)
  have swap: "filter P (filter Q ys) = filter Q (filter P ys)" for P Q and ys :: "'a list" by (simp add: conj_commute)
  show ?case
  proof (cases "f x \<in> A")
    case True
    then have "filter (\<lambda>y. f y \<notin> A) (filter (\<lambda>y. f y \<noteq> f x) (first_by f xs)) = filter (\<lambda>y. f y \<notin> A) (first_by f xs)"
      by (auto intro!: filter_cong)
    then show ?thesis using True Cons.IH by simp
  next
    case False
    then show ?thesis using Cons.IH swap [of "\<lambda>y. f y \<notin> A" "\<lambda>y. f y \<noteq> f x"] by (simp del: filter_filter)
  qed
qed simp

lemma first_by_insert:
  "first_by f (filter (\<lambda>v. f v \<notin> insert (f x) A) ws) = filter (\<lambda>y. f y \<noteq> f x) (first_by f (filter (\<lambda>v. f v \<notin> A) ws))"
proof -
  have "filter (\<lambda>v. f v \<notin> insert (f x) A) ws = filter (\<lambda>v. f v \<notin> {f x}) (filter (\<lambda>v. f v \<notin> A) ws)"
    by (auto intro!: filter_cong)
  then show ?thesis using first_by_filter [of f "{f x}" "filter (\<lambda>v. f v \<notin> A) ws"] by (simp del: filter_filter)
qed

lemma arrayAgg_loop_spec:
  assumes "\<And>x. key x = Inr (kf x)"
  shows "arrayAgg_loop key d i vs seen = Inr (let ws = filter (\<lambda>v. \<not> (i \<and> v = None)) vs;
      k = (\<lambda>v. case v of None \<Rightarrow> ''<nil>'' | Some x \<Rightarrow> kf x)
    in if d then first_by k (filter (\<lambda>v. k v \<notin> seen) ws) else ws)"
proof -
  define k where "k = (\<lambda>v. case v of None \<Rightarrow> ''<nil>'' | Some x \<Rightarrow> kf x)"
  define keep where "keep = (\<lambda>v :: 'a option. \<not> (i \<and> v = None))"
  have key: "(case v of None \<Rightarrow> Inr ''<nil>'' | Some x \<Rightarrow> key x) = Inr (k v)" for v
    by (cases v) (simp_all add: k_def assms(1))
  have step: "arrayAgg_loop key d i (v # vs) seen =
      (if \<not> keep v then arrayAgg_loop key d i vs seen
       else if d then (if k v \<in> seen then arrayAgg_loop key d i vs seen
         else map_sum id (\<lambda>out. v # out) (arrayAgg_loop key d i vs (insert (k v) seen)))
       else map_sum id (\<lambda>out. v # out) (arrayAgg_loop key d i vs seen))" for v vs seen
    by (simp add: key keep_def)
  have "arrayAgg_loop key d i vs seen = Inr (if d then first_by k (filter (\<lambda>v. k v \<notin> seen) (filter keep vs)) else filter keep vs)"
  proof (induction vs arbitrary: seen)
    case (Cons v vs)
    show ?case unfolding step using Cons.IH [of seen] Cons.IH [of "insert (k v) seen"]
      by (cases d) (simp_all add: first_by_insert del: filter_filter insert_iff)
  qed simp
  then show ?thesis by (simp add: k_def keep_def Let_def)
qed

lemma stringAgg_loop_spec:
  "stringAgg_loop d sps seen = (let ws = map the (filter (\<lambda>v. v \<noteq> None) sps)
    in if d then first_by id (filter (\<lambda>s. s \<notin> seen) ws) else ws)"
proof (induction sps arbitrary: seen)
  case (Cons sp sps)
  show ?case
  proof (cases sp)
    case (Some s)
    have "first_by id (filter (\<lambda>w. w \<notin> insert s seen) ws) = filter (\<lambda>y. y \<noteq> s) (first_by id (filter (\<lambda>w. w \<notin> seen) ws))" for ws
      using first_by_insert [of id s seen ws] by simp
    then show ?thesis using Some Cons.IH [of seen] Cons.IH [of "insert s seen"]
      by (cases d) (simp_all add: Let_def del: filter_filter insert_iff)
  qed (use Cons.IH in simp)
qed simp

section \<open>The aggregates keep the contract\<close>

lemma pop_Cons [simp]: "pop (x # xs) = xs"
  by (simp add: pop_def)

text \<open>ARRAY_AGG of rows that all carry the same options.\<close>

definition same_options :: "bool \<Rightarrow> bool \<Rightarrow> 'v row \<Rightarrow> bool" where
  "same_options d i r \<longleftrightarrow> cells r \<noteq> [] \<and> row_distinct r = d \<and> row_ignore_nulls r = i"

definition array_holds :: "bool \<Rightarrow> bool \<Rightarrow> 'v array_agg \<Rightarrow> 'v row list \<Rightarrow> bool" where
  "array_holds d i a rs \<longleftrightarrow> aa_values a = map arg rs \<and> (rs \<noteq> [] \<longrightarrow> aa_once a) \<and>
     (aa_once a \<longrightarrow> aa_distinct a = d \<and> aa_ignore_nulls a = i)"

definition array_value :: "('v \<Rightarrow> string) \<Rightarrow> bool \<Rightarrow> bool \<Rightarrow> 'v row list \<Rightarrow> 'v option list option" where
  "array_value kf d i rs =
     (let vs = filter (\<lambda>v. \<not> (i \<and> v = None)) (map arg rs);
          ws = (if d then first_by (\<lambda>v. case v of None \<Rightarrow> ''<nil>'' | Some x \<Rightarrow> kf x) vs else vs)
      in if ws = [] then None else Some ws)"

lemma arrayAgg_Done_spec:
  "array_holds d i a rs \<Longrightarrow> arrayAgg_Done (\<lambda>x. Inr (kf x)) a = Inr (array_value kf d i rs)"
  by (cases "rs = []") (auto simp: array_holds_def arrayAgg_Done_def array_value_def Let_def arrayAgg_loop_spec [of _ kf])

interpretation array_agg: frame_aggregate "same_options d i" NewArrayAggWindowNative arrayAgg_Step arrayAgg_Inverse
    "arrayAgg_Done (\<lambda>x. Inr (kf x))" "array_holds d i" "array_value kf d i" for d i kf
proof
  show "array_holds d i NewArrayAggWindowNative []" by (simp add: array_holds_def NewArrayAggWindowNative_def)
  show "\<exists>s'. arrayAgg_Step s r = Inr s' \<and> array_holds d i s' (rs @ [r])"
    if "array_holds d i s rs" "same_options d i r" for s rs and r :: "'v row"
    using that by (cases "cells r"; cases "aa_once s")
      (auto simp: arrayAgg_Step_def array_holds_def same_options_def arg_def Let_def)
  show "\<exists>s'. arrayAgg_Inverse s r = Inr s' \<and> array_holds d i s' rs"
    if "array_holds d i s (r # rs)" for s r and rs :: "'v row list"
    using that by (auto simp: arrayAgg_Inverse_def array_holds_def)
qed (rule arrayAgg_Done_spec)

text \<open>STRING_AGG of rows with the same options and further arguments, all STRING or all BYTES.\<close>

definition same_text :: "bool \<Rightarrow> text_value option list \<Rightarrow> bool \<Rightarrow> text_value row \<Rightarrow> bool" where
  "same_text d ds b r \<longleftrightarrow> cells r \<noteq> [] \<and> row_distinct r = d \<and> tl (cells r) = ds \<and>
     (case arg r of None \<Rightarrow> True | Some x \<Rightarrow> is_bytes x = b)"

definition delim_of :: "text_value option list \<Rightarrow> runes" where
  "delim_of ds = (case ds of Some d # _ \<Rightarrow> RawText d | _ \<Rightarrow> [44])"

definition string_holds :: "bool \<Rightarrow> text_value option list \<Rightarrow> bool \<Rightarrow> string_agg \<Rightarrow> text_value row list \<Rightarrow> bool" where
  "string_holds d ds b a rs \<longleftrightarrow> sa_values a = map (\<lambda>r. map_option RawText (arg r)) rs \<and> (rs \<noteq> [] \<longrightarrow> sa_once a) \<and>
     (sa_once a \<longrightarrow> sa_distinct a = d \<and> sa_delim a = delim_of ds) \<and> (\<not> sa_once a \<longrightarrow> \<not> sa_delim_set a) \<and>
     (sa_is_bytes a \<longrightarrow> b) \<and> (b \<longrightarrow> (\<exists>r \<in> set rs. arg r \<noteq> None) \<longrightarrow> sa_is_bytes a)"

definition string_value :: "bool \<Rightarrow> text_value option list \<Rightarrow> bool \<Rightarrow> text_value row list \<Rightarrow> text_value option" where
  "string_value d ds b rs =
     (let ts = map (\<lambda>r. RawText (the (arg r))) (filter (\<lambda>r. arg r \<noteq> None) rs);
          ws = (if d then first_by id ts else ts)
      in if ws = [] then None else Some ((if b then BytesValue else StringValue) (Join (delim_of ds) ws)))"

lemma string_values: "map the (filter (\<lambda>v. v \<noteq> None) (map (\<lambda>r. map_option RawText (arg r)) rs)) =
    map (\<lambda>r. RawText (the (arg r))) (filter (\<lambda>r. arg r \<noteq> None) rs)"
  by (induction rs) auto

lemma first_by_Nil: "first_by f xs = [] \<longleftrightarrow> xs = []"
  by (cases xs) simp_all

lemma stringAgg_Done_spec:
  assumes "string_holds d ds b a rs"
  shows "stringAgg_Done a = Inr (string_value d ds b rs)"
proof -
  have sv: "sa_values a = map (\<lambda>r. map_option RawText (arg r)) rs" using assms by (simp add: string_holds_def)
  show ?thesis
  proof (cases "\<exists>r \<in> set rs. arg r \<noteq> None")
  case True
  define ts where "ts = map (\<lambda>r. RawText (the (arg r))) (filter (\<lambda>r. arg r \<noteq> None) rs)"
  have ne: "ts \<noteq> []" "rs \<noteq> []" using True by (auto simp: ts_def filter_empty_conv)
  have s: "sa_values a \<noteq> []" "sa_distinct a = d" "sa_delim a = delim_of ds" "sa_is_bytes a = b"
    using assms True ne(2) by (auto simp: string_holds_def)
  have "stringAgg_loop d (sa_values a) {} = (if d then first_by id ts else ts)"
    using sv unfolding stringAgg_loop_spec sv string_values Let_def ts_def [symmetric] by simp
  then show ?thesis unfolding stringAgg_Done_def string_value_def Let_def ts_def [symmetric]
    using s ne by (simp add: first_by_Nil)
next
  case False
  then have "filter (\<lambda>r. arg r \<noteq> None) rs = []" by (auto simp: filter_empty_conv)
  moreover from this have "stringAgg_loop e (sa_values a) {} = []" for e
    unfolding stringAgg_loop_spec sv string_values Let_def by simp
  ultimately show ?thesis by (simp add: stringAgg_Done_def string_value_def)
qed
qed

lemma stringAgg_Step_holds:
  assumes h: "string_holds d ds b s rs" and r: "same_text d ds b r"
  shows "\<exists>s'. stringAgg_Step s r = Inr s' \<and> string_holds d ds b s' (rs @ [r])"
proof -
  obtain v where c: "cells r = v # ds" "arg r = v" using r by (cases "cells r") (auto simp: same_text_def arg_def)
  have rd: "row_distinct r = d" using r by (simp add: same_text_def)
  define s1 where "s1 = (if sa_once s then s else s\<lparr>sa_distinct := d, sa_delim := [44], sa_once := True\<rparr>)"
  define s2 where "s2 = (case ds of Some t # _ \<Rightarrow> if sa_delim_set s1 then s1 else s1\<lparr>sa_delim := RawText t, sa_delim_set := True\<rparr>
    | _ \<Rightarrow> s1)"
  have s2: "sa_values s2 = sa_values s" "sa_once s2" "sa_distinct s2 = d" "sa_delim s2 = delim_of ds" "sa_is_bytes s2 = sa_is_bytes s"
    using h by (auto simp: s2_def s1_def string_holds_def delim_of_def split: list.splits option.splits)
  have e: "stringAgg_Step s r = Inr (case v of
      None \<Rightarrow> s2\<lparr>sa_values := sa_values s2 @ [None]\<rparr>
    | Some x \<Rightarrow> (if is_bytes x then s2\<lparr>sa_is_bytes := True\<rparr> else s2)\<lparr>sa_values := sa_values s2 @ [Some (RawText x)]\<rparr>)"
    unfolding stringAgg_Step_def c(1) list.case Let_def rd s1_def [symmetric] s2_def [symmetric] by (cases v) simp_all
  show ?thesis
  proof (cases v)
    case None
    then have "string_holds d ds b (s2\<lparr>sa_values := sa_values s2 @ [None]\<rparr>) (rs @ [r])"
      using h c s2 by (simp add: string_holds_def)
    then show ?thesis using e None by simp
  next
    case (Some x)
    then have "is_bytes x = b" using r c by (simp add: same_text_def)
    then have "string_holds d ds b ((if is_bytes x then s2\<lparr>sa_is_bytes := True\<rparr> else s2)\<lparr>sa_values := sa_values s2 @ [Some (RawText x)]\<rparr>) (rs @ [r])"
      using h c s2 Some by (cases b) (simp_all add: string_holds_def)
    then show ?thesis using e Some by simp
  qed
qed

lemma stringAgg_Inverse_holds:
  "string_holds d ds b s (r # rs) \<Longrightarrow> string_holds d ds b (s\<lparr>sa_values := pop (sa_values s)\<rparr>) rs"
  by (cases "arg r") (simp_all add: string_holds_def)

interpretation string_agg: frame_aggregate "same_text d ds b" NewStringAggWindowNative stringAgg_Step stringAgg_Inverse
    stringAgg_Done "string_holds d ds b" "string_value d ds b" for d ds b
proof
  show "string_holds d ds b NewStringAggWindowNative []" by (simp add: string_holds_def NewStringAggWindowNative_def)
qed (simp_all add: stringAgg_Step_holds stringAgg_Inverse_def stringAgg_Inverse_holds stringAgg_Done_spec)

text \<open>COUNTIF: the condition of every row is NULL or converts to BOOL.\<close>

definition truth :: "val row \<Rightarrow> bool option" where
  "truth r = (case arg r of None \<Rightarrow> None | Some v \<Rightarrow> (case ToBool v of Inr b \<Rightarrow> Some b | Inl _ \<Rightarrow> None))"

definition boolean_row :: "val row \<Rightarrow> bool" where
  "boolean_row r \<longleftrightarrow> (case arg r of None \<Rightarrow> True | Some v \<Rightarrow> (case ToBool v of Inr _ \<Rightarrow> True | Inl _ \<Rightarrow> False))"

lemma boolean_row_cases:
  assumes "boolean_row r"
  obtains "arg r = None" "truth r = None" | v b where "arg r = Some v" "ToBool v = Inr b" "truth r = Some b"
  using assms by (cases "arg r") (auto simp: boolean_row_def truth_def split: sum.splits)

definition count_true :: "val row list \<Rightarrow> int" where
  "count_true rs = int (length (filter (\<lambda>r. truth r = Some True) rs))"

definition countif_holds :: "int \<Rightarrow> val row list \<Rightarrow> bool" where
  "countif_holds c rs \<longleftrightarrow> c = count_true rs \<and> length rs < 2 ^ 63 \<and> list_all boolean_row rs"

lemma count_true_bound: "0 \<le> count_true rs" "count_true rs \<le> int (length rs)"
  by (simp_all add: count_true_def)

lemma length_i64: "n < 2 ^ 63 \<Longrightarrow> int64 (int n)"
  by (simp add: int64_def)

interpretation countif: frame_aggregate boolean_row 0 countif_Step countif_Inverse countif_Done countif_holds count_true
proof
  show "countif_holds 0 []" by (simp add: countif_holds_def count_true_def)
  show "\<exists>s'. countif_Step s r = Inr s' \<and> countif_holds s' (rs @ [r])"
    if h: "countif_holds s rs" and r: "boolean_row r" and l: "length rs + 1 < 2 ^ 63" for s rs r
  proof -
    have "i64 (s + 1) = s + 1" using h l count_true_bound [of rs] by (intro i64_id) (simp add: countif_holds_def int64_def)
    then show ?thesis using h r l by (auto elim!: boolean_row_cases simp: countif_Step_def countif_holds_def count_true_def)
  qed
  show "\<exists>s'. countif_Inverse s r = Inr s' \<and> countif_holds s' rs" if h: "countif_holds s (r # rs)" for s r rs
  proof -
    have r: "boolean_row r" "length rs + 1 < 2 ^ 63" "s = count_true (r # rs)" using h by (simp_all add: countif_holds_def)
    have "i64 (s - 1) = s - 1" using r count_true_bound [of "r # rs"] by (intro i64_id) (simp add: int64_def)
    then show ?thesis using h r(1) by (auto elim!: boolean_row_cases simp: countif_Inverse_def countif_holds_def count_true_def)
  qed
qed (simp add: countif_holds_def countif_Done_def)

definition countStar_holds :: "int \<Rightarrow> 'v row list \<Rightarrow> bool" where
  "countStar_holds c rs \<longleftrightarrow> c = int (length rs) \<and> length rs < 2 ^ 63"

interpretation countStar: frame_aggregate "\<lambda>_. True" 0 countStar_Step countStar_Inverse countStar_Done countStar_holds "\<lambda>rs. int (length rs)"
proof
  show "\<exists>s'. countStar_Step s r = Inr s' \<and> countStar_holds s' (rs @ [r])"
    if "countStar_holds s rs" "length rs + 1 < 2 ^ 63" for s and rs :: "'v row list" and r
  proof -
    have "i64 (s + 1) = s + 1" using that by (intro i64_id) (simp add: countStar_holds_def int64_def)
    then show ?thesis using that by (simp add: countStar_Step_def countStar_holds_def)
  qed
  show "\<exists>s'. countStar_Inverse s r = Inr s' \<and> countStar_holds s' rs" if "countStar_holds s (r # rs)" for s r and rs :: "'v row list"
  proof -
    have "i64 (s - 1) = s - 1" using that by (intro i64_id) (simp add: countStar_holds_def int64_def)
    then show ?thesis using that by (simp add: countStar_Inverse_def countStar_holds_def)
  qed
qed (simp_all add: countStar_holds_def countStar_Done_def)

text \<open>Buffers that keep one entry per row.\<close>

definition any_value :: "'v row list \<Rightarrow> 'v option" where
  "any_value rs = (case filter (\<lambda>r. arg r \<noteq> None) rs of [] \<Rightarrow> None | r # _ \<Rightarrow> arg r)"

lemma anyValue_loop_spec: "anyValue_loop (map arg rs) = any_value rs"
  by (induction rs) (auto simp: any_value_def)

interpretation anyValue: frame_aggregate "\<lambda>r. cells r \<noteq> []" "[]" anyValue_Step buffer_Inverse anyValue_Done
    "\<lambda>vs rs. vs = map arg rs" any_value
proof
  show "\<exists>s'. anyValue_Step s r = Inr s' \<and> s' = map arg (rs @ [r])" if "s = map arg rs" "cells r \<noteq> []" for s rs and r :: "'v row"
    using that by (cases "cells r") (simp_all add: anyValue_Step_def arg_def)
qed (simp_all add: buffer_Inverse_def anyValue_Done_def anyValue_loop_spec)

definition distinct_count :: "('v \<Rightarrow> string) \<Rightarrow> 'v row list \<Rightarrow> int" where
  "distinct_count kf rs = int (card {k. \<exists>r \<in> set rs. \<exists>x. arg r = Some x \<and> k = kf x})"

lemma activeDistinct_spec:
  "\<exists>out. activeDistinct (\<lambda>x. Inr (kf x)) vs seen = Inr out \<and> distinct (map kf out) \<and>
     set (map kf out) = (\<lambda>v. kf (the v)) ` (set vs - {None}) - seen"
proof (induction vs arbitrary: seen)
  case (Cons v vs)
  show ?case
  proof (cases v)
    case None
    then have "activeDistinct (\<lambda>x. Inr (kf x)) (v # vs) seen = activeDistinct (\<lambda>x. Inr (kf x)) vs seen"
      "set (v # vs) - {None} = set vs - {None}" by auto
    then show ?thesis using Cons [of seen] by (simp only:)
  next
    case (Some x)
    have s: "set (v # vs) - {None} = insert (Some x) (set vs - {None})" using Some by auto
    show ?thesis
    proof (cases "kf x \<in> seen")
      case True
      then have "activeDistinct (\<lambda>x. Inr (kf x)) (v # vs) seen = activeDistinct (\<lambda>x. Inr (kf x)) vs seen" using Some by simp
      then show ?thesis using Cons [of seen] True unfolding s by (simp only: image_insert option.sel insert_Diff_if if_True)
    next
      case False
      obtain o2 where o2: "activeDistinct (\<lambda>x. Inr (kf x)) vs (insert (kf x) seen) = Inr o2" "distinct (map kf o2)"
        "set (map kf o2) = (\<lambda>v. kf (the v)) ` (set vs - {None}) - insert (kf x) seen"
        using Cons [of "insert (kf x) seen"] by blast
      have "activeDistinct (\<lambda>x. Inr (kf x)) (v # vs) seen = Inr (x # o2)" using Some False o2(1) by simp
      moreover have "distinct (map kf (x # o2))" using o2(2,3) by (metis DiffE distinct.simps(2) insertI1 list.simps(9))
      moreover have "set (map kf (x # o2)) = insert (kf x) ((\<lambda>v. kf (the v)) ` (set vs - {None})) - seen"
        using o2(3) False by (auto simp del: set_map)
      ultimately show ?thesis unfolding s image_insert option.sel by blast
    qed
  qed
qed simp

lemma countDistinct_Done_spec: "countDistinct_Done (\<lambda>x. Inr (kf x)) (map arg rs) = Inr (distinct_count kf rs)"
proof -
  obtain out where o: "activeDistinct (\<lambda>x. Inr (kf x)) (map arg rs) {} = Inr out" "distinct (map kf out)"
    "set (map kf out) = (\<lambda>v. kf (the v)) ` (set (map arg rs) - {None}) - {}"
    using activeDistinct_spec [of kf "map arg rs" "{}"] by blast
  have "(\<lambda>v. kf (the v)) ` (set (map arg rs) - {None}) = {k. \<exists>r \<in> set rs. \<exists>x. arg r = Some x \<and> k = kf x}"
    by force
  then have "length out = card {k. \<exists>r \<in> set rs. \<exists>x. arg r = Some x \<and> k = kf x}"
    using distinct_card [OF o(2)] o(3) by (simp del: set_map)
  then show ?thesis using o(1) by (simp add: countDistinct_Done_def distinct_count_def)
qed

interpretation countDistinct: frame_aggregate "\<lambda>_. True" "[]" distinct_stepArgs buffer_Inverse "countDistinct_Done (\<lambda>x. Inr (kf x))"
    "\<lambda>vs rs. vs = map arg rs" "distinct_count kf" for kf
  by unfold_locales (simp_all add: distinct_stepArgs_def buffer_Inverse_def countDistinct_Done_spec)

text \<open>Three-valued disjunction and conjunction of the rows.\<close>

fun tri :: "bool option \<Rightarrow> logicTri" where
  "tri None = logicNull"
| "tri (Some False) = logicFalse"
| "tri (Some True) = logicTrue"

definition or_value :: "val row list \<Rightarrow> bool option" where
  "or_value rs = (if Some True \<in> truth ` set rs then Some True else if Some False \<in> truth ` set rs then Some False else None)"

definition and_value :: "val row list \<Rightarrow> bool option" where
  "and_value rs = (if Some False \<in> truth ` set rs then Some False else if Some True \<in> truth ` set rs then Some True else None)"

lemma logicalOr_loop_spec: "logicalOr_loop (map (\<lambda>r. tri (truth r)) rs) seen =
    (if Some True \<in> truth ` set rs then Some True else if seen \<or> Some False \<in> truth ` set rs then Some False else None)"
proof (induction rs arbitrary: seen)
  case (Cons r rs)
  show ?case by (cases "truth r" rule: tri.cases) (auto simp: Cons)
qed simp

lemma logicalAnd_loop_spec: "logicalAnd_loop (map (\<lambda>r. tri (truth r)) rs) seen =
    (if Some False \<in> truth ` set rs then Some False else if seen \<or> Some True \<in> truth ` set rs then Some True else None)"
proof (induction rs arbitrary: seen)
  case (Cons r rs)
  show ?case by (cases "truth r" rule: tri.cases) (auto simp: Cons)
qed simp

lemma logical_Step_holds:
  "boolean_row r \<Longrightarrow> logical_Step (map (\<lambda>r. tri (truth r)) rs) r = Inr (map (\<lambda>r. tri (truth r)) (rs @ [r]))"
  by (auto elim!: boolean_row_cases simp: logical_Step_def)

interpretation logicalOr: frame_aggregate boolean_row "[]" logical_Step buffer_Inverse logicalOr_Done
    "\<lambda>ts rs. ts = map (\<lambda>r. tri (truth r)) rs" or_value
  by unfold_locales (simp_all add: logical_Step_holds [simplified] buffer_Inverse_def logicalOr_Done_def logicalOr_loop_spec or_value_def)

interpretation logicalAnd: frame_aggregate boolean_row "[]" logical_Step buffer_Inverse logicalAnd_Done
    "\<lambda>ts rs. ts = map (\<lambda>r. tri (truth r)) rs" and_value
  by unfold_locales (simp_all add: logical_Step_holds [simplified] buffer_Inverse_def logicalAnd_Done_def logicalAnd_loop_spec and_value_def)

text \<open>The bit aggregates and ARRAY_CONCAT_AGG, on rows without NULL.\<close>

unbundle bit_operations_syntax

definition row_int :: "val row \<Rightarrow> int" where
  "row_int r = (case arg r of None \<Rightarrow> 0 | Some v \<Rightarrow> (case ToInt64 v of Inr i \<Rightarrow> i | Inl _ \<Rightarrow> 0))"

definition int_row :: "val row \<Rightarrow> bool" where
  "int_row r \<longleftrightarrow> (case arg r of None \<Rightarrow> False | Some v \<Rightarrow> (case ToInt64 v of Inr _ \<Rightarrow> True | Inl _ \<Rightarrow> False))"

definition bit_value :: "(int \<Rightarrow> int \<Rightarrow> int) \<Rightarrow> int \<Rightarrow> val row list \<Rightarrow> int option" where
  "bit_value f e rs = (if rs = [] then None else Some (foldr f (map row_int rs) e))"

lemma bit_Step_holds: "int_row r \<Longrightarrow> bit_Step (map row_int rs) r = Inr (map row_int (rs @ [r]))"
  by (cases "arg r") (auto simp: bit_Step_def int_row_def row_int_def split: sum.splits)

lemma foldl_AND: "foldl (AND) a xs = a AND foldr (AND) xs (- 1)" for a :: int
  by (induction xs arbitrary: a) (simp_all add: and.assoc)

lemma foldl_OR: "foldl (OR) a xs = a OR foldr (OR) xs 0" for a :: int
  by (induction xs arbitrary: a) (simp_all add: or.assoc)

lemma foldl_XOR: "foldl (XOR) a xs = a XOR foldr (XOR) xs 0" for a :: int
  by (induction xs arbitrary: a) (simp_all add: xor.assoc)

lemma bit_Done_spec:
  "bitAnd_Done (map row_int rs) = Inr (bit_value (AND) (- 1) rs)"
  "bitOr_Done (map row_int rs) = Inr (bit_value (OR) 0 rs)"
  "bitXor_Done (map row_int rs) = Inr (bit_value (XOR) 0 rs)"
  by (cases rs; simp add: bitAnd_Done_def bitOr_Done_def bitXor_Done_def bit_value_def foldl_AND foldl_OR foldl_XOR)+

interpretation bitAnd: frame_aggregate int_row "[]" bit_Step buffer_Inverse bitAnd_Done "\<lambda>vs rs. vs = map row_int rs" "bit_value (AND) (- 1)"
  by unfold_locales (simp_all add: bit_Step_holds [simplified] buffer_Inverse_def bit_Done_spec)

interpretation bitOr: frame_aggregate int_row "[]" bit_Step buffer_Inverse bitOr_Done "\<lambda>vs rs. vs = map row_int rs" "bit_value (OR) 0"
  by unfold_locales (simp_all add: bit_Step_holds [simplified] buffer_Inverse_def bit_Done_spec)

interpretation bitXor: frame_aggregate int_row "[]" bit_Step buffer_Inverse bitXor_Done "\<lambda>vs rs. vs = map row_int rs" "bit_value (XOR) 0"
  by unfold_locales (simp_all add: bit_Step_holds [simplified] buffer_Inverse_def bit_Done_spec)

definition concat_value :: "'v option list row list \<Rightarrow> 'v option list option" where
  "concat_value rs = (if rs = [] then None else Some (concat (map (\<lambda>r. the (arg r)) rs)))"

interpretation arrayConcat: frame_aggregate "\<lambda>r. arg r \<noteq> None" "[]" arrayConcat_Step buffer_Inverse arrayConcat_Done
    "\<lambda>vs rs. vs = map (\<lambda>r. the (arg r)) rs" concat_value
  by unfold_locales (auto simp: arrayConcat_Step_def buffer_Inverse_def arrayConcat_Done_def concat_value_def)

section \<open>The results\<close>

text \<open>
  C6. However SQLite slides the frame, \<open>Done\<close> of ARRAY_AGG, STRING_AGG, COUNTIF, COUNT of rows,
  ANY_VALUE, LOGICAL_OR, LOGICAL_AND and COUNT(DISTINCT) depends on the rows of the current frame
  alone: the array of the values (first occurrences by key for DISTINCT, without NULL when asked),
  the joined texts of the non-NULL rows, the number of true rows, of rows, of distinct keys, the
  first value that is not NULL, and the three-valued disjunction and conjunction.
\<close>

theorem window_aggregates_of_frame:
  "(slide (same_options d i) NewArrayAggWindowNative arrayAgg_Step arrayAgg_Inverse a rs \<longrightarrow>
      arrayAgg_Done (\<lambda>x. Inr (kf x)) a = Inr (array_value kf d i rs)) \<and>
   (slide (same_text d' ds b) NewStringAggWindowNative stringAgg_Step stringAgg_Inverse sa ts \<longrightarrow>
      stringAgg_Done sa = Inr (string_value d' ds b ts)) \<and>
   (slide boolean_row 0 countif_Step countif_Inverse c bs \<longrightarrow> countif_Done c = Inr (count_true bs)) \<and>
   (slide (\<lambda>_. True) 0 countStar_Step countStar_Inverse n ns \<longrightarrow> countStar_Done n = Inr (int (length ns))) \<and>
   (slide (\<lambda>r. cells r \<noteq> []) [] anyValue_Step buffer_Inverse vs as \<longrightarrow> anyValue_Done vs = Inr (any_value as)) \<and>
   (slide boolean_row [] logical_Step buffer_Inverse ls os \<longrightarrow>
      logicalOr_Done ls = Inr (or_value os) \<and> logicalAnd_Done ls = Inr (and_value os)) \<and>
   (slide (\<lambda>_. True) [] distinct_stepArgs buffer_Inverse ws xs \<longrightarrow>
      countDistinct_Done (\<lambda>x. Inr (kf' x)) ws = Inr (distinct_count kf' xs))"
  by (intro conjI impI; elim array_agg.slide_result string_agg.slide_result countif.slide_result countStar.slide_result
      anyValue.slide_result logicalOr.slide_result logicalAnd.slide_result countDistinct.slide_result)

theorem window_aggregates_of_frame_witness:
  "countif_Done 1 = Inr (count_true [\<lparr>cells = [Some (BoolValue True)], row_distinct = False, row_ignore_nulls = False\<rparr>])"
proof -
  let ?r = "\<lambda>b. \<lparr>cells = [Some (BoolValue b)], row_distinct = False, row_ignore_nulls = False\<rparr>"
  have "slide boolean_row 0 countif_Step countif_Inverse 0 []" by (rule slide_init)
  then have "slide boolean_row 0 countif_Step countif_Inverse 0 ([] @ [?r False])"
    by (rule slide_step) (simp_all add: boolean_row_def arg_def countif_Step_def)
  then have "slide boolean_row 0 countif_Step countif_Inverse 1 (([] @ [?r False]) @ [?r True])"
    by (rule slide_step) (simp_all add: boolean_row_def arg_def countif_Step_def int64_def)
  then have "slide boolean_row 0 countif_Step countif_Inverse 1 (?r False # [?r True])" by simp
  then have "slide boolean_row 0 countif_Step countif_Inverse 1 [?r True]"
    by (rule slide_inverse) (simp add: arg_def countif_Inverse_def)
  then show ?thesis by (rule window_aggregates_of_frame [THEN conjunct2, THEN conjunct2, THEN conjunct1, rule_format])
qed

text \<open>
  BIT_AND, BIT_OR and BIT_XOR over a frame are the bitwise operation over its rows as long as no
  row is NULL. A NULL row breaks them: \<open>Step\<close> does not buffer it, \<open>Inverse\<close> removes another
  row in its place, and the frame that holds only the number 5 has the result NULL. The same
  happens to ARRAY_CONCAT_AGG.
\<close>

theorem bit_windows_without_null:
  "(slide int_row [] bit_Step buffer_Inverse vs rs \<longrightarrow>
      bitAnd_Done vs = Inr (bit_value (AND) (- 1) rs) \<and> bitOr_Done vs = Inr (bit_value (OR) 0 rs) \<and>
      bitXor_Done vs = Inr (bit_value (XOR) 0 rs)) \<and>
   slide (\<lambda>_. True) [] bit_Step buffer_Inverse [] [\<lparr>cells = [Some (IntValue 5)], row_distinct = False, row_ignore_nulls = False\<rparr>] \<and>
   bitAnd_Done [] = Inr None \<and> bitOr_Done [] = Inr None \<and> bitXor_Done [] = Inr None \<and>
   slide (\<lambda>_. True) [] arrayConcat_Step buffer_Inverse [] [\<lparr>cells = [Some [Some (IntValue 5)]], row_distinct = False, row_ignore_nulls = False\<rparr>] \<and>
   arrayConcat_Done ([] :: val option list list) = Inr None"
proof (intro conjI impI)
  assume h: "slide int_row [] bit_Step buffer_Inverse vs rs"
  show "bitAnd_Done vs = Inr (bit_value (AND) (- 1) rs)" by (rule bitAnd.slide_result [OF h])
  show "bitOr_Done vs = Inr (bit_value (OR) 0 rs)" by (rule bitOr.slide_result [OF h])
  show "bitXor_Done vs = Inr (bit_value (XOR) 0 rs)" by (rule bitXor.slide_result [OF h])
next
  let ?n = "\<lparr>cells = [None], row_distinct = False, row_ignore_nulls = False\<rparr>"
  have init: "slide (\<lambda>_. True) [] bit_Step buffer_Inverse [] []" by (rule slide_init)
  let ?r = "\<lparr>cells = [Some (IntValue 5)], row_distinct = False, row_ignore_nulls = False\<rparr>"
  have "slide (\<lambda>_. True) [] bit_Step buffer_Inverse [] ([] @ [?n])"
    using init by (rule slide_step) (simp_all add: bit_Step_def arg_def)
  then have "slide (\<lambda>_. True) [] bit_Step buffer_Inverse [5] (([] @ [?n]) @ [?r])"
    by (rule slide_step) (simp_all add: bit_Step_def arg_def)
  then have "slide (\<lambda>_. True) [] bit_Step buffer_Inverse [5] (?n # [?r])" by simp
  then show "slide (\<lambda>_. True) [] bit_Step buffer_Inverse [] [?r]"
    by (rule slide_inverse) (simp add: buffer_Inverse_def)
next
  let ?n = "\<lparr>cells = [None], row_distinct = False, row_ignore_nulls = False\<rparr>"
  let ?r = "\<lparr>cells = [Some [Some (IntValue 5)]], row_distinct = False, row_ignore_nulls = False\<rparr>"
  have "slide (\<lambda>_. True) [] arrayConcat_Step buffer_Inverse [] []" by (rule slide_init)
  then have "slide (\<lambda>_. True) [] arrayConcat_Step buffer_Inverse [] ([] @ [?n])"
    by (rule slide_step) (simp_all add: arrayConcat_Step_def arg_def)
  then have "slide (\<lambda>_. True) [] arrayConcat_Step buffer_Inverse [[Some (IntValue 5)]] (([] @ [?n]) @ [?r])"
    by (rule slide_step) (simp_all add: arrayConcat_Step_def arg_def)
  then have "slide (\<lambda>_. True) [] arrayConcat_Step buffer_Inverse [[Some (IntValue 5)]] (?n # [?r])" by simp
  then show "slide (\<lambda>_. True) [] arrayConcat_Step buffer_Inverse [] [?r]"
    by (rule slide_inverse) (simp add: buffer_Inverse_def)
qed (simp_all add: bitAnd_Done_def bitOr_Done_def bitXor_Done_def arrayConcat_Done_def)

theorem bit_windows_without_null_witness:
  "bitXor_Done [5] = Inr (bit_value (XOR) 0 [\<lparr>cells = [Some (IntValue 5)], row_distinct = False, row_ignore_nulls = False\<rparr>])"
proof -
  let ?r = "\<lparr>cells = [Some (IntValue 5)], row_distinct = False, row_ignore_nulls = False\<rparr>"
  have "slide int_row [] bit_Step buffer_Inverse [] []" by (rule slide_init)
  then have "slide int_row [] bit_Step buffer_Inverse [5] ([] @ [?r])"
    by (rule slide_step) (simp_all add: bit_Step_def arg_def int_row_def)
  then show ?thesis using bit_windows_without_null [of "[5]" "[?r]"] by simp
qed

end
