(* ===== verification/Range_Frame.thy ===== *)
theory Range_Frame
  imports Complex_Main Window_Frames "HOL-Library.Product_Lexorder"
begin

text \<open>
  RANGE frames over typed keys (\<open>internal/functions/window/range_frame.go\<close>): the aggregate
  \<open>googlesqlite_window_range\<close> buffers the keys and rows of the partition, finds the RANGE frame of
  the current row by binary search and evaluates an inner aggregate over it, reusing the inner
  state of the previous frame when the new frame can be reached by \<open>Step\<close> and \<open>Inverse\<close>.

  A key is NULL, a DOUBLE or an exact rational. A DOUBLE is a rational, an infinity or NaN; the
  rounding of an exact result to a DOUBLE is the argument \<open>rnd\<close> of the functions that need
  it, and nothing is assumed about it. The inner aggregate is a record of its operations; its
  contract is the locale \<open>frame_aggregate\<close>.
\<close>

section \<open>Keys\<close>

datatype dbl = Fin rat | PInf | NInf | NaN

datatype rangeKey = KNull | KFloat dbl | KRat rat

text \<open>A typed key value: a FLOAT64, or a type that \<open>ToRat\<close> converts exactly.\<close>

datatype key_value = FloatKey dbl | ExactKey rat

fun toRangeKey :: "key_value option \<Rightarrow> rangeKey" where
  "toRangeKey None = KNull"
| "toRangeKey (Some (FloatKey f)) = KFloat f"
| "toRangeKey (Some (ExactKey r)) = KRat r"

fun dbl_less :: "dbl \<Rightarrow> dbl \<Rightarrow> bool" where
  "dbl_less NaN _ = False"
| "dbl_less _ NaN = False"
| "dbl_less (Fin a) (Fin b) = (a < b)"
| "dbl_less NInf b = (b \<noteq> NInf)"
| "dbl_less a PInf = (a \<noteq> PInf)"
| "dbl_less _ _ = False"

fun dbl_neg :: "dbl \<Rightarrow> dbl" where
  "dbl_neg (Fin a) = Fin (- a)"
| "dbl_neg PInf = NInf"
| "dbl_neg NInf = PInf"
| "dbl_neg NaN = NaN"

fun dbl_add :: "(rat \<Rightarrow> dbl) \<Rightarrow> dbl \<Rightarrow> dbl \<Rightarrow> dbl" where
  "dbl_add rnd NaN _ = NaN"
| "dbl_add rnd _ NaN = NaN"
| "dbl_add rnd (Fin a) (Fin b) = rnd (a + b)"
| "dbl_add rnd PInf NInf = NaN"
| "dbl_add rnd NInf PInf = NaN"
| "dbl_add rnd PInf _ = PInf"
| "dbl_add rnd NInf _ = NInf"
| "dbl_add rnd _ PInf = PInf"
| "dbl_add rnd _ NInf = NInf"

definition IsInf :: "dbl \<Rightarrow> bool" where
  "IsInf x \<longleftrightarrow> x = PInf \<or> x = NInf"

text \<open>\<open>math.MaxFloat64\<close> is \<open>2^1024 - 2^971\<close>.\<close>

definition MaxFloat64 :: rat where
  "MaxFloat64 = 2 ^ 1024 - 2 ^ 971"

fun key_float :: "(rat \<Rightarrow> dbl) \<Rightarrow> rangeKey \<Rightarrow> dbl" where
  "key_float rnd (KFloat f) = f"
| "key_float rnd (KRat r) = rnd r"
| "key_float rnd KNull = NaN"

definition is_float :: "rangeKey \<Rightarrow> bool" where
  "is_float k \<longleftrightarrow> (case k of KFloat _ \<Rightarrow> True | _ \<Rightarrow> False)"

text \<open>\<open>compareValues\<close>, on keys that are not NULL.\<close>

definition compareValues :: "(rat \<Rightarrow> dbl) \<Rightarrow> rangeKey \<Rightarrow> rangeKey \<Rightarrow> int" where
  "compareValues rnd k o' =
     (if k = KFloat NaN \<and> o' = KFloat NaN then 0
      else if k = KFloat NaN then - 1
      else if o' = KFloat NaN then 1
      else if is_float k \<or> is_float o' then
        let a = key_float rnd k; b = key_float rnd o'
        in if dbl_less a b then - 1 else if dbl_less b a then 1 else 0
      else (case (k, o') of (KRat a, KRat b) \<Rightarrow> if a < b then - 1 else if a > b then 1 else 0 | _ \<Rightarrow> 0))"

text \<open>\<open>shift\<close> of a DOUBLE key and of any key.\<close>

definition shift_float :: "(rat \<Rightarrow> dbl) \<Rightarrow> dbl \<Rightarrow> rangeKey \<Rightarrow> int \<Rightarrow> rangeKey" where
  "shift_float rnd f off sign =
     (if f = NaN \<or> IsInf f then KFloat f
      else let o' = (if sign < 0 then dbl_neg (key_float rnd off) else key_float rnd off);
               x = dbl_add rnd f o'
           in KFloat (if IsInf x \<and> \<not> IsInf o' then Fin (if x = NInf then - MaxFloat64 else MaxFloat64) else x))"

definition shift :: "(rat \<Rightarrow> dbl) \<Rightarrow> rangeKey \<Rightarrow> rangeKey \<Rightarrow> int \<Rightarrow> rangeKey" where
  "shift rnd k off sign = (case k of
       KNull \<Rightarrow> KNull
     | KFloat f \<Rightarrow> shift_float rnd f off sign
     | KRat r \<Rightarrow> (case off of
           KFloat _ \<Rightarrow> shift_float rnd (rnd r) off sign
         | KRat o' \<Rightarrow> KRat (if sign < 0 then r - o' else r + o')
         | KNull \<Rightarrow> KNull))"

section \<open>Frames\<close>

datatype boundary = BoundaryUnknown | UnboundedPreceding | OffsetPreceding | CurrentRow | OffsetFollowing | UnboundedFollowing

definition isOffsetBoundary :: "boundary \<Rightarrow> bool" where
  "isOffsetBoundary t \<longleftrightarrow> t = OffsetPreceding \<or> t = OffsetFollowing"

datatype frame_error =
    MissingInner
  | UnknownInner string
  | InvalidFrameArgument
  | OffsetNull
  | OffsetNegative
  | NotAggregate
  | InnerError value_error

definition offsetKey :: "key_value option \<Rightarrow> frame_error + rangeKey" where
  "offsetKey v =
     (let k = toRangeKey v
      in case k of
           KNull \<Rightarrow> Inl OffsetNull
         | KFloat f \<Rightarrow> if f = NaN \<or> dbl_less f (Fin 0) then Inl OffsetNegative else Inr k
         | KRat r \<Rightarrow> if r < 0 then Inl OffsetNegative else Inr k)"

record frame_conf =
  f_desc :: bool
  f_nullsLast :: bool
  f_startType :: boundary
  f_endType :: boundary
  f_startOff :: rangeKey
  f_endOff :: rangeKey

definition cmp :: "(rat \<Rightarrow> dbl) \<Rightarrow> frame_conf \<Rightarrow> rangeKey \<Rightarrow> rangeKey \<Rightarrow> int" where
  "cmp rnd c a b =
     (if a = KNull \<and> b = KNull then 0
      else if a = KNull then if f_nullsLast c then 1 else - 1
      else if b = KNull then if f_nullsLast c then - 1 else 1
      else if f_desc c then - compareValues rnd a b else compareValues rnd a b)"

definition frame_bound :: "(rat \<Rightarrow> dbl) \<Rightarrow> frame_conf \<Rightarrow> rangeKey \<Rightarrow> boundary \<Rightarrow> rangeKey \<Rightarrow> rangeKey" where
  "frame_bound rnd c k typ off =
     (let sign = (if typ = OffsetPreceding then - 1 else 1); sign' = (if f_desc c then - sign else sign)
      in shift rnd k off sign')"

text \<open>\<open>sort.Search\<close> on the indices from \<open>i\<close> to \<open>j\<close>.\<close>

function search :: "(nat \<Rightarrow> bool) \<Rightarrow> nat \<Rightarrow> nat \<Rightarrow> nat" where
  "search f i j =
     (if i < j then
        let h = (i + j) div 2 in if \<not> f h then search f (h + 1) j else search f i h
      else i)"
  by pat_completeness auto
termination by (relation "measure (\<lambda>(f, i, j). j - i)") auto

declare search.simps [simp del]

definition frame :: "(rat \<Rightarrow> dbl) \<Rightarrow> frame_conf \<Rightarrow> rangeKey list \<Rightarrow> nat \<Rightarrow> nat \<times> nat" where
  "frame rnd c keys i =
     (let n = length keys; k = keys ! i;
          s = (case f_startType c of
                 UnboundedPreceding \<Rightarrow> 0
               | UnboundedFollowing \<Rightarrow> n
               | t \<Rightarrow> (let b = (if t \<noteq> CurrentRow then frame_bound rnd c k t (f_startOff c) else k)
                      in search (\<lambda>j. cmp rnd c (keys ! j) b \<ge> 0) 0 n));
          e = (case f_endType c of
                 UnboundedFollowing \<Rightarrow> n
               | UnboundedPreceding \<Rightarrow> 0
               | t \<Rightarrow> (let b = (if t \<noteq> CurrentRow then frame_bound rnd c k t (f_endOff c) else k)
                      in search (\<lambda>j. cmp rnd c (keys ! j) b > 0) 0 n))
      in (s, if e < s then s else e))"

section \<open>The window aggregate\<close>

record ('s, 'r, 'a) inner_ops =
  in_new :: 's
  in_step :: "'s \<Rightarrow> 'r \<Rightarrow> value_error + 's"
  in_inverse :: "('s \<Rightarrow> 'r \<Rightarrow> value_error + 's) option"
  in_done :: "'s \<Rightarrow> value_error + 'a"

record ('s, 'r, 'a) range_window =
  w_ctor :: "('s, 'r, 'a) inner_ops option"
  w_initialized :: bool
  w_conf :: frame_conf
  w_keys :: "rangeKey list"
  w_rows :: "'r list"
  w_cur :: nat
  w_inner :: "'s option"
  w_innerS :: nat
  w_innerE :: nat

definition NewRangeFrameWindowNative :: "('s, 'r, 'a) range_window" where
  "NewRangeFrameWindowNative =
     \<lparr>w_ctor = None, w_initialized = False,
      w_conf = \<lparr>f_desc = False, f_nullsLast = False, f_startType = BoundaryUnknown, f_endType = BoundaryUnknown,
                f_startOff = KNull, f_endOff = KNull\<rparr>,
      w_keys = [], w_rows = [], w_cur = 0, w_inner = None, w_innerS = 0, w_innerE = 0\<rparr>"

text \<open>The first six arguments of a step; a boundary type is \<open>None\<close> when the argument is NULL.\<close>

record frame_head =
  h_name :: "string option"
  h_flags :: "int option"
  h_start :: "boundary option"
  h_startOff :: "key_value option"
  h_end :: "boundary option"
  h_endOff :: "key_value option"

text \<open>
  \<open>lookup\<close> finds the constructor of a registered function; \<open>Some None\<close> is a constructor whose
  object has no \<open>Step\<close> and \<open>Done\<close>.
\<close>

definition window_init ::
    "(string \<Rightarrow> ('s, 'r, 'a) inner_ops option option) \<Rightarrow> ('s, 'r, 'a) range_window \<Rightarrow> frame_head \<Rightarrow> frame_error + ('s, 'r, 'a) range_window" where
  "window_init lookup w h = (case h_name h of
       None \<Rightarrow> Inl MissingInner
     | Some name \<Rightarrow> (case lookup name of
           None \<Rightarrow> Inl (UnknownInner name)
         | Some ctor \<Rightarrow> (case (h_flags h, h_start h, h_end h) of
               (Some flags, Some st, Some en) \<Rightarrow>
                 bind_res (if isOffsetBoundary st then offsetKey (h_startOff h) else Inr KNull) (\<lambda>so.
                 bind_res (if isOffsetBoundary en then offsetKey (h_endOff h) else Inr KNull) (\<lambda>eo.
                   Inr (w\<lparr>w_ctor := ctor, w_initialized := True,
                          w_conf := \<lparr>f_desc = odd flags, f_nullsLast = odd (flags div 2), f_startType = st, f_endType = en,
                                     f_startOff = so, f_endOff = eo\<rparr>\<rparr>)))
             | _ \<Rightarrow> Inl InvalidFrameArgument)))"

definition window_Step ::
    "(string \<Rightarrow> ('s, 'r, 'a) inner_ops option option) \<Rightarrow> ('s, 'r, 'a) range_window \<Rightarrow> frame_head \<Rightarrow> key_value option \<Rightarrow> 'r
     \<Rightarrow> frame_error + ('s, 'r, 'a) range_window" where
  "window_Step lookup w h k r =
     bind_res (if w_initialized w then Inr w else window_init lookup w h) (\<lambda>w1.
       Inr (w1\<lparr>w_keys := w_keys w1 @ [toRangeKey k], w_rows := w_rows w1 @ [r]\<rparr>))"

definition window_Inverse :: "('s, 'r, 'a) range_window \<Rightarrow> ('s, 'r, 'a) range_window" where
  "window_Inverse w = w\<lparr>w_cur := w_cur w + 1\<rparr>"

text \<open>The rows from \<open>s\<close> to \<open>e\<close>, which the loops of \<open>Done\<close> visit.\<close>

definition sub :: "'r list \<Rightarrow> nat \<Rightarrow> nat \<Rightarrow> 'r list" where
  "sub rows s e = take (e - s) (drop s rows)"

definition window_Done :: "(rat \<Rightarrow> dbl) \<Rightarrow> ('s, 'r, 'a) range_window \<Rightarrow> frame_error + (('s, 'r, 'a) range_window \<times> 'a option)" where
  "window_Done rnd w =
     (if \<not> w_initialized w then Inr (w, None)
      else if w_cur w \<ge> length (w_keys w) then Inr (w, None)
      else (case w_ctor w of
          None \<Rightarrow> Inl NotAggregate
        | Some ops \<Rightarrow>
            let (s, e) = frame rnd (w_conf w) (w_keys w) (w_cur w)
            in bind_res
                 (map_sum InnerError id
                   (case (w_inner w, in_inverse ops) of
                      (Some st, Some undo) \<Rightarrow>
                        if s \<ge> w_innerS w \<and> e \<ge> w_innerE w \<and> s \<le> w_innerE w then
                          bind_res (fold_res (in_step ops) st (sub (w_rows w) (w_innerE w) e)) (\<lambda>st1.
                            fold_res undo st1 (sub (w_rows w) (w_innerS w) s))
                        else fold_res (in_step ops) (in_new ops) (sub (w_rows w) s e)
                    | _ \<Rightarrow> fold_res (in_step ops) (in_new ops) (sub (w_rows w) s e)))
                 (\<lambda>st. bind_res (map_sum InnerError id (in_done ops st)) (\<lambda>x.
                    Inr (w\<lparr>w_inner := Some st, w_innerS := s, w_innerE := e\<rparr>, Some x)))))"

section \<open>The order of the keys\<close>

text \<open>The keys of one column are exact or DOUBLE; on such keys the comparison is a linear preorder.\<close>

definition exact_key :: "rangeKey \<Rightarrow> bool" where
  "exact_key k \<longleftrightarrow> \<not> is_float k"

definition float_key :: "rangeKey \<Rightarrow> bool" where
  "float_key k \<longleftrightarrow> is_float k \<or> k = KNull"

definition same_kind :: "rangeKey set \<Rightarrow> bool" where
  "same_kind ks \<longleftrightarrow> (\<forall>k \<in> ks. exact_key k) \<or> (\<forall>k \<in> ks. float_key k)"

fun rank :: "rangeKey \<Rightarrow> int \<times> rat" where
  "rank (KRat r) = (2, r)"
| "rank (KFloat NaN) = (0, 0)"
| "rank (KFloat NInf) = (1, 0)"
| "rank (KFloat (Fin r)) = (2, r)"
| "rank (KFloat PInf) = (3, 0)"
| "rank KNull = (0, 0)"

lemma compareValues_rank:
  assumes "a \<noteq> KNull" "b \<noteq> KNull" "is_float a = is_float b"
  shows "compareValues rnd a b = (if rank a < rank b then - 1 else if rank b < rank a then 1 else 0)"
proof (cases "is_float a")
  case True
  then obtain x y where "a = KFloat x" "b = KFloat y" using assms(3) by (auto simp: is_float_def split: rangeKey.splits)
  then show ?thesis by (cases x; cases y) (auto simp: compareValues_def is_float_def Let_def)
next
  case False
  then obtain x y where "a = KRat x" "b = KRat y" using assms by (cases a; cases b) (auto simp: is_float_def)
  then show ?thesis by (auto simp: compareValues_def is_float_def)
qed

definition key_le :: "frame_conf \<Rightarrow> rangeKey \<Rightarrow> rangeKey \<Rightarrow> bool" where
  "key_le c a b \<longleftrightarrow>
     (if a = KNull then b = KNull \<or> \<not> f_nullsLast c
      else if b = KNull then f_nullsLast c
      else if f_desc c then rank b \<le> rank a else rank a \<le> rank b)"

lemma cmp_key_le:
  assumes "same_kind {a, b}"
  shows "0 \<le> cmp rnd c a b \<longleftrightarrow> key_le c b a" "0 < cmp rnd c a b \<longleftrightarrow> \<not> key_le c a b" "cmp rnd c a b \<le> 0 \<longleftrightarrow> key_le c a b"
proof -
  have "(0 \<le> cmp rnd c a b \<longleftrightarrow> key_le c b a) \<and> (0 < cmp rnd c a b \<longleftrightarrow> \<not> key_le c a b) \<and> (cmp rnd c a b \<le> 0 \<longleftrightarrow> key_le c a b)"
  proof (cases "a = KNull \<or> b = KNull")
    case True
    then show ?thesis by (auto simp: cmp_def key_le_def)
  next
    case False
    define p q where "p = rank a" and "q = rank b"
    have "is_float a = is_float b" using assms False by (auto simp: same_kind_def exact_key_def float_key_def)
    then have e: "cmp rnd c a b = (if f_desc c then - 1 else 1) * (if p < q then - 1 else if q < p then 1 else 0)"
      using compareValues_rank [of a b rnd] False by (simp add: cmp_def p_def q_def)
    have k: "key_le c a b \<longleftrightarrow> (if f_desc c then q \<le> p else p \<le> q)" "key_le c b a \<longleftrightarrow> (if f_desc c then p \<le> q else q \<le> p)"
      using False by (simp_all add: key_le_def p_def q_def)
    consider "p < q" "p \<le> q" "\<not> q \<le> p" "\<not> q < p" | "p = q" | "q < p" "q \<le> p" "\<not> p \<le> q" "\<not> p < q"
      using less_le_not_le [of p q] less_le_not_le [of q p] linear [of p q] antisym [of p q] by blast
    then show ?thesis unfolding e k by cases simp_all
  qed
  then show "0 \<le> cmp rnd c a b \<longleftrightarrow> key_le c b a" "0 < cmp rnd c a b \<longleftrightarrow> \<not> key_le c a b" "cmp rnd c a b \<le> 0 \<longleftrightarrow> key_le c a b"
    by blast+
qed

lemma key_le_trans: "key_le c a b \<Longrightarrow> key_le c b d \<Longrightarrow> key_le c a d"
  by (auto simp: key_le_def split: if_splits)

section \<open>Binary search\<close>

lemma search_spec:
  assumes "i \<le> j" "\<And>m k. i \<le> m \<Longrightarrow> m \<le> k \<Longrightarrow> k < j \<Longrightarrow> f m \<Longrightarrow> f k"
  shows "i \<le> search f i j \<and> search f i j \<le> j \<and> (\<forall>m. i \<le> m \<and> m < j \<longrightarrow> (f m \<longleftrightarrow> search f i j \<le> m))"
  using assms
proof (induction f i j rule: search.induct)
  case (1 f i j)
  show ?case
  proof (cases "i < j")
    case True
    define h where "h = (i + j) div 2"
    have h: "i \<le> h" "h < j" using True by (auto simp: h_def)
    show ?thesis
    proof (cases "f h")
      case fh: True
      have e: "search f i j = search f i h" using True fh by (subst search.simps) (simp add: h_def Let_def)
      have ih: "i \<le> search f i h \<and> search f i h \<le> h \<and> (\<forall>m. i \<le> m \<and> m < h \<longrightarrow> (f m \<longleftrightarrow> search f i h \<le> m))"
      proof (rule 1(2)[OF True])
        show "h = (i + j) div 2" by (rule h_def)
        show "\<not> \<not> f h" using fh by simp
        show "i \<le> h" by (rule h(1))
        show "f k" if "i \<le> m" "m \<le> k" "k < h" "f m" for m k using 1(4)[of m k] that h(2) by simp
      qed
      have "f m" if "h \<le> m" "m < j" for m using 1(4)[of h m] h(1) that fh by simp
      then show ?thesis unfolding e using ih h by (metis le_trans not_le order.strict_implies_order)
    next
      case fh: False
      have e: "search f i j = search f (h + 1) j" using True fh by (subst search.simps) (simp add: h_def Let_def)
      have ih: "h + 1 \<le> search f (h + 1) j \<and> search f (h + 1) j \<le> j \<and> (\<forall>m. h + 1 \<le> m \<and> m < j \<longrightarrow> (f m \<longleftrightarrow> search f (h + 1) j \<le> m))"
      proof (rule 1(1)[OF True])
        show "h = (i + j) div 2" by (rule h_def)
        show "\<not> f h" by (rule fh)
        show "h + 1 \<le> j" using h(2) by simp
        show "f k" if "h + 1 \<le> m" "m \<le> k" "k < j" "f m" for m k using 1(4)[of m k] that h(1) by simp
      qed
      have n: "\<not> f m" if "i \<le> m" "m \<le> h" for m using 1(4)[of m h] h(2) that fh by blast
      have "f m \<longleftrightarrow> search f (h + 1) j \<le> m" if "i \<le> m" "m < j" for m
      proof (cases "m \<le> h")
        case True
        then show ?thesis using n [OF that(1) True] ih by simp
      qed (use ih that in simp)
      then show ?thesis unfolding e using ih h by simp
    qed
  next
    case False
    then have "search f i j = i" by (subst search.simps) simp
    then show ?thesis using 1(3) False by auto
  qed
qed

section \<open>The frame of a row\<close>

lemma search_bounds: "i \<le> j \<Longrightarrow> i \<le> search f i j \<and> search f i j \<le> j"
proof (induction f i j rule: search.induct)
  case (1 f i j)
  show ?case
  proof (cases "i < j")
    case True
    define h where "h = (i + j) div 2"
    have h: "i \<le> h" "h + 1 \<le> j" using True by (auto simp: h_def)
    have "search f i j = (if \<not> f h then search f (h + 1) j else search f i h)"
      using True by (subst search.simps) (simp add: h_def Let_def)
    then show ?thesis using 1(1)[OF True h_def _ h(2)] 1(2)[OF True h_def _ h(1)] h by (cases "f h") simp_all
  next
    case False
    then have "search f i j = i" by (subst search.simps) simp
    then show ?thesis using 1(3) by simp
  qed
qed

lemma frame_bounds: "frame rnd c keys i = (s, e) \<Longrightarrow> s \<le> e \<and> e \<le> length keys"
proof -
  assume f: "frame rnd c keys i = (s, e)"
  have b: "search f 0 (length keys) \<le> length keys" for f using search_bounds [of 0 "length keys" f] by simp
  define s0 where "s0 = fst (frame rnd c keys i)"
  have "s0 \<le> length keys" using b by (simp add: s0_def frame_def Let_def split: boundary.splits)
  moreover have "\<exists>e0. e0 \<le> length keys \<and> frame rnd c keys i = (s0, if e0 < s0 then s0 else e0)"
    unfolding s0_def frame_def Let_def fst_conv using b by (intro exI conjI) (auto split: boundary.splits)
  ultimately show "s \<le> e \<and> e \<le> length keys" using f by (auto split: if_splits)
qed

text \<open>The rows of the partition that the frame of a row with key \<open>k\<close> should hold.\<close>

definition anchor :: "(rat \<Rightarrow> dbl) \<Rightarrow> frame_conf \<Rightarrow> rangeKey \<Rightarrow> boundary \<Rightarrow> rangeKey \<Rightarrow> rangeKey" where
  "anchor rnd c k t off = (if t \<noteq> CurrentRow then frame_bound rnd c k t off else k)"

definition in_frame :: "(rat \<Rightarrow> dbl) \<Rightarrow> frame_conf \<Rightarrow> rangeKey \<Rightarrow> rangeKey \<Rightarrow> bool" where
  "in_frame rnd c k x \<longleftrightarrow>
     (case f_startType c of UnboundedPreceding \<Rightarrow> True | UnboundedFollowing \<Rightarrow> False
      | t \<Rightarrow> key_le c (anchor rnd c k t (f_startOff c)) x) \<and>
     (case f_endType c of UnboundedFollowing \<Rightarrow> True | UnboundedPreceding \<Rightarrow> False
      | t \<Rightarrow> key_le c x (anchor rnd c k t (f_endOff c)))"

definition typed_keys :: "frame_conf \<Rightarrow> rangeKey list \<Rightarrow> bool" where
  "typed_keys c keys \<longleftrightarrow> list_all exact_key keys \<and> exact_key (f_startOff c) \<and> exact_key (f_endOff c) \<or> list_all float_key keys"

lemma shift_kind: "exact_key k \<Longrightarrow> exact_key off \<Longrightarrow> exact_key (shift rnd k off sg)" "float_key k \<Longrightarrow> float_key (shift rnd k off sg)"
  by (auto simp: exact_key_def float_key_def is_float_def shift_def shift_float_def Let_def split: rangeKey.splits)

lemma typed_same_kind:
  assumes "typed_keys c keys" "k \<in> set keys" "x \<in> set keys" "off = f_startOff c \<or> off = f_endOff c"
  shows "same_kind {x, anchor rnd c k t off}"
  using assms shift_kind by (auto simp: typed_keys_def same_kind_def anchor_def frame_bound_def Let_def list_all_iff)

lemma search_start:
  assumes "sorted_wrt (key_le c) keys" "\<And>x. x \<in> set keys \<Longrightarrow> same_kind {x, b}" "j < length keys"
  shows "search (\<lambda>j. cmp rnd c (keys ! j) b \<ge> 0) 0 (length keys) \<le> j \<longleftrightarrow> key_le c b (keys ! j)"
    "search (\<lambda>j. cmp rnd c (keys ! j) b > 0) 0 (length keys) \<le> j \<longleftrightarrow> \<not> key_le c (keys ! j) b"
proof -
  have le: "key_le c (keys ! m) (keys ! k)" if "m \<le> k" "k < length keys" for m k
  proof (cases "m = k")
    case True
    then show ?thesis by (simp add: key_le_def)
  next
    case False
    then show ?thesis using assms(1) that unfolding sorted_wrt_iff_nth_less by simp
  qed
  have c: "0 \<le> cmp rnd c (keys ! m) b \<longleftrightarrow> key_le c b (keys ! m)" "0 < cmp rnd c (keys ! m) b \<longleftrightarrow> \<not> key_le c (keys ! m) b"
    if "m < length keys" for m using cmp_key_le assms(2) that by simp_all
  have "0 \<le> cmp rnd c (keys ! k) b" if "m \<le> k" "k < length keys" "0 \<le> cmp rnd c (keys ! m) b" for m k
  proof -
    have "key_le c b (keys ! m)" using c(1)[of m] that by linarith
    then have "key_le c b (keys ! k)" by (rule key_le_trans [OF _ le [OF that(1,2)]])
    then show ?thesis using c(1)[OF that(2)] by blast
  qed
  then show "search (\<lambda>j. cmp rnd c (keys ! j) b \<ge> 0) 0 (length keys) \<le> j \<longleftrightarrow> key_le c b (keys ! j)"
    using search_spec [of 0 "length keys" "\<lambda>j. cmp rnd c (keys ! j) b \<ge> 0"] c(1)[OF assms(3)] assms(3) by blast
  have "0 < cmp rnd c (keys ! k) b" if "m \<le> k" "k < length keys" "0 < cmp rnd c (keys ! m) b" for m k
  proof -
    have "\<not> key_le c (keys ! m) b" using c(2)[of m] that by linarith
    then have "\<not> key_le c (keys ! k) b" using key_le_trans [OF le [OF that(1,2)]] by blast
    then show ?thesis using c(2)[OF that(2)] by blast
  qed
  then show "search (\<lambda>j. cmp rnd c (keys ! j) b > 0) 0 (length keys) \<le> j \<longleftrightarrow> \<not> key_le c (keys ! j) b"
    using search_spec [of 0 "length keys" "\<lambda>j. cmp rnd c (keys ! j) b > 0"] c(2)[OF assms(3)] assms(3) by blast
qed

lemma frame_spec:
  assumes "sorted_wrt (key_le c) keys" "typed_keys c keys" "i < length keys" "frame rnd c keys i = (s, e)" "j < length keys"
  shows "s \<le> j \<and> j < e \<longleftrightarrow> in_frame rnd c (keys ! i) (keys ! j)"
proof -
  let ?a = "anchor rnd c (keys ! i)" and ?n = "length keys"
  have k: "same_kind {x, ?a t off}" if "x \<in> set keys" "off = f_startOff c \<or> off = f_endOff c" for x t off
    using typed_same_kind [OF assms(2) _ that(1) that(2)] assms(3) by simp
  note S = search_start [OF assms(1) k assms(5)]
  define s0 where "s0 = (case f_startType c of UnboundedPreceding \<Rightarrow> 0 | UnboundedFollowing \<Rightarrow> ?n
    | t \<Rightarrow> search (\<lambda>j. cmp rnd c (keys ! j) (?a t (f_startOff c)) \<ge> 0) 0 ?n)"
  define e0 where "e0 = (case f_endType c of UnboundedFollowing \<Rightarrow> ?n | UnboundedPreceding \<Rightarrow> 0
    | t \<Rightarrow> search (\<lambda>j. cmp rnd c (keys ! j) (?a t (f_endOff c)) > 0) 0 ?n)"
  have f: "frame rnd c keys i = (s0, if e0 < s0 then s0 else e0)"
    by (simp add: frame_def s0_def e0_def anchor_def Let_def split: boundary.splits)
  have "s0 \<le> j \<longleftrightarrow> (case f_startType c of UnboundedPreceding \<Rightarrow> True | UnboundedFollowing \<Rightarrow> False
      | t \<Rightarrow> key_le c (?a t (f_startOff c)) (keys ! j))"
    using S(1) assms(5) by (simp add: s0_def split: boundary.splits)
  moreover have "j < e0 \<longleftrightarrow> (case f_endType c of UnboundedFollowing \<Rightarrow> True | UnboundedPreceding \<Rightarrow> False
      | t \<Rightarrow> key_le c (keys ! j) (?a t (f_endOff c)))"
    using S(2) assms(5) by (simp add: e0_def not_le [symmetric] split: boundary.splits)
  moreover have "s \<le> j \<and> j < e \<longleftrightarrow> s0 \<le> j \<and> j < e0" using f assms(4) by (auto split: if_splits)
  ultimately show ?thesis by (simp only: in_frame_def)
qed

lemma filter_sub:
  assumes "s \<le> e" "e \<le> length xs" "\<And>j. j < length xs \<Longrightarrow> P (xs ! j) \<longleftrightarrow> s \<le> j \<and> j < e"
  shows "filter P xs = sub xs s e"
proof -
  have x: "xs = take s xs @ sub xs s e @ drop e xs"
  proof -
    have "drop e xs = drop (e - s) (drop s xs)" using assms(1) by simp
    then have "drop s xs = sub xs s e @ drop e xs" by (simp only: sub_def append_take_drop_id)
    then show ?thesis by (metis append_take_drop_id)
  qed
  have "filter P (take s xs) = []" using assms by (auto simp: filter_empty_conv in_set_conv_nth)
  moreover have "filter P (drop e xs) = []" using assms by (auto simp: filter_empty_conv in_set_conv_nth)
  moreover have "filter P (sub xs s e) = sub xs s e"
    using assms by (auto simp: filter_id_conv in_set_conv_nth sub_def)
  ultimately show ?thesis by (subst x) (simp only: filter_append append_Nil append_Nil2)
qed

lemma frame_rows:
  assumes "sorted_wrt (key_le c) keys" "typed_keys c keys" "i < length keys" "frame rnd c keys i = (s, e)" "length rows = length keys"
  shows "sub rows s e = map snd (filter (\<lambda>(x, r). in_frame rnd c (keys ! i) x) (zip keys rows))"
proof -
  have "filter (\<lambda>(x, r). in_frame rnd c (keys ! i) x) (zip keys rows) = sub (zip keys rows) s e"
    using frame_bounds [OF assms(4)] frame_spec [OF assms(1-4)] assms(5) by (intro filter_sub) auto
  then show ?thesis using assms(5) by (simp add: sub_def drop_zip take_zip)
qed

end
