(* ===== verification/Range_Window.thy ===== *)
theory Range_Window
  imports Range_Frame
begin

text \<open>
  The window aggregate over RANGE frames computes the inner aggregate of exactly the rows of the
  frame: an invariant ties the reused inner state to the rows it holds, for every inner aggregate
  that keeps the contract \<open>frame_aggregate\<close>, in every state SQLite can reach by steps,
  inverses and results in any order.
\<close>

section \<open>Invariant\<close>

definition range_inv :: "('r \<Rightarrow> bool) \<Rightarrow> ('s \<Rightarrow> 'r list \<Rightarrow> bool) \<Rightarrow> ('s, 'r, 'a) range_window \<Rightarrow> bool" where
  "range_inv ok holds w \<longleftrightarrow> length (w_keys w) = length (w_rows w) \<and> list_all ok (w_rows w) \<and> length (w_rows w) < 2 ^ 63 \<and>
     (case w_inner w of None \<Rightarrow> True
      | Some st \<Rightarrow> w_innerS w \<le> w_innerE w \<and> w_innerE w \<le> length (w_rows w) \<and> holds st (sub (w_rows w) (w_innerS w) (w_innerE w)))"

lemma sub_append: "e \<le> length rows \<Longrightarrow> sub (rows @ rs) s e = sub rows s e"
  by (simp add: sub_def)

lemma sub_join: "a \<le> b \<Longrightarrow> b \<le> c \<Longrightarrow> sub rows a b @ sub rows b c = sub rows a c"
proof -
  assume "a \<le> b" "b \<le> c"
  then have "c - a = (b - a) + (c - b)" "b = (b - a) + a" by simp_all
  then show ?thesis unfolding sub_def by (metis add.commute drop_drop take_add)
qed

lemma list_all_sub: "list_all ok rows \<Longrightarrow> list_all ok (sub rows s e)"
  by (metis list_all_append append_take_drop_id sub_def)

lemma length_sub: "s \<le> e \<Longrightarrow> e \<le> length rows \<Longrightarrow> length (sub rows s e) = e - s"
  by (simp add: sub_def)

context frame_aggregate
begin

text \<open>The state after \<open>Done\<close> found the inner state for the frame from \<open>s\<close> to \<open>e\<close>.\<close>

lemma fresh_holds:
  assumes "list_all ok rows" "length rows < 2 ^ 63" "s \<le> e" "e \<le> length rows"
  shows "\<exists>st. fold_res step init (sub rows s e) = Inr st \<and> holds st (sub rows s e)"
  using fold_step_holds [OF init_holds list_all_sub [OF assms(1)], of s e] assms(2-4) by (simp add: length_sub)

lemma slid_holds:
  assumes "holds st (sub rows S E)" "list_all ok rows" "length rows < 2 ^ 63" "S \<le> s" "s \<le> E" "E \<le> e" "e \<le> length rows"
  shows "\<exists>st1 st2. fold_res step st (sub rows E e) = Inr st1 \<and> fold_res inverse st1 (sub rows S s) = Inr st2 \<and> holds st2 (sub rows s e)"
proof -
  have "length (sub rows S E) + length (sub rows E e) < 2 ^ 63" using assms(3-7) by (simp add: length_sub)
  then obtain st1 where s1: "fold_res step st (sub rows E e) = Inr st1" "holds st1 (sub rows S E @ sub rows E e)"
    using fold_step_holds [OF assms(1) list_all_sub [OF assms(2)], of E e] by blast
  have "sub rows S E @ sub rows E e = sub rows S s @ sub rows s e" using assms(4-6) by (simp add: sub_join)
  then obtain st2 where "fold_res inverse st1 (sub rows S s) = Inr st2" "holds st2 (sub rows s e)"
    using fold_inverse_holds [of st1 "sub rows S s" "sub rows s e"] s1(2) by auto
  then show ?thesis using s1(1) by blast
qed

lemma window_Done_result:
  assumes inv: "range_inv ok holds w"
    and ops: "w_ctor w = Some \<lparr>in_new = init, in_step = step, in_inverse = (if has then Some inverse else None), in_done = result\<rparr>"
    and w: "w_initialized w" "w_cur w < length (w_keys w)"
    and f: "frame rnd (w_conf w) (w_keys w) (w_cur w) = (s, e)"
  shows "\<exists>st. window_Done rnd w = Inr (w\<lparr>w_inner := Some st, w_innerS := s, w_innerE := e\<rparr>, Some (value_of (sub (w_rows w) s e))) \<and>
    range_inv ok holds (w\<lparr>w_inner := Some st, w_innerS := s, w_innerE := e\<rparr>)"
proof -
  have r: "list_all ok (w_rows w)" "length (w_rows w) < 2 ^ 63" "length (w_keys w) = length (w_rows w)"
    using inv by (simp_all add: range_inv_def)
  have se: "s \<le> e" "e \<le> length (w_rows w)" using frame_bounds [OF f] r(3) by simp_all
  have dn: "window_Done rnd w = Inr (w\<lparr>w_inner := Some st, w_innerS := s, w_innerE := e\<rparr>, Some (value_of (sub (w_rows w) s e)))"
    if "holds st (sub (w_rows w) s e)"
      "(case (w_inner w, if has then Some inverse else None) of
          (Some st, Some undo) \<Rightarrow>
            if s \<ge> w_innerS w \<and> e \<ge> w_innerE w \<and> s \<le> w_innerE w then
              bind_res (fold_res step st (sub (w_rows w) (w_innerE w) e)) (\<lambda>st1. fold_res undo st1 (sub (w_rows w) (w_innerS w) s))
            else fold_res step init (sub (w_rows w) s e)
        | _ \<Rightarrow> fold_res step init (sub (w_rows w) s e)) = Inr st" for st
    using that(2) result_holds [OF that(1)] w
    unfolding window_Done_def ops option.case f prod.case Let_def inner_ops.simps by simp
  obtain st0 where fresh: "fold_res step init (sub (w_rows w) s e) = Inr st0" "holds st0 (sub (w_rows w) s e)"
    using fresh_holds [OF r(1,2) se] by blast
  show ?thesis
  proof (cases "has \<and> (\<exists>st. w_inner w = Some st) \<and> s \<ge> w_innerS w \<and> e \<ge> w_innerE w \<and> s \<le> w_innerE w")
    case True
    then obtain st where st: "w_inner w = Some st" "has" "w_innerS w \<le> s" "s \<le> w_innerE w" "w_innerE w \<le> e" by blast
    have "holds st (sub (w_rows w) (w_innerS w) (w_innerE w))" using inv st(1) by (simp add: range_inv_def)
    then obtain st1 st2 where "fold_res step st (sub (w_rows w) (w_innerE w) e) = Inr st1"
      "fold_res inverse st1 (sub (w_rows w) (w_innerS w) s) = Inr st2" "holds st2 (sub (w_rows w) s e)"
      using slid_holds [OF _ r(1,2) st(3-5) se(2)] by blast
    then show ?thesis using dn [of st2] st r se by (intro exI [of _ st2]) (simp add: range_inv_def)
  next
    case False
    have "window_Done rnd w = Inr (w\<lparr>w_inner := Some st0, w_innerS := s, w_innerE := e\<rparr>, Some (value_of (sub (w_rows w) s e)))"
    proof (rule dn [OF fresh(2)])
    qed (use False fresh(1) in \<open>auto split: option.splits\<close>)
    then show ?thesis using fresh(2) r se by (intro exI [of _ st0]) (simp add: range_inv_def)
  qed
qed

end

section \<open>Reachable states\<close>

text \<open>What SQLite does to the window of one partition; every row carries the same frame head.\<close>

inductive range_reach ::
    "(string \<Rightarrow> ('s, 'r, 'a) inner_ops option option) \<Rightarrow> (rat \<Rightarrow> dbl) \<Rightarrow> ('r \<Rightarrow> bool) \<Rightarrow> frame_head \<Rightarrow> ('s, 'r, 'a) range_window \<Rightarrow> bool"
  for lookup rnd ok h where
  reach_new: "range_reach lookup rnd ok h NewRangeFrameWindowNative"
| reach_step: "range_reach lookup rnd ok h w \<Longrightarrow> ok r \<Longrightarrow> length (w_rows w) + 1 < 2 ^ 63 \<Longrightarrow>
    window_Step lookup w h k r = Inr w' \<Longrightarrow> range_reach lookup rnd ok h w'"
| reach_inverse: "range_reach lookup rnd ok h w \<Longrightarrow> range_reach lookup rnd ok h (window_Inverse w)"
| reach_done: "range_reach lookup rnd ok h w \<Longrightarrow> window_Done rnd w = Inr (w', x) \<Longrightarrow> range_reach lookup rnd ok h w'"

lemma window_init_Inr:
  assumes "window_init lookup w h = Inr w1" "h_name h = Some nm" "lookup nm = Some ctor"
  shows "w_ctor w1 = ctor \<and> w_initialized w1 \<and> w_keys w1 = w_keys w \<and> w_rows w1 = w_rows w \<and> w_inner w1 = w_inner w"
  using assms by (auto simp: window_init_def bind_res_Inr_iff split: option.splits)

context frame_aggregate
begin

lemma range_reach_inv:
  assumes "h_name h = Some nm"
    "lookup nm = Some (Some \<lparr>in_new = init, in_step = step, in_inverse = (if has then Some inverse else None), in_done = result\<rparr>)"
  shows "range_reach lookup rnd ok h w \<Longrightarrow> range_inv ok holds w \<and> (w_keys w \<noteq> [] \<longrightarrow> w_initialized w) \<and>
    (w_initialized w \<longrightarrow> w_ctor w = Some \<lparr>in_new = init, in_step = step, in_inverse = (if has then Some inverse else None), in_done = result\<rparr>) \<and>
    (\<not> w_initialized w \<longrightarrow> w_inner w = None)"
proof (induction rule: range_reach.induct)
  case reach_new
  then show ?case by (simp add: NewRangeFrameWindowNative_def range_inv_def)
next
  case (reach_step w r k w')
  obtain w1 where w1: "(if w_initialized w then Inr w else window_init lookup w h) = Inr w1"
    "w' = w1\<lparr>w_keys := w_keys w1 @ [toRangeKey k], w_rows := w_rows w1 @ [r]\<rparr>"
    using reach_step(4) by (auto simp: window_Step_def bind_res_Inr_iff)
  have 1: "w_initialized w1" "w_keys w1 = w_keys w" "w_rows w1 = w_rows w" "w_inner w1 = w_inner w"
    "w_ctor w1 = Some \<lparr>in_new = init, in_step = step, in_inverse = (if has then Some inverse else None), in_done = result\<rparr>"
    using w1(1) window_init_Inr [of lookup w h w1, OF _ assms] reach_step.IH by (auto split: if_splits)
  have 2: "w_inner w1 = None \<or> w_innerS w1 = w_innerS w \<and> w_innerE w1 = w_innerE w"
    using w1(1) 1(4) reach_step.IH by (cases "w_initialized w") auto
  have "range_inv ok holds w'"
    using reach_step 1 2 unfolding w1(2) by (auto simp: range_inv_def sub_append split: option.splits)
  then show ?case using 1 w1(2) by simp
next
  case (reach_inverse w)
  then show ?case by (cases "w_inner w") (simp_all add: window_Inverse_def range_inv_def)
next
  case (reach_done w w' x)
  show ?case
  proof (cases "w_initialized w \<and> w_cur w < length (w_keys w)")
    case True
    obtain s e where f: "frame rnd (w_conf w) (w_keys w) (w_cur w) = (s, e)" by fastforce
    from window_Done_result [OF _ _ _ _ f, of has] True reach_done.IH
    obtain st where "window_Done rnd w = Inr (w\<lparr>w_inner := Some st, w_innerS := s, w_innerE := e\<rparr>, Some (value_of (sub (w_rows w) s e)))"
      "range_inv ok holds (w\<lparr>w_inner := Some st, w_innerS := s, w_innerE := e\<rparr>)" by blast
    then show ?thesis using reach_done True by auto
  next
    case False
    then have "w' = w" using reach_done(2) by (auto simp: window_Done_def split: if_splits)
    then show ?thesis using reach_done.IH by simp
  qed
qed

lemma window_Done_reach:
  assumes "h_name h = Some nm"
    "lookup nm = Some (Some \<lparr>in_new = init, in_step = step, in_inverse = (if has then Some inverse else None), in_done = result\<rparr>)"
    "range_reach lookup rnd ok h w" "w_cur w < length (w_keys w)"
    "sorted_wrt (key_le (w_conf w)) (w_keys w)" "typed_keys (w_conf w) (w_keys w)"
  shows "\<exists>w'. window_Done rnd w = Inr (w', Some (value_of
    (map snd (filter (\<lambda>(x, r). in_frame rnd (w_conf w) (w_keys w ! w_cur w) x) (zip (w_keys w) (w_rows w))))))"
proof -
  note i = range_reach_inv [OF assms(1-3)]
  obtain s e where f: "frame rnd (w_conf w) (w_keys w) (w_cur w) = (s, e)" by fastforce
  have "w_initialized w" using i assms(4) by auto
  then obtain st where "window_Done rnd w = Inr (w\<lparr>w_inner := Some st, w_innerS := s, w_innerE := e\<rparr>, Some (value_of (sub (w_rows w) s e)))"
    using window_Done_result [OF _ _ _ assms(4) f, of has] i by blast
  moreover have "length (w_rows w) = length (w_keys w)" using i by (simp add: range_inv_def)
  note frame_rows [OF assms(5,6,4) f this, symmetric]
  ultimately show ?thesis by simp
qed

end

section \<open>The result\<close>

text \<open>The operations of ARRAY_AGG as an inner aggregate.\<close>

definition array_agg_ops :: "('v \<Rightarrow> string) \<Rightarrow> ('v array_agg, 'v row, 'v option list option) inner_ops" where
  "array_agg_ops kf = \<lparr>in_new = NewArrayAggWindowNative, in_step = arrayAgg_Step, in_inverse = Some arrayAgg_Inverse,
     in_done = arrayAgg_Done (\<lambda>x. Inr (kf x))\<rparr>"

section \<open>RANGE frames along the ORDER BY\<close>

text \<open>
  What a RANGE frame is, without reference to the computation: the place of a key along the
  ORDER BY is its value, negated in descending order, and NULLs stand before or after all values;
  PRECEDING moves the boundary back along the order by the offset and FOLLOWING forwards, and an
  offset does not move NULL.
\<close>

definition order_place :: "bool \<Rightarrow> bool \<Rightarrow> rat option \<Rightarrow> int \<times> rat" where
  "order_place desc nullsLast k =
     (case k of None \<Rightarrow> (if nullsLast then 1 else - 1, 0) | Some r \<Rightarrow> (0, if desc then - r else r))"

definition moved :: "int \<times> rat \<Rightarrow> rat \<Rightarrow> int \<times> rat" where
  "moved p d = (fst p, if fst p = 0 then snd p + d else snd p)"

fun frame_starts :: "boundary \<Rightarrow> rat \<Rightarrow> int \<times> rat \<Rightarrow> int \<times> rat \<Rightarrow> bool" where
  "frame_starts UnboundedPreceding d cur x = True"
| "frame_starts OffsetPreceding d cur x = (moved cur (- d) \<le> x)"
| "frame_starts CurrentRow d cur x = (cur \<le> x)"
| "frame_starts OffsetFollowing d cur x = (moved cur d \<le> x)"
| "frame_starts UnboundedFollowing d cur x = False"
| "frame_starts BoundaryUnknown d cur x = False"

fun frame_ends :: "boundary \<Rightarrow> rat \<Rightarrow> int \<times> rat \<Rightarrow> int \<times> rat \<Rightarrow> bool" where
  "frame_ends UnboundedPreceding d cur x = False"
| "frame_ends OffsetPreceding d cur x = (x \<le> moved cur (- d))"
| "frame_ends CurrentRow d cur x = (x \<le> cur)"
| "frame_ends OffsetFollowing d cur x = (x \<le> moved cur d)"
| "frame_ends UnboundedFollowing d cur x = True"
| "frame_ends BoundaryUnknown d cur x = False"

definition in_range_frame ::
    "bool \<Rightarrow> bool \<Rightarrow> boundary \<Rightarrow> rat \<Rightarrow> boundary \<Rightarrow> rat \<Rightarrow> rat option \<Rightarrow> rat option \<Rightarrow> bool" where
  "in_range_frame desc nullsLast t1 o1 t2 o2 cur x \<longleftrightarrow>
     frame_starts t1 o1 (order_place desc nullsLast cur) (order_place desc nullsLast x)
     \<and> frame_ends t2 o2 (order_place desc nullsLast cur) (order_place desc nullsLast x)"

text \<open>The key the window keeps of an exact value or NULL.\<close>

abbreviation exact_range_key :: "rat option \<Rightarrow> rangeKey" where
  "exact_range_key k \<equiv> toRangeKey (map_option ExactKey k)"

lemma exact_range_key_simps [simp]: "exact_key (exact_range_key k)" "exact_key (KRat r)" "exact_key KNull"
  by (cases k) (simp_all add: exact_key_def is_float_def)

lemma key_le_place:
  "key_le c (exact_range_key a) (exact_range_key b)
     \<longleftrightarrow> order_place (f_desc c) (f_nullsLast c) a \<le> order_place (f_desc c) (f_nullsLast c) b"
  by (cases a; cases b) (auto simp: key_le_def order_place_def)

lemma anchor_place:
  assumes "t = OffsetPreceding \<or> t = OffsetFollowing"
  obtains k' where "anchor rnd c (exact_range_key k) t (KRat d) = exact_range_key k'"
    "order_place (f_desc c) (f_nullsLast c) k'
       = moved (order_place (f_desc c) (f_nullsLast c) k) (if t = OffsetPreceding then - d else d)"
proof (cases k)
  case None
  then show ?thesis using assms
    by (intro that [of None]) (auto simp: anchor_def frame_bound_def shift_def order_place_def moved_def)
next
  case (Some r)
  show ?thesis using assms Some
    by (intro that [of "Some (if f_desc c \<longleftrightarrow> t = OffsetPreceding then r + d else r - d)"])
      (auto simp: anchor_def frame_bound_def shift_def order_place_def moved_def Let_def)
qed

lemma in_frame_range:
  assumes "isOffsetBoundary (f_startType c) \<longrightarrow> f_startOff c = KRat o1" "isOffsetBoundary (f_endType c) \<longrightarrow> f_endOff c = KRat o2"
    "f_startType c \<noteq> BoundaryUnknown" "f_endType c \<noteq> BoundaryUnknown"
  shows "in_frame rnd c (exact_range_key k) (exact_range_key x)
    \<longleftrightarrow> in_range_frame (f_desc c) (f_nullsLast c) (f_startType c) o1 (f_endType c) o2 k x"
proof -
  let ?p = "order_place (f_desc c) (f_nullsLast c)"
  have "(case f_startType c of UnboundedPreceding \<Rightarrow> True | UnboundedFollowing \<Rightarrow> False
      | t \<Rightarrow> key_le c (anchor rnd c (exact_range_key k) t (f_startOff c)) (exact_range_key x))
    \<longleftrightarrow> frame_starts (f_startType c) o1 (?p k) (?p x)"
  proof (cases "isOffsetBoundary (f_startType c)")
    case True
    then obtain k' where "anchor rnd c (exact_range_key k) (f_startType c) (f_startOff c) = exact_range_key k'"
      "?p k' = moved (?p k) (if f_startType c = OffsetPreceding then - o1 else o1)"
      using anchor_place [of "f_startType c" rnd c k o1] assms(1) by (auto simp: isOffsetBoundary_def)
    then show ?thesis using True by (auto simp: isOffsetBoundary_def key_le_place)
  qed (use assms(3) in \<open>cases "f_startType c"; simp add: isOffsetBoundary_def anchor_def key_le_place\<close>)
  moreover have "(case f_endType c of UnboundedFollowing \<Rightarrow> True | UnboundedPreceding \<Rightarrow> False
      | t \<Rightarrow> key_le c (exact_range_key x) (anchor rnd c (exact_range_key k) t (f_endOff c)))
    \<longleftrightarrow> frame_ends (f_endType c) o2 (?p k) (?p x)"
  proof (cases "isOffsetBoundary (f_endType c)")
    case True
    then obtain k' where "anchor rnd c (exact_range_key k) (f_endType c) (f_endOff c) = exact_range_key k'"
      "?p k' = moved (?p k) (if f_endType c = OffsetPreceding then - o2 else o2)"
      using anchor_place [of "f_endType c" rnd c k o2] assms(2) by (auto simp: isOffsetBoundary_def)
    then show ?thesis using True by (auto simp: isOffsetBoundary_def key_le_place)
  qed (use assms(4) in \<open>cases "f_endType c"; simp add: isOffsetBoundary_def anchor_def key_le_place\<close>)
  ultimately show ?thesis by (simp only: in_frame_def in_range_frame_def)
qed

text \<open>A head with flags for the direction and the place of NULLs and with exact offsets.\<close>

definition exact_head ::
    "string \<Rightarrow> bool \<Rightarrow> bool \<Rightarrow> boundary \<Rightarrow> rat \<Rightarrow> boundary \<Rightarrow> rat \<Rightarrow> frame_head" where
  "exact_head nm desc nullsLast t1 o1 t2 o2 =
     \<lparr>h_name = Some nm, h_flags = Some ((if desc then 1 else 0) + (if nullsLast then 2 else 0)),
      h_start = Some t1, h_startOff = Some (ExactKey o1), h_end = Some t2, h_endOff = Some (ExactKey o2)\<rparr>"

lemma range_reach_conf:
  assumes "range_reach lookup rnd ok (exact_head nm desc nullsLast t1 o1 t2 o2) w"
  shows "(w_keys w \<noteq> [] \<longrightarrow> w_initialized w) \<and> (w_initialized w \<longrightarrow> w_conf w =
    \<lparr>f_desc = desc, f_nullsLast = nullsLast, f_startType = t1, f_endType = t2,
     f_startOff = (if isOffsetBoundary t1 then KRat o1 else KNull), f_endOff = (if isOffsetBoundary t2 then KRat o2 else KNull)\<rparr>)"
  using assms
proof (induction rule: range_reach.induct)
  case (reach_step w r k w')
  then show ?case
    by (auto simp: window_Step_def window_init_def exact_head_def bind_res_Inr_iff offsetKey_def split: if_splits option.splits)
next
  case (reach_done w w' x)
  then show ?case by (auto simp: window_Done_def bind_res_Inr_iff Let_def split: if_splits option.splits prod.splits)
qed (simp_all add: NewRangeFrameWindowNative_def window_Inverse_def)

text \<open>
  C4. ARRAY_AGG over a RANGE frame with exact keys (integers, NUMERIC and the other types that have an
  exact rational value, or NULL): in every state that SQLite can reach by steps, inverses and
  results, and whose keys come in the order of the ORDER BY, \<open>Done\<close> succeeds and returns the array
  of exactly those rows whose key lies between the two boundaries of the current row. The
  boundaries are placed along the ORDER BY, so in descending order PRECEDING means larger keys,
  and NULLs stand first or last as the flags say, although the code searches them by bisection
  with a sign for the direction and reuses the inner state of the previous row.
\<close>

theorem range_window_array_agg:
  assumes "lookup nm = Some (Some (array_agg_ops kf))"
    "range_reach lookup rnd (same_options d i) (exact_head nm desc nullsLast t1 o1 t2 o2) w"
    "t1 \<noteq> BoundaryUnknown" "t2 \<noteq> BoundaryUnknown"
    "w_keys w = map exact_range_key ks" "w_cur w < length ks" "sorted (map (order_place desc nullsLast) ks)"
  shows "\<exists>w'. window_Done rnd w = Inr (w', Some (array_value kf d i
    (map snd (filter (\<lambda>(x, r). in_range_frame desc nullsLast t1 o1 t2 o2 (ks ! w_cur w) x) (zip ks (w_rows w))))))"
proof -
  let ?h = "exact_head nm desc nullsLast t1 o1 t2 o2"
  have "w_keys w \<noteq> []" using assms(5,6) by auto
  then have c: "f_desc (w_conf w) = desc" "f_nullsLast (w_conf w) = nullsLast" "f_startType (w_conf w) = t1" "f_endType (w_conf w) = t2"
    "f_startOff (w_conf w) = (if isOffsetBoundary t1 then KRat o1 else KNull)"
    "f_endOff (w_conf w) = (if isOffsetBoundary t2 then KRat o2 else KNull)"
    using range_reach_conf [OF assms(2)] by simp_all
  have s: "sorted_wrt (key_le (w_conf w)) (w_keys w)"
    using assms(7) by (simp add: assms(5) sorted_wrt_map key_le_place c sorted_map)
  have t: "typed_keys (w_conf w) (w_keys w)"
    by (simp add: typed_keys_def c assms(5) list_all_iff)
  have n: "h_name ?h = Some nm" by (simp add: exact_head_def)
  have f: "in_frame rnd (w_conf w) (w_keys w ! w_cur w) (exact_range_key x)
      \<longleftrightarrow> in_range_frame desc nullsLast t1 o1 t2 o2 (ks ! w_cur w) x" for x
    using in_frame_range [of "w_conf w" o1 o2 rnd "ks ! w_cur w" x] assms(3-6) c by simp
  have z: "map snd (filter (\<lambda>(x, r). in_frame rnd (w_conf w) (w_keys w ! w_cur w) x) (zip (w_keys w) (w_rows w)))
      = map snd (filter (\<lambda>(x, r). in_range_frame desc nullsLast t1 o1 t2 o2 (ks ! w_cur w) x) (zip ks (w_rows w)))"
    unfolding assms(5) zip_map1 filter_map map_map using f [unfolded assms(5)]
    by (intro map_cong filter_cong refl) (auto simp: case_prod_unfold)
  have "w_cur w < length (w_keys w)" using assms(5,6) by simp
  from array_agg.window_Done_reach [OF n _ assms(2) this s t, where has = True and kf = kf]
  show ?thesis unfolding z using assms(1) by (simp add: array_agg_ops_def)
qed

text \<open>Keys 6, 5, 1 in descending order: 2 PRECEDING of the row with key 5 reaches up to key 7.\<close>

theorem range_window_array_agg_witness:
  "\<exists>w w' :: (val array_agg, val row, val option list option) range_window. w_cur w = 1 \<and>
     window_Done Fin w = Inr (w', Some (Some [Some (IntValue 7), Some (IntValue 8)]))"
proof -
  let ?lookup = "\<lambda>_ :: string. Some (Some (array_agg_ops (\<lambda>_ :: val. [])))"
  let ?h = "exact_head [] True False OffsetPreceding 2 CurrentRow 0"
  let ?r = "\<lambda>n. \<lparr>cells = [Some (IntValue n)], row_distinct = False, row_ignore_nulls = False\<rparr>"
  define w1 where "w1 = (NewRangeFrameWindowNative :: (val array_agg, val row, val option list option) range_window)\<lparr>w_ctor := Some (array_agg_ops (\<lambda>_. [])),
    w_initialized := True, w_conf := \<lparr>f_desc = True, f_nullsLast = False, f_startType = OffsetPreceding, f_endType = CurrentRow,
      f_startOff = KRat 2, f_endOff = KNull\<rparr>, w_keys := [KRat 6], w_rows := [?r 7]\<rparr>"
  define w3 where "w3 = w1\<lparr>w_keys := [KRat 6, KRat 5, KRat 1], w_rows := [?r 7, ?r 8, ?r 9], w_cur := 1\<rparr>"
  have "range_reach ?lookup Fin (same_options False False) ?h NewRangeFrameWindowNative" by (rule reach_new)
  then have "range_reach ?lookup Fin (same_options False False) ?h w1"
    by (rule reach_step [where k = "Some (ExactKey 6)" and r = "?r 7"])
      (simp_all add: exact_head_def same_options_def window_Step_def window_init_def isOffsetBoundary_def offsetKey_def Let_def w1_def NewRangeFrameWindowNative_def)
  then have "range_reach ?lookup Fin (same_options False False) ?h (w1\<lparr>w_keys := [KRat 6, KRat 5], w_rows := [?r 7, ?r 8]\<rparr>)"
    by (rule reach_step [where k = "Some (ExactKey 5)" and r = "?r 8"]) (simp_all add: same_options_def window_Step_def w1_def)
  then have "range_reach ?lookup Fin (same_options False False) ?h (w1\<lparr>w_keys := [KRat 6, KRat 5, KRat 1], w_rows := [?r 7, ?r 8, ?r 9]\<rparr>)"
    by (rule reach_step [where k = "Some (ExactKey 1)" and r = "?r 9"]) (simp_all add: same_options_def window_Step_def w1_def)
  then have "range_reach ?lookup Fin (same_options False False) ?h
    (window_Inverse (w1\<lparr>w_keys := [KRat 6, KRat 5, KRat 1], w_rows := [?r 7, ?r 8, ?r 9]\<rparr>))" by (rule reach_inverse)
  moreover have "window_Inverse (w1\<lparr>w_keys := [KRat 6, KRat 5, KRat 1], w_rows := [?r 7, ?r 8, ?r 9]\<rparr>) = w3"
    by (simp add: window_Inverse_def w3_def w1_def NewRangeFrameWindowNative_def)
  ultimately have r: "range_reach ?lookup Fin (same_options False False) ?h w3" by simp
  have k: "w_keys w3 = map exact_range_key [Some 6, Some 5, Some 1]" "w_rows w3 = [?r 7, ?r 8, ?r 9]" "w_cur w3 = 1"
    by (simp_all add: w3_def w1_def)
  have s: "sorted (map (order_place True False) [Some 6, Some 5, Some 1])" by (simp add: order_place_def)
  obtain w' where "window_Done Fin w3 = Inr (w', Some (array_value (\<lambda>_. []) False False
    (map snd (filter (\<lambda>(x, r). in_range_frame True False OffsetPreceding 2 CurrentRow 0 (Some 5) x)
      (zip [Some 6, Some 5, Some 1] [?r 7, ?r 8, ?r 9])))))"
    using range_window_array_agg [OF _ r _ _ k(1) _ s, of "\<lambda>_. []"] k(2,3) by auto
  then show ?thesis using k(3)
    by (auto simp: in_range_frame_def order_place_def moved_def array_value_def arg_def)
qed

end
