(* ===== verification/JSON_Extract.thy ===== *)
theory JSON_Extract
  imports JSON_Path
begin

text \<open>
  Raw extraction against the document: on the text of a well-formed document, with any white
  space, the byte scanners of \<open>jsonpath.go\<close> stop where the value ends, so extraction gives the
  text of the value that navigation of the document selects. The second part is the parser of
  paths: every sequence of steps has a text that parses to it.
\<close>

section \<open>The scanners on the text of a value\<close>

lemma ws_not_delim:
  assumes "json_ws c"
  shows "c \<noteq> CHR 0x22" "c \<noteq> CHR ''{''" "c \<noteq> CHR ''[''" "c \<noteq> CHR ''}''" "c \<noteq> CHR '']''"
    "c \<noteq> CHR '',''" "c \<noteq> CHR '':''"
  using assms by (auto simp: json_ws_def)

lemma graphic_not_ws: "graphic c \<Longrightarrow> \<not> json_ws c"
  by (rule notI, unfold json_ws_def, elim disjE) (simp_all add: graphic_def)

text \<open>A byte that the container loop passes over.\<close>

definition plain_char :: "char \<Rightarrow> bool" where
  "plain_char c \<longleftrightarrow> c \<noteq> CHR 0x22 \<and> c \<noteq> CHR ''{'' \<and> c \<noteq> CHR ''['' \<and> c \<noteq> CHR ''}'' \<and> c \<noteq> CHR '']''"

lemma lit_char_not:
  assumes "lit_char c"
  shows "plain_char c" "graphic c" "\<not> json_ws c" "\<not> scalar_end c"
proof -
  show "plain_char c" "graphic c" using assms by (simp_all add: lit_char_def plain_char_def)
  then show "\<not> json_ws c" by (simp add: graphic_not_ws)
  then show "\<not> scalar_end c" using assms by (simp add: lit_char_def scalar_end_def)
qed

lemma ws_plain: "json_ws c \<Longrightarrow> plain_char c"
  by (simp add: ws_not_delim plain_char_def)

lemma skipSpace_run:
  assumes "drop i b = w @ r" "all_ws w" "r = [] \<or> \<not> json_ws (hd r)"
  shows "skipSpace b i = i + length w"
  using assms
proof (induction w arbitrary: i)
  case Nil
  then show ?case by (subst skipSpace.simps) (cases r, auto dest: drop_ConsD)
next
  case (Cons c w)
  then have *: "i < length b" "b ! i = c" "drop (Suc i) b = w @ r" by (auto dest: drop_ConsD)
  then have "skipSpace b (Suc i) = Suc i + length w" using Cons by (auto simp: all_ws_def)
  then show ?case using * Cons.prems by (subst skipSpace.simps) (simp add: all_ws_def)
qed

lemma skipString_from_body:
  assumes "drop j b = s @ CHR 0x22 # r" "string_body s"
  shows "skipString_from b j = Some (j + length s + 1)"
  using assms
proof (induction s arbitrary: j rule: string_body.induct)
  case 1
  then show ?case by (subst skipString_from.simps) (auto dest: drop_ConsD)
next
  case (2 c cs)
  have hd: "j < length b" "b ! j = c" "drop (Suc j) b = cs @ CHR 0x22 # r"
    using "2.prems"(1) by (auto dest: drop_ConsD)
  show ?case
  proof (cases "c = CHR 0x5C")
    case True
    then obtain d ds where cs: "cs = d # ds" "string_body ds"
      using "2.prems"(2) by (auto split: list.splits)
    then have "drop (Suc (Suc j)) b = ds @ CHR 0x22 # r" using hd(3) by (auto dest: drop_ConsD)
    then have "skipString_from b (j + 2) = Some (j + 2 + length ds + 1)"
      using "2.IH"(1) [OF True cs(1)] cs(2) by simp
    then show ?thesis using hd True cs(1) by (subst skipString_from.simps) simp
  next
    case False
    then have "skipString_from b (Suc j) = Some (Suc j + length cs + 1)"
      using "2.IH"(2) "2.prems"(2) hd(3) by simp
    then show ?thesis using hd False "2.prems"(2) by (subst skipString_from.simps) simp
  qed
qed

lemma skipString_text:
  assumes "drop i b = CHR 0x22 # s @ CHR 0x22 # r" "string_body s"
  shows "skipString b i = Some (i + length s + 2)"
  using skipString_from_body [of "Suc i" b s r] assms by (auto simp: skipString_def dest: drop_ConsD)

text \<open>Inside a container, text without quotes and brackets is passed over.\<close>

lemma skipNest_plain:
  assumes "drop j b = w @ r"
    "list_all plain_char w"
  shows "skipNest b j d = skipNest b (j + length w) d"
  using assms
proof (induction w arbitrary: j)
  case (Cons c w)
  then have "j < length b" "b ! j = c" "drop (Suc j) b = w @ r" by (auto dest: drop_ConsD)
  then show ?case using Cons by (subst skipNest.simps) (simp add: plain_char_def)
qed simp

lemma skipNest_ws:
  "drop j b = w @ r \<Longrightarrow> all_ws w \<Longrightarrow> skipNest b j d = skipNest b (j + length w) d"
  by (rule skipNest_plain) (auto simp: all_ws_def list_all_iff ws_plain)

lemma skipNest_string:
  assumes "drop j b = CHR 0x22 # s @ CHR 0x22 # r" "string_body s"
  shows "skipNest b j d = skipNest b (j + length s + 2) d"
  using skipString_text [OF assms] assms(1) by (subst skipNest.simps) (auto dest: drop_ConsD)

lemma skipNest_open:
  "drop j b = c # r \<Longrightarrow> c = CHR ''['' \<or> c = CHR ''{'' \<Longrightarrow> skipNest b j d = skipNest b (Suc j) (d + 1)"
  by (subst skipNest.simps) (auto dest: drop_ConsD)

lemma skipNest_close:
  "drop j b = c # r \<Longrightarrow> c = CHR '']'' \<or> c = CHR ''}'' \<Longrightarrow>
     skipNest b j d = (if d = 1 then Some (Suc j) else skipNest b (Suc j) (d - 1))"
  by (subst skipNest.simps) (auto dest: drop_ConsD)

lemma skipNest_char:
  "drop j b = c # r \<Longrightarrow> c = CHR '','' \<or> c = CHR '':'' \<Longrightarrow> skipNest b j d = skipNest b (Suc j) d"
  using skipNest_plain [of j b "[c]" r d] by (auto simp: plain_char_def)

lemma skipNest_value:
  "wf_json t \<Longrightarrow> drop j b = print_json t @ r \<Longrightarrow> 1 \<le> d \<Longrightarrow>
     skipNest b j d = skipNest b (j + length (print_json t)) d"
  "wf_elems es \<Longrightarrow> drop j b = print_elems es @ r \<Longrightarrow> 1 \<le> d \<Longrightarrow>
     skipNest b j d = skipNest b (j + length (print_elems es)) d"
  "wf_members ms \<Longrightarrow> drop j b = print_members ms @ r \<Longrightarrow> 1 \<le> d \<Longrightarrow>
     skipNest b j d = skipNest b (j + length (print_members ms)) d"
proof (induction t and es and ms arbitrary: j r d and j r d and j r d)
  case (JLit s)
  then show ?case by (auto intro!: skipNest_plain simp: list_all_iff lit_char_not)
next
  case (JStr s)
  then show ?case using skipNest_string [of j b s r d] by simp
next
  case (JArr w es)
  have a: "drop (Suc j) b = w @ print_elems es @ CHR '']'' # r"
    using JArr.prems by (auto dest: drop_ConsD)
  then have e: "drop (Suc j + length w) b = print_elems es @ CHR '']'' # r" by (rule drop_appD)
  then have c: "drop (Suc j + length w + length (print_elems es)) b = CHR '']'' # r"
    by (rule drop_appD)
  have "skipNest b j d = skipNest b (Suc j) (d + 1)"
    using JArr.prems(2) by (auto intro: skipNest_open)
  also have "\<dots> = skipNest b (Suc j + length w) (d + 1)"
    using skipNest_ws [OF a] JArr.prems(1) by simp
  also have "\<dots> = skipNest b (Suc j + length w + length (print_elems es)) (d + 1)"
    using JArr.IH [OF _ e] JArr.prems by simp
  finally show ?case using skipNest_close [OF c, of "d + 1"] JArr.prems(3) by (simp add: add.assoc)
next
  case (JObj w ms)
  have a: "drop (Suc j) b = w @ print_members ms @ CHR ''}'' # r"
    using JObj.prems by (auto dest: drop_ConsD)
  then have e: "drop (Suc j + length w) b = print_members ms @ CHR ''}'' # r" by (rule drop_appD)
  then have c: "drop (Suc j + length w + length (print_members ms)) b = CHR ''}'' # r"
    by (rule drop_appD)
  have "skipNest b j d = skipNest b (Suc j) (d + 1)"
    using JObj.prems(2) by (auto intro: skipNest_open)
  also have "\<dots> = skipNest b (Suc j + length w) (d + 1)"
    using skipNest_ws [OF a] JObj.prems(1) by simp
  also have "\<dots> = skipNest b (Suc j + length w + length (print_members ms)) (d + 1)"
    using JObj.IH [OF _ e] JObj.prems by simp
  finally show ?case using skipNest_close [OF c, of "d + 1"] JObj.prems(3) by (simp add: add.assoc)
next
  case (ECons v w1 w2 es)
  let ?i1 = "j + length (print_json v)" and ?t = "if es = ENil then [] else CHR '','' # w2 @ print_elems es"
  have a: "drop j b = print_json v @ w1 @ ?t @ r" using ECons.prems(2) by simp
  note b1 = drop_appD [OF a] and b2 = drop_appD [OF drop_appD [OF a]]
  have s: "skipNest b j d = skipNest b (?i1 + length w1) d"
    using ECons.IH(1) [OF _ a] skipNest_ws [OF b1] ECons.prems by simp
  show ?case
  proof (cases "es = ENil")
    case False
    then have b3: "drop (Suc (?i1 + length w1)) b = w2 @ print_elems es @ r"
      and co: "drop (?i1 + length w1) b = CHR '','' # w2 @ print_elems es @ r"
      using b2 by (auto dest: drop_ConsD)
    have "skipNest b (Suc (?i1 + length w1)) d
        = skipNest b (Suc (?i1 + length w1) + length w2 + length (print_elems es)) d"
      using skipNest_ws [OF b3] ECons.IH(2) [OF _ drop_appD [OF b3]] ECons.prems by simp
    then show ?thesis using s skipNest_char [OF co] False by (simp add: add.assoc)
  qed (use s in \<open>simp add: add.assoc\<close>)
next
  case (MCons k w1 w2 v w3 w4 ms)
  let ?t = "if ms = MNil then [] else CHR '','' # w4 @ print_members ms"
  have a: "drop j b = CHR 0x22 # k @ CHR 0x22 # w1 @ CHR '':'' # w2 @ print_json v @ w3 @ ?t @ r"
    using MCons.prems(2) by simp
  then have a0: "drop j b = (CHR 0x22 # k @ [CHR 0x22]) @ w1 @ CHR '':'' # w2 @ print_json v @ w3 @ ?t @ r"
    by simp
  let ?i1 = "j + length k + 2"
  have b1: "drop ?i1 b = w1 @ CHR '':'' # w2 @ print_json v @ w3 @ ?t @ r"
    using drop_appD [OF a0] by simp
  note b2 = drop_appD [OF b1]
  note b3 = drop_ConsD(3) [OF b2]
  note b4 = drop_appD [OF b3]
  note b5 = drop_appD [OF b4]
  note b6 = drop_appD [OF b5]
  let ?i2 = "Suc (?i1 + length w1) + length w2 + length (print_json v) + length w3"
  have s1: "skipNest b j d = skipNest b (Suc (?i1 + length w1)) d"
    using skipNest_string [OF a] skipNest_ws [OF b1] skipNest_char [OF b2] MCons.prems by simp
  have s: "skipNest b (Suc (?i1 + length w1)) d = skipNest b ?i2 d"
    using skipNest_ws [OF b3] MCons.IH(1) [OF _ b4] skipNest_ws [OF b5] MCons.prems by simp
  show ?case
  proof (cases "ms = MNil")
    case False
    then have b7: "drop (Suc ?i2) b = w4 @ print_members ms @ r"
      and co: "drop ?i2 b = CHR '','' # w4 @ print_members ms @ r"
      using b6 by (auto dest: drop_ConsD)
    have "skipNest b (Suc ?i2) d = skipNest b (Suc ?i2 + length w4 + length (print_members ms)) d"
      using skipNest_ws [OF b7] MCons.IH(2) [OF _ drop_appD [OF b7]] MCons.prems by simp
    then show ?thesis using s1 s skipNest_char [OF co] False by (simp add: add.assoc)
  qed (use s1 s in \<open>simp add: add.assoc\<close>)
qed simp_all

lemma skipScalar_run:
  assumes "drop i b = w @ r" "list_all lit_char w" "r = [] \<or> scalar_end (hd r)"
  shows "skipScalar b i = i + length w"
  using assms
proof (induction w arbitrary: i)
  case Nil
  then show ?case by (subst skipScalar.simps) (cases r, auto dest: drop_ConsD)
next
  case (Cons c w)
  then have *: "i < length b" "b ! i = c" "drop (Suc i) b = w @ r" by (auto dest: drop_ConsD)
  then have "skipScalar b (Suc i) = Suc i + length w" using Cons by auto
  then show ?case using * Cons.prems by (subst skipScalar.simps) (simp add: lit_char_not)
qed

lemma skipValue_text:
  assumes wf: "wf_json t" and b: "drop i b = print_json t @ r" and r: "r = [] \<or> scalar_end (hd r)"
  shows "skipValue b i = Some (i + length (print_json t))"
proof (cases t)
  case (JLit s)
  obtain c cs where s: "s = c # cs" using wf JLit by (cases s) auto
  then have c: "i < length b" "b ! i = c" "lit_char c"
    using b wf JLit by (auto dest: drop_ConsD)
  have "skipScalar b i = i + length s" using skipScalar_run [of i b s r] wf b r JLit by simp
  then show ?thesis using c s JLit lit_char_not(1) [OF c(3)]
    by (simp add: skipValue_def plain_char_def)
next
  case (JStr s)
  then show ?thesis using b wf skipString_text [of i b s r]
    by (auto simp: skipValue_def dest: drop_ConsD)
next
  case (JArr w es)
  have a: "drop (Suc i) b = w @ print_elems es @ CHR '']'' # r" and h: "i < length b" "b ! i = CHR ''[''"
    and o: "drop i b = CHR ''['' # w @ print_elems es @ CHR '']'' # r"
    using b JArr by (auto dest: drop_ConsD)
  note e = drop_appD [OF a]
  have "skipNest b i 0 = skipNest b (Suc i + length w + length (print_elems es)) 1"
    using skipNest_open [OF o] skipNest_ws [OF a] skipNest_value(2) [OF _ e] wf JArr by simp
  then show ?thesis using skipNest_close [OF drop_appD [OF e], of 1] h JArr
    by (simp add: skipValue_def add.assoc)
next
  case (JObj w ms)
  have a: "drop (Suc i) b = w @ print_members ms @ CHR ''}'' # r" and h: "i < length b" "b ! i = CHR ''{''"
    and o: "drop i b = CHR ''{'' # w @ print_members ms @ CHR ''}'' # r"
    using b JObj by (auto dest: drop_ConsD)
  note e = drop_appD [OF a]
  have "skipNest b i 0 = skipNest b (Suc i + length w + length (print_members ms)) 1"
    using skipNest_open [OF o] skipNest_ws [OF a] skipNest_value(3) [OF _ e] wf JObj by simp
  then show ?thesis using skipNest_close [OF drop_appD [OF e], of 1] h JObj
    by (simp add: skipValue_def add.assoc)
qed

text \<open>The head of the text of a value, and what may follow it inside a container.\<close>

lemma print_json_hd:
  assumes "wf_json t"
  shows "print_json t \<noteq> []" "graphic (hd (print_json t))" "graphic (last (print_json t))"
    "\<not> json_ws (hd (print_json t))" "hd (print_json t) \<noteq> CHR '']''"
proof -
  have *: "print_json t \<noteq> [] \<and> graphic (hd (print_json t)) \<and> graphic (last (print_json t))
      \<and> hd (print_json t) \<noteq> CHR '']''"
  proof (cases t)
    case (JLit s)
    then have "s \<noteq> []" "last s \<in> set s" "hd s \<in> set s" "\<forall>c \<in> set s. lit_char c"
      using assms by (auto simp: list_all_iff)
    then have "lit_char (hd s)" "lit_char (last s)" "s \<noteq> []" by blast+
    then show ?thesis using JLit by (simp add: lit_char_not lit_char_def)
  qed (simp_all add: graphic_def)
  then show "print_json t \<noteq> []" "graphic (hd (print_json t))" "graphic (last (print_json t))"
    "hd (print_json t) \<noteq> CHR '']''" by blast+
  then show "\<not> json_ws (hd (print_json t))" by (simp add: graphic_not_ws)
qed

lemma scalar_end_ws_app:
  assumes "all_ws w" "r \<noteq> []" "scalar_end (hd r)"
  shows "scalar_end (hd (w @ r))"
  using assms by (cases w) (auto simp: all_ws_def scalar_end_def)

lemma scalar_end_delim [simp]: "scalar_end (CHR '','')" "scalar_end (CHR ''}'')" "scalar_end (CHR '']'')"
  by (simp_all add: scalar_end_def)

lemma not_ws_delim [simp]:
  "\<not> json_ws (CHR '','')" "\<not> json_ws (CHR ''}'')" "\<not> json_ws (CHR '']'')" "\<not> json_ws (CHR '':'')"
  "\<not> json_ws (CHR 0x22)"
  by (simp_all add: json_ws_def)

lemma print_elems_hd:
  assumes "wf_elems es" "es \<noteq> ENil"
  shows "print_elems es \<noteq> []" "\<not> json_ws (hd (print_elems es))" "hd (print_elems es) \<noteq> CHR '']''"
  using assms print_json_hd by (cases es; simp)+

lemma print_members_hd: "ms \<noteq> MNil \<Longrightarrow> \<exists>xs. print_members ms = CHR 0x22 # xs"
  by (cases ms) auto

section \<open>Elements and members\<close>

lemma jelems_induct [case_names ENil ECons]:
  assumes "P ENil" "\<And>v w1 w2 es. P es \<Longrightarrow> P (ECons v w1 w2 es)"
  shows "P es"
  by (rule jelems.induct [of "\<lambda>_. True" P "\<lambda>_. True"]) (auto intro: assms)

lemma jmembers_induct [case_names MNil MCons]:
  assumes "P MNil" "\<And>k w1 w2 v w3 w4 ms. P ms \<Longrightarrow> P (MCons k w1 w2 v w3 w4 ms)"
  shows "P ms"
  by (rule jmembers.induct [of "\<lambda>_. True" "\<lambda>_. True" P]) (auto intro: assms)

lemma array_loop_text:
  assumes "wf_elems es" "es \<noteq> ENil" "drop i raw = print_elems es @ CHR '']'' # r"
  shows "array_loop raw idx n i = map_option print_json (elem_at es (idx - n))"
  using assms
proof (induction es arbitrary: i n rule: jelems_induct)
  case (ECons v w1 w2 es)
  let ?t = "if es = ENil then [] else CHR '','' # w2 @ print_elems es"
  have a: "drop i raw = print_json v @ w1 @ ?t @ CHR '']'' # r" using ECons.prems(3) by simp
  have il: "i < length raw" using a print_json_hd(1) [of v] ECons.prems(1) by (metis append_is_Nil_conv drop_all leI wf_elems.simps(2))
  have "scalar_end (hd (w1 @ ?t @ CHR '']'' # r))"
    using ECons.prems(1) scalar_end_ws_app [of w1 "?t @ CHR '']'' # r"] by simp
  then have sv: "skipValue raw i = Some (i + length (print_json v))"
    using skipValue_text [OF _ a] ECons.prems(1) by simp
  let ?i1 = "i + length (print_json v) + length w1"
  have b1: "drop (i + length (print_json v)) raw = w1 @ ?t @ CHR '']'' # r" by (rule drop_appD [OF a])
  have s1: "skipSpace raw (i + length (print_json v)) = ?i1"
    using skipSpace_run [OF b1] ECons.prems(1) by auto
  have b2: "drop ?i1 raw = ?t @ CHR '']'' # r" by (rule drop_appD [OF b1])
  show ?case
  proof (cases "n = idx")
    case True
    then show ?thesis using sv il subslice_app [OF a] by (subst array_loop.simps) simp
  next
    case ne: False
    show ?thesis
    proof (cases "es = ENil")
      case True
      then have "raw ! ?i1 = CHR '']''" using b2 by (auto dest: drop_ConsD)
      then show ?thesis using sv il s1 ne True by (subst array_loop.simps) simp
    next
      case False
      then have c: "drop ?i1 raw = CHR '','' # w2 @ print_elems es @ CHR '']'' # r" using b2 by simp
      note b3 = drop_ConsD [OF c]
      have "skipSpace raw (Suc ?i1) = Suc ?i1 + length w2"
        using skipSpace_run [OF b3(3)] print_elems_hd [of es] False ECons.prems(1) by simp
      moreover have "array_loop raw idx (n + 1) (Suc ?i1 + length w2)
          = map_option print_json (elem_at es (idx - (n + 1)))"
        using ECons.IH [OF _ False drop_appD [OF b3(3)]] ECons.prems(1) by simp
      ultimately show ?thesis using sv il s1 b3 ne
        by (subst array_loop.simps) (simp add: Let_def algebra_simps)
    qed
  qed
qed simp

lemma rawArrayElem_text:
  assumes "wf_json t"
  shows "rawArrayElem (print_json t) idx
     = (case t of JArr w es \<Rightarrow> map_option print_json (elem_at es idx) | _ \<Rightarrow> None)"
proof (cases t)
  case (JArr w es)
  let ?raw = "print_json t"
  have a: "drop 1 ?raw = w @ print_elems es @ '']''" using JArr by simp
  have neg: "elem_at es n = None" if "n < 0" for n
    using that by (induction es arbitrary: n rule: jelems_induct) auto
  have s: "skipSpace ?raw 1 = 1 + length w"
    using skipSpace_run [OF a] print_elems_hd [of es] assms JArr by (cases "es = ENil") auto
  have b: "drop (1 + length w) ?raw = print_elems es @ '']''" by (rule drop_appD [OF a])
  show ?thesis
  proof (cases "es = ENil")
    case True
    then have "?raw ! (1 + length w) = CHR '']''" "1 + length w < length ?raw"
      using b by (auto dest: drop_ConsD)
    then show ?thesis using JArr True s by (simp add: rawArrayElem_def)
  next
    case False
    obtain c cs where c: "print_elems es = c # cs" "c \<noteq> CHR '']''"
      using print_elems_hd [of es] False assms JArr by (cases "print_elems es") auto
    then have "?raw ! (1 + length w) \<noteq> CHR '']''" using b by (auto dest: drop_ConsD)
    moreover have "array_loop ?raw idx 0 (1 + length w) = map_option print_json (elem_at es idx)"
      using array_loop_text [of es "1 + length w" ?raw "[]" idx 0] False b assms JArr by simp
    ultimately show ?thesis using JArr s neg by (auto simp: rawArrayElem_def Let_def)
  qed
next
  case (JLit s)
  then obtain c cs where "s = c # cs" "lit_char c" using assms by (cases s) auto
  then show ?thesis using JLit lit_char_not(1) [of c] by (simp add: rawArrayElem_def plain_char_def)
qed (simp_all add: rawArrayElem_def)

text \<open>A name in valid UTF-8 without escapes is its own decoding, so names compare decoded.\<close>

lemma unquote_plain:
  assumes "utf8_text s" "CHR 0x5C \<notin> set s" "CHR 0x22 \<notin> set s"
  shows "unquote s = Some s"
  using assms
proof (induction s rule: utf8_text.induct)
  case (1 s)
  show ?case
  proof (cases s)
    case (Cons c r)
    have p: "\<not> byte_in 0 0x1F c" "utf8_len s \<noteq> 0" "utf8_text (drop (utf8_len s) s)"
      using "1.prems"(1) Cons by (subst (asm) utf8_text.simps, simp split: if_splits)+
    moreover have "unquote (drop (utf8_len s) s) = Some (drop (utf8_len s) s)"
    proof (rule "1.IH" [OF _ _ p(3)])
      show "CHR 0x5C \<notin> set (drop (utf8_len s) s)" "CHR 0x22 \<notin> set (drop (utf8_len s) s)"
        using "1.prems"(2,3) in_set_dropD by metis+
    qed (use p Cons in simp_all)
    ultimately show ?thesis using Cons "1.prems" by (subst unquote.simps) auto
  qed (subst unquote.simps, simp)
qed

lemma string_body_no_quote: "string_body s \<Longrightarrow> CHR 0x5C \<notin> set s \<Longrightarrow> CHR 0x22 \<notin> set s"
  by (induction s) auto

lemma keyEquals_decoded:
  assumes "string_body k" "utf8_text k"
  shows "keyEquals k key \<longleftrightarrow> unquote k = Some key"
  using assms unquote_plain [of k] string_body_no_quote [of k] by (auto simp: keyEquals_def)

lemma object_loop_text:
  assumes "wf_members ms" "ms \<noteq> MNil" "drop i raw = print_members ms @ CHR ''}'' # r"
  shows "object_loop raw key i = map_option print_json (member_named ms key)"
  using assms
proof (induction ms arbitrary: i rule: jmembers_induct)
  case (MCons k w1 w2 v w3 w4 ms)
  let ?t = "if ms = MNil then [] else CHR '','' # w4 @ print_members ms"
  have wf: "string_body k" "utf8_text k" "all_ws w1" "all_ws w2" "wf_json v" "all_ws w3"
    "all_ws w4" "wf_members ms" using MCons.prems(1) by simp_all
  have a: "drop i raw = CHR 0x22 # k @ CHR 0x22 # w1 @ CHR '':'' # w2 @ print_json v @ w3 @ ?t @ CHR ''}'' # r"
    using MCons.prems(3) by simp
  let ?e = "i + length k + 2"
  note q = drop_ConsD [OF a]
  have sk: "skipString raw i = Some ?e" by (rule skipString_text [OF a wf(1)])
  have k: "subslice raw (i + 1) (?e - 1) = k" using subslice_app [OF q(3)] by simp
  have b1: "drop ?e raw = w1 @ CHR '':'' # w2 @ print_json v @ w3 @ ?t @ CHR ''}'' # r"
    using drop_ConsD(3) [OF drop_appD [OF q(3)]] by simp
  let ?i1 = "?e + length w1"
  have s1: "skipSpace raw ?e = ?i1" using skipSpace_run [OF b1 wf(3)] by simp
  note b2 = drop_ConsD [OF drop_appD [OF b1]]
  let ?i2 = "Suc ?i1 + length w2"
  have s2: "skipSpace raw (?i1 + 1) = ?i2"
    using skipSpace_run [OF b2(3) wf(4)] print_json_hd [OF wf(5)] by simp
  note b3 = drop_appD [OF b2(3)]
  let ?v = "?i2 + length (print_json v)"
  have "scalar_end (hd (w3 @ ?t @ CHR ''}'' # r))"
    using wf(6) scalar_end_ws_app [of w3 "?t @ CHR ''}'' # r"] by simp
  then have sv: "skipValue raw ?i2 = Some ?v" using skipValue_text [OF wf(5) b3] by simp
  have val: "subslice raw ?i2 ?v = print_json v" by (rule subslice_app [OF b3])
  note b4 = drop_appD [OF b3]
  let ?i3 = "?v + length w3"
  have s3: "skipSpace raw ?v = ?i3" using skipSpace_run [OF b4 wf(6)] by simp
  note b5 = drop_appD [OF b4]
  note heads = q(1,2) sk k s1 b2(1,2) s2 sv val s3 keyEquals_decoded [OF wf(1,2)]
  show ?case
  proof (cases "ms = MNil")
    case True
    then have "raw ! ?i3 = CHR ''}''" using b5 by (auto dest: drop_ConsD)
    then show ?thesis using heads True by (subst object_loop.simps) (simp add: Let_def)
  next
    case False
    then have c: "drop ?i3 raw = CHR '','' # w4 @ print_members ms @ CHR ''}'' # r" using b5 by simp
    note b6 = drop_ConsD [OF c]
    obtain xs where "print_members ms = CHR 0x22 # xs" using print_members_hd [OF False] by blast
    then have "skipSpace raw (Suc ?i3) = Suc ?i3 + length w4"
      using skipSpace_run [OF b6(3) wf(7)] by simp
    moreover have "object_loop raw key (Suc ?i3 + length w4) = map_option print_json (member_named ms key)"
      by (rule MCons.IH [OF wf(8) False drop_appD [OF b6(3)]])
    ultimately show ?thesis using heads b6 by (subst object_loop.simps) (simp add: Let_def)
  qed
qed simp

lemma rawObjectMember_text:
  assumes "wf_json t"
  shows "rawObjectMember (print_json t) key
     = (case t of JObj w ms \<Rightarrow> map_option print_json (member_named ms key) | _ \<Rightarrow> None)"
proof (cases t)
  case (JObj w ms)
  let ?raw = "print_json t"
  have a: "drop 1 ?raw = w @ print_members ms @ ''}''" using JObj by simp
  have s: "skipSpace ?raw 1 = 1 + length w"
    using skipSpace_run [OF a] print_members_hd [of ms] assms JObj by (cases "ms = MNil") auto
  have b: "drop (1 + length w) ?raw = print_members ms @ ''}''" by (rule drop_appD [OF a])
  show ?thesis
  proof (cases "ms = MNil")
    case True
    then have "?raw ! (1 + length w) = CHR ''}''" "1 + length w < length ?raw"
      using b by (auto dest: drop_ConsD)
    then show ?thesis using JObj True s by (simp add: rawObjectMember_def)
  next
    case False
    obtain xs where "print_members ms = CHR 0x22 # xs" using print_members_hd [OF False] by blast
    then have "?raw ! (1 + length w) = CHR 0x22" using b by (auto dest: drop_ConsD)
    moreover have "object_loop ?raw key (1 + length w) = map_option print_json (member_named ms key)"
      using object_loop_text [of ms "1 + length w" ?raw "[]" key] False b assms JObj by simp
    ultimately show ?thesis using JObj s by (simp add: rawObjectMember_def Let_def)
  qed
next
  case (JLit s)
  then obtain c cs where "s = c # cs" "lit_char c" using assms by (cases s) auto
  then show ?thesis using JLit lit_char_not(1) [of c] by (simp add: rawObjectMember_def plain_char_def)
qed (simp_all add: rawObjectMember_def)

section \<open>Paths\<close>

lemma extract_step_text:
  "wf_json t \<Longrightarrow> extract_step (print_json t) st = map_option print_json (json_step t st)"
  by (auto simp: extract_step_def rawArrayElem_text rawObjectMember_text json_step_def
        split: json.splits)

lemma wf_elem_at: "wf_elems es \<Longrightarrow> elem_at es n = Some u \<Longrightarrow> wf_json u"
  by (induction es arbitrary: n rule: jelems_induct) (auto split: if_splits)

lemma wf_member_named: "wf_members ms \<Longrightarrow> member_named ms key = Some u \<Longrightarrow> wf_json u"
  by (induction ms rule: jmembers_induct) (auto split: if_splits)

lemma wf_json_step: "wf_json t \<Longrightarrow> json_step t st = Some u \<Longrightarrow> wf_json u"
  by (auto simp: json_step_def wf_elem_at wf_member_named split: json.splits if_splits)

lemma extract_steps_text:
  "wf_json t \<Longrightarrow> extract_steps (print_json t) sts
     = (case json_navigate t sts of None \<Rightarrow> [] | Some u \<Rightarrow> [print_json u])"
  by (induction sts arbitrary: t) (auto simp: extract_step_text wf_json_step split: option.splits)

lemma trim_left_ws: "all_ws w \<Longrightarrow> trim_left seqs (w @ s) = trim_left seqs s"
proof (induction w)
  case (Cons c w)
  then have "space_len seqs (c # w @ s) = 1"
    by (auto simp: space_len_def all_ws_def json_ws_def ascii_space_def)
  then show ?case using Cons by (subst trim_left.simps) (simp add: all_ws_def)
qed simp

lemma TrimSpace_ws:
  assumes "all_ws w" "all_ws w'" "s \<noteq> []" "graphic (hd s)" "graphic (last s)"
  shows "TrimSpace (w @ s @ w') = s"
proof -
  have l: "trim_left utf8_space_seqs (w @ s @ w') = s @ w'"
    using assms trim_left_graphic(1) [of "s @ w'"] by (simp add: trim_left_ws)
  have "all_ws (rev w')" using assms(2) by (simp add: all_ws_def)
  then have "trim_left (map rev utf8_space_seqs) (rev w' @ rev s) = rev s"
    using assms trim_left_graphic(2) [of "rev s"] by (simp add: trim_left_ws hd_rev)
  then show ?thesis using l by (simp add: TrimSpace_def)
qed

section \<open>The text of a path\<close>

text \<open>
  The selectors of a path with their quotes: \<open>."name"\<close>, \<open>['name']\<close> or \<open>["name"]\<close>, and
  \<open>[n]\<close>. Inside the quotes the quote and the backslash are escaped.
\<close>

datatype selector = DotQuoted string | BracketQuoted char string | Subscript nat

fun escape :: "char \<Rightarrow> string \<Rightarrow> string" where
  "escape q [] = []"
| "escape q (c # cs) = (if c = q \<or> c = CHR 0x5C then [CHR 0x5C, c] else [c]) @ escape q cs"

fun print_selector :: "selector \<Rightarrow> string" where
  "print_selector (DotQuoted n) = CHR ''.'' # CHR 0x22 # escape (CHR 0x22) n @ [CHR 0x22]"
| "print_selector (BracketQuoted q n) = CHR ''['' # q # escape q n @ [q, CHR '']'']"
| "print_selector (Subscript k) = CHR ''['' # dec_nat k @ '']''"

fun wf_selector :: "selector \<Rightarrow> bool" where
  "wf_selector (DotQuoted n) = True"
| "wf_selector (BracketQuoted q n) = (q = CHR 0x22 \<or> q = CHR 0x27)"
| "wf_selector (Subscript k) = (k < 2 ^ 63)"

fun selector_step :: "selector \<Rightarrow> pathStep" where
  "selector_step (DotQuoted n) = name_step n"
| "selector_step (BracketQuoted q n) = name_step n"
| "selector_step (Subscript k) = index_step (int k)"

fun single_quoted :: "selector \<Rightarrow> bool" where
  "single_quoted (BracketQuoted q n) = (q = CHR 0x27)"
| "single_quoted _ = False"

definition print_path :: "selector list \<Rightarrow> string" where
  "print_path sels = CHR ''$'' # concat (map print_selector sels)"

lemma readQuoted_from_escape:
  assumes "drop j s = escape q n @ q # r" "q \<noteq> CHR 0x5C"
  shows "readQuoted_from s q j b = Inr (b @ n, j + length (escape q n) + 1)"
  using assms
proof (induction n arbitrary: j b)
  case Nil
  then have "j < length s" "s ! j = q" by (auto dest: drop_ConsD)
  then show ?case using assms(2) by (subst readQuoted_from.simps) simp
next
  case (Cons c n)
  show ?case
  proof (cases "c = q \<or> c = CHR 0x5C")
    case True
    then have a: "drop j s = CHR 0x5C # c # escape q n @ q # r" using Cons.prems(1) by simp
    note h = drop_ConsD [OF a] and h2 = drop_ConsD [OF drop_ConsD(3) [OF a]]
    then have "readQuoted_from s q (j + 2) (b @ [c]) = Inr ((b @ [c]) @ n, j + 2 + length (escape q n) + 1)"
      using Cons.IH [of "j + 2" "b @ [c]"] assms(2) by simp
    then show ?thesis using h h2 True by (subst readQuoted_from.simps) simp
  next
    case False
    then have a: "drop j s = c # escape q n @ q # r" using Cons.prems(1) by simp
    note h = drop_ConsD [OF a]
    then have "readQuoted_from s q (j + 1) (b @ [c]) = Inr ((b @ [c]) @ n, j + 1 + length (escape q n) + 1)"
      using Cons.IH [of "j + 1" "b @ [c]"] assms(2) by simp
    then show ?thesis using h False by (subst readQuoted_from.simps) simp
  qed
qed

lemma readQuoted_escape:
  "q \<noteq> CHR 0x5C \<Longrightarrow> readQuoted (q # escape q n @ q # r) q = Inr (n, length (escape q n) + 2)"
  using readQuoted_from_escape [of 1 "q # escape q n @ q # r" q n r "[]"] by (simp add: readQuoted_def)

lemma skip_blanks_stay: "drop i s = c # r \<Longrightarrow> c \<noteq> CHR '' '' \<Longrightarrow> skip_blanks s i = i"
  by (subst skip_blanks.simps) (auto dest: drop_ConsD)

lemma dec_nat_graphic: "graphic (hd (dec_nat k))" "graphic (last (dec_nat k))"
  by simp_all

lemma dec_nat_no_char: "\<not> is_digit c \<Longrightarrow> c \<notin> set (dec_nat k)"
  using dec_nat_digits by blast

lemma IndexByte_app: "c \<notin> set w \<Longrightarrow> IndexByte (w @ c # r) c = Some (length w)"
  unfolding IndexByte_def by (induction w) auto

lemma parse_one_print:
  assumes "drop i s = print_selector sel @ r" "wf_selector sel"
  shows "parse_one s i = Inr (selector_step sel, single_quoted sel, i + length (print_selector sel))"
proof (cases sel)
  case (DotQuoted n)
  then have a: "drop i s = CHR ''.'' # CHR 0x22 # escape (CHR 0x22) n @ CHR 0x22 # r"
    using assms(1) by simp
  note h = drop_ConsD [OF a] and h2 = drop_ConsD [OF drop_ConsD(3) [OF a]]
  show ?thesis using h h2 DotQuoted readQuoted_escape [of "CHR 0x22" n r]
    by (simp add: parse_one_def parse_dot_def)
next
  case (BracketQuoted q n)
  then have q: "q = CHR 0x22 \<or> q = CHR 0x27" using assms(2) by simp
  have a: "drop i s = CHR ''['' # q # escape q n @ q # CHR '']'' # r"
    using assms(1) BracketQuoted by simp
  note h = drop_ConsD [OF a] and h2 = drop_ConsD [OF drop_ConsD(3) [OF a]]
  have sb: "skip_blanks s (Suc i) = Suc i" using skip_blanks_stay [OF h(3)] q by auto
  have e: "drop (Suc i + (length (escape q n) + 2)) s = CHR '']'' # r"
    using drop_ConsD(3) [OF drop_appD [OF h2(3)]] by simp
  have sb2: "skip_blanks s (Suc i + (length (escape q n) + 2)) = Suc i + (length (escape q n) + 2)"
    by (rule skip_blanks_stay [OF e]) simp
  have rq: "readQuoted (drop (Suc i) s) q = Inr (n, length (escape q n) + 2)"
    using readQuoted_escape [of q n "CHR '']'' # r"] h(3) q by auto
  have q': "q = CHR 0x27 \<or> q = CHR 0x22" using q by blast
  show ?thesis using h h2 sb sb2 rq drop_ConsD [OF e] BracketQuoted q'
    by (simp add: parse_one_def parse_bracket_def Let_def)
next
  case (Subscript k)
  then have a: "drop i s = CHR ''['' # dec_nat k @ CHR '']'' # r" using assms(1) by simp
  note h = drop_ConsD [OF a]
  obtain c cs where c: "dec_nat k = c # cs" "is_digit c"
    using hd_dec_nat_digit [of k] by (cases "dec_nat k") auto
  then have ne: "c \<noteq> CHR '' ''" "c \<noteq> CHR 0x22" "c \<noteq> CHR 0x27" by (auto simp: is_digit_def)
  have sb: "skip_blanks s (Suc i) = Suc i" using skip_blanks_stay [of "Suc i" s c] h(3) c ne by simp
  have f: "s ! Suc i = c" "Suc i < length s" using h(3) c by (auto dest: drop_ConsD)
  have ib: "IndexByte (drop (Suc i) s) (CHR '']'') = Some (length (dec_nat k))"
    using h(3) by (simp add: IndexByte_app dec_nat_no_char is_digit_def)
  have tok: "TrimSpace (subslice s (Suc i) (Suc i + length (dec_nat k))) = dec_nat k"
    using subslice_app [OF h(3)] by (simp add: TrimSpace_graphic)
  have "ParseInt (dec_nat k) 64 = Inr (int k)"
    using ParseInt_digits [of "dec_nat k" 64] Subscript assms(2) by simp
  then show ?thesis using h f sb ib tok ne Subscript
    by (simp add: parse_one_def parse_bracket_def Let_def)
qed

lemma parse_loop_print:
  assumes "drop i s = concat (map print_selector sels)" "list_all wf_selector sels"
  shows "parse_loop s i p = Inr (p\<lparr>gp_steps := gp_steps p @ map selector_step sels,
           gp_usedSingleQuote := gp_usedSingleQuote p \<or> list_ex single_quoted sels\<rparr>)"
  using assms
proof (induction sels arbitrary: i p)
  case Nil
  then show ?case by (subst parse_loop.simps) simp
next
  case (Cons sel sels)
  have a: "drop i s = print_selector sel @ concat (map print_selector sels)" using Cons.prems by simp
  have "print_selector sel \<noteq> []" by (cases sel) auto
  then have "i < length s" using a by (metis append_is_Nil_conv drop_all leI)
  then show ?case using parse_one_print [OF a] Cons.IH [OF drop_appD [OF a]] Cons.prems(2)
    by (subst parse_loop.simps) simp
qed

section \<open>Properties\<close>

text \<open>
  C3. Raw JSON extraction is navigation of the document: for a well-formed document with any
  white space around and inside it, \<open>Extract\<close> of a parsed path gives exactly the text of the
  value that the steps select (the element at the index; the first member whose name, with its
  escapes decoded, is the name of the step), and nothing when a step selects nothing. The
  selected text is the untouched text of the value, so number spelling and member order stay.\<close>

theorem json_extract_navigates:
  assumes "wf_json t" "all_ws w" "all_ws w'"
  shows "Extract p (w @ print_json t @ w')
     = (case json_navigate t (gp_steps p) of None \<Rightarrow> [] | Some u \<Rightarrow> [print_json u])"
proof -
  have "TrimSpace (w @ print_json t @ w') = print_json t"
    using assms print_json_hd by (intro TrimSpace_ws) auto
  then show ?thesis using extract_steps_text [OF assms(1)] by (simp add: Extract_def)
qed

text \<open>A document for the example: \<open>{"a\\u0062" : [1, {"c":"x]"}, null ]}\<close>.\<close>

definition example_doc :: json where
  "example_doc =
     JObj [] (MCons (CHR ''a'' # CHR 0x5C # ''u0062'') '' '' '' ''
       (JArr [] (ECons (JLit ''1'') [] '' '' (ECons (JObj [] (MCons ''c'' [] [] (JStr ''x]'') [] [] MNil)) [] '' ''
          (ECons (JLit ''null'') '' '' [] ENil)))) [] [] MNil)"

theorem json_extract_navigates_witness:
  "Extract \<lparr>gp_steps = [name_step ''ab'', index_step 1, name_step ''c''], gp_usedSingleQuote = False\<rparr>
      ('' '' @ print_json example_doc @ [CHR 0x0A])
    = [[CHR 0x22] @ ''x]'' @ [CHR 0x22]]"
proof -
  note utf8 = utf8_text.simps utf8_len_def byte_in_def
  have ws: "all_ws '' ''" "all_ws []" "all_ws [CHR 0x0A]" by (simp_all add: all_ws_def json_ws_def)
  have "list_all lit_char ''1''" "list_all lit_char ''null''" by (simp_all add: lit_char_def graphic_def)
  moreover have "utf8_text (CHR ''a'' # CHR 0x5C # ''u0062'')" "utf8_text ''c''" by (simp_all add: utf8)
  ultimately have wf: "wf_json example_doc" using ws by (simp add: example_doc_def)
  have "hex4 ''0062'' = Some 98"
    by (simp_all add: hex4_def hex_digit_def is_digit_def digit_val_def)
  then have "unquote (CHR ''a'' # CHR 0x5C # ''u0062'') = Some ''ab''"
    by (simp add: unquote.simps utf8_len_def byte_in_def utf16_rune_def EncodeRune_def char_of_eq_iff)
  moreover have "unquote ''c'' = Some ''c''" by (simp add: unquote_plain utf8)
  ultimately have nav: "json_navigate example_doc [name_step ''ab'', index_step 1, name_step ''c'']
      = Some (JStr ''x]'')"
    by (simp add: example_doc_def json_step_def name_step_def index_step_def)
  show ?thesis
    using json_extract_navigates [OF wf ws(1,3), of "\<lparr>gp_steps = [name_step ''ab'', index_step 1, name_step ''c''],
      gp_usedSingleQuote = False\<rparr>"] nav by simp
qed

text \<open>
  C23. Every sequence of selectors has a text that the path parser reads back: names of any
  bytes, quoted after a dot or in brackets with either quote and with the quote and the backslash
  escaped, and subscripts of the range of \<open>int\<close>; the parser records whether a single quote was
  used.\<close>

theorem json_path_roundtrip:
  assumes "list_all wf_selector sels"
  shows "parsePath (print_path sels)
     = Inr \<lparr>gp_steps = map selector_step sels, gp_usedSingleQuote = list_ex single_quoted sels\<rparr>"
proof -
  have "print_selector sel \<noteq> []" "graphic (last (print_selector sel))" for sel
    by (cases sel, simp_all add: graphic_def)+
  then have "graphic (last (concat (map print_selector sels)))" if "sels \<noteq> []"
    using that by (cases sels rule: rev_cases) simp_all
  then have "graphic (last (print_path sels))"
    by (cases sels) (simp_all add: print_path_def graphic_def)
  then have "TrimSpace (print_path sels) = print_path sels"
    by (intro TrimSpace_graphic) (simp add: print_path_def graphic_def)
  then show ?thesis
    using parse_loop_print [of 1 "print_path sels" sels] assms by (simp add: parsePath_def print_path_def)
qed

theorem json_path_roundtrip_witness:
  "parsePath (print_path [DotQuoted ''a.b'', BracketQuoted (CHR 0x27) ''c'', Subscript 12])
    = Inr \<lparr>gp_steps = [name_step ''a.b'', name_step ''c'', index_step 12], gp_usedSingleQuote = True\<rparr>"
  using json_path_roundtrip [of "[DotQuoted ''a.b'', BracketQuoted (CHR 0x27) ''c'', Subscript 12]"]
  by simp

end
