(* ===== verification/JSON_Tree.thy ===== *)
theory JSON_Tree
  imports JSON_Path "HOL-Library.AList"
begin

text \<open>
  The functions that edit decoded JSON, \<open>src/internal/functions/json/json_mutators.go\<close> and
  \<open>json_strip_nulls.go\<close>: the path parser they share, removal, setting with creation of missing
  containers, and the stripping of nulls. A decoded document (\<open>any\<close>) is a tree; an object is an
  association list with distinct names, whose order stands for the unspecified order of a Go map.
  Decoding and encoding are done by a third-party library and are parameters.
\<close>

section \<open>Documents and paths\<close>

datatype jval =
    JNull
  | JScalar string
  | JArray "jval list"
  | JObject "(string \<times> jval) list"

record pathSegment =
  sg_name :: string
  sg_index :: int
  sg_arrayIndex :: bool

definition key_seg :: "string \<Rightarrow> pathSegment" where
  "key_seg n = \<lparr>sg_name = n, sg_index = 0, sg_arrayIndex = False\<rparr>"

definition idx_seg :: "int \<Rightarrow> pathSegment" where
  "idx_seg i = \<lparr>sg_name = [], sg_index = i, sg_arrayIndex = True\<rparr>"

datatype json_path_error =
    JPMustStartWithDollar
  | JPEmptyKey
  | JPUnterminated
  | JPBadIndex
  | JPUnexpected char

definition key_char :: "char \<Rightarrow> bool" where
  "key_char c \<longleftrightarrow> c \<noteq> CHR ''.'' \<and> c \<noteq> CHR ''[''"

function parse_segs :: "string \<Rightarrow> json_path_error + pathSegment list" where
  "parse_segs rest =
     (case rest of
        [] \<Rightarrow> Inr []
      | c # r \<Rightarrow>
          if c = CHR ''.'' then
            (if takeWhile key_char r = [] then Inl JPEmptyKey
             else bind_res (parse_segs (dropWhile key_char r))
                    (\<lambda>segs. Inr (key_seg (takeWhile key_char r) # segs)))
          else if c = CHR ''['' then
            (case IndexByte rest (CHR '']'') of
               None \<Rightarrow> Inl JPUnterminated
             | Some k \<Rightarrow>
                 (case ParseInt (subslice rest 1 k) 64 of
                    Inl _ \<Rightarrow> Inl JPBadIndex
                  | Inr i \<Rightarrow> bind_res (parse_segs (drop (k + 1) rest)) (\<lambda>segs. Inr (idx_seg i # segs))))
          else Inl (JPUnexpected c))"
  by pat_completeness auto
termination
  by (relation "measure length") (auto simp: le_imp_less_Suc length_dropWhile_le)

declare parse_segs.simps [simp del]

definition parseJSONPath :: "string \<Rightarrow> json_path_error + pathSegment list" where
  "parseJSONPath path =
     (case path of
        c # rest \<Rightarrow> if c = CHR ''$'' then parse_segs rest else Inl JPMustStartWithDollar
      | [] \<Rightarrow> Inl JPMustStartWithDollar)"

section \<open>Removal and setting\<close>

text \<open>A subscript that is inside an array.\<close>

definition in_range :: "int \<Rightarrow> 'a list \<Rightarrow> bool" where
  "in_range i xs \<longleftrightarrow> 0 \<le> i \<and> i < int (length xs)"

fun jsonRemoveAtPath :: "jval \<Rightarrow> pathSegment list \<Rightarrow> jval" where
  "jsonRemoveAtPath node [] = JNull"
| "jsonRemoveAtPath (JObject m) [seg] =
     JObject (if sg_arrayIndex seg then m else AList.delete (sg_name seg) m)"
| "jsonRemoveAtPath (JArray xs) [seg] =
     JArray (if sg_arrayIndex seg \<and> in_range (sg_index seg) xs
             then take (nat (sg_index seg)) xs @ drop (nat (sg_index seg) + 1) xs else xs)"
| "jsonRemoveAtPath node [seg] = node"
| "jsonRemoveAtPath (JObject m) (seg # segs) =
     (if sg_arrayIndex seg then JObject m
      else (case map_of m (sg_name seg) of
              None \<Rightarrow> JObject m
            | Some child \<Rightarrow> JObject (AList.update (sg_name seg) (jsonRemoveAtPath child segs) m)))"
| "jsonRemoveAtPath (JArray xs) (seg # segs) =
     (if \<not> sg_arrayIndex seg \<or> \<not> in_range (sg_index seg) xs then JArray xs
      else JArray (xs[nat (sg_index seg) := jsonRemoveAtPath (xs ! nat (sg_index seg)) segs]))"
| "jsonRemoveAtPath node (seg # segs) = node"

fun jsonBuildMissing :: "pathSegment list \<Rightarrow> jval \<Rightarrow> jval" where
  "jsonBuildMissing [] val = val"
| "jsonBuildMissing (seg # segs) val =
     (if sg_arrayIndex seg then
        (if sg_index seg < 0 then JNull
         else JArray (replicate (nat (sg_index seg)) JNull @ [jsonBuildMissing segs val]))
      else JObject [(sg_name seg, jsonBuildMissing segs val)])"

fun jsonSetAtPath :: "jval \<Rightarrow> pathSegment list \<Rightarrow> jval \<Rightarrow> bool \<Rightarrow> jval" where
  "jsonSetAtPath node [] val createIfMissing = val"
| "jsonSetAtPath (JObject m) (seg # segs) val createIfMissing =
     (if sg_arrayIndex seg then JObject m
      else (case map_of m (sg_name seg) of
              None \<Rightarrow> if \<not> createIfMissing then JObject m
                      else JObject (AList.update (sg_name seg) (jsonBuildMissing segs val) m)
            | Some child \<Rightarrow>
                JObject (AList.update (sg_name seg) (jsonSetAtPath child segs val createIfMissing) m)))"
| "jsonSetAtPath (JArray xs) (seg # segs) val createIfMissing =
     (if \<not> sg_arrayIndex seg \<or> sg_index seg < 0 then JArray xs
      else if sg_index seg < int (length xs) then
        JArray (xs[nat (sg_index seg) :=
                     jsonSetAtPath (xs ! nat (sg_index seg)) segs val createIfMissing])
      else if \<not> createIfMissing then JArray xs
      else JArray ((xs @ replicate (nat (sg_index seg) - length xs) JNull) @ [jsonBuildMissing segs val]))"
| "jsonSetAtPath JNull (seg # segs) val createIfMissing =
     (if \<not> createIfMissing then JNull else jsonBuildMissing (seg # segs) val)"
| "jsonSetAtPath (JScalar s) (seg # segs) val createIfMissing = JScalar s"

section \<open>Stripping nulls\<close>

text \<open>The stripped value and whether its parent drops it.\<close>

fun stripNulls :: "bool \<Rightarrow> bool \<Rightarrow> jval \<Rightarrow> jval \<times> bool" where
  "stripNulls includeArrays removeEmpty JNull = (JNull, True)"
| "stripNulls includeArrays removeEmpty (JObject m) =
     (let out = concat (map (\<lambda>(k, child).
                  (case stripNulls includeArrays removeEmpty child of
                     (cleaned, drp) \<Rightarrow> if drp then [] else [(k, cleaned)])) m)
      in (JObject out, removeEmpty \<and> out = []))"
| "stripNulls includeArrays removeEmpty (JArray xs) =
     (let out = concat (map (\<lambda>child.
                  (case stripNulls includeArrays removeEmpty child of
                     (cleaned, drp) \<Rightarrow>
                       if drp then
                         (if includeArrays then []
                          else if child = JNull then [JNull] else [cleaned])
                       else [cleaned])) xs)
      in (JArray out, removeEmpty \<and> includeArrays \<and> out = []))"
| "stripNulls includeArrays removeEmpty (JScalar s) = (JScalar s, False)"

definition strip_or_null :: "bool \<Rightarrow> bool \<Rightarrow> jval \<Rightarrow> jval" where
  "strip_or_null includeArrays removeEmpty node =
     (case stripNulls includeArrays removeEmpty node of
        (stripped, drp) \<Rightarrow> if drp then JNull else stripped)"

fun stripNullsAt :: "jval \<Rightarrow> pathSegment list \<Rightarrow> bool \<Rightarrow> bool \<Rightarrow> jval" where
  "stripNullsAt node [] includeArrays removeEmpty = strip_or_null includeArrays removeEmpty node"
| "stripNullsAt (JObject m) (seg # segs) includeArrays removeEmpty =
     (case map_of m (sg_name seg) of
        Some child \<Rightarrow>
          if sg_arrayIndex seg then JObject m
          else JObject (AList.update (sg_name seg)
                 (stripNullsAt child segs includeArrays removeEmpty) m)
      | None \<Rightarrow> JObject m)"
| "stripNullsAt (JArray xs) (seg # segs) includeArrays removeEmpty =
     (if sg_arrayIndex seg \<and> in_range (sg_index seg) xs
      then JArray (xs[nat (sg_index seg) :=
                        stripNullsAt (xs ! nat (sg_index seg)) segs includeArrays removeEmpty])
      else JArray xs)"
| "stripNullsAt node (seg # segs) includeArrays removeEmpty = node"

section \<open>The SQL functions\<close>

text \<open>
  The functions on JSON text. \<open>unmarshal\<close> and \<open>marshal\<close> stand for the JSON library; a document
  that does not decode is an error, and so is a path that does not parse.
\<close>

datatype 'e json_error = Undecodable 'e | BadPath json_path_error | RootPath | OddPairs

definition decode :: "(string \<Rightarrow> 'e + jval) \<Rightarrow> string \<Rightarrow> 'e json_error + jval" where
  "decode unmarshal s = (case unmarshal s of Inl e \<Rightarrow> Inl (Undecodable e) | Inr v \<Rightarrow> Inr v)"

definition json_path :: "string \<Rightarrow> 'e json_error + pathSegment list" where
  "json_path p = (case parseJSONPath p of Inl e \<Rightarrow> Inl (BadPath e) | Inr segs \<Rightarrow> Inr segs)"

fun remove_paths :: "jval \<Rightarrow> string list \<Rightarrow> 'e json_error + jval" where
  "remove_paths node [] = Inr node"
| "remove_paths node (p # ps) =
     bind_res (json_path p) (\<lambda>segs.
       if segs = [] then Inl RootPath else remove_paths (jsonRemoveAtPath node segs) ps)"

definition JSON_REMOVE ::
  "(string \<Rightarrow> 'e + jval) \<Rightarrow> (jval \<Rightarrow> string) \<Rightarrow> string \<Rightarrow> string list \<Rightarrow> 'e json_error + string" where
  "JSON_REMOVE unmarshal marshal jsonText paths =
     bind_res (decode unmarshal jsonText) (\<lambda>node.
     bind_res (remove_paths node paths) (\<lambda>node'. Inr (marshal node')))"

text \<open>The pairs of \<open>JSON_SET\<close>: a path, or a NULL path that skips its pair, and the JSON text of a value or NULL.\<close>

fun set_pairs ::
  "(string \<Rightarrow> 'e + jval) \<Rightarrow> jval \<Rightarrow> string option list \<Rightarrow> bool \<Rightarrow> 'e json_error + jval" where
  "set_pairs unmarshal node (None # v # rest) create = set_pairs unmarshal node rest create"
| "set_pairs unmarshal node (Some p # v # rest) create =
     bind_res (json_path p) (\<lambda>segs.
     bind_res (case v of None \<Rightarrow> Inr JNull | Some raw \<Rightarrow> decode unmarshal raw) (\<lambda>val.
       set_pairs unmarshal (jsonSetAtPath node segs val create) rest create))"
| "set_pairs unmarshal node rest create = Inr node"

definition JSON_SET ::
  "(string \<Rightarrow> 'e + jval) \<Rightarrow> (jval \<Rightarrow> string) \<Rightarrow> string \<Rightarrow> string option list \<Rightarrow> bool
     \<Rightarrow> 'e json_error + string" where
  "JSON_SET unmarshal marshal jsonText pairs createIfMissing =
     (if length pairs mod 2 \<noteq> 0 then Inl OddPairs
      else bind_res (decode unmarshal jsonText) (\<lambda>node.
           bind_res (set_pairs unmarshal node pairs createIfMissing) (\<lambda>node'. Inr (marshal node'))))"

definition JSON_STRIP_NULLS ::
  "(string \<Rightarrow> 'e + jval) \<Rightarrow> (jval \<Rightarrow> string) \<Rightarrow> string \<Rightarrow> string \<Rightarrow> bool \<Rightarrow> bool
     \<Rightarrow> 'e json_error + string" where
  "JSON_STRIP_NULLS unmarshal marshal v path includeArrays removeEmpty =
     bind_res (decode unmarshal v) (\<lambda>node.
       if path = [] \<or> path = ''$'' then
         (case stripNulls includeArrays removeEmpty node of
            (stripped, drp) \<Rightarrow> if drp then Inr ''null'' else Inr (marshal stripped))
       else bind_res (json_path path) (\<lambda>segs.
              Inr (marshal (stripNullsAt node segs includeArrays removeEmpty))))"

end
