(* ===== verification/JSON_Edit.thy ===== *)
theory JSON_Edit
  imports JSON_Tree
begin

text \<open>
  What the JSON editing functions promise, stated with a lookup along a path: setting makes the
  value readable at its path and leaves the paths that diverge from it alone, removal removes
  exactly one member or element, and stripping leaves a document without nulls, keeps every
  scalar and is idempotent.
\<close>

section \<open>Lookup along a path\<close>

fun jget :: "jval \<Rightarrow> pathSegment list \<Rightarrow> jval option" where
  "jget v [] = Some v"
| "jget (JObject m) (seg # segs) =
     (if sg_arrayIndex seg then None
      else case map_of m (sg_name seg) of None \<Rightarrow> None | Some c \<Rightarrow> jget c segs)"
| "jget (JArray xs) (seg # segs) =
     (if sg_arrayIndex seg \<and> in_range (sg_index seg) xs then jget (xs ! nat (sg_index seg)) segs
      else None)"
| "jget _ (seg # segs) = None"

text \<open>Subscripts are not negative; two segments of the same step; paths that part ways.\<close>

definition nonneg :: "pathSegment list \<Rightarrow> bool" where
  "nonneg segs = list_all (\<lambda>s. sg_arrayIndex s \<longrightarrow> 0 \<le> sg_index s) segs"

definition same_seg :: "pathSegment \<Rightarrow> pathSegment \<Rightarrow> bool" where
  "same_seg s t \<longleftrightarrow> sg_arrayIndex s = sg_arrayIndex t
     \<and> (if sg_arrayIndex s then sg_index s = sg_index t else sg_name s = sg_name t)"

fun diverge :: "pathSegment list \<Rightarrow> pathSegment list \<Rightarrow> bool" where
  "diverge (s # ss) (t # ts) = (if same_seg s t then diverge ss ts else True)"
| "diverge _ _ = False"

text \<open>The document has room for the path: each step meets its kind of container, a null or nothing.\<close>

fun fits :: "jval \<Rightarrow> pathSegment list \<Rightarrow> bool" where
  "fits v [] = True"
| "fits (JObject m) (seg # segs) =
     (\<not> sg_arrayIndex seg
      \<and> (case map_of m (sg_name seg) of None \<Rightarrow> True | Some c \<Rightarrow> fits c segs))"
| "fits (JArray xs) (seg # segs) =
     (sg_arrayIndex seg
      \<and> (sg_index seg < int (length xs) \<longrightarrow> fits (xs ! nat (sg_index seg)) segs))"
| "fits JNull (seg # segs) = True"
| "fits (JScalar s) (seg # segs) = False"

lemma nonneg_Cons [simp]:
  "nonneg (s # ss) \<longleftrightarrow> (sg_arrayIndex s \<longrightarrow> 0 \<le> sg_index s) \<and> nonneg ss" "nonneg []"
  by (simp_all add: nonneg_def)

section \<open>Setting\<close>

lemma jget_build: "nonneg segs \<Longrightarrow> jget (jsonBuildMissing segs val) segs = Some val"
  by (induction segs) (auto simp: in_range_def nth_append)

lemma jget_set:
  "nonneg segs \<Longrightarrow> fits v segs \<Longrightarrow> jget (jsonSetAtPath v segs val True) segs = Some val"
proof (induction v segs val True rule: jsonSetAtPath.induct)
  case (3 xs seg segs val)
  then show ?case by (auto simp: in_range_def nth_append jget_build)
next
  case (4 seg segs val)
  then show ?case using jget_build [of "seg # segs" val] by (simp del: jsonBuildMissing.simps jget.simps)
qed (auto simp: update_conv' jget_build split: option.splits)

lemma set_misfit:
  "nonneg segs \<Longrightarrow> \<not> fits v segs \<Longrightarrow> jsonSetAtPath v segs val c = v"
proof (induction v segs val c rule: jsonSetAtPath.induct)
  case (2 m seg segs val c)
  then show ?case by (auto simp: update_triv split: option.splits)
next
  case (3 xs seg segs val c)
  then show ?case by (auto simp: nat_less_iff)
qed auto

text \<open>Without creation the document changes only where the path already leads to a value.\<close>

lemma set_missing: "jget v segs = None \<Longrightarrow> jsonSetAtPath v segs val False = v"
proof (induction v segs val False rule: jsonSetAtPath.induct)
  case (2 m seg segs val)
  then show ?case by (auto simp: update_triv split: option.splits)
next
  case (3 xs seg segs val)
  then show ?case by (auto simp: in_range_def nat_less_iff)
qed auto

lemma set_existing: "jget v segs = Some old \<Longrightarrow> jget (jsonSetAtPath v segs val c) segs = Some val"
proof (induction v segs val c rule: jsonSetAtPath.induct)
  case (3 xs seg segs val c)
  then show ?case by (auto simp: in_range_def split: if_splits)
qed (auto simp: update_conv' split: option.splits if_splits)

lemma set_frame:
  "diverge segs' segs \<Longrightarrow> jget v segs' = Some x \<Longrightarrow> jget (jsonSetAtPath v segs val c) segs' = Some x"
proof (induction segs arbitrary: v segs')
  case (Cons t segs)
  obtain s ss where s: "segs' = s # ss" using Cons.prems(1) by (cases segs') auto
  have IH: "jget (jsonSetAtPath w segs val c) ss = Some x" if "diverge ss segs" "jget w ss = Some x" for w
    using Cons.IH [of ss w] that by simp
  show ?case
  proof (cases v)
    case (JObject m)
    then show ?thesis using Cons.prems s IH
      by (auto simp: same_seg_def update_conv' split: option.splits if_splits)
  next
    case (JArray xs)
    have r: "sg_arrayIndex s" "in_range (sg_index s) xs" "jget (xs ! nat (sg_index s)) ss = Some x"
      using Cons.prems(2) JArray s by (auto split: if_splits)
    show ?thesis
    proof (cases "sg_arrayIndex t \<and> sg_index t = sg_index s")
      case True
      then have "diverge ss segs" using Cons.prems(1) s r(1) by (simp add: same_seg_def)
      then show ?thesis using IH [of "xs ! nat (sg_index s)"] r JArray s True
        by (simp add: in_range_def nat_less_iff)
    next
      case False
      then have "\<not> sg_arrayIndex t \<or> sg_index t < 0 \<or> nat (sg_index t) \<noteq> nat (sg_index s)"
        using r(2) by (auto simp: in_range_def)
      then show ?thesis using r JArray s by (auto simp: in_range_def nth_append nat_less_iff)
    qed
  qed (use Cons.prems s in auto)
qed (cases segs', auto)

section \<open>Removal\<close>

text \<open>Removing one member or element of a container.\<close>

definition remove_step :: "jval \<Rightarrow> pathSegment \<Rightarrow> jval" where
  "remove_step v seg = jsonRemoveAtPath v [seg]"

lemma remove_snoc:
  "jget v segs = Some c \<Longrightarrow> jget (jsonRemoveAtPath v (segs @ [seg])) segs = Some (remove_step c seg)"
proof (induction v segs rule: jget.induct)
  case (2 m s segs)
  then show ?case
    by (cases "segs @ [seg]") (auto simp: update_conv' split: option.splits if_splits)
next
  case (3 xs s segs)
  then show ?case by (cases "segs @ [seg]") (auto simp: in_range_def split: if_splits)
qed (auto simp: remove_step_def)

lemma remove_missing: "segs \<noteq> [] \<Longrightarrow> jget v segs = None \<Longrightarrow> jsonRemoveAtPath v segs = v"
proof (induction v segs rule: jsonRemoveAtPath.induct)
  case (2 m seg)
  then show ?case by (auto simp: delete_id map_of_eq_None_iff split: option.splits if_splits)
next
  case (5 m seg seg' segs)
  then show ?case by (auto simp: update_triv split: option.splits if_splits)
next
  case (6 xs seg seg' segs)
  then show ?case by (auto simp: in_range_def nat_less_iff split: if_splits)
qed (auto split: if_splits)

lemma remove_frame:
  "diverge segs' (segs @ [key_seg k]) \<Longrightarrow> jget v segs' = Some x \<Longrightarrow>
     jget (jsonRemoveAtPath v (segs @ [key_seg k])) segs' = Some x"
proof (induction segs arbitrary: v segs')
  case Nil
  then obtain s ss where "segs' = s # ss" "\<not> same_seg s (key_seg k)" by (cases segs') (auto split: if_splits)
  then show ?case using Nil(2)
    by (cases v) (auto simp: same_seg_def key_seg_def delete_conv' split: option.splits if_splits)
next
  case (Cons t segs)
  obtain s ss where s: "segs' = s # ss" using Cons.prems(1) by (cases segs') auto
  obtain u us where u: "segs @ [key_seg k] = u # us" by (cases "segs @ [key_seg k]") auto
  have IH: "jget (jsonRemoveAtPath w (u # us)) ss = Some x" if "diverge ss (u # us)" "jget w ss = Some x" for w
    using Cons.IH [of ss w] that u by simp
  show ?case
  proof (cases v)
    case (JObject m)
    then show ?thesis using Cons.prems s u IH
      by (auto simp: same_seg_def update_conv' split: option.splits if_splits)
  next
    case (JArray xs)
    then show ?thesis using Cons.prems s u IH
      by (auto simp: same_seg_def in_range_def nth_list_update nat_eq_iff2 split: if_splits)
  qed (use Cons.prems s in auto)
qed

section \<open>Stripping\<close>

text \<open>
  A stripped document: no null member, no null element when arrays are included (otherwise an
  array may keep nulls and emptied objects), and no empty container when these are removed.
\<close>

fun stripped :: "bool \<Rightarrow> bool \<Rightarrow> jval \<Rightarrow> bool" where
  "stripped ia re JNull = False"
| "stripped ia re (JScalar s) = True"
| "stripped ia re (JObject m) =
     (list_all (\<lambda>(k, c). stripped ia re c) m \<and> (re \<longrightarrow> m \<noteq> []))"
| "stripped ia re (JArray xs) =
     (list_all (\<lambda>c. stripped ia re c \<or> \<not> ia \<and> (c = JNull \<or> c = JObject [])) xs
      \<and> (re \<and> ia \<longrightarrow> xs \<noteq> []))"

text \<open>The scalars of a document in order.\<close>

fun scalars :: "jval \<Rightarrow> string list" where
  "scalars JNull = []"
| "scalars (JScalar s) = [s]"
| "scalars (JObject m) = concat (map (\<lambda>(k, c). scalars c) m)"
| "scalars (JArray xs) = concat (map scalars xs)"

lemma strip_scalars:
  "scalars (fst (stripNulls ia re v)) = scalars v \<and> (snd (stripNulls ia re v) \<longrightarrow> scalars v = [])"
proof (induction ia re v rule: stripNulls.induct)
  case (2 ia re m)
  have IH: "scalars (fst (stripNulls ia re c)) = scalars c \<and> (snd (stripNulls ia re c) \<longrightarrow> scalars c = [])"
    if "(k, c) \<in> set m" for k c
    by (rule 2 [OF that refl])
  have *: "concat (map (\<lambda>(k, c). scalars c) (concat (map (\<lambda>(k, c). case stripNulls ia re c of
      (cl, d) \<Rightarrow> if d then [] else [(k, cl)]) ms))) = concat (map (\<lambda>(k, c). scalars c) ms)"
    if "set ms \<subseteq> set m" for ms
    using that
  proof (induction ms)
    case (Cons p ms)
    then show ?case using IH [of "fst p" "snd p"] by (cases p) (auto split: prod.splits)
  qed simp
  define out where "out = concat (map (\<lambda>(k, c). case stripNulls ia re c of
      (cl, d) \<Rightarrow> if d then [] else [(k, cl)]) m)"
  have e: "concat (map (\<lambda>(k, c). scalars c) out) = concat (map (\<lambda>(k, c). scalars c) m)"
    unfolding out_def by (rule * [OF subset_refl])
  then have "out = [] \<Longrightarrow> concat (map (\<lambda>(k, c). scalars c) m) = []" by auto
  moreover have s: "stripNulls ia re (JObject m) = (JObject out, re \<and> out = [])"
    by (simp add: out_def Let_def)
  ultimately show ?case unfolding s fst_conv snd_conv scalars.simps using e by blast
next
  case (3 ia re xs)
  have *: "concat (map scalars (concat (map (\<lambda>c. case stripNulls ia re c of (cl, d) \<Rightarrow>
      if d then (if ia then [] else if c = JNull then [JNull] else [cl]) else [cl]) cs)))
      = concat (map scalars cs)" if "set cs \<subseteq> set xs" for cs
    using that
  proof (induction cs)
    case (Cons c cs)
    then show ?case using 3 [of c] by (auto split: prod.splits)
  qed simp
  define out where "out = concat (map (\<lambda>c. case stripNulls ia re c of (cl, d) \<Rightarrow>
      if d then (if ia then [] else if c = JNull then [JNull] else [cl]) else [cl]) xs)"
  have e: "concat (map scalars out) = concat (map scalars xs)"
    unfolding out_def by (rule * [OF subset_refl])
  then have "out = [] \<Longrightarrow> concat (map scalars xs) = []" by auto
  moreover have s: "stripNulls ia re (JArray xs) = (JArray out, re \<and> ia \<and> out = [])"
    by (simp add: out_def Let_def)
  ultimately show ?case unfolding s fst_conv snd_conv scalars.simps using e by blast
qed simp_all

lemma strip_dropped: "snd (stripNulls False re v) \<Longrightarrow> v = JNull \<or> fst (stripNulls False re v) = JObject []"
  by (cases v) (auto simp: Let_def)

lemma strip_stripped: "\<not> snd (stripNulls ia re v) \<Longrightarrow> stripped ia re (fst (stripNulls ia re v))"
proof (induction ia re v rule: stripNulls.induct)
  case (2 ia re m)
  have "stripped ia re (snd q)"
    if p: "p \<in> set m" and q: "q \<in> set (case p of (k, c) \<Rightarrow> case stripNulls ia re c of (cl, d) \<Rightarrow>
      if d then [] else [(k, cl)])" for p q
  proof -
    obtain k c where k: "p = (k, c)" by (cases p)
    obtain cl d where d: "stripNulls ia re c = (cl, d)" by (cases "stripNulls ia re c")
    then have "\<not> d" "q = (k, cl)" using q k by (auto split: if_splits)
    then show ?thesis using 2(1) [OF p, of k c] k d by simp
  qed
  then show ?case using 2(2) by (fastforce simp: Let_def list_all_iff)
next
  case (3 ia re xs)
  have "stripped ia re c \<or> \<not> ia \<and> (c = JNull \<or> c = JObject [])"
    if "x \<in> set xs" "c \<in> set (case stripNulls ia re x of (cl, d) \<Rightarrow>
      if d then (if ia then [] else if x = JNull then [JNull] else [cl]) else [cl])" for x c
    using that 3(1) [of x] strip_dropped [of re x]
    by (cases "stripNulls ia re x") (auto split: if_splits)
  then show ?case using 3(2) by (auto simp: Let_def list_all_iff)
qed simp_all

lemma concat_map_single: "(\<And>x. x \<in> set xs \<Longrightarrow> f x = [x]) \<Longrightarrow> concat (map f xs) = xs"
  by (induction xs) auto

lemma strip_fixed: "stripped ia re v \<Longrightarrow> stripNulls ia re v = (v, False)"
proof (induction ia re v rule: stripped.induct)
  case (3 ia re m)
  have "concat (map (\<lambda>(k, c). case stripNulls ia re c of (cl, d) \<Rightarrow> if d then [] else [(k, cl)]) m) = m"
    using 3 by (intro concat_map_single) (auto simp: list_all_iff)
  then show ?case using "3.prems" by (simp add: Let_def)
next
  case (4 ia re xs)
  have "(case stripNulls ia re c of (cl, d) \<Rightarrow>
      if d then (if ia then [] else if c = JNull then [JNull] else [cl]) else [cl]) = [c]"
    if c: "c \<in> set xs" for c
  proof -
    consider "stripped ia re c" | "\<not> ia" "c = JNull" | "\<not> ia" "c = JObject []"
      using "4.prems" c by (simp add: list_all_iff) blast
    then show ?thesis using "4.IH" [OF c] by cases (auto simp: Let_def)
  qed
  then have "concat (map (\<lambda>c. case stripNulls ia re c of (cl, d) \<Rightarrow>
      if d then (if ia then [] else if c = JNull then [JNull] else [cl]) else [cl]) xs) = xs"
    by (rule concat_map_single)
  then show ?case using "4.prems" by (simp add: Let_def)
qed simp_all

section \<open>Properties\<close>

text \<open>
  C24. \<open>JSON_SET\<close> on a decoded document, for a path without negative subscripts. When the document
  has room for the path, the value is read back at the path afterwards; otherwise the document is
  unchanged. Every value found along a path that parts from the set path stays where it is, and
  without \<open>create_if_missing\<close> the document changes only where the path already led to a value.\<close>

theorem json_set_correct:
  assumes "nonneg segs"
  shows "(if fits v segs then jget (jsonSetAtPath v segs val True) segs = Some val
          else jsonSetAtPath v segs val True = v)
    \<and> (case jget v segs of
         None \<Rightarrow> jsonSetAtPath v segs val False = v
       | Some old \<Rightarrow> jget (jsonSetAtPath v segs val False) segs = Some val)
    \<and> (diverge segs' segs \<and> jget v segs' = Some x \<longrightarrow>
         jget (jsonSetAtPath v segs val create) segs' = Some x)"
  using assms jget_set set_misfit set_missing set_existing set_frame
  by (auto split: option.splits)

theorem json_set_correct_witness:
  "jget (jsonSetAtPath (JObject [(''a'', JScalar ''1'')]) [key_seg ''b'', idx_seg 2] (JScalar ''7'') True)
     [key_seg ''b'', idx_seg 2] = Some (JScalar ''7'')
   \<and> jget (jsonSetAtPath (JObject [(''a'', JScalar ''1'')]) [key_seg ''b'', idx_seg 2] (JScalar ''7'') True)
     [key_seg ''a''] = Some (JScalar ''1'')"
proof -
  have "nonneg [key_seg ''b'', idx_seg 2]" by (simp add: key_seg_def idx_seg_def)
  note * = json_set_correct [OF this, of "JObject [(''a'', JScalar ''1'')]" "JScalar ''7''"
      "[key_seg ''a'']" "JScalar ''1''" True]
  have "fits (JObject [(''a'', JScalar ''1'')]) [key_seg ''b'', idx_seg 2]"
    "diverge [key_seg ''a''] [key_seg ''b'', idx_seg 2]"
    "jget (JObject [(''a'', JScalar ''1'')]) [key_seg ''a''] = Some (JScalar ''1'')"
    by (simp_all add: key_seg_def same_seg_def)
  then show ?thesis using * by simp
qed

text \<open>
  C30. \<open>JSON_REMOVE\<close> on a decoded document: at a path that leads nowhere the document is unchanged;
  otherwise the container at the front of the path loses exactly the named member, or the element
  at the subscript with the later elements moved up, and removing a member leaves every value
  along a path that parts from it where it is.\<close>

theorem json_remove_correct:
  "(jget v (segs @ [seg]) = None \<longrightarrow> jsonRemoveAtPath v (segs @ [seg]) = v)
   \<and> (jget v segs = Some (JObject m) \<longrightarrow>
        jget (jsonRemoveAtPath v (segs @ [key_seg k])) segs = Some (JObject (AList.delete k m)))
   \<and> (jget v segs = Some (JArray xs) \<and> i < length xs \<longrightarrow>
        jget (jsonRemoveAtPath v (segs @ [idx_seg (int i)])) segs
          = Some (JArray (take i xs @ drop (Suc i) xs)))
   \<and> (diverge segs' (segs @ [key_seg k]) \<and> jget v segs' = Some x \<longrightarrow>
        jget (jsonRemoveAtPath v (segs @ [key_seg k])) segs' = Some x)"
proof -
  have "remove_step (JObject m) (key_seg k) = JObject (AList.delete k m)"
    by (simp add: remove_step_def key_seg_def)
  moreover have "remove_step (JArray xs) (idx_seg (int i)) = JArray (take i xs @ drop (Suc i) xs)"
    if "i < length xs"
    using that by (simp add: remove_step_def idx_seg_def in_range_def)
  ultimately show ?thesis
    using remove_missing [of "segs @ [seg]" v] remove_snoc [of v segs] remove_frame [of segs' segs k v x]
    by auto
qed

theorem json_remove_correct_witness:
  "jget (jsonRemoveAtPath (JObject [(''a'', JArray [JScalar ''1'', JNull, JScalar ''3''])])
      ([key_seg ''a''] @ [idx_seg 1])) [key_seg ''a''] = Some (JArray [JScalar ''1'', JScalar ''3''])"
proof -
  have "jget (JObject [(''a'', JArray [JScalar ''1'', JNull, JScalar ''3''])]) [key_seg ''a'']
      = Some (JArray [JScalar ''1'', JNull, JScalar ''3''])" by (simp add: key_seg_def)
  then show ?thesis
    using json_remove_correct [of "JObject [(''a'', JArray [JScalar ''1'', JNull, JScalar ''3''])]"
        "[key_seg ''a'']" "idx_seg 1" _ _ "[JScalar ''1'', JNull, JScalar ''3'']" 1]
    by simp
qed

text \<open>
  \<open>JSON_STRIP_NULLS\<close> on a decoded document: a result that is kept has no null member, no null
  element when arrays are included and no empty container when these are removed; every scalar of
  the document is in the result, in order, and a result that is dropped had none; stripping the
  result again changes nothing.\<close>

theorem strip_nulls_correct:
  assumes "stripNulls includeArrays removeEmpty v = (r, drp)"
  shows "scalars r = scalars v
    \<and> (if drp then scalars v = []
       else stripped includeArrays removeEmpty r
          \<and> stripNulls includeArrays removeEmpty r = (r, False))"
  using strip_scalars [of includeArrays removeEmpty v] strip_stripped [of includeArrays removeEmpty v]
    strip_fixed [of includeArrays removeEmpty r] assms by auto

theorem strip_nulls_correct_witness:
  "scalars (JObject [(''b'', JArray [JScalar ''1''])]) = [''1'']
   \<and> stripped True True (JObject [(''b'', JArray [JScalar ''1''])])"
proof -
  have "stripNulls True True (JObject [(''a'', JNull), (''b'', JArray [JNull, JScalar ''1'']), (''c'', JObject [])])
      = (JObject [(''b'', JArray [JScalar ''1''])], False)" by simp
  from strip_nulls_correct [OF this] show ?thesis by simp
qed

text \<open>
  The editing functions read a narrower path language than the extraction functions: a
  quoted name with a dot in it selects one member when a value is extracted, but the editing
  functions split it at the dot and keep the quotes in the names.\<close>

theorem json_quoted_path_split:
  "parsePath [CHR ''$'', CHR ''.'', CHR 0x22, CHR ''a'', CHR ''.'', CHR ''b'', CHR 0x22]
     = Inr \<lparr>gp_steps = [name_step ''a.b''], gp_usedSingleQuote = False\<rparr>
   \<and> parseJSONPath [CHR ''$'', CHR ''.'', CHR 0x22, CHR ''a'', CHR ''.'', CHR ''b'', CHR 0x22]
     = Inr [key_seg [CHR 0x22, CHR ''a''], key_seg [CHR ''b'', CHR 0x22]]"
proof
  let ?p = "[CHR ''$'', CHR ''.'', CHR 0x22, CHR ''a'', CHR ''.'', CHR ''b'', CHR 0x22]"
  have "TrimSpace ?p = ?p" by (rule TrimSpace_graphic) (simp add: graphic_def)
  moreover have "readQuoted (drop 2 ?p) (CHR 0x22) = Inr (''a.b'', 5)"
    by (simp add: readQuoted_def readQuoted_from.simps)
  ultimately show "parsePath ?p = Inr \<lparr>gp_steps = [name_step ''a.b''], gp_usedSingleQuote = False\<rparr>"
    by (simp add: parsePath_def parse_loop.simps parse_one_def parse_dot_def)
  show "parseJSONPath ?p = Inr [key_seg [CHR 0x22, CHR ''a''], key_seg [CHR ''b'', CHR 0x22]]"
    by (simp add: parseJSONPath_def parse_segs.simps key_char_def)
qed

end
