(* ===== verification/Window_Scan.thy ===== *)
theory Window_Scan
  imports Window_Native "HOL-Library.Multiset"
begin

text \<open>
  Window functions by full scan (\<open>internal/functions/window/option.go\<close> from
  \<open>WindowFuncStatus\<close> on, and the functions of \<open>funcs.go\<close> whose values are not floating point):
  for one output row the aggregate is stepped with every input row, then \<open>Done\<close> picks the
  partition of the row, sorts it, finds the frame and calls the function on the sorted values and
  the two indices of the frame. The rows carry the ORDER BY keys; an index out of range is the
  error \<open>Panic\<close>.

  A row is allocated by \<open>Step\<close> and found again by its address; the address is the number of the
  step. \<open>sort.Slice\<close> is a parameter whose contract is the locale \<open>slice_sort\<close>.
\<close>

section \<open>Options and rows\<close>

datatype frame_unit = FrameUnitUnknown | FrameUnitRows | FrameUnitRange

datatype boundary_type =
    BoundaryUnknown
  | UnboundedPreceding
  | OffsetPreceding
  | CurrentRow
  | OffsetFollowing
  | UnboundedFollowing

record window_boundary =
  wb_type :: boundary_type
  wb_offset :: int

record order_by =
  ob_value :: "val option"
  ob_isAsc :: bool

datatype scan_error =
    MismatchFrameUnit
  | MismatchBoundary
  | MismatchRowid
  | PartitionFailed value_error
  | InvalidRowid
  | CurrentIndexNotFound
  | UnsupportedBoundary
  | OrderByRequired
  | NullElement
  | RankFrame
  | ValueError value_error
  | Panic

text \<open>One step: the options of the row. A partition value is the outcome of its \<open>ToString\<close>.\<close>

record window_status =
  ws_frameUnit :: frame_unit
  ws_start :: "window_boundary option"
  ws_end :: "window_boundary option"
  ws_partitions :: "(value_error + string) list"
  ws_rowID :: int
  ws_orderBy :: "order_by list"

record ordered_value =
  ov_addr :: nat
  ov_orderBy :: "order_by list"
  ov_value :: "val option"

record agg_status =
  as_frameUnit :: frame_unit
  as_start :: "window_boundary option"
  as_end :: "window_boundary option"
  as_rowID :: int
  as_once :: bool
  as_partitionMap :: "string \<Rightarrow> ordered_value list"
  as_partitioned :: "(string \<times> ordered_value) list"
  as_values :: "ordered_value list"
  as_ignoreNulls :: bool
  as_distinct :: bool

definition newWindowFuncAggregatedStatus :: "bool \<Rightarrow> bool \<Rightarrow> agg_status" where
  "newWindowFuncAggregatedStatus ignoreNulls distinct' =
     \<lparr>as_frameUnit = FrameUnitUnknown, as_start = None, as_end = None, as_rowID = 0, as_once = False,
      as_partitionMap = (\<lambda>_. []), as_partitioned = [], as_values = [],
      as_ignoreNulls = ignoreNulls, as_distinct = distinct'\<rparr>"

text \<open>The texts of the partition values joined by underscores.\<close>

fun status_texts :: "(value_error + string) list \<Rightarrow> scan_error + string list" where
  "status_texts [] = Inr []"
| "status_texts (p # ps) =
     (case p of Inl e \<Rightarrow> Inl (PartitionFailed e)
      | Inr t \<Rightarrow> bind_res (status_texts ps) (\<lambda>ts. Inr (t # ts)))"

fun join_underscore :: "string list \<Rightarrow> string" where
  "join_underscore [] = []"
| "join_underscore [t] = t"
| "join_underscore (t # ts) = t @ ''_'' @ join_underscore ts"

definition status_Partition :: "window_status \<Rightarrow> scan_error + string" where
  "status_Partition st = bind_res (status_texts (ws_partitions st)) (\<lambda>ts. Inr (join_underscore ts))"

section \<open>Step\<close>

definition check_boundary :: "window_boundary option \<Rightarrow> window_boundary option \<Rightarrow> scan_error + unit" where
  "check_boundary mine theirs =
     (case mine of
        None \<Rightarrow> Inr ()
      | Some b \<Rightarrow> (case theirs of
                   None \<Rightarrow> Inl Panic
                 | Some b' \<Rightarrow> if wb_type b \<noteq> wb_type b' then Inl MismatchBoundary else Inr ()))"

definition status_first :: "agg_status \<Rightarrow> window_status \<Rightarrow> agg_status" where
  "status_first s st =
     (if as_once s then s
      else s\<lparr>as_frameUnit := ws_frameUnit st, as_start := ws_start st, as_end := ws_end st,
             as_rowID := ws_rowID st, as_once := True\<rparr>)"

definition agg_Step :: "agg_status \<Rightarrow> val option \<Rightarrow> window_status \<Rightarrow> scan_error + agg_status" where
  "agg_Step s0 v st =
     (let s = status_first s0 st in
      if as_frameUnit s \<noteq> ws_frameUnit st then Inl MismatchFrameUnit
      else bind_res (check_boundary (as_start s) (ws_start st)) (\<lambda>_.
           bind_res (check_boundary (as_end s) (ws_end st)) (\<lambda>_.
      if as_rowID s \<noteq> ws_rowID st then Inl MismatchRowid
      else
        let r = \<lparr>ov_addr = length (as_values s), ov_orderBy = ws_orderBy st, ov_value = v\<rparr> in
        if ws_partitions st = [] then Inr (s\<lparr>as_values := as_values s @ [r]\<rparr>)
        else bind_res (status_Partition st) (\<lambda>p.
          Inr (s\<lparr>as_partitionMap := (as_partitionMap s)(p := as_partitionMap s p @ [r]),
                 as_partitioned := as_partitioned s @ [(p, r)],
                 as_values := as_values s @ [r]\<rparr>)))))"

section \<open>The frame\<close>

text \<open>\<open>xs[i]\<close>.\<close>

definition at_index :: "'a list \<Rightarrow> int \<Rightarrow> scan_error + 'a" where
  "at_index xs i = (if 0 \<le> i \<and> i < int (length xs) then Inr (xs ! nat i) else Inl Panic)"

definition agg_Partition :: "agg_status \<Rightarrow> scan_error + string" where
  "agg_Partition s = bind_res (at_index (as_partitioned s) (as_rowID s - 1)) (\<lambda>p. Inr (fst p))"

definition FilteredValues :: "agg_status \<Rightarrow> scan_error + ordered_value list" where
  "FilteredValues s =
     (if as_partitioned s \<noteq> [] then bind_res (agg_Partition s) (\<lambda>p. Inr (as_partitionMap s p))
      else Inr (as_values s))"

text \<open>A comparison whose error is ignored.\<close>

definition holds :: "value_error + bool \<Rightarrow> bool" where
  "holds r \<longleftrightarrow> r = Inr True"

text \<open>
  The \<open>less\<close> of the sort, key by key. The direction of a key is a constant of the query, so every
  row has the one of the first row.
\<close>

fun keys_less :: "order_by list \<Rightarrow> order_by list \<Rightarrow> bool" where
  "keys_less (a # as) (b # bs) =
     (case ob_value a of
        None \<Rightarrow> True
      | Some x \<Rightarrow>
          (case ob_value b of
             None \<Rightarrow> False
           | Some y \<Rightarrow>
               if holds (EQ x y) then keys_less as bs
               else if ob_isAsc a then holds (LT x y) else holds (GT x y)))"
| "keys_less _ _ = False"

definition row_less :: "ordered_value \<Rightarrow> ordered_value \<Rightarrow> bool" where
  "row_less a b = keys_less (ov_orderBy a) (ov_orderBy b)"

type_synonym sorter = "(ordered_value \<Rightarrow> ordered_value \<Rightarrow> bool) \<Rightarrow> ordered_value list \<Rightarrow> ordered_value list"

text \<open>The current row of a state, by the row id.\<close>

definition current_row :: "agg_status \<Rightarrow> scan_error + ordered_value" where
  "current_row s =
     (if as_partitioned s \<noteq> [] then bind_res (at_index (as_partitioned s) (as_rowID s - 1)) (\<lambda>p. Inr (snd p))
      else at_index (as_values s) (as_rowID s - 1))"

fun index_of_addr :: "nat \<Rightarrow> ordered_value list \<Rightarrow> int \<Rightarrow> scan_error + int" where
  "index_of_addr a [] i = Inl CurrentIndexNotFound"
| "index_of_addr a (r # rs) i = (if ov_addr r = a then Inr i else index_of_addr a rs (i + 1))"

definition currentIndexByRows :: "agg_status \<Rightarrow> ordered_value list \<Rightarrow> scan_error + int" where
  "currentIndexByRows s sorted' = bind_res (current_row s) (\<lambda>r. index_of_addr (ov_addr r) sorted' 0)"

definition getIndexFromBoundaryByRows ::
  "agg_status \<Rightarrow> ordered_value list \<Rightarrow> window_boundary \<Rightarrow> scan_error + int" where
  "getIndexFromBoundaryByRows s sorted' b =
     (case wb_type b of
        UnboundedPreceding \<Rightarrow> Inr 0
      | CurrentRow \<Rightarrow> currentIndexByRows s sorted'
      | UnboundedFollowing \<Rightarrow> bind_res (FilteredValues s) (\<lambda>vs. Inr (int (length vs) - 1))
      | OffsetPreceding \<Rightarrow> bind_res (currentIndexByRows s sorted') (\<lambda>cur. Inr (i64 (cur - wb_offset b)))
      | OffsetFollowing \<Rightarrow> bind_res (currentIndexByRows s sorted') (\<lambda>cur. Inr (i64 (cur + wb_offset b)))
      | BoundaryUnknown \<Rightarrow> Inl UnsupportedBoundary)"

text \<open>The last ORDER BY key of a row; a NULL key makes the arithmetic and the comparisons panic.\<close>

definition currentRangeValue :: "agg_status \<Rightarrow> scan_error + val option" where
  "currentRangeValue s = bind_res (current_row s) (\<lambda>r.
     if ov_orderBy r = [] then Inl OrderByRequired else Inr (ob_value (last (ov_orderBy r))))"

definition lift_value :: "value_error + 'a \<Rightarrow> scan_error + 'a" where
  "lift_value r = (case r of Inl e \<Rightarrow> Inl (ValueError e) | Inr x \<Rightarrow> Inr x)"

definition key_test :: "(val \<Rightarrow> val \<Rightarrow> value_error + bool) \<Rightarrow> val option \<Rightarrow> val option \<Rightarrow> scan_error + bool" where
  "key_test cmp rv target =
     (case (rv, target) of (Some x, Some y) \<Rightarrow> lift_value (cmp x y) | _ \<Rightarrow> Inl Panic)"

text \<open>The scans keep the last index that passes, the first one running backwards.\<close>

fun lookup_scan ::
  "(val \<Rightarrow> val \<Rightarrow> value_error + bool) \<Rightarrow> val option \<Rightarrow> (int \<times> ordered_value) list \<Rightarrow> int \<Rightarrow> scan_error + int" where
  "lookup_scan cmp rv [] best = Inr best"
| "lookup_scan cmp rv ((idx, r) # rs) best =
     (if ov_orderBy r = [] then lookup_scan cmp rv rs best
      else bind_res (key_test cmp rv (ob_value (last (ov_orderBy r)))) (\<lambda>c.
             lookup_scan cmp rv rs (if c then idx else best)))"

definition indexed :: "ordered_value list \<Rightarrow> (int \<times> ordered_value) list" where
  "indexed xs = zip (map int [0..<length xs]) xs"

definition lookupMinIndexFromRangeValue :: "ordered_value list \<Rightarrow> val option \<Rightarrow> scan_error + int" where
  "lookupMinIndexFromRangeValue sorted' rv = lookup_scan LTE rv (rev (indexed sorted')) (- 1)"

definition lookupMaxIndexFromRangeValue :: "ordered_value list \<Rightarrow> val option \<Rightarrow> scan_error + int" where
  "lookupMaxIndexFromRangeValue sorted' rv = lookup_scan GTE rv (indexed sorted') (- 1)"

definition getIndexFromBoundaryByRange ::
  "agg_status \<Rightarrow> ordered_value list \<Rightarrow> window_boundary \<Rightarrow> scan_error + int" where
  "getIndexFromBoundaryByRange s sorted' b =
     (case wb_type b of
        UnboundedPreceding \<Rightarrow> Inr 0
      | UnboundedFollowing \<Rightarrow> bind_res (FilteredValues s) (\<lambda>vs. Inr (int (length vs) - 1))
      | CurrentRow \<Rightarrow> bind_res (currentRangeValue s) (\<lambda>v. lookupMaxIndexFromRangeValue sorted' v)
      | OffsetPreceding \<Rightarrow> bind_res (currentRangeValue s) (\<lambda>v.
          (case v of None \<Rightarrow> Inl Panic
           | Some x \<Rightarrow> bind_res (lift_value (Sub x (IntValue (wb_offset b)))) (\<lambda>sub.
               lookupMinIndexFromRangeValue sorted' (Some sub))))
      | OffsetFollowing \<Rightarrow> bind_res (currentRangeValue s) (\<lambda>v.
          (case v of None \<Rightarrow> Inl Panic
           | Some x \<Rightarrow> bind_res (lift_value (Add x (IntValue (wb_offset b)))) (\<lambda>add.
               lookupMaxIndexFromRangeValue sorted' (Some add))))
      | BoundaryUnknown \<Rightarrow> Inl UnsupportedBoundary)"

definition getIndexFromBoundary ::
  "agg_status \<Rightarrow> ordered_value list \<Rightarrow> window_boundary option \<Rightarrow> scan_error + int" where
  "getIndexFromBoundary s sorted' b =
     (case as_frameUnit s of
        FrameUnitRows \<Rightarrow> (case b of None \<Rightarrow> Inl Panic | Some b' \<Rightarrow> getIndexFromBoundaryByRows s sorted' b')
      | FrameUnitRange \<Rightarrow> (case b of None \<Rightarrow> Inl Panic | Some b' \<Rightarrow> getIndexFromBoundaryByRange s sorted' b')
      | FrameUnitUnknown \<Rightarrow> currentIndexByRows s sorted')"

text \<open>
  \<open>Done\<close>: the sorted rows and the clipped indices of the frame for the callback, or \<open>None\<close> when
  the frame lies outside the partition and the callback is not called.
\<close>

definition clip_frame :: "ordered_value list \<Rightarrow> int \<Rightarrow> int \<Rightarrow> (ordered_value list \<times> int \<times> int) option" where
  "clip_frame sorted' start end' =
     (if start \<ge> int (length sorted') \<or> end' < 0 then None
      else Some (sorted', max start 0, min end' (int (length sorted') - 1)))"

definition agg_Done :: "sorter \<Rightarrow> agg_status \<Rightarrow> scan_error + (ordered_value list \<times> int \<times> int) option" where
  "agg_Done sorter s =
     (if as_rowID s \<le> 0 then Inl InvalidRowid
      else bind_res (FilteredValues s) (\<lambda>vs.
        let sorted' = sorter row_less vs in
        bind_res (getIndexFromBoundary s sorted' (as_start s)) (\<lambda>start.
        bind_res (getIndexFromBoundary s sorted' (as_end s)) (\<lambda>end'.
          Inr (clip_frame sorted' start end')))))"

section \<open>The functions\<close>

text \<open>The values \<open>values[start : end+1]\<close> of the frame; a start past the end is a slice error.\<close>

definition frame_slice :: "ordered_value list \<Rightarrow> int \<Rightarrow> int \<Rightarrow> scan_error + val option list" where
  "frame_slice sorted' start end' =
     (if start \<le> end' + 1
      then Inr (map ov_value (take (nat (end' + 1) - nat start) (drop (nat start) sorted')))
      else Inl Panic)"

text \<open>The result of a function: \<open>z\<close> when the callback is not called, otherwise what it computes.\<close>

definition with_rows ::
  "sorter \<Rightarrow> agg_status \<Rightarrow> 'a \<Rightarrow> (ordered_value list \<Rightarrow> int \<Rightarrow> int \<Rightarrow> scan_error + 'a) \<Rightarrow> scan_error + 'a" where
  "with_rows sorter s z cb = bind_res (agg_Done sorter s) (\<lambda>r.
     (case r of None \<Rightarrow> Inr z | Some (sorted', start, end') \<Rightarrow> cb sorted' start end'))"

definition with_frame ::
  "sorter \<Rightarrow> agg_status \<Rightarrow> 'a \<Rightarrow> (val option list \<Rightarrow> scan_error + 'a) \<Rightarrow> scan_error + 'a" where
  "with_frame sorter s z cb =
     with_rows sorter s z (\<lambda>sorted' start end'. bind_res (frame_slice sorted' start end') cb)"

text \<open>
  The loop of the aggregates over the non-NULL values of the frame, each value once per key when
  DISTINCT is set; \<open>key\<close> is \<open>DistinctKey\<close>.
\<close>

fun scan_loop ::
  "(val \<Rightarrow> value_error + string) \<Rightarrow> bool \<Rightarrow> ('a \<Rightarrow> val \<Rightarrow> value_error + 'a)
     \<Rightarrow> val option list \<Rightarrow> string set \<Rightarrow> 'a \<Rightarrow> value_error + 'a" where
  "scan_loop key distinct' f [] seen acc = Inr acc"
| "scan_loop key distinct' f (None # vs) seen acc = scan_loop key distinct' f vs seen acc"
| "scan_loop key distinct' f (Some v # vs) seen acc =
     (if distinct' then
        bind_res (key v) (\<lambda>k.
          if k \<in> seen then scan_loop key distinct' f vs seen acc
          else bind_res (f acc v) (\<lambda>acc'. scan_loop key distinct' f vs (insert k seen) acc'))
      else bind_res (f acc v) (\<lambda>acc'. scan_loop key distinct' f vs seen acc'))"

definition WINDOW_ANY_VALUE :: "sorter \<Rightarrow> agg_status \<Rightarrow> scan_error + val option" where
  "WINDOW_ANY_VALUE sorter s = with_rows sorter s None (\<lambda>sorted' start end'.
     if sorted' = [] then Inr None else bind_res (at_index sorted' start) (\<lambda>r. Inr (ov_value r)))"

definition WINDOW_ARRAY_AGG_Step :: "agg_status \<Rightarrow> val option \<Rightarrow> window_status \<Rightarrow> scan_error + agg_status" where
  "WINDOW_ARRAY_AGG_Step s v st = (if v = None then Inl NullElement else agg_Step s v st)"

definition WINDOW_ARRAY_AGG ::
  "(val \<Rightarrow> value_error + string) \<Rightarrow> sorter \<Rightarrow> agg_status \<Rightarrow> scan_error + val option list" where
  "WINDOW_ARRAY_AGG key sorter s = with_rows sorter s [] (\<lambda>sorted' start end'.
     if sorted' = [] then Inr []
     else bind_res (frame_slice sorted' start end') (\<lambda>vs.
       lift_value (arrayAgg_loop key (as_distinct s) (as_ignoreNulls s) vs {})))"

definition WINDOW_COUNT :: "(val \<Rightarrow> value_error + string) \<Rightarrow> sorter \<Rightarrow> agg_status \<Rightarrow> scan_error + int" where
  "WINDOW_COUNT key sorter s = with_frame sorter s 0 (\<lambda>vs.
     lift_value (scan_loop key (as_distinct s) (\<lambda>n v. Inr (n + 1)) vs {} 0))"

definition WINDOW_COUNT_STAR_Step :: "agg_status \<Rightarrow> window_status \<Rightarrow> scan_error + agg_status" where
  "WINDOW_COUNT_STAR_Step s st = agg_Step s (Some (IntValue 1)) st"

definition WINDOW_COUNT_STAR :: "sorter \<Rightarrow> agg_status \<Rightarrow> scan_error + int" where
  "WINDOW_COUNT_STAR sorter s = with_frame sorter s 0 (\<lambda>vs. Inr (int (length vs)))"

definition no_key :: "val \<Rightarrow> value_error + string" where
  "no_key v = Inr []"

definition WINDOW_COUNTIF :: "sorter \<Rightarrow> agg_status \<Rightarrow> scan_error + int" where
  "WINDOW_COUNTIF sorter s = with_frame sorter s 0 (\<lambda>vs.
     lift_value (scan_loop no_key False
       (\<lambda>n v. bind_res (ToBool v) (\<lambda>c. Inr (if c then n + 1 else n))) vs {} 0))"

definition WINDOW_LOGICAL_OR :: "sorter \<Rightarrow> agg_status \<Rightarrow> scan_error + val option" where
  "WINDOW_LOGICAL_OR sorter s = bind_res (with_frame sorter s (False, False) (\<lambda>vs.
     lift_value (scan_loop no_key False
       (\<lambda>(seen, result) v. bind_res (ToBool v) (\<lambda>b. Inr (True, result \<or> b))) vs {} (False, False))))
     (\<lambda>(seen, result). Inr (if seen then Some (BoolValue result) else None))"

definition WINDOW_LOGICAL_AND :: "sorter \<Rightarrow> agg_status \<Rightarrow> scan_error + val option" where
  "WINDOW_LOGICAL_AND sorter s = bind_res (with_frame sorter s (False, True) (\<lambda>vs.
     lift_value (scan_loop no_key False
       (\<lambda>(seen, result) v. bind_res (ToBool v) (\<lambda>b. Inr (True, result \<and> b))) vs {} (False, True))))
     (\<lambda>(seen, result). Inr (if seen then Some (BoolValue result) else None))"

text \<open>Keep the first value, then replace it when the comparison with the kept one holds.\<close>

definition keep_best :: "(val \<Rightarrow> val \<Rightarrow> value_error + bool) \<Rightarrow> val option \<Rightarrow> val \<Rightarrow> value_error + val option" where
  "keep_best cmp acc v =
     (case acc of None \<Rightarrow> Inr (Some v) | Some m \<Rightarrow> bind_res (cmp v m) (\<lambda>c. Inr (Some (if c then v else m))))"

definition WINDOW_MAX :: "sorter \<Rightarrow> agg_status \<Rightarrow> scan_error + val option" where
  "WINDOW_MAX sorter s = with_frame sorter s None (\<lambda>vs.
     lift_value (scan_loop no_key False (keep_best GT) vs {} None))"

definition WINDOW_MIN :: "sorter \<Rightarrow> agg_status \<Rightarrow> scan_error + val option" where
  "WINDOW_MIN sorter s = with_frame sorter s None (\<lambda>vs.
     lift_value (scan_loop no_key False (keep_best LT) vs {} None))"

definition add_to :: "val option \<Rightarrow> val \<Rightarrow> value_error + val option" where
  "add_to acc v = (case acc of None \<Rightarrow> Inr (Some v) | Some m \<Rightarrow> bind_res (Add m v) (\<lambda>r. Inr (Some r)))"

definition WINDOW_SUM :: "(val \<Rightarrow> value_error + string) \<Rightarrow> sorter \<Rightarrow> agg_status \<Rightarrow> scan_error + val option" where
  "WINDOW_SUM key sorter s = with_frame sorter s None (\<lambda>vs.
     lift_value (scan_loop key (as_distinct s) add_to vs {} None))"

text \<open>The values of the frame, without NULLs under IGNORE NULLS.\<close>

definition filtered :: "agg_status \<Rightarrow> val option list \<Rightarrow> val option list" where
  "filtered s vs = filter (\<lambda>v. \<not> (as_ignoreNulls s \<and> v = None)) vs"

definition navigate_frame ::
  "sorter \<Rightarrow> agg_status \<Rightarrow> (val option list \<Rightarrow> scan_error + val option) \<Rightarrow> scan_error + val option" where
  "navigate_frame sorter s pick = with_rows sorter s None (\<lambda>sorted' start end'.
     if sorted' = [] then Inr None
     else bind_res (frame_slice sorted' start end') (\<lambda>vs.
       if filtered s vs = [] then Inr None else pick (filtered s vs)))"

definition WINDOW_FIRST_VALUE :: "sorter \<Rightarrow> agg_status \<Rightarrow> scan_error + val option" where
  "WINDOW_FIRST_VALUE sorter s = navigate_frame sorter s (\<lambda>vs. at_index vs 0)"

definition WINDOW_LAST_VALUE :: "sorter \<Rightarrow> agg_status \<Rightarrow> scan_error + val option" where
  "WINDOW_LAST_VALUE sorter s = navigate_frame sorter s (\<lambda>vs. at_index vs (int (length vs) - 1))"

definition WINDOW_NTH_VALUE :: "int \<Rightarrow> sorter \<Rightarrow> agg_status \<Rightarrow> scan_error + val option" where
  "WINDOW_NTH_VALUE num sorter s = navigate_frame sorter s (\<lambda>vs.
     if 0 \<le> num \<and> num < int (length vs) then at_index vs (num - 1) else Inr None)"

definition WINDOW_LEAD :: "int \<Rightarrow> val option \<Rightarrow> sorter \<Rightarrow> agg_status \<Rightarrow> scan_error + val option" where
  "WINDOW_LEAD offset defaultValue sorter s = bind_res (with_rows sorter s None (\<lambda>sorted' start end'.
     if sorted' = [] \<or> i64 (start + offset) \<ge> int (length sorted') then Inr None
     else bind_res (at_index sorted' (i64 (start + offset))) (\<lambda>r. Inr (ov_value r))))
     (\<lambda>v. Inr (if v = None then defaultValue else v))"

definition WINDOW_LAG :: "int \<Rightarrow> val option \<Rightarrow> sorter \<Rightarrow> agg_status \<Rightarrow> scan_error + val option" where
  "WINDOW_LAG offset defaultValue sorter s = bind_res (with_rows sorter s None (\<lambda>sorted' start end'.
     if sorted' = [] \<or> i64 (start - offset) < 0 then Inr None
     else bind_res (at_index sorted' (i64 (start - offset))) (\<lambda>r. Inr (ov_value r))))
     (\<lambda>v. Inr (if v = None then defaultValue else v))"

text \<open>The last ORDER BY key of every sorted row, with the direction of the first.\<close>

fun last_keys :: "ordered_value list \<Rightarrow> scan_error + order_by list" where
  "last_keys [] = Inr []"
| "last_keys (r # rs) =
     (if ov_orderBy r = [] then Inl Panic
      else bind_res (last_keys rs) (\<lambda>ks. Inr (last (ov_orderBy r) # ks)))"

definition key_int :: "order_by \<Rightarrow> scan_error + int" where
  "key_int k = (case ob_value k of None \<Rightarrow> Inl Panic | Some v \<Rightarrow> lift_value (ToInt64 v))"

text \<open>The ranking loops: \<open>maxValue\<close> starts at 0 ascending and at the largest INT64 descending.\<close>

definition rank_start :: "bool \<Rightarrow> int" where
  "rank_start isAsc = (if isAsc then 0 else 2 ^ 63 - 1)"

fun rank_loop :: "bool \<Rightarrow> order_by list \<Rightarrow> int \<Rightarrow> int \<Rightarrow> int \<Rightarrow> scan_error + int" where
  "rank_loop isAsc [] rank sameRankNum maxValue = Inr rank"
| "rank_loop isAsc (k # ks) rank sameRankNum maxValue =
     bind_res (key_int k) (\<lambda>cur.
       if (if isAsc then maxValue < cur else maxValue > cur)
       then rank_loop isAsc ks (rank + sameRankNum) 1 cur
       else rank_loop isAsc ks rank (sameRankNum + 1) maxValue)"

fun dense_rank_loop :: "bool \<Rightarrow> order_by list \<Rightarrow> int \<Rightarrow> int \<Rightarrow> scan_error + int" where
  "dense_rank_loop isAsc [] rank maxValue = Inr rank"
| "dense_rank_loop isAsc (k # ks) rank maxValue =
     bind_res (key_int k) (\<lambda>cur.
       if (if isAsc then maxValue < cur else maxValue > cur)
       then dense_rank_loop isAsc ks (rank + 1) cur
       else dense_rank_loop isAsc ks rank maxValue)"

definition ranking ::
  "sorter \<Rightarrow> agg_status \<Rightarrow> (bool \<Rightarrow> order_by list \<Rightarrow> scan_error + int) \<Rightarrow> scan_error + int option" where
  "ranking sorter s loop = with_rows sorter s None (\<lambda>sorted' start end'.
     bind_res (last_keys sorted') (\<lambda>ks.
       if start \<ge> int (length ks) \<or> end' < 0 \<or> ks = [] then Inr None
       else if start \<noteq> end' then Inl RankFrame
       else bind_res (loop (ob_isAsc (hd ks)) (take (nat start + 1) ks)) (\<lambda>n. Inr (Some n))))"

definition WINDOW_RANK :: "sorter \<Rightarrow> agg_status \<Rightarrow> scan_error + int option" where
  "WINDOW_RANK sorter s = ranking sorter s (\<lambda>isAsc ks. rank_loop isAsc ks 0 1 (rank_start isAsc))"

definition WINDOW_DENSE_RANK :: "sorter \<Rightarrow> agg_status \<Rightarrow> scan_error + int option" where
  "WINDOW_DENSE_RANK sorter s = ranking sorter s (\<lambda>isAsc ks. dense_rank_loop isAsc ks 0 (rank_start isAsc))"

text \<open>The bucket numbers of NTILE: the first \<open>dupCount\<close> numbers appear twice.\<close>

fun ntile_numbers :: "nat \<Rightarrow> nat \<Rightarrow> int \<Rightarrow> int list" where
  "ntile_numbers i 0 dupCount = []"
| "ntile_numbers i (Suc n) dupCount =
     (if dupCount > 0 then int (i + 1) # int (i + 1) # ntile_numbers (i + 1) n (dupCount - 1)
      else int (i + 1) # ntile_numbers (i + 1) n dupCount)"

definition WINDOW_NTILE :: "int \<Rightarrow> sorter \<Rightarrow> agg_status \<Rightarrow> scan_error + int" where
  "WINDOW_NTILE num sorter s = with_rows sorter s 0 (\<lambda>sorted' start end'.
     if sorted' = [] then Inr 0
     else if num = 0 then Inl Panic
     else let len = int (length sorted');
              dupCount = len sdiv num - 1 + (if len smod num > 0 then 1 else 0)
          in at_index (ntile_numbers 0 (length sorted') dupCount) start)"

definition WINDOW_ROW_NUMBER :: "sorter \<Rightarrow> agg_status \<Rightarrow> scan_error + int option" where
  "WINDOW_ROW_NUMBER sorter s = with_rows sorter s None (\<lambda>sorted' start end'. Inr (Some (start + 1)))"

end
