(* ===== verification/Go_Sort.thy ===== *)
theory Go_Sort
  imports Main "HOL-Library.Multiset"
begin

text \<open>
  \<open>sort.Slice\<close> of the Go library. It permutes the slice and is not stable; the contract is the locale
  \<open>slice_sort\<close>, interpreted for the insertion sort that the library uses for short slices.
\<close>

section \<open>The contract of sort.Slice\<close>

definition strict_weak :: "('a \<Rightarrow> 'a \<Rightarrow> bool) \<Rightarrow> 'a set \<Rightarrow> bool" where
  "strict_weak lt A \<longleftrightarrow>
     (\<forall>x \<in> A. \<not> lt x x)
     \<and> (\<forall>x \<in> A. \<forall>y \<in> A. \<forall>z \<in> A. lt x y \<and> lt y z \<longrightarrow> lt x z)
     \<and> (\<forall>x \<in> A. \<forall>y \<in> A. \<forall>z \<in> A. \<not> lt x y \<and> \<not> lt y z \<longrightarrow> \<not> lt x z)"

text \<open>The slice is permuted; when \<open>less\<close> is a strict weak order no element is less than an earlier one.\<close>

locale slice_sort =
  fixes sorter :: "('a \<Rightarrow> 'a \<Rightarrow> bool) \<Rightarrow> 'a list \<Rightarrow> 'a list"
  assumes sorter_mset: "mset (sorter lt xs) = mset xs"
    and sorter_ordered: "strict_weak lt (set xs) \<Longrightarrow> sorted_wrt (\<lambda>a b. \<not> lt b a) (sorter lt xs)"
begin

lemma set_sorter [simp]: "set (sorter lt xs) = set xs"
  by (metis set_mset_mset sorter_mset)

lemma length_sorter [simp]: "length (sorter lt xs) = length xs"
  by (metis size_mset sorter_mset)

lemma distinct_sorter: "distinct (map f xs) \<Longrightarrow> distinct (map f (sorter lt xs))"
  using mset_eq_imp_distinct_iff [of "map f xs" "map f (sorter lt xs)"] by (simp add: sorter_mset)

end

text \<open>The insertion sort that the library uses for short slices: each element moves down past greater ones.\<close>

fun insert_down :: "('a \<Rightarrow> 'a \<Rightarrow> bool) \<Rightarrow> 'a \<Rightarrow> 'a list \<Rightarrow> 'a list" where
  "insert_down lt x [] = [x]"
| "insert_down lt x (y # ys) = (if lt x y then y # insert_down lt x ys else x # y # ys)"

text \<open>The sorted prefix is kept reversed, the element next to the new one first.\<close>

definition insertionSort :: "('a \<Rightarrow> 'a \<Rightarrow> bool) \<Rightarrow> 'a list \<Rightarrow> 'a list" where
  "insertionSort lt xs = rev (fold (insert_down lt) xs [])"

lemma mset_insert_down: "mset (insert_down lt x ys) = add_mset x (mset ys)"
  by (induction ys) auto

lemma mset_fold_insert: "mset (fold (insert_down lt) xs ys) = mset xs + mset ys"
  by (induction xs arbitrary: ys) (auto simp: mset_insert_down)

lemma set_insert_down [simp]: "set (insert_down lt x ys) = insert x (set ys)"
  by (induction ys) auto

lemma sorted_insert_down:
  assumes "strict_weak lt A" "insert x (set ys) \<subseteq> A" "sorted_wrt (\<lambda>a b. \<not> lt a b) ys"
  shows "sorted_wrt (\<lambda>a b. \<not> lt a b) (insert_down lt x ys)"
  using assms(2,3)
proof (induction ys)
  case (Cons y ys)
  show ?case
  proof (cases "lt x y")
    case True
    then have "\<not> lt y x" using assms(1) Cons.prems(1) unfolding strict_weak_def by (metis insert_subset list.simps(15))
    then show ?thesis using True Cons by auto
  next
    case False
    have "\<not> lt x z" if "z \<in> set ys" for z
      using assms(1) Cons.prems that False unfolding strict_weak_def by (metis insert_subset list.simps(15) sorted_wrt.simps(2) subsetD)
    then show ?thesis using False Cons.prems by auto
  qed
qed simp

lemma sorted_fold_insert:
  assumes "strict_weak lt A" "set xs \<union> set ys \<subseteq> A" "sorted_wrt (\<lambda>a b. \<not> lt a b) ys"
  shows "sorted_wrt (\<lambda>a b. \<not> lt a b) (fold (insert_down lt) xs ys)"
  using assms(2,3)
proof (induction xs arbitrary: ys)
  case (Cons x xs)
  then show ?case using sorted_insert_down [OF assms(1), of x ys] by simp
qed simp

interpretation short_slice: slice_sort insertionSort
proof
  show "mset (insertionSort lt xs) = mset xs" for lt and xs :: "'a list"
    by (simp add: insertionSort_def mset_fold_insert)
  show "sorted_wrt (\<lambda>a b. \<not> lt b a) (insertionSort lt xs)" if "strict_weak lt (set xs)"
    for lt and xs :: "'a list"
    using sorted_fold_insert [OF that, of xs "[]"] by (simp add: insertionSort_def sorted_wrt_rev)
qed

end
