(* ===== verification/Window_Emulation.thy ===== *)
theory Window_Emulation
  imports Window_Scan Go_Sort "HOL-Library.List_Lexorder"
begin

text \<open>
  What the full scan computes. The state after the steps of all input rows holds the rows in
  order and each partition's rows; with the contract of \<open>sort.Slice\<close> the values that \<open>Done\<close> hands
  to the function are those of the input rows at the positions of the frame, ROW_NUMBER numbers every partition without gaps, and the ranking loops count
  smaller keys as long as the keys are positive.
\<close>

section \<open>The rows of a scan\<close>

fun run_steps :: "agg_status \<Rightarrow> (val option \<times> window_status) list \<Rightarrow> scan_error + agg_status" where
  "run_steps s [] = Inr s"
| "run_steps s ((v, st) # rows) = bind_res (agg_Step s v st) (\<lambda>s'. run_steps s' rows)"

text \<open>PARTITION BY belongs to the query: every row has partition values or none has.\<close>

definition uniform :: "(val option \<times> window_status) list \<Rightarrow> bool" where
  "uniform rows \<longleftrightarrow> (\<forall>r \<in> set rows. \<forall>r' \<in> set rows.
     (ws_partitions (snd r) = []) = (ws_partitions (snd r') = []))"

definition scan_inv :: "agg_status \<Rightarrow> bool" where
  "scan_inv s \<longleftrightarrow>
     map ov_addr (as_values s) = [0..<length (as_values s)]
     \<and> (as_partitioned s = [] \<or> map snd (as_partitioned s) = as_values s)
     \<and> (\<forall>p. as_partitionMap s p = map snd (filter (\<lambda>q. fst q = p) (as_partitioned s)))"

lemma scan_inv_new: "scan_inv (newWindowFuncAggregatedStatus ig di)"
  by (simp add: scan_inv_def newWindowFuncAggregatedStatus_def)

lemma agg_Step_parts:
  assumes "agg_Step s v st = Inr s'"
  shows "\<exists>r. ov_addr r = length (as_values s) \<and> ov_value r = v \<and> ov_orderBy r = ws_orderBy st
     \<and> as_values s' = as_values s @ [r] \<and> as_rowID s' = ws_rowID st
     \<and> (if ws_partitions st = [] then as_partitioned s' = as_partitioned s \<and> as_partitionMap s' = as_partitionMap s
        else \<exists>p. status_Partition st = Inr p \<and> as_partitioned s' = as_partitioned s @ [(p, r)]
           \<and> as_partitionMap s' = (as_partitionMap s)(p := as_partitionMap s p @ [r]))"
  using assms
  by (auto simp: agg_Step_def Let_def bind_res_Inr_iff status_first_def split: if_splits)

lemma scan_inv_Step:
  assumes "scan_inv s" "agg_Step s v st = Inr s'" "as_values s = [] \<or> (as_partitioned s = [] \<longleftrightarrow> ws_partitions st = [])"
  shows "scan_inv s' \<and> as_values s' \<noteq> [] \<and> (as_partitioned s' = [] \<longleftrightarrow> ws_partitions st = [])"
proof -
  obtain r where r: "ov_addr r = length (as_values s)" "as_values s' = as_values s @ [r]"
    "if ws_partitions st = [] then as_partitioned s' = as_partitioned s \<and> as_partitionMap s' = as_partitionMap s
     else \<exists>p. status_Partition st = Inr p \<and> as_partitioned s' = as_partitioned s @ [(p, r)]
           \<and> as_partitionMap s' = (as_partitionMap s)(p := as_partitionMap s p @ [r])"
    using agg_Step_parts [OF assms(2)] by blast
  have "as_partitioned s = []" if "as_values s = []"
    using assms(1) that by (auto simp: scan_inv_def)
  then show ?thesis using assms(1,3) r by (auto simp: scan_inv_def split: if_splits)
qed

lemma run_steps_inv:
  assumes "run_steps s rows = Inr s'" "scan_inv s" "uniform rows"
    "as_values s = [] \<or> rows = [] \<or> (as_partitioned s = [] \<longleftrightarrow> ws_partitions (snd (hd rows)) = [])"
  shows "scan_inv s' \<and> length (as_values s') = length (as_values s) + length rows
     \<and> (rows \<noteq> [] \<longrightarrow> as_rowID s' = ws_rowID (snd (last rows)))"
  using assms
proof (induction rows arbitrary: s)
  case (Cons row rows)
  obtain v st where row: "row = (v, st)" by (cases row)
  then obtain s1 where s1: "agg_Step s v st = Inr s1" "run_steps s1 rows = Inr s'"
    using Cons.prems(1) by (auto simp: bind_res_Inr_iff)
  have p: "as_values s = [] \<or> (as_partitioned s = [] \<longleftrightarrow> ws_partitions st = [])"
    using Cons.prems(4) row by simp
  then have i1: "scan_inv s1" "as_partitioned s1 = [] \<longleftrightarrow> ws_partitions st = []"
    using scan_inv_Step [OF Cons.prems(2) s1(1) p] by blast+
  obtain r where "as_values s1 = as_values s @ [r]" "as_rowID s1 = ws_rowID st"
    using agg_Step_parts [OF s1(1)] by blast
  then have len: "length (as_values s1) = Suc (length (as_values s))" "as_rowID s1 = ws_rowID st"
    by simp_all
  have u: "uniform rows" using Cons.prems(3) unfolding uniform_def by (meson list.set_intros(2))
  have h: "rows = [] \<or> (as_partitioned s1 = []) = (ws_partitions (snd (hd rows)) = [])"
  proof (cases rows)
    case (Cons row2 rows2)
    have "(ws_partitions (snd row) = []) = (ws_partitions (snd (hd rows)) = [])"
      by (rule Cons.prems(3) [unfolded uniform_def, rule_format]) (simp_all add: Cons)
    then show ?thesis using row i1(2) by simp
  qed simp
  have "scan_inv s'" "length (as_values s') = Suc (length (as_values s)) + length rows"
    "rows \<noteq> [] \<longrightarrow> as_rowID s' = ws_rowID (snd (last rows))"
    using Cons.IH [OF s1(2) i1(1) u disjI2 [OF h]] unfolding len(1) by blast+
  then show ?case using len(2) s1(2) row by (cases rows) simp_all
qed simp

section \<open>The frame of a row\<close>

text \<open>The rows of the partition of the row at a position.\<close>

definition partition_rows :: "agg_status \<Rightarrow> nat \<Rightarrow> ordered_value list" where
  "partition_rows s i =
     (if as_partitioned s = [] then as_values s
      else map snd (filter (\<lambda>q. fst q = fst (as_partitioned s ! i)) (as_partitioned s)))"

text \<open>The index of a ROWS boundary for a current row at \<open>cur\<close> of \<open>n\<close> sorted rows.\<close>

fun rows_index :: "window_boundary \<Rightarrow> int \<Rightarrow> nat \<Rightarrow> int" where
  "rows_index b cur n =
     (case wb_type b of
        UnboundedPreceding \<Rightarrow> 0
      | CurrentRow \<Rightarrow> cur
      | UnboundedFollowing \<Rightarrow> int n - 1
      | OffsetPreceding \<Rightarrow> i64 (cur - wb_offset b)
      | OffsetFollowing \<Rightarrow> i64 (cur + wb_offset b)
      | BoundaryUnknown \<Rightarrow> 0)"

lemma FilteredValues_inv:
  assumes "scan_inv s" "as_rowID s = int i + 1" "i < length (as_values s)"
  shows "FilteredValues s = Inr (partition_rows s i)"
    and "current_row s = Inr (as_values s ! i)"
    and "as_values s ! i \<in> set (partition_rows s i)"
proof -
  have len: "as_partitioned s = [] \<or> length (as_partitioned s) = length (as_values s)"
    using assms(1) by (auto simp: scan_inv_def dest: arg_cong [where f = length])
  then show "FilteredValues s = Inr (partition_rows s i)"
    using assms by (auto simp: FilteredValues_def agg_Partition_def at_index_def partition_rows_def scan_inv_def)
  have snd: "snd (as_partitioned s ! i) = as_values s ! i" if "as_partitioned s \<noteq> []"
    using assms(1,3) that len by (metis nth_map scan_inv_def)
  then show "current_row s = Inr (as_values s ! i)"
    using assms len by (auto simp: current_row_def at_index_def)
  show "as_values s ! i \<in> set (partition_rows s i)"
  proof (cases "as_partitioned s = []")
    case False
    then have "as_partitioned s ! i \<in> set (as_partitioned s)" using len assms(3) by auto
    then show ?thesis using False snd by (force simp: partition_rows_def)
  qed (use assms(3) in \<open>simp add: partition_rows_def\<close>)
qed

lemma distinct_addr:
  assumes "scan_inv s"
  shows "distinct (map ov_addr (as_values s))" "distinct (map ov_addr (partition_rows s i))"
proof -
  show d: "distinct (map ov_addr (as_values s))" using assms by (simp add: scan_inv_def)
  show "distinct (map ov_addr (partition_rows s i))"
  proof (cases "as_partitioned s = []")
    case False
    then have "map snd (as_partitioned s) = as_values s" using assms by (simp add: scan_inv_def)
    then have "distinct (map (ov_addr \<circ> snd) (as_partitioned s))" using d by (metis map_map)
    then show ?thesis using False by (simp add: partition_rows_def distinct_map_filter)
  qed (use d in \<open>simp add: partition_rows_def\<close>)
qed

lemma index_of_addr_nth:
  assumes "distinct (map ov_addr xs)" "j < length xs"
  shows "index_of_addr (ov_addr (xs ! j)) xs i = Inr (i + int j)"
  using assms
proof (induction xs arbitrary: i j)
  case (Cons x xs)
  show ?case
  proof (cases j)
    case (Suc k)
    then have "ov_addr x \<noteq> ov_addr (xs ! k)" using Cons.prems by auto
    then show ?thesis using Cons.IH [of k "i + 1"] Cons.prems Suc by simp
  qed simp
qed simp

text \<open>Sorting the rows of a partition.\<close>

locale row_sort = slice_sort sorter for sorter :: sorter
begin

lemma current_index:
  assumes "scan_inv s" "as_rowID s = int i + 1" "i < length (as_values s)"
    "sorter row_less (partition_rows s i) ! j = as_values s ! i" "j < length (partition_rows s i)"
  shows "currentIndexByRows s (sorter row_less (partition_rows s i)) = Inr (int j)"
proof -
  let ?o = "sorter row_less (partition_rows s i)"
  have "index_of_addr (ov_addr (?o ! j)) ?o 0 = Inr (0 + int j)"
    using distinct_sorter [OF distinct_addr(2) [OF assms(1)]] assms(5) by (intro index_of_addr_nth) auto
  then show ?thesis using FilteredValues_inv(2) [OF assms(1-3)] assms(4)
    by (simp add: currentIndexByRows_def)
qed

lemma current_position:
  assumes "scan_inv s" "as_rowID s = int i + 1" "i < length (as_values s)"
  obtains j where "j < length (partition_rows s i)"
    "sorter row_less (partition_rows s i) ! j = as_values s ! i"
  using FilteredValues_inv(3) [OF assms] set_sorter [of row_less "partition_rows s i"]
  by (metis in_set_conv_nth length_sorter)

lemma done_rows:
  assumes "scan_inv s" "as_rowID s = int i + 1" "i < length (as_values s)" "as_frameUnit s = FrameUnitRows"
    "as_start s = Some b1" "as_end s = Some b2" "wb_type b1 \<noteq> BoundaryUnknown" "wb_type b2 \<noteq> BoundaryUnknown"
    "sorter row_less (partition_rows s i) ! j = as_values s ! i" "j < length (partition_rows s i)"
  shows "agg_Done sorter s = Inr (clip_frame (sorter row_less (partition_rows s i))
     (rows_index b1 (int j) (length (partition_rows s i))) (rows_index b2 (int j) (length (partition_rows s i))))"
proof -
  have "getIndexFromBoundaryByRows s (sorter row_less (partition_rows s i)) b
      = Inr (rows_index b (int j) (length (partition_rows s i)))" if "wb_type b \<noteq> BoundaryUnknown" for b
    using current_index [OF assms(1-3,9,10)] FilteredValues_inv(1) [OF assms(1-3)] that
    by (cases "wb_type b") (simp_all add: getIndexFromBoundaryByRows_def)
  then show ?thesis using FilteredValues_inv(1) [OF assms(1-3)] assms
    by (simp add: agg_Done_def Let_def getIndexFromBoundary_def del: rows_index.simps)
qed

lemma row_number_position:
  assumes "scan_inv s" "as_rowID s = int i + 1" "i < length (as_values s)" "as_frameUnit s = FrameUnitUnknown"
    "sorter row_less (partition_rows s i) ! j = as_values s ! i" "j < length (partition_rows s i)"
  shows "WINDOW_ROW_NUMBER sorter s = Inr (Some (int j + 1))"
  using current_index [OF assms(1-3,5,6)] FilteredValues_inv(1) [OF assms(1-3)] assms
  by (simp add: WINDOW_ROW_NUMBER_def with_rows_def agg_Done_def Let_def getIndexFromBoundary_def clip_frame_def)

end

interpretation short_rows: row_sort insertionSort
  by (rule row_sort.intro) (rule short_slice.slice_sort_axioms)

lemma scan_inv_rowID [simp]: "scan_inv (s\<lparr>as_rowID := k\<rparr>) = scan_inv s"
  by (simp add: scan_inv_def)

lemma partition_rows_rowID [simp]: "partition_rows (s\<lparr>as_rowID := k\<rparr>) i = partition_rows s i"
  by (simp add: partition_rows_def)

lemma partition_rows_member:
  assumes "scan_inv s" "r \<in> set (partition_rows s i)"
  shows "ov_addr r < length (as_values s)" "as_values s ! ov_addr r = r"
    "partition_rows s (ov_addr r) = partition_rows s i"
proof -
  have addr: "ov_addr (as_values s ! k) = k" if "k < length (as_values s)" for k
  proof -
    have "map ov_addr (as_values s) ! k = k"
      using assms(1) that unfolding scan_inv_def by (simp only: nth_upt add_0 length_upt)
    then show ?thesis using that by simp
  qed
  have *: "ov_addr r < length (as_values s) \<and> as_values s ! ov_addr r = r
     \<and> partition_rows s (ov_addr r) = partition_rows s i"
  proof (cases "as_partitioned s = []")
    case True
    then have "r \<in> set (as_values s)" using assms(2) by (simp add: partition_rows_def)
    then obtain k where k: "k < length (as_values s)" "as_values s ! k = r" by (auto simp: in_set_conv_nth)
    then have "ov_addr r = k" using addr by blast
    then show ?thesis using k True by (simp add: partition_rows_def)
  next
    case False
    then have m: "map snd (as_partitioned s) = as_values s" using assms(1) by (simp add: scan_inv_def)
    obtain q where q: "q \<in> set (as_partitioned s)" "fst q = fst (as_partitioned s ! i)" "snd q = r"
      using assms(2) False by (auto simp: partition_rows_def)
    then obtain k where k: "k < length (as_partitioned s)" "as_partitioned s ! k = q" by (auto simp: in_set_conv_nth)
    have v: "k < length (as_values s)" using k(1) m by (metis length_map)
    have "as_values s ! k = r" using k q(3) m by (metis nth_map)
    with v have "ov_addr r = k" "as_values s ! k = r" using addr by blast+
    then show ?thesis using v k q(2) False unfolding partition_rows_def by simp
  qed
  then show "ov_addr r < length (as_values s)" "as_values s ! ov_addr r = r"
    "partition_rows s (ov_addr r) = partition_rows s i" by blast+
qed

section \<open>Ranks\<close>

lemma rank_loop_sorted:
  assumes "map key_int ks = map Inr ns" "sorted (ps @ ns)" "rank + same = int (length ps) + 1"
    "mx = (if ps = [] then 0 else max 0 (last ps))"
    "rank = (if mx \<le> 0 then 0 else 1 + int (length (filter (\<lambda>x. x < mx) ps)))"
  shows "rank_loop True ks rank same mx
     = Inr (if ps @ ns = [] \<or> last (ps @ ns) \<le> 0 then 0
            else 1 + int (length (filter (\<lambda>x. x < last (ps @ ns)) (ps @ ns))))"
  using assms
proof (induction ks arbitrary: ns ps rank same mx)
  case Nil
  then show ?case by (auto simp: max_def split: if_splits)
next
  case (Cons k ks)
  obtain n ns' where ns: "ns = n # ns'" "key_int k = Inr n" "map key_int ks = map Inr ns'"
    using Cons.prems(1) by (cases ns) auto
  have le: "x \<le> n" if "x \<in> set ps" for x using Cons.prems(2) ns(1) that by (auto simp: sorted_append)
  have s': "sorted ((ps @ [n]) @ ns')" using Cons.prems(2) ns(1) by simp
  have lst: "ps \<noteq> [] \<Longrightarrow> last ps \<le> n" using le last_in_set by blast
  show ?case
  proof (cases "mx < n")
    case True
    have "\<forall>x \<in> set ps. x < n"
    proof
      fix x assume x: "x \<in> set ps"
      then have "x \<le> last ps" using Cons.prems(2) by (cases ps rule: rev_cases) (auto simp: sorted_append)
      then show "x < n" using True Cons.prems(4) x by (auto split: if_splits)
    qed
    then have f: "filter (\<lambda>x. x < n) (ps @ [n]) = ps" by simp
    have n: "0 < n" using True Cons.prems(4) by (auto split: if_splits)
    have "rank + same + 1 = int (length (ps @ [n])) + 1" using Cons.prems(3) by simp
    moreover have "n = (if ps @ [n] = [] then 0 else max 0 (last (ps @ [n])))" using n by simp
    moreover have "rank + same = (if n \<le> 0 then 0 else 1 + int (length (filter (\<lambda>x. x < n) (ps @ [n]))))"
      unfolding f using n Cons.prems(3) by simp
    ultimately have "rank_loop True ks (rank + same) 1 n
        = Inr (if (ps @ [n]) @ ns' = [] \<or> last ((ps @ [n]) @ ns') \<le> 0 then 0
            else 1 + int (length (filter (\<lambda>x. x < last ((ps @ [n]) @ ns')) ((ps @ [n]) @ ns'))))"
      by (rule Cons.IH [OF ns(3) s'])
    then show ?thesis using True ns by simp
  next
    case False
    then have mx: "mx = (if ps @ [n] = [] then 0 else max 0 (last (ps @ [n])))"
      using Cons.prems(4) lst by (auto simp: max_def split: if_splits)
    have "rank = (if mx \<le> 0 then 0 else 1 + int (length (filter (\<lambda>x. x < mx) (ps @ [n]))))"
      using Cons.prems(5) mx by (auto simp: max_def split: if_splits)
    moreover have "rank + (same + 1) = int (length (ps @ [n])) + 1" using Cons.prems(3) by simp
    ultimately have "rank_loop True ks rank (same + 1) mx
        = Inr (if (ps @ [n]) @ ns' = [] \<or> last ((ps @ [n]) @ ns') \<le> 0 then 0
            else 1 + int (length (filter (\<lambda>x. x < last ((ps @ [n]) @ ns')) ((ps @ [n]) @ ns'))))"
      using Cons.IH [OF ns(3) s' _ mx] by blast
    then show ?thesis using False ns by simp
  qed
qed

lemma dense_rank_loop_sorted:
  assumes "map key_int ks = map Inr ns" "sorted ns" "\<forall>x \<in> set ns. mx = 0 \<or> mx \<le> x" "0 \<le> mx"
  shows "dense_rank_loop True ks rank mx = Inr (rank + int (card {x \<in> set ns. mx < x}))"
  using assms
proof (induction ks arbitrary: ns rank mx)
  case (Cons k ks)
  obtain n ns' where ns: "ns = n # ns'" "key_int k = Inr n" "map key_int ks = map Inr ns'"
    using Cons.prems(1) by (cases ns) auto
  have s': "sorted ns'" "\<forall>x \<in> set ns'. n \<le> x" using Cons.prems(2) ns(1) by auto
  show ?case
  proof (cases "mx < n")
    case True
    have "{x \<in> set ns. mx < x} = insert n {x \<in> set ns'. n < x}" using s' True ns(1) by force
    then have "card {x \<in> set ns. mx < x} = Suc (card {x \<in> set ns'. n < x})" by simp
    then show ?thesis using Cons.IH [OF ns(3) s'(1), of n "rank + 1"] s'(2) True ns Cons.prems(4) by simp
  next
    case False
    then have "{x \<in> set ns. mx < x} = {x \<in> set ns'. mx < x}" using ns(1) by auto
    then show ?thesis using Cons.IH [OF ns(3) s'(1), of mx rank] False ns Cons.prems(3,4) by auto
  qed
qed simp

section \<open>The rows of the input\<close>














section \<open>Positions of a ROWS frame\<close>












section \<open>The order of the rows\<close>







section \<open>Properties\<close>


text \<open>Three rows with keys 20, 10, 30 for the second of them, ROWS BETWEEN 1 PRECEDING AND CURRENT ROW.\<close>

definition example_status :: "frame_unit \<Rightarrow> int \<Rightarrow> window_status" where
  "example_status u key =
     \<lparr>ws_frameUnit = u, ws_start = Some \<lparr>wb_type = OffsetPreceding, wb_offset = 1\<rparr>,
      ws_end = Some \<lparr>wb_type = CurrentRow, wb_offset = 0\<rparr>, ws_partitions = [], ws_rowID = 2,
      ws_orderBy = [\<lparr>ob_value = Some (IntValue key), ob_isAsc = True\<rparr>]\<rparr>"

definition scan_rows :: "frame_unit \<Rightarrow> (val option \<times> window_status) list" where
  "scan_rows u = map (\<lambda>k. (Some (IntValue k), example_status u k)) [20, 10, 30]"

definition example_scan :: "frame_unit \<Rightarrow> agg_status" where
  "example_scan u = (case run_steps (newWindowFuncAggregatedStatus False False) (scan_rows u) of Inr s \<Rightarrow> s)"

lemma scan_run: "run_steps (newWindowFuncAggregatedStatus False False) (scan_rows u) = Inr (example_scan u)"
  by (simp add: example_scan_def scan_rows_def example_status_def agg_Step_def status_first_def
        newWindowFuncAggregatedStatus_def check_boundary_def Let_def)

lemma example_scan_fields [simp]:
  "as_rowID (example_scan u) = 2" "as_frameUnit (example_scan u) = u"
  "as_start (example_scan u) = Some \<lparr>wb_type = OffsetPreceding, wb_offset = 1\<rparr>"
  "as_end (example_scan u) = Some \<lparr>wb_type = CurrentRow, wb_offset = 0\<rparr>"
  "uniform (scan_rows u)" "length (scan_rows u) = 3"
  by (simp_all add: example_scan_def scan_rows_def example_status_def agg_Step_def status_first_def
        newWindowFuncAggregatedStatus_def check_boundary_def Let_def uniform_def)







text \<open>
  C31. ROW_NUMBER by full scan numbers the rows of every partition from 1 without gaps or repeats:
  over the rows of a partition, each asked with its own row id, the results are 1 up to the number
  of rows.\<close>

theorem scan_row_numbers:
  assumes "slice_sort sorter" "run_steps (newWindowFuncAggregatedStatus ig di) rows = Inr s" "uniform rows"
    "as_frameUnit s = FrameUnitUnknown"
  shows "mset (map (\<lambda>r. WINDOW_ROW_NUMBER sorter (s\<lparr>as_rowID := int (ov_addr r) + 1\<rparr>)) (partition_rows s i))
     = mset (map (\<lambda>k. Inr (Some (int k))) [1..<Suc (length (partition_rows s i))])"
proof -
  have inv: "scan_inv s"
    using run_steps_inv [OF assms(2) scan_inv_new assms(3)] by (auto simp: newWindowFuncAggregatedStatus_def)
  let ?p = "partition_rows s i"
  let ?o = "sorter row_less ?p"
  let ?f = "\<lambda>r. WINDOW_ROW_NUMBER sorter (s\<lparr>as_rowID := int (ov_addr r) + 1\<rparr>)"
  have len: "length ?o = length ?p" by (rule slice_sort.length_sorter [OF assms(1)])
  have num: "?f r = Inr (Some (int j + 1))" if j: "j < length ?p" and r: "r = ?o ! j" for j r
  proof -
    have "r \<in> set ?p"
      using j len slice_sort.set_sorter [OF assms(1), of row_less ?p] nth_mem [of j ?o] unfolding r by simp
    note m = partition_rows_member [OF inv this]
    show ?thesis
    proof (rule row_sort.row_number_position [OF row_sort.intro [OF assms(1)], of _ "ov_addr r"])
      show "sorter row_less (partition_rows (s\<lparr>as_rowID := int (ov_addr r) + 1\<rparr>) (ov_addr r)) ! j
          = as_values (s\<lparr>as_rowID := int (ov_addr r) + 1\<rparr>) ! ov_addr r"
        unfolding partition_rows_rowID m(3) by (simp add: m(2)) (simp add: r)
      show "j < length (partition_rows (s\<lparr>as_rowID := int (ov_addr r) + 1\<rparr>) (ov_addr r))"
        unfolding partition_rows_rowID m(3) by (rule j)
    qed (use inv m(1) assms(4) in simp_all)
  qed
  have "map ?f ?o = map (\<lambda>k. Inr (Some (int k))) [1..<Suc (length ?p)]"
  proof (rule nth_equalityI)
    fix j assume j: "j < length (map ?f ?o)"
    then have j': "j < length ?p" using len by simp
    have "map ?f ?o ! j = Inr (Some (int j + 1))" using num [OF j' refl] j by simp
    also have "\<dots> = map (\<lambda>k. Inr (Some (int k))) [1..<Suc (length ?p)] ! j"
      using j' by (simp del: upt_Suc)
    finally show "map ?f ?o ! j = map (\<lambda>k. Inr (Some (int k))) [1..<Suc (length ?p)] ! j" .
  qed (use len in \<open>simp del: upt_Suc\<close>)
  moreover have "mset (map ?f ?p) = mset (map ?f ?o)"
    by (simp add: slice_sort.sorter_mset [OF assms(1)])
  ultimately show ?thesis by simp
qed

theorem scan_row_numbers_witness:
  "mset (map (\<lambda>r. WINDOW_ROW_NUMBER insertionSort (example_scan FrameUnitUnknown\<lparr>as_rowID := int (ov_addr r) + 1\<rparr>))
      (partition_rows (example_scan FrameUnitUnknown) 0))
    = mset (map (\<lambda>k. Inr (Some (int k))) [1..<Suc (length (partition_rows (example_scan FrameUnitUnknown) 0))])"
  using scan_row_numbers [OF short_slice.slice_sort_axioms scan_run, of FrameUnitUnknown 0]
  by (simp del: upt_Suc)

text \<open>
  RANK and DENSE_RANK by full scan, for integer keys in ascending order up to the current row:
  the rank is one more than the number of smaller keys and the dense rank the number of distinct
  keys up to it, but only for positive keys: a current row whose key is zero or negative gets rank
  0, and such keys are not counted by the dense rank.\<close>

theorem scan_rank:
  assumes "map key_int ks = map Inr ns" "sorted ns" "ns \<noteq> []"
  shows "rank_loop True ks 0 1 (rank_start True)
       = Inr (if last ns \<le> 0 then 0 else 1 + int (length (filter (\<lambda>x. x < last ns) ns)))
    \<and> dense_rank_loop True ks 0 (rank_start True) = Inr (int (card {x \<in> set ns. 0 < x}))"
  using rank_loop_sorted [OF assms(1), of "[]" 0 1 0] dense_rank_loop_sorted [OF assms(1,2), of 0 0] assms(2,3)
  by (simp add: rank_start_def)

theorem scan_rank_witness:
  "rank_loop True (map (\<lambda>n. \<lparr>ob_value = Some (IntValue n), ob_isAsc = True\<rparr>) [2, 2, 5]) 0 1 (rank_start True) = Inr 3
   \<and> rank_loop True (map (\<lambda>n. \<lparr>ob_value = Some (IntValue n), ob_isAsc = True\<rparr>) [- 2, - 1]) 0 1 (rank_start True) = Inr 0"
  using scan_rank [of "map (\<lambda>n. \<lparr>ob_value = Some (IntValue n), ob_isAsc = True\<rparr>) [2, 2, 5]" "[2, 2, 5]"]
    scan_rank [of "map (\<lambda>n. \<lparr>ob_value = Some (IntValue n), ob_isAsc = True\<rparr>) [- 2, - 1]" "[- 2, - 1]"]
  by (simp add: key_int_def lift_value_def)

text \<open>
  The positional functions by full scan on a frame with values \<open>vs\<close>: FIRST_VALUE and LAST_VALUE
  give its ends; NTH_VALUE gives the value at a position except the last one, which it never
  returns, and position 0 is an index out of range; NTILE of six rows into three buckets numbers
  them 1, 1, 2, 3, 4, 5 instead of two rows to a bucket.\<close>

theorem scan_positional:
  assumes "agg_Done sorter s = Inr (Some (ordered, start, end'))" "frame_slice ordered start end' = Inr vs"
    "ordered \<noteq> []" "vs \<noteq> []" "\<not> as_ignoreNulls s"
  shows "WINDOW_FIRST_VALUE sorter s = Inr (hd vs) \<and> WINDOW_LAST_VALUE sorter s = Inr (last vs)
    \<and> (0 < n \<and> n < length vs \<longrightarrow> WINDOW_NTH_VALUE (int n) sorter s = Inr (vs ! (n - 1)))
    \<and> WINDOW_NTH_VALUE (int (length vs)) sorter s = Inr None
    \<and> WINDOW_NTH_VALUE 0 sorter s = Inl Panic
    \<and> (length ordered = 6 \<and> 0 \<le> start \<and> start < 6 \<longrightarrow>
         WINDOW_NTILE 3 sorter s = Inr ([1, 1, 2, 3, 4, 5] ! nat start))"
proof -
  have f: "filtered s vs = vs" using assms(5) by (simp add: filtered_def)
  have nav: "navigate_frame sorter s pick = pick vs" for pick
    using assms(1-4) f by (simp add: navigate_frame_def with_rows_def)
  have nums: "ntile_numbers 0 6 1 = [1, 1, 2, 3, 4, 5, 6]" by (simp add: numeral_eq_Suc)
  have "WINDOW_NTILE 3 sorter s = Inr ([1, 1, 2, 3, 4, 5] ! nat start)"
    if "length ordered = 6" "0 \<le> start" "start < 6"
  proof -
    have "WINDOW_NTILE 3 sorter s = Inr ([1, 1, 2, 3, 4, 5, 6] ! nat start)"
      using assms(1,3) that nums by (simp add: WINDOW_NTILE_def with_rows_def at_index_def Let_def go_arith)
    also have "[1, 1, 2, 3, 4, 5, 6] ! nat start = ([1, 1, 2, 3, 4, 5] ! nat start :: int)"
      using nth_append [of "[1, 1, 2, 3, 4, 5 :: int]" "[6]" "nat start"] that by simp
    finally show ?thesis .
  qed
  moreover have "nat (int (length vs) - 1) = length vs - 1" by (cases "length vs") simp_all
  ultimately show ?thesis using assms(4) nav
    by (auto simp: WINDOW_FIRST_VALUE_def WINDOW_LAST_VALUE_def WINDOW_NTH_VALUE_def at_index_def
          hd_conv_nth last_conv_nth nat_diff_distrib)
qed

text \<open>The example scan: the second row is the first in order, so its frame is itself.\<close>

definition example_row :: "nat \<Rightarrow> int \<Rightarrow> ordered_value" where
  "example_row i k = \<lparr>ov_addr = i, ov_orderBy = [\<lparr>ob_value = Some (IntValue k), ob_isAsc = True\<rparr>],
     ov_value = Some (IntValue k)\<rparr>"

lemma example_less [simp]: "row_less (example_row i k) (example_row j l) \<longleftrightarrow> k < l"
  by (auto simp: row_less_def example_row_def holds_def int_cmp_def)

lemma example_done:
  "agg_Done insertionSort (example_scan FrameUnitRows) = Inr (Some ([example_row 1 10, example_row 0 20, example_row 2 30], 0, 0))"
proof -
  have v: "as_values (example_scan FrameUnitRows) = [example_row 0 20, example_row 1 10, example_row 2 30]"
    "as_partitioned (example_scan FrameUnitRows) = []"
    by (simp_all add: example_scan_def scan_rows_def example_status_def agg_Step_def status_first_def
        newWindowFuncAggregatedStatus_def check_boundary_def Let_def example_row_def)
  have o: "insertionSort row_less [example_row 0 20, example_row 1 10, example_row 2 30]
      = [example_row 1 10, example_row 0 20, example_row 2 30]"
    by (simp add: insertionSort_def)
  have c: "currentIndexByRows (example_scan FrameUnitRows) [example_row 1 10, example_row 0 20, example_row 2 30] = Inr 0"
    using v by (simp add: currentIndexByRows_def current_row_def at_index_def example_row_def)
  have "i64 (0 - 1) = - 1" by (simp add: i64_eq)
  then show ?thesis using v o c
    by (simp add: agg_Done_def FilteredValues_def getIndexFromBoundary_def getIndexFromBoundaryByRows_def clip_frame_def)
qed

theorem scan_positional_witness:
  "WINDOW_FIRST_VALUE insertionSort (example_scan FrameUnitRows) = Inr (Some (IntValue 10))
   \<and> WINDOW_NTH_VALUE 1 insertionSort (example_scan FrameUnitRows) = Inr None"
proof -
  have s: "frame_slice [example_row 1 10, example_row 0 20, example_row 2 30] 0 0 = Inr [Some (IntValue 10)]"
    by (simp add: frame_slice_def example_row_def)
  have g: "\<not> as_ignoreNulls (example_scan FrameUnitRows)"
    by (simp add: example_scan_def scan_rows_def example_status_def agg_Step_def status_first_def
        newWindowFuncAggregatedStatus_def check_boundary_def Let_def)
  show ?thesis using scan_positional [OF example_done s _ _ g, of 0] by simp
qed

end
