(* ===== verification/Rewrite_Pipeline.thy ===== *)
theory Rewrite_Pipeline
  imports Call_Props
begin

text \<open>
  The rewrites of a query in the order of \<open>Analyze\<close> (\<open>src/internal/analyzer.go\<close>): when none of the
  words that the rewrites look for occurs in a query, every step leaves it as it is.
\<close>

section \<open>Steps without their words\<close>

text \<open>A word found in any case is found by the search in capitals.\<close>

lemma fold_upper:
  "EqualFold_word v w \<Longrightarrow> list_all (\<lambda>c. isIdentStart c \<and> lower_char c = c \<and> c \<noteq> CHR ''k'') w
     \<Longrightarrow> upper_text (v @ b) = map upper_char w @ upper_text b"
proof (induction v w rule: EqualFold_word.induct)
  case (2 c cs w ws)
  show ?case
  proof (cases "lower_char c = w")
    case True
    then have "c \<noteq> CHR 0xC5 \<and> c \<noteq> CHR 0xC4"
      using "2.prems"(2) by (auto simp: lower_char_def isIdentStart_def byte_in_def)
    moreover have "upper_char c = upper_char w" using upper_lower [of c] True by simp
    ultimately show ?thesis using 2 True by (cases "cs @ b") auto
  next
    case False
    have "upper_char (CHR ''s'') = CHR ''S''" by (simp add: upper_char_def byte_in_def char_of_eq_iff)
    then show ?thesis using 2 False by (auto split: list.splits if_splits)
  qed
qed auto

lemma fold_head: "EqualFold_word v w \<Longrightarrow> w \<noteq> [] \<Longrightarrow> list_all (\<lambda>c. isIdentStart c) w
    \<Longrightarrow> v \<noteq> [] \<and> hd v \<noteq> CHR 0xBF \<and> hd v \<noteq> CHR 0xB1"
  by (cases v; cases w) (auto simp: lower_char_def isIdentStart_def byte_in_def split: if_splits)

lemma fold_rest_contains:
  assumes "fold_rest ''cast'' (drop i s) \<noteq> None"
  shows "contains (upper_text s) ''CAST''"
proof -
  obtain n where n: "EqualFold_word (take n (drop i s)) ''cast''"
    using assms by (auto simp: fold_rest_def filter_eq_Cons_iff split: list.splits)
  let ?v = "take n (drop i s)" and ?r = "drop n (drop i s)"
  have w: "list_all (\<lambda>c. isIdentStart c \<and> lower_char c = c \<and> c \<noteq> CHR ''k'') ''cast''"
    by (simp add: isIdentStart_def byte_in_def lower_char_table)
  then have "list_all isIdentStart ''cast''" by simp
  then have "hd (drop i s) \<noteq> CHR 0xBF \<and> hd (drop i s) \<noteq> CHR 0xB1"
    using fold_head [OF n] by (cases "drop i s"; cases n) auto
  then have "upper_text s = upper_text (take i s) @ upper_text (?v @ ?r)"
    unfolding append_take_drop_id using upper_text_app [of "drop i s" "take i s"] by simp
  also have "\<dots> = upper_text (take i s) @ ''CAST'' @ upper_text ?r"
    using fold_upper [OF n w] by (simp add: upper_char_def byte_in_def char_of_eq_iff)
  finally show ?thesis by (auto simp: contains_def sublist_def)
qed

lemma nan_from_same: "(\<And>i. fold_rest ''cast'' (drop i s) = None) \<Longrightarrow> nan_from w s = s"
proof (induction s arbitrary: w)
  case Nil
  then show ?case by (simp add: nan_from.simps)
next
  case (Cons c s)
  have "fold_rest ''cast'' (drop i s) = None" for i using Cons.prems [of "Suc i"] by simp
  moreover have "signedNaNCastRe (c # s) = None" using Cons.prems [of 0] by (simp add: signedNaNCastRe_def)
  ultimately show ?case using Cons.IH by (subst nan_from.simps) simp
qed

lemma nan_cast_same: "\<not> contains (upper_text q) ''CAST'' \<Longrightarrow> applySignedNaNCast q = q"
proof -
  assume "\<not> contains (upper_text q) ''CAST''"
  then have "fold_rest ''cast'' (drop i q) = None" for i using fold_rest_contains [of i q] by blast
  then show ?thesis using nan_from_same [of q False] by (simp add: applySignedNaNCast_def)
qed

text \<open>A query with none of the words of the rewrites and no question mark.\<close>

definition plain_query :: "string \<Rightarrow> bool" where
  "plain_query q \<longleftrightarrow> CHR ''?'' \<notin> set q \<and> \<not> typeAliasNeedle q \<and> \<not> timestampNeedle q
     \<and> \<not> contains q ''PARTITION'' \<and> \<not> contains q ''partition''
     \<and> list_all (\<lambda>w. \<not> contains (upper_text q) w)
         [''CAST'', ''GAP_FILL'', ''RANGE_SESSIONIZE'', ''IFERROR'', ''APPENDS'', ''CHANGES'', ''VECTOR_INDEX'']"

lemma contains_app: "contains q w \<Longrightarrow> contains (q @ r) w"
  by (metis append.assoc contains_def sublist_def)

lemma contains_suffix: "contains q (a @ w) \<Longrightarrow> contains q w"
  by (metis append.assoc contains_def sublist_def)

lemma pre_pipeline_same:
  assumes "plain_query q"
  shows "applySQLRewritePipeline q sqlRewritePipelinePreScriptVars = Some q"
proof -
  have "\<not> contains q ''_PARTITION''" using assms contains_suffix [of q "''_''" "''PARTITION''"] by (auto simp: plain_query_def)
  then have "applyIngestionPartitionRewrite q = q" using assms by (simp add: plain_query_def applyIngestionPartitionRewrite_def)
  moreover have "applyTypeNameAliases q = q" "applyNaiveTimestampUTC q = q"
    using assms by (simp_all add: plain_query_def applyTypeNameAliases_def applyNaiveTimestampUTC_def)
  moreover have "applySignedNaNCast q = q" using assms nan_cast_same by (simp add: plain_query_def)
  ultimately show ?thesis by (simp add: applySQLRewritePipeline_def sqlRewritePipelinePreScriptVars_def)
qed

lemma upper_words:
  "containsCaseInsensitive q ''GAP_FILL'' = contains (upper_text q) ''GAP_FILL''"
  "containsCaseInsensitive q ''RANGE_SESSIONIZE'' = contains (upper_text q) ''RANGE_SESSIONIZE''"
  "containsCaseInsensitive q ''IFERROR'' = contains (upper_text q) ''IFERROR''"
  by (simp_all add: containsCaseInsensitive_def upper_char_def byte_in_def)

lemma post_pipeline_same:
  assumes "list_all (\<lambda>w. \<not> contains (upper_text q) w)
    [''GAP_FILL'', ''RANGE_SESSIONIZE'', ''IFERROR'', ''APPENDS'', ''CHANGES'', ''VECTOR_INDEX'']"
  shows "applySQLRewritePipeline q sqlRewritePipelinePostScriptVars = Some q"
  using assms
  by (simp add: applySQLRewritePipeline_def sqlRewritePipelinePostScriptVars_def applyGapFillRewrite_def
      applyRangeSessionizeRewrite_def applyIferrorTypePropagation_def applyBigQueryTvfStubs_def upper_words)

lemma upper_semicolon: "upper_text (q @ '';'') = upper_text q @ '';''"
  using upper_text_app [of "'';''" q] by (simp add: upper_char_def byte_in_def)

lemma contains_set: "contains q w \<Longrightarrow> set w \<subseteq> set q"
  by (auto simp: contains_def sublist_def)

end
