(* ===== verification/Cast_Bytes.thy ===== *)
theory Cast_Bytes
  imports Go_Strings "HOL-Library.Word"
begin

text \<open>
  \<open>CAST(... AS ... FORMAT ...)\<close> between BYTES and STRING (\<open>cast_format.go\<close>): the bit
  streams of BASE2, BASE8 and BASE16, the base 32 and base 64 texts, and the two format
  dispatchers. The accumulator of the bit loops is the 64-bit \<open>uint\<close> of the code.
  \<open>bits_of\<close>, \<open>groups\<close> and \<open>whole\<close> describe the same texts as groups of one bit stream;
  the loops are proved equal to that reading, and every format is proved to be undone by
  the opposite cast.
\<close>

unbundle bit_operations_syntax

section \<open>The bit loops\<close>

datatype cast_error =
    NotAscii | NotUtf8 | InvalidFormat string | InvalidDigit char nat | CorruptInput

definition radixDigits :: string where "radixDigits = ''0123456789abcdef''"

definition lowerASCII :: "char \<Rightarrow> char" where
  "lowerASCII c = (if byte_in 65 90 c then char_of (of_char c + 97 - 65 :: nat) else c)"

text \<open>The inner loop of \<open>encodeBits\<close>: digits while a whole group is there. The width of the
  code is one of the constants 1, 3 and 4; the first test only gives the recursion an end.\<close>

function emit_digits :: "nat \<Rightarrow> 64 word \<Rightarrow> nat \<Rightarrow> string \<times> nat" where
  "emit_digits width acc n =
     (if 0 < width \<and> width \<le> n then
        let n' = n - width; (out, r) = emit_digits width acc n'
        in (radixDigits ! unat (drop_bit n' acc AND (push_bit width 1 - 1)) # out, r)
      else ([], n))"
  by pat_completeness auto
termination
  by (relation "measure (\<lambda>(_, _, n). n)") auto

declare emit_digits.simps [simp del]

fun encode_loop :: "nat \<Rightarrow> string \<Rightarrow> 64 word \<Rightarrow> nat \<Rightarrow> string" where
  "encode_loop width [] acc n =
     (if 0 < n then [radixDigits ! unat (push_bit (width - n) acc AND (push_bit width 1 - 1))] else [])"
| "encode_loop width (c # b) acc n =
     (let acc = push_bit 8 acc OR of_nat (of_char c); (out, n) = emit_digits width acc (n + 8)
      in out @ encode_loop width b (acc AND (push_bit n 1 - 1)) n)"

definition encodeBits :: "string \<Rightarrow> nat \<Rightarrow> string" where
  "encodeBits b width = encode_loop width b 0 0"

fun decode_loop :: "nat \<Rightarrow> string \<Rightarrow> 64 word \<Rightarrow> nat \<Rightarrow> cast_error + string" where
  "decode_loop width [] acc n = Inr []"
| "decode_loop width (c # s) acc n =
     (case IndexByte radixDigits (lowerASCII c) of
        None \<Rightarrow> Inl (InvalidDigit c (2 ^ width))
      | Some d \<Rightarrow>
          if 2 ^ width \<le> d then Inl (InvalidDigit c (2 ^ width))
          else let acc = push_bit width acc OR of_nat d; n = n + width
               in if 8 \<le> n then
                    bind_res (decode_loop width s (acc AND (push_bit (n - 8) 1 - 1)) (n - 8))
                      (\<lambda>out. Inr (char_of (unat (drop_bit (n - 8) acc)) # out))
                  else decode_loop width s acc n)"

definition decodeBits :: "string \<Rightarrow> nat \<Rightarrow> cast_error + string" where
  "decodeBits s width = decode_loop width s 0 0"

section \<open>Bit streams\<close>

definition bits_of :: "nat \<Rightarrow> 'a :: semiring_bits \<Rightarrow> bool list" where
  "bits_of n x = map (bit x) (rev [0..<n])"

definition byte_bits :: "string \<Rightarrow> bool list" where
  "byte_bits b = concat (map (\<lambda>c. bits_of 8 (of_char c :: nat)) b)"

definition bits_val :: "bool list \<Rightarrow> nat" where
  "bits_val bs = foldl (\<lambda>a b. 2 * a + of_bool b) 0 bs"

text \<open>Groups of \<open>w\<close> bits, the last one filled with zeros; and the whole groups only.\<close>

function groups :: "nat \<Rightarrow> bool list \<Rightarrow> bool list list" where
  "groups w bs =
     (if w = 0 \<or> bs = [] then []
      else if length bs < w then [bs @ replicate (w - length bs) False]
      else take w bs # groups w (drop w bs))"
  by pat_completeness auto
termination
  by (relation "measure (\<lambda>(_, bs). length bs)") auto

function whole :: "nat \<Rightarrow> bool list \<Rightarrow> bool list list" where
  "whole w bs = (if w = 0 \<or> length bs < w then [] else take w bs # whole w (drop w bs))"
  by pat_completeness auto
termination
  by (relation "measure (\<lambda>(_, bs). length bs)") auto

declare groups.simps [simp del] whole.simps [simp del]

definition bits_bytes :: "bool list \<Rightarrow> string" where
  "bits_bytes bs = map (\<lambda>g. char_of (bits_val g)) (whole 8 bs)"

section \<open>Base 32 and base 64 texts\<close>

text \<open>The standard encodings of Go's \<open>encoding/base32\<close> and \<open>encoding/base64\<close>: digits of 5
  or 6 bits, filled with \<open>=\<close> to blocks of 8 or 4 digits. The decoders skip line ends, and take
  digits up to the filling, whose length they check; the base 32 decoder looks at the filling
  of the last block only.\<close>

definition base32_digits :: string where "base32_digits = ''ABCDEFGHIJKLMNOPQRSTUVWXYZ234567''"

definition base64_digits :: string where
  "base64_digits = ''ABCDEFGHIJKLMNOPQRSTUVWXYZabcdefghijklmnopqrstuvwxyz0123456789+/''"

definition base_text :: "string \<Rightarrow> nat \<Rightarrow> nat \<Rightarrow> string \<Rightarrow> string" where
  "base_text digits w block b =
     (let ds = map (\<lambda>g. digits ! bits_val g) (groups w (byte_bits b))
      in ds @ replicate ((block - length ds mod block) mod block) CHR ''='')"

definition digit_bytes :: "string \<Rightarrow> nat \<Rightarrow> string \<Rightarrow> string" where
  "digit_bytes digits w ds =
     bits_bytes (concat (map (\<lambda>c. bits_of w (case IndexByte digits c of Some d \<Rightarrow> d | None \<Rightarrow> 0)) ds))"

definition fill32 :: "nat \<Rightarrow> string \<Rightarrow> bool" where
  "fill32 j rest \<longleftrightarrow>
     (case rest of [] \<Rightarrow> j = 0
      | c # src \<Rightarrow> c = CHR ''='' \<and> 2 \<le> j \<and> length src < 8 \<and> 7 \<le> length src + j
          \<and> list_all (\<lambda>c. c = CHR ''='') (take (7 - j) src) \<and> j \<noteq> 3 \<and> j \<noteq> 6)"

definition fill64 :: "nat \<Rightarrow> string \<Rightarrow> bool" where
  "fill64 j rest \<longleftrightarrow> j = 0 \<and> rest = [] \<or> j = 2 \<and> rest = ''=='' \<or> j = 3 \<and> rest = ''=''"

definition base_bytes :: "string \<Rightarrow> nat \<Rightarrow> nat \<Rightarrow> (nat \<Rightarrow> string \<Rightarrow> bool) \<Rightarrow> string \<Rightarrow> cast_error + string" where
  "base_bytes digits w block fill s =
     (let s = filter (\<lambda>c. c \<noteq> CHR 0x0A \<and> c \<noteq> CHR 0x0D) s; ds = takeWhile (\<lambda>c. c \<in> set digits) s;
          rest = dropWhile (\<lambda>c. c \<in> set digits) s
      in if fill (length ds mod block) rest then Inr (digit_bytes digits w ds) else Inl CorruptInput)"

section \<open>The casts\<close>

text \<open>The loop of BASE64M that breaks the text into lines of 76.\<close>

function lines76 :: "string \<Rightarrow> string" where
  "lines76 s = (if 76 < length s then take 76 s @ CHR 0x0A # lines76 (drop 76 s) else s)"
  by pat_completeness auto
termination
  by (relation "measure length") auto

declare lines76.simps [simp del]

text \<open>\<open>utf8.Valid\<close>: no overlong form, no surrogate, nothing past U+10FFFF.\<close>

function utf8_valid :: "string \<Rightarrow> bool" where
  "utf8_valid s =
     (if s = [] then True else if utf8_len s = 0 then False else utf8_valid (drop (utf8_len s) s))"
  by pat_completeness auto
termination
  by (relation "measure length") auto

declare utf8_valid.simps [simp del]

definition formatBytesAsString :: "string \<Rightarrow> string \<Rightarrow> cast_error + string" where
  "formatBytesAsString b format =
     (if format = ''HEX'' \<or> format = ''BASE16'' then Inr (encodeBits b 4)
      else if format = ''BASE2'' then Inr (encodeBits b 1)
      else if format = ''BASE8'' then Inr (encodeBits b 3)
      else if format = ''BASE32'' then Inr (base_text base32_digits 5 8 b)
      else if format = ''BASE64'' then Inr (base_text base64_digits 6 4 b)
      else if format = ''BASE64M'' then Inr (lines76 (base_text base64_digits 6 4 b))
      else if format = ''ASCII'' then
        (if list_ex (\<lambda>c. of_char c > (127 :: nat)) b then Inl NotAscii else Inr b)
      else if format = ''UTF-8'' \<or> format = ''UTF8'' then
        (if utf8_valid b then Inr b else Inl NotUtf8)
      else Inl (InvalidFormat format))"

text \<open>\<open>strings.Join(strings.Fields(s), "")\<close>: the text without its white space.\<close>

function join_fields :: "string \<Rightarrow> string" where
  "join_fields s =
     (case s of [] \<Rightarrow> []
      | c # r \<Rightarrow> if 0 < space_len utf8_space_seqs s then join_fields (drop (space_len utf8_space_seqs s) s)
                else c # join_fields r)"
  by pat_completeness auto
termination
  by (relation "measure length") auto

declare join_fields.simps [simp del]

definition parseStringAsBytes :: "string \<Rightarrow> string \<Rightarrow> cast_error + string" where
  "parseStringAsBytes s format =
     (if format = ''HEX'' \<or> format = ''BASE16'' then decodeBits s 4
      else if format = ''BASE2'' then decodeBits s 1
      else if format = ''BASE8'' then decodeBits s 3
      else if format = ''BASE32'' then base_bytes base32_digits 5 8 fill32 s
      else if format = ''BASE64'' \<or> format = ''BASE64M'' then
        base_bytes base64_digits 6 4 fill64 (join_fields s)
      else if format = ''ASCII'' then
        (if list_ex (\<lambda>c. of_char c > (127 :: nat)) s then Inl NotAscii else Inr s)
      else if format = ''UTF-8'' \<or> format = ''UTF8'' then Inr s
      else Inl (InvalidFormat format))"

section \<open>Properties of bit streams\<close>

lemma length_bits_of [simp]: "length (bits_of n x) = n"
  by (simp add: bits_of_def)

lemma nth_bits_of [simp]: "i < n \<Longrightarrow> bits_of n x ! i = bit x (n - 1 - i)"
  by (simp add: bits_of_def rev_nth)

lemma bits_of_0 [simp]: "bits_of 0 x = []"
  by (simp add: bits_of_def)

lemma bits_of_zero: "bits_of n 0 = replicate n False"
  by (rule nth_equalityI) simp_all

lemma bits_of_Suc: "bits_of (Suc n) x = bit x n # bits_of n x"
  by (simp add: bits_of_def)

lemma bits_of_cong: "(\<And>k. k < n \<Longrightarrow> bit x k = bit y k) \<Longrightarrow> bits_of n x = bits_of n y"
  by (simp add: bits_of_def)

lemma bits_of_append:
  "bits_of (m + n) x = bits_of m (drop_bit n x) @ bits_of n x" for x :: "'a :: semiring_bit_operations"
  by (rule nth_equalityI) (auto simp: nth_append bit_drop_bit_eq intro!: arg_cong [of _ _ "bit x"])

lemma bits_val_snoc: "bits_val (bs @ [b]) = 2 * bits_val bs + of_bool b"
  by (simp add: bits_val_def)

lemma bits_val_less: "bits_val bs < 2 ^ length bs"
  by (induction bs rule: rev_induct) (auto simp: bits_val_snoc, simp add: bits_val_def)

lemma bit_bits_val: "bit (bits_val bs) k \<longleftrightarrow> k < length bs \<and> rev bs ! k"
proof (induction bs arbitrary: k rule: rev_induct)
  case (snoc b bs)
  show ?case
    by (cases k) (auto simp: bits_val_snoc bit_0 bit_Suc snoc)
qed (simp add: bits_val_def)

lemma bits_of_bits_val: "length bs = n \<Longrightarrow> bits_of n (bits_val bs) = bs"
  by (rule nth_equalityI) (auto simp: bit_bits_val rev_nth)

lemma bits_val_bits_of_nat: "bits_val (bits_of n x) = take_bit n x" for x :: nat
  by (rule bit_eqI) (auto simp: bit_bits_val bit_take_bit_iff rev_nth)

lemma bits_val_bits_of_word: "bits_val (bits_of n x) = unat (take_bit n x)" for x :: "64 word"
  by (rule bit_eqI) (auto simp: bit_bits_val bit_take_bit_iff rev_nth bit_unsigned_iff intro: bit_imp_le_length)

lemma char_of_bits: "char_of (bits_val (bits_of 8 x)) = (char_of (unat x) :: char)" for x :: "64 word"
  by (simp add: bits_val_bits_of_word unsigned_take_bit_eq char_of_take_bit_eq del: drop_bit_or)

lemma mask_word: "x AND (push_bit w 1 - 1) = take_bit w x" for x :: "64 word"
  by (simp add: push_bit_of_1 take_bit_eq_mask mask_eq_exp_minus_1)

lemma bits_of_push:
  fixes acc v :: "64 word"
  assumes "n + m \<le> 64" "\<And>k. m \<le> k \<Longrightarrow> \<not> bit v k"
  shows "bits_of (n + m) (push_bit m acc OR v) = bits_of n acc @ bits_of m v"
proof -
  have "bits_of n (drop_bit m (push_bit m acc OR v)) = bits_of n acc"
    using assms by (intro bits_of_cong) (auto simp: bit_drop_bit_eq bit_or_iff bit_push_bit_iff)
  moreover have "bits_of m (push_bit m acc OR v) = bits_of m v"
    by (intro bits_of_cong) (auto simp: bit_or_iff bit_push_bit_iff)
  ultimately show ?thesis by (simp add: bits_of_append)
qed

lemma bits_of_mask: "bits_of n (x AND (push_bit n 1 - 1)) = bits_of n x" for x :: "64 word"
  unfolding mask_word by (intro bits_of_cong) (simp add: bit_take_bit_iff)

lemma bits_of_word_nat: "n \<le> 64 \<Longrightarrow> bits_of n (of_nat x :: 64 word) = bits_of n x"
  by (intro bits_of_cong) (simp add: bit_of_nat_iff)

lemma high_bits: "x < 2 ^ m \<Longrightarrow> m \<le> k \<Longrightarrow> \<not> bit (of_nat x :: 64 word) k"
proof
  assume "x < 2 ^ m" "m \<le> k" "bit (of_nat x :: 64 word) k"
  then have "bit (take_bit m x) k" by (simp add: take_bit_nat_eq_self bit_of_nat_iff)
  then show False using \<open>m \<le> k\<close> by (simp add: bit_take_bit_iff)
qed

section \<open>Groups\<close>

lemma groups_Nil [simp]: "groups w [] = []"
  by (simp add: groups.simps)

lemma groups_full: "0 < w \<Longrightarrow> length g = w \<Longrightarrow> groups w (g @ bs) = g # groups w bs"
  by (subst groups.simps) auto

lemma whole_full: "0 < w \<Longrightarrow> length g = w \<Longrightarrow> whole w (g @ bs) = g # whole w bs"
  by (subst whole.simps) auto

lemma whole_short: "length bs < w \<Longrightarrow> whole w bs = []"
  by (simp add: whole.simps)

lemma groups_short:
  "bs \<noteq> [] \<Longrightarrow> length bs < w \<Longrightarrow> groups w bs = [bs @ replicate (w - length bs) False]"
  by (simp add: groups.simps)

lemma groups_lengths: "g \<in> set (groups w bs) \<Longrightarrow> length g = w"
  by (induction w bs rule: groups.induct) (subst (asm) groups.simps, auto split: if_splits)

lemma concat_groups: "0 < w \<Longrightarrow> \<exists>z. concat (groups w bs) = bs @ replicate z False \<and> z < w"
proof (induction w bs rule: groups.induct)
  case (1 w bs)
  consider "bs = []" | "bs \<noteq> []" "length bs < w" | "w \<le> length bs" by linarith
  then show ?case
  proof cases
    case 2
    then show ?thesis by (intro exI [of _ "w - length bs"]) (simp add: groups_short)
  next
    case 3
    then obtain z where "concat (groups w (drop w bs)) = drop w bs @ replicate z False" "z < w"
      using 1 by fastforce
    moreover have "groups w bs = take w bs # groups w (drop w bs)"
      using 3 1(2) groups_full [of w "take w bs" "drop w bs"] by simp
    ultimately show ?thesis by (auto simp flip: append_assoc)
  qed (auto simp: 1(2))
qed

lemma concat_groups_bits: "concat (map (\<lambda>g. bits_of w (bits_val g)) (groups w bs)) = concat (groups w bs)"
  by (rule arg_cong [of _ _ concat], rule map_idI) (simp add: bits_of_bits_val groups_lengths)

lemma bits_bytes_Cons: "length g = 8 \<Longrightarrow> bits_bytes (g @ bs) = char_of (bits_val g) # bits_bytes bs"
  by (simp add: bits_bytes_def whole_full)

lemma bits_bytes_short: "length bs < 8 \<Longrightarrow> bits_bytes bs = []"
  by (simp add: bits_bytes_def whole_short)

lemma of_char_less: "(of_char c :: nat) < 2 ^ 8"
  using mod_less_divisor [of 256 "of_char c"] by simp

lemma bits_bytes_byte_bits: "z < 8 \<Longrightarrow> bits_bytes (byte_bits b @ replicate z False) = b"
proof (induction b)
  case (Cons c b)
  have "char_of (bits_val (bits_of 8 (of_char c :: nat))) = c"
    by (simp add: bits_val_bits_of_nat take_bit_nat_eq_self [OF of_char_less])
  then show ?case using Cons by (simp add: byte_bits_def bits_bytes_Cons)
qed (simp add: byte_bits_def bits_bytes_short)

text \<open>Bytes put into groups and read back.\<close>

lemma groups_back:
  assumes "0 < w" "w \<le> 8"
  shows "bits_bytes (concat (map (\<lambda>g. bits_of w (bits_val g)) (groups w (byte_bits b)))) = b"
proof -
  obtain z where "concat (groups w (byte_bits b)) = byte_bits b @ replicate z False" "z < w"
    using concat_groups [OF assms(1)] by blast
  then show ?thesis using assms(2) bits_bytes_byte_bits [of z b] by (simp add: concat_groups_bits)
qed

section \<open>The loops work on groups\<close>

lemma groups_word:
  fixes acc :: "64 word"
  shows "0 < w \<Longrightarrow> groups w (bits_of n acc @ bs) = whole w (bits_of n acc) @ groups w (bits_of (n mod w) acc @ bs)"
proof (induction n rule: less_induct)
  case (less n)
  show ?case
  proof (cases "n < w")
    case False
    then have n: "bits_of n acc = bits_of w (drop_bit (n - w) acc) @ bits_of (n - w) acc"
      by (simp flip: bits_of_append)
    have "groups w (bits_of (n - w) acc @ bs) = whole w (bits_of (n - w) acc) @ groups w (bits_of (n mod w) acc @ bs)"
      using less False by (simp add: mod_if [of n])
    then show ?thesis using less(2) n by (simp add: groups_full whole_full)
  qed (simp add: whole_short)
qed

lemma emit_digits_eq:
  "0 < w \<Longrightarrow> emit_digits w acc n = (map (\<lambda>g. radixDigits ! bits_val g) (whole w (bits_of n acc)), n mod w)"
proof (induction n rule: less_induct)
  case (less n)
  show ?case
  proof (cases "n < w")
    case True
    then show ?thesis by (simp add: emit_digits.simps whole_short)
  next
    case False
    then have "bits_of n acc = bits_of w (drop_bit (n - w) acc) @ bits_of (n - w) acc"
      by (simp flip: bits_of_append)
    then have "whole w (bits_of n acc) = bits_of w (drop_bit (n - w) acc) # whole w (bits_of (n - w) acc)"
      using less(2) by (simp add: whole_full)
    moreover have "emit_digits w acc (n - w)
        = (map (\<lambda>g. radixDigits ! bits_val g) (whole w (bits_of (n - w) acc)), n mod w)"
      using less False by (simp add: mod_if [of n])
    ultimately show ?thesis
      using False less(2) by (subst emit_digits.simps) (simp add: mask_word bits_val_bits_of_word Let_def del: push_bit_of_1)
  qed
qed

lemma last_digit:
  fixes acc :: "64 word"
  assumes "n \<le> w" "w \<le> 64"
  shows "bits_val (bits_of n acc @ replicate (w - n) False)
    = unat (push_bit (w - n) acc AND (push_bit w 1 - 1))"
proof -
  have "bits_of n acc @ replicate (w - n) False = bits_of w (push_bit (w - n) acc OR 0)"
    using assms bits_of_push [of n "w - n" 0 acc]
    by (simp add: bits_of_zero)
  then show ?thesis unfolding mask_word by (simp add: bits_val_bits_of_word)
qed

lemma encode_loop_eq:
  "0 < w \<Longrightarrow> w \<le> 8 \<Longrightarrow> n < w \<Longrightarrow>
   encode_loop w b acc n = map (\<lambda>g. radixDigits ! bits_val g) (groups w (bits_of n acc @ byte_bits b))"
proof (induction b arbitrary: acc n)
  case Nil
  then show ?case by (cases "n = 0") (simp_all add: byte_bits_def groups_short last_digit flip: length_0_conv del: push_bit_of_1)
next
  case (Cons c b)
  let ?acc = "push_bit 8 acc OR of_nat (of_char c) :: 64 word"
  let ?m = "(n + 8) mod w"
  have "bits_of (n + 8) ?acc = bits_of n acc @ bits_of 8 (of_char c :: nat)"
    using Cons(4,3) high_bits [OF of_char_less [of c]] by (subst bits_of_push) (simp_all add: bits_of_word_nat)
  then have "groups w (bits_of n acc @ byte_bits (c # b))
      = whole w (bits_of (n + 8) ?acc) @ groups w (bits_of ?m ?acc @ byte_bits b)"
    using groups_word [of w "n + 8" ?acc] Cons(2) by (simp add: byte_bits_def)
  then show ?case
    using Cons.IH [of ?m "?acc AND (push_bit ?m 1 - 1)"] Cons(2,3)
    by (simp add: emit_digits_eq bits_of_mask Let_def del: push_bit_of_1)
qed

lemma encodeBits_groups:
  "0 < w \<Longrightarrow> w \<le> 8 \<Longrightarrow> encodeBits b w = map (\<lambda>g. radixDigits ! bits_val g) (groups w (byte_bits b))"
  by (simp add: encodeBits_def encode_loop_eq)

definition radix_val :: "char \<Rightarrow> nat" where
  "radix_val c = (case IndexByte radixDigits (lowerASCII c) of Some d \<Rightarrow> d | None \<Rightarrow> 16)"

lemma decode_loop_eq:
  "0 < w \<Longrightarrow> w \<le> 4 \<Longrightarrow> n < 8 \<Longrightarrow>
   decode_loop w s acc n =
     (case find (\<lambda>c. 2 ^ w \<le> radix_val c) s of
        Some c \<Rightarrow> Inl (InvalidDigit c (2 ^ w))
      | None \<Rightarrow> Inr (bits_bytes (bits_of n acc @ concat (map (\<lambda>c. bits_of w (radix_val c)) s))))"
proof (induction s arbitrary: acc n)
  case Nil
  then show ?case by (simp add: bits_bytes_short)
next
  case (Cons c s)
  have w16: "(2 :: nat) ^ w \<le> 16" using power_increasing [of w 4 "2 :: nat"] Cons(3) by simp
  show ?case
  proof (cases "2 ^ w \<le> radix_val c")
    case True
    then show ?thesis by (auto simp: radix_val_def split: option.splits)
  next
    case False
    then have d: "IndexByte radixDigits (lowerASCII c) = Some (radix_val c)" "radix_val c < 2 ^ w"
      using w16 by (auto simp: radix_val_def split: option.splits)
    define a where "a = push_bit w acc OR (of_nat (radix_val c) :: 64 word)"
    let ?m = "n + w - 8"
    have b: "bits_of n acc @ bits_of w (radix_val c) = bits_of (n + w) a"
      unfolding a_def using Cons(3,4) d(2) by (subst bits_of_push) (simp_all add: bits_of_word_nat high_bits)
    let ?r = "concat (map (\<lambda>c. bits_of w (radix_val c)) s)"
    have r: "bits_of n acc @ concat (map (\<lambda>c. bits_of w (radix_val c)) (c # s)) = bits_of (n + w) a @ ?r"
      by (simp flip: b)
    show ?thesis
    proof (cases "8 \<le> n + w")
      case True
      then have "bits_bytes (bits_of (n + w) a @ ?r) = char_of (unat (drop_bit ?m a)) # bits_bytes (bits_of ?m a @ ?r)"
        using bits_of_append [of 8 ?m a] by (simp add: bits_bytes_Cons char_of_bits del: char_of_mod_256)
      then show ?thesis
        unfolding r decode_loop.simps
        using True False d Cons.IH [of ?m "a AND (push_bit ?m 1 - 1)"] Cons(2-4)
        by (simp add: bits_of_mask Let_def a_def [symmetric] del: push_bit_of_1 split: option.split)
    next
      case no: False
      then show ?thesis
        unfolding r decode_loop.simps
        using False d Cons.IH [of "n + w" a] Cons(2-4) by (simp add: Let_def a_def [symmetric])
    qed
  qed
qed

section \<open>Digits and their values\<close>

lemma bits_val_group: "g \<in> set (groups w bs) \<Longrightarrow> bits_val g < 2 ^ w"
  using bits_val_less [of g] by (simp add: groups_lengths)

lemma IndexByte_nth:
  assumes "distinct ds" "d < length ds"
  shows "IndexByte ds (ds ! d) = Some d"
proof -
  have "takeWhile (\<lambda>c. c \<noteq> ds ! d) ds = take d ds"
    using assms by (intro takeWhile_eq_take_P_nth) (auto simp: nth_eq_iff_index_eq)
  then show ?thesis using assms(2) by (simp add: IndexByte_def)
qed

lemma radix_digits: "length radixDigits = 16" "distinct radixDigits" "list_all (\<lambda>c. lowerASCII c = c) radixDigits"
  by code_simp+

lemma radix_val_digit: "d < 16 \<Longrightarrow> radix_val (radixDigits ! d) = d"
  using radix_digits IndexByte_nth [of radixDigits d]
  by (simp add: radix_val_def list_all_length)

lemma decode_encode:
  assumes "0 < w" "w \<le> 4"
  shows "decodeBits (encodeBits b w) w = Inr b"
proof -
  let ?G = "groups w (byte_bits b)"
  have "(2 :: nat) ^ w \<le> 16" using power_increasing [of w 4 "2 :: nat"] assms by simp
  then have v: "radix_val (radixDigits ! bits_val g) = bits_val g" "bits_val g < 2 ^ w" if "g \<in> set ?G" for g
    using bits_val_group [OF that] by (auto intro: radix_val_digit)
  have "find (\<lambda>c. 2 ^ w \<le> radix_val c) (encodeBits b w) = None"
    using v assms by (force simp: find_None_iff encodeBits_groups)
  moreover have "map (\<lambda>c. bits_of w (radix_val c)) (encodeBits b w) = map (\<lambda>g. bits_of w (bits_val g)) ?G"
    using v assms by (simp add: encodeBits_groups)
  ultimately show ?thesis using groups_back [of w b] assms by (simp add: decodeBits_def decode_loop_eq)
qed

lemma length_byte_bits: "length (byte_bits b) = 8 * length b"
  by (induction b) (simp_all add: byte_bits_def)

lemma length_groups: "0 < w \<Longrightarrow> length (groups w bs) = (length bs + w - 1) div w"
proof (induction w bs rule: groups.induct)
  case (1 w bs)
  consider "bs = []" | "bs \<noteq> []" "length bs < w" | "w \<le> length bs" by linarith
  then show ?case
  proof cases
    case 2
    then have "(length bs + w - 1) div w = 1"
      by (intro div_nat_eqI) (auto simp: Suc_le_eq neq_Nil_conv)
    then show ?thesis using 2 by (simp add: groups_short)
  next
    case 3
    then have "groups w bs = take w bs # groups w (drop w bs)"
      using 1(2) groups_full [of w "take w bs" "drop w bs"] by simp
    moreover have "(length bs + w - 1) div w = Suc ((length bs - w + w - 1) div w)"
      using 3 1(2) div_add_self2 [of w "length bs - 1"] by (cases bs) simp_all
    ultimately show ?thesis using 1 3 by fastforce
  qed (use 1 in simp)
qed

section \<open>Base 32 and base 64 are undone\<close>

lemma base_bytes_text:
  assumes "distinct digits" "length digits = 2 ^ w" "0 < w" "w \<le> 8"
    and set: "CHR ''='' \<notin> set digits" "CHR 0x0A \<notin> set digits" "CHR 0x0D \<notin> set digits"
    and fill: "\<And>n. fill (((8 * n + w - 1) div w) mod block)
        (replicate ((block - ((8 * n + w - 1) div w) mod block) mod block) CHR ''='')"
  shows "base_bytes digits w block fill (base_text digits w block b) = Inr b"
proof -
  let ?G = "groups w (byte_bits b)" and ?ds = "map (\<lambda>g. digits ! bits_val g) (groups w (byte_bits b))"
  let ?pad = "replicate ((block - length ?ds mod block) mod block) CHR ''=''"
  have i: "IndexByte digits (digits ! bits_val g) = Some (bits_val g)" "digits ! bits_val g \<in> set digits"
    if "g \<in> set ?G" for g
    using bits_val_group [OF that] assms(1,2) by (simp_all add: IndexByte_nth)
  have d: "set ?ds \<subseteq> set digits" using i(2) by auto
  have "filter (\<lambda>c. c \<noteq> CHR 0x0A \<and> c \<noteq> CHR 0x0D) (?ds @ ?pad) = ?ds @ ?pad"
    using d set by (intro filter_True) auto
  moreover have "takeWhile (\<lambda>c. c \<in> set digits) (?ds @ ?pad) = ?ds" "dropWhile (\<lambda>c. c \<in> set digits) (?ds @ ?pad) = ?pad"
    using d set(1) by (auto simp: takeWhile_append takeWhile_eq_Nil_iff dropWhile_append hd_replicate
        dropWhile_eq_Nil_conv dropWhile_eq_self_iff)
  moreover have "fill (length ?ds mod block) ?pad"
    using fill [of "length b"] assms(3) by (simp add: length_groups length_byte_bits)
  moreover have "digit_bytes digits w ?ds = b"
    using groups_back [of w b] assms(3,4) i(1) by (simp add: digit_bytes_def comp_def cong: map_cong)
  ultimately show ?thesis by (simp add: base_bytes_def base_text_def Let_def)
qed

lemma base32_digits: "length base32_digits = 32" "distinct base32_digits"
    "list_all (\<lambda>c. graphic c \<and> c \<noteq> CHR ''='') base32_digits"
  by code_simp+

lemma base64_digits: "length base64_digits = 64" "distinct base64_digits"
    "list_all (\<lambda>c. graphic c \<and> c \<noteq> CHR ''='') base64_digits"
  by code_simp+

lemma not_line_end: "list_all (\<lambda>c. graphic c \<and> c \<noteq> CHR ''='') ds \<Longrightarrow>
    CHR ''='' \<notin> set ds \<and> CHR 0x0A \<notin> set ds \<and> CHR 0x0D \<notin> set ds"
proof -
  have "\<not> graphic CHR 0x0A" "\<not> graphic CHR 0x0D" by (simp_all add: graphic_def)
  then show "list_all (\<lambda>c. graphic c \<and> c \<noteq> CHR ''='') ds \<Longrightarrow> ?thesis" unfolding list_all_iff by blast
qed

lemma fill64_ok:
  "fill64 (((8 * n + 6 - 1) div 6) mod 4) (replicate ((4 - ((8 * n + 6 - 1) div 6) mod 4) mod 4) CHR ''='')"
proof -
  define j where "j = ((8 * n + 6 - 1) div 6) mod 4"
  define r where "r = n mod 3"
  have "8 * n + 6 - 1 = 6 * (4 * (n div 3)) + (8 * r + 5)" using div_mult_mod_eq [of n 3] unfolding r_def by linarith
  then have "j = (4 * (n div 3) + (8 * r + 5) div 6) mod 4"
    unfolding j_def by (simp only: div_mult_self4 [OF zero_neq_numeral [symmetric]])
  then have "j = ((8 * r + 5) div 6) mod 4" by simp
  moreover have "r = 0 \<or> r = 1 \<or> r = 2"
    using mod_less_divisor [of 3 n] unfolding r_def by linarith
  ultimately have "j = 0 \<or> j = 2 \<or> j = 3" by (elim disjE) simp_all
  then show ?thesis
    unfolding j_def [symmetric] by (elim disjE) (simp_all add: fill64_def numeral_2_eq_2)
qed

lemma fill32_short: "j \<in> {2, 4, 5, 7} \<Longrightarrow> fill32 j (replicate (8 - j) CHR ''='')"
  unfolding insert_iff empty_iff by (elim disjE) (simp_all add: fill32_def numeral_eq_Suc)

lemma fill32_ok:
  "fill32 (((8 * n + 5 - 1) div 5) mod 8) (replicate ((8 - ((8 * n + 5 - 1) div 5) mod 8) mod 8) CHR ''='')"
proof -
  define j where "j = ((8 * n + 5 - 1) div 5) mod 8"
  define r where "r = n mod 5"
  have "8 * n + 5 - 1 = 5 * (8 * (n div 5)) + (8 * r + 4)" using div_mult_mod_eq [of n 5] unfolding r_def by linarith
  then have "j = (8 * (n div 5) + (8 * r + 4) div 5) mod 8"
    unfolding j_def by (simp only: div_mult_self4 [OF zero_neq_numeral [symmetric]])
  then have "j = ((8 * r + 4) div 5) mod 8" by simp
  moreover have "r = 0 \<or> r = 1 \<or> r = 2 \<or> r = 3 \<or> r = 4"
    using mod_less_divisor [of 5 n] unfolding r_def by linarith
  ultimately have "j = 0 \<or> j \<in> {2, 4, 5, 7}" by (elim disjE) simp_all
  then show ?thesis
    unfolding j_def [symmetric] using fill32_short [of j] by (elim disjE) (auto simp: fill32_def)
qed

lemma base32_back: "base_bytes base32_digits 5 8 fill32 (base_text base32_digits 5 8 b) = Inr b"
  using base32_digits not_line_end [OF base32_digits(3)] fill32_ok by (intro base_bytes_text) simp_all

lemma base64_back: "base_bytes base64_digits 6 4 fill64 (base_text base64_digits 6 4 b) = Inr b"
  using base64_digits not_line_end [OF base64_digits(3)] fill64_ok by (intro base_bytes_text) simp_all

lemma base64_graphic: "list_all graphic (base_text base64_digits 6 4 b)"
proof -
  have "graphic (base64_digits ! bits_val g)" if "g \<in> set (groups 6 (byte_bits b))" for g
    using bits_val_group [OF that] base64_digits by (simp add: list_all_length)
  moreover have "graphic CHR ''=''" by (simp add: graphic_def)
  ultimately show ?thesis by (auto simp: base_text_def Let_def list_all_iff)
qed

lemma join_fields_graphic: "list_all graphic s \<Longrightarrow> join_fields (s @ t) = s @ join_fields t"
  by (induction s) (simp, subst join_fields.simps, simp add: space_len_graphic)

lemma join_fields_lines: "list_all graphic s \<Longrightarrow> join_fields (lines76 s) = s"
proof (induction s rule: lines76.induct)
  case (1 s)
  have nil: "join_fields [] = []" by (simp add: join_fields.simps)
  have nl: "join_fields (CHR 0x0A # r) = join_fields r" for r
    by (subst join_fields.simps) (simp add: space_len_def ascii_space_def)
  have g: "list_all graphic (take 76 s)" "list_all graphic (drop 76 s)"
    using 1(2) by (auto simp: list_all_iff dest: in_set_takeD in_set_dropD)
  show ?case
    using 1 g join_fields_graphic [of s "[]"]
    by (subst lines76.simps) (auto simp: join_fields_graphic nl nil)
qed

section \<open>Every format is undone by the opposite cast\<close>

lemma format_names:
  "formatBytesAsString b f = Inr s \<Longrightarrow> f = ''HEX'' \<or> f = ''BASE16'' \<or> f = ''BASE2'' \<or> f = ''BASE8''
     \<or> f = ''BASE32'' \<or> f = ''BASE64'' \<or> f = ''BASE64M'' \<or> f = ''ASCII'' \<or> f = ''UTF-8'' \<or> f = ''UTF8''"
  by (rule ccontr) (simp add: formatBytesAsString_def)

text \<open>C15. A BYTES value cast to STRING with any of the formats HEX, BASE16, BASE2, BASE8,
  BASE32, BASE64, BASE64M, ASCII, UTF-8 and UTF8 is recovered by casting the text back with the
  same format.\<close>

theorem cast_bytes_roundtrip:
  assumes "formatBytesAsString b f = Inr s"
  shows "parseStringAsBytes s f = Inr b"
proof -
  have "join_fields (base_text base64_digits 6 4 b) = base_text base64_digits 6 4 b"
    using join_fields_graphic [OF base64_graphic, of b "[]"] by (simp add: join_fields.simps)
  note undo = this decode_encode base32_back base64_back join_fields_lines [OF base64_graphic]
  from format_names [OF assms] show ?thesis
    using assms
    by (elim disjE; clarsimp simp: formatBytesAsString_def parseStringAsBytes_def undo split: if_splits)
qed

theorem cast_bytes_roundtrip_witness:
  "parseStringAsBytes ''AP8='' ''BASE64'' = Inr [CHR 0x00, CHR 0xFF]
   \<and> parseStringAsBytes ''001774'' ''BASE8'' = Inr [CHR 0x00, CHR 0xFF]"
proof -
  have "formatBytesAsString [CHR 0x00, CHR 0xFF] ''BASE64'' = Inr ''AP8=''"
    "formatBytesAsString [CHR 0x00, CHR 0xFF] ''BASE8'' = Inr ''001774''" by code_simp+
  then show ?thesis
    using cast_bytes_roundtrip [of "[CHR 0x00, CHR 0xFF]" "''BASE64''"]
      cast_bytes_roundtrip [of "[CHR 0x00, CHR 0xFF]" "''BASE8''"] by blast
qed

end
