(* ===== verification/Cast_Number.thy ===== *)
theory Cast_Number
  imports Complex_Main Go_Strings
begin

text \<open>
  \<open>CAST(number AS STRING FORMAT ...)\<close> (\<open>cast_format_numeric.go\<close>): the format parser and the
  layout of a number. The value is an exact rational, as in the code (\<open>big.Rat\<close>); a FLOAT64 that is
  NaN or infinite arrives as a flag.
\<close>

section \<open>Number formats\<close>

datatype numberSign = signDefault | signLeadingS | signTrailingS | signMI | signPR

record numberFormat =
  intElems :: string
  intDigits :: nat
  zeroFrom :: "nat option"
  fracDigits :: nat
  hasPoint :: bool
  nf_sign :: numberSign
  currency :: string
  fm :: bool
  blankZero :: bool

datatype number_error =
    MINotLast | PRNotLast | UnsupportedElement | SecondPoint | GroupAfterPoint
  | InvalidElement char | NoDigitElements | FormatNaN

definition empty_format :: numberFormat where
  "empty_format = \<lparr>intElems = [], intDigits = 0, zeroFrom = None, fracDigits = 0, hasPoint = False,
     nf_sign = signDefault, currency = [], fm = False, blankZero = False\<rparr>"

text \<open>The one-character elements, with the flag \<open>seenDigit\<close>.\<close>

definition number_char :: "char \<Rightarrow> numberFormat \<Rightarrow> bool \<Rightarrow> number_error + numberFormat \<times> bool" where
  "number_char c f seen =
     (if c = CHR ''0'' \<or> c = CHR ''9'' then
        (if hasPoint f then Inr (f\<lparr>fracDigits := fracDigits f + 1\<rparr>, True)
         else let f = (if c = CHR ''0'' \<and> zeroFrom f = None then f\<lparr>zeroFrom := Some (length (intElems f))\<rparr> else f)
              in Inr (f\<lparr>intElems := intElems f @ [c], intDigits := intDigits f + 1\<rparr>, True))
      else if c = CHR ''.'' \<or> c = CHR ''D'' \<or> c = CHR ''d'' then
        (if hasPoint f then Inl SecondPoint else Inr (f\<lparr>hasPoint := True\<rparr>, seen))
      else if c = CHR '','' \<or> c = CHR ''G'' \<or> c = CHR ''g'' then
        (if hasPoint f then Inl GroupAfterPoint else Inr (f\<lparr>intElems := intElems f @ '',''\<rparr>, seen))
      else if c = CHR ''S'' \<or> c = CHR ''s'' then
        (if \<not> seen \<and> \<not> hasPoint f \<and> currency f = [] then Inr (f\<lparr>nf_sign := signLeadingS\<rparr>, seen)
         else Inr (f\<lparr>nf_sign := signTrailingS\<rparr>, seen))
      else if c = CHR ''$'' \<or> c = CHR ''L'' \<or> c = CHR ''l'' then Inr (f\<lparr>currency := ''$''\<rparr>, seen)
      else if c = CHR ''C'' then Inr (f\<lparr>currency := ''USD''\<rparr>, seen)
      else if c = CHR ''c'' then Inr (f\<lparr>currency := ''usd''\<rparr>, seen)
      else if c = CHR ''B'' \<or> c = CHR ''b'' then Inr (f\<lparr>blankZero := True\<rparr>, seen)
      else Inl (InvalidElement c))"

function number_loop :: "string \<Rightarrow> numberFormat \<Rightarrow> bool \<Rightarrow> number_error + numberFormat" where
  "number_loop s f seen =
     (if s = [] then Inr f
      else let up = upper_text s
           in if prefix ''FM'' up then number_loop (drop 2 s) (f\<lparr>fm := True\<rparr>) seen
              else if prefix ''MI'' up then
                (if length s \<noteq> 2 then Inl MINotLast else number_loop (drop 2 s) (f\<lparr>nf_sign := signMI\<rparr>) seen)
              else if prefix ''PR'' up then
                (if length s \<noteq> 2 then Inl PRNotLast else number_loop (drop 2 s) (f\<lparr>nf_sign := signPR\<rparr>) seen)
              else if prefix ''EEEE'' up \<or> prefix ''RN'' up \<or> prefix ''V'' up \<or> prefix ''X'' up then
                Inl UnsupportedElement
              else (case number_char (hd s) f seen of
                      Inl e \<Rightarrow> Inl e
                    | Inr (f, seen) \<Rightarrow> number_loop (drop 1 s) f seen))"
  by pat_completeness auto
termination
  by (relation "measure (\<lambda>(s, _, _). length s)") auto

declare number_loop.simps [simp del]

definition parseNumberFormat :: "string \<Rightarrow> number_error + numberFormat" where
  "parseNumberFormat format =
     bind_res (number_loop format empty_format False)
       (\<lambda>f. if intDigits f = 0 \<and> fracDigits f = 0 then Inl NoDigitElements else Inr f)"

section \<open>Layout of a number\<close>

text \<open>\<open>QuoRem\<close> on numerator and denominator, and the step away from zero at one half.\<close>

definition round_half :: "rat \<Rightarrow> nat" where
  "round_half x =
     (let (n, d) = quotient_of x; q = n div d; r = n mod d
      in nat (if d \<le> r * 2 then q + 1 else q))"

text \<open>The loop that fills the integer elements from the right; \<open>di\<close> is the next digit.\<close>

fun fill_int :: "numberFormat \<Rightarrow> bool \<Rightarrow> bool \<Rightarrow> string \<Rightarrow> nat \<Rightarrow> int \<Rightarrow> string" where
  "fill_int f overflow intZero intStr 0 di = []"
| "fill_int f overflow intZero intStr (Suc i) di =
     (if intElems f ! i = CHR '','' then fill_int f overflow intZero intStr i di @ '',''
      else fill_int f overflow intZero intStr i (di - 1) @
        [if overflow then CHR ''#''
         else if 0 \<le> di then intStr ! nat di
         else if zeroFrom f \<noteq> None \<and> the (zeroFrom f) \<le> i then CHR ''0''
         else if i = length (intElems f) - 1 \<and> intZero \<and> fracDigits f = 0 then CHR ''0''
         else CHR '' ''])"

fun blank_separators :: "string \<Rightarrow> string" where
  "blank_separators [] = []"
| "blank_separators (c # s) =
     (if c \<noteq> CHR '','' \<and> c \<noteq> CHR '' '' then c # s else CHR '' '' # blank_separators s)"

definition trim_zeros_left :: "string \<Rightarrow> string" where
  "trim_zeros_left s = dropWhile (\<lambda>c. c = CHR ''0'') s"

definition trim_zeros_right :: "string \<Rightarrow> string" where
  "trim_zeros_right s = rev (trim_zeros_left (rev s))"

text \<open>The digits of the rounded value: before and after the point.\<close>

definition number_digits :: "numberFormat \<Rightarrow> nat \<Rightarrow> string" where
  "number_digits f q =
     (let ds = dec_nat q in replicate (fracDigits f + 1 - length ds) CHR ''0'' @ ds)"

definition lead_sign :: "numberFormat \<Rightarrow> bool \<Rightarrow> string" where
  "lead_sign f neg =
     (case nf_sign f of
        signDefault \<Rightarrow> if neg then ''-'' else if \<not> fm f then '' '' else []
      | signLeadingS \<Rightarrow> if neg then ''-'' else ''+''
      | signPR \<Rightarrow> if neg then ''<'' else if \<not> fm f then '' '' else []
      | _ \<Rightarrow> [])"

definition trail_sign :: "numberFormat \<Rightarrow> bool \<Rightarrow> string" where
  "trail_sign f neg =
     (case nf_sign f of
        signTrailingS \<Rightarrow> if neg then ''-'' else ''+''
      | signMI \<Rightarrow> if neg then ''-'' else if \<not> fm f then '' '' else []
      | signPR \<Rightarrow> if neg then ''>'' else if \<not> fm f then '' '' else []
      | _ \<Rightarrow> [])"

definition layout_number :: "numberFormat \<Rightarrow> bool \<Rightarrow> nat \<Rightarrow> string" where
  "layout_number f neg q =
     (let digits = number_digits f q;
          intStr0 = take (length digits - fracDigits f) digits;
          fracStr = drop (length digits - fracDigits f) digits;
          intStr = trim_zeros_left intStr0;
          intZero = (intStr = []);
          overflow = intDigits f < length intStr;
          intOut = blank_separators
            (fill_int f overflow intZero intStr (length (intElems f)) (int (length intStr) - 1));
          lead = length (takeWhile (\<lambda>c. c = CHR '' '') intOut);
          body = drop lead intOut @
            (if hasPoint f then CHR ''.'' # (if overflow then replicate (fracDigits f) CHR ''#'' else fracStr) else []);
          number = (if fm f \<and> hasPoint f \<and> \<not> overflow then trim_zeros_right body else body);
          s = (if fm f then [] else replicate lead CHR '' '') @ lead_sign f neg @ currency f @ number
              @ trail_sign f neg
      in if blankZero f \<and> intZero then replicate (length s) CHR '' '' else s)"

definition formatNumberElements :: "rat \<Rightarrow> bool \<Rightarrow> string \<Rightarrow> number_error + string" where
  "formatNumberElements r isNaN format =
     bind_res (parseNumberFormat format)
       (\<lambda>f. if isNaN then Inl FormatNaN
            else Inr (layout_number f (r < 0) (round_half (\<bar>r\<bar> * 10 ^ fracDigits f))))"

section \<open>Parsed formats\<close>

definition number_plain :: "char \<Rightarrow> bool" where
  "number_plain c \<longleftrightarrow> \<not> is_digit c \<and> c \<noteq> CHR ''-'' \<and> c \<noteq> CHR ''<''"

definition number_format_ok :: "numberFormat \<Rightarrow> bool" where
  "number_format_ok f \<longleftrightarrow>
     intDigits f = length (filter (\<lambda>c. c \<noteq> CHR '','') (intElems f))
     \<and> (hasPoint f \<or> fracDigits f = 0) \<and> list_all number_plain (currency f)"

lemma number_char_ok:
  "number_char c f seen = Inr (g, b) \<Longrightarrow> number_format_ok f \<Longrightarrow> number_format_ok g"
  by (simp add: number_char_def Let_def split: if_splits; elim conjE; hypsubst;
      simp add: number_format_ok_def number_plain_def is_digit_def; elim disjE; simp)

lemma number_loop_ok: "number_loop s f seen = Inr g \<Longrightarrow> number_format_ok f \<Longrightarrow> number_format_ok g"
proof (induction s f seen rule: number_loop.induct)
  case (1 s f seen)
  have ok: "number_format_ok (f\<lparr>fm := True\<rparr>)" "number_format_ok (f\<lparr>nf_sign := x\<rparr>)" for x
    using 1(6) by (simp_all add: number_format_ok_def)
  from 1(5) show ?case
    using 1(1) [OF _ refl _ _ ok(1)] 1(2) [OF _ refl _ _ _ _ ok(2)] 1(3) [OF _ refl _ _ _ _ _ ok(2)]
      1(4) [OF _ refl] 1(6) number_char_ok [of "hd s" f seen]
    by (subst (asm) number_loop.simps) (auto simp: Let_def split: if_splits sum.splits prod.splits)
qed

lemma parseNumberFormat_ok: "parseNumberFormat fmt = Inr f \<Longrightarrow> number_format_ok f"
  using number_loop_ok [of fmt empty_format False]
  by (auto simp: parseNumberFormat_def bind_res_Inr_iff number_format_ok_def empty_format_def split: if_splits)

section \<open>Rounding\<close>

lemma round_half_eq: "0 \<le> x \<Longrightarrow> round_half x = nat \<lfloor>x + 1 / 2\<rfloor>"
proof -
  assume "0 \<le> x"
  obtain n d where nd: "quotient_of x = (n, d)" by (cases "quotient_of x")
  have d: "0 < d" and x: "x = of_int n / of_int d"
    using quotient_of_denom_pos [OF nd] quotient_of_div [OF nd] by simp_all
  have r: "0 \<le> n mod d" "n mod d < d" using d by simp_all
  have "of_int n = (of_int (n div d) * of_int d + of_int (n mod d) :: rat)"
    by (metis div_mult_mod_eq of_int_add of_int_mult)
  then have e: "x = of_int (n div d) + of_int (n mod d) / of_int d"
    using d by (simp add: x field_simps)
  show ?thesis
  proof (cases "d \<le> n mod d * 2")
    case True
    then have "1 / 2 \<le> of_int (n mod d) / (of_int d :: rat)" "of_int (n mod d) / (of_int d :: rat) < 1"
      using d r by (simp_all add: field_simps flip: of_int_mult)
    then have "\<lfloor>x + 1 / 2\<rfloor> = n div d + 1"
      unfolding e by (intro floor_unique) (unfold of_int_add of_int_1, linarith+)
    then show ?thesis using True nd by (simp add: round_half_def Let_def)
  next
    case False
    then have "of_int (n mod d) / (of_int d :: rat) < 1 / 2" "0 \<le> of_int (n mod d) / (of_int d :: rat)"
      using d r by (simp_all add: field_simps flip: of_int_mult)
    then have "\<lfloor>x + 1 / 2\<rfloor> = n div d"
      unfolding e by (intro floor_unique) linarith+
    then show ?thesis using False nd by (simp add: round_half_def Let_def)
  qed
qed

section \<open>Digits of the layout\<close>

lemma fill_int_digits:
  assumes "\<forall>c \<in> set s. is_digit c"
  shows "di < int (length s) \<Longrightarrow> di < int (length (filter (\<lambda>c. c \<noteq> CHR '','') (take i (intElems f)))) \<Longrightarrow>
    i \<le> length (intElems f) \<Longrightarrow>
    \<exists>k. filter is_digit (fill_int f False z s i di) = replicate k CHR ''0'' @ take (nat (di + 1)) s"
proof (induction i arbitrary: di)
  case (Suc i)
  have t: "take (Suc i) (intElems f) = take i (intElems f) @ [intElems f ! i]"
    using Suc.prems(3) by (simp add: take_Suc_conv_app_nth)
  show ?case
  proof (cases "intElems f ! i = CHR '',''")
    case True
    then show ?thesis using Suc.IH [of di] Suc.prems by (simp add: t is_digit_def)
  next
    case False
    then obtain k where k: "filter is_digit (fill_int f False z s i (di - 1)) = replicate k CHR ''0'' @ take (nat di) s"
      using Suc.IH [of "di - 1"] Suc.prems by (auto simp: t)
    show ?thesis
    proof (cases "0 \<le> di")
      case True
      then have "nat di < length s" "nat (di + 1) = Suc (nat di)" using Suc.prems(1) by linarith+
      then show ?thesis using False True k assms(1) by (auto simp: take_Suc_conv_app_nth)
    next
      case neg: False
      then have k0: "filter is_digit (fill_int f False z s i (di - 1)) = replicate k CHR ''0''" "nat (di + 1) = 0"
        using k by simp_all
      obtain x where "fill_int f False z s (Suc i) di = fill_int f False z s i (di - 1) @ [x]"
          "x = CHR ''0'' \<or> x = CHR '' ''"
        using False neg by auto
      moreover have "\<not> is_digit CHR '' ''" by (simp add: is_digit_def)
      ultimately show ?thesis
        using k0 by (elim disjE) (auto simp: replicate_append_same intro: exI [of _ k] exI [of _ "Suc k"])
    qed
  qed
qed simp

lemma fill_int_overflow: "filter is_digit (fill_int f True z s i di) = []"
  by (induction i arbitrary: di) (simp_all add: is_digit_def)

lemma length_fill_int: "length (fill_int f ov z s i di) = i"
  by (induction i arbitrary: di) auto

lemma blank_separators_length [simp]: "length (blank_separators s) = length s"
  by (induction s) auto

lemma blank_separators_digits [simp]: "filter is_digit (blank_separators s) = filter is_digit s"
  by (induction s) (auto simp: is_digit_def)

lemma fill_int_plain:
  "\<forall>c \<in> set s. is_digit c \<Longrightarrow> di < int (length s) \<Longrightarrow> c \<in> set (fill_int f ov z s i di) \<Longrightarrow>
     is_digit c \<or> number_plain c"
proof (induction i arbitrary: di)
  case (Suc i)
  have "number_plain CHR '',''" "number_plain CHR ''#''" "number_plain CHR '' ''" by (simp_all add: number_plain_def is_digit_def)
  then show ?case using Suc.IH [of di] Suc.IH [of "di - 1"] Suc.prems
    by (auto split: if_splits simp: nth_mem)
qed simp

lemma blank_separators_set: "c \<in> set (blank_separators s) \<Longrightarrow> c \<in> set s \<or> c = CHR '' ''"
  by (induction s) (auto split: if_splits)

lemma drop_lead:
  "filter is_digit (drop (length (takeWhile (\<lambda>c. c = CHR '' '') s)) s) = filter is_digit s"
proof -
  have "filter is_digit (takeWhile (\<lambda>c. c = CHR '' '') s) = []"
    by (auto simp: filter_empty_conv is_digit_def dest: set_takeWhileD)
  then have "filter is_digit s = filter is_digit (dropWhile (\<lambda>c. c = CHR '' '') s)"
    by (metis append_Nil filter_append takeWhile_dropWhile_id)
  then show ?thesis by (simp flip: dropWhile_eq_drop)
qed

lemma trim_zeros_val:
  "digits_val (trim_zeros_left s @ t) = digits_val (s @ t)"
  "trim_zeros_left s = [] \<or> hd (trim_zeros_left s) \<noteq> CHR ''0''"
proof -
  have "takeWhile (\<lambda>c. c = CHR ''0'') s = replicate (length (takeWhile (\<lambda>c. c = CHR ''0'') s)) CHR ''0''"
    by (intro replicate_eqI) (auto dest: set_takeWhileD)
  then have "digits_val (takeWhile (\<lambda>c. c = CHR ''0'') s) = 0" by (metis digits_val_zeros)
  moreover have "s @ t = takeWhile (\<lambda>c. c = CHR ''0'') s @ trim_zeros_left s @ t"
    by (simp add: trim_zeros_left_def)
  ultimately show "digits_val (trim_zeros_left s @ t) = digits_val (s @ t)"
    by (metis add_0 digits_val_append mult_0)
  show "trim_zeros_left s = [] \<or> hd (trim_zeros_left s) \<noteq> CHR ''0''"
    unfolding trim_zeros_left_def using hd_dropWhile [of "\<lambda>c. c = CHR ''0''" s] by blast
qed

text \<open>A number without leading zeros has at most \<open>k\<close> digits exactly below \<open>10^k\<close>.\<close>

lemma digit_zero: "is_digit c \<Longrightarrow> digit_val c = 0 \<Longrightarrow> c = CHR ''0''"
proof -
  assume "is_digit c" "digit_val c = 0"
  then have "of_char c = (48 :: nat)" by (simp add: digit_val_def is_digit_def)
  moreover have "of_char CHR ''0'' = (48 :: nat)" by simp
  ultimately show "c = CHR ''0''" by (metis of_char_eq_iff)
qed

lemma length_le_iff:
  assumes "\<forall>c \<in> set s. is_digit c" "s = [] \<or> hd s \<noteq> CHR ''0''"
  shows "length s \<le> k \<longleftrightarrow> digits_val s < 10 ^ k"
proof
  assume "length s \<le> k"
  then show "digits_val s < 10 ^ k"
    using digits_val_less [OF assms(1)] power_increasing [of "length s" k "10 :: nat"] by linarith
next
  assume less: "digits_val s < 10 ^ k"
  show "length s \<le> k"
  proof (cases s)
    case (Cons c r)
    then have "is_digit c" "c \<noteq> CHR ''0''" using assms by auto
    then have "1 \<le> digit_val c"
      using digit_zero [of c] by fastforce
    then have "10 ^ length r \<le> digits_val s"
      using digits_val_append [of "[c]" r] Cons mult_le_mono1 [of 1 "digit_val c" "10 ^ length r"]
      by (simp only: append_Cons append_Nil digits_val_def [of "[c]"] foldl.simps mult_0_right add_0 mult_1 trans_le_add1)
    then have "(10 :: nat) ^ length r < 10 ^ k" using less by linarith
    then show ?thesis using Cons power_less_imp_less_exp [of 10] by (simp add: Suc_le_eq)
  qed simp
qed

section \<open>The layout shows the rounded value\<close>

lemma number_digits_parts:
  fixes f :: numberFormat and q :: nat
  defines "d \<equiv> number_digits f q"
  defines "n \<equiv> length d - fracDigits f"
  shows "\<forall>c \<in> set d. is_digit c" and "digits_val d = q" and "fracDigits f \<le> length d"
    and "length (drop n d) = fracDigits f" and "digits_val (take n d) = q div 10 ^ fracDigits f"
proof -
  show a: "\<forall>c \<in> set d. is_digit c" by (auto simp: d_def number_digits_def Let_def)
  show b: "digits_val d = q" by (simp add: d_def number_digits_def Let_def digits_val_append)
  show c: "fracDigits f \<le> length d" by (simp add: d_def number_digits_def Let_def)
  then show e: "length (drop n d) = fracDigits f" by (simp add: n_def)
  have "\<forall>c \<in> set (drop n d). is_digit c" using a by (auto dest: in_set_dropD)
  then have "digits_val (drop n d) < 10 ^ fracDigits f" using digits_val_less [of "drop n d"] e by simp
  moreover have "q = digits_val (take n d) * 10 ^ fracDigits f + digits_val (drop n d)"
    using digits_val_append [of "take n d" "drop n d"] b e by simp
  ultimately show "digits_val (take n d) = q div 10 ^ fracDigits f" by simp
qed

definition sign_width :: "numberFormat \<Rightarrow> nat" where
  "sign_width f = (if nf_sign f = signPR then 2 else 1)"

definition number_width :: "numberFormat \<Rightarrow> nat" where
  "number_width f = sign_width f + length (currency f) + length (intElems f)
     + (if hasPoint f then fracDigits f + 1 else 0)"

lemma signs:
  "\<not> fm f \<Longrightarrow> length (lead_sign f neg) + length (trail_sign f neg) = sign_width f"
  "filter is_digit (lead_sign f neg) = []" "filter is_digit (trail_sign f neg) = []"
  "neg \<longleftrightarrow> (\<exists>c \<in> {CHR ''-'', CHR ''<''}. c \<in> set (lead_sign f neg) \<union> set (trail_sign f neg))"
  by (cases "nf_sign f"; simp add: lead_sign_def trail_sign_def sign_width_def is_digit_def)+

lemma layout_number_shows:
  fixes f :: numberFormat and neg :: bool and q :: nat
  assumes "number_format_ok f" "\<not> fm f"
  defines "s \<equiv> layout_number f neg q"
  shows "length s = number_width f"
    and "\<not> blankZero f \<Longrightarrow> q < 10 ^ (intDigits f + fracDigits f) \<Longrightarrow> digits_val (filter is_digit s) = q"
    and "10 ^ (intDigits f + fracDigits f) \<le> q \<Longrightarrow> filter is_digit s = []"
    and "\<not> blankZero f \<Longrightarrow> neg \<longleftrightarrow> (\<exists>c \<in> {CHR ''-'', CHR ''<''}. c \<in> set s)"
proof -
  define d where "d = number_digits f q"
  define n where "n = length d - fracDigits f"
  define intStr where "intStr = trim_zeros_left (take n d)"
  define ov where "ov = (intDigits f < length intStr)"
  define intOut where "intOut = blank_separators
    (fill_int f ov (intStr = []) intStr (length (intElems f)) (int (length intStr) - 1))"
  define lead where "lead = length (takeWhile (\<lambda>c. c = CHR '' '') intOut)"
  define tail where "tail = (if hasPoint f then CHR ''.'' # (if ov then replicate (fracDigits f) CHR ''#'' else drop n d) else [])"
  define core where "core = replicate lead CHR '' '' @ lead_sign f neg @ currency f @ drop lead intOut @ tail @ trail_sign f neg"
  have s: "s = (if blankZero f \<and> intStr = [] then replicate (length core) CHR '' '' else core)"
    using assms(2) unfolding s_def layout_number_def Let_def core_def tail_def lead_def intOut_def ov_def intStr_def n_def d_def
    by simp
  note parts = number_digits_parts [of f q, folded d_def, folded n_def]
  have dig: "\<forall>c \<in> set intStr. is_digit c"
    using parts(1) by (auto simp: intStr_def trim_zeros_left_def dest: set_dropWhileD in_set_takeD)
  have iv: "digits_val intStr = q div 10 ^ fracDigits f"
    using trim_zeros_val(1) [of "take n d" "[]"] parts(5) by (simp add: intStr_def)
  have ov: "ov \<longleftrightarrow> 10 ^ (intDigits f + fracDigits f) \<le> q"
  proof -
    have "ov \<longleftrightarrow> 10 ^ intDigits f \<le> q div 10 ^ fracDigits f"
      unfolding ov_def using length_le_iff [OF dig, of "intDigits f"] trim_zeros_val(2) [of "take n d"] iv
      unfolding intStr_def by linarith
    then show ?thesis by (simp add: less_eq_div_iff_mult_less_eq power_add)
  qed
  have "length intOut = length (intElems f)" by (simp add: intOut_def length_fill_int)
  moreover have "lead \<le> length intOut" unfolding lead_def by (rule length_takeWhile_le)
  ultimately have "length core = number_width f"
    using signs(1) [OF assms(2), of neg] parts(4) assms(1)
    by (simp add: core_def number_width_def tail_def)
  then show "length s = number_width f" by (simp add: s)
  have cur: "filter is_digit (currency f) = []"
    using assms(1) by (auto simp: number_format_ok_def list_all_iff number_plain_def filter_empty_conv)
  have fd: "filter is_digit core = filter is_digit intOut @ filter is_digit tail"
    using cur signs(2,3) [of f neg] drop_lead [of intOut] by (simp add: core_def lead_def is_digit_def [of "CHR '' ''"])
  show "filter is_digit s = []" if "10 ^ (intDigits f + fracDigits f) \<le> q"
  proof -
    have "filter is_digit core = []"
      unfolding fd using that ov by (simp add: intOut_def fill_int_overflow tail_def is_digit_def)
    then show ?thesis using that ov by (auto simp: s ov_def)
  qed
  show "digits_val (filter is_digit s) = q" if "\<not> blankZero f" "q < 10 ^ (intDigits f + fracDigits f)"
  proof -
    have no: "\<not> ov" using ov that(2) by simp
    then obtain k where "filter is_digit intOut = replicate k CHR ''0'' @ intStr"
      using fill_int_digits [OF dig, of "int (length intStr) - 1" "length (intElems f)" f "intStr = []"] assms(1)
      by (auto simp: intOut_def number_format_ok_def ov_def)
    moreover have "filter is_digit tail = drop n d"
      using no assms(1) parts(1,4) by (auto simp: tail_def number_format_ok_def is_digit_def [of "CHR ''.''"] dest: in_set_dropD intro!: filter_True)
    ultimately have "digits_val (filter is_digit core) = digits_val (intStr @ drop n d)"
      by (simp add: fd digits_val_append [of "replicate k _"])
    also have "\<dots> = q" using trim_zeros_val(1) [of "take n d" "drop n d"] parts(2) by (simp add: intStr_def)
    finally show ?thesis using that(1) by (simp add: s)
  qed
  have digit_sign: "\<not> is_digit CHR ''-''" "\<not> is_digit CHR ''<''" by (simp_all add: is_digit_def)
  have plain: "number_plain CHR '' ''" "number_plain CHR ''.''" "number_plain CHR ''#''"
    by (simp_all add: number_plain_def is_digit_def)
  have "is_digit c \<or> number_plain c" if "c \<in> set intOut" for c
  proof -
    from that consider "c \<in> set (fill_int f ov (intStr = []) intStr (length (intElems f)) (int (length intStr) - 1))"
      | "c = CHR '' ''" unfolding intOut_def using blank_separators_set by blast
    then show ?thesis
    proof cases
      case 1
      then show ?thesis by (rule fill_int_plain [OF dig, rotated]) simp
    qed (simp add: plain(1))
  qed
  moreover have "is_digit c \<or> number_plain c" if "c \<in> set tail" for c
    using that plain(2,3) parts(1) by (auto simp: tail_def split: if_splits dest: in_set_dropD)
  moreover have "number_plain c" if "c \<in> set (currency f)" for c
    using that assms(1) by (simp add: number_format_ok_def list_all_iff)
  ultimately have "is_digit c \<or> number_plain c \<or> c \<in> set (lead_sign f neg) \<union> set (trail_sign f neg)"
    if "c \<in> set core" for c
    using that plain(1) by (auto simp: core_def dest: in_set_dropD)
  then have "c \<in> set core \<longleftrightarrow> c \<in> set (lead_sign f neg) \<union> set (trail_sign f neg)"
    if "c \<in> {CHR ''-'', CHR ''<''}" for c
    using that digit_sign by (auto simp: number_plain_def core_def)
  then show "neg \<longleftrightarrow> (\<exists>c \<in> {CHR ''-'', CHR ''<''}. c \<in> set s)" if "\<not> blankZero f"
    using that signs(4) [of neg f] by (simp add: s)
qed

text \<open>C18. A number cast to STRING with a format without FM has a text whose width is fixed by
  the format. Without the B element and with enough digit elements, the digits of the text are the
  digits of the value rounded half away from zero to the fraction digits of the format; with too few,
  the text has no digit at all. A minus sign or an opening angle bracket stands there exactly for a
  negative number.\<close>

theorem cast_number_layout:
  assumes "parseNumberFormat fmt = Inr f" "\<not> fm f"
  shows "\<exists>s. formatNumberElements r False fmt = Inr s \<and> length s = number_width f
    \<and> (let q = nat \<lfloor>\<bar>r\<bar> * 10 ^ fracDigits f + 1 / 2\<rfloor>
       in if 10 ^ (intDigits f + fracDigits f) \<le> q then filter is_digit s = []
          else blankZero f \<or> digits_val (filter is_digit s) = q)
    \<and> (blankZero f \<or> (r < 0 \<longleftrightarrow> CHR ''-'' \<in> set s \<or> CHR ''<'' \<in> set s))"
proof -
  have q: "round_half (\<bar>r\<bar> * 10 ^ fracDigits f) = nat \<lfloor>\<bar>r\<bar> * 10 ^ fracDigits f + 1 / 2\<rfloor>"
    by (rule round_half_eq) simp
  note lay = layout_number_shows [OF parseNumberFormat_ok [OF assms(1)] assms(2),
      where neg = "r < 0" and q = "round_half (\<bar>r\<bar> * 10 ^ fracDigits f)", unfolded q]
  show ?thesis
    using lay assms(1) by (cases "blankZero f") (simp_all add: formatNumberElements_def q Let_def not_le)
qed

theorem cast_number_layout_witness:
  "\<exists>s. formatNumberElements (- 25 / 2) False ''9,999.9'' = Inr s \<and> length s = 8
     \<and> digits_val (filter is_digit s) = 125 \<and> (CHR ''-'' \<in> set s \<or> CHR ''<'' \<in> set s)"
proof -
  define f where "f = \<lparr>intElems = ''9,999'', intDigits = 4, zeroFrom = None, fracDigits = 1,
      hasPoint = True, nf_sign = signDefault, currency = [], fm = False, blankZero = False\<rparr>"
  have p: "parseNumberFormat ''9,999.9'' = Inr f" unfolding f_def by code_simp
  have f: "number_width f = 8" "\<not> fm f" "fracDigits f = 1" "intDigits f = 4" "\<not> blankZero f"
    by (simp_all add: f_def number_width_def sign_width_def)
  have q: "nat \<lfloor>\<bar>- 25 / 2\<bar> * 10 ^ 1 + 1 / (2 :: rat)\<rfloor> = 125" by code_simp
  show ?thesis
    using cast_number_layout [OF p f(2), of "- 25 / 2"] f(5) unfolding f(1,3,4) q Let_def by simp
qed

end
