(* ===== verification/Time_Format.thy ===== *)
theory Time_Format
  imports Values String_Functions
begin

text \<open>
  FORMAT_DATE, PARSE_DATE and their relatives for DATETIME, TIME and TIMESTAMP: the \<open>%\<close> elements of
  \<open>functions/helper/datetime_time_parser.go\<close>. Formats and texts are lists of runes.

  A time in the parser has a location: UTC, a fixed offset after \<open>%Ez\<close>, or the time zone of the process
  after \<open>%s\<close>, which is an argument of the model (\<open>local_zone\<close>: the wall clock of an instant and the
  instant of a wall clock). The formatter gets the wall clock and the offset of the time it prints.
  The order in which Go visits the entries of a map is an argument, too.
\<close>

section \<open>Times with a location\<close>

datatype location = UTC | FixedZone int | Local

record local_zone =
  to_wall :: "gotime \<Rightarrow> gotime"
  from_wall :: "gotime \<Rightarrow> gotime"

record gtime =
  t_ns :: gotime
  t_loc :: location

definition wall :: "local_zone \<Rightarrow> gtime \<Rightarrow> gotime" where
  "wall z t = (case t_loc t of UTC \<Rightarrow> t_ns t | FixedZone off \<Rightarrow> t_ns t + off * 1000000000 | Local \<Rightarrow> to_wall z (t_ns t))"

definition at_wall :: "local_zone \<Rightarrow> location \<Rightarrow> gotime \<Rightarrow> gtime" where
  "at_wall z loc w = \<lparr>t_ns = (case loc of UTC \<Rightarrow> w | FixedZone off \<Rightarrow> w - off * 1000000000 | Local \<Rightarrow> from_wall z w),
     t_loc = loc\<rparr>"

text \<open>\<open>time.Date\<close> with some fields of \<open>t\<close> replaced.\<close>

definition with_year :: "local_zone \<Rightarrow> gtime \<Rightarrow> int \<Rightarrow> gtime" where
  "with_year z t y = (let w = wall z t in at_wall z (t_loc t)
     (Date y (Month w) (Day w) (Hour w) (Minute w) (Second w) (Nanosecond w)))"

definition with_month :: "local_zone \<Rightarrow> gtime \<Rightarrow> int \<Rightarrow> gtime" where
  "with_month z t m = (let w = wall z t in at_wall z (t_loc t)
     (Date (Year w) m (Day w) (Hour w) (Minute w) (Second w) (Nanosecond w)))"

definition with_day :: "local_zone \<Rightarrow> gtime \<Rightarrow> int \<Rightarrow> gtime" where
  "with_day z t d = (let w = wall z t in at_wall z (t_loc t)
     (Date (Year w) (Month w) d (Hour w) (Minute w) (Second w) (Nanosecond w)))"

definition with_hour :: "local_zone \<Rightarrow> gtime \<Rightarrow> int \<Rightarrow> gtime" where
  "with_hour z t h = (let w = wall z t in at_wall z (t_loc t)
     (Date (Year w) (Month w) (Day w) h (Minute w) (Second w) (Nanosecond w)))"

definition with_minute :: "local_zone \<Rightarrow> gtime \<Rightarrow> int \<Rightarrow> gtime" where
  "with_minute z t m = (let w = wall z t in at_wall z (t_loc t)
     (Date (Year w) (Month w) (Day w) (Hour w) m (Second w) (Nanosecond w)))"

definition with_second :: "local_zone \<Rightarrow> gtime \<Rightarrow> int \<Rightarrow> int \<Rightarrow> gtime" where
  "with_second z t s n = (let w = wall z t in at_wall z (t_loc t)
     (Date (Year w) (Month w) (Day w) (Hour w) (Minute w) s n))"

section \<open>Runes\<close>

definition lit :: "string \<Rightarrow> runes" where "lit s = map of_char s"

definition rune_digit :: "int \<Rightarrow> bool" where "rune_digit r \<longleftrightarrow> 48 \<le> r \<and> r \<le> 57"

definition runes_val :: "runes \<Rightarrow> int" where "runes_val rs = foldl (\<lambda>a r. 10 * a + (r - 48)) 0 rs"

text \<open>\<open>strconv.ParseInt(string(rs), 10, 64)\<close>.\<close>

definition parse_int64 :: "runes \<Rightarrow> int option" where
  "parse_int64 rs =
     (if list_all (\<lambda>r. 0 \<le> r \<and> r < 128) rs
      then (case ParseInt (map char_of rs) 64 of Inr v \<Rightarrow> Some v | Inl _ \<Rightarrow> None) else None)"

text \<open>\<open>strings.ToLower\<close> rune by rune, as far as the result is ASCII.\<close>

definition lower_rune :: "int \<Rightarrow> int" where
  "lower_rune r = (if 65 \<le> r \<and> r \<le> 90 then r + 32 else if r = 0x130 then 105 else if r = 0x212A then 107 else r)"

text \<open>Zero-padded printing: \<open>%0nd\<close> of a number that is not negative, and \<open>appendInt\<close> of package time.\<close>

definition pad_dec :: "nat \<Rightarrow> int \<Rightarrow> string" where
  "pad_dec n x = (let ds = dec_nat (nat \<bar>x\<bar>) in (if x < 0 then ''-'' else []) @ replicate (n - length ds) CHR ''0'' @ ds)"

definition dayOfWeeks :: "string list" where
  "dayOfWeeks = [''Sunday'', ''Monday'', ''Tuesday'', ''Wednesday'', ''Thursday'', ''Friday'', ''Saturday'']"

definition months :: "string list" where
  "months = [''January'', ''February'', ''March'', ''April'', ''May'', ''June'', ''July'', ''August'',
     ''September'', ''October'', ''November'', ''December'']"

section \<open>Parsers of the elements\<close>

datatype tf_error =
    InvalidTimeFormat | UnexpectedFormat | UnavailableFormat | InvalidTarget | ParseError | UnparsedText | Panic

type_synonym parser = "runes \<Rightarrow> gtime \<Rightarrow> tf_error + nat \<times> gtime"

definition time_SafeInt :: "int \<Rightarrow> tf_error + int" where
  "time_SafeInt v = (if v < - 2147483648 \<or> v > 2147483647 then Inl ParseError else Inr v)"

definition parseDigitRespectingOptionalPlaces :: "runes \<Rightarrow> int \<Rightarrow> int \<Rightarrow> tf_error + nat \<times> int" where
  "parseDigitRespectingOptionalPlaces text lo hi =
     (let parts = takeWhile rune_digit (take (length (dec_int hi)) text); v = runes_val parts
      in if text = [] \<or> parts = [] then Inl ParseError
         else if v > hi then Inl ParseError
         else if v < lo then Inl ParseError
         else Inr (length parts, v))"

definition number_parser :: "int \<Rightarrow> int \<Rightarrow> (gtime \<Rightarrow> int \<Rightarrow> gtime) \<Rightarrow> parser" where
  "number_parser lo hi upd text t =
     bind_res (parseDigitRespectingOptionalPlaces text lo hi) (\<lambda>(progress, v).
       bind_res (time_SafeInt v) (\<lambda>v. Inr (progress, upd t v)))"

definition createStaticTextParser :: "string \<Rightarrow> parser" where
  "createStaticTextParser s text t = (if take (length s) text = lit s then Inr (length s, t) else Inl ParseError)"

abbreviation (input) hyphenParser :: parser where "hyphenParser \<equiv> createStaticTextParser ''-''"
abbreviation (input) colonParser :: parser where "colonParser \<equiv> createStaticTextParser '':''"
abbreviation (input) slashParser :: parser where "slashParser \<equiv> createStaticTextParser ''/''"

fun composeParseFunctions :: "parser list \<Rightarrow> parser" where
  "composeParseFunctions [] text t = Inr (0, t)"
| "composeParseFunctions (p # ps) text t =
     bind_res (p text t) (\<lambda>(step, t).
       bind_res (composeParseFunctions ps (drop step text) t) (\<lambda>(progress, t). Inr (step + progress, t)))"

definition match_name :: "string \<Rightarrow> runes \<Rightarrow> bool" where
  "match_name name text \<longleftrightarrow> length name \<le> length text
     \<and> map lower_rune (take (length name) text) = map lower_rune (lit name)"

text \<open>The first entry of a table that starts the text, with its index.\<close>

fun find_name :: "string list \<Rightarrow> nat \<Rightarrow> runes \<Rightarrow> (nat \<times> nat) option" where
  "find_name [] i text = None"
| "find_name (n # ns) i text = (if match_name n text then Some (i, length n) else find_name ns (i + 1) text)"

definition weekOfDayParser :: parser where
  "weekOfDayParser text t = (case find_name dayOfWeeks 0 text of Some (_, n) \<Rightarrow> Inr (n, t) | None \<Rightarrow> Inl ParseError)"

definition shortWeekOfDayParser :: parser where
  "shortWeekOfDayParser text t =
     (case find_name (map (take 3) dayOfWeeks) 0 text of Some (_, n) \<Rightarrow> Inr (n, t) | None \<Rightarrow> Inl ParseError)"

definition monthParser :: "local_zone \<Rightarrow> parser" where
  "monthParser z text t =
     (case find_name months 0 text of Some (i, n) \<Rightarrow> Inr (n, with_month z t (int i + 1)) | None \<Rightarrow> Inl ParseError)"

definition shortMonthParser :: "local_zone \<Rightarrow> parser" where
  "shortMonthParser z text t =
     (case find_name (map (take 3) months) 0 text of
        Some (i, n) \<Rightarrow> let w = wall z t in Inr (n, at_wall z (t_loc t) (AddDate w 0 (int i + 1 - Month w) 0))
      | None \<Rightarrow> Inl ParseError)"

definition centuryParser :: "local_zone \<Rightarrow> parser" where
  "centuryParser z text t =
     (if length text < 2 then Inl ParseError
      else case parse_int64 (take 2 text) of
        None \<Rightarrow> Inl ParseError
      | Some c \<Rightarrow> if c < 0 then Inl ParseError
                  else bind_res (time_SafeInt (c * 100 - 99)) (\<lambda>y. Inr (2, with_year z t y)))"

definition yearWithoutCenturyParser :: "local_zone \<Rightarrow> parser" where
  "yearWithoutCenturyParser z =
     number_parser 0 99 (\<lambda>t y. with_year z t (if y \<ge> 69 then y + 1900 else y + 2000))"

definition yearParser :: "local_zone \<Rightarrow> parser" where "yearParser z = number_parser 1 9999 (with_year z)"
definition monthNumberParser :: "local_zone \<Rightarrow> parser" where "monthNumberParser z = number_parser 1 12 (with_month z)"
definition dayParser :: "local_zone \<Rightarrow> parser" where "dayParser z = number_parser 1 31 (with_day z)"
definition hourParser :: "local_zone \<Rightarrow> parser" where "hourParser z = number_parser 0 23 (with_hour z)"
definition hour12Parser :: "local_zone \<Rightarrow> parser" where "hour12Parser z = number_parser 1 12 (with_hour z)"
definition minuteParser :: "local_zone \<Rightarrow> parser" where "minuteParser z = number_parser 0 59 (with_minute z)"

definition secondParser :: "local_zone \<Rightarrow> parser" where
  "secondParser z = number_parser 0 59 (\<lambda>t s. with_second z t s (Nanosecond (wall z t)))"

definition dayOfYearParser :: "local_zone \<Rightarrow> parser" where
  "dayOfYearParser z = number_parser 1 366 (\<lambda>t d.
     let w = wall z t; stub = AddDate (Date (Year w) 1 1 0 0 0 0) 0 0 (d - 1)
     in at_wall z (t_loc t) (Date (Year w) (Month stub) (Day stub) (Hour w) (Minute w) (Second w) (Nanosecond w)))"

definition leadingSpaceAllowedParser :: parser where
  "leadingSpaceAllowedParser text t =
     (if length text < 2 then Inl ParseError else if hd text = 32 then Inr (1, t) else Inr (0, t))"

definition largeAMPMParser :: parser where
  "largeAMPMParser text t =
     (if length text < 2 then Inl ParseError
      else if map lower_rune (take 2 text) \<noteq> lit ''am'' \<and> map lower_rune (take 2 text) \<noteq> lit ''pm'' then Inl ParseError
      else Inr (2, t))"

definition unixtimeSecondsParser :: parser where
  "unixtimeSecondsParser text t =
     (if length text < 10 then Inl ParseError
      else case parse_int64 (take 10 text) of
        None \<Rightarrow> Inl ParseError
      | Some u \<Rightarrow> if u < 0 then Inl ParseError else Inr (10, \<lparr>t_ns = u * 1000000000, t_loc = Local\<rparr>))"

definition weekOfYearParser :: parser where
  "weekOfYearParser text t =
     (let ds = takeWhile rune_digit (take 2 text)
      in if ds = [] then Inl ParseError else if runes_val ds > 53 then Inl ParseError else Inr (length ds, t))"

definition monthDayYearParser :: "local_zone \<Rightarrow> parser" where
  "monthDayYearParser z = composeParseFunctions
     [monthNumberParser z, slashParser, dayParser z, slashParser, yearWithoutCenturyParser z]"

definition hourMinuteSecondParser :: "local_zone \<Rightarrow> parser" where
  "hourMinuteSecondParser z = composeParseFunctions
     [hourParser z, colonParser, minuteParser z, colonParser, secondParser z]"

text \<open>The parsers that only report that they are not implemented.\<close>

definition unimplementedParser :: parser where "unimplementedParser text t = Inl ParseError"

text \<open>\<open>time.Parse("Mon Jan 02 15:04:05 2006", text)\<close>: names in any case, runs of blanks, one or two
  digits for the hour, two for day, minute and second, a fraction after the second, four digits for the
  year, a day within the month, and nothing left.\<close>

definition skip_blanks_runes :: "runes \<Rightarrow> runes option" where
  "skip_blanks_runes s = (if s \<noteq> [] \<and> hd s \<noteq> 32 then None else Some (dropWhile (\<lambda>r. r = 32) s))"

definition skip_rune :: "int \<Rightarrow> runes \<Rightarrow> runes option" where
  "skip_rune c s = (case s of r # rest \<Rightarrow> if r = c then Some rest else None | [] \<Rightarrow> None)"

definition std_lookup :: "string list \<Rightarrow> runes \<Rightarrow> (nat \<times> runes) option" where
  "std_lookup tab s =
     (case find (\<lambda>i. length (tab ! i) \<le> length s \<and> map (\<lambda>r. if 65 \<le> r \<and> r \<le> 90 then r + 32 else r) (take (length (tab ! i)) s)
            = map lower_rune (lit (tab ! i))) [0..<length tab] of
        Some i \<Rightarrow> Some (i, drop (length (tab ! i)) s) | None \<Rightarrow> None)"

definition getnum :: "bool \<Rightarrow> runes \<Rightarrow> (int \<times> runes) option" where
  "getnum fixed s =
     (case s of
        a # b # r \<Rightarrow> if \<not> rune_digit a then None
                    else if rune_digit b then Some ((a - 48) * 10 + (b - 48), r)
                    else if fixed then None else Some (a - 48, b # r)
      | [a] \<Rightarrow> if rune_digit a \<and> \<not> fixed then Some (a - 48, []) else None
      | [] \<Rightarrow> None)"

definition std_fraction :: "runes \<Rightarrow> int \<times> runes" where
  "std_fraction s =
     (if 2 \<le> length s \<and> (hd s = 46 \<or> hd s = 44) \<and> rune_digit (s ! 1)
      then let ds = takeWhile rune_digit (tl s); d9 = take 9 ds
           in (runes_val d9 * 10 ^ (9 - length d9), drop (1 + length ds) s)
      else (0, s))"

definition std_year :: "runes \<Rightarrow> int option" where
  "std_year s = (if length s = 4 \<and> list_all rune_digit s then Some (runes_val s) else None)"

definition ansic_parse :: "runes \<Rightarrow> gotime option" where
  "ansic_parse s =
     Option.bind (std_lookup (map (take 3) dayOfWeeks) s) (\<lambda>(_, s).
     Option.bind (skip_blanks_runes s) (\<lambda>s.
     Option.bind (std_lookup (map (take 3) months) s) (\<lambda>(m, s).
     Option.bind (skip_blanks_runes s) (\<lambda>s.
     Option.bind (getnum True s) (\<lambda>(d, s).
     Option.bind (skip_blanks_runes s) (\<lambda>s.
     Option.bind (getnum False s) (\<lambda>(h, s).
     Option.bind (skip_rune 58 s) (\<lambda>s.
     Option.bind (getnum True s) (\<lambda>(mi, s).
     Option.bind (skip_rune 58 s) (\<lambda>s.
     Option.bind (getnum True s) (\<lambda>(sec, s).
     let (ns, s) = std_fraction s
     in Option.bind (skip_blanks_runes s) (\<lambda>s.
     Option.bind (std_year s) (\<lambda>y.
       if 24 \<le> h \<or> 60 \<le> mi \<or> 60 \<le> sec \<or> d < 1 \<or> month_len y (int m + 1) < d then None
       else Some (Date y (int m + 1) d h mi sec ns))))))))))))))"

definition ansicParser :: parser where
  "ansicParser text t =
     (case ansic_parse text of Some v \<Rightarrow> Inr (length text, \<lparr>t_ns = v, t_loc = UTC\<rparr>) | None \<Rightarrow> Inl ParseError)"

text \<open>\<open>%Ez\<close>: \<open>Z\<close>, or a sign and exactly the rest of the text as \<open>hh:mm\<close>.\<close>

definition timeZoneRFC3339Parser :: "local_zone \<Rightarrow> parser" where
  "timeZoneRFC3339Parser z target t =
     (case target of
        [] \<Rightarrow> Inl Panic
      | c # rest \<Rightarrow>
          if c = 90 then Inr (1, at_wall z UTC (wall z t))
          else if c = 43 \<or> c = 45 then
            (if length rest \<noteq> 5 \<or> rest ! 2 \<noteq> 58 \<or> length (filter (\<lambda>r. r = 58) rest) \<noteq> 1 then Inl ParseError
             else case (parse_int64 (take 2 rest), parse_int64 (drop 3 rest)) of
               (Some h, Some m) \<Rightarrow>
                 bind_res (time_SafeInt (h * 60 * 60 + m * 60)) (\<lambda>hs.
                   Inr (6, at_wall z (FixedZone (if c = 45 then hs * (- 1) else hs)) (wall z t)))
             | _ \<Rightarrow> Inl ParseError)
          else Inl ParseError)"

text \<open>The leftmost match of \<open>\d{2}\.?\d*\<close>.\<close>

fun timePrecisionMatcher :: "runes \<Rightarrow> runes" where
  "timePrecisionMatcher (a # b # s) =
     (if rune_digit a \<and> rune_digit b then
        a # b # (case s of
           r # rest \<Rightarrow> if r = 46 then r # takeWhile rune_digit rest else takeWhile rune_digit s
         | [] \<Rightarrow> [])
      else timePrecisionMatcher (b # s))"
| "timePrecisionMatcher _ = []"

text \<open>\<open>precision\<close> is \<open>None\<close> for \<open>%E*S\<close>.\<close>

definition timePrecisionParser :: "local_zone \<Rightarrow> nat option \<Rightarrow> parser" where
  "timePrecisionParser z precision text t =
     (let extracted = timePrecisionMatcher text;
          seconds = takeWhile (\<lambda>r. r \<noteq> 46) extracted;
          frac = drop (length seconds + 1) extracted
      in if extracted = [] then Inl ParseError
         else bind_res
           (if 46 \<in> set extracted then
              (case precision of
                 None \<Rightarrow> let f = take 6 frac in Inr (f @ replicate (9 - length f) 48)
               | Some p \<Rightarrow> if p < length frac then Inl ParseError else Inr (frac @ replicate (9 - length frac) 48))
            else Inr (lit (dec_int (Nanosecond (wall z t)))))
           (\<lambda>nanoseconds.
              case (parse_int64 seconds, parse_int64 nanoseconds) of
                (Some s, Some n) \<Rightarrow>
                  bind_res (time_SafeInt s) (\<lambda>s. bind_res (time_SafeInt n) (\<lambda>n. Inr (length extracted, with_second z t s n)))
              | _ \<Rightarrow> Inl ParseError))"

section \<open>Formatters of the elements\<close>

text \<open>A formatter gets the wall clock and the offset of its time. A slice that goes past the end of its
  string panics.\<close>

type_synonym formatter = "gotime \<Rightarrow> int \<Rightarrow> tf_error + string"

definition weekOfDayFormatter :: formatter where "weekOfDayFormatter w off = Inr (dayOfWeeks ! nat (Weekday w))"
definition shortWeekOfDayFormatter :: formatter where
  "shortWeekOfDayFormatter w off = Inr (take 3 (dayOfWeeks ! nat (Weekday w)))"
definition monthFormatter :: formatter where "monthFormatter w off = Inr (months ! nat (Month w - 1))"
definition shortMonthFormatter :: formatter where
  "shortMonthFormatter w off = Inr (take 3 (months ! nat (Month w - 1)))"

definition centuryFormatter :: formatter where
  "centuryFormatter w off = (let y = dec_int (Year w) in if length y < 2 then Inl Panic else Inr (take 2 y))"

definition yearWithoutCenturyFormatter :: formatter where
  "yearWithoutCenturyFormatter w off = (let y = pad_dec 4 (Year w) in Inr (drop (length y - 2) y))"

definition ansicFormatter :: formatter where
  "ansicFormatter w off =
     Inr (take 3 (dayOfWeeks ! nat (Weekday w)) @ '' '' @ take 3 (months ! nat (Month w - 1)) @ '' '' @
          (if Day w < 10 then '' '' else []) @ dec_int (Day w) @ '' '' @ pad_dec 2 (Hour w) @ '':'' @
          pad_dec 2 (Minute w) @ '':'' @ pad_dec 2 (Second w) @ '' '' @ pad_dec 4 (Year w))"

definition monthDayYearFormatter :: formatter where
  "monthDayYearFormatter w off =
     (let y = dec_int (Year w)
      in if length y < 2 then Inl Panic
         else Inr (pad_dec 2 (Month w) @ ''/'' @ pad_dec 2 (Day w) @ ''/'' @ drop 2 y))"

definition dayFormatter :: formatter where "dayFormatter w off = Inr (pad_dec 2 (Day w))"
definition yearMonthDayFormatter :: formatter where
  "yearMonthDayFormatter w off = Inr (pad_dec 4 (Year w) @ ''-'' @ pad_dec 2 (Month w) @ ''-'' @ pad_dec 2 (Day w))"
definition yearISOFormatter :: formatter where "yearISOFormatter w off = Inr (dec_int (fst (ISOWeek w)))"
definition centuryISOFormatter :: formatter where "centuryISOFormatter w off = Inr (dec_int (fst (ISOWeek w)))"
definition hourFormatter :: formatter where "hourFormatter w off = Inr (pad_dec 2 (Hour w))"
definition hour12Formatter :: formatter where "hour12Formatter w off = Inr (pad_dec 2 (Hour w))"

definition hour24SpacePrecedingSingleDigitFormatter :: formatter where
  "hour24SpacePrecedingSingleDigitFormatter w off =
     (let h = dec_int (Hour w) in if length h = 1 then Inr (CHR '' '' # h) else Inr h)"

definition hour12SpacePrecedingSingleDigitFormatter :: formatter where
  "hour12SpacePrecedingSingleDigitFormatter w off =
     (let h = dec_int (Hour w smod 12) in if length h = 1 then Inr (CHR '' '' # h) else Inr h)"

definition dayOfYearFormatter :: formatter where "dayOfYearFormatter w off = Inr (dec_int (YearDay w))"
definition minuteFormatter :: formatter where "minuteFormatter w off = Inr (pad_dec 2 (Minute w))"
definition monthNumberFormatter :: formatter where "monthNumberFormatter w off = Inr (pad_dec 2 (Month w))"
definition newLineFormatter :: formatter where "newLineFormatter w off = Inr [CHR 0x0A]"
definition smallAMPMFormatter :: formatter where
  "smallAMPMFormatter w off = Inr (if Hour w < 12 then ''am'' else ''pm'')"
definition largeAMPMFormatter :: formatter where
  "largeAMPMFormatter w off = Inr (if Hour w < 12 then ''AM'' else ''PM'')"

definition quarterFormatter :: formatter where
  "quarterFormatter w off =
     (let day = YearDay w
      in Inr (if day < 90 then ''1'' else if day < 180 then ''2'' else if day < 270 then ''3'' else ''4''))"

definition hourMinuteFormatter :: formatter where
  "hourMinuteFormatter w off = Inr (pad_dec 2 (Hour w) @ '':'' @ pad_dec 2 (Minute w))"
definition secondFormatter :: formatter where "secondFormatter w off = Inr (pad_dec 2 (Second w))"
definition unixtimeSecondsFormatter :: formatter where
  "unixtimeSecondsFormatter w off = Inr (dec_int (Unix (w - off * 1000000000)))"
definition hourMinuteSecondFormatter :: formatter where
  "hourMinuteSecondFormatter w off = Inr (pad_dec 2 (Hour w) @ '':'' @ pad_dec 2 (Minute w) @ '':'' @ pad_dec 2 (Second w))"
definition tabFormatter :: formatter where "tabFormatter w off = Inr [CHR 0x09]"
definition weekOfYearFormatter :: formatter where "weekOfYearFormatter w off = Inr (dec_int (snd (ISOWeek w)))"

definition isoWeekdayFormatter :: formatter where
  "isoWeekdayFormatter w off = Inr (dec_int (if Weekday w = 0 then 7 else Weekday w))"

definition weekOfYearISOFormatter :: formatter where "weekOfYearISOFormatter w off = Inr (dec_int (snd (ISOWeek w)))"
definition weekNumberZeroBaseFormatter :: formatter where
  "weekNumberZeroBaseFormatter w off = Inr (dec_int (snd (ISOWeek w) - 1))"
definition yearFormatter :: formatter where "yearFormatter w off = Inr (dec_int (Year w))"

definition timeZoneFormatter :: formatter where
  "timeZoneFormatter w off0 =
     (if off0 = 0 then Inr ''UTC''
      else let sign = (if off0 < 0 then ''-'' else ''+''); off = \<bar>off0\<bar>; h = off div 3600; m = off mod 3600 div 60
           in Inr (''UTC'' @ sign @ (if m = 0 then dec_int h else pad_dec 2 h @ pad_dec 2 m)))"

definition timeZoneOffsetFormatter :: formatter where "timeZoneOffsetFormatter w off = Inr (dec_int off)"
definition escapeFormatter :: formatter where "escapeFormatter w off = Inr ''%''"

definition timeZoneRFC3339Formatter :: formatter where
  "timeZoneRFC3339Formatter w off =
     (let m = off sdiv 60; a = \<bar>m\<bar>
      in Inr ((if m < 0 then ''-'' else ''+'') @ pad_dec 2 (a div 60) @ '':'' @ pad_dec 2 (a mod 60)))"

text \<open>\<open>t.Format("05.000")\<close>: the fraction is cut, not rounded.\<close>

definition timePrecisionFormatter :: "nat \<Rightarrow> formatter" where
  "timePrecisionFormatter precision w off =
     Inr (pad_dec 2 (Second w) @ ''.'' @ take precision (pad_dec 9 (Nanosecond w)))"

definition timeYear4Formatter :: formatter where "timeYear4Formatter w off = Inr (pad_dec 4 (Year w))"

section \<open>The table of elements\<close>

datatype TimeFormatType = FormatTypeDate | FormatTypeDatetime | FormatTypeTime | FormatTypeTimestamp

record FormatTimeInfo =
  AvailableTypes :: "TimeFormatType list"
  Parse :: "local_zone \<Rightarrow> parser"
  Format :: formatter

definition Available :: "FormatTimeInfo \<Rightarrow> TimeFormatType \<Rightarrow> bool" where
  "Available i ty \<longleftrightarrow> ty \<in> set (AvailableTypes i)"

definition date_types :: "TimeFormatType list" where
  "date_types = [FormatTypeDate, FormatTypeDatetime, FormatTypeTimestamp]"

definition time_types :: "TimeFormatType list" where
  "time_types = [FormatTypeTime, FormatTypeDatetime, FormatTypeTimestamp]"

definition all_types :: "TimeFormatType list" where
  "all_types = [FormatTypeDate, FormatTypeDatetime, FormatTypeTime, FormatTypeTimestamp]"

definition formatPatternTable :: "(char \<times> FormatTimeInfo) list" where
  "formatPatternTable =
     [(CHR ''A'', \<lparr>AvailableTypes = date_types, Parse = (\<lambda>z. weekOfDayParser), Format = weekOfDayFormatter\<rparr>),
      (CHR ''a'', \<lparr>AvailableTypes = date_types, Parse = (\<lambda>z. shortWeekOfDayParser), Format = shortWeekOfDayFormatter\<rparr>),
      (CHR ''B'', \<lparr>AvailableTypes = date_types, Parse = monthParser, Format = monthFormatter\<rparr>),
      (CHR ''b'', \<lparr>AvailableTypes = date_types, Parse = shortMonthParser, Format = shortMonthFormatter\<rparr>),
      (CHR ''C'', \<lparr>AvailableTypes = date_types, Parse = centuryParser, Format = centuryFormatter\<rparr>),
      (CHR ''c'', \<lparr>AvailableTypes = [FormatTypeDatetime, FormatTypeTimestamp], Parse = (\<lambda>z. ansicParser), Format = ansicFormatter\<rparr>),
      (CHR ''D'', \<lparr>AvailableTypes = date_types, Parse = monthDayYearParser, Format = monthDayYearFormatter\<rparr>),
      (CHR ''d'', \<lparr>AvailableTypes = date_types, Parse = dayParser, Format = dayFormatter\<rparr>),
      (CHR ''e'', \<lparr>AvailableTypes = date_types, Parse = (\<lambda>z. composeParseFunctions [leadingSpaceAllowedParser, dayParser z]), Format = dayFormatter\<rparr>),
      (CHR ''F'', \<lparr>AvailableTypes = date_types, Parse = (\<lambda>z. composeParseFunctions [yearParser z, hyphenParser, monthNumberParser z, hyphenParser, dayParser z]), Format = yearMonthDayFormatter\<rparr>),
      (CHR ''G'', \<lparr>AvailableTypes = date_types, Parse = (\<lambda>z. unimplementedParser), Format = yearISOFormatter\<rparr>),
      (CHR ''g'', \<lparr>AvailableTypes = date_types, Parse = (\<lambda>z. unimplementedParser), Format = centuryISOFormatter\<rparr>),
      (CHR ''H'', \<lparr>AvailableTypes = time_types, Parse = hourParser, Format = hourFormatter\<rparr>),
      (CHR ''h'', \<lparr>AvailableTypes = date_types, Parse = shortMonthParser, Format = shortMonthFormatter\<rparr>),
      (CHR ''I'', \<lparr>AvailableTypes = time_types, Parse = hour12Parser, Format = hour12Formatter\<rparr>),
      (CHR ''J'', \<lparr>AvailableTypes = date_types, Parse = (\<lambda>z. unimplementedParser), Format = yearISOFormatter\<rparr>),
      (CHR ''j'', \<lparr>AvailableTypes = date_types, Parse = dayOfYearParser, Format = dayOfYearFormatter\<rparr>),
      (CHR ''k'', \<lparr>AvailableTypes = time_types, Parse = (\<lambda>z. composeParseFunctions [leadingSpaceAllowedParser, hourParser z]), Format = hour24SpacePrecedingSingleDigitFormatter\<rparr>),
      (CHR ''l'', \<lparr>AvailableTypes = time_types, Parse = (\<lambda>z. composeParseFunctions [leadingSpaceAllowedParser, hour12Parser z]), Format = hour12SpacePrecedingSingleDigitFormatter\<rparr>),
      (CHR ''M'', \<lparr>AvailableTypes = time_types, Parse = minuteParser, Format = minuteFormatter\<rparr>),
      (CHR ''m'', \<lparr>AvailableTypes = date_types, Parse = monthNumberParser, Format = monthNumberFormatter\<rparr>),
      (CHR ''n'', \<lparr>AvailableTypes = all_types, Parse = (\<lambda>z. unimplementedParser), Format = newLineFormatter\<rparr>),
      (CHR ''P'', \<lparr>AvailableTypes = time_types, Parse = (\<lambda>z. unimplementedParser), Format = smallAMPMFormatter\<rparr>),
      (CHR ''p'', \<lparr>AvailableTypes = time_types, Parse = (\<lambda>z. largeAMPMParser), Format = largeAMPMFormatter\<rparr>),
      (CHR ''Q'', \<lparr>AvailableTypes = date_types, Parse = (\<lambda>z. unimplementedParser), Format = quarterFormatter\<rparr>),
      (CHR ''R'', \<lparr>AvailableTypes = time_types, Parse = (\<lambda>z. composeParseFunctions [hourParser z, colonParser, minuteParser z]), Format = hourMinuteFormatter\<rparr>),
      (CHR ''S'', \<lparr>AvailableTypes = time_types, Parse = secondParser, Format = secondFormatter\<rparr>),
      (CHR ''s'', \<lparr>AvailableTypes = time_types, Parse = (\<lambda>z. unixtimeSecondsParser), Format = unixtimeSecondsFormatter\<rparr>),
      (CHR ''T'', \<lparr>AvailableTypes = time_types, Parse = hourMinuteSecondParser, Format = hourMinuteSecondFormatter\<rparr>),
      (CHR ''t'', \<lparr>AvailableTypes = all_types, Parse = (\<lambda>z. unimplementedParser), Format = tabFormatter\<rparr>),
      (CHR ''U'', \<lparr>AvailableTypes = date_types, Parse = (\<lambda>z. weekOfYearParser), Format = weekOfYearFormatter\<rparr>),
      (CHR ''u'', \<lparr>AvailableTypes = date_types, Parse = (\<lambda>z. unimplementedParser), Format = isoWeekdayFormatter\<rparr>),
      (CHR ''V'', \<lparr>AvailableTypes = date_types, Parse = (\<lambda>z. unimplementedParser), Format = weekOfYearISOFormatter\<rparr>),
      (CHR ''W'', \<lparr>AvailableTypes = date_types, Parse = (\<lambda>z. weekOfYearParser), Format = weekOfYearFormatter\<rparr>),
      (CHR ''w'', \<lparr>AvailableTypes = date_types, Parse = (\<lambda>z. unimplementedParser), Format = weekNumberZeroBaseFormatter\<rparr>),
      (CHR ''X'', \<lparr>AvailableTypes = time_types, Parse = hourMinuteSecondParser, Format = hourMinuteSecondFormatter\<rparr>),
      (CHR ''x'', \<lparr>AvailableTypes = date_types, Parse = monthDayYearParser, Format = monthDayYearFormatter\<rparr>),
      (CHR ''Y'', \<lparr>AvailableTypes = date_types, Parse = yearParser, Format = yearFormatter\<rparr>),
      (CHR ''y'', \<lparr>AvailableTypes = date_types, Parse = yearWithoutCenturyParser, Format = yearWithoutCenturyFormatter\<rparr>),
      (CHR ''Z'', \<lparr>AvailableTypes = [FormatTypeTimestamp], Parse = (\<lambda>z. unimplementedParser), Format = timeZoneFormatter\<rparr>),
      (CHR ''z'', \<lparr>AvailableTypes = [FormatTypeTimestamp], Parse = (\<lambda>z. unimplementedParser), Format = timeZoneOffsetFormatter\<rparr>),
      (CHR ''%'', \<lparr>AvailableTypes = all_types, Parse = (\<lambda>z. unimplementedParser), Format = escapeFormatter\<rparr>)]"

definition formatPatternMap :: "int \<Rightarrow> FormatTimeInfo option" where
  "formatPatternMap c = (if 0 \<le> c \<and> c < 128 then map_of formatPatternTable (char_of c) else None)"

definition combinationPatternInfo :: "runes \<Rightarrow> (FormatTimeInfo \<times> nat) option" where
  "combinationPatternInfo format =
     (case format of
        [] \<Rightarrow> None
      | a # r \<Rightarrow>
          if a = 122 then Some (\<lparr>AvailableTypes = [FormatTypeTimestamp], Parse = timeZoneRFC3339Parser, Format = timeZoneRFC3339Formatter\<rparr>, 1)
          else if 49 \<le> a \<and> a \<le> 54 \<and> r \<noteq> [] \<and> hd r = 83 then
            Some (\<lparr>AvailableTypes = time_types, Parse = (\<lambda>z. timePrecisionParser z (Some (nat (a - 48)))), Format = timePrecisionFormatter (nat (a - 48))\<rparr>, 2)
          else if a = 52 \<and> r \<noteq> [] \<and> hd r = 89 then
            Some (\<lparr>AvailableTypes = date_types, Parse = yearParser, Format = timeYear4Formatter\<rparr>, 2)
          else if a = 42 \<and> r \<noteq> [] \<and> hd r = 83 then
            Some (\<lparr>AvailableTypes = time_types, Parse = (\<lambda>z. timePrecisionParser z None), Format = timePrecisionFormatter 6\<rparr>, 2)
          else None)"

section \<open>Formatting\<close>

definition format_elem :: "FormatTimeInfo \<Rightarrow> TimeFormatType \<Rightarrow> gotime \<Rightarrow> int \<Rightarrow> tf_error + string" where
  "format_elem info ty w off = (if \<not> Available info ty then Inl UnavailableFormat else Format info w off)"

function FormatTime :: "runes \<Rightarrow> gotime \<Rightarrow> int \<Rightarrow> TimeFormatType \<Rightarrow> tf_error + runes" where
  "FormatTime format w off ty =
     (case format of
        [] \<Rightarrow> Inr []
      | c # rest \<Rightarrow>
          if c \<noteq> 37 then bind_res (FormatTime rest w off ty) (\<lambda>out. Inr (c # out))
          else if rest = [] then Inl InvalidTimeFormat
          else if hd rest = 69 then
            (if tl rest = [] then Inl InvalidTimeFormat
             else case combinationPatternInfo (tl rest) of
               None \<Rightarrow> Inl UnexpectedFormat
             | Some (info, progress) \<Rightarrow>
                 bind_res (format_elem info ty w off) (\<lambda>s.
                   bind_res (FormatTime (drop progress (tl rest)) w off ty) (\<lambda>out. Inr (lit s @ out))))
          else
            (case formatPatternMap (hd rest) of
               None \<Rightarrow> Inl UnexpectedFormat
             | Some info \<Rightarrow>
                 bind_res (format_elem info ty w off) (\<lambda>s.
                   bind_res (FormatTime (tl rest) w off ty) (\<lambda>out. Inr (lit s @ out)))))"
  by pat_completeness auto
termination
  by (relation "measure (\<lambda>(f, _). length f)") auto

declare FormatTime.simps [simp del]

section \<open>Parsing\<close>

type_synonym tokens = "(int \<times> nat \<times> nat) list"

definition ampmShouldPostProcessResult :: "tokens \<Rightarrow> bool" where
  "ampmShouldPostProcessResult toks \<longleftrightarrow>
     \<not> list_ex (\<lambda>(c, _). c \<in> set (lit ''XTRkH'')) toks \<and> list_ex (\<lambda>(c, _). c \<in> set (lit ''lI'')) toks"

definition ampmPostProcessor :: "local_zone \<Rightarrow> runes \<Rightarrow> gtime \<Rightarrow> gtime" where
  "ampmPostProcessor z text t =
     (let morning = (map lower_rune text = lit ''am''); h = Hour (wall z t);
          h1 = (if morning then h smod 12 else h); h2 = (if \<not> morning \<and> h1 < 12 then h1 + 12 else h1)
      in with_hour z t h2)"

definition weekOfYearPostProcessor :: "local_zone \<Rightarrow> int \<Rightarrow> runes \<Rightarrow> gtime \<Rightarrow> gtime" where
  "weekOfYearPostProcessor z firstDay text t =
     (let w = wall z t; jan1 = at_wall z (t_loc t) (Date (Year w) 1 1 (Hour w) (Minute w) (Second w) (Nanosecond w));
          offset = (firstDay - Weekday (wall z jan1) + 7) smod 7;
          d = at_wall z (t_loc t) (AddDate (wall z jan1) 0 0 (offset + (runes_val text - 1) * 7))
      in if t_ns d < t_ns jan1 then jan1 else d)"

definition postProcess :: "local_zone \<Rightarrow> runes \<Rightarrow> tokens \<Rightarrow> int \<times> nat \<times> nat \<Rightarrow> gtime \<Rightarrow> gtime" where
  "postProcess z target toks entry t =
     (case entry of (c, i, j) \<Rightarrow>
        let text = take (j - i) (drop i target)
        in if c = 112 then (if ampmShouldPostProcessResult toks then ampmPostProcessor z text t else t)
           else if c = 87 then weekOfYearPostProcessor z 1 text t
           else if c = 85 then weekOfYearPostProcessor z 0 text t
           else t)"

definition put_token :: "int \<Rightarrow> nat \<times> nat \<Rightarrow> tokens \<Rightarrow> tokens" where
  "put_token c ij toks = (c, ij) # filter (\<lambda>(d, _). d \<noteq> c) toks"

text \<open>The loop over the format. A literal rune steps over one rune of the target without looking at it.\<close>

function time_parse_loop :: "local_zone \<Rightarrow> runes \<Rightarrow> TimeFormatType \<Rightarrow> runes \<Rightarrow> nat \<Rightarrow> gtime \<Rightarrow> tokens \<Rightarrow>
    tf_error + nat \<times> gtime \<times> tokens" where
  "time_parse_loop z target ty format i t toks =
     (case format of
        [] \<Rightarrow> Inr (i, t, toks)
      | c # rest \<Rightarrow>
          if c = 37 then
            (if rest = [] then Inl InvalidTimeFormat
             else if hd rest = 69 \<and> tl rest = [] then Inl InvalidTimeFormat
             else let fmt = (if hd rest = 69 then tl rest else rest)
             in case (if hd rest = 69 then combinationPatternInfo fmt
                      else map_option (\<lambda>info. (info, 1)) (formatPatternMap (hd rest))) of
               None \<Rightarrow> Inl UnexpectedFormat
             | Some (info, progress) \<Rightarrow>
                 if \<not> Available info ty then Inl UnavailableFormat
                 else if length target \<le> i then Inl InvalidTarget
                 else bind_res (Parse info z (drop i target) t) (\<lambda>(n, t).
                   time_parse_loop z target ty (drop progress fmt) (i + n) t (put_token (hd rest) (i, i + n) toks)))
          else if c = 32 then
            time_parse_loop z target ty rest (i + length (takeWhile (\<lambda>r. r = 32) (drop i target))) t toks
          else time_parse_loop z target ty rest (i + 1) t toks)"
  by pat_completeness auto
termination
  by (relation "measure (\<lambda>(_, _, _, f, _). length f)") (auto split: if_splits)

declare time_parse_loop.simps [simp del]

text \<open>The error for text that is left over shows \<open>target[targetIdx:]\<close>, a slice that panics past the end.
  \<open>order\<close> is the order in which the tokens are visited.\<close>

definition ParseTimeFormat :: "local_zone \<Rightarrow> (tokens \<Rightarrow> tokens) \<Rightarrow> runes \<Rightarrow> runes \<Rightarrow> TimeFormatType \<Rightarrow> tf_error + gtime" where
  "ParseTimeFormat z order format target ty =
     bind_res (time_parse_loop z target ty format 0 \<lparr>t_ns = 0, t_loc = UTC\<rparr> []) (\<lambda>(i, t, toks).
       if length target < i then Inl Panic
       else if i \<noteq> length target then Inl UnparsedText
       else Inr (fold (postProcess z target toks) (order toks) t))"

section \<open>The SQL functions\<close>

definition FORMAT_DATE :: "runes \<Rightarrow> gotime \<Rightarrow> tf_error + runes" where
  "FORMAT_DATE format t = FormatTime format t 0 FormatTypeDate"

definition FORMAT_DATETIME :: "runes \<Rightarrow> gotime \<Rightarrow> tf_error + runes" where
  "FORMAT_DATETIME format t = FormatTime format t 0 FormatTypeDatetime"

definition FORMAT_TIME :: "runes \<Rightarrow> gotime \<Rightarrow> tf_error + runes" where
  "FORMAT_TIME format t = FormatTime format t 0 FormatTypeTime"

definition PARSE_DATE :: "local_zone \<Rightarrow> (tokens \<Rightarrow> tokens) \<Rightarrow> runes \<Rightarrow> runes \<Rightarrow> tf_error + gtime" where
  "PARSE_DATE z order format date = ParseTimeFormat z order format date FormatTypeDate"

definition PARSE_DATETIME :: "local_zone \<Rightarrow> (tokens \<Rightarrow> tokens) \<Rightarrow> runes \<Rightarrow> runes \<Rightarrow> tf_error + gtime" where
  "PARSE_DATETIME z order format date = ParseTimeFormat z order format date FormatTypeDatetime"

definition PARSE_TIME :: "local_zone \<Rightarrow> (tokens \<Rightarrow> tokens) \<Rightarrow> runes \<Rightarrow> runes \<Rightarrow> tf_error + gtime" where
  "PARSE_TIME z order format date = ParseTimeFormat z order format date FormatTypeTime"

definition PARSE_TIMESTAMP :: "local_zone \<Rightarrow> (tokens \<Rightarrow> tokens) \<Rightarrow> runes \<Rightarrow> runes \<Rightarrow> tf_error + gtime" where
  "PARSE_TIMESTAMP z order format date = ParseTimeFormat z order format date FormatTypeTimestamp"

end
