(* ===== verification/Time_Format_Props.thy ===== *)
theory Time_Format_Props
  imports Time_Format
begin

text \<open>
  Properties of the \<open>%\<close> elements: a DATE, DATETIME or TIME printed with a format of separated numeric
  elements is read back by the same format, and where the parser goes wrong.
  \<open>reads\<close> describes a run of the parser on the rest of a text; formats are handled element by element.
\<close>

section \<open>Fields of a time\<close>

lemma div_mod_step: "a = b * q + r \<Longrightarrow> 0 \<le> r \<Longrightarrow> r < b \<Longrightarrow> a div b = q \<and> a mod b = r" for a b q r :: int
  using int_div_pos_eq [of a b q r] int_mod_pos_eq [of a b q r] by blast

lemma Date_fields:
  assumes "valid_civil y m d" "0 \<le> h" "h < 24" "0 \<le> mi" "mi < 60" "0 \<le> s" "s < 60" "0 \<le> ns" "ns < 1000000000"
  shows "Year (Date y m d h mi s ns) = y" "Month (Date y m d h mi s ns) = m" "Day (Date y m d h mi s ns) = d"
    "Hour (Date y m d h mi s ns) = h" "Minute (Date y m d h mi s ns) = mi"
    "Second (Date y m d h mi s ns) = s" "Nanosecond (Date y m d h mi s ns) = ns"
proof -
  let ?c = "h * 3600000000000 + mi * 60000000000 + s * 1000000000 + ns"
  have D: "Date y m d h mi s ns = days_of_civil y m d * day_ns + ?c"
    using assms by (simp add: Date_in_range valid_civil_def)
  have "0 \<le> ?c" "?c < day_ns" unfolding day_ns_def using assms(2-9) by linarith+
  from day_number_clock [OF this, of "days_of_civil y m d"]
  have n: "day_number (Date y m d h mi s ns) = days_of_civil y m d" and c: "clock_ns (Date y m d h mi s ns) = ?c"
    unfolding D by simp_all
  show "Year (Date y m d h mi s ns) = y" "Month (Date y m d h mi s ns) = m" "Day (Date y m d h mi s ns) = d"
    using n by (simp_all add: Year_def Month_def Day_def greg.of_days_to_days [OF assms(1)])
  have b: "0 \<le> s * 1000000000 + ns" "s * 1000000000 + ns < 60000000000"
    "0 \<le> mi * 60000000000 + s * 1000000000 + ns" "mi * 60000000000 + s * 1000000000 + ns < 3600000000000"
    using assms(4-9) by linarith+
  have "?c = 1000000000 * (h * 3600 + mi * 60 + s) + ns" "?c = 60000000000 * (h * 60 + mi) + (s * 1000000000 + ns)"
    "?c = 3600000000000 * h + (mi * 60000000000 + s * 1000000000 + ns)"
    "h * 60 + mi = 60 * h + mi" "h * 3600 + mi * 60 + s = 60 * (h * 60 + mi) + s" by simp_all
  note e = div_mod_step [OF this(1) assms(8,9)] div_mod_step [OF this(2) b(1,2)] div_mod_step [OF this(3) b(3,4)]
    div_mod_step [OF this(4) assms(4,5)] div_mod_step [OF this(5) assms(6,7)]
  show "Hour (Date y m d h mi s ns) = h" "Minute (Date y m d h mi s ns) = mi"
    "Second (Date y m d h mi s ns) = s" "Nanosecond (Date y m d h mi s ns) = ns"
    unfolding Hour_def Minute_def Second_def Nanosecond_def c using e by simp_all
qed

lemma clock_bounds:
  "0 \<le> Hour t" "Hour t < 24" "0 \<le> Minute t" "Minute t < 60" "0 \<le> Second t" "Second t < 60"
  "0 \<le> Nanosecond t" "Nanosecond t < 1000000000"
  using clock_ns_bounds [of t] by (simp_all add: Hour_def Minute_def Second_def Nanosecond_def day_ns_def
      pos_imp_zdiv_nonneg_iff) linarith?

lemma Date_self: "Date (Year t) (Month t) (Day t) (Hour t) (Minute t) (Second t) (Nanosecond t) = t"
  using Month_bounds [of t] time_split [of t] clock_split [of t] days_of_time [of t] by (simp add: Date_in_range)

definition utc :: "gotime \<Rightarrow> gtime" where "utc w = \<lparr>t_ns = w, t_loc = UTC\<rparr>"

lemma utc_wall [simp]: "wall z (utc w) = w" "t_loc (utc w) = UTC" "t_ns (utc w) = w"
  by (simp_all add: wall_def utc_def)

lemma at_wall_utc [simp]: "at_wall z UTC w = utc w"
  by (simp add: at_wall_def utc_def)

section \<open>Runs of the parser\<close>

definition no_post :: "tokens \<Rightarrow> bool" where
  "no_post toks \<longleftrightarrow> list_all (\<lambda>(c, _). c \<noteq> 112 \<and> c \<noteq> 87 \<and> c \<noteq> 85) toks"

definition reads :: "local_zone \<Rightarrow> TimeFormatType \<Rightarrow> runes \<Rightarrow> runes \<Rightarrow> gtime \<Rightarrow> gtime \<Rightarrow> bool" where
  "reads z ty format text t t' \<longleftrightarrow>
     (\<forall>target i toks. i \<le> length target \<longrightarrow> drop i target = text \<longrightarrow> no_post toks \<longrightarrow>
       (\<exists>toks'. time_parse_loop z target ty format i t toks = Inr (length target, t', toks') \<and> no_post toks'))"

lemma reads_Nil: "reads z ty [] [] t t"
  by (simp add: reads_def time_parse_loop.simps)

lemma reads_elem:
  assumes "formatPatternMap c = Some info" "c \<noteq> 69" "Available info ty" "c \<noteq> 112" "c \<noteq> 87" "c \<noteq> 85"
    "ds \<noteq> []" "Parse info z (ds @ tail) t = Inr (length ds, t1)" "reads z ty rest tail t1 t'"
  shows "reads z ty (37 # c # rest) (ds @ tail) t t'"
  unfolding reads_def
proof (intro allI impI)
  fix target i toks
  assume i: "i \<le> length target" and d: "drop i target = ds @ tail" and np: "no_post toks"
  have len: "i + length ds \<le> length target" using arg_cong [OF d, of length] i by simp
  moreover have "0 < length ds" using assms(7) by simp
  ultimately have lt: "\<not> length target \<le> i" by linarith
  have dd: "drop (i + length ds) target = tail" by (metis add.commute append_eq_conv_conj d drop_drop)
  have np': "no_post (put_token c (i, i + length ds) toks)"
    using np assms(4-6) by (auto simp: no_post_def put_token_def list_all_iff)
  have step: "time_parse_loop z target ty (37 # c # rest) i t toks
    = time_parse_loop z target ty rest (i + length ds) t1 (put_token c (i, i + length ds) toks)"
    using assms lt d by (subst time_parse_loop.simps) simp
  show "\<exists>toks'. time_parse_loop z target ty (37 # c # rest) i t toks = Inr (length target, t', toks') \<and> no_post toks'"
    using assms(9) len dd np' unfolding step reads_def by blast
qed

lemma drop_Cons: "drop i target = x # tail \<Longrightarrow> i < length target \<and> drop (i + 1) target = tail"
  by (metis Cons_nth_drop_Suc Suc_eq_plus1 drop_all list.distinct(1) list.inject not_le)

lemma reads_literal:
  assumes "a \<noteq> 37" "a \<noteq> 32" "reads z ty rest tail t t'"
  shows "reads z ty (a # rest) (x # tail) t t'"
  unfolding reads_def
proof (intro allI impI)
  fix target i toks
  assume "i \<le> length target" and "drop i target = x # tail" and np: "no_post toks"
  then have "i + 1 \<le> length target" "drop (i + 1) target = tail" using drop_Cons by fastforce+
  moreover have "time_parse_loop z target ty (a # rest) i t toks = time_parse_loop z target ty rest (i + 1) t toks"
    using assms(1,2) by (subst time_parse_loop.simps) simp
  ultimately show "\<exists>toks'. time_parse_loop z target ty (a # rest) i t toks = Inr (length target, t', toks') \<and> no_post toks'"
    using assms(3) np unfolding reads_def by metis
qed

lemma reads_space:
  assumes "tail = [] \<or> hd tail \<noteq> 32" "reads z ty rest tail t t'"
  shows "reads z ty (32 # rest) (32 # tail) t t'"
  unfolding reads_def
proof (intro allI impI)
  fix target i toks
  assume "i \<le> length target" and d: "drop i target = 32 # tail" and np: "no_post toks"
  then have "i + 1 \<le> length target" "drop (i + 1) target = tail" using drop_Cons by fastforce+
  moreover have "takeWhile (\<lambda>r. r = 32) tail = []" using assms(1) by (cases tail) auto
  then have "time_parse_loop z target ty (32 # rest) i t toks = time_parse_loop z target ty rest (i + 1) t toks"
    by (subst time_parse_loop.simps) (simp add: d)
  ultimately show "\<exists>toks'. time_parse_loop z target ty (32 # rest) i t toks = Inr (length target, t', toks') \<and> no_post toks'"
    using assms(2) np unfolding reads_def by metis
qed

lemma reads_ParseTimeFormat:
  assumes "reads z ty format text (utc 0) t" "\<And>l. set (order l) = set l"
  shows "ParseTimeFormat z order format text ty = Inr t"
proof -
  obtain toks where p: "time_parse_loop z text ty format 0 (utc 0) [] = Inr (length text, t, toks)" "no_post toks"
    using assms(1) [unfolded reads_def, rule_format, of 0 "text" "[]"] by (auto simp: no_post_def)
  have "fold (postProcess z text toks) l t = t" if "set l \<subseteq> set toks" for l
    using that p(2) by (induction l) (auto simp: postProcess_def no_post_def list_all_iff)
  then show ?thesis using p(1) assms(2) by (simp add: ParseTimeFormat_def utc_def)
qed

section \<open>Numbers in a text\<close>

lemma lit_simps [simp]: "lit [] = []" "lit (c # s) = of_char c # lit s" "lit (s @ t) = lit s @ lit t"
  "length (lit s) = length s" "lit s = [] \<longleftrightarrow> s = []"
  by (simp_all add: lit_def)

lemma rune_digit_of_char: "rune_digit (of_char c) \<longleftrightarrow> is_digit c"
proof -
  have "(of_char c :: int) = int (of_char c)" by (simp add: of_nat_of_char)
  then show ?thesis unfolding rune_digit_def is_digit_def by linarith
qed

lemma lit_digits: "list_all rune_digit (lit s) \<longleftrightarrow> list_all is_digit s"
  by (simp add: lit_def list_all_iff rune_digit_of_char)

lemma runes_val_snoc: "runes_val (rs @ [r]) = 10 * runes_val rs + (r - 48)"
  by (simp add: runes_val_def)

lemma runes_val_lit: "list_all is_digit s \<Longrightarrow> runes_val (lit s) = int (digits_val s)"
proof (induction s rule: rev_induct)
  case (snoc c s)
  then have "is_digit c" "list_all is_digit s" by simp_all
  moreover have "(of_char c :: int) = int (of_char c)" by (simp add: of_nat_of_char)
  moreover have "runes_val (lit s) = int (digits_val s)" using snoc by simp
  ultimately show ?case
    by (simp add: runes_val_snoc digits_val_snoc digit_val_def is_digit_def of_nat_diff)
qed (simp add: runes_val_def digits_val_def)

lemma pad_dec_digits:
  assumes "0 \<le> x" "x < 10 ^ Suc k"
  shows "length (pad_dec (Suc k) x) = Suc k" "list_all is_digit (pad_dec (Suc k) x)" "digits_val (pad_dec (Suc k) x) = nat x"
proof -
  have "nat x < 10 ^ Suc k" using assms by (simp add: nat_less_iff)
  from length_dec_nat [OF this] show "length (pad_dec (Suc k) x) = Suc k" using assms by (simp add: pad_dec_def Let_def)
  show "list_all is_digit (pad_dec (Suc k) x)" using assms by (auto simp: pad_dec_def Let_def list_all_iff)
  show "digits_val (pad_dec (Suc k) x) = nat x" using assms by (simp add: pad_dec_def Let_def digits_val_append)
qed

lemma takeWhile_digits:
  assumes "list_all rune_digit ds" "length ds \<le> n" "tail = [] \<or> \<not> rune_digit (hd tail) \<or> length ds = n"
  shows "takeWhile rune_digit (take n (ds @ tail)) = ds"
proof -
  have "takeWhile rune_digit (take (n - length ds) tail) = []"
    using assms(3) by (cases tail; cases "n - length ds") auto
  then show ?thesis using assms(1,2) by (simp add: list_all_iff takeWhile_append)
qed

lemma number_parser_lit:
  assumes "list_all is_digit s" "s \<noteq> []" "length s \<le> length (dec_int hi)"
    "tail = [] \<or> \<not> rune_digit (hd tail) \<or> length s = length (dec_int hi)"
    "int (digits_val s) = v" "lo \<le> v" "v \<le> hi" "hi \<le> 2147483647"
  shows "number_parser lo hi upd (lit s @ tail) t = Inr (length s, upd t v)"
proof -
  have "takeWhile rune_digit (take (length (dec_int hi)) (lit s @ tail)) = lit s"
    using assms(1-4) by (intro takeWhile_digits) (simp_all add: lit_digits)
  then show ?thesis
    using assms(2,5-8) runes_val_lit [OF assms(1)]
    by (simp add: number_parser_def parseDigitRespectingOptionalPlaces_def time_SafeInt_def Let_def)
qed

lemma dec_lengths: "length (dec_int 12) = 2" "length (dec_int 31) = 2" "length (dec_int 23) = 2" "length (dec_int 59) = 2"
    "length (dec_int 9999) = 4"
  by (simp_all add: dec_int_def dec_nat.simps)

lemma dec_int_year:
  assumes "1 \<le> y" "y \<le> 9999"
  shows "list_all is_digit (dec_int y)" "dec_int y \<noteq> []" "length (dec_int y) \<le> 4" "digits_val (dec_int y) = nat y"
  using assms length_dec_nat [of "nat y" 3] by (auto simp: dec_int_def list_all_iff nat_less_iff)

section \<open>Elements read one by one\<close>

lemma elems:
  "formatPatternMap 89 = Some \<lparr>AvailableTypes = date_types, Parse = yearParser, Format = yearFormatter\<rparr>"
  "formatPatternMap 109 = Some \<lparr>AvailableTypes = date_types, Parse = monthNumberParser, Format = monthNumberFormatter\<rparr>"
  "formatPatternMap 100 = Some \<lparr>AvailableTypes = date_types, Parse = dayParser, Format = dayFormatter\<rparr>"
  "formatPatternMap 72 = Some \<lparr>AvailableTypes = time_types, Parse = hourParser, Format = hourFormatter\<rparr>"
  "formatPatternMap 77 = Some \<lparr>AvailableTypes = time_types, Parse = minuteParser, Format = minuteFormatter\<rparr>"
  "formatPatternMap 83 = Some \<lparr>AvailableTypes = time_types, Parse = secondParser, Format = secondFormatter\<rparr>"
proof -
  have "char_of (89 :: int) = CHR ''Y''" "char_of (109 :: int) = CHR ''m''" "char_of (100 :: int) = CHR ''d''"
    "char_of (72 :: int) = CHR ''H''" "char_of (77 :: int) = CHR ''M''" "char_of (83 :: int) = CHR ''S''" by code_simp+
  note c = this
  show
    "formatPatternMap 89 = Some \<lparr>AvailableTypes = date_types, Parse = yearParser, Format = yearFormatter\<rparr>"
    "formatPatternMap 109 = Some \<lparr>AvailableTypes = date_types, Parse = monthNumberParser, Format = monthNumberFormatter\<rparr>"
    "formatPatternMap 100 = Some \<lparr>AvailableTypes = date_types, Parse = dayParser, Format = dayFormatter\<rparr>"
    "formatPatternMap 72 = Some \<lparr>AvailableTypes = time_types, Parse = hourParser, Format = hourFormatter\<rparr>"
    "formatPatternMap 77 = Some \<lparr>AvailableTypes = time_types, Parse = minuteParser, Format = minuteFormatter\<rparr>"
    "formatPatternMap 83 = Some \<lparr>AvailableTypes = time_types, Parse = secondParser, Format = secondFormatter\<rparr>"
    by (simp_all add: formatPatternMap_def formatPatternTable_def c)
qed

lemma Available_types:
  "Available \<lparr>AvailableTypes = date_types, Parse = p, Format = f\<rparr> ty \<longleftrightarrow> ty \<noteq> FormatTypeTime"
  "Available \<lparr>AvailableTypes = time_types, Parse = p, Format = f\<rparr> ty \<longleftrightarrow> ty \<noteq> FormatTypeDate"
  by (cases ty; simp add: Available_def date_types_def time_types_def)+

lemma updates:
  assumes "valid_civil y m d" "0 \<le> h" "h < 24" "0 \<le> mi" "mi < 60" "0 \<le> s" "s < 60" "0 \<le> ns" "ns < 1000000000"
  shows "with_year z (utc (Date y m d h mi s ns)) y' = utc (Date y' m d h mi s ns)"
    "with_month z (utc (Date y m d h mi s ns)) m' = utc (Date y m' d h mi s ns)"
    "with_day z (utc (Date y m d h mi s ns)) d' = utc (Date y m d' h mi s ns)"
    "with_hour z (utc (Date y m d h mi s ns)) h' = utc (Date y m d h' mi s ns)"
    "with_minute z (utc (Date y m d h mi s ns)) mi' = utc (Date y m d h mi' s ns)"
    "with_second z (utc (Date y m d h mi s ns)) s' n' = utc (Date y m d h mi s' n')"
  by (simp_all add: with_year_def with_month_def with_day_def with_hour_def with_minute_def with_second_def
      Date_fields [OF assms] Let_def)

lemma epoch: "utc 0 = utc (Date 1970 1 1 0 0 0 0)" "valid_civil 1970 1 1"
proof -
  have "Date 1970 1 1 0 0 0 0 = 0" by code_simp
  then show "utc 0 = utc (Date 1970 1 1 0 0 0 0)" by simp
qed code_simp

text \<open>A text piece of at most the places of the largest value, before something that is no digit.\<close>

lemma reads_number:
  assumes "formatPatternMap c = Some info" "Available info ty" "Parse info z = number_parser lo hi upd"
    "c \<noteq> 69" "c \<noteq> 112" "c \<noteq> 87" "c \<noteq> 85"
    "list_all is_digit s" "s \<noteq> []" "length s \<le> length (dec_int hi)"
    "tail = [] \<or> \<not> rune_digit (hd tail) \<or> length s = length (dec_int hi)"
    "int (digits_val s) = v" "lo \<le> v" "v \<le> hi" "hi \<le> 2147483647"
    "reads z ty rest tail (upd t v) t'"
  shows "reads z ty (37 # c # rest) (lit s @ tail) t t'"
  using assms by (intro reads_elem [where info = info]) (simp_all add: number_parser_lit)

lemma reads_year:
  assumes "1 \<le> y" "y \<le> 9999" "ty \<noteq> FormatTypeTime" "tail = [] \<or> \<not> rune_digit (hd tail)"
    "reads z ty rest tail (with_year z t y) t'"
  shows "reads z ty (37 # 89 # rest) (lit (dec_int y) @ tail) t t'"
  using assms dec_int_year [OF assms(1,2)]
  by (intro reads_number [OF elems(1), where v = y]) (auto simp: Available_types yearParser_def dec_lengths)

lemma pad2:
  assumes "0 \<le> x" "x < 100"
  shows "list_all is_digit (pad_dec 2 x)" "pad_dec 2 x \<noteq> []" "length (pad_dec 2 x) = 2" "int (digits_val (pad_dec 2 x)) = x"
  using pad_dec_digits [of x 1] assms by (auto simp: numeral_2_eq_2 [symmetric] simp del: One_nat_def)

lemma reads_month:
  assumes "1 \<le> m" "m \<le> 12" "ty \<noteq> FormatTypeTime" "reads z ty rest tail (with_month z t m) t'"
  shows "reads z ty (37 # 109 # rest) (lit (pad_dec 2 m) @ tail) t t'"
  using assms pad2 [of m]
  by (intro reads_number [OF elems(2), where v = m]) (auto simp: Available_types monthNumberParser_def dec_lengths)

lemma reads_day:
  assumes "1 \<le> d" "d \<le> 31" "ty \<noteq> FormatTypeTime" "reads z ty rest tail (with_day z t d) t'"
  shows "reads z ty (37 # 100 # rest) (lit (pad_dec 2 d) @ tail) t t'"
  using assms pad2 [of d]
  by (intro reads_number [OF elems(3), where v = d]) (auto simp: Available_types dayParser_def dec_lengths)

lemma reads_hour:
  assumes "0 \<le> h" "h < 24" "ty \<noteq> FormatTypeDate" "reads z ty rest tail (with_hour z t h) t'"
  shows "reads z ty (37 # 72 # rest) (lit (pad_dec 2 h) @ tail) t t'"
  using assms pad2 [of h]
  by (intro reads_number [OF elems(4), where v = h]) (auto simp: Available_types hourParser_def dec_lengths)

lemma reads_minute:
  assumes "0 \<le> m" "m < 60" "ty \<noteq> FormatTypeDate" "reads z ty rest tail (with_minute z t m) t'"
  shows "reads z ty (37 # 77 # rest) (lit (pad_dec 2 m) @ tail) t t'"
  using assms pad2 [of m]
  by (intro reads_number [OF elems(5), where v = m]) (auto simp: Available_types minuteParser_def dec_lengths)

lemma reads_second:
  assumes "0 \<le> s" "s < 60" "ty \<noteq> FormatTypeDate" "reads z ty rest tail (with_second z t s (Nanosecond (wall z t))) t'"
  shows "reads z ty (37 # 83 # rest) (lit (pad_dec 2 s) @ tail) t t'"
  using assms pad2 [of s]
  by (intro reads_number [OF elems(6), where v = s]) (auto simp: Available_types secondParser_def dec_lengths)

section \<open>What is printed is read back\<close>

definition sep :: "int \<Rightarrow> bool" where "sep a \<longleftrightarrow> a \<noteq> 37 \<and> \<not> rune_digit a"

text \<open>The parser accepts \<open>x\<close> for the literal \<open>a\<close>.\<close>

definition sep_ok :: "int \<Rightarrow> int \<Rightarrow> bool" where
  "sep_ok a x \<longleftrightarrow> sep a \<and> sep x \<and> (a \<noteq> 32 \<or> x = 32)"

lemma reads_sep:
  assumes "sep_ok a x" "tail \<noteq> []" "rune_digit (hd tail)" "reads z ty rest tail t t'"
  shows "reads z ty (a # rest) (x # tail) t t'"
proof (cases "a = 32")
  case True
  have "hd tail \<noteq> 32" using assms(3) by (auto simp: rune_digit_def)
  then show ?thesis using True assms by (auto simp: sep_ok_def intro: reads_space)
qed (use assms in \<open>auto simp: sep_ok_def sep_def intro: reads_literal\<close>)

lemma hd_pad2: "0 \<le> v \<Longrightarrow> v < 100 \<Longrightarrow> lit (pad_dec 2 v) @ r \<noteq> [] \<and> rune_digit (hd (lit (pad_dec 2 v) @ r))"
  using pad2 [of v] by (cases "pad_dec 2 v") (auto simp: rune_digit_of_char)

definition date_format :: "int \<Rightarrow> int \<Rightarrow> runes" where
  "date_format a b = [37, 89, a, 37, 109, b, 37, 100]"

definition clock_format :: "int \<Rightarrow> int \<Rightarrow> runes" where
  "clock_format a b = [37, 72, a, 37, 77, b, 37, 83]"

definition date_text :: "int \<Rightarrow> int \<Rightarrow> gotime \<Rightarrow> runes" where
  "date_text a b w = lit (dec_int (Year w)) @ a # lit (pad_dec 2 (Month w)) @ b # lit (pad_dec 2 (Day w))"

definition clock_text :: "int \<Rightarrow> int \<Rightarrow> gotime \<Rightarrow> runes" where
  "clock_text a b w = lit (pad_dec 2 (Hour w)) @ a # lit (pad_dec 2 (Minute w)) @ b # lit (pad_dec 2 (Second w))"

lemma reads_date:
  assumes "1 \<le> Year w" "Year w \<le> 9999" "sep_ok a x" "sep_ok b y" "ty \<noteq> FormatTypeTime"
    "reads z ty rest tail (utc (Date (Year w) (Month w) (Day w) 0 0 0 0)) t'"
  shows "reads z ty (date_format a b @ rest) (date_text x y w @ tail) (utc 0) t'"
proof -
  note bounds = Month_bounds [of w] Day_bounds [of w] month_len_bounds(2) [of "Year w" "Month w"]
  have v: "valid_civil (Year w) 1 1" "valid_civil (Year w) (Month w) 1"
    using bounds by (auto simp: valid_civil_def month_len_def)
  note up = updates(1) [OF epoch(2)] updates(2) [OF v(1)] updates(3) [OF v(2)]
  have "\<not> rune_digit x" "Day w \<le> 31" "pad_dec 2 (Day w) \<noteq> []" "rune_digit (hd (lit (pad_dec 2 (Day w))))"
    using hd_pad2 [of "Day w" "[]"] assms(3) bounds by (auto simp: sep_ok_def sep_def)
  then show ?thesis
    using assms bounds unfolding date_format_def date_text_def epoch(1)
    by (auto simp: up hd_pad2 intro!: reads_year reads_sep reads_month reads_day)
qed

lemma reads_clock:
  assumes "sep_ok a x" "sep_ok b y" "ty \<noteq> FormatTypeDate" "valid_civil yy mm dd" "0 \<le> ns" "ns < 1000000000"
    "reads z ty rest tail (utc (Date yy mm dd (Hour w) (Minute w) (Second w) ns)) t'"
  shows "reads z ty (clock_format a b @ rest) (clock_text x y w @ tail) (utc (Date yy mm dd 0 0 0 ns)) t'"
proof -
  note bounds = clock_bounds [of w]
  note up = updates [OF assms(4)] Date_fields(7) [OF assms(4)]
  show ?thesis
    using assms bounds hd_pad2 [of "Second w" "[]"] unfolding clock_format_def clock_text_def
    by (auto simp: up hd_pad2 intro!: reads_hour reads_sep reads_minute reads_second)
qed

section \<open>Printing\<close>

lemma FormatTime_elem:
  assumes "formatPatternMap c = Some info" "c \<noteq> 69" "Available info ty" "Format info w off = Inr s"
    "FormatTime rest w off ty = Inr out"
  shows "FormatTime (37 # c # rest) w off ty = Inr (lit s @ out)"
  using assms by (subst FormatTime.simps) (simp add: format_elem_def)

lemma FormatTime_literal:
  "c \<noteq> 37 \<Longrightarrow> FormatTime rest w off ty = Inr out \<Longrightarrow> FormatTime (c # rest) w off ty = Inr (c # out)"
  by (subst FormatTime.simps) simp

lemma FormatTime_Nil: "FormatTime [] w off ty = Inr []"
  by (simp add: FormatTime.simps)

lemma format_date:
  assumes "sep a" "sep b" "ty \<noteq> FormatTypeTime" "FormatTime rest w off ty = Inr out"
  shows "FormatTime (date_format a b @ rest) w off ty = Inr (date_text a b w @ out)"
  using assms unfolding date_format_def date_text_def sep_def
  by (simp add: FormatTime_elem [OF elems(1)] FormatTime_elem [OF elems(2)] FormatTime_elem [OF elems(3)]
      FormatTime_literal Available_types yearFormatter_def monthNumberFormatter_def dayFormatter_def)

lemma format_clock:
  assumes "sep a" "sep b" "ty \<noteq> FormatTypeDate" "FormatTime rest w off ty = Inr out"
  shows "FormatTime (clock_format a b @ rest) w off ty = Inr (clock_text a b w @ out)"
  using assms unfolding clock_format_def clock_text_def sep_def
  by (simp add: FormatTime_elem [OF elems(4)] FormatTime_elem [OF elems(5)] FormatTime_elem [OF elems(6)]
      FormatTime_literal Available_types hourFormatter_def minuteFormatter_def secondFormatter_def)

section \<open>Round trips\<close>

lemma Date_midnight: "Date (Year t) (Month t) (Day t) 0 0 0 0 = day_number t * day_ns"
  using Month_bounds [of t] days_of_time [of t] by (simp add: Date_in_range)

lemma Date_of_clock: "Date 1970 1 1 (Hour t) (Minute t) (Second t) (Nanosecond t) = clock_ns t"
proof -
  have "days_of_civil 1970 1 1 = 0" by code_simp
  then show ?thesis using clock_split [of t] by (simp add: Date_in_range)
qed

lemma date_read:
  assumes "1 \<le> Year t" "Year t \<le> 9999" "sep_ok a x" "sep_ok b y" "\<And>l. set (order l) = set l"
  shows "PARSE_DATE z order (date_format a b) (date_text x y t) = Inr (utc (day_number t * day_ns))"
  unfolding PARSE_DATE_def
  using reads_date [OF assms(1-4) _ reads_Nil] assms(5)
  by (intro reads_ParseTimeFormat) (simp_all add: Date_midnight)

text \<open>C17. A time of the years 1 to 9999 without fraction of a second, printed as year, month, day,
  hour, minute and second with any literals between them that are not digits or percent signs, is read
  back by the same format; so are its date and its time of day. This holds in any order of visiting the
  parsed tokens.\<close>

theorem time_format_roundtrip:
  assumes "1 \<le> Year t" "Year t \<le> 9999" "Nanosecond t = 0" "list_all sep [a, b, c, d, e]"
    "\<And>l. set (order l) = set l"
  shows "(\<exists>s. FORMAT_DATETIME (date_format a b @ c # clock_format d e) t = Inr s
        \<and> PARSE_DATETIME z order (date_format a b @ c # clock_format d e) s = Inr (utc t))
    \<and> (\<exists>s. FORMAT_DATE (date_format a b) t = Inr s
        \<and> PARSE_DATE z order (date_format a b) s = Inr (utc (day_number t * day_ns)))
    \<and> (\<exists>s. FORMAT_TIME (clock_format d e) t = Inr s
        \<and> PARSE_TIME z order (clock_format d e) s = Inr (utc (clock_ns t)))"
proof -
  have ok: "sep_ok a a" "sep_ok b b" "sep_ok c c" "sep_ok d d" "sep_ok e e" using assms(4) by (simp_all add: sep_ok_def)
  have sp: "sep a" "sep b" "sep c" "sep d" "sep e" "c \<noteq> 37" using assms(4) by (simp_all add: sep_def)
  have hd: "clock_text d e t \<noteq> []" "rune_digit (hd (clock_text d e t))"
    using clock_bounds [of t] hd_pad2 [of "Hour t"] by (simp_all add: clock_text_def)
  have clock: "reads z FormatTypeDatetime (clock_format d e) (clock_text d e t)
      (utc (Date (Year t) (Month t) (Day t) 0 0 0 0)) (utc t)"
    using reads_clock [where w = t and ty = FormatTypeDatetime and ns = 0, OF ok(4,5) _ civil_valid [of t] _ _ reads_Nil] Date_self [of t] assms(3) by simp
  have dt: "PARSE_DATETIME z order (date_format a b @ c # clock_format d e) (date_text a b t @ c # clock_text d e t) = Inr (utc t)"
    unfolding PARSE_DATETIME_def
    by (intro reads_ParseTimeFormat assms(5) reads_date [OF assms(1,2) ok(1,2)] reads_sep [OF ok(3) hd] clock) simp
  have tm: "PARSE_TIME z order (clock_format d e) (clock_text d e t) = Inr (utc (clock_ns t))"
    unfolding PARSE_TIME_def
    using reads_clock [where w = t and ty = FormatTypeTime and ns = 0, OF ok(4,5) _ epoch(2) _ _ reads_Nil] assms(3) Date_of_clock [of t] assms(5)
    by (intro reads_ParseTimeFormat) (simp_all add: epoch(1))
  show ?thesis
    using dt tm date_read [OF assms(1,2) ok(1,2) assms(5)]
      format_date [OF sp(1,2) _ FormatTime_literal [OF sp(6) format_clock [OF sp(4,5) _ FormatTime_Nil]], of FormatTypeDatetime t 0]
      format_date [OF sp(1,2) _ FormatTime_Nil, of FormatTypeDate t 0] format_clock [OF sp(4,5) _ FormatTime_Nil, of FormatTypeTime t 0]
    by (simp add: FORMAT_DATE_def FORMAT_DATETIME_def FORMAT_TIME_def)
qed

theorem time_format_roundtrip_witness:
  "(\<exists>s. FORMAT_DATETIME (date_format 45 45 @ 32 # clock_format 58 58) 0 = Inr s
        \<and> PARSE_DATETIME \<lparr>to_wall = id, from_wall = id\<rparr> rev (date_format 45 45 @ 32 # clock_format 58 58) s = Inr (utc 0))"
proof -
  have "Year 0 = 1970" "Nanosecond 0 = 0" "list_all sep [45, 45, 32, 58, 58]" by code_simp+
  then show ?thesis
    using time_format_roundtrip [of 0 45 45 32 58 58 rev "\<lparr>to_wall = id, from_wall = id\<rparr>"] by simp
qed

section \<open>Month or day before the year\<close>

text \<open>The fields are put into the epoch one by one, so 29 February does not survive in 1970.\<close>

definition mdy_format :: "int \<Rightarrow> int \<Rightarrow> runes" where "mdy_format a b = [37, 109, a, 37, 100, b, 37, 89]"
definition dmy_format :: "int \<Rightarrow> int \<Rightarrow> runes" where "dmy_format a b = [37, 100, a, 37, 109, b, 37, 89]"

lemma valid_1970:
  assumes "valid_civil y m d" "\<not> (m = 2 \<and> d = 29)"
  shows "valid_civil 1970 m d"
proof -
  have "\<not> is_leap 1970" by code_simp
  then show ?thesis using assms by (auto simp: valid_civil_def month_len_def split: if_splits)
qed

lemma lost_leap_day: "utc (Date 1970 2 29 0 0 0 0) = utc (Date 1970 3 1 0 0 0 0)" "valid_civil 1970 3 1" "valid_civil 1970 2 1"
    "valid_civil 1970 1 29"
proof -
  have "Date 1970 2 29 0 0 0 0 = Date 1970 3 1 0 0 0 0" by code_simp
  then show "utc (Date 1970 2 29 0 0 0 0) = utc (Date 1970 3 1 0 0 0 0)" by simp
qed code_simp+

lemma reads_mdy:
  assumes "1 \<le> Year w" "Year w \<le> 9999" "sep_ok a x" "sep_ok b y" "ty \<noteq> FormatTypeTime"
  shows "reads z ty (mdy_format a b)
      (lit (pad_dec 2 (Month w)) @ x # lit (pad_dec 2 (Day w)) @ y # lit (dec_int (Year w))) (utc 0)
      (with_year z (with_day z (with_month z (utc 0) (Month w)) (Day w)) (Year w))"
    and "reads z ty (dmy_format a b)
      (lit (pad_dec 2 (Day w)) @ x # lit (pad_dec 2 (Month w)) @ y # lit (dec_int (Year w))) (utc 0)
      (with_year z (with_month z (with_day z (utc 0) (Day w)) (Month w)) (Year w))"
proof -
  note bounds = Month_bounds [of w] Day_bounds [of w] month_len_bounds(2) [of "Year w" "Month w"]
  have "Day w \<le> 31" using bounds by linarith
  moreover have "lit (dec_int (Year w)) \<noteq> []" "rune_digit (hd (lit (dec_int (Year w))))"
    using dec_int_year [OF assms(1,2)] by (simp, cases "dec_int (Year w)") (auto simp: rune_digit_of_char)
  moreover have "reads z ty [37, 89] (lit (dec_int (Year w))) t (with_year z t (Year w))" for t
    using reads_year [OF assms(1,2,5), of "[]" z "[]" t] reads_Nil by simp
  ultimately show "reads z ty (mdy_format a b)
      (lit (pad_dec 2 (Month w)) @ x # lit (pad_dec 2 (Day w)) @ y # lit (dec_int (Year w))) (utc 0)
      (with_year z (with_day z (with_month z (utc 0) (Month w)) (Day w)) (Year w))"
    "reads z ty (dmy_format a b)
      (lit (pad_dec 2 (Day w)) @ x # lit (pad_dec 2 (Month w)) @ y # lit (dec_int (Year w))) (utc 0)
      (with_year z (with_month z (with_day z (utc 0) (Day w)) (Month w)) (Year w))"
    using assms bounds unfolding mdy_format_def dmy_format_def
    by (auto simp: hd_pad2 intro!: reads_sep reads_month reads_day)
qed

lemma year_last:
  assumes "Month w = m" "Day w = d"
  shows "with_year z (with_day z (with_month z (utc 0) m) d) (Year w) = utc (if m = 2 \<and> d = 29 then Date (Year w) 3 1 0 0 0 0 else day_number w * day_ns)"
    and "with_year z (with_month z (with_day z (utc 0) d) m) (Year w) = utc (if m = 2 \<and> d = 29 then Date (Year w) 3 1 0 0 0 0 else day_number w * day_ns)"
proof -
  have m: "valid_civil 1970 m 1" and d: "valid_civil 1970 1 d"
    using Month_bounds [of w] Day_bounds [of w] month_len_bounds(2) [of "Year w" "Month w"] assms
    by (auto simp: valid_civil_def month_len_def split: if_splits)
  have e: "with_day z (with_month z (utc 0) m) d = utc (Date 1970 m d 0 0 0 0)"
    "with_month z (with_day z (utc 0) d) m = utc (Date 1970 m d 0 0 0 0)"
    by (simp_all add: epoch(1) updates [OF epoch(2)] updates [OF m] updates [OF d])
  have "with_year z (utc (Date 1970 m d 0 0 0 0)) (Year w)
      = utc (if m = 2 \<and> d = 29 then Date (Year w) 3 1 0 0 0 0 else day_number w * day_ns)"
  proof (cases "m = 2 \<and> d = 29")
    case True
    then have "utc (Date 1970 m d 0 0 0 0) = utc (Date 1970 3 1 0 0 0 0)" using lost_leap_day(1) by simp
    then show ?thesis using True updates(1) [OF lost_leap_day(2)] by simp
  next
    case False
    have "valid_civil (Year w) m d" using civil_valid [of w] assms by simp
    from valid_1970 [OF this False] show ?thesis
      using False updates(1) [of 1970 m d] Date_midnight [of w] assms by auto
  qed
  then show "with_year z (with_day z (with_month z (utc 0) m) d) (Year w) = utc (if m = 2 \<and> d = 29 then Date (Year w) 3 1 0 0 0 0 else day_number w * day_ns)"
    "with_year z (with_month z (with_day z (utc 0) d) m) (Year w) = utc (if m = 2 \<and> d = 29 then Date (Year w) 3 1 0 0 0 0 else day_number w * day_ns)"
    by (simp_all add: e)
qed

text \<open>A date of the years 1 to 9999 printed with month and day before the year, in either order
  and with any separators, is read back, except that 29 February of any leap year is read as 1 March. The
  runes of the text at the places of the separators are not compared with the format.\<close>

theorem year_last_parse:
  assumes "1 \<le> Year t" "Year t \<le> 9999" "sep_ok a x" "sep_ok b y" "\<And>l. set (order l) = set l"
  shows "\<exists>r. r = (if Month t = 2 \<and> Day t = 29 then Date (Year t) 3 1 0 0 0 0 else day_number t * day_ns)
    \<and> PARSE_DATE z order (mdy_format a b)
        (lit (pad_dec 2 (Month t)) @ x # lit (pad_dec 2 (Day t)) @ y # lit (dec_int (Year t))) = Inr (utc r)
    \<and> PARSE_DATE z order (dmy_format a b)
        (lit (pad_dec 2 (Day t)) @ x # lit (pad_dec 2 (Month t)) @ y # lit (dec_int (Year t))) = Inr (utc r)"
  unfolding PARSE_DATE_def
  using reads_mdy [OF assms(1-4), of FormatTypeDate z] assms(5)
  by (intro exI conjI refl reads_ParseTimeFormat) (simp_all add: year_last [OF refl refl])

theorem year_last_parse_witness:
  "PARSE_DATE \<lparr>to_wall = id, from_wall = id\<rparr> id (lit ''%m/%d/%Y'') (lit ''02x29y2024'') = Inr (utc (Date 2024 3 1 0 0 0 0))"
proof -
  let ?t = "Date 2024 2 29 0 0 0 0"
  have "Year ?t = 2024" "Month ?t = 2" "Day ?t = 29" "sep_ok 47 120" "sep_ok 47 121"
    "lit (pad_dec 2 2) @ 120 # lit (pad_dec 2 29) @ 121 # lit (dec_int 2024) = lit ''02x29y2024''"
    "mdy_format 47 47 = lit ''%m/%d/%Y''" by code_simp+
  then show ?thesis
    using year_last_parse [of ?t 47 120 47 121 id "\<lparr>to_wall = id, from_wall = id\<rparr>"] by simp
qed

section \<open>Further wrong results\<close>

definition utc_zone :: local_zone where "utc_zone = \<lparr>to_wall = id, from_wall = id\<rparr>"

lemma quarter_wrong: "FORMAT_DATE (lit ''%Q'') (Date 2023 3 31 0 0 0 0) = Inr (lit ''2'')"
  by code_simp

lemma hour12_wrong: "FORMAT_DATETIME (lit ''%I:%M %p'') (Date 2023 3 31 13 5 0 0) = Inr (lit ''13:05 PM'')"
  by code_simp

lemma weekday_wrong: "FORMAT_DATE (lit ''%w'') (Date 2023 1 1 0 0 0 0) = Inr (lit ''51'')"
  by code_simp

lemma century_panics: "FORMAT_DATE (lit ''%C'') (Date 5 1 1 0 0 0 0) = Inl Panic"
  by code_simp

lemma short_text_panics: "PARSE_DATE utc_zone id (lit ''%y-%m-%dZ'') (lit ''24-02-29'') = Inl Panic"
  by code_simp

lemma february_30_accepted: "PARSE_DATE utc_zone id (lit ''%y-%m-%d'') (lit ''23-02-30'') = Inr (utc (Date 2023 3 2 0 0 0 0))"
  by code_simp

lemma week_order_1: "PARSE_DATE utc_zone id (lit ''%y/%U/%W'') (lit ''23/10/20'') = Inr (utc (Date 2023 3 5 0 0 0 0))"
  by code_simp

lemma week_order_2: "PARSE_DATE utc_zone rev (lit ''%y/%U/%W'') (lit ''23/10/20'') = Inr (utc (Date 2023 5 15 0 0 0 0))"
  by code_simp


text \<open>31 March is printed in quarter 2 by \<open>%Q\<close>; \<open>%I\<close> prints the hour of the 24-hour clock; \<open>%w\<close>
  prints an ISO week number less one; \<open>%C\<close> panics for a year of one digit; a format longer than the text
  panics; 30 February is accepted; and with \<open>%U\<close> and \<open>%W\<close> in one format the result depends on the order in
  which the tokens are visited.\<close>

theorem time_format_defects:
  "FORMAT_DATE (lit ''%Q'') (Date 2023 3 31 0 0 0 0) = Inr (lit ''2'')
   \<and> FORMAT_DATETIME (lit ''%I:%M %p'') (Date 2023 3 31 13 5 0 0) = Inr (lit ''13:05 PM'')
   \<and> FORMAT_DATE (lit ''%w'') (Date 2023 1 1 0 0 0 0) = Inr (lit ''51'')
   \<and> FORMAT_DATE (lit ''%C'') (Date 5 1 1 0 0 0 0) = Inl Panic
   \<and> PARSE_DATE utc_zone id (lit ''%y-%m-%dZ'') (lit ''24-02-29'') = Inl Panic
   \<and> PARSE_DATE utc_zone id (lit ''%y-%m-%d'') (lit ''23-02-30'') = Inr (utc (Date 2023 3 2 0 0 0 0))
   \<and> PARSE_DATE utc_zone id (lit ''%y/%U/%W'') (lit ''23/10/20'') = Inr (utc (Date 2023 3 5 0 0 0 0))
   \<and> PARSE_DATE utc_zone rev (lit ''%y/%U/%W'') (lit ''23/10/20'') = Inr (utc (Date 2023 5 15 0 0 0 0))"
  using quarter_wrong hour12_wrong weekday_wrong century_panics short_text_panics february_30_accepted
    week_order_1 week_order_2 by blast

end
