(* ===== verification/Cast_Time.thy ===== *)
theory Cast_Time
  imports Time_Format_Props
begin

text \<open>
  \<open>CAST(... FORMAT ...)\<close> between STRING and DATE, DATETIME, TIME and TIMESTAMP: the printer
  (\<open>cast_format_datetime.go\<close>), and the tokenizer, the rules for format models and the parser
  (\<open>cast_format_parse.go\<close>). Formats and texts are byte strings. The current time and the time zone of
  the cast are arguments, as in the code.
\<close>

section \<open>Printing\<close>

datatype cast_time_error =
    UnterminatedQuote | UnknownElement | ElementNotSupported string string | NotForParsing string
  | RepeatedElement string | SamePart string string | NotAllowed string | ModelError | NoMatch

definition castFormatElements :: "string list" where
  "castFormatElements =
     [''A.M.'', ''P.M.'', ''HH24'', ''HH12'', ''MONTH'', ''YYYY'', ''RRRR'',
      ''FF1'', ''FF2'', ''FF3'', ''FF4'', ''FF5'', ''FF6'', ''FF7'', ''FF8'', ''FF9'',
      ''SSSSS'', ''TZH'', ''TZM'',
      ''YYY'', ''MON'', ''DDD'', ''DAY'', ''RR'', ''YY'', ''MM'', ''DD'', ''DY'', ''HH'', ''MI'', ''SS'', ''AM'', ''PM'',
      ''Y'', ''D'', ''Q'']"

text \<open>The first element at the head of the format, in any case: \<open>strings.EqualFold\<close> of byte strings
  of equal length, one of them ASCII.\<close>

fun find_elem :: "string list \<Rightarrow> string \<Rightarrow> string option" where
  "find_elem [] s = None"
| "find_elem (e # es) s =
     (if length e \<le> length s \<and> map lower_char (take (length e) s) = map lower_char e then Some e else find_elem es s)"

definition upper_case :: "char \<Rightarrow> bool" where "upper_case c \<longleftrightarrow> byte_in 65 90 c"

definition textCase :: "string \<Rightarrow> string \<Rightarrow> string" where
  "textCase elem s =
     (if elem = map upper_char elem \<and> 1 < length elem \<and> upper_case (elem ! 1) then map upper_char s
      else if upper_case (elem ! 0) then map upper_char (take 1 s) @ map lower_char (drop 1 s)
      else map lower_char s)"

definition castFormatTimeElements :: "string list" where
  "castFormatTimeElements =
     [''HH'', ''HH12'', ''HH24'', ''MI'', ''SS'', ''SSSSS'', ''AM'', ''PM'', ''A.M.'', ''P.M.'',
      ''FF1'', ''FF2'', ''FF3'', ''FF4'', ''FF5'', ''FF6'', ''FF7'', ''FF8'', ''FF9'']"

definition checkCastFormatElement :: "string \<Rightarrow> string \<Rightarrow> cast_time_error + unit" where
  "checkCastFormatElement typeName elem =
     (let up = map upper_char elem; isTZ = (up = ''TZH'' \<or> up = ''TZM''); isTime = (up \<in> set castFormatTimeElements);
          bad = (if typeName = ''DATE'' then isTime \<or> isTZ
                 else if typeName = ''DATETIME'' then isTZ
                 else if typeName = ''TIME'' then isTZ \<or> \<not> isTime
                 else False)
      in if bad then Inl (ElementNotSupported typeName up) else Inr ())"

text \<open>One element. The arguments are the wall clock and the zone offset of the time.\<close>

definition cast_elem_text :: "gotime \<Rightarrow> int \<Rightarrow> string \<Rightarrow> string" where
  "cast_elem_text w off elem =
     (let up = map upper_char elem; hour12 = (if Hour w smod 12 = 0 then 12 else Hour w smod 12)
      in if up = ''YYYY'' \<or> up = ''RRRR'' then pad_dec 4 (Year w)
         else if up = ''YYY'' then pad_dec 3 (Year w smod 1000)
         else if up = ''YY'' \<or> up = ''RR'' then pad_dec 2 (Year w smod 100)
         else if up = ''Y'' then dec_int (Year w smod 10)
         else if up = ''Q'' then dec_int ((Month w - 1) sdiv 3 + 1)
         else if up = ''MM'' then pad_dec 2 (Month w)
         else if up = ''MON'' then textCase elem (take 3 (months ! nat (Month w - 1)))
         else if up = ''MONTH'' then textCase elem (months ! nat (Month w - 1))
         else if up = ''DD'' then pad_dec 2 (Day w)
         else if up = ''DDD'' then pad_dec 3 (YearDay w)
         else if up = ''D'' then dec_int (Weekday w + 1)
         else if up = ''DAY'' then textCase elem (dayOfWeeks ! nat (Weekday w))
         else if up = ''DY'' then textCase elem (take 3 (dayOfWeeks ! nat (Weekday w)))
         else if up = ''HH'' \<or> up = ''HH12'' then pad_dec 2 hour12
         else if up = ''HH24'' then pad_dec 2 (Hour w)
         else if up = ''MI'' then pad_dec 2 (Minute w)
         else if up = ''SS'' then pad_dec 2 (Second w)
         else if up = ''SSSSS'' then pad_dec 5 (Hour w * 3600 + Minute w * 60 + Second w)
         else if up = ''AM'' \<or> up = ''PM'' \<or> up = ''A.M.'' \<or> up = ''P.M.'' then
           (let m = (if Hour w \<ge> 12 then ''PM'' else ''AM'');
                m = (if CHR ''.'' \<in> set elem then take 1 m @ ''.'' @ drop 1 m @ ''.'' else m)
            in if byte_in 97 122 (elem ! 0) then map lower_char m else m)
         else if up = ''TZH'' then (if off < 0 then ''-'' else ''+'') @ pad_dec 2 (\<bar>off\<bar> div 3600)
         else if up = ''TZM'' then pad_dec 2 (\<bar>off\<bar> mod 3600 div 60)
         else take (digit_val (elem ! 2)) (pad_dec 9 (Nanosecond w)))"

function formatDateTimeElements :: "gotime \<Rightarrow> int \<Rightarrow> string \<Rightarrow> string \<Rightarrow> cast_time_error + string" where
  "formatDateTimeElements w off format typeName =
     (case format of
        [] \<Rightarrow> Inr []
      | c # rest \<Rightarrow>
          if c = CHR 0x22 then
            (case IndexByte rest CHR 0x22 of
               None \<Rightarrow> Inl UnterminatedQuote
             | Some e \<Rightarrow> bind_res (formatDateTimeElements w off (drop (e + 1) rest) typeName) (\<lambda>out. Inr (take e rest @ out)))
          else if c \<in> set '' -/,.;:'' then
            bind_res (formatDateTimeElements w off rest typeName) (\<lambda>out. Inr (c # out))
          else
            (case find_elem castFormatElements format of
               None \<Rightarrow> Inl UnknownElement
             | Some e \<Rightarrow>
                 let elem = take (length e) format
                 in bind_res (checkCastFormatElement typeName elem) (\<lambda>_.
                      bind_res (formatDateTimeElements w off (drop (length e - 1) rest) typeName) (\<lambda>out.
                        Inr (cast_elem_text w off elem @ out)))))"
  by pat_completeness auto
termination
  by (relation "measure (\<lambda>(_, _, f, _). length f)") auto

declare formatDateTimeElements.simps [simp del]

section \<open>Formats for parsing\<close>

datatype castParseTarget = castParseDate | castParseDatetime | castParseTime | castParseTimestamp

definition castParseElements :: "string list" where
  "castParseElements =
     [''Y,YYY'', ''A.M.'', ''P.M.'', ''HH24'', ''HH12'', ''MONTH'', ''YYYY'', ''RRRR'',
      ''FF1'', ''FF2'', ''FF3'', ''FF4'', ''FF5'', ''FF6'', ''FF7'', ''FF8'', ''FF9'',
      ''SSSSS'', ''TZH'', ''TZM'',
      ''YYY'', ''MON'', ''DDD'', ''DAY'', ''RR'', ''YY'', ''MM'', ''DD'', ''DY'', ''HH'', ''MI'', ''SS'', ''AM'', ''PM'',
      ''Y'', ''D'', ''Q'']"

definition castParseUnsupported :: "string list" where
  "castParseUnsupported = [''DDD'', ''DAY'', ''DY'', ''D'', ''Q'', ''AM'', ''PM'']"

datatype castParseToken = tokElement string | tokLiteral string | tokSpace

definition elementPart :: "string \<Rightarrow> string" where
  "elementPart e =
     (if e \<in> set [''YYYY'', ''YYY'', ''YY'', ''Y'', ''Y,YYY'', ''RRRR'', ''RR''] then ''year''
      else if e \<in> set [''MM'', ''MON'', ''MONTH''] then ''month''
      else if e = ''DD'' then ''day''
      else if e \<in> set [''HH'', ''HH12'', ''HH24''] then ''hour''
      else if e = ''MI'' then ''minute''
      else if e = ''SS'' then ''second''
      else if e = ''SSSSS'' then ''secondofday''
      else if e \<in> set [''A.M.'', ''P.M.''] then ''meridian''
      else if e = ''TZH'' then ''tzh''
      else if e = ''TZM'' then ''tzm''
      else ''fraction'')"

text \<open>The body of a quoted literal with its backslashes undone, and what follows the closing quote.\<close>

fun quoted_literal :: "string \<Rightarrow> (string \<times> string) option" where
  "quoted_literal [] = None"
| "quoted_literal (c # s) =
     (if c = CHR 0x22 then Some ([], s)
      else if c = CHR 0x5C \<and> s \<noteq> [] then map_option (\<lambda>(l, r). (hd s # l, r)) (quoted_literal (tl s))
      else map_option (\<lambda>(l, r). (c # l, r)) (quoted_literal s))"

lemma quoted_literal_shorter: "quoted_literal s = Some (l, r) \<Longrightarrow> length r < length s"
proof (induction s arbitrary: l r rule: length_induct)
  case (1 s)
  show ?case
  proof (cases s)
    case (Cons c s')
    then show ?thesis
      using 1(1) [rule_format, of s'] 1(1) [rule_format, of "tl s'"] 1(2)
      by (cases s') (fastforce split: if_splits)+
  qed (use 1 in simp)
qed

function tokenizeCastParseFormat :: "string \<Rightarrow> cast_time_error + castParseToken list" where
  "tokenizeCastParseFormat format =
     (case format of
        [] \<Rightarrow> Inr []
      | c # rest \<Rightarrow>
          if c = CHR 0x22 then
            (case quoted_literal rest of
               None \<Rightarrow> Inl UnterminatedQuote
             | Some (l, r) \<Rightarrow> bind_res (tokenizeCastParseFormat r) (\<lambda>toks. Inr (tokLiteral l # toks)))
          else if c = CHR '' '' then
            bind_res (tokenizeCastParseFormat (dropWhile (\<lambda>c. c = CHR '' '') rest)) (\<lambda>toks. Inr (tokSpace # toks))
          else if c \<in> set [CHR ''-'', CHR ''/'', CHR '','', CHR ''.'', CHR '';'', CHR '':'', CHR 0x27] then
            bind_res (tokenizeCastParseFormat rest) (\<lambda>toks. Inr (tokLiteral [c] # toks))
          else
            (case find_elem castParseElements format of
               None \<Rightarrow> Inl UnknownElement
             | Some e \<Rightarrow>
                 if e \<in> set castParseUnsupported then Inl (NotForParsing e)
                 else bind_res (tokenizeCastParseFormat (drop (length e - 1) rest)) (\<lambda>toks. Inr (tokElement e # toks))))"
  by pat_completeness auto
termination
  by (relation "measure length") (auto dest: quoted_literal_shorter simp: le_imp_less_Suc length_dropWhile_le)

declare tokenizeCastParseFormat.simps [simp del]

section \<open>Format models\<close>

type_synonym parts = "(string \<times> string) list"

definition part_allowed :: "castParseTarget \<Rightarrow> string \<Rightarrow> bool" where
  "part_allowed target p \<longleftrightarrow>
     (if p \<in> set [''year'', ''month'', ''day''] then target \<noteq> castParseTime
      else if p \<in> set [''tzh'', ''tzm''] then target = castParseTimestamp
      else target \<noteq> castParseDate)"

fun model_parts :: "castParseTarget \<Rightarrow> castParseToken list \<Rightarrow> parts \<Rightarrow> cast_time_error + parts" where
  "model_parts target [] parts = Inr parts"
| "model_parts target (tokElement e # toks) parts =
     (let p = elementPart e
      in if e \<in> set (map snd parts) then Inl (RepeatedElement e)
         else case map_of parts p of
           Some prev \<Rightarrow> Inl (SamePart prev e)
         | None \<Rightarrow> if part_allowed target p then model_parts target toks ((p, e) # parts) else Inl (NotAllowed e))"
| "model_parts target (_ # toks) parts = model_parts target toks parts"

definition validateCastParseModel :: "castParseToken list \<Rightarrow> castParseTarget \<Rightarrow> cast_time_error + unit" where
  "validateCastParseModel toks target =
     bind_res (model_parts target toks []) (\<lambda>parts.
       let hour = map_of parts ''hour''; hasMeridian = (map_of parts ''meridian'' \<noteq> None)
       in if hour = Some ''HH24'' \<and> hasMeridian then Inl ModelError
          else if hour \<noteq> None \<and> hour \<noteq> Some ''HH24'' \<and> \<not> hasMeridian then Inl ModelError
          else if hasMeridian \<and> (hour = None \<or> hour = Some ''HH24'') then Inl ModelError
          else if map_of parts ''secondofday'' \<noteq> None
             \<and> list_ex (\<lambda>p. map_of parts p \<noteq> None) [''hour'', ''minute'', ''second'', ''meridian''] then Inl ModelError
          else if map_of parts ''tzm'' \<noteq> None \<and> map_of parts ''tzh'' = None then Inl ModelError
          else Inr ())"

definition isNumericElement :: "castParseToken \<Rightarrow> bool" where
  "isNumericElement t \<longleftrightarrow>
     (case t of tokElement e \<Rightarrow> e \<notin> set [''MON'', ''MONTH'', ''A.M.'', ''P.M.'', ''TZH''] | _ \<Rightarrow> False)"

section \<open>The parser\<close>

text \<open>The variables of \<open>parseStringWithFormat\<close>; \<open>p_in\<close> is the text from \<open>pos\<close> on.\<close>

record cast_state =
  p_in :: string
  p_year :: int
  p_month :: int
  p_day :: int
  p_hour :: int
  p_minute :: int
  p_sec :: int
  p_nsec :: int
  p_pm :: bool
  p_hasMeridian :: bool
  p_tzSign :: int
  p_tzH :: int
  p_tzM :: int
  p_hasTZ :: bool

text \<open>\<open>readDigits\<close>: the number, how many digits it has, and the state after them.\<close>

definition readDigits :: "nat \<Rightarrow> nat \<Rightarrow> cast_state \<Rightarrow> (int \<times> nat \<times> cast_state) option" where
  "readDigits minN maxN st =
     (let ds = takeWhile is_digit (take maxN (p_in st))
      in if length ds < minN then None
         else Some (int (digits_val ds), length ds, st\<lparr>p_in := drop (length ds) (p_in st)\<rparr>))"

definition read_num :: "bool \<Rightarrow> nat \<Rightarrow> nat \<Rightarrow> cast_state \<Rightarrow> (int \<times> nat \<times> cast_state) option" where
  "read_num delimited width delimitedMax st =
     (if delimited then readDigits 1 delimitedMax st else readDigits width width st)"

definition read_month_name :: "bool \<Rightarrow> cast_state \<Rightarrow> cast_state option" where
  "read_month_name short st =
     (case find (\<lambda>m. let name = (if short then take 3 (months ! m) else months ! m)
                     in length name \<le> length (p_in st)
                        \<and> map lower_char (take (length name) (p_in st)) = map lower_char name) [0..<12] of
        None \<Rightarrow> None
      | Some m \<Rightarrow> Some (st\<lparr>p_month := int m + 1,
            p_in := drop (if short then 3 else length (months ! m)) (p_in st)\<rparr>))"

definition read_element :: "int \<Rightarrow> bool \<Rightarrow> string \<Rightarrow> cast_state \<Rightarrow> cast_state option" where
  "read_element nowYear delimited e st =
     (if e = ''YYYY'' \<or> e = ''RRRR'' then
        map_option (\<lambda>(v, _, st). st\<lparr>p_year := v\<rparr>) (read_num delimited 4 5 st)
      else if e = ''YYY'' \<or> e = ''YY'' \<or> e = ''Y'' then
        map_option (\<lambda>(v, _, st). st\<lparr>p_year := nowYear sdiv 10 ^ length e * 10 ^ length e + v\<rparr>)
          (readDigits (length e) (length e) st)
      else if e = ''Y,YYY'' then
        Option.bind (readDigits 1 2 st) (\<lambda>(hi, _, st).
          if p_in st = [] \<or> hd (p_in st) \<noteq> CHR '','' then None
          else map_option (\<lambda>(lo, _, st). st\<lparr>p_year := hi * 1000 + lo\<rparr>) (readDigits 3 3 (st\<lparr>p_in := tl (p_in st)\<rparr>)))
      else if e = ''RR'' then
        map_option (\<lambda>(v, _, st).
          let century = nowYear sdiv 100 * 100; cur = nowYear smod 100;
              century = (if v < 50 \<and> cur \<ge> 50 then century + 100 else if v \<ge> 50 \<and> cur < 50 then century - 100 else century)
          in st\<lparr>p_year := century + v\<rparr>) (readDigits 2 2 st)
      else if e = ''MM'' then map_option (\<lambda>(v, _, st). st\<lparr>p_month := v\<rparr>) (read_num delimited 2 2 st)
      else if e = ''MON'' \<or> e = ''MONTH'' then read_month_name (e = ''MON'') st
      else if e = ''DD'' then map_option (\<lambda>(v, _, st). st\<lparr>p_day := v\<rparr>) (read_num delimited 2 2 st)
      else if e = ''HH'' \<or> e = ''HH12'' then
        Option.bind (read_num delimited 2 2 st) (\<lambda>(v, _, st). if v < 1 \<or> v > 12 then None else Some (st\<lparr>p_hour := v smod 12\<rparr>))
      else if e = ''HH24'' then map_option (\<lambda>(v, _, st). st\<lparr>p_hour := v\<rparr>) (read_num delimited 2 2 st)
      else if e = ''MI'' then map_option (\<lambda>(v, _, st). st\<lparr>p_minute := v\<rparr>) (read_num delimited 2 2 st)
      else if e = ''SS'' then map_option (\<lambda>(v, _, st). st\<lparr>p_sec := v\<rparr>) (read_num delimited 2 2 st)
      else if e = ''SSSSS'' then
        Option.bind (read_num delimited 5 5 st) (\<lambda>(v, _, st).
          if v \<ge> 86400 then None
          else Some (st\<lparr>p_hour := v sdiv 3600, p_minute := v smod 3600 sdiv 60, p_sec := v smod 60\<rparr>))
      else if e = ''A.M.'' \<or> e = ''P.M.'' then
        (if length (p_in st) < 4 then None
         else let m = map upper_char (take 4 (p_in st))
              in if m = ''A.M.'' \<or> m = ''P.M.''
                 then Some (st\<lparr>p_pm := (m = ''P.M.''), p_hasMeridian := True, p_in := drop 4 (p_in st)\<rparr>) else None)
      else if e = ''TZH'' then
        (if p_in st = [] then None
         else let c = hd (p_in st)
              in if c \<noteq> CHR ''+'' \<and> c \<noteq> CHR '' '' \<and> c \<noteq> CHR ''-'' then None
                 else map_option (\<lambda>(v, _, st). st\<lparr>p_tzH := v, p_hasTZ := True\<rparr>)
                   (read_num delimited 2 2 (st\<lparr>p_tzSign := (if c = CHR ''-'' then - 1 else 1), p_in := tl (p_in st)\<rparr>)))
      else if e = ''TZM'' then
        Option.bind (read_num delimited 2 2 st) (\<lambda>(v, _, st). if v > 59 then None else Some (st\<lparr>p_tzM := v\<rparr>))
      else
        (let n = digit_val (e ! 2)
         in map_option (\<lambda>(v, got, st). st\<lparr>p_nsec := v * 10 ^ (9 - got) sdiv 1000 * 1000\<rparr>) (read_num delimited n n st)))"

fun read_tokens :: "int \<Rightarrow> castParseToken list \<Rightarrow> cast_state \<Rightarrow> cast_state option" where
  "read_tokens nowYear [] st = Some st"
| "read_tokens nowYear (tokSpace # toks) st =
     (let r = trim_left utf8_space_seqs (p_in st)
      in if r = p_in st then None else read_tokens nowYear toks (st\<lparr>p_in := r\<rparr>))"
| "read_tokens nowYear (tokLiteral l # toks) st =
     (if \<not> prefix l (p_in st) then None else read_tokens nowYear toks (st\<lparr>p_in := drop (length l) (p_in st)\<rparr>))"
| "read_tokens nowYear (tokElement e # toks) st =
     (let delimited = (toks = [] \<or> \<not> isNumericElement (hd toks))
      in Option.bind (read_element nowYear delimited e st) (read_tokens nowYear toks))"

definition start_state :: "string \<Rightarrow> gotime \<Rightarrow> cast_state" where
  "start_state s now =
     \<lparr>p_in = TrimSpace s, p_year = Year now, p_month = Month now, p_day = 1, p_hour = 0, p_minute = 0, p_sec = 0,
      p_nsec = 0, p_pm = False, p_hasMeridian = False, p_tzSign = 1, p_tzH = 0, p_tzM = 0, p_hasTZ = False\<rparr>"

text \<open>The checks after the loop and the time that is built. \<open>Local\<close> stands for a named zone, whose
  wall clock is the argument \<open>z\<close>.\<close>

definition finish_cast :: "local_zone \<Rightarrow> castParseTarget \<Rightarrow> location \<Rightarrow> cast_state \<Rightarrow> gtime option" where
  "finish_cast z target loc st =
     (let hour = (if p_hasMeridian st \<and> p_pm st then p_hour st + 12 else p_hour st)
      in if p_in st \<noteq> [] then None
         else if p_year st < 1 \<or> p_year st > 9999 \<or> p_month st < 1 \<or> p_month st > 12 \<or> p_day st < 1
           \<or> hour > 23 \<or> p_minute st > 59 \<or> p_sec st > 59 \<or> p_tzH st > 14 then None
         else if target = castParseTime then Some (utc (Date 1970 1 1 hour (p_minute st) (p_sec st) (p_nsec st)))
         else let loc = (if p_hasTZ st then FixedZone (p_tzSign st * (p_tzH st * 3600 + p_tzM st * 60)) else loc);
                  loc = (if target \<noteq> castParseTimestamp then UTC else loc);
                  t = at_wall z loc (Date (p_year st) (p_month st) (p_day st) hour (p_minute st) (p_sec st) (p_nsec st))
              in if Day (wall z t) \<noteq> p_day st \<or> Month (wall z t) \<noteq> p_month st then None else Some t)"

definition parseStringWithFormat ::
    "local_zone \<Rightarrow> string \<Rightarrow> string \<Rightarrow> castParseTarget \<Rightarrow> location \<Rightarrow> gotime \<Rightarrow> cast_time_error + gtime" where
  "parseStringWithFormat z s format target loc now =
     bind_res (tokenizeCastParseFormat format) (\<lambda>toks.
     bind_res (validateCastParseModel toks target) (\<lambda>_.
       case Option.bind (read_tokens (Year now) toks (start_state s now)) (finish_cast z target loc) of
         None \<Rightarrow> Inl NoMatch | Some t \<Rightarrow> Inr t))"

end
