(* ===== verification/Cast_Time_Props.thy ===== *)
theory Cast_Time_Props
  imports Cast_Time
begin

text \<open>
  A time printed with year, month, day, hour, minute and second in any order, with any of the
  literals of the format language between them, is parsed back by the same format. The fields are
  collected first and put together once, so here the order of the elements does not matter.
\<close>

section \<open>Formats of separated elements\<close>

definition six_elements :: "string list" where
  "six_elements = [''YYYY'', ''MM'', ''DD'', ''HH24'', ''MI'', ''SS'']"

definition literals :: "char list" where "literals = '' -/,.;:''"

definition sep_token :: "char \<Rightarrow> castParseToken" where
  "sep_token c = (if c = CHR '' '' then tokSpace else tokLiteral [c])"

definition joined_format :: "(string \<times> char) list \<Rightarrow> string \<Rightarrow> string" where
  "joined_format items e = concat (map (\<lambda>(e, c). e @ [c]) items) @ e"

lemma six_cases:
  "e \<in> set six_elements \<Longrightarrow> e = ''YYYY'' \<or> e = ''MM'' \<or> e = ''DD'' \<or> e = ''HH24'' \<or> e = ''MI'' \<or> e = ''SS''"
  by (simp add: six_elements_def)

lemma literal_cases:
  "c \<in> set literals \<Longrightarrow> c = CHR '' '' \<or> c = CHR ''-'' \<or> c = CHR ''/'' \<or> c = CHR '','' \<or> c = CHR ''.'' \<or> c = CHR '';'' \<or> c = CHR '':''"
  by (simp add: literals_def)

lemma lower_chars:
  "lower_char CHR ''Y'' = CHR ''y''" "lower_char CHR ''M'' = CHR ''m''" "lower_char CHR ''D'' = CHR ''d''"
  "lower_char CHR ''H'' = CHR ''h''" "lower_char CHR ''2'' = CHR ''2''" "lower_char CHR ''4'' = CHR ''4''"
  "lower_char CHR ''I'' = CHR ''i''" "lower_char CHR ''S'' = CHR ''s''" "lower_char CHR ''A'' = CHR ''a''"
  "lower_char CHR ''P'' = CHR ''p''" "lower_char CHR ''R'' = CHR ''r''" "lower_char CHR ''F'' = CHR ''f''"
  "lower_char CHR ''T'' = CHR ''t''" "lower_char CHR ''Z'' = CHR ''z''" "lower_char CHR ''O'' = CHR ''o''"
  "lower_char CHR ''N'' = CHR ''n''" "lower_char CHR ''Q'' = CHR ''q''" "lower_char CHR ''.'' = CHR ''.''"
  "lower_char CHR '','' = CHR '',''" "lower_char CHR ''1'' = CHR ''1''"
  by code_simp+

lemma literal_lower: "c \<in> set literals \<Longrightarrow> lower_char c = c \<and> c \<noteq> CHR ''d'' \<and> c \<noteq> CHR ''s'' \<and> c \<noteq> CHR ''y''"
  by (drule literal_cases, elim disjE) (simp_all add: lower_char_def)

lemma find_elem_six:
  assumes "e \<in> set six_elements" "r = [] \<or> hd r \<in> set literals"
  shows "find_elem castParseElements (e @ r) = Some e" "find_elem castFormatElements (e @ r) = Some e"
proof -
  have r: "r = [] \<or> (\<exists>c s. r = c # s \<and> lower_char c = c \<and> c \<noteq> CHR ''d'' \<and> c \<noteq> CHR ''s'' \<and> c \<noteq> CHR ''y'')"
    using assms(2) literal_lower by (cases r) auto
  show "find_elem castParseElements (e @ r) = Some e"
    using six_cases [OF assms(1)] r unfolding castParseElements_def
    by (elim disjE exE conjE; simp add: lower_chars)
  show "find_elem castFormatElements (e @ r) = Some e"
    using six_cases [OF assms(1)] r unfolding castFormatElements_def
    by (elim disjE exE conjE; simp add: lower_chars)
qed

lemma six_shape:
  assumes "e \<in> set six_elements"
  shows "e \<noteq> []" "hd e \<noteq> CHR 0x22" "hd e \<noteq> CHR '' ''" "hd e \<notin> set literals"
    "hd e \<notin> set [CHR ''-'', CHR ''/'', CHR '','', CHR ''.'', CHR '';'', CHR '':'', CHR 0x27]"
    "e \<notin> set castParseUnsupported" "checkCastFormatElement ''DATETIME'' e = Inr ()"
  using six_cases [OF assms]
  by (elim disjE; simp add: literals_def castParseUnsupported_def checkCastFormatElement_def upper_char_def byte_in_def)+

lemma tokenize_elem:
  assumes "e \<in> set six_elements" "r = [] \<or> hd r \<in> set literals"
  shows "tokenizeCastParseFormat (e @ r) = bind_res (tokenizeCastParseFormat r) (\<lambda>toks. Inr (tokElement e # toks))"
proof -
  note shape = six_shape [OF assms(1)]
  obtain c e' where e: "e = c # e'" using shape(1) by (cases e) auto
  show ?thesis
    using find_elem_six(1) [OF assms] shape(2,3,5,6) unfolding e
    by (subst tokenizeCastParseFormat.simps) simp
qed

lemma tokenize_sep:
  assumes "c \<in> set literals" "r = [] \<or> hd r \<noteq> CHR '' ''"
  shows "tokenizeCastParseFormat (c # r) = bind_res (tokenizeCastParseFormat r) (\<lambda>toks. Inr (sep_token c # toks))"
proof -
  have "dropWhile (\<lambda>c. c = CHR '' '') r = r" using assms(2) by (cases r) auto
  then show ?thesis
    using literal_cases [OF assms(1)]
    by (elim disjE; subst tokenizeCastParseFormat.simps; simp add: sep_token_def)
qed

lemma hd_joined: "e \<in> set six_elements \<Longrightarrow> list_all (\<lambda>(e, c). e \<in> set six_elements) items \<Longrightarrow>
    joined_format items e \<noteq> [] \<and> hd (joined_format items e) \<noteq> CHR '' ''"
  using six_shape by (cases items) (auto simp: joined_format_def)

lemma tokenize_joined:
  assumes "e \<in> set six_elements" "list_all (\<lambda>(e, c). e \<in> set six_elements \<and> c \<in> set literals) items"
  shows "tokenizeCastParseFormat (joined_format items e)
    = Inr (concat (map (\<lambda>(e, c). [tokElement e, sep_token c]) items) @ [tokElement e])"
  using assms(2)
proof (induction items)
  case Nil
  then show ?case using tokenize_elem [OF assms(1), of "[]"] by (simp add: joined_format_def tokenizeCastParseFormat.simps)
next
  case (Cons i items)
  obtain f c where i: "i = (f, c)" by (cases i)
  have "list_all (\<lambda>(e, c). e \<in> set six_elements) items" using Cons.prems by (auto simp: list_all_iff)
  then have "joined_format items e = [] \<or> hd (joined_format items e) \<noteq> CHR '' ''" using hd_joined [OF assms(1)] by blast
  then have "tokenizeCastParseFormat (c # joined_format items e)
      = Inr (sep_token c # concat (map (\<lambda>(e, c). [tokElement e, sep_token c]) items) @ [tokElement e])"
    using Cons i by (simp add: tokenize_sep)
  then show ?case
    using tokenize_elem [of f "c # joined_format items e"] Cons.prems i by (simp add: joined_format_def)
qed

section \<open>Printing\<close>

definition elem_value :: "gotime \<Rightarrow> string \<Rightarrow> string" where
  "elem_value w e = cast_elem_text w 0 e"

definition joined_text :: "gotime \<Rightarrow> (string \<times> char) list \<Rightarrow> string \<Rightarrow> string" where
  "joined_text w items e = concat (map (\<lambda>(e, c). elem_value w e @ [c]) items) @ elem_value w e"

lemma format_elem_six:
  assumes "e \<in> set six_elements" "r = [] \<or> hd r \<in> set literals"
  shows "formatDateTimeElements w 0 (e @ r) ''DATETIME''
    = bind_res (formatDateTimeElements w 0 r ''DATETIME'') (\<lambda>out. Inr (elem_value w e @ out))"
proof -
  note shape = six_shape [OF assms(1)]
  obtain c e' where e: "e = c # e'" using shape(1) by (cases e) auto
  show ?thesis
    using find_elem_six(2) [OF assms] shape(2,4,7) unfolding e literals_def elem_value_def
    by (subst formatDateTimeElements.simps) simp
qed

lemma format_sep:
  "c \<in> set literals \<Longrightarrow> formatDateTimeElements w off (c # r) ty = bind_res (formatDateTimeElements w off r ty) (\<lambda>out. Inr (c # out))"
  by (drule literal_cases) (elim disjE; subst formatDateTimeElements.simps; simp)

lemma format_joined:
  assumes "e \<in> set six_elements" "list_all (\<lambda>(e, c). e \<in> set six_elements \<and> c \<in> set literals) items"
  shows "formatDateTimeElements w 0 (joined_format items e) ''DATETIME'' = Inr (joined_text w items e)"
  using assms(2)
proof (induction items)
  case Nil
  then show ?case
    using format_elem_six [OF assms(1), of "[]"] by (simp add: joined_format_def joined_text_def formatDateTimeElements.simps)
next
  case (Cons i items)
  obtain f c where i: "i = (f, c)" by (cases i)
  have "formatDateTimeElements w 0 (c # joined_format items e) ''DATETIME'' = Inr (c # joined_text w items e)"
    using Cons i by (simp add: format_sep)
  then show ?case
    using format_elem_six [of f "c # joined_format items e" w] Cons.prems i by (simp add: joined_format_def joined_text_def)
qed

section \<open>The format model\<close>

lemma six_parts:
  "elementPart ''YYYY'' = ''year''" "elementPart ''MM'' = ''month''" "elementPart ''DD'' = ''day''"
  "elementPart ''HH24'' = ''hour''" "elementPart ''MI'' = ''minute''" "elementPart ''SS'' = ''second''"
  by code_simp+

lemma elementPart_inj: "inj_on elementPart (set six_elements)"
proof -
  have "distinct (map elementPart six_elements)" by code_simp
  then show ?thesis by (simp add: distinct_map)
qed

definition parts_of :: "string list \<Rightarrow> parts" where "parts_of es = map (\<lambda>e. (elementPart e, e)) es"

lemma parts_of_Some: "map_of (parts_of es) p = Some e \<Longrightarrow> e \<in> set es \<and> elementPart e = p"
  by (drule map_of_SomeD) (auto simp: parts_of_def)

lemma model_parts_joined:
  assumes "distinct (es @ map fst items @ [e])" "set es \<subseteq> set six_elements" "e \<in> set six_elements"
    "list_all (\<lambda>(e, c). e \<in> set six_elements \<and> c \<in> set literals) items"
  shows "model_parts castParseDatetime (concat (map (\<lambda>(e, c). [tokElement e, sep_token c]) items) @ [tokElement e]) (parts_of es)
    = Inr (parts_of (e # rev (map fst items) @ es))"
  using assms
proof (induction items arbitrary: es)
  have step: "model_parts castParseDatetime (tokElement f # toks) (parts_of es) = model_parts castParseDatetime toks (parts_of (f # es))"
    if "f \<in> set six_elements" "f \<notin> set es" "set es \<subseteq> set six_elements" for f toks es
  proof -
    have "map_of (parts_of es) (elementPart f) = None"
      using that elementPart_inj parts_of_Some [of es "elementPart f"] by (cases "map_of (parts_of es) (elementPart f)") (auto dest: inj_onD)
    moreover have "f \<notin> set (map snd (parts_of es))" using that(2) by (auto simp: parts_of_def)
    moreover have "part_allowed castParseDatetime (elementPart f)"
      using six_cases [OF that(1)] by (elim disjE; simp add: six_parts part_allowed_def)
    ultimately show ?thesis by (simp add: parts_of_def)
  qed
  {
    case Nil
    then show ?case using step [of e es "[]"] by simp
  next
    case (Cons i items)
    obtain f c where i: "i = (f, c)" by (cases i)
    have "model_parts castParseDatetime (sep_token c # toks) ps = model_parts castParseDatetime toks ps" for toks ps
      by (simp add: sep_token_def)
    then show ?case using Cons.IH [of "f # es"] Cons.prems step [of f es] i by simp
  }
qed

lemma validate_joined:
  assumes "distinct (map fst items @ [e])" "e \<in> set six_elements"
    "list_all (\<lambda>(e, c). e \<in> set six_elements \<and> c \<in> set literals) items"
  shows "validateCastParseModel (concat (map (\<lambda>(e, c). [tokElement e, sep_token c]) items) @ [tokElement e]) castParseDatetime = Inr ()"
proof -
  let ?ps = "parts_of (e # rev (map fst items))"
  have m: "model_parts castParseDatetime (concat (map (\<lambda>(e, c). [tokElement e, sep_token c]) items) @ [tokElement e]) [] = Inr ?ps"
    using model_parts_joined [of "[]" items e] assms by (simp add: parts_of_def)
  have "set (e # rev (map fst items)) \<subseteq> set six_elements" using assms(2,3) by (auto simp: list_all_iff)
  then have six: "(p, f) \<in> set (parts_of six_elements)" if "map_of ?ps p = Some f" for f p
    using parts_of_Some [OF that] by (auto simp: parts_of_def)
  have keys: "map fst (parts_of six_elements) = [''year'', ''month'', ''day'', ''hour'', ''minute'', ''second'']" by code_simp
  have none: "map_of ?ps p = None" if "p \<notin> set (map fst (parts_of six_elements))" for p
    using that six by (cases "map_of ?ps p") force+
  have "map_of ?ps ''meridian'' = None" "map_of ?ps ''secondofday'' = None" "map_of ?ps ''tzm'' = None"
    by (rule none, unfold keys, simp)+
  moreover have "map_of ?ps ''hour'' = None \<or> map_of ?ps ''hour'' = Some ''HH24''"
  proof (cases "map_of ?ps ''hour''")
    case (Some f)
    moreover have "distinct (map fst (parts_of six_elements))" unfolding keys by simp
    moreover have "map_of (parts_of six_elements) ''hour'' = Some ''HH24''" by code_simp
    ultimately show ?thesis using six [OF Some] by (metis map_of_eq_Some_iff option.inject)
  qed simp
  ultimately show ?thesis unfolding validateCastParseModel_def m by (elim disjE; simp add: Let_def)
qed

section \<open>Reading\<close>

definition set_field :: "gotime \<Rightarrow> string \<Rightarrow> cast_state \<Rightarrow> cast_state" where
  "set_field w e st =
     (if e = ''YYYY'' then st\<lparr>p_year := Year w\<rparr>
      else if e = ''MM'' then st\<lparr>p_month := Month w\<rparr>
      else if e = ''DD'' then st\<lparr>p_day := Day w\<rparr>
      else if e = ''HH24'' then st\<lparr>p_hour := Hour w\<rparr>
      else if e = ''MI'' then st\<lparr>p_minute := Minute w\<rparr>
      else st\<lparr>p_sec := Second w\<rparr>)"

lemma pad4:
  assumes "0 \<le> x" "x < 10000"
  shows "list_all is_digit (pad_dec 4 x)" "pad_dec 4 x \<noteq> []" "length (pad_dec 4 x) = 4" "int (digits_val (pad_dec 4 x)) = x"
  using pad_dec_digits [of x 3] assms by (auto simp: eval_nat_numeral)

lemma readDigits_text:
  assumes "list_all is_digit ds" "ds \<noteq> []" "length ds \<le> n" "r = [] \<or> \<not> is_digit (hd r)"
  shows "readDigits 1 n (st\<lparr>p_in := ds @ r\<rparr>) = Some (int (digits_val ds), length ds, st\<lparr>p_in := r\<rparr>)"
proof -
  have "takeWhile is_digit (take (n - length ds) r) = []" using assms(4) by (cases r; cases "n - length ds") auto
  then have "takeWhile is_digit (take n (ds @ r)) = ds" using assms(1,3) by (simp add: list_all_iff takeWhile_append)
  moreover have "0 < length ds" using assms(2) by simp
  ultimately show ?thesis by (simp add: readDigits_def Let_def Suc_le_eq)
qed

lemma elem_values:
  "elem_value w ''YYYY'' = pad_dec 4 (Year w)" "elem_value w ''MM'' = pad_dec 2 (Month w)" "elem_value w ''DD'' = pad_dec 2 (Day w)"
  "elem_value w ''HH24'' = pad_dec 2 (Hour w)" "elem_value w ''MI'' = pad_dec 2 (Minute w)" "elem_value w ''SS'' = pad_dec 2 (Second w)"
  by (simp_all add: elem_value_def cast_elem_text_def Let_def upper_char_def byte_in_def)

lemma elem_value_digits:
  assumes "e \<in> set six_elements" "1 \<le> Year w" "Year w \<le> 9999"
  shows "list_all is_digit (elem_value w e) \<and> elem_value w e \<noteq> []"
  using six_cases [OF assms(1)] assms(2,3) clock_bounds [of w] Month_bounds [of w] Day_bounds [of w]
    month_len_bounds(2) [of "Year w" "Month w"]
  by (elim disjE; simp add: elem_values pad2 pad4)

lemma read_element_six:
  assumes "e \<in> set six_elements" "1 \<le> Year w" "Year w \<le> 9999" "r = [] \<or> \<not> is_digit (hd r)"
  shows "read_element ny True e (st\<lparr>p_in := elem_value w e @ r\<rparr>) = Some ((set_field w e st)\<lparr>p_in := r\<rparr>)"
proof -
  have b: "Month w \<le> 12" "1 \<le> Month w" "1 \<le> Day w" "Day w \<le> 31"
    using Month_bounds [of w] Day_bounds [of w] month_len_bounds(2) [of "Year w" "Month w"] by linarith+
  have two: "readDigits 1 2 (st\<lparr>p_in := pad_dec 2 v @ r\<rparr>) = Some (v, 2, st\<lparr>p_in := r\<rparr>)" if "0 \<le> v" "v < 100" for v
    using readDigits_text [OF pad2(1,2) [OF that], of 2 r st] pad2(3,4) [OF that] assms(4) by simp
  have four: "readDigits 1 5 (st\<lparr>p_in := pad_dec 4 (Year w) @ r\<rparr>) = Some (Year w, 4, st\<lparr>p_in := r\<rparr>)"
    using readDigits_text [OF pad4(1,2), of "Year w" 5 r st] pad4(3,4) [of "Year w"] assms(2-4) by simp
  show ?thesis
    using six_cases [OF assms(1)] b clock_bounds [of w]
    by (elim disjE; simp only: elem_values; simp add: read_element_def read_num_def two four set_field_def del: One_nat_def)
qed

lemma trim_left_space: "s \<noteq> [] \<Longrightarrow> graphic (hd s) \<Longrightarrow> trim_left utf8_space_seqs (CHR '' '' # s) = s"
  by (subst trim_left.simps) (simp add: space_len_def ascii_space_def trim_left_graphic)

lemma read_joined:
  assumes "e \<in> set six_elements" "list_all (\<lambda>(e, c). e \<in> set six_elements \<and> c \<in> set literals) items"
    "1 \<le> Year w" "Year w \<le> 9999"
  shows "read_tokens ny (concat (map (\<lambda>(e, c). [tokElement e, sep_token c]) items) @ [tokElement e]) (st\<lparr>p_in := joined_text w items e\<rparr>)
    = Some ((fold (set_field w) (map fst items @ [e]) st)\<lparr>p_in := []\<rparr>)"
  using assms(2)
proof (induction items arbitrary: st)
  case Nil
  then show ?case using read_element_six [OF assms(1,3,4), of "[]" ny st] by (simp add: joined_text_def)
next
  case (Cons i items)
  obtain f c where i: "i = (f, c)" by (cases i)
  then have f: "f \<in> set six_elements" and c: "c \<in> set literals" using Cons.prems by simp_all
  let ?r = "joined_text w items e"
  have r: "?r \<noteq> []" "graphic (hd ?r)"
  proof -
    have "list_all is_digit (elem_value w g) \<and> elem_value w g \<noteq> []" if "g \<in> set six_elements" for g
      using elem_value_digits that assms(3,4) by blast
    then show "?r \<noteq> []" "graphic (hd ?r)"
      using Cons.prems assms(1) by (cases items; force simp: joined_text_def list_all_iff i)+
  qed
  have "\<not> is_digit c" using literal_cases [OF c] by (elim disjE; simp add: is_digit_def)
  then have el: "read_element ny True f (st\<lparr>p_in := elem_value w f @ c # ?r\<rparr>) = Some ((set_field w f st)\<lparr>p_in := c # ?r\<rparr>)"
    using read_element_six [OF f assms(3,4), of "c # ?r"] by simp
  have "read_tokens ny (sep_token c # toks) (s\<lparr>p_in := c # ?r\<rparr>) = read_tokens ny toks (s\<lparr>p_in := ?r\<rparr>)" for toks s
    using r by (simp add: sep_token_def trim_left_space)
  moreover have "\<not> isNumericElement (sep_token c)" by (simp add: sep_token_def isNumericElement_def)
  ultimately show ?case
    using el Cons.IH [of "set_field w f st"] Cons.prems i by (simp add: joined_text_def)
qed

section \<open>The round trip\<close>

lemma fold_fields:
  "p_year (fold (set_field w) es st) = (if ''YYYY'' \<in> set es then Year w else p_year st)"
  "p_month (fold (set_field w) es st) = (if ''MM'' \<in> set es then Month w else p_month st)"
  "p_day (fold (set_field w) es st) = (if ''DD'' \<in> set es then Day w else p_day st)"
  "p_hour (fold (set_field w) es st) = (if ''HH24'' \<in> set es then Hour w else p_hour st)"
  "p_minute (fold (set_field w) es st) = (if ''MI'' \<in> set es then Minute w else p_minute st)"
  "''SS'' \<in> set es \<Longrightarrow> p_sec (fold (set_field w) es st) = Second w"
  "p_nsec (fold (set_field w) es st) = p_nsec st" "p_hasMeridian (fold (set_field w) es st) = p_hasMeridian st"
  "p_tzH (fold (set_field w) es st) = p_tzH st" "p_hasTZ (fold (set_field w) es st) = p_hasTZ st"
proof -
  show "''SS'' \<in> set es \<Longrightarrow> p_sec (fold (set_field w) es st) = Second w"
  proof (induction es arbitrary: st)
    case (Cons e es)
    have "p_sec (fold (set_field w) es st) = Second w" if "p_sec st = Second w" for st
      using that by (induction es arbitrary: st) (simp_all add: set_field_def)
    moreover have "p_sec (set_field w ''SS'' st) = Second w" by (simp add: set_field_def)
    ultimately show ?case using Cons by (cases "e = ''SS''") simp_all
  qed simp
qed (induction es arbitrary: st; simp add: set_field_def)+

lemma joined_text_trim:
  assumes "e \<in> set six_elements" "list_all (\<lambda>(e, c). e \<in> set six_elements \<and> c \<in> set literals) items"
    "1 \<le> Year w" "Year w \<le> 9999"
  shows "TrimSpace (joined_text w items e) = joined_text w items e"
proof -
  have v: "list_all is_digit (elem_value w g) \<and> elem_value w g \<noteq> []" if "g \<in> set six_elements" for g
    using elem_value_digits that assms(3,4) by blast
  have "is_digit (last (elem_value w e))" using v [OF assms(1)] by (simp add: list_all_iff)
  then have "graphic (last (joined_text w items e))" using v [OF assms(1)] by (simp add: joined_text_def)
  moreover have "joined_text w items e \<noteq> [] \<and> graphic (hd (joined_text w items e))"
    using v assms(1,2) by (cases items; force simp: joined_text_def list_all_iff)
  ultimately show ?thesis by (intro TrimSpace_graphic) blast
qed

text \<open>C11. Take year, month, day, hour, minute and second in any order and any literals of the format
  language between them. A DATETIME of the years 1 to 9999 without fraction of a second that is cast to
  STRING with this format is recovered by the cast of the text to DATETIME with the same format, whatever
  the current time and the time zone of the cast.\<close>

theorem cast_time_roundtrip:
  assumes "distinct (map fst items @ [e])" "set (map fst items @ [e]) = set six_elements"
    "list_all (\<lambda>(_, c). c \<in> set literals) items" "1 \<le> Year t" "Year t \<le> 9999" "Nanosecond t = 0"
  shows "\<exists>s. formatDateTimeElements t 0 (joined_format items e) ''DATETIME'' = Inr s
    \<and> parseStringWithFormat z s (joined_format items e) castParseDatetime loc now = Inr (utc t)"
proof -
  have e: "e \<in> set six_elements" and it: "list_all (\<lambda>(e, c). e \<in> set six_elements \<and> c \<in> set literals) items"
    using assms(2,3) by (auto simp: list_all_iff) force
  let ?s = "joined_text t items e" and ?st = "start_state (joined_text t items e) now"
  let ?fin = "(fold (set_field t) (map fst items @ [e]) ?st)\<lparr>p_in := []\<rparr>"
  have "?st = ?st\<lparr>p_in := ?s\<rparr>" using joined_text_trim [OF e it assms(4,5)] by (simp add: start_state_def)
  then have r: "read_tokens (Year now) (concat (map (\<lambda>(e, c). [tokElement e, sep_token c]) items) @ [tokElement e]) ?st = Some ?fin"
    using read_joined [OF e it assms(4,5)] by metis
  have mem: "''YYYY'' \<in> set (map fst items @ [e])" "''MM'' \<in> set (map fst items @ [e])" "''DD'' \<in> set (map fst items @ [e])"
    "''HH24'' \<in> set (map fst items @ [e])" "''MI'' \<in> set (map fst items @ [e])" "''SS'' \<in> set (map fst items @ [e])"
    unfolding assms(2) by code_simp+
  have st: "p_nsec ?st = 0" "\<not> p_hasMeridian ?st" "p_tzH ?st = 0" by (simp_all add: start_state_def)
  have f: "p_year ?fin = Year t" "p_month ?fin = Month t" "p_day ?fin = Day t" "p_hour ?fin = Hour t"
    "p_minute ?fin = Minute t" "p_sec ?fin = Second t" "p_nsec ?fin = 0" "\<not> p_hasMeridian ?fin" "p_tzH ?fin = 0" "p_in ?fin = []"
    using fold_fields(1-5) [of t "map fst items @ [e]" ?st] fold_fields(6) [OF mem(6), of t ?st]
      fold_fields(7-9) [of t "map fst items @ [e]" ?st] mem st
    by (simp_all del: fold_append)
  have "finish_cast z castParseDatetime loc ?fin = Some (utc t)"
    unfolding finish_cast_def f using f(8) assms(4-6) Month_bounds [of t] Day_bounds [of t] clock_bounds [of t] Date_self [of t]
    by simp
  then have "parseStringWithFormat z ?s (joined_format items e) castParseDatetime loc now = Inr (utc t)"
    unfolding parseStringWithFormat_def tokenize_joined [OF e it]
    using validate_joined [OF assms(1) e it] r by simp
  then show ?thesis using format_joined [OF e it] by blast
qed

theorem cast_time_roundtrip_witness:
  "\<exists>s. formatDateTimeElements 951782400000000000 0 ''DD/MM/YYYY HH24:MI:SS'' ''DATETIME'' = Inr s
    \<and> parseStringWithFormat utc_zone s ''DD/MM/YYYY HH24:MI:SS'' castParseDatetime UTC 0 = Inr (utc 951782400000000000)"
proof -
  let ?items = "[(''DD'', CHR ''/''), (''MM'', CHR ''/''), (''YYYY'', CHR '' ''), (''HH24'', CHR '':''), (''MI'', CHR '':'')]"
  have "distinct (map fst ?items @ [''SS''])" "set (map fst ?items @ [''SS'']) = set six_elements"
    "list_all (\<lambda>(_, c). c \<in> set literals) ?items" "Year 951782400000000000 = 2000" "Nanosecond 951782400000000000 = 0"
    "joined_format ?items ''SS'' = ''DD/MM/YYYY HH24:MI:SS''" by code_simp+
  then show ?thesis using cast_time_roundtrip [of ?items "''SS''" 951782400000000000 utc_zone UTC 0] by simp
qed

end
