(* ===== verification/Zeta_Sketch.thy ===== *)
theory Zeta_Sketch
  imports Go_Base "HOL-Library.Word"
begin

text \<open>
  The HyperLogLog++ sketches of GoogleSQL and their merging (\<open>functions/hll/zetasketch.go\<close>): the
  base 128 numbers and fields of the wire format, the parser and the printer of a sketch, \<open>merge\<close>, and
  the accumulator behind HLL_COUNT.MERGE, MERGE_PARTIAL and EXTRACT. The estimate of the cardinality
  (floating point) is left out. The second sketch format comes from a third-party package
  (DataDog/go-hll); its operations are the argument \<open>dd_ops\<close>.
\<close>

unbundle bit_operations_syntax

section \<open>The wire format\<close>

type_synonym bytes = "8 word list"

datatype sketch_error = IncompatibleSketch | UnsupportedMerge | InvalidSketch

fun read_varint_from :: "nat \<Rightarrow> 64 word \<Rightarrow> bytes \<Rightarrow> (64 word \<times> nat) option" where
  "read_varint_from i x [] = None"
| "read_varint_from i x (c # b) =
     (if i < 10 then
        let x = x OR push_bit (7 * i) (ucast (c AND 0x7F))
        in if c < 0x80 then Some (x, i + 1) else read_varint_from (i + 1) x b
      else None)"

definition readVarint :: "bytes \<Rightarrow> sketch_error + 64 word \<times> nat" where
  "readVarint b = (case read_varint_from 0 0 b of Some r \<Rightarrow> Inr r | None \<Rightarrow> Inl IncompatibleSketch)"

function varint :: "64 word \<Rightarrow> bytes" where
  "varint x = (if 0x80 \<le> x then (ucast x OR 0x80) # varint (drop_bit 7 x) else [ucast x])"
  by pat_completeness auto
termination
proof (relation "measure unat")
  fix x :: "64 word"
  assume "0x80 \<le> x"
  then have "0 < unat x" by (simp add: word_le_nat_alt)
  moreover have "unat (drop_bit 7 x) = unat x div 128" by (simp only: unat_drop_bit_eq) (simp add: drop_bit_eq_div)
  ultimately show "(drop_bit 7 x, x) \<in> measure unat" by (simp del: drop_bit_eq_div)
qed simp

declare varint.simps [simp del]

definition appendVarint :: "bytes \<Rightarrow> 64 word \<Rightarrow> bytes" where
  "appendVarint b x = b @ varint x"

record protoField =
  f_num :: "64 word"
  f_varint :: "64 word"
  f_bytes :: bytes
  f_isLen :: bool

lemma read_varint_pos: "read_varint_from i x b = Some (v, n) \<Longrightarrow> i < n \<and> n \<le> i + length b"
  by (induction i x b rule: read_varint_from.induct) (fastforce simp: Let_def split: if_splits)+

function parseProto :: "bytes \<Rightarrow> sketch_error + protoField list" where
  "parseProto b =
     (if b = [] then Inr []
      else case readVarint b of
        Inl e \<Rightarrow> Inl e
      | Inr (key, n) \<Rightarrow>
          let b1 = drop n b; f = \<lparr>f_num = drop_bit 3 key, f_varint = 0, f_bytes = [], f_isLen = False\<rparr>
          in if key AND 7 = 0 then
               (case readVarint b1 of
                  Inl e \<Rightarrow> Inl e
                | Inr (v, m) \<Rightarrow> bind_res (parseProto (drop m b1)) (\<lambda>fs. Inr (f\<lparr>f_varint := v\<rparr> # fs)))
             else if key AND 7 = 2 then
               (case readVarint b1 of
                  Inl e \<Rightarrow> Inl e
                | Inr (l, m) \<Rightarrow>
                    let b2 = drop m b1
                    in if length b2 < unat l then Inl IncompatibleSketch
                       else bind_res (parseProto (drop (unat l) b2))
                              (\<lambda>fs. Inr (f\<lparr>f_bytes := take (unat l) b2, f_isLen := True\<rparr> # fs)))
             else Inl IncompatibleSketch)"
  by pat_completeness auto
termination
  by (relation "measure length")
    (auto simp: readVarint_def dest!: read_varint_pos split: option.splits)

declare parseProto.simps [simp del]

section \<open>Sketches\<close>

text \<open>A register array of no bytes is the code's nil; \<open>int64\<close> fields are words, compared signed.\<close>

record zetaSketch =
  numValues :: "64 word"
  valueType :: "64 word"
  precision :: "64 word"
  sparsePrecision :: "64 word"
  sparse :: "64 word list"
  dense :: bytes

definition isZetaSketch :: "bytes \<Rightarrow> bool" where
  "isZetaSketch b \<longleftrightarrow> 2 \<le> length b \<and> b ! 0 = 0x08 \<and> b ! 1 = 0x70"

definition legacyValueTypes :: "64 word \<Rightarrow> 64 word" where
  "legacyValueTypes t = (if t = 1 then 11 else if t = 2 then 8 else if t = 3 then 7 else 0)"

text \<open>The outer fields; the second component is the state message.\<close>

definition outer_field :: "zetaSketch \<times> bytes option \<Rightarrow> protoField \<Rightarrow> sketch_error + zetaSketch \<times> bytes option" where
  "outer_field st f =
     (case st of (s, state) \<Rightarrow>
        if f_num f = 1 then (if f_varint f \<noteq> 112 then Inl IncompatibleSketch else Inr (s, state))
        else if f_num f = 2 then Inr (s\<lparr>numValues := f_varint f\<rparr>, state)
        else if f_num f = 3 then (if f_varint f \<noteq> 2 then Inl IncompatibleSketch else Inr (s, state))
        else if f_num f = 4 then Inr (s\<lparr>valueType := f_varint f\<rparr>, state)
        else if f_num f = 112 then (if \<not> f_isLen f then Inl IncompatibleSketch else Inr (s, Some (f_bytes f)))
        else Inr (s, state))"

text \<open>The differences of the sparse values, added up.\<close>

function read_sparse :: "64 word \<Rightarrow> bytes \<Rightarrow> sketch_error + 64 word list" where
  "read_sparse prev data =
     (if data = [] then Inr []
      else case readVarint data of
        Inl e \<Rightarrow> Inl e
      | Inr (d, n) \<Rightarrow> bind_res (read_sparse (prev + d) (drop n data)) (\<lambda>vs. Inr ((prev + d) # vs)))"
  by pat_completeness auto
termination
  by (relation "measure (\<lambda>(_, data). length data)")
    (auto simp: readVarint_def dest!: read_varint_pos split: option.splits)

declare read_sparse.simps [simp del]

definition inner_field :: "zetaSketch \<times> 64 word \<Rightarrow> protoField \<Rightarrow> sketch_error + zetaSketch \<times> 64 word" where
  "inner_field st f =
     (case st of (s, legacyType) \<Rightarrow>
        if f_num f = 3 then Inr (s\<lparr>precision := f_varint f\<rparr>, legacyType)
        else if f_num f = 4 then Inr (s\<lparr>sparsePrecision := f_varint f\<rparr>, legacyType)
        else if f_num f = 5 then Inr (s\<lparr>dense := f_bytes f\<rparr>, legacyType)
        else if f_num f = 6 then bind_res (read_sparse 0 (f_bytes f)) (\<lambda>vs. Inr (s\<lparr>sparse := sparse s @ vs\<rparr>, legacyType))
        else if f_num f = 7 then Inr (s, f_varint f)
        else Inr (s, legacyType))"

definition empty_sketch :: zetaSketch where
  "empty_sketch = \<lparr>numValues = 0, valueType = 0, precision = 0, sparsePrecision = 0, sparse = [], dense = []\<rparr>"

definition check_sketch :: "zetaSketch \<Rightarrow> sketch_error + zetaSketch" where
  "check_sketch s =
     (if sint (precision s) < 10 \<or> sint (precision s) > 24 then Inl IncompatibleSketch
      else if dense s \<noteq> [] \<and> length (dense s) \<noteq> 2 ^ unat (precision s) then Inl IncompatibleSketch
      else Inr s)"

definition parseZetaSketch :: "bytes \<Rightarrow> sketch_error + zetaSketch" where
  "parseZetaSketch b =
     bind_res (parseProto b) (\<lambda>fields.
     bind_res (fold_res outer_field (empty_sketch, None) fields) (\<lambda>(s, state).
       case state of
         None \<Rightarrow> Inl IncompatibleSketch
       | Some state \<Rightarrow>
           bind_res (parseProto state) (\<lambda>inner.
           bind_res (fold_res inner_field (s, 0) inner) (\<lambda>(s, legacyType).
             check_sketch (if valueType s = 0 then s\<lparr>valueType := legacyValueTypes legacyType\<rparr> else s)))))"

text \<open>\<open>slices.Sort\<close> and \<open>slices.Compact\<close>.\<close>

definition merge :: "zetaSketch \<Rightarrow> zetaSketch \<Rightarrow> sketch_error + zetaSketch" where
  "merge s r =
     (if valueType s \<noteq> 0 \<and> valueType r \<noteq> 0 \<and> valueType s \<noteq> valueType r then Inl IncompatibleSketch
      else if precision s \<noteq> precision r \<or> sparsePrecision s \<noteq> sparsePrecision r then Inl IncompatibleSketch
      else if (dense s \<noteq> []) \<noteq> (dense r \<noteq> []) then Inl UnsupportedMerge
      else let s1 = s\<lparr>valueType := (if valueType s = 0 then valueType r else valueType s), numValues := numValues s + numValues r\<rparr>
           in if dense s \<noteq> [] then Inr (s1\<lparr>dense := map (\<lambda>i. if i < length (dense r) then max (dense s ! i) (dense r ! i) else dense s ! i)
                     [0..<length (dense s)]\<rparr>)
              else Inr (s1\<lparr>sparse := remdups_adj (sort (sparse s @ sparse r))\<rparr>))"

fun sparse_data :: "64 word \<Rightarrow> 64 word list \<Rightarrow> bytes" where
  "sparse_data prev [] = []"
| "sparse_data prev (v # vs) = varint (v - prev) @ sparse_data v vs"

definition inner_bytes :: "zetaSketch \<Rightarrow> bytes" where
  "inner_bytes s =
     (if dense s = [] then 0x10 # varint (of_nat (length (sparse s))) else [])
     @ 0x18 # varint (precision s) @ 0x20 # varint (sparsePrecision s)
     @ (if dense s \<noteq> [] then 0x2A # varint (of_nat (length (dense s))) @ dense s
        else let data = sparse_data 0 (sparse s) in 0x32 # varint (of_nat (length data)) @ data)"

definition sketch_bytes :: "zetaSketch \<Rightarrow> bytes" where
  "sketch_bytes s =
     (let inner = inner_bytes s
      in [0x08, 0x70, 0x10] @ varint (numValues s) @ [0x18, 0x02]
         @ (if valueType s \<noteq> 0 then 0x20 # varint (valueType s) else [])
         @ [0x82, 0x07] @ varint (of_nat (length inner)) @ inner)"

section \<open>The accumulator\<close>

record 'h dd_ops =
  dd_FromBytes :: "bytes \<Rightarrow> 'h option"
  dd_Union :: "'h \<Rightarrow> 'h \<Rightarrow> 'h"
  dd_ToBytes :: "'h \<Rightarrow> bytes"

record 'h sketchAccumulator =
  a_dd :: "'h option"
  a_ddType :: "8 word"
  a_zeta :: "zetaSketch option"

definition tagSketch :: "8 word \<Rightarrow> bytes \<Rightarrow> bytes" where
  "tagSketch ty b = (if ty = 0 then b else [0xFF, 0x47, ty] @ b)"

definition untagSketch :: "bytes \<Rightarrow> 8 word \<times> bytes" where
  "untagSketch b = (if 3 \<le> length b \<and> b ! 0 = 0xFF \<and> b ! 1 = 0x47 then (b ! 2, drop 3 b) else (0, b))"

definition empty_accumulator :: "'h sketchAccumulator" where
  "empty_accumulator = \<lparr>a_dd = None, a_ddType = 0, a_zeta = None\<rparr>"

definition add_sketch :: "'h dd_ops \<Rightarrow> 'h sketchAccumulator \<Rightarrow> bytes \<Rightarrow> sketch_error + 'h sketchAccumulator" where
  "add_sketch ops a b =
     (if isZetaSketch b then
        (if a_dd a \<noteq> None then Inl IncompatibleSketch
         else case parseZetaSketch b of
           Inl _ \<Rightarrow> Inl IncompatibleSketch
         | Inr s \<Rightarrow> (case a_zeta a of
             None \<Rightarrow> Inr (a\<lparr>a_zeta := Some s\<rparr>)
           | Some z \<Rightarrow> bind_res (merge z s) (\<lambda>m. Inr (a\<lparr>a_zeta := Some m\<rparr>))))
      else if a_zeta a \<noteq> None then Inl IncompatibleSketch
      else let (ty, c) = untagSketch b
           in case dd_FromBytes ops c of
             None \<Rightarrow> Inl InvalidSketch
           | Some h \<Rightarrow> (case a_dd a of
               None \<Rightarrow> Inr (a\<lparr>a_dd := Some h, a_ddType := ty\<rparr>)
             | Some d \<Rightarrow>
                 if ty \<noteq> 0 \<and> a_ddType a \<noteq> 0 \<and> ty \<noteq> a_ddType a then Inl IncompatibleSketch
                 else Inr (a\<lparr>a_ddType := (if a_ddType a = 0 then ty else a_ddType a), a_dd := Some (dd_Union ops d h)\<rparr>)))"

definition accumulator_empty :: "'h sketchAccumulator \<Rightarrow> bool" where
  "accumulator_empty a \<longleftrightarrow> a_dd a = None \<and> a_zeta a = None"

definition accumulator_bytes :: "'h dd_ops \<Rightarrow> 'h sketchAccumulator \<Rightarrow> bytes option" where
  "accumulator_bytes ops a =
     (case a_zeta a of Some z \<Rightarrow> Some (sketch_bytes z)
      | None \<Rightarrow> map_option (\<lambda>h. tagSketch (a_ddType a) (dd_ToBytes ops h)) (a_dd a))"

text \<open>HLL_COUNT.MERGE_PARTIAL as an aggregate: NULL rows are skipped, and without sketches the result is NULL.\<close>

definition HLL_COUNT_MERGE_PARTIAL_Step :: "'h dd_ops \<Rightarrow> 'h sketchAccumulator \<Rightarrow> bytes option \<Rightarrow> sketch_error + 'h sketchAccumulator" where
  "HLL_COUNT_MERGE_PARTIAL_Step ops acc arg = (case arg of None \<Rightarrow> Inr acc | Some b \<Rightarrow> add_sketch ops acc b)"

definition HLL_COUNT_MERGE_PARTIAL_Done :: "'h dd_ops \<Rightarrow> 'h sketchAccumulator \<Rightarrow> bytes option" where
  "HLL_COUNT_MERGE_PARTIAL_Done ops acc = (if accumulator_empty acc then None else accumulator_bytes ops acc)"

end
