(* ===== verification/Zeta_Props.thy ===== *)
theory Zeta_Props
  imports Zeta_Sketch "HOL-Library.Multiset"
begin

text \<open>
  A sketch survives being written and read back, and the accumulator computes the union of the
  sketches it is given, in any order.
\<close>

section \<open>Base 128 numbers\<close>

lemma byte_consts: "(0x80 :: 8 word) = 2 ^ 7" "(0x7F :: 8 word) = mask 7" "(0x80 :: 64 word) = 2 ^ 7"
  by (simp_all add: mask_eq_exp_minus_1)

lemma more_flag: "\<not> (c OR 0x80 :: 8 word) < 0x80"
proof -
  have "uint (0x80 :: 8 word) \<le> uint (c OR 0x80)"
    unfolding uint_or by (subst or.commute) (rule or_greater_eq, simp)
  then show ?thesis by (simp add: word_less_def)
qed

lemma flag_bit: "bit (0x80 :: 8 word) n \<longleftrightarrow> n = 7"
proof -
  have "bit ((2 :: 8 word) ^ 7) n \<longleftrightarrow> possible_bit TYPE(8 word) n \<and> n = 7" by (simp only: bit_exp_iff)
  moreover have "possible_bit TYPE(8 word) 7" by simp
  ultimately show ?thesis unfolding byte_consts by blast
qed

lemma low_bits: "ucast ((ucast x OR 0x80 :: 8 word) AND 0x7F) = (take_bit 7 x :: 64 word)" for x :: "64 word"
  unfolding byte_consts(2)
  by (rule bit_word_eqI) (auto simp: bit_simps flag_bit simp del: bit_numeral_word_iff)

lemma small_byte:
  assumes "x < (0x80 :: 64 word)"
  shows "(ucast x :: 8 word) < 0x80" "ucast (ucast x AND 0x7F :: 8 word) = x"
proof -
  have "unat x < 2 ^ 7" using assms by (simp add: word_less_nat_alt)
  then have "unat (take_bit 7 x) = unat x" by (simp add: unsigned_take_bit_eq take_bit_nat_eq_self)
  then have t: "take_bit 7 x = x" by (rule word_unat_eq_iff [THEN iffD2])
  have "unat (ucast x :: 8 word) = unat x mod 256" by (simp add: unsigned_ucast_eq take_bit_eq_mod)
  moreover have "unat x < 128" using assms by (simp add: word_less_nat_alt)
  ultimately show "(ucast x :: 8 word) < 0x80" by (simp add: word_less_nat_alt)
  have "ucast (ucast x AND 0x7F :: 8 word) = take_bit 7 x"
    unfolding byte_consts by (rule bit_word_eqI) (auto simp: bit_simps)
  then show "ucast (ucast x AND 0x7F :: 8 word) = x" using t by simp
qed

lemma join_bits:
  "acc OR push_bit (7 * i) (take_bit 7 x) OR push_bit (7 * (i + 1)) (drop_bit 7 x) = acc OR push_bit (7 * i) x" for x :: "64 word"
proof (rule bit_word_eqI)
  fix n
  assume "n < LENGTH(64)"
  then show "bit (acc OR push_bit (7 * i) (take_bit 7 x) OR push_bit (7 * (i + 1)) (drop_bit 7 x)) n = bit (acc OR push_bit (7 * i) x) n"
  proof (cases "7 * (i + 1) \<le> n")
    case True
    then have "7 + (n - 7 * (i + 1)) = n - 7 * i" by simp
    then show ?thesis using True \<open>n < LENGTH(64)\<close> by (simp add: bit_simps) blast
  qed (auto simp: bit_simps)
qed

lemma read_varint_varint:
  "i < 10 \<Longrightarrow> unat x < 2 ^ (64 - 7 * i) \<Longrightarrow>
   read_varint_from i acc (varint x @ r) = Some (acc OR push_bit (7 * i) x, i + length (varint x))"
proof (induction x arbitrary: i acc rule: varint.induct)
  case (1 x)
  show ?case
  proof (cases "0x80 \<le> x")
    case False
    then have "x < 0x80" by simp
    moreover have "varint x = [ucast x]" using False by (subst varint.simps) simp
    ultimately show ?thesis using 1(2) small_byte [of x] by simp
  next
    case True
    then have "2 ^ 7 \<le> unat x" by (simp add: word_le_nat_alt)
    then have "(2 :: nat) ^ 7 < 2 ^ (64 - 7 * i)" using 1(3) by linarith
    then have "7 < 64 - 7 * i" by (rule power_less_imp_less_exp [rotated]) simp
    then have i: "i + 1 < 10" and e: "64 - 7 * i = 7 + (64 - 7 * (i + 1))" by simp_all
    have "unat (drop_bit 7 x) = unat x div 2 ^ 7" by (simp only: unat_drop_bit_eq) (simp add: drop_bit_eq_div)
    also have "\<dots> < 2 ^ (64 - 7 * (i + 1))"
      using 1(3) unfolding e by (simp add: less_mult_imp_div_less power_add mult.commute)
    finally have "read_varint_from (i + 1) (acc OR push_bit (7 * i) (take_bit 7 x)) (varint (drop_bit 7 x) @ r)
        = Some ((acc OR push_bit (7 * i) (take_bit 7 x)) OR push_bit (7 * (i + 1)) (drop_bit 7 x), i + 1 + length (varint (drop_bit 7 x)))"
      by (rule 1(1) [OF True i])
    moreover have "varint x = (ucast x OR 0x80) # varint (drop_bit 7 x)" using True by (subst varint.simps) simp
    ultimately show ?thesis
      using 1(2) more_flag [of "ucast x"] low_bits [of x] join_bits [of acc i x] by (simp add: or.assoc)
  qed
qed

lemma readVarint_varint: "readVarint (varint x @ r) = Inr (x, length (varint x))"
  using read_varint_varint [of 0 x 0 r] unsigned_less [of x, where ?'a = nat] by (simp add: readVarint_def)

lemma varint_not_Nil [simp]: "varint x \<noteq> []"
  by (subst varint.simps) simp

lemma read_varint_le: "read_varint_from i x b = Some (v, n) \<Longrightarrow> n \<le> 10"
  by (induction i x b rule: read_varint_from.induct) (auto simp: Let_def split: if_splits)

lemma varint_length: "length (varint x) \<le> 10"
  using read_varint_varint [of 0 x 0 "[]"] unsigned_less [of x, where ?'a = nat] by (auto dest: read_varint_le)

section \<open>Fields\<close>

abbreviation varint_field :: "64 word \<Rightarrow> 64 word \<Rightarrow> protoField" where
  "varint_field num v \<equiv> \<lparr>f_num = num, f_varint = v, f_bytes = [], f_isLen = False\<rparr>"

abbreviation len_field :: "64 word \<Rightarrow> bytes \<Rightarrow> protoField" where
  "len_field num d \<equiv> \<lparr>f_num = num, f_varint = 0, f_bytes = d, f_isLen = True\<rparr>"

lemma parseProto_Nil [simp]: "parseProto [] = Inr []"
  by (simp add: parseProto.simps)

lemma parse_varint_field:
  assumes "key AND 7 = 0"
  shows "parseProto (varint key @ varint v @ r) = bind_res (parseProto r) (\<lambda>fs. Inr (varint_field (drop_bit 3 key) v # fs))"
  using assms by (subst parseProto.simps) (simp add: readVarint_varint)

lemma parse_len_field:
  assumes "key AND 7 = 2" and "length d < 2 ^ 64"
  shows "parseProto (varint key @ varint (of_nat (length d)) @ d @ r) = bind_res (parseProto r) (\<lambda>fs. Inr (len_field (drop_bit 3 key) d # fs))"
proof -
  have "unat (of_nat (length d) :: 64 word) = length d" using assms(2) by (simp add: unat_of_nat take_bit_nat_eq_self)
  then show ?thesis using assms(1) by (subst parseProto.simps) (simp add: readVarint_varint)
qed

lemma small_varints:
  "varint 0x08 = [0x08]" "varint 0x70 = [0x70]" "varint 0x10 = [0x10]" "varint 0x18 = [0x18]" "varint 0x02 = [0x02]"
  "varint 0x20 = [0x20]" "varint 0x2A = [0x2A]" "varint 0x32 = [0x32]" "varint 898 = [0x82, 0x07]"
  by (simp_all add: varint.simps)

lemma read_sparse_data: "read_sparse prev (sparse_data prev vs) = Inr vs"
proof (induction vs arbitrary: prev)
  case Nil
  show ?case by (simp add: read_sparse.simps)
next
  case (Cons v vs)
  show ?case by (subst read_sparse.simps) (simp add: readVarint_varint Cons)
qed

lemma sparse_data_length: "length (sparse_data prev vs) \<le> 10 * length vs"
proof (induction vs arbitrary: prev)
  case (Cons v vs)
  show ?case using Cons [of v] varint_length [of "v - prev"] by simp
qed simp

section \<open>Round trip of a sketch\<close>

text \<open>The sketches the code builds: register arrays and lists of sparse values of fewer than \<open>2 ^ 32\<close>
  entries, never both, and a precision from 10 to 24 that is the size of the register array.\<close>

definition zeta_fits :: "zetaSketch \<Rightarrow> bool" where
  "zeta_fits s \<longleftrightarrow> length (dense s) < 2 ^ 32 \<and> length (sparse s) < 2 ^ 32 \<and> (dense s = [] \<or> sparse s = [])"

definition zeta_precise :: "zetaSketch \<Rightarrow> bool" where
  "zeta_precise s \<longleftrightarrow> 10 \<le> sint (precision s) \<and> sint (precision s) \<le> 24
     \<and> (dense s = [] \<or> length (dense s) = 2 ^ unat (precision s))"

lemma inner_parse:
  assumes "zeta_fits s"
  shows "parseProto (inner_bytes s) = Inr ((if dense s = [] then [varint_field 2 (of_nat (length (sparse s)))] else [])
       @ [varint_field 3 (precision s), varint_field 4 (sparsePrecision s)]
       @ (if dense s \<noteq> [] then [len_field 5 (dense s)] else [len_field 6 (sparse_data 0 (sparse s))]))"
proof -
  have p: "length (dense s) < 2 ^ 64" using assms by (simp add: zeta_fits_def)
  have q: "length (sparse_data 0 (sparse s)) < 2 ^ 64"
    using sparse_data_length [of 0 "sparse s"] assms by (simp add: zeta_fits_def)
  note f = parse_varint_field [of "0x10"] parse_varint_field [of "0x18"] parse_varint_field [of "0x20"]
    parse_len_field [of "0x2A" _ "[]"] parse_len_field [of "0x32" _ "[]"]
  show ?thesis using p q f by (simp add: inner_bytes_def Let_def small_varints)
qed

lemma sketch_parse:
  assumes "length (inner_bytes s) < 2 ^ 64"
  shows "parseProto (sketch_bytes s) = Inr ([varint_field 1 112, varint_field 2 (numValues s), varint_field 3 2]
       @ (if valueType s \<noteq> 0 then [varint_field 4 (valueType s)] else []) @ [len_field 112 (inner_bytes s)])"
proof -
  note f = parse_varint_field [of "0x08" "0x70"] parse_varint_field [of "0x10"] parse_varint_field [of "0x18" "0x02"]
    parse_varint_field [of "0x20"] parse_len_field [of 898 _ "[]"]
  show ?thesis using assms f by (simp add: sketch_bytes_def Let_def small_varints)
qed

lemma inner_length:
  assumes "zeta_fits s"
  shows "length (inner_bytes s) < 2 ^ 64"
proof -
  have "length (sparse_data 0 (sparse s)) \<le> 10 * 2 ^ 32"
    using sparse_data_length [of 0 "sparse s"] assms by (simp add: zeta_fits_def)
  moreover have "length (inner_bytes s) \<le> 44 + length (dense s) + length (sparse_data 0 (sparse s))"
    using varint_length [of "of_nat (length (sparse s))"] varint_length [of "precision s"] varint_length [of "sparsePrecision s"]
      varint_length [of "of_nat (length (dense s))"] varint_length [of "of_nat (length (sparse_data 0 (sparse s)))"]
    by (simp add: inner_bytes_def Let_def)
  ultimately show ?thesis using assms by (simp add: zeta_fits_def)
qed

lemma parse_sketch_bytes:
  assumes "zeta_fits s"
  shows "parseZetaSketch (sketch_bytes s) = check_sketch s"
  unfolding parseZetaSketch_def sketch_parse [OF inner_length [OF assms]]
  using assms
  by (cases "dense s = []"; cases "valueType s = 0";
      simp add: inner_parse [OF assms] outer_field_def inner_field_def zeta_fits_def read_sparse_data legacyValueTypes_def empty_sketch_def;
      intro arg_cong [where f = check_sketch] zetaSketch.equality; simp)

lemma isZetaSketch_bytes: "isZetaSketch (sketch_bytes s)"
  by (simp add: isZetaSketch_def sketch_bytes_def Let_def)

lemma check_sketch_precise: "check_sketch s = (if zeta_precise s then Inr s else Inl IncompatibleSketch)"
  by (auto simp: check_sketch_def zeta_precise_def)

text \<open>C16. A sketch is read back from its bytes unchanged: the numbers in base 128, the differences of the
  sparse values, the optional value type and the nested message are inverted exactly, and the bytes
  carry the mark by which these sketches are told apart. A sketch whose precision is out of range or does
  not match its register array is an error on the way back.\<close>

theorem zeta_roundtrip:
  assumes "zeta_fits s"
  shows "isZetaSketch (sketch_bytes s) \<and>
    parseZetaSketch (sketch_bytes s) = (if zeta_precise s then Inr s else Inl IncompatibleSketch)"
  using assms by (simp add: isZetaSketch_bytes parse_sketch_bytes check_sketch_precise)

theorem zeta_roundtrip_witness:
  "zeta_fits \<lparr>numValues = 300, valueType = 4, precision = 15, sparsePrecision = 20, sparse = [5, 1000], dense = []\<rparr> \<and>
   parseZetaSketch (sketch_bytes \<lparr>numValues = 300, valueType = 4, precision = 15, sparsePrecision = 20, sparse = [5, 1000], dense = []\<rparr>)
     = Inr \<lparr>numValues = 300, valueType = 4, precision = 15, sparsePrecision = 20, sparse = [5, 1000], dense = []\<rparr>"
  using zeta_roundtrip [of "\<lparr>numValues = 300, valueType = 4, precision = 15, sparsePrecision = 20, sparse = [5, 1000], dense = []\<rparr>"]
  by (simp add: zeta_fits_def zeta_precise_def)

section \<open>Accumulating sketches\<close>

text \<open>The bytes of several sketches added to one accumulator, and HLL_COUNT.MERGE_PARTIAL over the rows of
  a group.\<close>

definition add_sketches :: "'h dd_ops \<Rightarrow> bytes list \<Rightarrow> sketch_error + 'h sketchAccumulator" where
  "add_sketches ops bs = fold_res (add_sketch ops) empty_accumulator bs"

definition merge_partial :: "'h dd_ops \<Rightarrow> bytes option list \<Rightarrow> sketch_error + bytes option" where
  "merge_partial ops rows =
     bind_res (fold_res (HLL_COUNT_MERGE_PARTIAL_Step ops) empty_accumulator rows)
       (\<lambda>acc. Inr (HLL_COUNT_MERGE_PARTIAL_Done ops acc))"

text \<open>Sketches that may be merged, and what their union is.\<close>

definition mergeable :: "64 word \<Rightarrow> zetaSketch list \<Rightarrow> bool" where
  "mergeable vt ss \<longleftrightarrow> ss \<noteq> [] \<and> (\<forall>s \<in> set ss. zeta_fits s \<and> zeta_precise s \<and> sorted_wrt (<) (sparse s)
     \<and> (valueType s = 0 \<or> valueType s = vt) \<and> precision s = precision (hd ss)
     \<and> sparsePrecision s = sparsePrecision (hd ss) \<and> (dense s = []) = (dense (hd ss) = []))"

definition known_type :: "zetaSketch list \<Rightarrow> 64 word" where
  "known_type ss = (case filter (\<lambda>v. v \<noteq> 0) (map valueType ss) of [] \<Rightarrow> 0 | v # _ \<Rightarrow> v)"

definition union_sketch :: "zetaSketch list \<Rightarrow> zetaSketch" where
  "union_sketch ss =
     \<lparr>numValues = sum_list (map numValues ss), valueType = known_type ss,
      precision = precision (hd ss), sparsePrecision = sparsePrecision (hd ss),
      sparse = sorted_list_of_set (\<Union>s \<in> set ss. set (sparse s)),
      dense = map (\<lambda>i. Max ((\<lambda>s. dense s ! i) ` set ss)) [0..<length (dense (hd ss))]\<rparr>"

lemma strict_sorted_set: "sorted_wrt (<) xs \<Longrightarrow> sorted_list_of_set (set xs) = (xs :: 64 word list)"
  by (simp add: strict_sorted_iff sorted_list_of_set.idem_if_sorted_distinct)

lemma union_single:
  assumes "sorted_wrt (<) (sparse s)"
  shows "union_sketch [s] = s"
  using assms
  by (intro zetaSketch.equality) (simp_all add: union_sketch_def known_type_def strict_sorted_set map_nth)

lemma distinct_compact: "sorted xs \<Longrightarrow> distinct (remdups_adj xs)" for xs :: "64 word list"
  by (induction xs rule: remdups_adj.induct) (auto simp: order.antisym)

lemma compact_sort: "remdups_adj (sort (sorted_list_of_set A @ b)) = sorted_list_of_set (A \<union> set b)"
  if "finite A" for A :: "64 word set"
proof -
  let ?l = "remdups_adj (sort (sorted_list_of_set A @ b))"
  have "sorted ?l" "distinct ?l" by (simp_all add: sorted_remdups_adj distinct_compact)
  moreover have "set ?l = A \<union> set b" using that by simp
  ultimately show ?thesis by (metis sorted_list_of_set.idem_if_sorted_distinct)
qed

lemma known_type_append: "known_type (ss @ [r]) = (if known_type ss = 0 then valueType r else known_type ss)"
proof (cases "filter (\<lambda>v. v \<noteq> 0) (map valueType ss)")
  case Nil
  then show ?thesis by (simp add: known_type_def)
next
  case (Cons v vs)
  then have "v \<in> set (filter (\<lambda>v. v \<noteq> 0) (map valueType ss))" by simp
  then have "v \<noteq> 0" by simp
  then show ?thesis using Cons by (simp add: known_type_def)
qed

lemma known_type_common:
  assumes "\<And>s. s \<in> set ss \<Longrightarrow> valueType s = 0 \<or> valueType s = vt"
  shows "known_type ss = (if \<exists>s \<in> set ss. valueType s \<noteq> 0 then vt else 0)"
proof (cases "filter (\<lambda>v. v \<noteq> 0) (map valueType ss)")
  case Nil
  then show ?thesis by (auto simp: known_type_def filter_empty_conv)
next
  case (Cons v vs)
  then have "v \<in> set (filter (\<lambda>v. v \<noteq> 0) (map valueType ss))" by simp
  then obtain s where s: "s \<in> set ss" "v = valueType s" "valueType s \<noteq> 0" by auto
  then have "v = vt" using assms by blast
  then show ?thesis using Cons s by (auto simp: known_type_def)
qed

lemma mergeable_dense_length:
  assumes "mergeable vt ss" and "s \<in> set ss"
  shows "length (dense s) = length (dense (hd ss))"
proof -
  have "hd ss \<in> set ss" using assms by (simp add: mergeable_def)
  then have "zeta_precise s" "zeta_precise (hd ss)" "precision s = precision (hd ss)" "(dense s = []) = (dense (hd ss) = [])"
    using assms unfolding mergeable_def by blast+
  then show ?thesis by (auto simp: zeta_precise_def)
qed

lemma union_sparse:
  shows "remdups_adj (sort (sparse (union_sketch ss) @ sparse r)) = sparse (union_sketch (ss @ [r]))"
  using compact_sort [of "\<Union>s \<in> set ss. set (sparse s)" "sparse r"] by (simp add: union_sketch_def Un_commute)

lemma union_dense:
  assumes "ss \<noteq> []" and "length (dense r) = length (dense (hd ss))"
  shows "map (\<lambda>i. if i < length (dense r) then max (dense (union_sketch ss) ! i) (dense r ! i) else dense (union_sketch ss) ! i)
      [0..<length (dense (union_sketch ss))] = dense (union_sketch (ss @ [r]))"
  using assms by (auto simp: union_sketch_def Max_insert max.commute intro: map_cong)

lemma merge_union:
  assumes "mergeable vt (ss @ [r])" and "ss \<noteq> []"
  shows "merge (union_sketch ss) r = Inr (union_sketch (ss @ [r]))"
proof -
  have hd: "hd (ss @ [r]) = hd ss" using assms(2) by simp
  then have r: "precision r = precision (hd ss)" "sparsePrecision r = sparsePrecision (hd ss)" "(dense r = []) = (dense (hd ss) = [])"
    "length (dense r) = length (dense (hd ss))" "valueType r = 0 \<or> valueType r = vt"
    using assms(1) mergeable_dense_length [OF assms(1), of r] by (simp_all add: mergeable_def)
  have k: "known_type ss = 0 \<or> known_type ss = vt"
    using known_type_common [of ss vt] assms(1) by (auto simp: mergeable_def)
  have u: "precision (union_sketch ss) = precision (hd ss)" "sparsePrecision (union_sketch ss) = sparsePrecision (hd ss)"
    "(dense (union_sketch ss) = []) = (dense (hd ss) = [])" "valueType (union_sketch ss) = known_type ss"
    "numValues (union_sketch ss) = sum_list (map numValues ss)"
    by (simp_all add: union_sketch_def)
  have w: "precision (union_sketch (ss @ [r])) = precision (hd ss)" "sparsePrecision (union_sketch (ss @ [r])) = sparsePrecision (hd ss)"
    "valueType (union_sketch (ss @ [r])) = (if known_type ss = 0 then valueType r else known_type ss)"
    "numValues (union_sketch (ss @ [r])) = sum_list (map numValues ss) + numValues r"
    by (simp_all add: union_sketch_def hd known_type_append)
  have g: "\<not> (known_type ss \<noteq> 0 \<and> valueType r \<noteq> 0 \<and> known_type ss \<noteq> valueType r)" using r(5) k by auto
  let ?u = "(union_sketch ss)\<lparr>valueType := (if known_type ss = 0 then valueType r else known_type ss),
    numValues := sum_list (map numValues ss) + numValues r\<rparr>"
  show ?thesis
  proof (cases "dense (hd ss) = []")
    case True
    have d: "dense (union_sketch (ss @ [r])) = []" using True by (simp add: union_sketch_def hd)
    have e: "dense (union_sketch ss) = []" "dense r = []" using True u r by simp_all
    have "merge (union_sketch ss) r = Inr (?u\<lparr>sparse := remdups_adj (sort (sparse (union_sketch ss) @ sparse r))\<rparr>)"
      using g e by (simp only: merge_def Let_def u(1,2,4,5) r(1,2)) simp
    also have "?u\<lparr>sparse := remdups_adj (sort (sparse (union_sketch ss) @ sparse r))\<rparr> = union_sketch (ss @ [r])"
      unfolding union_sparse by (rule zetaSketch.equality) (simp_all add: u(1,2) w d e)
    finally show ?thesis .
  next
    case False
    have "sparse s = []" if "s \<in> set (ss @ [r])" for s
      using assms(1) that False unfolding mergeable_def hd zeta_fits_def by blast
    then have "(\<Union>s \<in> set (ss @ [r]). set (sparse s)) = {}" by auto
    then have d: "sparse (union_sketch (ss @ [r])) = []" "sparse (union_sketch ss) = []" by (auto simp: union_sketch_def)
    have e: "dense (union_sketch ss) \<noteq> []" "dense r \<noteq> []" using False u r by simp_all
    have "merge (union_sketch ss) r = Inr (?u\<lparr>dense := dense (union_sketch (ss @ [r]))\<rparr>)"
      using g e by (simp only: merge_def Let_def u(1,2,4,5) r(1,2) union_dense [OF assms(2) r(4)]) simp
    also have "?u\<lparr>dense := dense (union_sketch (ss @ [r]))\<rparr> = union_sketch (ss @ [r])"
      by (rule zetaSketch.equality) (simp_all add: u(1,2) w d)
    finally show ?thesis .
  qed
qed

lemma mergeable_butlast: "mergeable vt (ss @ [r]) \<Longrightarrow> ss \<noteq> [] \<Longrightarrow> mergeable vt ss"
  unfolding mergeable_def by (metis Un_iff hd_append2 set_append)

lemma add_sketches_union:
  assumes "mergeable vt ss"
  shows "add_sketches ops (map sketch_bytes ss) = Inr \<lparr>a_dd = None, a_ddType = 0, a_zeta = Some (union_sketch ss)\<rparr>"
  using assms
proof (induction ss rule: rev_induct)
  case Nil
  then show ?case by (simp add: mergeable_def)
next
  case (snoc r ss)
  have p: "parseZetaSketch (sketch_bytes r) = Inr r"
    using snoc.prems by (simp add: mergeable_def parse_sketch_bytes check_sketch_precise)
  show ?case
  proof (cases "ss = []")
    case True
    then have "union_sketch [r] = r" using snoc.prems by (simp add: mergeable_def union_single)
    then show ?thesis using p True by (simp add: add_sketches_def add_sketch_def empty_accumulator_def isZetaSketch_bytes)
  next
    case False
    then show ?thesis
      using p snoc.IH [OF mergeable_butlast [OF snoc.prems False]] merge_union [OF snoc.prems False]
      by (simp add: add_sketches_def fold_res_append add_sketch_def isZetaSketch_bytes)
  qed
qed

lemma union_sketch_permute:
  assumes "mergeable vt ss" and "mset ss' = mset ss"
  shows "mergeable vt ss'" and "union_sketch ss' = union_sketch ss"
proof -
  have "ss \<noteq> []" using assms(1) unfolding mergeable_def by blast
  moreover have "set ss' = set ss" using assms(2) by (rule mset_eq_setD)
  ultimately have s: "set ss' = set ss" "ss' \<noteq> []" by auto
  then have h: "hd ss' \<in> set ss" using hd_in_set by blast
  then have e: "precision (hd ss') = precision (hd ss)" "sparsePrecision (hd ss') = sparsePrecision (hd ss)"
    "(dense (hd ss') = []) = (dense (hd ss) = [])" using assms(1) unfolding mergeable_def by blast+
  show "mergeable vt ss'" using assms(1) s(2) unfolding mergeable_def s(1) e by blast
  have v: "\<And>s. s \<in> set ss \<Longrightarrow> valueType s = 0 \<or> valueType s = vt" using assms(1) unfolding mergeable_def by blast
  have "known_type ss' = known_type ss"
    using known_type_common [of ss vt, OF v] known_type_common [of ss' vt] v s(1) by simp
  moreover have "sum_list (map numValues ss') = sum_list (map numValues ss)"
    using assms(2) by (metis mset_map sum_mset_sum_list)
  ultimately show "union_sketch ss' = union_sketch ss"
    using e mergeable_dense_length [OF assms(1) h] unfolding union_sketch_def s(1) by simp
qed

lemma MERGE_PARTIAL_Step_simps [simp]:
  "HLL_COUNT_MERGE_PARTIAL_Step ops acc None = Inr acc"
  "HLL_COUNT_MERGE_PARTIAL_Step ops acc (Some b) = add_sketch ops acc b"
  by (simp_all add: HLL_COUNT_MERGE_PARTIAL_Step_def)

lemma merge_partial_steps:
  "fold_res (HLL_COUNT_MERGE_PARTIAL_Step ops) acc rows = fold_res (add_sketch ops) acc (map the (filter (\<lambda>r. r \<noteq> None) rows))"
proof (induction rows arbitrary: acc)
  case (Cons r rows)
  show ?case by (cases r) (simp_all add: Cons)
qed simp

lemma merge_partial_reads:
  assumes "mergeable vt ss" and "mset ss' = mset ss"
    and "filter (\<lambda>r. r \<noteq> None) rows = map (\<lambda>s. Some (sketch_bytes s)) ss'"
  shows "merge_partial ops rows = Inr (Some (sketch_bytes (union_sketch ss)))"
proof -
  have "map the (filter (\<lambda>r. r \<noteq> None) rows) = map sketch_bytes ss'" unfolding assms(3) by simp
  then show ?thesis
    using add_sketches_union [OF union_sketch_permute(1) [OF assms(1,2)], of ops] union_sketch_permute(2) [OF assms(1,2)]
    by (simp add: merge_partial_def merge_partial_steps add_sketches_def HLL_COUNT_MERGE_PARTIAL_Done_def
        accumulator_empty_def accumulator_bytes_def)
qed

lemma merge_partial_nulls: "merge_partial ops (replicate n None) = Inr None"
  by (simp add: merge_partial_def merge_partial_steps HLL_COUNT_MERGE_PARTIAL_Done_def accumulator_empty_def empty_accumulator_def)

lemma union_reads:
  assumes "mergeable vt ss" and "length (sparse (union_sketch ss)) < 2 ^ 32"
  shows "parseZetaSketch (sketch_bytes (union_sketch ss)) = Inr (union_sketch ss)"
proof -
  have m: "zeta_fits s \<and> zeta_precise s \<and> (dense s = []) = (dense (hd ss) = [])" if "s \<in> set ss" for s
    using assms(1) that unfolding mergeable_def by blast
  have h: "hd ss \<in> set ss" using assms(1) by (simp add: mergeable_def)
  have "zeta_precise (union_sketch ss)" using m [OF h] by (auto simp: zeta_precise_def union_sketch_def)
  moreover have "sparse (union_sketch ss) = []" if "dense (hd ss) \<noteq> []"
  proof -
    have "sparse s = []" if "s \<in> set ss" for s using m [OF that] \<open>dense (hd ss) \<noteq> []\<close> by (auto simp: zeta_fits_def)
    then have "(\<Union>s \<in> set ss. set (sparse s)) = {}" by auto
    then show ?thesis by (simp add: union_sketch_def)
  qed
  then have "zeta_fits (union_sketch ss)"
    using m [OF h] assms(2) by (cases "dense (hd ss) = []") (simp_all add: zeta_fits_def, simp_all add: union_sketch_def)
  ultimately show ?thesis by (simp add: parse_sketch_bytes check_sketch_precise)
qed

text \<open>C12. HLL_COUNT.MERGE_PARTIAL over sketches that fit together never fails and gives the bytes of their
  union, in whatever order the rows come and however many NULL rows are between them: the sparse
  values are the distinct values of all the sketches in order, each register of a dense sketch is the
  largest of its registers, the number of values added is the sum, and the value type is the one the
  sketches agree on. These bytes are read back as that union. Without any sketch the result is NULL.\<close>

theorem zeta_merge_union:
  assumes "mergeable vt ss" and "mset ss' = mset ss"
    and "filter (\<lambda>r. r \<noteq> None) rows = map (\<lambda>s. Some (sketch_bytes s)) ss'"
  shows "merge_partial ops rows = Inr (Some (sketch_bytes (union_sketch ss)))
    \<and> (length (sparse (union_sketch ss)) < 2 ^ 32 \<longrightarrow> parseZetaSketch (sketch_bytes (union_sketch ss)) = Inr (union_sketch ss))
    \<and> merge_partial ops (replicate n None) = Inr None"
  using merge_partial_reads [OF assms] merge_partial_nulls [of ops n] union_reads [OF assms(1)] by simp

abbreviation sketch_a :: zetaSketch where
  "sketch_a \<equiv> \<lparr>numValues = 2, valueType = 0, precision = 15, sparsePrecision = 20, sparse = [5, 1000], dense = []\<rparr>"

abbreviation sketch_b :: zetaSketch where
  "sketch_b \<equiv> \<lparr>numValues = 3, valueType = 4, precision = 15, sparsePrecision = 20, sparse = [2, 5, 7], dense = []\<rparr>"

abbreviation no_dd :: "unit dd_ops" where
  "no_dd \<equiv> \<lparr>dd_FromBytes = (\<lambda>_. None), dd_Union = (\<lambda>_ _. ()), dd_ToBytes = (\<lambda>_. [])\<rparr>"

theorem zeta_merge_union_witness:
  "mergeable 4 [sketch_a, sketch_b] \<and>
   merge_partial no_dd [Some (sketch_bytes sketch_b), None, Some (sketch_bytes sketch_a)]
     = Inr (Some (sketch_bytes \<lparr>numValues = 5, valueType = 4, precision = 15, sparsePrecision = 20, sparse = [2, 5, 7, 1000], dense = []\<rparr>))"
proof -
  have m: "mergeable 4 [sketch_a, sketch_b]" by (simp add: mergeable_def zeta_fits_def zeta_precise_def)
  have "(\<Union>s \<in> set [sketch_a, sketch_b]. set (sparse s)) = set [2, 5, 7, 1000 :: 64 word]" by auto
  then have "union_sketch [sketch_a, sketch_b] = \<lparr>numValues = 5, valueType = 4, precision = 15, sparsePrecision = 20,
      sparse = [2, 5, 7, 1000], dense = []\<rparr>"
    using strict_sorted_set [of "[2, 5, 7, 1000]"] by (simp add: union_sketch_def known_type_def)
  then show ?thesis
    using m zeta_merge_union [OF m, of "[sketch_b, sketch_a]" "[Some (sketch_bytes sketch_b), None, Some (sketch_bytes sketch_a)]" no_dd 1] by simp
qed

end
