(* ===== verification/Agg_Runtime.thy ===== *)
theory Agg_Runtime
  imports Values Go_Sort
begin

text \<open>
  The wrapper that drives every aggregate function over the rows of a group
  (\<open>functions/helper/aggrt_aggregator.go\<close>, \<open>aggrt_aggregate_option.go\<close>): option markers are taken off the
  arguments, IGNORE NULLS and DISTINCT drop rows, HAVING MAX or MIN keeps the rows at the extreme key
  until the end of the group, and a deferred error becomes the result.

  The aggregate itself is a step function and a final function on a state. The methods of the Go
  interface \<open>Value\<close> that the wrapper calls are a record; they are given for the values of \<open>Values\<close>.
  Decoding the arguments and the JSON text of a marker is an argument (\<open>marker\<close>).
\<close>

section \<open>Values and options\<close>

record 'v value_ops =
  v_GT :: "'v \<Rightarrow> 'v \<Rightarrow> value_error + bool"
  v_LT :: "'v \<Rightarrow> 'v \<Rightarrow> value_error + bool"
  v_EQ :: "'v \<Rightarrow> 'v \<Rightarrow> value_error + bool"
  v_key :: "'v \<Rightarrow> value_error + string"
  v_string :: "'v \<Rightarrow> string option"
  v_of_string :: "string \<Rightarrow> 'v"

datatype agg_error =
    ValueError value_error | ArgumentError string | DistinctNoArgument | ArgumentCount | Panicked

text \<open>\<open>DistinctKey\<close>; the printed form of a value that is no interval is an argument.\<close>

definition DistinctKey :: "(val \<Rightarrow> value_error + string) \<Rightarrow> val \<Rightarrow> value_error + string" where
  "DistinctKey ToString v =
     (case v of
        IntervalValue iv \<Rightarrow> Inr (''interval:'' @ dec_int (compareKey iv))
      | _ \<Rightarrow> bind_res (ToString v) (\<lambda>s. Inr (type_name v @ '':'' @ s)))"

definition val_ops :: "(val \<Rightarrow> value_error + string) \<Rightarrow> (string \<Rightarrow> val) \<Rightarrow> val value_ops" where
  "val_ops ToString mk = \<lparr>v_GT = GT, v_LT = LT, v_EQ = EQ, v_key = DistinctKey ToString, v_string = (\<lambda>_. None), v_of_string = mk\<rparr>"

datatype 'v func_option =
    OptionDistinct | OptionIgnoreNulls | OptionLimit int | OptionOrderBy "'v option" bool | OptionHaving "'v option" bool

record 'v agg_option =
  o_Distinct :: bool
  o_IgnoreNulls :: bool
  o_Limit :: "int option"
  o_OrderBy :: "('v option \<times> bool) list"
  o_Having :: "('v option \<times> bool) option"

definition no_option :: "'v agg_option" where
  "no_option = \<lparr>o_Distinct = False, o_IgnoreNulls = False, o_Limit = None, o_OrderBy = [], o_Having = None\<rparr>"

definition put_option :: "'v func_option \<Rightarrow> 'v agg_option \<Rightarrow> 'v agg_option" where
  "put_option fo opt =
     (case fo of
        OptionDistinct \<Rightarrow> opt\<lparr>o_Distinct := True\<rparr>
      | OptionIgnoreNulls \<Rightarrow> opt\<lparr>o_IgnoreNulls := True\<rparr>
      | OptionLimit i \<Rightarrow> opt\<lparr>o_Limit := Some i\<rparr>
      | OptionOrderBy v asc \<Rightarrow> opt\<lparr>o_OrderBy := o_OrderBy opt @ [(v, asc)]\<rparr>
      | OptionHaving v isMax \<Rightarrow> opt\<lparr>o_Having := Some (v, isMax)\<rparr>)"

text \<open>\<open>marker\<close> reads the text of an argument as a marker; \<open>None\<close> for any other argument.\<close>

fun parse_options :: "('v \<Rightarrow> 'v func_option option) \<Rightarrow> 'v option list \<Rightarrow> 'v option list \<Rightarrow> 'v agg_option \<Rightarrow>
    'v option list \<times> 'v agg_option" where
  "parse_options marker [] filtered opt = (filtered, opt)"
| "parse_options marker (None # args) filtered opt = parse_options marker args (filtered @ [None]) opt"
| "parse_options marker (Some v # args) filtered opt =
     (case marker v of
        None \<Rightarrow> parse_options marker args (filtered @ [Some v]) opt
      | Some fo \<Rightarrow> parse_options marker args filtered (put_option fo opt))"

definition ParseOptions :: "('v \<Rightarrow> 'v func_option option) \<Rightarrow> 'v option list \<Rightarrow> 'v option list \<times> 'v agg_option" where
  "ParseOptions marker args = parse_options marker args [] no_option"

section \<open>The aggregator\<close>

text \<open>A row as \<open>ConvertArgs\<close> delivers it.\<close>

datatype 'v step_args = Converted "'v option list" | ConvertFailed string | DeferredFailure string

type_synonym 'v group_row = "'v option list \<times> 'v agg_option"

record ('v, 's) aggregator =
  ag_distinct :: "string set"
  ag_distinctNil :: bool
  ag_having :: "'v group_row list"
  ag_deferred :: "string option"
  ag_state :: 's

definition NewAggregator :: "'s \<Rightarrow> ('v, 's) aggregator" where
  "NewAggregator init = \<lparr>ag_distinct = {}, ag_distinctNil = False, ag_having = [], ag_deferred = None, ag_state = init\<rparr>"

definition collationPackPrefix :: string where
  "collationPackPrefix = [CHR 0x00, CHR 0x01] @ ''gsqlcoll:''"

definition splitCollationPacked :: "string \<Rightarrow> string \<times> string" where
  "splitCollationPacked s =
     (let rest = drop (length collationPackPrefix) s; k = takeWhile (\<lambda>c. c \<noteq> CHR 0x01) rest
      in if k = rest then (rest, rest) else (k, drop (length k + 1) rest))"

text \<open>The key of a value and the value that is aggregated in its place.\<close>

definition distinct_key :: "'v value_ops \<Rightarrow> 'v \<Rightarrow> agg_error + string \<times> 'v" where
  "distinct_key V v =
     (case v_string V v of
        Some s \<Rightarrow>
          if take (length collationPackPrefix) s = collationPackPrefix
          then let (k, orig) = splitCollationPacked s in Inr (''collation:'' @ k, v_of_string V orig)
          else map_sum ValueError (\<lambda>k. (k, v)) (v_key V v)
      | None \<Rightarrow> map_sum ValueError (\<lambda>k. (k, v)) (v_key V v))"

type_synonym ('v, 's) step_fn = "'s \<Rightarrow> 'v option list \<Rightarrow> 'v agg_option \<Rightarrow> agg_error + 's"

definition step_row :: "('v, 's) step_fn \<Rightarrow> ('v, 's) aggregator \<Rightarrow> 'v option list \<Rightarrow> 'v agg_option \<Rightarrow> agg_error + ('v, 's) aggregator" where
  "step_row step a values opt = bind_res (step (ag_state a) values opt) (\<lambda>s. Inr (a\<lparr>ag_state := s\<rparr>))"

definition process :: "'v value_ops \<Rightarrow> ('v, 's) step_fn \<Rightarrow> ('v, 's) aggregator \<Rightarrow> 'v group_row \<Rightarrow> agg_error + ('v, 's) aggregator" where
  "process V step a row =
     (case row of (values, opt) \<Rightarrow>
        if o_IgnoreNulls opt \<and> (None \<in> set values \<or> values = []) then Inr a
        else if \<not> o_Distinct opt then step_row step a values opt
        else (case values of
          [] \<Rightarrow> Inl DistinctNoArgument
        | None # _ \<Rightarrow>
            if ag_distinctNil a then Inr a else step_row step (a\<lparr>ag_distinctNil := True\<rparr>) values opt
        | Some v # rest \<Rightarrow>
            bind_res (distinct_key V v) (\<lambda>(k, v).
              if k \<in> ag_distinct a then Inr a
              else step_row step (a\<lparr>ag_distinct := insert k (ag_distinct a)\<rparr>) (Some v # rest) opt)))"

definition aggregator_Step :: "'v value_ops \<Rightarrow> ('v \<Rightarrow> 'v func_option option) \<Rightarrow> ('v, 's) step_fn \<Rightarrow> ('v, 's) aggregator \<Rightarrow> 'v step_args \<Rightarrow>
    agg_error + ('v, 's) aggregator" where
  "aggregator_Step V marker step a stepArgs =
     (if ag_deferred a \<noteq> None then Inr a
      else case stepArgs of
        DeferredFailure e \<Rightarrow> Inr (a\<lparr>ag_deferred := Some e\<rparr>)
      | ConvertFailed e \<Rightarrow> Inl (ArgumentError e)
      | Converted args \<Rightarrow>
          let (values, opt) = ParseOptions marker args
          in if o_Having opt \<noteq> None then Inr (a\<lparr>ag_having := ag_having a @ [(values, opt)]\<rparr>)
             else process V step a (values, opt))"

text \<open>The two loops of \<open>replayHaving\<close>.\<close>

fun having_best :: "'v value_ops \<Rightarrow> 'v group_row list \<Rightarrow> 'v option \<Rightarrow> agg_error + 'v option" where
  "having_best V [] best = Inr best"
| "having_best V ((values, opt) # rows) best =
     (case o_Having opt of
        None \<Rightarrow> Inl Panicked
      | Some (None, _) \<Rightarrow> having_best V rows best
      | Some (Some k, isMax) \<Rightarrow>
          (case best of
             None \<Rightarrow> having_best V rows (Some k)
           | Some b \<Rightarrow>
               bind_res (map_sum ValueError id (if isMax then v_GT V k b else v_LT V k b)) (\<lambda>better.
                 having_best V rows (Some (if better then k else b)))))"

fun replay_rows :: "'v value_ops \<Rightarrow> ('v, 's) step_fn \<Rightarrow> 'v \<Rightarrow> 'v group_row list \<Rightarrow> ('v, 's) aggregator \<Rightarrow> agg_error + ('v, 's) aggregator" where
  "replay_rows V step best [] a = Inr a"
| "replay_rows V step best ((values, opt) # rows) a =
     (case o_Having opt of
        None \<Rightarrow> Inl Panicked
      | Some (None, _) \<Rightarrow> replay_rows V step best rows a
      | Some (Some k, _) \<Rightarrow>
          bind_res (map_sum ValueError id (v_EQ V k best)) (\<lambda>eq.
            if \<not> eq then replay_rows V step best rows a
            else bind_res (process V step a (values, opt)) (replay_rows V step best rows)))"

definition replayHaving :: "'v value_ops \<Rightarrow> ('v, 's) step_fn \<Rightarrow> ('v, 's) aggregator \<Rightarrow> agg_error + ('v, 's) aggregator" where
  "replayHaving V step a =
     (let rows = ag_having a; a = a\<lparr>ag_having := []\<rparr>
      in if rows = [] then Inr a
         else bind_res (having_best V rows None) (\<lambda>best.
           case best of None \<Rightarrow> Inr a | Some b \<Rightarrow> replay_rows V step b rows a))"

text \<open>The result is a deferred error or a value.\<close>

definition aggregator_Done :: "'v value_ops \<Rightarrow> ('v, 's) step_fn \<Rightarrow> ('s \<Rightarrow> agg_error + 'r) \<Rightarrow> ('v, 's) aggregator \<Rightarrow> agg_error + (string + 'r)" where
  "aggregator_Done V step fin a =
     (case ag_deferred a of
        Some e \<Rightarrow> Inr (Inl e)
      | None \<Rightarrow> bind_res (replayHaving V step a) (\<lambda>a. map_sum id Inr (fin (ag_state a))))"

definition run_aggregator :: "'v value_ops \<Rightarrow> ('v \<Rightarrow> 'v func_option option) \<Rightarrow> ('v, 's) step_fn \<Rightarrow> 's \<Rightarrow> ('s \<Rightarrow> agg_error + 'r) \<Rightarrow>
    'v step_args list \<Rightarrow> agg_error + (string + 'r)" where
  "run_aggregator V marker step init fin rows =
     bind_res (fold_res (aggregator_Step V marker step) (NewAggregator init) rows) (aggregator_Done V step fin)"

end
