(* ===== verification/Agg_Props.thy ===== *)
theory Agg_Props
  imports Agg_Runtime
begin

text \<open>
  Which rows of a group reach an aggregate. The selection is stated without the loops and sets of
  the code: the rows at the extreme HAVING key, of these the rows without NULL, of these the first of every
  distinct value.
\<close>

section \<open>First occurrences\<close>

definition first_of :: "('a \<Rightarrow> 'b) \<Rightarrow> 'a list \<Rightarrow> 'a list" where
  "first_of f xs = map (nth xs) (filter (\<lambda>i. f (xs ! i) \<notin> f ` set (take i xs)) [0..<length xs])"

fun firsts :: "('a \<Rightarrow> 'b) \<Rightarrow> 'b set \<Rightarrow> 'a list \<Rightarrow> 'a list" where
  "firsts f seen [] = []"
| "firsts f seen (x # xs) = (if f x \<in> seen then firsts f seen xs else x # firsts f (insert (f x) seen) xs)"

lemma firsts_snoc: "firsts f seen (xs @ [x]) = firsts f seen xs @ (if f x \<in> seen \<union> f ` set xs then [] else [x])"
  by (induction xs arbitrary: seen) auto

lemma first_of_snoc: "first_of f (xs @ [x]) = first_of f xs @ (if f x \<in> f ` set xs then [] else [x])"
proof -
  have "map (nth (xs @ [x])) (filter (\<lambda>i. f ((xs @ [x]) ! i) \<notin> f ` set (take i (xs @ [x]))) [0..<length xs]) = first_of f xs"
    unfolding first_of_def by (auto simp: nth_append intro!: map_cong filter_cong)
  then show ?thesis by (simp add: first_of_def)
qed

lemma firsts_first_of: "firsts f {} xs = first_of f xs"
  by (induction xs rule: rev_induct) (simp_all add: firsts_snoc first_of_snoc, simp add: first_of_def)

section \<open>DISTINCT and IGNORE NULLS\<close>

text \<open>The options of a call are those of each of its rows, but for the keys of ORDER BY and HAVING.\<close>

definition same_call :: "bool \<Rightarrow> bool \<Rightarrow> bool option \<Rightarrow> 'v group_row list \<Rightarrow> bool" where
  "same_call d g h rows \<longleftrightarrow>
     (\<forall>r \<in> set rows. o_Distinct (snd r) = d \<and> o_IgnoreNulls (snd r) = g \<and> map_option snd (o_Having (snd r)) = h)"

definition row_class :: "('v \<Rightarrow> string) \<Rightarrow> 'v group_row \<Rightarrow> string option" where
  "row_class k r = map_option k (hd (fst r))"

definition drop_nulls :: "bool \<Rightarrow> 'v group_row list \<Rightarrow> 'v group_row list" where
  "drop_nulls g rows = (if g then filter (\<lambda>r. fst r \<noteq> [] \<and> None \<notin> set (fst r)) rows else rows)"

definition drop_duplicates :: "bool \<Rightarrow> ('v \<Rightarrow> string) \<Rightarrow> 'v group_row list \<Rightarrow> 'v group_row list" where
  "drop_duplicates d k rows = (if d then first_of (row_class k) rows else rows)"

text \<open>Values with a key of their own; packed collation strings are left out.\<close>

definition plain_keys :: "'v value_ops \<Rightarrow> ('v \<Rightarrow> string) \<Rightarrow> 'v group_row list \<Rightarrow> bool" where
  "plain_keys V k rows \<longleftrightarrow>
     (\<forall>r \<in> set rows. fst r \<noteq> [] \<and> (\<forall>v. hd (fst r) = Some v \<longrightarrow> distinct_key V v = Inr (k v, v)))"

definition seen_classes :: "('v, 's) aggregator \<Rightarrow> string option set" where
  "seen_classes a = Some ` ag_distinct a \<union> (if ag_distinctNil a then {None} else {})"

abbreviation call_step :: "('v, 's) step_fn \<Rightarrow> 's \<Rightarrow> 'v group_row \<Rightarrow> agg_error + 's" where
  "call_step step s r \<equiv> step s (fst r) (snd r)"

lemma step_row_state: "map_sum id ag_state (step_row step a values opt) = step (ag_state a) values opt"
  by (cases "step (ag_state a) values opt") (simp_all add: step_row_def)

lemma process_skips:
  "o_IgnoreNulls (snd r) \<and> (None \<in> set (fst r) \<or> fst r = []) \<Longrightarrow> process V step a r = Inr a"
  by (cases r) (simp add: process_def)

lemma process_plain:
  "\<not> o_Distinct (snd r) \<Longrightarrow> \<not> (o_IgnoreNulls (snd r) \<and> (None \<in> set (fst r) \<or> fst r = [])) \<Longrightarrow>
   process V step a r = step_row step a (fst r) (snd r)"
  by (cases r) (auto simp: process_def)

lemma process_distinct:
  assumes "o_Distinct (snd r)" "\<not> (o_IgnoreNulls (snd r) \<and> (None \<in> set (fst r) \<or> fst r = []))"
    "fst r \<noteq> []" "\<And>v. hd (fst r) = Some v \<Longrightarrow> distinct_key V v = Inr (k v, v)"
  shows "\<exists>a'. seen_classes a' = insert (row_class k r) (seen_classes a) \<and> ag_state a' = ag_state a
      \<and> process V step a r = (if row_class k r \<in> seen_classes a then Inr a else step_row step a' (fst r) (snd r))"
proof (cases "hd (fst r)")
  case None
  then show ?thesis using assms(1-3)
    by (intro exI [of _ "a\<lparr>ag_distinctNil := True\<rparr>"])
      (cases r; cases "fst r"; auto simp: process_def row_class_def seen_classes_def)
next
  case (Some v)
  then show ?thesis using assms
    by (intro exI [of _ "a\<lparr>ag_distinct := insert (k v) (ag_distinct a)\<rparr>"])
      (cases r; cases "fst r"; auto simp: process_def row_class_def seen_classes_def)
qed

lemma step_row_seen: "step_row step a values opt = Inr a' \<Longrightarrow> seen_classes a' = seen_classes a"
  by (auto simp: step_row_def bind_res_Inr_iff seen_classes_def)

lemma process_keeps:
  assumes "process V step a r = Inr a'"
  shows "ag_having a' = ag_having a \<and> ag_deferred a' = ag_deferred a"
  using assms
  by (cases r) (auto simp: process_def step_row_def bind_res_Inr_iff split: if_splits list.splits option.splits)

lemma bind_state:
  assumes "map_sum id ag_state m = n" "\<And>a'. m = Inr a' \<Longrightarrow> map_sum id ag_state (f a') = g (ag_state a')"
  shows "map_sum id ag_state (bind_res m f) = bind_res n g"
  using assms by (cases m) auto

lemma fold_kept:
  assumes "process V step a r = step_row step a' (fst r) (snd r)" "ag_state a' = ag_state a"
    "\<And>b. seen_classes b = seen_classes a' \<Longrightarrow>
       map_sum id ag_state (fold_res (process V step) b rows) = fold_res (call_step step) (ag_state b) rest"
  shows "map_sum id ag_state (fold_res (process V step) a (r # rows)) = fold_res (call_step step) (ag_state a) (r # rest)"
  unfolding fold_res.simps assms(1) assms(2) [symmetric]
  by (rule bind_state [OF step_row_state]) (rule assms(3) [OF step_row_seen])

definition null_row :: "'v group_row \<Rightarrow> bool" where
  "null_row r \<longleftrightarrow> None \<in> set (fst r) \<or> fst r = []"

lemma drop_nulls_simps:
  "drop_nulls g [] = []"
  "g \<and> null_row r \<Longrightarrow> drop_nulls g (r # rows) = drop_nulls g rows"
  "\<not> (g \<and> null_row r) \<Longrightarrow> drop_nulls g (r # rows) = r # drop_nulls g rows"
  by (auto simp: drop_nulls_def null_row_def)

lemma same_call_Cons: "same_call d g h (r # rows) \<longleftrightarrow>
    o_Distinct (snd r) = d \<and> o_IgnoreNulls (snd r) = g \<and> map_option snd (o_Having (snd r)) = h \<and> same_call d g h rows"
  by (simp add: same_call_def)

lemma plain_keys_Cons: "plain_keys V k (r # rows) \<longleftrightarrow>
    fst r \<noteq> [] \<and> (\<forall>v. hd (fst r) = Some v \<longrightarrow> distinct_key V v = Inr (k v, v)) \<and> plain_keys V k rows"
  unfolding plain_keys_def by auto

text \<open>The rows that pass the two options, from a state of the sets on.\<close>

definition passing :: "bool \<Rightarrow> bool \<Rightarrow> ('v \<Rightarrow> string) \<Rightarrow> string option set \<Rightarrow> 'v group_row list \<Rightarrow> 'v group_row list" where
  "passing d g k seen rows = (if d then firsts (row_class k) seen (drop_nulls g rows) else drop_nulls g rows)"

lemma process_fold:
  fixes a :: "('v, 's) aggregator"
  assumes "same_call d g h rows" "d \<longrightarrow> plain_keys V k (drop_nulls g rows)"
  shows "map_sum id ag_state (fold_res (process V step) a rows)
    = fold_res (call_step step) (ag_state a) (passing d g k (seen_classes a) rows)"
  using assms
proof (induction rows arbitrary: a)
  case Nil
  show ?case by (simp add: passing_def drop_nulls_simps)
next
  case (Cons r rows)
  have o: "o_Distinct (snd r) = d" "o_IgnoreNulls (snd r) = g" and sc: "same_call d g h rows"
    using Cons.prems(1) unfolding same_call_Cons by blast+
  have pk: "d \<longrightarrow> plain_keys V k (drop_nulls g rows)"
    using Cons.prems(2) by (cases "g \<and> null_row r") (simp_all add: drop_nulls_simps plain_keys_Cons)
  note IH = Cons.IH [OF sc pk]
  consider "g \<and> null_row r" | "\<not> (g \<and> null_row r)" "\<not> d" | "\<not> (g \<and> null_row r)" d by blast
  then show ?case
  proof cases
    case 1
    then have "process V step a r = Inr a" using process_skips [of r V step a] o by (simp add: null_row_def)
    then show ?thesis using 1 IH [of a] by (simp add: passing_def drop_nulls_simps)
  next
    case 2
    have "process V step a r = step_row step a (fst r) (snd r)" using 2 o by (intro process_plain) (simp_all add: null_row_def)
    then have "map_sum id ag_state (fold_res (process V step) a (r # rows))
        = fold_res (call_step step) (ag_state a) (r # passing d g k (seen_classes a) rows)"
    proof (rule fold_kept [OF _ refl])
      fix b :: "('v, 's) aggregator" assume "seen_classes b = seen_classes a"
      then show "map_sum id ag_state (fold_res (process V step) b rows)
          = fold_res (call_step step) (ag_state b) (passing d g k (seen_classes a) rows)" using IH [of b] by (simp only:)
    qed
    moreover have "passing d g k (seen_classes a) (r # rows) = r # passing d g k (seen_classes a) rows"
      using 2 by (simp add: passing_def drop_nulls_simps)
    ultimately show ?thesis by (simp only:)
  next
    case 3
    have p: "fst r \<noteq> []" "\<And>v. hd (fst r) = Some v \<Longrightarrow> distinct_key V v = Inr (k v, v)"
      using Cons.prems(2) 3 by (simp_all add: drop_nulls_simps plain_keys_Cons)
    obtain a' where a': "seen_classes a' = insert (row_class k r) (seen_classes a)" "ag_state a' = ag_state a"
      "process V step a r = (if row_class k r \<in> seen_classes a then Inr a else step_row step a' (fst r) (snd r))"
      using process_distinct [of r V k a step, OF _ _ p] o 3 by (auto simp: null_row_def)
    show ?thesis
    proof (cases "row_class k r \<in> seen_classes a")
      case True
      then show ?thesis using a'(3) IH [of a] 3 by (simp add: passing_def drop_nulls_simps)
    next
      case False
      then have "process V step a r = step_row step a' (fst r) (snd r)" using a'(3) by simp
      then have "map_sum id ag_state (fold_res (process V step) a (r # rows))
          = fold_res (call_step step) (ag_state a) (r # passing d g k (seen_classes a') rows)"
      proof (rule fold_kept [OF _ a'(2)])
        fix b :: "('v, 's) aggregator" assume "seen_classes b = seen_classes a'"
        then show "map_sum id ag_state (fold_res (process V step) b rows)
            = fold_res (call_step step) (ag_state b) (passing d g k (seen_classes a') rows)" using IH [of b] by (simp only:)
      qed
      moreover have "passing d g k (seen_classes a) (r # rows) = r # passing d g k (seen_classes a') rows"
        using 3 False a'(1) by (simp add: passing_def drop_nulls_simps)
      ultimately show ?thesis by (simp only:)
    qed
  qed
qed

section \<open>HAVING\<close>

definition row_key :: "'v group_row \<Rightarrow> 'v option" where
  "row_key r = Option.bind (o_Having (snd r)) fst"

definition row_keys :: "'v group_row list \<Rightarrow> 'v set" where
  "row_keys rows = {k. \<exists>r \<in> set rows. row_key r = Some k}"

text \<open>\<open>extreme\<close>: a greatest (or least) element of a set by its rank.\<close>

definition extreme :: "('v \<Rightarrow> int) \<Rightarrow> bool \<Rightarrow> 'v set \<Rightarrow> 'v \<Rightarrow> bool" where
  "extreme rank m S x \<longleftrightarrow> x \<in> S \<and> (\<forall>y \<in> S. if m then rank y \<le> rank x else rank x \<le> rank y)"

lemma extreme_iff:
  assumes "extreme rank m S x"
  shows "extreme rank m S y \<longleftrightarrow> y \<in> S \<and> rank y = rank x"
proof (cases m)
  case True
  then show ?thesis using assms unfolding extreme_def by (metis order.antisym)
next
  case False
  then show ?thesis using assms unfolding extreme_def by (metis order.antisym)
qed

definition at_extreme :: "('v \<Rightarrow> int) \<Rightarrow> bool \<Rightarrow> 'v group_row list \<Rightarrow> 'v group_row list" where
  "at_extreme rank m rows = filter (\<lambda>r. \<exists>k. row_key r = Some k \<and> extreme rank m (row_keys rows) k) rows"

definition best_of :: "('v \<Rightarrow> int) \<Rightarrow> bool \<Rightarrow> 'v set \<Rightarrow> 'v option \<Rightarrow> bool" where
  "best_of rank m S b \<longleftrightarrow> (case b of None \<Rightarrow> S = {} | Some x \<Rightarrow> extreme rank m S x)"

text \<open>The values of a set \<open>K\<close> compare as integers do.\<close>

locale ranked_keys =
  fixes V :: "'v value_ops" and rank :: "'v \<Rightarrow> int" and K :: "'v set"
  assumes GT_rank: "x \<in> K \<Longrightarrow> y \<in> K \<Longrightarrow> v_GT V x y = Inr (rank y < rank x)"
    and LT_rank: "x \<in> K \<Longrightarrow> y \<in> K \<Longrightarrow> v_LT V x y = Inr (rank x < rank y)"
    and EQ_rank: "x \<in> K \<Longrightarrow> y \<in> K \<Longrightarrow> v_EQ V x y = Inr (rank x = rank y)"
begin

lemma having_best_extreme:
  assumes "same_call d g (Some m) rows" "row_keys rows \<subseteq> K" "set_option best \<subseteq> K"
  shows "\<exists>b. having_best V rows best = Inr b \<and>
    best_of rank m (row_keys rows \<union> set_option best) b"
  using assms
proof (induction rows arbitrary: best)
  case Nil
  then show ?case by (cases best) (simp_all add: best_of_def row_keys_def extreme_def)
next
  case (Cons r rows)
  obtain vs opt where r: "r = (vs, opt)" by force
  have sc: "same_call d g (Some m) rows" and K: "row_keys rows \<subseteq> K"
    using Cons.prems(1,2) by (auto simp: same_call_Cons row_keys_def)
  obtain kv where h: "o_Having opt = Some (kv, m)" using Cons.prems(1) by (auto simp: same_call_Cons r)
  show ?case
  proof (cases kv)
    case None
    then have "row_keys (r # rows) = row_keys rows" by (auto simp: row_keys_def row_key_def r h)
    moreover have "having_best V (r # rows) best = having_best V rows best" using None by (simp add: r h)
    ultimately show ?thesis using Cons.IH [OF sc K Cons.prems(3)] by (simp only:)
  next
    case (Some k)
    have ks: "row_keys (r # rows) = insert k (row_keys rows)" by (auto simp: row_keys_def row_key_def r h Some)
    then have k: "k \<in> K" using Cons.prems(2) by simp
    show ?thesis
    proof (cases best)
      case None
      then have "having_best V (r # rows) best = having_best V rows (Some k)" using Some by (simp add: r h)
      then show ?thesis using Cons.IH [OF sc K, of "Some k"] k None ks by (simp del: having_best.simps)
    next
      case (Some b)
      let ?w = "if (if m then rank b < rank k else rank k < rank b) then k else b"
      have b: "b \<in> K" using Cons.prems(3) Some by simp
      have "having_best V (r # rows) best = having_best V rows (Some ?w)"
        using GT_rank [OF k b] LT_rank [OF k b] Some \<open>kv = Some k\<close> by (simp add: r h)
      moreover have "best_of rank m (insert k (row_keys rows) \<union> set_option best) c"
        if "best_of rank m (row_keys rows \<union> set_option (Some ?w)) c" for c
        using that Some by (cases c) (auto simp: best_of_def extreme_def split: if_splits)
      moreover have "\<exists>c. having_best V rows (Some ?w) = Inr c \<and> best_of rank m (row_keys rows \<union> set_option (Some ?w)) c"
        using k b by (intro Cons.IH [OF sc K]) simp
      ultimately show ?thesis unfolding ks by metis
    qed
  qed
qed

lemma replay_rows_fold:
  assumes "same_call d g (Some m) rows" "row_keys rows \<subseteq> K" "best \<in> K"
  shows "replay_rows V step best rows a = fold_res (process V step) a (filter (\<lambda>r. \<exists>k. row_key r = Some k \<and> rank k = rank best) rows)"
  using assms(1,2)
proof (induction rows arbitrary: a)
  case (Cons r rows)
  obtain vs opt where r: "r = (vs, opt)" by force
  have sc: "same_call d g (Some m) rows" and K: "row_keys rows \<subseteq> K"
    using Cons.prems(1,2) by (auto simp: same_call_Cons row_keys_def)
  obtain kv where h: "o_Having opt = Some (kv, m)" using Cons.prems(1) by (auto simp: same_call_Cons r)
  show ?case
  proof (cases kv)
    case None
    then show ?thesis using Cons.IH [OF sc K] by (simp add: r h row_key_def)
  next
    case (Some k)
    then have "k \<in> K" using Cons.prems(2) by (auto simp: row_keys_def row_key_def r h)
    moreover have "replay_rows V step best rows
        = (\<lambda>a. fold_res (process V step) a (filter (\<lambda>r. \<exists>k. row_key r = Some k \<and> rank k = rank best) rows))"
      using Cons.IH [OF sc K] by blast
    ultimately show ?thesis
      using EQ_rank [OF _ assms(3), of k] Some by (simp add: r h row_key_def)
  qed
qed simp

lemma replay_selects:
  assumes "same_call d g (Some m) rows" "row_keys rows \<subseteq> K" "ag_having a = rows"
  shows "replayHaving V step a = fold_res (process V step) (a\<lparr>ag_having := []\<rparr>) (at_extreme rank m rows)"
proof -
  obtain b where b: "having_best V rows None = Inr b" "best_of rank m (row_keys rows) b"
    using having_best_extreme [OF assms(1,2), of None] by auto
  show ?thesis
  proof (cases b)
    case None
    then have "row_keys rows = {}" using b(2) by (simp add: best_of_def)
    then have "at_extreme rank m rows = []" by (simp add: at_extreme_def extreme_def)
    then show ?thesis using b(1) None assms(3) by (simp add: replayHaving_def Let_def)
  next
    case (Some x)
    then have x: "extreme rank m (row_keys rows) x" using b(2) by (simp add: best_of_def)
    then have "x \<in> K" using assms(2) by (auto simp: extreme_def)
    have "filter (\<lambda>r. \<exists>k. row_key r = Some k \<and> rank k = rank x) rows = at_extreme rank m rows"
      unfolding at_extreme_def
    proof (rule filter_cong [OF refl])
      fix r assume "r \<in> set rows"
      then have "k \<in> row_keys rows" if "row_key r = Some k" for k using that by (auto simp: row_keys_def)
      then show "(\<exists>k. row_key r = Some k \<and> rank k = rank x) = (\<exists>k. row_key r = Some k \<and> extreme rank m (row_keys rows) k)"
        using extreme_iff [OF x] by auto
    qed
    moreover have "rows \<noteq> []" using x by (auto simp: extreme_def row_keys_def)
    ultimately show ?thesis
      using b(1) Some assms(3) replay_rows_fold [OF assms(1,2) \<open>x \<in> K\<close>] by (simp add: replayHaving_def Let_def)
  qed
qed

end

section \<open>The rows of a group\<close>

definition selected_rows :: "bool \<Rightarrow> bool \<Rightarrow> bool option \<Rightarrow> ('v \<Rightarrow> int) \<Rightarrow> ('v \<Rightarrow> string) \<Rightarrow> 'v group_row list \<Rightarrow> 'v group_row list" where
  "selected_rows d g h rank k rows =
     drop_duplicates d k (drop_nulls g (case h of None \<Rightarrow> rows | Some m \<Rightarrow> at_extreme rank m rows))"

lemma steps_now:
  assumes "same_call d g None (map (ParseOptions marker) argss)" "ag_deferred a = None"
  shows "fold_res (aggregator_Step V marker step) a (map Converted argss) = fold_res (process V step) a (map (ParseOptions marker) argss)"
  using assms
proof (induction argss arbitrary: a)
  case (Cons args argss)
  have "aggregator_Step V marker step a (Converted args) = process V step a (ParseOptions marker args)"
    using Cons.prems by (cases "ParseOptions marker args") (simp add: aggregator_Step_def same_call_Cons)
  moreover have "fold_res (aggregator_Step V marker step) b (map Converted argss) = fold_res (process V step) b (map (ParseOptions marker) argss)"
    if "process V step a (ParseOptions marker args) = Inr b" for b
    using Cons.IH [of b] Cons.prems process_keeps [OF that] by (simp add: same_call_Cons)
  ultimately show ?case by (cases "process V step a (ParseOptions marker args)") simp_all
qed simp

lemma steps_later:
  assumes "same_call d g (Some m) (map (ParseOptions marker) argss)" "ag_deferred a = None"
  shows "fold_res (aggregator_Step V marker step) a (map Converted argss) = Inr (a\<lparr>ag_having := ag_having a @ map (ParseOptions marker) argss\<rparr>)"
  using assms
proof (induction argss arbitrary: a)
  case (Cons args argss)
  have "aggregator_Step V marker step a (Converted args) = Inr (a\<lparr>ag_having := ag_having a @ [ParseOptions marker args]\<rparr>)"
    using Cons.prems by (cases "ParseOptions marker args") (auto simp: aggregator_Step_def same_call_Cons)
  then show ?case using Cons.IH [of "a\<lparr>ag_having := ag_having a @ [ParseOptions marker args]\<rparr>"] Cons.prems
    by (simp add: same_call_Cons)
qed simp

lemma same_call_filter: "same_call d g h rows \<Longrightarrow> same_call d g h (filter P rows)"
  by (simp add: same_call_def)

lemma fold_process_keeps:
  "fold_res (process V step) a rows = Inr a' \<Longrightarrow> ag_having a' = ag_having a \<and> ag_deferred a' = ag_deferred a"
proof (induction rows arbitrary: a)
  case (Cons r rows)
  then obtain b where "process V step a r = Inr b" "fold_res (process V step) b rows = Inr a'" by (auto simp: bind_res_Inr_iff)
  then show ?case using Cons.IH [of b] process_keeps [of V step a r b] by simp
qed simp

lemma passing_selected: "passing d g k {} rows = drop_duplicates d k (drop_nulls g rows)"
  by (simp add: passing_def drop_duplicates_def firsts_first_of)

lemma fold_then_fin:
  assumes "map_sum id ag_state m = n"
  shows "bind_res m (\<lambda>a. map_sum id Inr (fin (ag_state a))) = bind_res n (\<lambda>s. map_sum id Inr (fin s))"
  using assms by (cases m) auto

lemma plain_keys_subset: "plain_keys V k rows \<Longrightarrow> set rows' \<subseteq> set rows \<Longrightarrow> plain_keys V k rows'"
  unfolding plain_keys_def by (meson subsetD)

lemma extreme_subset: "set (drop_nulls g (at_extreme rank m rows)) \<subseteq> set (drop_nulls g rows)"
  unfolding drop_nulls_def at_extreme_def by (cases g) auto

context ranked_keys
begin

lemma run_now:
  fixes step :: "('v, 's) step_fn" and init :: 's
  assumes "same_call d g None (map (ParseOptions marker) argss)"
    "d \<longrightarrow> plain_keys V k (drop_nulls g (map (ParseOptions marker) argss))"
  shows "run_aggregator V marker step init fin (map Converted argss)
    = bind_res (fold_res (call_step step) init (selected_rows d g None rank k (map (ParseOptions marker) argss)))
        (\<lambda>s. map_sum id Inr (fin s))"
proof -
  define rows where "rows = map (ParseOptions marker) argss"
  define a where "a = (NewAggregator init :: ('v, 's) aggregator)"
  have a: "ag_deferred a = None" "ag_having a = []" "ag_state a = init" "seen_classes a = {}"
    by (simp_all add: a_def NewAggregator_def seen_classes_def)
  have s: "map_sum id ag_state (fold_res (process V step) a rows) = fold_res (call_step step) init (selected_rows d g None rank k rows)"
    unfolding process_fold [OF assms, folded rows_def, where step = step and a = a] a passing_selected selected_rows_def by simp
  have "fold_res (aggregator_Step V marker step) a (map Converted argss) = fold_res (process V step) a rows"
    unfolding rows_def by (rule steps_now [OF assms(1) a(1)])
  then have "run_aggregator V marker step init fin (map Converted argss) = bind_res (fold_res (process V step) a rows) (aggregator_Done V step fin)"
    unfolding run_aggregator_def a_def [symmetric] by (rule arg_cong)
  also have "\<dots> = bind_res (fold_res (process V step) a rows) (\<lambda>a. map_sum id Inr (fin (ag_state a)))"
  proof (cases "fold_res (process V step) a rows")
    case (Inr b)
    have "ag_deferred b = None" "ag_having b = []" using fold_process_keeps [OF Inr] a(1,2) by simp_all
    then have "aggregator_Done V step fin b = map_sum id Inr (fin (ag_state b))"
      by (simp add: aggregator_Done_def replayHaving_def Let_def)
    then show ?thesis unfolding Inr by simp
  qed simp
  also note fold_then_fin [OF s, where fin = fin]
  finally show ?thesis unfolding rows_def .
qed

lemma run_later:
  fixes step :: "('v, 's) step_fn" and init :: 's
  assumes "same_call d g (Some m) (map (ParseOptions marker) argss)" "row_keys (map (ParseOptions marker) argss) \<subseteq> K"
    "d \<longrightarrow> plain_keys V k (drop_nulls g (map (ParseOptions marker) argss))"
  shows "run_aggregator V marker step init fin (map Converted argss)
    = bind_res (fold_res (call_step step) init (selected_rows d g (Some m) rank k (map (ParseOptions marker) argss)))
        (\<lambda>s. map_sum id Inr (fin s))"
proof -
  define rows where "rows = map (ParseOptions marker) argss"
  define a where "a = (NewAggregator init :: ('v, 's) aggregator)"
  define b where "b = a\<lparr>ag_having := rows\<rparr>"
  note pre = assms [folded rows_def]
  have a: "ag_deferred a = None" "ag_having a = []" "ag_state a = init" "seen_classes a = {}"
    by (simp_all add: a_def NewAggregator_def seen_classes_def)
  have b: "ag_having b = rows" "b\<lparr>ag_having := []\<rparr> = a" "ag_deferred b = None"
    by (simp_all add: b_def a_def NewAggregator_def)
  have sc: "same_call d g (Some m) (at_extreme rank m rows)"
    unfolding at_extreme_def by (rule same_call_filter [OF pre(1)])
  have pk: "d \<longrightarrow> plain_keys V k (drop_nulls g (at_extreme rank m rows))"
    using pre(3) plain_keys_subset [of V k "drop_nulls g rows" "drop_nulls g (at_extreme rank m rows)"] extreme_subset [of g rank m rows]
    by blast
  have s: "map_sum id ag_state (replayHaving V step b) = fold_res (call_step step) init (selected_rows d g (Some m) rank k rows)"
    unfolding replay_selects [OF pre(1,2) b(1)] b process_fold [OF sc pk, where step = step and a = a] a passing_selected selected_rows_def by simp
  have "fold_res (aggregator_Step V marker step) a (map Converted argss) = Inr b"
    using steps_later [OF assms(1) a(1), of V step] unfolding a b_def rows_def by simp
  then have "run_aggregator V marker step init fin (map Converted argss) = aggregator_Done V step fin b"
    unfolding run_aggregator_def a_def [symmetric] by simp
  also have "\<dots> = bind_res (replayHaving V step b) (\<lambda>a. map_sum id Inr (fin (ag_state a)))"
    unfolding aggregator_Done_def b(3) by simp
  also note fold_then_fin [OF s, where fin = fin]
  finally show ?thesis unfolding rows_def .
qed

lemmas run_selects = run_now run_later

end

section \<open>The values of the model\<close>

text \<open>The kinds of value that have an order, and the integer that stands for a value in it.\<close>

fun val_kind :: "val \<Rightarrow> nat option" where
  "val_kind (IntValue _) = Some 0"
| "val_kind (DateValue _) = Some 1"
| "val_kind (DatetimeValue _) = Some 2"
| "val_kind (TimeValue _) = Some 3"
| "val_kind (TimestampValue _) = Some 4"
| "val_kind (IntervalValue _) = Some 5"
| "val_kind _ = None"

fun val_rank :: "val \<Rightarrow> int" where
  "val_rank (IntValue i) = i"
| "val_rank (DateValue t) = t"
| "val_rank (DatetimeValue t) = t"
| "val_rank (TimeValue t) = t"
| "val_rank (TimestampValue t) = t"
| "val_rank (IntervalValue iv) = compareKey iv"
| "val_rank _ = 0"

lemma val_compare:
  assumes "val_kind x = Some n" "val_kind y = Some n"
  shows "GT x y = Inr (val_rank y < val_rank x)" "LT x y = Inr (val_rank x < val_rank y)" "EQ x y = Inr (val_rank x = val_rank y)"
  using assms
  by (cases x; cases y; simp add: int_cmp_def time_cmp_def interval_cmp_def interval_compare_def cmp_int_def)+

interpretation val_keys: ranked_keys "val_ops ts mk" val_rank "{v. val_kind v = Some n}" for ts mk n
  by unfold_locales (simp_all add: val_ops_def val_compare)

definition val_key :: "(val \<Rightarrow> string) \<Rightarrow> val \<Rightarrow> string" where
  "val_key shown v = (case v of IntervalValue iv \<Rightarrow> ''interval:'' @ dec_int (compareKey iv) | _ \<Rightarrow> type_name v @ '':'' @ shown v)"

lemma val_distinct_key:
  assumes "\<And>v. ts v = Inr (shown v)"
  shows "distinct_key (val_ops ts mk) v = Inr (val_key shown v, v)"
  by (cases v) (simp_all add: distinct_key_def val_ops_def DistinctKey_def val_key_def assms)

lemma deferred_stays:
  "ag_deferred a = Some e \<Longrightarrow> fold_res (aggregator_Step V marker step) a rows = Inr a"
  by (induction rows) (simp_all add: aggregator_Step_def)

lemma Step_keeps_deferred:
  assumes "aggregator_Step V marker step a (Converted args) = Inr b"
  shows "ag_deferred b = ag_deferred a"
  using assms process_keeps [of V step a "ParseOptions marker args" b]
  by (cases "ParseOptions marker args") (auto simp: aggregator_Step_def split: if_splits)

lemma steps_keep_deferred:
  "fold_res (aggregator_Step V marker step) a (map Converted argss) = Inr b \<Longrightarrow> ag_deferred b = ag_deferred a"
  by (induction argss arbitrary: a) (auto simp: bind_res_Inr_iff dest: Step_keeps_deferred)

lemma run_deferred:
  "run_aggregator V marker step init fin (map Converted argss @ DeferredFailure e # rest)
   = bind_res (fold_res (aggregator_Step V marker step) (NewAggregator init) (map Converted argss)) (\<lambda>_. Inr (Inl e))"
proof (cases "fold_res (aggregator_Step V marker step) (NewAggregator init) (map Converted argss)")
  case (Inr b)
  then have "ag_deferred b = None" using steps_keep_deferred [OF Inr] by (simp add: NewAggregator_def)
  then have "aggregator_Step V marker step b (DeferredFailure e) = Inr (b\<lparr>ag_deferred := Some e\<rparr>)"
    by (simp add: aggregator_Step_def)
  then show ?thesis
    using Inr deferred_stays [of "b\<lparr>ag_deferred := Some e\<rparr>" e V marker step rest]
    by (simp add: run_aggregator_def fold_res_append aggregator_Done_def)
qed (simp add: run_aggregator_def fold_res_append)

text \<open>C10. Every aggregate sees exactly the rows its call asks for. For a call with any of DISTINCT, IGNORE
  NULLS and HAVING MAX or MIN, over keys of one ordered type, the step function runs on the rows whose
  HAVING key is the greatest (least) of the group, of these on the rows without a NULL argument, of these on
  the first row of every distinct first argument, in the order of the rows, and the result is that of
  the final function. This holds for every step and final function, errors included. A deferred error in an
  argument becomes the result whatever follows, unless an earlier row failed.\<close>

theorem aggregator_selects:
  assumes "same_call d g h (map (ParseOptions marker) argss)"
    "row_keys (map (ParseOptions marker) argss) \<subseteq> {v. val_kind v = Some n}"
    "d \<longrightarrow> list_all (\<lambda>r. fst r \<noteq> []) (drop_nulls g (map (ParseOptions marker) argss))"
    "\<And>v. ts v = Inr (shown v)"
  shows "run_aggregator (val_ops ts mk) marker step init fin (map Converted argss)
      = bind_res (fold_res (call_step step) init (selected_rows d g h val_rank (val_key shown) (map (ParseOptions marker) argss)))
          (\<lambda>s. map_sum id Inr (fin s))
    \<and> run_aggregator (val_ops ts mk) marker step init fin (map Converted argss @ DeferredFailure e # rest)
      = bind_res (fold_res (aggregator_Step (val_ops ts mk) marker step) (NewAggregator init) (map Converted argss)) (\<lambda>_. Inr (Inl e))"
proof
  have p: "d \<longrightarrow> plain_keys (val_ops ts mk) (val_key shown) (drop_nulls g (map (ParseOptions marker) argss))"
    using assms(3) val_distinct_key [OF assms(4)] by (simp add: plain_keys_def list_all_iff)
  show "run_aggregator (val_ops ts mk) marker step init fin (map Converted argss)
      = bind_res (fold_res (call_step step) init (selected_rows d g h val_rank (val_key shown) (map (ParseOptions marker) argss)))
          (\<lambda>s. map_sum id Inr (fin s))"
  proof (cases h)
    case None
    then show ?thesis using assms(1) p by (simp only: val_keys.run_now)
  next
    case (Some m)
    show ?thesis using assms(1) unfolding Some by (rule val_keys.run_later [OF _ assms(2) p])
  qed
qed (rule run_deferred)

lemma row_keys_code [code]: "row_keys rows = set (List.map_filter row_key rows)"
  by (force simp: row_keys_def map_filter_def)

lemma at_extreme_code [code]:
  "at_extreme rank m rows = (let ks = row_keys rows in filter (\<lambda>r. case row_key r of None \<Rightarrow> False | Some k \<Rightarrow> extreme rank m ks k) rows)"
  by (simp add: at_extreme_def Let_def) (rule filter_cong [OF refl], simp split: option.splits)

text \<open>Five rows of \<open>f(DISTINCT x IGNORE NULLS HAVING MAX k)\<close>, with 9, 9 and 7 at the greatest key; the first
  argument of a row is the value, and markers are dates.\<close>

definition date_marker :: "val \<Rightarrow> val func_option option" where
  "date_marker v = (case v of DateValue t \<Rightarrow> Some (if t = 0 then OptionDistinct else if t = 1 then OptionIgnoreNulls else OptionHaving (Some (IntValue t)) True) | _ \<Rightarrow> None)"

abbreviation marked_row :: "int option \<Rightarrow> int \<Rightarrow> val option list" where
  "marked_row x k \<equiv> [map_option IntValue x, Some (DateValue 0), Some (DateValue 1), Some (DateValue k)]"

abbreviation collect_step :: "(val, int list) step_fn" where
  "collect_step s vs opt \<equiv> (case vs of [Some (IntValue i)] \<Rightarrow> Inr (s @ [i]) | _ \<Rightarrow> Inl Panicked)"

definition int_text :: "val \<Rightarrow> string" where
  "int_text v = (case v of IntValue i \<Rightarrow> dec_int i | _ \<Rightarrow> [])"

abbreviation marked_rows :: "val option list list" where
  "marked_rows \<equiv> [marked_row (Some 5) 3, marked_row (Some 9) 4, marked_row None 4, marked_row (Some 9) 4, marked_row (Some 7) 4]"

theorem aggregator_selects_witness:
  "run_aggregator (val_ops (\<lambda>v. Inr (int_text v)) (\<lambda>_. IntValue 0)) date_marker collect_step [] Inr (map Converted marked_rows)
   = Inr (Inr [9, 7])"
proof -
  have p: "map (ParseOptions date_marker) marked_rows
      = map (\<lambda>(x, k). ([map_option IntValue x], \<lparr>o_Distinct = True, o_IgnoreNulls = True, o_Limit = None, o_OrderBy = [], o_Having = Some (Some (IntValue k), True)\<rparr>))
          [(Some 5, 3), (Some 9, 4), (None, 4), (Some 9, 4), (Some 7, 4)]"
    by (simp add: ParseOptions_def date_marker_def put_option_def no_option_def)
  have s: "same_call True True (Some True) (map (ParseOptions date_marker) marked_rows)"
    unfolding p by code_simp
  have k: "row_keys (map (ParseOptions date_marker) marked_rows) \<subseteq> {v. val_kind v = Some 0}"
    unfolding p by (auto simp: row_keys_code map_filter_def row_key_def)
  have n: "True \<longrightarrow> list_all (\<lambda>r. fst r \<noteq> []) (drop_nulls True (map (ParseOptions date_marker) marked_rows))"
    unfolding p by (simp add: drop_nulls_def)
  have r: "map fst (selected_rows True True (Some True) val_rank (val_key int_text) (map (ParseOptions date_marker) marked_rows))
      = [[Some (IntValue 9)], [Some (IntValue 7)]]"
    unfolding p by code_simp
  then obtain o1 o2 where "selected_rows True True (Some True) val_rank (val_key int_text) (map (ParseOptions date_marker) marked_rows)
      = [([Some (IntValue 9)], o1), ([Some (IntValue 7)], o2)]"
    by (auto simp: map_eq_Cons_conv)
  then show ?thesis
    using aggregator_selects [where ts = "\<lambda>v. Inr (int_text v)" and shown = int_text and mk = "\<lambda>_. IntValue 0"
        and step = collect_step and init = "[]" and fin = Inr, OF s k n] by simp
qed

end
