(* ===== verification/Spec2Isabelle.thy ===== *)
theory Spec2Isabelle
  imports Interval_Ops MR_Props Date_Props Range_Functions String_Props Script_Split Script_Text Range_Window
    JSON_Extract JSON_Edit Window_Emulation Name_Path Rewrite_Pipeline Cast_Bytes Cast_Number Cast_Time_Props Zeta_Props Agg_Props
begin

text \<open>
  Verification of googlesqlite, a \<open>database/sql\<close> driver written in Go that runs GoogleSQL on
  SQLite.

  \<^bold>\<open>The program.\<close> The text of a statement first passes a pipeline of rewrites
  (\<open>internal/analyzer.go\<close>, \<open>script_vars.go\<close>, \<open>gap_fill.go\<close>, \<open>range_sessionize.go\<close>, \<open>iferror_rewrite.go\<close>,
  \<open>tvf_stubs.go\<close>). A third-party GoogleSQL analyzer then resolves it, the resolved tree is printed as
  SQLite SQL (\<open>internal/formatter.go\<close>), and SQLite executes it. What SQLite cannot do itself is done by
  functions the driver registers: scalar functions (\<open>internal/functions\<close>), window functions that SQLite
  drives row by row or that scan all rows (\<open>internal/functions/window\<close>), and the MATCH_RECOGNIZE matcher
  (\<open>internal/match_recognize.go\<close>). They work on typed values (\<open>internal/value\<close>,
  \<open>internal/intervalvalue\<close>) and on JSON texts (\<open>internal/functions/json\<close>). Names are completed by the
  name path of the connection (\<open>internal/name_path.go\<close>). A command-line shell (\<open>internal/cli\<close>) splits its
  input into statements. CAST with FORMAT (\<open>internal/cast_format*.go\<close>) and the FORMAT_ and PARSE_ functions
  (\<open>functions/helper/datetime_time_parser.go\<close>) print and read values by format strings, and serialized
  HyperLogLog++ sketches are merged by \<open>functions/hll\<close>. The development models the code on both sides of the analyzer: the
  rewrites of the query text, and the run-time layer in which the driver computes results itself.

  \<^bold>\<open>Conventions.\<close> A Go integer of \<open>w\<close> bits is an \<^typ>\<open>int\<close>; where the code can overflow the wrap-around is
  written out (\<open>i32\<close>, \<open>i64\<close>), and Go's truncating division is \<open>sdiv\<close>, \<open>smod\<close>. Errors are the left
  summand of a result, with one constructor per error of the code; a panic is an error of its own. A
  NULL or nil is \<open>None\<close>. Loops are recursive functions with a termination proof; the one
  loop that need not end on arbitrary input, the walk back to the start of a week (\<open>walk_back\<close>),
  is a \<open>partial_function\<close> with \<open>None\<close> for no result, and it is proved to return. No fuel is used
  except the two limits the code itself has: 10,000,000 array elements (\<open>generateDateArray\<close>) and
  65536 range buckets (\<open>maxBuckets\<close>); the pattern compiler has its own limit \<open>mrMaxProgram\<close>. The loops
  that rewrite calls until none is found are \<open>partial_function\<close>s too (\<open>rewrite_calls\<close>, \<open>iferror_loop\<close>,
  \<open>tvf_loop\<close>); the last is proved to end for every query. Text is a list of bytes, and a position in it a
  \<^typ>\<open>nat\<close>; where the Go library folds letters beyond ASCII the model has the characters concerned. Code
  outside the repository is an argument of the model: the sorting of \<open>sort.Slice\<close> (locale
  \<open>slice_sort\<close>), the decoding and encoding of JSON documents, the evaluation of an expression by
  SQLite, the time zone of the process and of a named zone (\<open>local_zone\<close>), the order in which Go visits
  a map, the sketches of the package go-hll (\<open>dd_ops\<close>), and the JSON text of an option marker.

  \<^bold>\<open>Theories.\<close>

  \<^item> \<open>Go_Base\<close>, \<open>Go_Strings\<close>: machine integers, truncating division, results and the string
    functions of the Go library that the code calls, with the lemma collections the components share.
  \<^item> \<open>Interval_Value\<close>, \<open>Interval_Text\<close>: the INTERVAL struct of \<open>intervalvalue.go\<close>, its canonical form, its
    two printed forms and the parser. \<open>Go_Time\<close>: the proleptic Gregorian calendar behind
    \<open>time.Time\<close>. \<open>Values\<close>: the typed values with their comparison and arithmetic (\<open>value_*.go\<close>).
    \<open>Interval_Ops\<close>: the INTERVAL functions (\<open>functions/interval\<close>), and the claims about intervals:
    building from parts, addition against subtraction, multiplication against division with its rounding error,
    justification, and that both texts of every interval built from parts read back as that interval.
  \<^item> \<open>MR_Compiler\<close>, \<open>MR_Machine\<close>: the compiler from row patterns to a program of a Pike machine and the
    machine, the scan over start rows and the window state around it. \<open>MR_Fragments\<close>, \<open>MR_Correct\<close>:
    what code fragments do, and the invariant of the machine. \<open>MR_Props\<close>: the compiled program has
    exactly the matches of the pattern, compiled code is closed under jumps, the machine terminates
    and finds a match exactly when there is one (a longest one in longest mode), and in every
    reachable window state the result is that of a left-to-right scan.
  \<^item> \<open>Date_Functions\<close>: DATE, DATETIME, TIME and TIMESTAMP arithmetic, truncation, differences, EXTRACT,
    LAST_DAY, buckets and date arrays (\<open>functions/date\<close>, \<open>datetime\<close>, \<open>time\<close>, \<open>timestamp\<close>,
    \<open>helper/bucket.go\<close>). \<open>Date_Periods\<close>: the locale \<open>date_scale\<close> of a division of the calendar into periods,
    interpreted for every date part; truncation, last day and difference are its floor, its last
    element and its index difference. \<open>Date_Months\<close>: one specification of month arithmetic for the
    three routines of the code. \<open>Date_Props\<close>: the claims.
  \<^item> \<open>Range_Functions\<close>: RANGE values (\<open>functions/rangefn\<close>), with the locale \<open>range_element\<close> interpreted for
    the three element types: overlap, intersection, containment and bucket arrays are the set operations
    on points they stand for.
  \<^item> \<open>String_Functions\<close>, \<open>String_Props\<close>: parts, padding, search, splitting, TRANSLATE, trimming,
    EDIT_DISTANCE and SOUNDEX on STRING and BYTES (\<open>functions/string\<close>); the edit distance is the length of a
    shortest edit script, INSTR finds the requested occurrence, splitting is undone by joining.
  \<^item> \<open>Script_Split\<close>: the statement splitter of the shell (\<open>cli/script.go\<close>). A scan that ends before a
    semicolon does not depend on what follows it, so incremental splitting of the input agrees
    with splitting the whole text.
  \<^item> \<open>Window_Native\<close>, \<open>Window_Frames\<close>: the window aggregates (\<open>window/native.go\<close>, \<open>window/distinct.go\<close>). The
    locale \<open>frame_aggregate\<close> is the contract between an aggregate and whoever slides its frame; it is
    interpreted for every aggregate. \<open>Range_Frame\<close>, \<open>Range_Window\<close>: RANGE frames over typed keys
    (\<open>window/range_frame.go\<close>), a client of that contract: reusing the inner state gives the result of a
    fresh one, and for exact keys the frame found by bisection holds exactly the rows between the boundaries,
    which are described by places along the ORDER BY, apart from the code that shifts keys.
  \<^item> \<open>Window_Scan\<close>, \<open>Window_Emulation\<close>: the window functions that keep all rows and recompute the frame of
    one row (\<open>window/option.go\<close>, \<open>window/funcs.go\<close>). The frame is described on the input rows: positions
    around the row in an arrangement of its partition, integer keys in lexicographic order; row numbers are gapless, and ranks and positional functions are right on
    a part of their inputs that the claims state.
  \<^item> \<open>JSON_Path\<close>, \<open>JSON_Extract\<close>: the path parser and the evaluator on raw documents
    (\<open>json/jsonpath.go\<close>). Documents are trees with a printed form; extracting from the text is
    navigating in the tree. \<open>JSON_Tree\<close>, \<open>JSON_Edit\<close>: JSON_SET, JSON_REMOVE and JSON_STRIP_NULLS
    (\<open>json/json_mutators.go\<close>, \<open>json/json_strip_nulls.go\<close>): what is found at the path afterwards, and that
    other paths keep their values.
  \<^item> \<open>Name_Path\<close>: the name path of a connection and the completion of partial names.
  \<^item> \<open>Sql_Lex\<close>, \<open>Sql_Rewrite\<close>: the scanners of the rewrites and the rewrites of \<open>analyzer.go\<close>.
    \<open>Script_Vars\<close>: DECLARE, SET and substitution (\<open>script_vars.go\<close>): splitting loses nothing and the variable
    table keeps its shape. \<open>Script_Text\<close>: SQL text described from outside as lexical pieces; on such text a
    script is cut exactly between its statements and exactly the identifiers that name variables are replaced.
    \<open>Sql_Calls\<close>, \<open>Call_Props\<close>: the rewrites of calls. Argument texts are described by trees, the locale
    \<open>piece_scanner\<close> is the contract of a scanner that passes over them, interpreted for the
    parenthesis matcher and the argument splitter; calls are found and split as written, and the
    loop of the stubs ends. \<open>Rewrite_Pipeline\<close> and the end of this theory: the pipeline as a whole.
  \<^item> \<open>Cast_Bytes\<close>, \<open>Cast_Number\<close>: CAST with FORMAT between BYTES and STRING, and from numbers to STRING
    (\<open>cast_format.go\<close>, \<open>cast_format_numeric.go\<close>). The encoders run on 64-bit accumulators; they are related
    to bit lists, and every format is undone by the opposite cast. A number has the width of its format
    and the digits of its rounded value.
  \<^item> \<open>Time_Format\<close>, \<open>Time_Format_Props\<close>: the format elements of FORMAT_DATE, PARSE_DATE and their
    relatives. A relation \<open>reads\<close> composes what the parsers of the elements do; printing with the year
    first is undone by parsing, and with the year last it is undone except on 29 February.
    \<open>Cast_Time\<close>, \<open>Cast_Time_Props\<close>: CAST with FORMAT between date/time values and STRING
    (\<open>cast_format_datetime.go\<close>, \<open>cast_format_parse.go\<close>): printing in any order of the elements is undone.
  \<^item> \<open>Zeta_Sketch\<close>, \<open>Zeta_Props\<close>: the wire format, the merge and the accumulator of GoogleSQL sketches, on words
    of 8 and 64 bits (\<open>hll/zetasketch.go\<close>). Bytes are read back, and merging gives the union of the sketches in
    any order.
  \<^item> \<open>Agg_Runtime\<close>, \<open>Agg_Props\<close>: the wrapper that drives every aggregate function
    (\<open>helper/aggrt_aggregator.go\<close>, \<open>helper/aggrt_aggregate_option.go\<close>), for any step and final function. The
    locale \<open>ranked_keys\<close> states that values compare as integers do and is interpreted for the ordered kinds of
    value; the rows that reach the aggregate are those that HAVING, IGNORE NULLS and DISTINCT select.
    \<open>Go_Sort\<close>: the contract of \<open>sort.Slice\<close> that the window functions share.

  \<^bold>\<open>Defects.\<close> Theorems that end a component state where the code departs from its contract on concrete
  inputs, or say exactly on which inputs it does (\<open>year_last_parse\<close>): \<open>interval_defects\<close>, \<open>date_part_defects\<close>,
  \<open>split_defects\<close>, \<open>rewrite_defects\<close>, \<open>time_format_defects\<close>, and parts of \<open>scan_rank\<close> and \<open>scan_positional\<close>. Further
  theorems do so for single functions: \<open>literal_scan_defects\<close>, \<open>datetime_trunc_seconds\<close>,
  \<open>range_contains_inclusion\<close>, \<open>translate_map\<close>, \<open>bit_windows_without_null\<close>, \<open>json_quoted_path_split\<close>,
  \<open>name_path_defects\<close>.

  \<^bold>\<open>Not modelled.\<close> The analyzer, the formatter and the catalog work on the syntax tree of the
  third-party analyzer, which is not part of the repository. The driver, the connections, EXPORT DATA and
  the tools are input and output. Geography, protocol buffers, encryption, JavaScript functions and the
  driver's own sketches call third-party libraries. Floating-point aggregates, averages and the estimates of
  a sketch need IEEE arithmetic. Plain casts go through the types of the third-party analyzer; of a cast with a format the
  dispatch on the argument types is left out. Regular expressions, Unicode normalisation, the inspection of decoded
  JSON documents, the value encoding, arrays and operators are not modelled.
\<close>

section \<open>The rewrites of a query together\<close>

text \<open>
  C5. The whole pipeline of rewrites that runs before a query is parsed ends and leaves an ordinary
  query alone: without question marks, without any of the words that the rewrites look for and
  without DECLARE or blank statements the analyzer gets the query byte for byte, except for a last
  semicolon, with the same arguments, and no script variable appears.\<close>

theorem plain_query_unchanged:
  assumes "plain_query q"
    "list_all (\<lambda>stmt. TrimSpace stmt \<noteq> [] \<and> parseDeclare (TrimSpace stmt) = None) (splitTopLevelStatements q)"
  shows "\<exists>q'. rewrite_query qr ff (Some []) q args = Some (q', args, Some []) \<and> (q' = q \<or> q' @ '';'' = q)"
proof -
  have p: "applyMixedParameterRewrite q args = (q, args)"
    using assms(1) by (simp add: plain_query_def applyMixedParameterRewrite_def)
  obtain q' where q': "applyScriptVariables qr ff q (Some []) = (q', Some [])" "q' = q \<or> q' @ '';'' = q"
    using script_passthrough [OF assms(2), of qr ff] by (metis prod.collapse)
  have "\<not> contains (upper_text q') w" if "\<not> contains (upper_text q) w" for w
    using q'(2) that contains_app [of "upper_text q'" w "'';''"] by (auto simp: upper_semicolon)
  then have "applySQLRewritePipeline q' sqlRewritePipelinePostScriptVars = Some q'"
    using assms(1) by (intro post_pipeline_same) (simp add: plain_query_def)
  then show ?thesis using p q' pre_pipeline_same [OF assms(1)] by (simp add: rewrite_query_def)
qed

theorem plain_query_unchanged_witness:
  "\<exists>q'. rewrite_query (\<lambda>_. None) (\<lambda>x :: unit. []) (Some []) ''SELECT 1'' [([] :: string, 7 :: int)] = Some (q', [([], 7)], Some [])
     \<and> (q' = ''SELECT 1'' \<or> q' @ '';'' = ''SELECT 1'')"
proof (rule plain_query_unchanged)
  have s: "splitTopLevelStatements ''SELECT 1'' = [''SELECT 1'']"
    by (simp add: splitTopLevelStatements_def split_from.simps skip_len_def is_quote_def)
  have t: "TrimSpace ''SELECT 1'' = ''SELECT 1''" by (rule TrimSpace_graphic) (simp add: graphic_def)
  have "TrimLeftSpace ''SELECT 1'' = ''SELECT 1''"
    unfolding TrimLeftSpace_def by (rule trim_left_graphic) (simp add: graphic_def)
  then have "parseDeclare ''SELECT 1'' = None" by (simp add: parseDeclare_def matchKeyword_def lower_char_table)
  then show "list_all (\<lambda>stmt. TrimSpace stmt \<noteq> [] \<and> parseDeclare (TrimSpace stmt) = None) (splitTopLevelStatements ''SELECT 1'')"
    using s t by simp
  have u: "upper_text ''SELECT 1'' = ''SELECT 1''" by (simp add: upper_char_def byte_in_def)
  have "\<not> contains ''SELECT 1'' w" if "CHR ''A'' \<in> set w \<or> CHR ''I'' \<in> set w \<or> CHR ''G'' \<in> set w \<or> CHR ''V'' \<in> set w \<or> CHR ''p'' \<in> set w" for w
    using that contains_set [of "''SELECT 1''" w] by auto
  moreover have "\<not> typeAliasNeedle ''SELECT 1''" by (simp add: typeAliasNeedle_def subslice_def lower_char_table upt_rec numeral_eq_Suc)
  moreover have "\<not> timestampNeedle ''SELECT 1''" by (simp add: timestampNeedle_def subslice_def lower_char_table upt_rec numeral_eq_Suc)
  ultimately show "plain_query ''SELECT 1''" unfolding plain_query_def u by simp
qed

text \<open>
  Where the rewrites depart from their documentation: INT is not replaced in a column that is
  declared NOT NULL nor in a later field of a STRUCT; with x = -1 the difference \<open>5-x\<close> becomes 5
  and a comment, and a query parameter named like a variable is replaced too; a text value that
  ends in a backslash becomes a literal that runs over the rest of the statement; a table whose name
  begins with TABLE loses these letters in a stub, and a BYTES literal counts as a STRING.\<close>

theorem rewrite_defects:
  "alias_word ''(a INT NOT NULL)'' 3 6 = ''INT'' \<and> alias_word ''STRUCT<STRING, INT>'' 15 18 = ''INT''
   \<and> evaluateScriptVariableExpr (\<lambda>_. Some (SInt (- 1))) ff ''0-1'' = ''-1''
   \<and> substituteScriptVariables ''5-x'' [(''x'', ''-1'')] = ''5--1''
   \<and> skipLiteralOrComment ''5--1'' 1 = Some (length ''5--1'')
   \<and> substituteScriptVariables ''@x'' [(''x'', ''1'')] = ''@1''
   \<and> evaluateScriptVariableExpr (\<lambda>_. Some (SText [CHR 0x5C])) ff ''t'' = [CHR 0x22, CHR 0x5C, CHR 0x22]
   \<and> skipLiteralOrComment ([CHR 0x22, CHR 0x5C, CHR 0x22] @ '' FROM t'') 0 = Some (3 + length '' FROM t'')
   \<and> tvfTableRef [''TABLETS''] = ''TS''
   \<and> literalTypeName [CHR ''b'', CHR 0x27, CHR ''x'', CHR 0x27] = Some ''STRING''"
  using alias_position_defects script_variable_defects [of ff] call_rewrite_defects by blast

end
